(* ===== verification/Prelude.thy ===== *)
theory Prelude
  imports Main "HOL-Library.Word"
begin

unbundle bit_operations_syntax

text \<open>
  Shared types, the result type of fallible operations and the word lemmas of the development.

  Addresses and sizes of the code (\<open>char*\<close>, \<open>size_t\<close>, \<open>long long\<close>) are 64-bit words, C \<open>int\<close>s are
  32-bit words and bytes are 8-bit words, so every addition and subtraction wraps as the
  compiled code does. An operation that can end the process returns a value of \<open>crash + 'a\<close>:
  a failed \<open>assert\<close> or \<open>nolibc_assert\<close> and every \<open>asm("ud2")\<close> is \<open>Inl Ud2\<close>, the use of a null
  pointer \<open>Inl NullDeref\<close>, an array index outside its array \<open>Inl OutOfBounds\<close>, taking a lock
  that the same thread holds \<open>Inl Deadlock\<close>, an access that the processor refuses \<open>Inl Segv\<close>,
  \<open>exit\<close> is \<open>Inl Exit\<close> and a division by zero \<open>Inl DivZero\<close>. \<open>Inl NoFuel\<close> is a loop that has not
  ended within the number of iterations the model allows it.
\<close>

section \<open>Machine types\<close>

type_synonym u8 = "8 word"
type_synonym u64 = "64 word"
type_synonym c_int = "32 word"
type_synonym addr = "64 word"

text \<open>\<open>PAGE_SIZE\<close>, \<open>TS_MONITOR\<close> and \<open>TS_APPLICATION\<close> of \<open>src/src/include/gsreldata.h\<close>; the
  protection and mapping flags of \<open>sys/mman.h\<close>.\<close>

abbreviation (input) PAGE_SIZE :: u64 where "PAGE_SIZE \<equiv> 4096"

abbreviation (input) TS_MONITOR :: c_int where "TS_MONITOR \<equiv> 0"
abbreviation (input) TS_APPLICATION :: c_int where "TS_APPLICATION \<equiv> 1"

abbreviation (input) PROT_NONE :: c_int where "PROT_NONE \<equiv> 0"
abbreviation (input) PROT_READ :: c_int where "PROT_READ \<equiv> 1"
abbreviation (input) PROT_WRITE :: c_int where "PROT_WRITE \<equiv> 2"
abbreviation (input) PROT_EXEC :: c_int where "PROT_EXEC \<equiv> 4"

abbreviation (input) MAP_SHARED :: c_int where "MAP_SHARED \<equiv> 1"
abbreviation (input) MAP_PRIVATE :: c_int where "MAP_PRIVATE \<equiv> 2"
abbreviation (input) MAP_FIXED :: c_int where "MAP_FIXED \<equiv> 16"
abbreviation (input) MAP_ANONYMOUS :: c_int where "MAP_ANONYMOUS \<equiv> 32"

section \<open>Results of operations that can end the process\<close>

datatype crash = Ud2 | NullDeref | OutOfBounds | Deadlock | Exit | NoFuel | Segv | DivZero

type_synonym 'a res = "crash + 'a"

definition rbind :: "'a res \<Rightarrow> ('a \<Rightarrow> 'b res) \<Rightarrow> 'b res" where
  "rbind m f = (case m of Inl c \<Rightarrow> Inl c | Inr x \<Rightarrow> f x)"

definition nolibc_assert :: "bool \<Rightarrow> 'a res \<Rightarrow> 'a res" where
  "nolibc_assert b k = (if b then k else Inl Ud2)"

named_theorems res_simps \<open>equations that take apart a successful or failed run\<close>

lemma rbind_Inr [simp]: "rbind (Inr x) f = f x"
  by (simp add: rbind_def)

lemma rbind_Inl [simp]: "rbind (Inl c) f = Inl c"
  by (simp add: rbind_def)

lemma rbind_eq_Inr [res_simps]: "rbind m f = Inr y \<longleftrightarrow> (\<exists>x. m = Inr x \<and> f x = Inr y)"
  by (cases m) auto

lemma rbind_eq_Inl: "rbind m f = Inl c \<longleftrightarrow> m = Inl c \<or> (\<exists>x. m = Inr x \<and> f x = Inl c)"
  by (cases m) auto

lemma nolibc_assert_True [simp]: "nolibc_assert True k = k"
  by (simp add: nolibc_assert_def)

lemma nolibc_assert_False [simp]: "nolibc_assert False k = Inl Ud2"
  by (simp add: nolibc_assert_def)

lemma nolibc_assert_eq_Inr [res_simps]: "nolibc_assert b k = Inr y \<longleftrightarrow> b \<and> k = Inr y"
  by (simp add: nolibc_assert_def)

lemma rbind_cong [fundef_cong]:
  "m = n \<Longrightarrow> (\<And>x. n = Inr x \<Longrightarrow> f x = g x) \<Longrightarrow> rbind m f = rbind n g"
  by (cases n) auto

section \<open>Word arithmetic without wrap-around\<close>

named_theorems word_nat \<open>word comparisons and sums read as natural numbers\<close>

lemmas word_order_nat [word_nat] = word_less_nat_alt word_le_nat_alt

lemma unat_plus_nowrap [word_nat]:
  fixes a b :: u64
  shows "unat a + unat b < 2 ^ 64 \<Longrightarrow> unat (a + b) = unat a + unat b"
  by (simp add: unat_add_lem [THEN iffD1])

lemma unat_minus_le [word_nat]:
  fixes a b :: u64
  shows "unat b \<le> unat a \<Longrightarrow> unat (a - b) = unat a - unat b"
  by (simp add: unat_sub word_le_nat_alt)

lemma unat_lt_2p64: "unat (a :: u64) < 2 ^ 64"
  using unsigned_less [of a] by simp

lemma word_eq_nat: "(a :: u64) = b \<longleftrightarrow> unat a = unat b"
  by (simp add: word_unat_eq_iff)

section \<open>Page rounding\<close>

text \<open>\<open>(size + PAGE_SIZE - 1) & ~(PAGE_SIZE - 1)\<close>, as the page manager writes it.\<close>

definition page_round :: "u64 \<Rightarrow> u64" where
  "page_round sz = (sz + PAGE_SIZE - 1) AND NOT (PAGE_SIZE - 1)"

definition page_aligned :: "u64 \<Rightarrow> bool" where
  "page_aligned a \<longleftrightarrow> a mod PAGE_SIZE = 0"

text \<open>\<open>__builtin_align_down(a, PAGE_SIZE)\<close>\<close>

definition page_of :: "addr \<Rightarrow> addr" where
  "page_of a = a AND NOT (PAGE_SIZE - 1)"

lemma and_not_4095: "(a :: u64) AND NOT 4095 = a - a mod 4096"
proof -
  have m: "(4095 :: u64) = mask 12" by (simp add: mask_eq_exp_minus_1)
  have "a AND NOT (mask 12) = push_bit 12 (drop_bit 12 a)"
    by (rule bit_word_eqI) (auto simp: bit_simps)
  also have "\<dots> = a - take_bit 12 a"
    using bits_ident [of 12 a] by (simp add: eq_diff_eq)
  also have "take_bit 12 a = a mod 4096" by (simp add: take_bit_eq_mod)
  finally show ?thesis unfolding m .
qed

lemma page_of_minus: "page_of a = a - a mod PAGE_SIZE"
  using and_not_4095 [of a] by (simp add: page_of_def)

lemma page_round_page_of: "page_round sz = page_of (sz + 4095)"
  by (simp add: page_round_def page_of_def add.commute)

lemma unat_mod_4096: "unat ((a :: u64) mod 4096) = unat a mod 4096"
  by (simp add: unat_mod)

lemma page_aligned_nat [word_nat]: "page_aligned a \<longleftrightarrow> 4096 dvd unat a"
  by (simp add: page_aligned_def word_unat_eq_iff unat_mod_4096 dvd_eq_mod_eq_0)

lemma unat_page_of: "unat (page_of a) = unat a - unat a mod 4096"
proof -
  have "unat (a mod 4096) \<le> unat a" by (simp add: unat_mod_4096)
  then show ?thesis
    by (simp add: page_of_minus unat_minus_le unat_mod_4096)
qed

lemma unat_page_round:
  assumes "unat sz + 4095 < 2 ^ 64"
  shows "unat (page_round sz) = (unat sz + 4095) div 4096 * 4096"
proof -
  have s: "unat (sz + 4095) = unat sz + 4095"
    using assms by (simp add: unat_plus_nowrap)
  have "unat (page_round sz) = unat (page_of (sz + 4095))"
    by (simp add: page_round_page_of)
  also have "\<dots> = (unat sz + 4095) - (unat sz + 4095) mod 4096"
    by (simp add: unat_page_of s)
  also have "\<dots> = (unat sz + 4095) div 4096 * 4096"
    by (simp add: minus_mod_eq_div_mult)
  finally show ?thesis .
qed

lemma page_round_aligned: "page_aligned (page_round sz)"
proof -
  have "unat (page_of a) mod 4096 = 0" for a :: u64
    by (simp add: unat_page_of minus_mod_eq_div_mult)
  then show ?thesis
    by (simp add: page_aligned_nat page_round_page_of dvd_eq_mod_eq_0)
qed

lemma page_round_ge: "unat sz + 4095 < 2 ^ 64 \<Longrightarrow> unat sz \<le> unat (page_round sz)"
  by (simp add: unat_page_round)

lemma page_round_fix: "page_aligned sz \<Longrightarrow> unat sz + 4095 < 2 ^ 64 \<Longrightarrow> page_round sz = sz"
  by (rule word_unat_eq_iff [THEN iffD2]) (auto simp: unat_page_round page_aligned_nat)

end
