(* ===== verification/Host.thy ===== *)
theory Host
  imports Prelude
begin

text \<open>
  The machine below the monitor. The kernel, the processor and the memory of the process are
  not code of the repository, so they are a parameter of the model: an \<open>env\<close> gives the answer of
  a system call, the bytes of memory and the permissions and protection key of every page, all as
  functions of the whole history of system calls (newest first), which is the most general
  behaviour a sequential run can observe.

  The state every component extends records that history and the selector byte of
  syscall user dispatch. An entry of the history says through which of the two paths of
  \<open>nolibc_util.h\<close> the instruction was executed (\<open>inline_syscall6\<close> with the monitor's rights or
  \<open>do_syscall_untrusted\<close> with the application's) and which selector was set. With selector
  BLOCK the instruction is served by the meta monitor, with ALLOW by the kernel; the answer is
  the environment's in both cases.
\<close>

section \<open>System calls and the environment\<close>

datatype issuer = Inline | Untrusted

datatype scall = SCall (sc_via: issuer) (sc_sel: u8) (sc_nr: u64)
  (sc_a1: u64) (sc_a2: u64) (sc_a3: u64) (sc_a4: u64) (sc_a5: u64) (sc_a6: u64)

record env =
  kernel :: "scall list \<Rightarrow> u64"
  memory :: "scall list \<Rightarrow> addr \<Rightarrow> u8"
  page_perm :: "scall list \<Rightarrow> addr \<Rightarrow> c_int"
  page_key :: "scall list \<Rightarrow> addr \<Rightarrow> nat"

abbreviation (input) NR_read :: u64 where "NR_read \<equiv> 0"
abbreviation (input) NR_open :: u64 where "NR_open \<equiv> 2"
abbreviation (input) NR_close :: u64 where "NR_close \<equiv> 3"
abbreviation (input) NR_fstat :: u64 where "NR_fstat \<equiv> 5"
abbreviation (input) NR_lseek :: u64 where "NR_lseek \<equiv> 8"
abbreviation (input) NR_mmap :: u64 where "NR_mmap \<equiv> 9"
abbreviation (input) NR_mprotect :: u64 where "NR_mprotect \<equiv> 10"
abbreviation (input) NR_munmap :: u64 where "NR_munmap \<equiv> 11"
abbreviation (input) NR_rt_sigaction :: u64 where "NR_rt_sigaction \<equiv> 13"
abbreviation (input) NR_rt_sigprocmask :: u64 where "NR_rt_sigprocmask \<equiv> 14"
abbreviation (input) NR_mremap :: u64 where "NR_mremap \<equiv> 25"
abbreviation (input) NR_tgkill :: u64 where "NR_tgkill \<equiv> 234"
abbreviation (input) NR_perf_event_open :: u64 where "NR_perf_event_open \<equiv> 298"
abbreviation (input) NR_pkey_mprotect :: u64 where "NR_pkey_mprotect \<equiv> 329"

abbreviation (input) EINVAL :: u64 where "EINVAL \<equiv> 22"
abbreviation (input) EFAULT :: u64 where "EFAULT \<equiv> 14"
abbreviation (input) ENOSYS :: u64 where "ENOSYS \<equiv> 38"
abbreviation (input) EACCES :: u64 where "EACCES \<equiv> 13"
abbreviation (input) ENOTDIR :: u64 where "ENOTDIR \<equiv> 20"

section \<open>The selector and the system-call instruction\<close>

record kern =
  trace :: "scall list"
  sud_selector :: u8

abbreviation (input) SUD_ALLOW :: u8 where "SUD_ALLOW \<equiv> 0"
abbreviation (input) SUD_BLOCK :: u8 where "SUD_BLOCK \<equiv> 1"

definition set_sud_allow :: "'z kern_scheme \<Rightarrow> 'z kern_scheme" where
  "set_sud_allow s = s\<lparr>sud_selector := SUD_ALLOW\<rparr>"

definition set_sud_block :: "'z kern_scheme \<Rightarrow> 'z kern_scheme" where
  "set_sud_block s = s\<lparr>sud_selector := SUD_BLOCK\<rparr>"

definition get_sud :: "'z kern_scheme \<Rightarrow> u8" where
  "get_sud s = sud_selector s"

text \<open>\<open>(selector == SYSCALL_DISPATCH_FILTER_ALLOW) ? set_sud_allow() : set_sud_block()\<close>\<close>

definition restore_sud :: "u8 \<Rightarrow> 'z kern_scheme \<Rightarrow> 'z kern_scheme" where
  "restore_sud sel s = (if sel = SUD_ALLOW then set_sud_allow s else set_sud_block s)"

definition issue :: "env \<Rightarrow> issuer \<Rightarrow> u64 \<Rightarrow> u64 \<Rightarrow> u64 \<Rightarrow> u64 \<Rightarrow> u64 \<Rightarrow> u64 \<Rightarrow> u64
    \<Rightarrow> 'z kern_scheme \<Rightarrow> u64 \<times> 'z kern_scheme" where
  "issue E via nr a1 a2 a3 a4 a5 a6 s =
     (let t = SCall via (sud_selector s) nr a1 a2 a3 a4 a5 a6 # trace s
      in (kernel E t, s\<lparr>trace := t\<rparr>))"

definition inline_syscall6 :: "env \<Rightarrow> u64 \<Rightarrow> u64 \<Rightarrow> u64 \<Rightarrow> u64 \<Rightarrow> u64 \<Rightarrow> u64 \<Rightarrow> u64
    \<Rightarrow> 'z kern_scheme \<Rightarrow> u64 \<times> 'z kern_scheme" where
  "inline_syscall6 E nr a1 a2 a3 a4 a5 a6 s = issue E Inline nr a1 a2 a3 a4 a5 a6 s"

definition do_syscall_untrusted :: "env \<Rightarrow> u64 \<Rightarrow> u64 \<Rightarrow> u64 \<Rightarrow> u64 \<Rightarrow> u64 \<Rightarrow> u64 \<Rightarrow> u64
    \<Rightarrow> 'z kern_scheme \<Rightarrow> u64 \<times> 'z kern_scheme" where
  "do_syscall_untrusted E a1 a2 a3 a4 a5 a6 nr s = issue E Untrusted nr a1 a2 a3 a4 a5 a6 s"

definition syscall_wrapper :: "env \<Rightarrow> u64 \<Rightarrow> u64 \<Rightarrow> u64 \<Rightarrow> u64 \<Rightarrow> u64 \<Rightarrow> u64 \<Rightarrow> u64 \<Rightarrow> c_int
    \<Rightarrow> 'z kern_scheme \<Rightarrow> u64 \<times> 'z kern_scheme" where
  "syscall_wrapper E nr a1 a2 a3 a4 a5 a6 cid s =
     (if cid = TS_MONITOR then inline_syscall6 E nr a1 a2 a3 a4 a5 a6 s
      else do_syscall_untrusted E a1 a2 a3 a4 a5 a6 nr s)"

text \<open>The bytes of memory as the code sees them now.\<close>

definition mem_at :: "env \<Rightarrow> 'z kern_scheme \<Rightarrow> addr \<Rightarrow> u8" where
  "mem_at E s a = memory E (trace s) a"

lemmas sud_defs = set_sud_allow_def set_sud_block_def get_sud_def restore_sud_def
lemmas syscall_defs = issue_def inline_syscall6_def do_syscall_untrusted_def syscall_wrapper_def

section \<open>Requests for writable and executable memory\<close>

text \<open>
  The calls that set page protections carry them in their third argument. \<open>wx_call\<close> recognises
  a request for memory that is writable and executable at once.
\<close>

definition wx :: "u64 \<Rightarrow> bool" where
  "wx p \<longleftrightarrow> p AND 2 \<noteq> 0 \<and> p AND 4 \<noteq> 0"

definition prot_call :: "scall \<Rightarrow> bool" where
  "prot_call c \<longleftrightarrow> sc_nr c = NR_mmap \<or> sc_nr c = NR_mprotect \<or> sc_nr c = NR_pkey_mprotect"

definition wx_call :: "scall \<Rightarrow> bool" where
  "wx_call c \<longleftrightarrow> prot_call c \<and> wx (sc_a3 c)"

text \<open>What a run adds to the history: every new call satisfies \<open>P\<close>.\<close>

definition emits :: "(scall \<Rightarrow> bool) \<Rightarrow> 'z kern_scheme \<Rightarrow> 'z kern_scheme \<Rightarrow> bool" where
  "emits P s s' \<longleftrightarrow> (\<exists>new. trace s' = new @ trace s \<and> list_all P new)"

named_theorems emits_intros \<open>what the operations add to the history\<close>

lemma emits_same [simp]: "trace s' = trace s \<Longrightarrow> emits P s s'"
  by (simp add: emits_def)

lemma emits_trans: "emits P s s1 \<Longrightarrow> emits P s1 s2 \<Longrightarrow> emits P s s2"
  by (auto simp: emits_def)

lemma emits_mono: "emits P s s' \<Longrightarrow> (\<And>c. P c \<Longrightarrow> Q c) \<Longrightarrow> emits Q s s'"
  by (auto simp: emits_def list_all_iff)

lemma emits_cong: "emits P s s1 \<Longrightarrow> trace s0 = trace s \<Longrightarrow> trace s' = trace s1 \<Longrightarrow> emits P s0 s'"
  by (simp add: emits_def)

lemma issue_emits:
  assumes "issue E via nr a1 a2 a3 a4 a5 a6 s = (r, s')" "P (SCall via (sud_selector s) nr a1 a2 a3 a4 a5 a6)"
  shows "emits P s s'"
  using assms by (auto simp: issue_def Let_def emits_def)

lemma syscall_wrapper_emits:
  assumes "syscall_wrapper E nr a1 a2 a3 a4 a5 a6 cid s = (r, s')"
    and "\<And>via. P (SCall via (sud_selector s) nr a1 a2 a3 a4 a5 a6)"
  shows "emits P s s'"
  using assms by (auto simp: syscall_wrapper_def inline_syscall6_def do_syscall_untrusted_def
      split: if_splits intro: issue_emits)

lemma syscall_wrapper_state:
  "syscall_wrapper E nr a1 a2 a3 a4 a5 a6 cid s = (r, s') \<Longrightarrow> \<exists>t. s' = s\<lparr>trace := t\<rparr>"
  by (auto simp: syscall_defs Let_def split: if_splits)

text \<open>Protections without \<open>PROT_EXEC\<close> or without \<open>PROT_WRITE\<close> are never both.\<close>

lemma scast_and_bit:
  assumes "i < 31"
  shows "bit (scast (p :: c_int) :: u64) i \<longleftrightarrow> bit p i"
  using assms by (simp add: bit_simps)

lemma and_two_zero: "(p :: u64) AND 2 = 0 \<longleftrightarrow> \<not> bit p 1" and and_four_zero: "(p :: u64) AND 4 = 0 \<longleftrightarrow> \<not> bit p 2"
  using and_exp_eq_0_iff_not_bit [of p 1] and_exp_eq_0_iff_not_bit [of p 2] by simp_all

lemma wx_bits: "wx p \<longleftrightarrow> bit p 1 \<and> bit p 2"
  by (simp add: wx_def and_two_zero and_four_zero)

lemma not_wx_clear_exec: "\<not> wx (scast ((p :: c_int) AND NOT PROT_EXEC))"
  by (simp add: wx_bits scast_and_bit bit_simps)

end
