(* ===== verification/VirtPages.thy ===== *)
theory VirtPages
  imports Host
begin

text \<open>
  The page manager, \<open>src/src/syscall_monitor/virt_page_manager.cpp\<close>: a list of page groups sorted
  by address, each owned by a compartment, with a pool of free list nodes.

  The linked list \<open>pages\<close> is the HOL list of its nodes in link order. A node pointer is the
  position of the node in that list while the list does not change, and the start address of
  the node (unique in the list) across \<open>virt_page_alloc\<close>, which may insert a group of its own.
  The free list \<open>free_pages\<close> is its length: a node taken from it is overwritten before it is
  read. \<open>pm_lock\<close> is the \<open>std::mutex\<close>. Return codes are integers, as in the code.
\<close>

section \<open>Page groups\<close>

record virt_page =
  vp_start :: addr
  vp_size :: u64
  vp_prot :: c_int
  vp_flags :: c_int
  vp_Cid :: c_int

record vpm = kern +
  pages :: "virt_page list"
  free_pages :: nat
  pm_lock :: bool
  is_multithreaded :: bool

definition vp_end :: "virt_page \<Rightarrow> addr" where
  "vp_end p = vp_start p + vp_size p"

definition virt_page_overlap :: "virt_page option \<Rightarrow> addr \<Rightarrow> u64 \<Rightarrow> int" where
  "virt_page_overlap page_group st sz =
     (case page_group of
        None \<Rightarrow> -1
      | Some p \<Rightarrow>
          let en = st + sz; page_start = vp_start p; page_end = page_start + vp_size p in
          if page_start \<ge> en then 0
          else if page_end \<le> st then 0
          else if page_start = st \<and> page_end = en then 2
          else if page_start \<le> st \<and> page_end \<ge> en then 3
          else if page_start > st \<and> page_end < en then 4
          else 1)"

definition virt_page_overlap_byte :: "virt_page option \<Rightarrow> addr \<Rightarrow> int" where
  "virt_page_overlap_byte page_group byte =
     (case page_group of
        None \<Rightarrow> -1
      | Some p \<Rightarrow>
          let page_start = vp_start p; page_end = page_start + vp_size p in
          if byte \<ge> page_start \<and> byte < page_end then 1 else 0)"

definition return_virt_page :: "virt_page option \<Rightarrow> c_int \<Rightarrow> virt_page option" where
  "return_virt_page page_group cid =
     (case page_group of
        None \<Rightarrow> None
      | Some p \<Rightarrow> if cid = -1 then None else if cid = vp_Cid p then Some p else None)"

section \<open>Lookups\<close>

fun lookup_addr_locked :: "virt_page list \<Rightarrow> addr \<Rightarrow> c_int \<Rightarrow> virt_page option" where
  "lookup_addr_locked [] a cid = None"
| "lookup_addr_locked (c # ps) a cid =
     (if virt_page_overlap_byte (Some c) a \<noteq> 0 \<and> (cid = -1 \<or> vp_Cid c = cid) then Some c
      else lookup_addr_locked ps a cid)"

text \<open>The first loop of \<open>lookup_range_locked\<close> finds the suffix of the list that starts at the group
  of the first byte; the second walks on while the groups are adjacent.\<close>

fun range_start :: "virt_page list \<Rightarrow> addr \<Rightarrow> virt_page list" where
  "range_start [] a = []"
| "range_start (c # ps) a =
     (if virt_page_overlap_byte (Some c) a \<noteq> 0 then c # ps else range_start ps a)"

fun range_walk :: "virt_page list \<Rightarrow> addr \<Rightarrow> c_int \<Rightarrow> bool" where
  "range_walk [] end_addr cid = False"
| "range_walk (c # ps) end_addr cid =
     (if vp_Cid c \<noteq> cid then False
      else if vp_end c \<ge> end_addr then True
      else case ps of
             [] \<Rightarrow> False
           | n # _ \<Rightarrow> if vp_start n \<noteq> vp_end c then False else range_walk ps end_addr cid)"

definition lookup_range_locked ::
    "virt_page list \<Rightarrow> addr \<Rightarrow> u64 \<Rightarrow> c_int \<Rightarrow> virt_page option res" where
  "lookup_range_locked ps start_addr sz cid =
     nolibc_assert (ps \<noteq> [])
       (let end_addr = start_addr + sz in
        case range_start ps start_addr of
          [] \<Rightarrow> Inr None
        | c # rest \<Rightarrow>
            if vp_Cid c \<noteq> cid then Inr None
            else if vp_end c \<ge> end_addr then Inr (Some c)
            else if range_walk (c # rest) end_addr cid then Inr (Some c)
            else Inr None)"

fun lookup_range_allow_gaps_locked :: "virt_page list \<Rightarrow> addr \<Rightarrow> u64 \<Rightarrow> c_int \<Rightarrow> int" where
  "lookup_range_allow_gaps_locked [] start_addr sz cid = 0"
| "lookup_range_allow_gaps_locked (c # ps) start_addr sz cid =
     (if vp_end c \<le> start_addr \<or> vp_start c \<ge> start_addr + sz
      then lookup_range_allow_gaps_locked ps start_addr sz cid
      else if vp_Cid c \<noteq> cid then -1
      else lookup_range_allow_gaps_locked ps start_addr sz cid)"

fun virt_page_get_prev_group :: "virt_page list \<Rightarrow> addr \<Rightarrow> virt_page option" where
  "virt_page_get_prev_group (c # n # ps) k =
     (if vp_start c = k then None
      else if vp_start n = k then Some c
      else virt_page_get_prev_group (n # ps) k)"
| "virt_page_get_prev_group _ k = None"

section \<open>Inserting a group, and the pool of nodes\<close>

text \<open>The loop of \<open>add_page_locked\<close> over the groups after the head.\<close>

fun add_page_walk :: "virt_page \<Rightarrow> bool \<Rightarrow> virt_page list \<Rightarrow> (int \<times> virt_page list) res" where
  "add_page_walk p1 map_fixed [] = Inl NullDeref"
| "add_page_walk p1 map_fixed [c] =
     (if virt_page_overlap (Some c) (vp_start p1) (vp_size p1) > 0
      then nolibc_assert (\<not> map_fixed) (Inr (-1, [c]))
      else Inr (0, [c, p1]))"
| "add_page_walk p1 map_fixed (c # n # ps) =
     (if virt_page_overlap (Some c) (vp_start p1) (vp_size p1) > 0 then Inl Ud2
      else if vp_start p1 \<ge> vp_start n
        then rbind (add_page_walk p1 map_fixed (n # ps)) (\<lambda>(r, qs). Inr (r, c # qs))
      else if vp_start p1 + vp_size p1 > vp_start n
        then nolibc_assert (\<not> map_fixed) (Inr (-1, c # n # ps))
      else Inr (0, c # p1 # n # ps))"

text \<open>\<open>add_page_locked\<close> after the removal that \<open>map_fixed\<close> asks for.\<close>

definition add_page_insert :: "virt_page \<Rightarrow> bool \<Rightarrow> virt_page list \<Rightarrow> (int \<times> virt_page list) res" where
  "add_page_insert p1 map_fixed ps =
     (case ps of
        [] \<Rightarrow> Inr (0, [p1])
      | c # _ \<Rightarrow>
          if vp_start c \<ge> vp_start p1 + vp_size p1 then Inr (0, p1 # ps)
          else add_page_walk p1 map_fixed ps)"

definition new_page :: "addr \<Rightarrow> u64 \<Rightarrow> c_int \<Rightarrow> c_int \<Rightarrow> c_int \<Rightarrow> virt_page" where
  "new_page st sz pr fl cid = \<lparr>vp_start = st, vp_size = page_round sz, vp_prot = pr, vp_flags = fl, vp_Cid = cid\<rparr>"

text \<open>
  Two fresh pages hold 128 nodes of 64 bytes: 127 go to the free list, the last one describes the
  fresh pages themselves. The call of \<open>add_page_locked\<close> passes \<open>TS_MONITOR\<close> in the place of the
  flags and \<open>MAP_PRIVATE|MAP_SHARED\<close> in the place of the compartment, as the code does.
\<close>

definition refill_free_list :: "env \<Rightarrow> 'z vpm_scheme \<Rightarrow> 'z vpm_scheme res" where
  "refill_free_list E s =
     nolibc_assert (get_sud s = SUD_ALLOW)
      (let (new_pages, s) = inline_syscall6 E NR_mmap 0 (PAGE_SIZE * 2)
              (scast (PROT_READ OR PROT_WRITE)) (scast (MAP_PRIVATE OR MAP_ANONYMOUS)) (-1) 0 s;
           (r, s) = inline_syscall6 E NR_pkey_mprotect new_pages (PAGE_SIZE * 2)
              (scast (PROT_READ OR PROT_WRITE)) 0 0 0 s
       in nolibc_assert (r = 0)
         (nolibc_assert (new_pages \<noteq> -1)
           (let s = s\<lparr>free_pages := free_pages s + 127\<rparr>;
                p1 = new_page new_pages (PAGE_SIZE * 2) (PROT_READ OR PROT_WRITE) TS_MONITOR
                       (MAP_PRIVATE OR MAP_SHARED)
            in nolibc_assert (page_aligned new_pages)
              (rbind (add_page_insert p1 False (pages s))
                (\<lambda>(r, qs). nolibc_assert (r = 0) (Inr (s\<lparr>pages := qs\<rparr>)))))))"

definition virt_page_free :: "'z vpm_scheme \<Rightarrow> 'z vpm_scheme" where
  "virt_page_free s = s\<lparr>free_pages := Suc (free_pages s)\<rparr>"

definition virt_page_alloc :: "env \<Rightarrow> 'z vpm_scheme \<Rightarrow> 'z vpm_scheme res" where
  "virt_page_alloc E s =
     rbind (if free_pages s = 0 then refill_free_list E s else Inr s)
       (\<lambda>s. nolibc_assert (free_pages s \<noteq> 0) (Inr (s\<lparr>free_pages := free_pages s - 1\<rparr>)))"

section \<open>Nodes addressed by their start\<close>

fun upd_node :: "addr \<Rightarrow> (virt_page \<Rightarrow> virt_page) \<Rightarrow> virt_page list \<Rightarrow> virt_page list" where
  "upd_node k f [] = []"
| "upd_node k f (c # ps) = (if vp_start c = k then f c # ps else c # upd_node k f ps)"

fun link_after :: "addr \<Rightarrow> virt_page list \<Rightarrow> virt_page list \<Rightarrow> virt_page list" where
  "link_after k new [] = []"
| "link_after k new (c # ps) = (if vp_start c = k then c # new @ ps else c # link_after k new ps)"

fun next_of :: "addr \<Rightarrow> virt_page list \<Rightarrow> virt_page option" where
  "next_of k [] = None"
| "next_of k (c # ps) =
     (if vp_start c = k then (case ps of [] \<Rightarrow> None | n # _ \<Rightarrow> Some n) else next_of k ps)"

section \<open>Removing a range\<close>

text \<open>
  The first loop of \<open>remove_page_locked\<close>. \<open>k\<close> is the position of \<open>current_page\<close> and \<open>sp\<close> that of
  \<open>start_page\<close>; the result is the positions of \<open>start_page\<close> and \<open>end_page\<close>, or \<open>None\<close> where the code
  returns -1. \<open>prev_page\<close> is the node before \<open>start_page\<close>: null exactly when \<open>start_page\<close> is the head.
\<close>

fun remove_scan :: "addr \<Rightarrow> addr \<Rightarrow> c_int \<Rightarrow> nat \<Rightarrow> nat option \<Rightarrow> virt_page list
    \<Rightarrow> (nat \<times> nat) option res" where
  "remove_scan st en cid k sp [] = Inl NullDeref"
| "remove_scan st en cid k sp [c] = Inr None"
| "remove_scan st en cid k sp (c # n # ps) =
     (if sp = None \<and> ps = [] then Inr None
      else if sp = None \<and> vp_end n > st \<and> (st < vp_start n \<or> st \<ge> vp_end n) then Inl Ud2
      else
        let sp = (if sp = None \<and> vp_end n > st then Some (Suc k) else sp) in
        if sp = None then remove_scan st en cid (Suc k) sp (n # ps)
        else if vp_Cid n \<noteq> cid then Inr None
        else if vp_end n \<ge> en
          then (if en \<le> vp_start n then Inl Ud2 else Inr (Some (the sp, Suc k)))
        else (case ps of
                [] \<Rightarrow> Inr None
              | m # _ \<Rightarrow> if vp_end n \<noteq> vp_start m then Inr None
                         else remove_scan st en cid (Suc k) sp (n # ps)))"

definition unlink_at :: "nat \<Rightarrow> virt_page list \<Rightarrow> virt_page list" where
  "unlink_at i ps = take i ps @ drop (Suc i) ps"

text \<open>\<open>while(start_page->next != end_page)\<close>: unlink and free the node after position \<open>a\<close> until it is
  the node that was at position \<open>j\<close>. The result counts the freed nodes.\<close>

fun unlink_until :: "nat \<Rightarrow> nat \<Rightarrow> virt_page list \<Rightarrow> nat \<Rightarrow> virt_page list \<times> nat" where
  "unlink_until a j ps freed =
     (if Suc a < j then unlink_until a (j - 1) (unlink_at (Suc a) ps) (Suc freed) else (ps, freed))"

declare unlink_until.simps [simp del]

text \<open>The range lies in the single group at position \<open>i\<close>.\<close>

definition remove_single :: "env \<Rightarrow> addr \<Rightarrow> addr \<Rightarrow> nat \<Rightarrow> 'z vpm_scheme \<Rightarrow> (int \<times> 'z vpm_scheme) res" where
  "remove_single E st en i s =
     (let ps = pages s; p = ps ! i; page_end = vp_end p in
      if vp_start p = st \<and> page_end = en
        then Inr (0, virt_page_free (s\<lparr>pages := unlink_at i ps\<rparr>))
      else if vp_start p = st
        then Inr (0, s\<lparr>pages := ps[i := p\<lparr>vp_start := en, vp_size := page_end - en\<rparr>]\<rparr>)
      else if page_end = en
        then Inr (0, s\<lparr>pages := ps[i := p\<lparr>vp_size := st - vp_start p\<rparr>]\<rparr>)
      else
        let s = s\<lparr>pages := ps[i := p\<lparr>vp_size := st - vp_start p\<rparr>]\<rparr> in
        rbind (virt_page_alloc E s)
          (\<lambda>s. let new_group = p\<lparr>vp_start := en, vp_size := page_end - en\<rparr>
               in Inr (0, s\<lparr>pages := link_after (vp_start p) [new_group] (pages s)\<rparr>)))"

text \<open>The range starts in the group at position \<open>i\<close> and ends in a later one at position \<open>j\<close>.\<close>

definition remove_multi :: "addr \<Rightarrow> addr \<Rightarrow> nat \<Rightarrow> nat \<Rightarrow> 'z vpm_scheme \<Rightarrow> (int \<times> 'z vpm_scheme) res" where
  "remove_multi st en i j s =
     (if i = 0 then Inl NullDeref
      else
        let ps = pages s; p = ps ! i;
            (ps, a, j, freed) =
              (if st = vp_start p then (unlink_at i ps, i - 1, j - 1, 1)
               else (ps[i := p\<lparr>vp_size := st - vp_start p\<rparr>], i, j, 0));
            (ps, freed) = unlink_until a j ps freed;
            e = ps ! Suc a;
            (ps, freed) =
              (if en = vp_end e then (unlink_at (Suc a) ps, Suc freed)
               else (ps[Suc a := e\<lparr>vp_size := vp_end e - en, vp_start := en\<rparr>], freed))
        in Inr (0, s\<lparr>pages := ps, free_pages := free_pages s + freed\<rparr>))"

definition remove_page_locked :: "env \<Rightarrow> addr \<Rightarrow> u64 \<Rightarrow> c_int \<Rightarrow> 'z vpm_scheme
    \<Rightarrow> (int \<times> 'z vpm_scheme) res" where
  "remove_page_locked E st sz cid s =
     (case pages s of
        [] \<Rightarrow> Inr (-1, s)
      | [_] \<Rightarrow> Inr (-1, s)
      | c # n # _ \<Rightarrow>
          let sz = page_round sz in
          nolibc_assert (page_aligned st)
           (if sz = 0 then Inr (-1, s)
            else
              let en = st + sz in
              if vp_end c > st then Inr (-1, s)
              else
                rbind (remove_scan st en cid 0 (if vp_start n > st then Some 0 else None) (pages s))
                  (\<lambda>found. case found of
                      None \<Rightarrow> Inr (-1, s)
                    | Some (i, j) \<Rightarrow>
                        if i = j then remove_single E st en i s else remove_multi st en i j s)))"

text \<open>
  The loop of \<open>remove_page_map_fixed_locked\<close>: it walks the groups, frees those inside the range,
  trims those that stick out and stops the process at a group of another compartment. The
  result is the list without the range, the number of freed nodes and the upper part of a
  group that has to be split, with the start of its lower part, after which it is linked.
\<close>

fun fixed_walk :: "addr \<Rightarrow> addr \<Rightarrow> c_int \<Rightarrow> virt_page list \<Rightarrow> (virt_page list \<times> nat \<times> (addr \<times> virt_page) option) res" where
  "fixed_walk st en cid [] = Inr ([], 0, None)"
| "fixed_walk st en cid (c # ps) =
     (if vp_end c \<le> st
        then rbind (fixed_walk st en cid ps) (\<lambda>(qs, fr, sp). Inr (c # qs, fr, sp))
      else if vp_start c \<ge> en then Inr (c # ps, 0, None)
      else nolibc_assert (vp_Cid c = cid)
       (if st \<le> vp_start c \<and> en \<ge> vp_end c
          then rbind (fixed_walk st en cid ps) (\<lambda>(qs, fr, sp). Inr (qs, Suc fr, sp))
        else if st \<le> vp_start c \<and> en < vp_end c
          then Inr (c\<lparr>vp_start := en, vp_size := vp_end c - en\<rparr> # ps, 0, None)
        else if en \<ge> vp_end c \<and> st > vp_start c
          then rbind (fixed_walk st en cid ps)
                 (\<lambda>(qs, fr, sp). Inr (c\<lparr>vp_size := st - vp_start c\<rparr> # qs, fr, sp))
        else nolibc_assert (st > vp_start c \<and> en < vp_end c)
               (Inr (c\<lparr>vp_size := st - vp_start c\<rparr> # ps, 0,
                     Some (vp_start c, c\<lparr>vp_start := en, vp_size := vp_end c - en\<rparr>)))))"

definition remove_page_map_fixed_locked :: "env \<Rightarrow> addr \<Rightarrow> u64 \<Rightarrow> c_int \<Rightarrow> 'z vpm_scheme
    \<Rightarrow> (int \<times> 'z vpm_scheme) res" where
  "remove_page_map_fixed_locked E st sz cid s =
     (let sz = page_round sz in
      nolibc_assert (page_aligned st)
       (if sz = 0 then Inr (-1, s)
        else
          let en = st + sz in
          rbind (fixed_walk st en cid (pages s))
            (\<lambda>(qs, fr, upper).
               let s = s\<lparr>pages := qs, free_pages := free_pages s + fr\<rparr> in
               case upper of
                 None \<Rightarrow> Inr (0, s)
               | Some (k, new_group) \<Rightarrow>
                   rbind (virt_page_alloc E s)
                     (\<lambda>s. Inr (0, s\<lparr>pages := link_after k [new_group] (pages s)\<rparr>)))))"

section \<open>Adding a group\<close>

definition add_page_locked :: "env \<Rightarrow> addr \<Rightarrow> u64 \<Rightarrow> c_int \<Rightarrow> c_int \<Rightarrow> c_int \<Rightarrow> bool
    \<Rightarrow> 'z vpm_scheme \<Rightarrow> (int \<times> 'z vpm_scheme) res" where
  "add_page_locked E st sz pr fl cid map_fixed s =
     nolibc_assert (page_aligned st)
       (let p1 = new_page st sz pr fl cid in
        rbind (if map_fixed
               then (if is_multithreaded s then remove_page_locked E st (vp_size p1) cid s
                     else remove_page_map_fixed_locked E st (vp_size p1) cid s)
               else Inr (0, s))
          (\<lambda>(r, s). if r = -1 then Inr (-1, s)
                    else rbind (add_page_insert p1 map_fixed (pages s))
                           (\<lambda>(r, qs). Inr (r, s\<lparr>pages := qs\<rparr>))))"

text \<open>
  Every public operation saves the selector, takes the lock, allows system calls, runs its
  \<open>_locked\<close> body, releases the lock and restores the selector.
\<close>

definition locked :: "('z vpm_scheme \<Rightarrow> ('a \<times> 'z vpm_scheme) res) \<Rightarrow> 'z vpm_scheme
    \<Rightarrow> ('a \<times> 'z vpm_scheme) res" where
  "locked body s =
     (let selector = get_sud s in
      rbind (if pm_lock s then Inl Deadlock else Inr (s\<lparr>pm_lock := True\<rparr>))
        (\<lambda>s. rbind (body (set_sud_allow s))
           (\<lambda>(r, s). Inr (r, restore_sud selector (s\<lparr>pm_lock := False\<rparr>)))))"

definition add_page :: "env \<Rightarrow> addr \<Rightarrow> u64 \<Rightarrow> c_int \<Rightarrow> c_int \<Rightarrow> c_int \<Rightarrow> bool
    \<Rightarrow> 'z vpm_scheme \<Rightarrow> (int \<times> 'z vpm_scheme) res" where
  "add_page E st sz pr fl cid map_fixed =
     locked (\<lambda>s. rbind (virt_page_alloc E s)
       (\<lambda>s. rbind (add_page_locked E st sz pr fl cid map_fixed s)
         (\<lambda>(r, s). Inr (r, if r = -1 then virt_page_free s else s))))"

definition remove_page :: "env \<Rightarrow> addr \<Rightarrow> u64 \<Rightarrow> c_int \<Rightarrow> 'z vpm_scheme \<Rightarrow> (int \<times> 'z vpm_scheme) res" where
  "remove_page E st sz cid = locked (remove_page_locked E st sz cid)"

section \<open>Changing the protection of a range\<close>

text \<open>The loop that links the new group after a removal over several groups: the first group that
  ends at or below \<open>st\<close>.\<close>

fun mprotect_anchor :: "addr \<Rightarrow> virt_page list \<Rightarrow> virt_page option" where
  "mprotect_anchor st [] = None"
| "mprotect_anchor st (c # ps) = (if st \<ge> vp_end c then Some c else mprotect_anchor st ps)"

definition mprotect_reinsert :: "env \<Rightarrow> addr \<Rightarrow> u64 \<Rightarrow> c_int \<Rightarrow> c_int \<Rightarrow> 'z vpm_scheme
    \<Rightarrow> (int \<times> 'z vpm_scheme) res" where
  "mprotect_reinsert E st sz pr cid s =
     (case mprotect_anchor st (pages s) of
        None \<Rightarrow> Inl Ud2
      | Some c \<Rightarrow>
          let new_group = \<lparr>vp_start = st, vp_size = sz, vp_prot = pr, vp_flags = vp_flags c, vp_Cid = cid\<rparr> in
          nolibc_assert (case next_of (vp_start c) (pages s) of
                           None \<Rightarrow> True | Some n \<Rightarrow> virt_page_overlap (Some n) st sz = 0)
            (rbind (virt_page_alloc E s)
              (\<lambda>s. Inr (0, s\<lparr>pages := link_after (vp_start c) [new_group] (pages s)\<rparr>))))"

definition update_mprotect_locked :: "env \<Rightarrow> addr \<Rightarrow> u64 \<Rightarrow> c_int \<Rightarrow> c_int \<Rightarrow> 'z vpm_scheme
    \<Rightarrow> (int \<times> 'z vpm_scheme) res" where
  "update_mprotect_locked E st sz pr cid s =
     (if pages s = [] then Inr (-1, s)
      else
        case lookup_addr_locked (pages s) st cid of
          None \<Rightarrow> Inr (-1, s)
        | Some p \<Rightarrow>
            let p_end = vp_end p; en = st + sz; k = vp_start p in
            if vp_Cid p \<noteq> cid then Inr (-1, s)
            else if sz = 0 then Inr (-1, s)
            else if en < st then Inr (-1, s)
            else if st < vp_start p \<or> st \<ge> p_end then Inr (-1, s)
            else if st = vp_start p \<and> en = p_end
              then Inr (0, s\<lparr>pages := upd_node k (\<lambda>q. q\<lparr>vp_prot := pr\<rparr>) (pages s)\<rparr>)
            else if st = vp_start p \<and> en < p_end
              then rbind (virt_page_alloc E s)
                (\<lambda>s. let g = p\<lparr>vp_Cid := cid, vp_start := en, vp_size := p_end - en\<rparr>
                     in Inr (0, s\<lparr>pages := upd_node k (\<lambda>q. q\<lparr>vp_prot := pr, vp_size := sz\<rparr>)
                                             (link_after k [g] (pages s))\<rparr>))
            else if st > vp_start p \<and> en = p_end
              then rbind (virt_page_alloc E s)
                (\<lambda>s. let g = p\<lparr>vp_prot := pr, vp_Cid := cid, vp_start := st, vp_size := sz\<rparr>
                     in Inr (0, s\<lparr>pages := upd_node k (\<lambda>q. q\<lparr>vp_size := st - vp_start p\<rparr>)
                                             (link_after k [g] (pages s))\<rparr>))
            else if st > vp_start p \<and> en < p_end
              then rbind (virt_page_alloc E s) (\<lambda>s. rbind (virt_page_alloc E s)
                (\<lambda>s. let g1 = p\<lparr>vp_Cid := cid, vp_prot := pr, vp_size := sz, vp_start := st\<rparr>;
                         g2 = p\<lparr>vp_Cid := cid, vp_size := p_end - en, vp_start := en\<rparr>
                     in Inr (0, s\<lparr>pages := upd_node k (\<lambda>q. q\<lparr>vp_size := st - vp_start p\<rparr>)
                                             (link_after k [g1, g2] (pages s))\<rparr>)))
            else
              rbind (remove_page_locked E st sz cid s)
                (\<lambda>(r, s). if r = -1 then Inr (-1, s) else mprotect_reinsert E st sz pr cid s))"

definition update_mprotect :: "env \<Rightarrow> addr \<Rightarrow> u64 \<Rightarrow> c_int \<Rightarrow> c_int \<Rightarrow> 'z vpm_scheme
    \<Rightarrow> (int \<times> 'z vpm_scheme) res" where
  "update_mprotect E st sz pr cid = locked (update_mprotect_locked E st sz pr cid)"

section \<open>Growing and shrinking a group\<close>

definition update_size_locked :: "env \<Rightarrow> addr \<Rightarrow> u64 \<Rightarrow> u64 \<Rightarrow> c_int \<Rightarrow> 'z vpm_scheme
    \<Rightarrow> (int \<times> 'z vpm_scheme) res" where
  "update_size_locked E st old_size new_size cid s =
     (let old_end = st + old_size; new_end = st + new_size in
      case lookup_addr_locked (pages s) st cid of
        None \<Rightarrow> Inr (-1, s)
      | Some g \<Rightarrow>
          let k = vp_start g in
          if old_size = new_size then Inr (0, s)
          else if old_end > vp_end g then Inr (-1, s)
          else if old_size < new_size then
            (if vp_end g \<noteq> old_end then Inr (-2, s)
             else if (case next_of k (pages s) of None \<Rightarrow> False | Some n \<Rightarrow> new_end > vp_start n)
               then Inr (-2, s)
             else Inr (0, s\<lparr>pages := upd_node k (\<lambda>q. q\<lparr>vp_size := vp_size q + (new_size - old_size)\<rparr>) (pages s)\<rparr>))
          else if old_end = vp_end g
            then Inr (0, s\<lparr>pages := upd_node k (\<lambda>q. q\<lparr>vp_size := vp_size q - (old_size - new_size)\<rparr>) (pages s)\<rparr>)
          else rbind (virt_page_alloc E s)
            (\<lambda>s. let n = g\<lparr>vp_Cid := cid, vp_start := old_end, vp_size := vp_end g - old_end\<rparr>
                 in Inr (0, s\<lparr>pages := upd_node k (\<lambda>q. q\<lparr>vp_size := new_end - vp_start g\<rparr>)
                                         (link_after k [n] (pages s))\<rparr>)))"

definition update_size :: "env \<Rightarrow> addr \<Rightarrow> u64 \<Rightarrow> u64 \<Rightarrow> c_int \<Rightarrow> 'z vpm_scheme
    \<Rightarrow> (int \<times> 'z vpm_scheme) res" where
  "update_size E st old_size new_size cid = locked (update_size_locked E st old_size new_size cid)"

section \<open>The public lookups\<close>

definition lookup_addr :: "addr \<Rightarrow> c_int \<Rightarrow> 'z vpm_scheme \<Rightarrow> (virt_page option \<times> 'z vpm_scheme) res" where
  "lookup_addr a cid = locked (\<lambda>s. Inr (lookup_addr_locked (pages s) a cid, s))"

definition lookup_range :: "addr \<Rightarrow> u64 \<Rightarrow> c_int \<Rightarrow> 'z vpm_scheme \<Rightarrow> (virt_page option \<times> 'z vpm_scheme) res" where
  "lookup_range a sz cid =
     locked (\<lambda>s. rbind (lookup_range_locked (pages s) a sz cid) (\<lambda>r. Inr (r, s)))"

definition lookup_range_allow_gaps :: "addr \<Rightarrow> u64 \<Rightarrow> c_int \<Rightarrow> 'z vpm_scheme \<Rightarrow> (int \<times> 'z vpm_scheme) res" where
  "lookup_range_allow_gaps a sz cid =
     locked (\<lambda>s. Inr (lookup_range_allow_gaps_locked (pages s) a sz cid, s))"

text \<open>\<open>secpoline_mprotect\<close> of \<open>virt_page_manager.h\<close>: the call is made without a compartment and its
  result is not returned.\<close>

definition secpoline_mprotect :: "env \<Rightarrow> addr \<Rightarrow> u64 \<Rightarrow> c_int \<Rightarrow> c_int \<Rightarrow> 'z vpm_scheme
    \<Rightarrow> (int \<times> 'z vpm_scheme) res" where
  "secpoline_mprotect E a sz pr cid s =
     (let (ret, s) = inline_syscall6 E NR_mprotect a sz (scast pr) 0 0 0 s in
      if (ucast ret :: c_int) = 0
      then rbind (update_mprotect E a sz pr cid s)
             (\<lambda>(r, s). nolibc_assert (r = 0) (Inr (0, s)))
      else Inr (0, s))"

end
