(* ===== verification/PageView.thy ===== *)
theory PageView
  imports VirtPages
begin

text \<open>
  The page list read as a map from addresses to protection, flags and compartment. \<open>wf_pages\<close> is the
  invariant of the list (groups are non-empty, do not wrap, and are sorted and disjoint); \<open>tracked\<close>
  is the view of a single byte. This theory relates the list primitives to the view: the overlap
  tests, the lookup of an address, the insertion of a group, the allocation of a node and the
  removal of a range from the list as a reference function \<open>cut_range\<close>.
\<close>

section \<open>Ranges as natural numbers\<close>

definition pst :: "virt_page \<Rightarrow> nat" where "pst p = unat (vp_start p)"
definition pen :: "virt_page \<Rightarrow> nat" where "pen p = unat (vp_start p) + unat (vp_size p)"

definition good_page :: "virt_page \<Rightarrow> bool" where
  "good_page p \<longleftrightarrow> vp_size p \<noteq> 0 \<and> pen p < 2 ^ 64"

definition page_before :: "virt_page \<Rightarrow> virt_page \<Rightarrow> bool" where
  "page_before p q \<longleftrightarrow> pen p \<le> pst q"

definition covers :: "virt_page \<Rightarrow> addr \<Rightarrow> bool" where
  "covers p a \<longleftrightarrow> pst p \<le> unat a \<and> unat a < pen p"

definition wf_pages :: "virt_page list \<Rightarrow> bool" where
  "wf_pages ps \<longleftrightarrow> list_all good_page ps \<and> sorted_wrt page_before ps"

definition attr :: "virt_page \<Rightarrow> c_int \<times> c_int \<times> c_int" where
  "attr p = (vp_prot p, vp_flags p, vp_Cid p)"

definition tracked :: "virt_page list \<Rightarrow> addr \<Rightarrow> (c_int \<times> c_int \<times> c_int) option" where
  "tracked ps a = map_option attr (find (\<lambda>p. covers p a) ps)"

lemmas range_defs = pst_def pen_def

lemma good_page_bounds:
  assumes "good_page p"
  shows "pst p < pen p" and "pen p < 2 ^ 64"
  using assms by (auto simp: good_page_def range_defs unat_gt_0)

lemma good_page_lt: "good_page p \<Longrightarrow> pst p < pen p"
  by (rule good_page_bounds)

lemma unat_vp_end: "good_page p \<Longrightarrow> unat (vp_end p) = pen p"
  by (simp add: vp_end_def good_page_def range_defs unat_plus_nowrap)

lemma unat_vp_start: "unat (vp_start p) = pst p"
  by (simp add: pst_def)

lemmas page_nat = unat_vp_end unat_vp_start word_order_nat

lemma vp_end_eq_iff: "good_page p \<Longrightarrow> vp_end p = a \<longleftrightarrow> pen p = unat a"
  by (simp add: word_eq_nat unat_vp_end)

lemma vp_start_eq_iff: "vp_start p = a \<longleftrightarrow> pst p = unat a"
  by (simp add: word_eq_nat unat_vp_start)

lemma overlap_byte_covers: "good_page p \<Longrightarrow> virt_page_overlap_byte (Some p) a \<noteq> 0 \<longleftrightarrow> covers p a"
  using unat_vp_end [of p]
  by (auto simp: virt_page_overlap_byte_def covers_def Let_def word_order_nat vp_end_def pst_def)

lemma overlap_pos:
  assumes "good_page p" and "unat st + unat sz < 2 ^ 64"
  shows "virt_page_overlap (Some p) st sz > 0 \<longleftrightarrow> pst p < unat st + unat sz \<and> unat st < pen p"
  using unat_vp_end [OF assms(1)] assms(2)
  by (auto simp: virt_page_overlap_def Let_def word_order_nat vp_end_def pst_def unat_plus_nowrap
      not_le split: if_splits)

section \<open>Well-formed lists\<close>

lemma wf_Nil [simp]: "wf_pages []"
  by (simp add: wf_pages_def)

lemma wf_Cons: "wf_pages (c # ps) \<longleftrightarrow> good_page c \<and> (\<forall>q\<in>set ps. page_before c q) \<and> wf_pages ps"
  by (auto simp: wf_pages_def)

lemma wf_append: "wf_pages (xs @ ys) \<longleftrightarrow>
    wf_pages xs \<and> wf_pages ys \<and> (\<forall>x\<in>set xs. \<forall>y\<in>set ys. page_before x y)"
  by (auto simp: wf_pages_def sorted_wrt_append)

lemma wf_good: "wf_pages ps \<Longrightarrow> p \<in> set ps \<Longrightarrow> good_page p"
  by (auto simp: wf_pages_def list_all_iff)

lemma covers_unique:
  assumes "wf_pages ps" "p \<in> set ps" "q \<in> set ps" "covers p a" "covers q a"
  shows "p = q"
  using assms
proof (induction ps)
  case (Cons c ps)
  then show ?case
    by (auto simp: wf_Cons page_before_def covers_def)
qed simp

lemma tracked_Some_iff:
  assumes "wf_pages ps"
  shows "tracked ps a = Some v \<longleftrightarrow> (\<exists>p\<in>set ps. covers p a \<and> attr p = v)"
  using assms
proof (induction ps)
  case (Cons c ps)
  show ?case
  proof (cases "covers c a")
    case True
    then have "q \<in> set ps \<Longrightarrow> \<not> covers q a" for q
      using Cons.prems by (auto simp: wf_Cons page_before_def covers_def)
    with True show ?thesis by (auto simp: tracked_def)
  next
    case False
    with Cons show ?thesis by (auto simp: tracked_def wf_Cons)
  qed
qed (simp add: tracked_def)

lemma tracked_None_iff: "tracked ps a = None \<longleftrightarrow> (\<forall>p\<in>set ps. \<not> covers p a)"
  by (auto simp: tracked_def find_None_iff)

lemma tracked_in: "wf_pages ps \<Longrightarrow> p \<in> set ps \<Longrightarrow> covers p a \<Longrightarrow> tracked ps a = Some (attr p)"
  by (auto simp: tracked_Some_iff)

text \<open>Two well-formed lists with the same bytes under the same attributes track the same.\<close>

lemma tracked_eqI:
  assumes "wf_pages ps" "wf_pages qs"
    and "\<And>v. (\<exists>p\<in>set ps. covers p a \<and> attr p = v) \<longleftrightarrow> (\<exists>q\<in>set qs. covers q a \<and> attr q = v)"
  shows "tracked ps a = tracked qs a"
proof (rule option.expand)
  show "(tracked ps a = None) = (tracked qs a = None)"
    unfolding tracked_None_iff using assms(3) by blast
next
  assume "tracked ps a \<noteq> None" and "tracked qs a \<noteq> None"
  then obtain v where v: "tracked ps a = Some v" by auto
  then have "tracked qs a = Some v"
    using assms by (simp add: tracked_Some_iff)
  with v show "the (tracked ps a) = the (tracked qs a)" by simp
qed

lemma tracked_insert:
  assumes "wf_pages ps" "wf_pages qs" "set qs = insert p (set ps)"
  shows "tracked qs a = (if covers p a then Some (attr p) else tracked ps a)"
proof (cases "covers p a")
  case True
  then show ?thesis using assms by (simp add: tracked_in)
next
  case False
  then show ?thesis using assms by (auto intro!: tracked_eqI)
qed

lemma lookup_addr_locked_iff:
  assumes "wf_pages ps"
  shows "lookup_addr_locked ps a cid = Some p \<longleftrightarrow>
           p \<in> set ps \<and> covers p a \<and> (cid = -1 \<or> vp_Cid p = cid)"
  using assms
proof (induction ps)
  case (Cons c ps)
  have g: "good_page c" using Cons.prems by (simp add: wf_Cons)
  have "covers c a \<Longrightarrow> q \<in> set ps \<Longrightarrow> \<not> covers q a" for q
    using Cons.prems by (auto simp: wf_Cons page_before_def covers_def)
  with Cons g show ?case
    by (auto simp: overlap_byte_covers wf_Cons)
qed simp

lemma lookup_addr_locked_None:
  assumes "wf_pages ps"
  shows "lookup_addr_locked ps a cid = None \<longleftrightarrow>
           (\<forall>p\<in>set ps. covers p a \<longrightarrow> cid \<noteq> -1 \<and> vp_Cid p \<noteq> cid)"
  using lookup_addr_locked_iff [OF assms, of a cid] by (metis not_None_eq)

section \<open>Inserting a group\<close>

definition page_disjoint :: "virt_page \<Rightarrow> virt_page \<Rightarrow> bool" where
  "page_disjoint p q \<longleftrightarrow> page_before p q \<or> page_before q p"

lemma overlap_page:
  assumes "good_page p" and "good_page q"
  shows "virt_page_overlap (Some p) (vp_start q) (vp_size q) > 0 \<longleftrightarrow> \<not> page_disjoint p q"
  using assms(2) overlap_pos [OF assms(1), of "vp_start q" "vp_size q"]
  by (auto simp: page_disjoint_def page_before_def good_page_def range_defs)

lemma add_page_walk_ok:
  assumes "wf_pages ps" "good_page p1" "add_page_walk p1 mf ps = Inr (r, qs)"
    and "\<forall>c\<in>set (take 1 ps). \<not> page_before p1 c"
  shows "(r = 0 \<and> wf_pages qs \<and> set qs = insert p1 (set ps) \<and> (\<forall>q\<in>set ps. page_disjoint q p1)) \<or>
         (r = -1 \<and> qs = ps \<and> \<not> mf \<and> (\<exists>p\<in>set ps. \<not> page_disjoint p p1))"
  using assms
proof (induction p1 mf ps arbitrary: r qs rule: add_page_walk.induct)
  case (2 p1 mf c)
  then show ?case
    by (auto simp: overlap_page wf_Cons page_disjoint_def res_simps split: if_splits)
next
  case (3 p1 mf c n ps)
  have g: "good_page c" "good_page n" "good_page p1" using "3.prems" by (auto simp: wf_Cons)
  have nov: "page_disjoint c p1"
    using "3.prems"(3) g by (auto simp: overlap_page split: if_splits)
  with "3.prems"(4) have cp: "page_before c p1" by (simp add: page_disjoint_def)
  show ?case
  proof (cases "vp_start n \<le> vp_start p1")
    case True
    then obtain qs' where rec: "add_page_walk p1 mf (n # ps) = Inr (r, qs')" and qs: "qs = c # qs'"
      using "3.prems"(3) nov g by (auto simp: overlap_page res_simps)
    have "\<forall>c\<in>set (take 1 (n # ps)). \<not> page_before p1 c"
      using True g(3) by (auto simp: page_before_def page_nat dest: good_page_lt)
    then have "(r = 0 \<and> wf_pages qs' \<and> set qs' = insert p1 (set (n # ps)) \<and> (\<forall>q\<in>set (n # ps). page_disjoint q p1)) \<or>
       (r = -1 \<and> qs' = n # ps \<and> \<not> mf \<and> (\<exists>p\<in>set (n # ps). \<not> page_disjoint p p1))"
      using "3.IH" [OF _ True _ _ rec] "3.prems" nov g by (simp add: overlap_page wf_Cons)
    then show ?thesis
      using "3.prems"(1) cp qs by (auto simp: wf_Cons page_disjoint_def)
  next
    case False
    then have lt: "pst p1 < pst n" by (simp add: page_nat)
    show ?thesis
    proof (cases "vp_start n < vp_start p1 + vp_size p1")
      case True
      then have "\<not> page_disjoint n p1"
        using lt g unat_vp_end [OF g(3)] good_page_lt [OF g(2)]
        by (auto simp: page_disjoint_def page_before_def page_nat vp_end_def)
      then show ?thesis
        using "3.prems"(3) True False nov g by (auto simp: overlap_page res_simps)
    next
      case F2: False
      then have pn: "page_before p1 n"
        using unat_vp_end [OF g(3)] by (simp add: page_before_def page_nat vp_end_def not_less)
      then have "\<forall>q\<in>set ps. page_before p1 q"
        using "3.prems"(1) g(2) by (auto simp: wf_Cons page_before_def dest!: good_page_lt)
      then show ?thesis
        using "3.prems" False F2 nov g cp pn by (auto simp: overlap_page wf_Cons page_disjoint_def)
    qed
  qed
qed simp

lemma add_page_insert_ok:
  assumes "wf_pages ps" "good_page p1" "add_page_insert p1 mf ps = Inr (r, qs)"
  shows "(r = 0 \<and> wf_pages qs \<and> set qs = insert p1 (set ps) \<and> (\<forall>q\<in>set ps. page_disjoint q p1)) \<or>
         (r = -1 \<and> qs = ps \<and> \<not> mf \<and> (\<exists>p\<in>set ps. \<not> page_disjoint p p1))"
proof (cases ps)
  case Nil
  then show ?thesis using assms by (auto simp: add_page_insert_def wf_Cons)
next
  case (Cons c cs)
  show ?thesis
  proof (cases "page_before p1 c")
    case True
    then have all: "\<forall>q\<in>set ps. page_before p1 q"
      using assms(1) Cons by (auto simp: wf_Cons page_before_def dest!: good_page_lt)
    have "vp_start c \<ge> vp_start p1 + vp_size p1"
      using True unat_vp_end [OF assms(2)] by (simp add: page_before_def page_nat vp_end_def)
    with assms Cons all show ?thesis
      by (auto simp: add_page_insert_def wf_Cons page_disjoint_def)
  next
    case False
    then have "\<not> vp_start c \<ge> vp_start p1 + vp_size p1"
      using unat_vp_end [OF assms(2)] by (simp add: page_before_def page_nat vp_end_def)
    with assms(3) Cons have "add_page_walk p1 mf ps = Inr (r, qs)"
      by (simp add: add_page_insert_def)
    from add_page_walk_ok [OF assms(1,2) this] False Cons show ?thesis by simp
  qed
qed

text \<open>A group disjoint from all others is always inserted.\<close>

lemma add_page_walk_total:
  assumes "wf_pages ps" "good_page p1" "ps \<noteq> []" "\<forall>p\<in>set ps. page_disjoint p p1"
    and "\<not> page_before p1 (hd ps)"
  shows "\<exists>qs. add_page_walk p1 mf ps = Inr (0, qs)"
  using assms
proof (induction p1 mf ps rule: add_page_walk.induct)
  case (2 p1 mf c)
  then show ?case by (simp add: overlap_page wf_Cons)
next
  case (3 p1 mf c n ps)
  have g: "good_page c" "good_page n" "good_page p1" using "3.prems" by (auto simp: wf_Cons)
  have nov: "page_disjoint c p1" using "3.prems" by simp
  show ?case
  proof (cases "vp_start n \<le> vp_start p1")
    case True
    then have "\<not> page_before p1 n"
      using g(3) by (auto simp: page_before_def page_nat dest: good_page_lt)
    then obtain qs where "add_page_walk p1 mf (n # ps) = Inr (0, qs)"
      using "3.IH" "3.prems" True nov g by (force simp: overlap_page wf_Cons)
    then show ?thesis using True nov g by (simp add: overlap_page)
  next
    case False
    moreover have "\<not> vp_start n < vp_start p1 + vp_size p1"
      using False "3.prems"(4) unat_vp_end [OF g(3)] good_page_lt [OF g(2)]
      by (auto simp: page_disjoint_def page_before_def page_nat vp_end_def)
    ultimately show ?thesis using nov g by (simp add: overlap_page)
  qed
qed simp

lemma add_page_insert_total:
  assumes "wf_pages ps" "good_page p1" "\<forall>p\<in>set ps. page_disjoint p p1"
  shows "\<exists>qs. add_page_insert p1 mf ps = Inr (0, qs)"
proof (cases ps)
  case (Cons c cs)
  show ?thesis
  proof (cases "page_before p1 c")
    case True
    then have "vp_start c \<ge> vp_start p1 + vp_size p1"
      using unat_vp_end [OF assms(2)] by (simp add: page_before_def page_nat vp_end_def)
    with Cons show ?thesis by (simp add: add_page_insert_def)
  next
    case False
    then have "\<not> vp_start c \<ge> vp_start p1 + vp_size p1"
      using unat_vp_end [OF assms(2)] by (simp add: page_before_def page_nat vp_end_def)
    with add_page_walk_total [of ps p1 mf] assms Cons False show ?thesis
      by (simp add: add_page_insert_def)
  qed
qed (simp add: add_page_insert_def)

section \<open>Allocating a node\<close>

text \<open>The group that \<open>refill_free_list\<close> adds for the memory of the new nodes, and what is known of
  the kernel's answer to an anonymous \<open>mmap\<close> without an address: page-aligned memory that is not
  in use.\<close>

definition refill_call :: "scall" where
  "refill_call = SCall Inline SUD_ALLOW NR_mmap 0 (PAGE_SIZE * 2)
      (scast (PROT_READ OR PROT_WRITE)) (scast (MAP_PRIVATE OR MAP_ANONYMOUS)) (-1) 0"

definition refill_page :: "env \<Rightarrow> scall list \<Rightarrow> virt_page" where
  "refill_page E t = new_page (kernel E (refill_call # t)) (PAGE_SIZE * 2)
      (PROT_READ OR PROT_WRITE) TS_MONITOR (MAP_PRIVATE OR MAP_SHARED)"

definition fresh_refill :: "nat \<Rightarrow> env \<Rightarrow> 'z vpm_scheme \<Rightarrow> bool" where
  "fresh_refill k E s \<longleftrightarrow>
     (free_pages s < k \<longrightarrow>
        page_aligned (vp_start (refill_page E (trace s))) \<and>
        pst (refill_page E (trace s)) + 8192 < 2 ^ 64 \<and>
        (\<forall>p\<in>set (pages s). page_disjoint p (refill_page E (trace s))))"

lemma refill_page_size: "vp_size (refill_page E t) = 8192"
  using and_not_4095 [of 12287] by (simp add: refill_page_def new_page_def page_round_def)

lemma good_refill_page: "fresh_refill k E s \<Longrightarrow> free_pages s < k \<Longrightarrow> good_page (refill_page E (trace s))"
  by (simp add: fresh_refill_def good_page_def refill_page_size range_defs)

text \<open>What an allocation can have done to the list: nothing, or one insertion of the refilled group.\<close>

definition refilled :: "env \<Rightarrow> 'z vpm_scheme \<Rightarrow> virt_page set" where
  "refilled E s = (if free_pages s = 0 then {refill_page E (trace s)} else {})"

lemma refill_free_list_ok:
  assumes "refill_free_list E s = Inr s'" "wf_pages (pages s)" "good_page (refill_page E (trace s))"
  shows "wf_pages (pages s')" and "set (pages s') = insert (refill_page E (trace s)) (set (pages s))"
    and "free_pages s' = free_pages s + 127"
    and "is_multithreaded s' = is_multithreaded s"
proof -
  let ?p = "refill_page E (trace s)"
  from assms(1) have
    ins: "add_page_insert ?p False (pages s) = Inr (0, pages s')"
    and fr: "free_pages s' = free_pages s + 127" "is_multithreaded s' = is_multithreaded s"
    by (auto simp: refill_free_list_def res_simps syscall_defs Let_def get_sud_def
        refill_page_def refill_call_def split: prod.splits)
  from add_page_insert_ok [OF assms(2,3) ins] fr
  show "wf_pages (pages s')" "set (pages s') = insert ?p (set (pages s))"
    "free_pages s' = free_pages s + 127" "is_multithreaded s' = is_multithreaded s"
    by auto
qed

lemma virt_page_alloc_ok:
  assumes "virt_page_alloc E s = Inr s'" "wf_pages (pages s)"
    and "free_pages s = 0 \<Longrightarrow> good_page (refill_page E (trace s))"
  shows "wf_pages (pages s')" and "set (pages s') = refilled E s \<union> set (pages s)"
    and "is_multithreaded s' = is_multithreaded s"
proof -
  have "wf_pages (pages s') \<and> set (pages s') = refilled E s \<union> set (pages s) \<and>
    is_multithreaded s' = is_multithreaded s"
  proof (cases "free_pages s = 0")
    case True
    with assms obtain s1 where r: "refill_free_list E s = Inr s1"
      and s': "s' = s1\<lparr>free_pages := free_pages s1 - 1\<rparr>"
      by (auto simp: virt_page_alloc_def res_simps)
    with refill_free_list_ok [OF r assms(2) assms(3) [OF True]] True show ?thesis
      by (simp add: refilled_def)
  next
    case False
    with assms show ?thesis by (auto simp: virt_page_alloc_def res_simps refilled_def)
  qed
  then show "wf_pages (pages s')" "set (pages s') = refilled E s \<union> set (pages s)"
    "is_multithreaded s' = is_multithreaded s" by auto
qed

text \<open>With nodes in the pool an allocation leaves the list as it is.\<close>

lemma virt_page_alloc_pool:
  "free_pages s \<noteq> 0 \<Longrightarrow> virt_page_alloc E s = Inr (s\<lparr>free_pages := free_pages s - 1\<rparr>)"
  by (simp add: virt_page_alloc_def)

lemma virt_page_alloc_cases:
  assumes al: "virt_page_alloc E s = Inr s1" and wf: "wf_pages (pages s)" 
    and good: "free_pages s = 0 \<longrightarrow> good_page (refill_page E (trace s))"
  obtains (pool) "free_pages s \<noteq> 0" "s1 = s\<lparr>free_pages := free_pages s - 1\<rparr>"
  | (refill) "free_pages s = 0" "free_pages s1 = 126" "wf_pages (pages s1)"
      "set (pages s1) = insert (refill_page E (trace s)) (set (pages s))"
      "is_multithreaded s1 = is_multithreaded s"
proof (cases "free_pages s = 0")
  case True
  with al obtain s' where r: "refill_free_list E s = Inr s'" and s1: "s1 = s'\<lparr>free_pages := free_pages s' - 1\<rparr>"
    by (auto simp: virt_page_alloc_def res_simps)
  with refill_free_list_ok [OF r wf] good True show ?thesis
    by (intro refill) auto
next
  case False
  with al show ?thesis by (intro pool) (auto simp: virt_page_alloc_pool)
qed

section \<open>The parts of a group below and above an address\<close>

definition lower_part :: "addr \<Rightarrow> virt_page \<Rightarrow> virt_page" where
  "lower_part st p = p\<lparr>vp_size := st - vp_start p\<rparr>"

definition upper_part :: "addr \<Rightarrow> virt_page \<Rightarrow> virt_page" where
  "upper_part en p = p\<lparr>vp_start := en, vp_size := vp_end p - en\<rparr>"

lemma lower_part_nat:
  assumes "pst p \<le> unat st"
  shows "pst (lower_part st p) = pst p" and "pen (lower_part st p) = unat st"
  using assms by (auto simp: lower_part_def range_defs unat_minus_le)

lemma upper_part_nat:
  assumes "good_page p" "unat en \<le> pen p"
  shows "pst (upper_part en p) = unat en" and "pen (upper_part en p) = pen p"
  using assms unat_vp_end [OF assms(1)] by (auto simp: upper_part_def range_defs unat_minus_le)

lemma good_page_iff: "good_page p \<longleftrightarrow> pst p < pen p \<and> pen p < 2 ^ 64"
  by (auto simp: good_page_def range_defs unat_gt_0)

lemma part_attr [simp]: "attr (lower_part st p) = attr p" "attr (upper_part en p) = attr p"
  by (simp_all add: lower_part_def upper_part_def attr_def)

lemmas part_nat = lower_part_nat upper_part_nat

section \<open>Cutting a range out of a list\<close>

definition cut_page :: "addr \<Rightarrow> addr \<Rightarrow> virt_page \<Rightarrow> virt_page list" where
  "cut_page st en p =
     (if vp_end p \<le> st \<or> vp_start p \<ge> en then [p]
      else (if vp_start p < st then [lower_part st p] else []) @
           (if en < vp_end p then [upper_part en p] else []))"

definition cut_range :: "addr \<Rightarrow> addr \<Rightarrow> virt_page list \<Rightarrow> virt_page list" where
  "cut_range st en ps = concat (map (cut_page st en) ps)"

lemma cut_range_simps [simp]:
  "cut_range st en [] = []"
  "cut_range st en (p # ps) = cut_page st en p @ cut_range st en ps"
  "cut_range st en (xs @ ys) = cut_range st en xs @ cut_range st en ys"
  by (simp_all add: cut_range_def)

lemma cut_page_nat:
  assumes "good_page p"
  shows "cut_page st en p =
     (if pen p \<le> unat st \<or> unat en \<le> pst p then [p]
      else (if pst p < unat st then [lower_part st p] else []) @
           (if unat en < pen p then [upper_part en p] else []))"
  using assms by (simp add: cut_page_def page_nat)

lemma cut_page_ok:
  assumes "good_page p" "unat st < unat en" "q \<in> set (cut_page st en p)"
  shows "good_page q" and "pst p \<le> pst q" and "pen q \<le> pen p" and "attr q = attr p"
    and "pen q \<le> unat st \<or> unat en \<le> pst q"
  using assms good_page_bounds [OF assms(1)]
  by (auto simp: cut_page_nat part_nat good_page_iff split: if_splits)

lemma cut_page_covers:
  assumes "good_page p" "unat st < unat en"
  shows "(\<exists>q\<in>set (cut_page st en p). covers q a) \<longleftrightarrow>
           covers p a \<and> \<not> (unat st \<le> unat a \<and> unat a < unat en)"
  using assms good_page_bounds [OF assms(1)]
  by (auto simp: cut_page_nat covers_def part_nat)

lemma cut_page_wf:
  assumes "good_page p" "unat st < unat en"
  shows "wf_pages (cut_page st en p)"
  using assms good_page_bounds [OF assms(1)] cut_page_ok(1) [OF assms]
  by (auto simp: cut_page_nat wf_Cons page_before_def part_nat)

lemma set_cut_range: "set (cut_range st en ps) = (\<Union>p\<in>set ps. set (cut_page st en p))"
  by (auto simp: cut_range_def)

lemma cut_range_wf:
  assumes "wf_pages ps" "unat st < unat en"
  shows "wf_pages (cut_range st en ps)"
  using assms
proof (induction ps)
  case (Cons p ps)
  have g: "good_page p" using Cons.prems by (simp add: wf_Cons)
  have "page_before x y" if x: "x \<in> set (cut_page st en p)" and y: "y \<in> set (cut_range st en ps)" for x y
  proof -
    from y obtain q where q: "q \<in> set ps" "y \<in> set (cut_page st en q)" by (auto simp: set_cut_range)
    have gq: "good_page q" "page_before p q" using Cons.prems q by (auto simp: wf_Cons intro: wf_good)
    show ?thesis
      using cut_page_ok(3) [OF g Cons.prems(2) x] cut_page_ok(2) [OF gq(1) Cons.prems(2) q(2)] gq(2)
      by (simp add: page_before_def)
  qed
  with Cons g show ?case by (simp add: wf_append cut_page_wf wf_Cons)
qed simp

lemma cut_range_tracked:
  assumes "wf_pages ps" "unat st < unat en"
  shows "tracked (cut_range st en ps) a =
           (if unat st \<le> unat a \<and> unat a < unat en then None else tracked ps a)"
proof (cases "unat st \<le> unat a \<and> unat a < unat en")
  case True
  then show ?thesis
    using cut_page_covers [OF wf_good [OF assms(1)] assms(2)]
    by (auto simp: tracked_None_iff set_cut_range)
next
  case False
  have "tracked (cut_range st en ps) a = tracked ps a"
  proof (rule tracked_eqI [OF cut_range_wf [OF assms] assms(1)])
    fix v
    show "(\<exists>p\<in>set (cut_range st en ps). covers p a \<and> attr p = v) = (\<exists>q\<in>set ps. covers q a \<and> attr q = v)"
      using cut_page_covers [OF wf_good [OF assms(1)] assms(2), of _ a]
        cut_page_ok(4) [OF wf_good [OF assms(1)] assms(2)] False
      unfolding set_cut_range by fastforce
  qed
  with False show ?thesis by auto
qed

lemma cut_page_id: "vp_end p \<le> st \<or> vp_start p \<ge> en \<Longrightarrow> cut_page st en p = [p]"
  by (simp add: cut_page_def)

lemma cut_range_below: "\<forall>p\<in>set ps. vp_end p \<le> st \<Longrightarrow> cut_range st en ps = ps"
  by (induction ps) (auto simp: cut_page_id)

lemma cut_range_above: "\<forall>p\<in>set ps. vp_start p \<ge> en \<Longrightarrow> cut_range st en ps = ps"
  by (induction ps) (auto simp: cut_page_id)

end
