(* ===== verification/PageRemove.thy ===== *)
theory PageRemove
  imports PageView
begin

text \<open>
  Removing a range. \<open>remove_page_locked\<close> and \<open>remove_page_map_fixed_locked\<close> are shown to cut exactly the
  requested range out of the list, and only when its bytes belong to the calling compartment.
\<close>

section \<open>Removing a range\<close>

fun contig :: "virt_page list \<Rightarrow> bool" where
  "contig (x # y # zs) \<longleftrightarrow> pen x = pst y \<and> contig (y # zs)"
| "contig _ \<longleftrightarrow> True"

text \<open>The groups of a range: of one compartment, adjacent, and the last one holds the end.\<close>

definition run_of :: "addr \<Rightarrow> c_int \<Rightarrow> virt_page list \<Rightarrow> bool" where
  "run_of en cid rs \<longleftrightarrow> rs \<noteq> [] \<and> (\<forall>q\<in>set rs. vp_Cid q = cid) \<and> contig rs \<and>
     pst (last rs) < unat en \<and> unat en \<le> pen (last rs)"

lemma run_of_Cons:
  "run_of en cid (m # rs) \<Longrightarrow> vp_Cid n = cid \<Longrightarrow> pen n = pst m \<Longrightarrow> run_of en cid (n # m # rs)"
  by (simp add: run_of_def)

lemma remove_scan_Some:
  assumes "remove_scan st en cid k (Some i0) xs = Inr (Some (i, j))" "wf_pages xs"
  shows "i = i0 \<and> (\<exists>c rs post. xs = c # rs @ post \<and> run_of en cid rs \<and> j = k + length rs)"
  using assms
proof (induction xs arbitrary: k rule: induct_list012)
  case (3 c n ps)
  have g: "good_page n" using "3.prems" by (simp add: wf_Cons)
  show ?case
  proof (cases "en \<le> vp_end n")
    case True
    with "3.prems" g have "i = i0" "j = Suc k" "run_of en cid [n]"
      by (auto simp: run_of_def page_nat Let_def split: if_splits)
    then have "c # n # ps = c # [n] @ ps \<and> run_of en cid [n] \<and> j = k + length [n]" by simp
    with \<open>i = i0\<close> show ?thesis by blast
  next
    case False
    then obtain m ms where ps: "ps = m # ms" and adj: "vp_end n = vp_start m"
      and cid: "vp_Cid n = cid"
      and rec: "remove_scan st en cid (Suc k) (Some i0) (n # ps) = Inr (Some (i, j))"
      using "3.prems"(1) by (auto simp: Let_def split: if_splits list.splits)
    from "3.IH"(2) [OF rec] "3.prems"(2) obtain c' rs post where
      "i = i0" "n # ps = c' # rs @ post" "run_of en cid rs" "j = Suc k + length rs"
      by (auto simp: wf_Cons)
    moreover have "pen n = pst m" using adj g by (simp add: vp_end_eq_iff pst_def)
    ultimately have "run_of en cid (n # rs)" "c # n # ps = c # (n # rs) @ post" "j = k + length (n # rs)"
      using cid ps run_of_Cons [of en cid m "tl rs" n] by (cases rs; auto simp: run_of_def)+
    with \<open>i = i0\<close> show ?thesis by blast
  qed
qed simp_all

lemma remove_scan_None:
  assumes "remove_scan st en cid k None xs = Inr (Some (i, j))" "wf_pages xs" "unat st < unat en"
  shows "\<exists>c pre p rs post. xs = c # pre @ (p # rs) @ post \<and> run_of en cid (p # rs) \<and>
           i = Suc k + length pre \<and> j = i + length rs \<and> pst p \<le> unat st \<and> unat st < pen p"
  using assms
proof (induction xs arbitrary: k rule: induct_list012)
  case (3 c n ps)
  have g: "good_page n" using "3.prems" by (simp add: wf_Cons)
  show ?case
  proof (cases "st < vp_end n")
    case False
    then have rec: "remove_scan st en cid (Suc k) None (n # ps) = Inr (Some (i, j))"
      using "3.prems"(1) by (auto simp: Let_def split: if_splits)
    from "3.IH"(2) [OF rec] "3.prems"(2,3) obtain c' pre p rs post where
      "n # ps = c' # pre @ (p # rs) @ post" "run_of en cid (p # rs)"
      "i = Suc (Suc k) + length pre" "j = i + length rs" "pst p \<le> unat st" "unat st < pen p"
      by (auto simp: wf_Cons)
    then have "c # n # ps = c # (n # pre) @ (p # rs) @ post" "i = Suc k + length (n # pre)" by auto
    then show ?thesis using \<open>run_of en cid (p # rs)\<close> \<open>j = i + length rs\<close> \<open>pst p \<le> unat st\<close> \<open>unat st < pen p\<close>
      by blast
  next
    case True
    have start: "pst n \<le> unat st" "unat st < pen n" "vp_Cid n = cid"
      using True "3.prems"(1) g by (auto simp: page_nat Let_def split: if_splits)
    show ?thesis
    proof (cases "en \<le> vp_end n")
      case end_here: True
      with True "3.prems"(1) g start have "i = Suc k" "j = i" "run_of en cid [n]"
        by (auto simp: run_of_def page_nat Let_def split: if_splits)
      then have "c # n # ps = c # [] @ (n # []) @ ps \<and> run_of en cid (n # []) \<and> i = Suc k + length [] \<and>
          j = i + length []" by simp
      with start show ?thesis by blast
    next
      case False
      then obtain m ms where ps: "ps = m # ms" and adj: "vp_end n = vp_start m"
        and rec: "remove_scan st en cid (Suc k) (Some (Suc k)) (n # ps) = Inr (Some (i, j))"
        using "3.prems"(1) True by (auto simp: Let_def split: if_splits list.splits)
      from remove_scan_Some [OF rec] "3.prems"(2) obtain c' rs post where
        "i = Suc k" "n # ps = c' # rs @ post" "run_of en cid rs" "j = Suc k + length rs"
        by (auto simp: wf_Cons)
      moreover have "pen n = pst m" using adj g by (simp add: vp_end_eq_iff pst_def)
      ultimately have "run_of en cid (n # rs)" "c # n # ps = c # [] @ (n # rs) @ post" "i = Suc k + length []" "j = i + length rs"
        using start ps run_of_Cons [of en cid m "tl rs" n] by (cases rs; auto simp: run_of_def)+
      with start show ?thesis by blast
    qed
  qed
qed simp_all

lemma unlink_until_eq:
  "Suc a \<le> j \<Longrightarrow> j \<le> length ps \<Longrightarrow>
     unlink_until a j ps fr = (take (Suc a) ps @ drop j ps, fr + (j - Suc a))"
proof (induction a j ps fr rule: unlink_until.induct)
  case (1 a j ps fr)
  show ?case
  proof (cases "Suc a < j")
    case True
    let ?qs = "unlink_at (Suc a) ps"
    have len: "j - 1 \<le> length ?qs" using True "1.prems" by (simp add: unlink_at_def)
    have "unlink_until a j ps fr = unlink_until a (j - 1) ?qs (Suc fr)"
      using True by (simp add: unlink_until.simps [of a j])
    also have "\<dots> = (take (Suc a) ?qs @ drop (j - 1) ?qs, Suc fr + (j - 1 - Suc a))"
      using "1.IH" True len by simp
    also have "take (Suc a) ?qs = take (Suc a) ps" using True "1.prems" by (simp add: unlink_at_def)
    also have "drop (j - 1) ?qs = drop j ps"
    proof -
      have "Suc (Suc (j - 2)) = j" using True by simp
      then show ?thesis using True "1.prems" by (simp add: unlink_at_def Suc_diff_le)
    qed
    finally show ?thesis using True by simp
  next
    case False
    with "1.prems" show ?thesis by (simp add: unlink_until.simps [of a j])
  qed
qed

lemma contig_covered:
  assumes "contig rs" "rs \<noteq> []" "pst (hd rs) \<le> unat a" "unat a < pen (last rs)"
  shows "\<exists>q\<in>set rs. covers q a"
  using assms
proof (induction rs rule: contig.induct)
  case (1 x y zs)
  show ?case
  proof (cases "unat a < pen x")
    case True
    with "1.prems" show ?thesis by (auto simp: covers_def)
  next
    case False
    with 1 show ?thesis by auto
  qed
qed (auto simp: covers_def)

text \<open>\<open>remove_multi\<close> cuts the range out of the list.\<close>

lemma cut_range_run:
  assumes "wf_pages (pre @ (p # rs) @ post)" "run_of en cid (p # rs)"
    and "pst p \<le> unat st" "unat st < pen p" "unat st < unat en" "rs \<noteq> []"
  shows "cut_range st en (pre @ (p # rs) @ post) =
           pre @ (if pst p < unat st then [lower_part st p] else []) @
           (if unat en < pen (last rs) then [upper_part en (last rs)] else []) @ post"
proof -
  obtain mid e where rs: "rs = mid @ [e]" using assms(6) by (metis rev_exhaust)
  have e: "pst e < unat en" "unat en \<le> pen e" using assms(2) rs by (auto simp: run_of_def)
  have wf: "wf_pages pre" "good_page p" "wf_pages mid" "good_page e" "wf_pages post"
    using assms(1) rs by (auto simp: wf_append wf_Cons)
  have before: "\<forall>q\<in>set pre. pen q \<le> pst p" "\<forall>q\<in>set mid. pen p \<le> pst q \<and> pen q \<le> pst e"
    "pen p \<le> pst e" "\<forall>q\<in>set post. pen e \<le> pst q"
    using assms(1) rs by (auto simp: wf_append wf_Cons page_before_def)
  have "cut_range st en pre = pre"
  proof (intro cut_range_below ballI)
    fix q assume "q \<in> set pre"
    then show "vp_end q \<le> st"
      using before(1) assms(3) wf_good [OF wf(1)] by (fastforce simp: page_nat)
  qed
  moreover have "cut_page st en p = (if pst p < unat st then [lower_part st p] else [])"
    using assms(3,4,5) before(3) e wf(2) by (auto simp: cut_page_nat)
  moreover have "cut_range st en mid = []"
  proof -
    have "cut_page st en q = []" if "q \<in> set mid" for q
    proof -
      have "good_page q" "pen p \<le> pst q" "pen q \<le> pst e" using that wf(3) before(2) by (auto intro: wf_good)
      then show ?thesis using assms(4,5) e good_page_lt [of q] by (simp add: cut_page_nat)
    qed
    then show ?thesis by (simp add: cut_range_def)
  qed
  moreover have "cut_page st en e = (if unat en < pen e then [upper_part en e] else [])"
    using assms(4,5) before(3) e wf(4) by (auto simp: cut_page_nat)
  moreover have "cut_range st en post = post"
    using before(4) e by (intro cut_range_above) (auto simp: page_nat)
  ultimately show ?thesis by (simp add: rs)
qed

lemma remove_multi_cut:
  assumes "wf_pages (pages s)" "pages s = pre @ (p # rs) @ post" "run_of en cid (p # rs)"
    and "pst p \<le> unat st" "unat st < pen p" "unat st < unat en" "rs \<noteq> []" "pre \<noteq> []"
    and "remove_multi st en (length pre) (length pre + length rs) s = Inr (r, s')"
  shows "r = 0 \<and> pages s' = cut_range st en (pages s) \<and> is_multithreaded s' = is_multithreaded s"
proof -
  obtain mid e where rs: "rs = mid @ [e]" using assms(7) by (metis rev_exhaust)
  have wf: "good_page p" "good_page e" using assms(1,2) rs by (auto simp: wf_append wf_Cons)
  have en: "unat en \<le> pen e" using assms(3) rs by (simp add: run_of_def)
  have cut: "cut_range st en (pages s) = pre @ (if pst p < unat st then [lower_part st p] else []) @
           (if unat en < pen e then [upper_part en e] else []) @ post"
    using cut_range_run [of pre p rs post en cid st] assms rs by simp
  have en_eq: "en = vp_end e \<longleftrightarrow> \<not> unat en < pen e"
    using vp_end_eq_iff [OF wf(2), of en] en by auto
  have up: "e\<lparr>vp_size := vp_end e - en, vp_start := en\<rparr> = upper_part en e"
    by (simp add: upper_part_def)
  show ?thesis
  proof (cases "st = vp_start p")
    case True
    then have "\<not> pst p < unat st" by (simp add: pst_def)
    moreover have "unlink_until (length pre - 1) (length pre + length rs - 1) (pre @ mid @ e # post) 1 =
      (pre @ e # post, 1 + length mid)"
      using assms(8) rs unlink_until_eq [of "length pre - 1" "length pre + length rs - 1" "pre @ mid @ e # post" 1]
      by (simp add: Suc_diff_le)
    ultimately show ?thesis
      using assms(2,8,9) True rs cut en_eq up
      by (auto simp: remove_multi_def unlink_at_def nth_append Let_def list_update_append split: if_splits)
  next
    case False
    then have lt: "pst p < unat st" using assms(4) by (auto simp: pst_def word_eq_nat)
    have "unlink_until (length pre) (length pre + length rs) (pre @ lower_part st p # mid @ e # post) 0 =
      (pre @ lower_part st p # e # post, length mid)"
      using rs unlink_until_eq [of "length pre" "length pre + length rs" "pre @ lower_part st p # mid @ e # post" 0]
      by simp
    then show ?thesis
      using assms(2,8,9) False lt rs cut en_eq up
      by (auto simp: remove_multi_def unlink_at_def nth_append Let_def list_update_append lower_part_def split: if_splits)
  qed
qed

text \<open>Linking a group after the one it continues.\<close>

lemma link_after_wf:
  assumes "wf_pages qs" "x \<in> set qs" "vp_start x = k" "good_page n" "page_before x n"
    and "\<And>q. q \<in> set qs \<Longrightarrow> pst x < pst q \<Longrightarrow> page_before n q"
  shows "wf_pages (link_after k [n] qs)" and "set (link_after k [n] qs) = insert n (set qs)"
proof -
  have "wf_pages (link_after k [n] qs) \<and> set (link_after k [n] qs) = insert n (set qs)"
    using assms
  proof (induction qs)
    case (Cons c qs)
    show ?case
    proof (cases "vp_start c = k")
      case True
      have "x = c"
      proof (rule ccontr)
        assume "x \<noteq> c"
        then have "pen c \<le> pst x" using Cons.prems by (auto simp: wf_Cons page_before_def)
        then show False using True Cons.prems good_page_lt [of c] by (auto simp: wf_Cons pst_def)
      qed
      moreover have "\<forall>q\<in>set qs. page_before n q"
        using Cons.prems(1) Cons.prems(6) \<open>x = c\<close> good_page_lt [of c]
        by (fastforce simp: wf_Cons page_before_def)
      ultimately show ?thesis using Cons.prems True by (auto simp: wf_Cons)
    next
      case False
      then have "x \<in> set qs" using Cons.prems by auto
      moreover have "page_before c n"
        using Cons.prems(1,5) \<open>x \<in> set qs\<close> good_page_lt [of x] wf_good [OF Cons.prems(1), of x]
        by (fastforce simp: wf_Cons page_before_def)
      ultimately show ?thesis using Cons False by (auto simp: wf_Cons)
    qed
  qed simp
  then show "wf_pages (link_after k [n] qs)" "set (link_after k [n] qs) = insert n (set qs)" by auto
qed

text \<open>What an operation leaves tracked: what \<open>f\<close> says, except that memory which the node pool mapped
  for itself may be tracked as its own group.\<close>

definition tracks :: "nat \<Rightarrow> env \<Rightarrow> 'z vpm_scheme \<Rightarrow> 'z vpm_scheme \<Rightarrow> (addr \<Rightarrow> (c_int \<times> c_int \<times> c_int) option) \<Rightarrow> bool" where
  "tracks k E s s' f \<longleftrightarrow> wf_pages (pages s') \<and>
     (\<forall>a. tracked (pages s') a = f a \<or>
          (free_pages s < k \<and> covers (refill_page E (trace s)) a \<and>
           tracked (pages s') a = Some (attr (refill_page E (trace s)))))"

lemma tracksI:
  assumes "wf_pages (pages s')" "wf_pages ps" "set (pages s') = refilled E t \<union> set ps"
    and "\<And>a. tracked ps a = f a" and "free_pages t = 0 \<Longrightarrow> free_pages s < k \<and> trace t = trace s"
  shows "tracks k E s s' f"
proof (cases "free_pages t = 0")
  case True
  then have "set (pages s') = insert (refill_page E (trace s)) (set ps)"
    using assms(3,5) by (simp add: refilled_def)
  from tracked_insert [OF assms(2,1) this] assms(1,4,5) True show ?thesis
    by (simp add: tracks_def)
next
  case False
  then have "tracked (pages s') a = tracked ps a" for a
    using assms by (intro tracked_eqI) (auto simp: refilled_def)
  with assms show ?thesis by (simp add: tracks_def)
qed

lemma tracksI_pages:
  assumes "wf_pages (pages s')" "\<And>a. tracked (pages s') a = f a"
  shows "tracks k E s s' f"
  using assms by (simp add: tracks_def)

lemma cut_range_single:
  assumes "wf_pages (pre @ p # post)" "pst p \<le> unat st" "unat st < unat en" "unat en \<le> pen p"
  shows "cut_range st en (pre @ p # post) =
     pre @ (if pst p < unat st then [lower_part st p] else []) @
     (if unat en < pen p then [upper_part en p] else []) @ post"
proof -
  have wf: "wf_pages pre" "good_page p" "wf_pages post"
    and before: "\<forall>q\<in>set pre. pen q \<le> pst p" "\<forall>q\<in>set post. pen p \<le> pst q"
    using assms(1) by (auto simp: wf_append wf_Cons page_before_def)
  have "cut_range st en pre = pre"
  proof (intro cut_range_below ballI)
    fix q assume "q \<in> set pre"
    then show "vp_end q \<le> st"
      using before(1) assms(2) wf_good [OF wf(1)] by (fastforce simp: page_nat)
  qed
  moreover have "cut_range st en post = post"
    using before(2) assms(4) by (intro cut_range_above) (auto simp: page_nat)
  moreover have "cut_page st en p = (if pst p < unat st then [lower_part st p] else []) @
     (if unat en < pen p then [upper_part en p] else [])"
    using assms(2,3,4) wf(2) by (auto simp: cut_page_nat)
  ultimately show ?thesis by simp
qed

text \<open>Splitting a group: the lower part stays in place, the upper part is linked after it, also when
  the allocation in between has inserted the pool's own group.\<close>

lemma split_group:
  assumes wf: "wf_pages (pages s)" and ps: "pages s = pre @ p # post"
    and st: "pst p < unat st" "unat st < unat en" "unat en < pen p"
    and alloc: "virt_page_alloc E s1 = Inr s2" and s1: "pages s1 = pre @ lower_part st p # post"
    and fresh: "free_pages s1 = 0 \<Longrightarrow> good_page (refill_page E (trace s1)) \<and>
                  (\<forall>q\<in>set (pages s). page_disjoint q (refill_page E (trace s1)))"
  shows "wf_pages (link_after (vp_start p) [upper_part en p] (pages s2))"
    and "set (link_after (vp_start p) [upper_part en p] (pages s2)) =
           refilled E s1 \<union> set (pre @ lower_part st p # upper_part en p # post)"
proof -
  let ?lo = "lower_part st p" and ?up = "upper_part en p"
  have gp: "good_page p" using wf ps by (simp add: wf_append wf_Cons)
  have nat: "pst ?lo = pst p" "pen ?lo = unat st" "pst ?up = unat en" "pen ?up = pen p"
    using st gp by (simp_all add: part_nat)
  have wf1: "wf_pages (pages s1)"
    using wf ps s1 st nat good_page_bounds [OF gp] by (auto simp: wf_append wf_Cons page_before_def good_page_iff)
  have al: "wf_pages (pages s2)" "set (pages s2) = refilled E s1 \<union> set (pages s1)"
    using virt_page_alloc_ok [OF alloc wf1] fresh by auto
  have lo: "?lo \<in> set (pages s2)" "vp_start ?lo = vp_start p"
    using al s1 by (auto simp: lower_part_def)
  have up: "good_page ?up" "page_before ?lo ?up"
    using st nat good_page_bounds [OF gp] by (auto simp: good_page_iff page_before_def)
  have after: "page_before ?up q" if q: "q \<in> set (pages s2)" "pst ?lo < pst q" for q
  proof -
    have "q \<in> refilled E s1 \<or> q \<in> set pre \<or> q \<in> set post"
      using q al s1 by auto
    moreover have "\<not> q \<in> set pre"
      using wf ps q nat good_page_lt wf_good [OF wf, of q] by (fastforce simp: wf_append page_before_def)
    moreover have "page_before p q" if "q \<in> refilled E s1"
      using fresh that ps q(2) nat good_page_lt [of q]
      by (auto simp: refilled_def page_disjoint_def page_before_def split: if_splits)
    moreover have "page_before p q" if "q \<in> set post"
      using that wf ps by (auto simp: wf_append wf_Cons)
    ultimately show ?thesis using nat by (auto simp: page_before_def)
  qed
  show "wf_pages (link_after (vp_start p) [?up] (pages s2))"
    by (rule link_after_wf(1) [OF al(1) lo up after])
  show "set (link_after (vp_start p) [?up] (pages s2)) = refilled E s1 \<union> set (pre @ ?lo # ?up # post)"
    using link_after_wf(2) [OF al(1) lo up after] al(2) s1 by auto
qed

lemma remove_single_ok:
  assumes wf: "wf_pages (pages s)" and ps: "pages s = pre @ p # post"
    and st: "pst p \<le> unat st" "unat st < unat en" "unat en \<le> pen p"
    and fresh: "fresh_refill 1 E s"
    and run: "remove_single E st en (length pre) s = Inr (r, s')"
  shows "r = 0 \<and> tracks 1 E s s' (tracked (cut_range st en (pages s))) \<and> is_multithreaded s' = is_multithreaded s"
proof -
  have gp: "good_page p" using wf ps by (simp add: wf_append wf_Cons)
  have cut: "cut_range st en (pages s) = pre @ (if pst p < unat st then [lower_part st p] else []) @
     (if unat en < pen p then [upper_part en p] else []) @ post"
    using cut_range_single [of pre p post st en] wf ps st by simp
  have wfc: "wf_pages (cut_range st en (pages s))" using cut_range_wf [OF wf st(2)] .
  have eqs: "vp_start p = st \<longleftrightarrow> \<not> pst p < unat st" "vp_end p = en \<longleftrightarrow> \<not> unat en < pen p"
    using st vp_end_eq_iff [OF gp, of en] vp_start_eq_iff [of p st] by auto
  show ?thesis
  proof (cases "pst p < unat st \<and> unat en < pen p")
    case False
    with run ps cut eqs have "r = 0 \<and> pages s' = cut_range st en (pages s) \<and> is_multithreaded s' = is_multithreaded s"
      by (auto simp: remove_single_def Let_def unlink_at_def nth_append list_update_append lower_part_def
          upper_part_def virt_page_free_def split: if_splits)
    with wfc show ?thesis by (auto intro: tracksI_pages)
  next
    case True
    let ?s1 = "s\<lparr>pages := pre @ lower_part st p # post\<rparr>"
    from run ps True eqs obtain s2 where al: "virt_page_alloc E ?s1 = Inr s2" and r: "r = 0"
      and s': "s' = s2\<lparr>pages := link_after (vp_start p) [upper_part en p] (pages s2)\<rparr>"
      by (auto simp: remove_single_def Let_def nth_append list_update_append lower_part_def
          upper_part_def res_simps)
    have fr: "free_pages ?s1 = 0 \<Longrightarrow> good_page (refill_page E (trace ?s1)) \<and>
                  (\<forall>q\<in>set (pages s). page_disjoint q (refill_page E (trace ?s1)))"
      using fresh good_refill_page [OF fresh] by (simp add: fresh_refill_def)
    have c: "cut_range st en (pages s) = pre @ lower_part st p # upper_part en p # post"
      using cut True by simp
    have wf1: "wf_pages (pages ?s1)"
      using wfc unfolding c by (auto simp: wf_append wf_Cons)
    have "pst p < unat st" "unat en < pen p" using True by auto
    note sp = split_group [OF wf ps this(1) st(2) this(2) al _ fr]
    have "tracks 1 E s s' (tracked (cut_range st en (pages s)))"
      using sp wfc by (intro tracksI [where t = "?s1"]) (auto simp: s' c)
    moreover have "is_multithreaded s2 = is_multithreaded ?s1"
      using virt_page_alloc_ok(3) [OF al wf1] fr by blast
    ultimately show ?thesis using r s' by simp
  qed
qed

definition in_range :: "addr \<Rightarrow> addr \<Rightarrow> addr \<Rightarrow> bool" where
  "in_range st en a \<longleftrightarrow> unat st \<le> unat a \<and> unat a < unat en"

definition owned :: "virt_page list \<Rightarrow> c_int \<Rightarrow> addr \<Rightarrow> bool" where
  "owned ps cid a \<longleftrightarrow> (\<exists>pr fl. tracked ps a = Some (pr, fl, cid))"

lemma ownedI: "wf_pages ps \<Longrightarrow> p \<in> set ps \<Longrightarrow> covers p a \<Longrightarrow> vp_Cid p = cid \<Longrightarrow> owned ps cid a"
  by (auto simp: owned_def tracked_in attr_def)

lemma owned_iff: "wf_pages ps \<Longrightarrow> owned ps cid a \<longleftrightarrow> (\<exists>p\<in>set ps. covers p a \<and> vp_Cid p = cid)"
  by (auto simp: owned_def tracked_Some_iff attr_def)

lemma run_owned:
  assumes "wf_pages ps" "set (p # rs) \<subseteq> set ps" "run_of en cid (p # rs)" "pst p \<le> unat st" "in_range st en a"
  shows "owned ps cid a"
proof -
  have "\<exists>q\<in>set (p # rs). covers q a"
    using assms(3,4,5) by (intro contig_covered) (auto simp: run_of_def in_range_def)
  with assms(1,2,3) show ?thesis by (auto simp: run_of_def intro: ownedI)
qed

lemma cut_range_tracked': 
  "wf_pages ps \<Longrightarrow> unat st < unat en \<Longrightarrow>
     tracked (cut_range st en ps) = (\<lambda>a. if in_range st en a then None else tracked ps a)"
  by (rule ext) (simp add: cut_range_tracked in_range_def)

lemma range_end:
  assumes "unat st + unat sz < 2 ^ 64" "sz \<noteq> (0 :: u64)"
  shows "unat (st + sz) = unat st + unat sz" and "unat st < unat (st + sz)"
  using assms by (simp_all add: unat_plus_nowrap unat_gt_0)

lemma remove_page_locked_run:
  assumes "remove_page_locked E st sz cid s = Inr (r, s')"
  shows "(r = -1 \<and> s' = s) \<or>
    (\<exists>c n rest i j. pages s = c # n # rest \<and> page_round sz \<noteq> 0 \<and>
      remove_scan st (st + page_round sz) cid 0 (if vp_start n > st then Some 0 else None) (pages s)
        = Inr (Some (i, j)) \<and>
      (if i = j then remove_single E st (st + page_round sz) i s
       else remove_multi st (st + page_round sz) i j s) = Inr (r, s'))"
proof -
  obtain c n rest where ps: "pages s = c # n # rest" if "\<not> (r = -1 \<and> s' = s)"
    using assms by (auto simp: remove_page_locked_def split: list.splits)
  let ?scan = "remove_scan st (st + page_round sz) cid 0 (if vp_start n > st then Some 0 else None) (pages s)"
  show ?thesis
  proof (cases "r = -1 \<and> s' = s")
    case False
    note ps = ps [OF False]
    with assms False have sz: "page_round sz \<noteq> 0"
      and "rbind ?scan (\<lambda>found. case found of None \<Rightarrow> Inr (-1, s)
         | Some (i, j) \<Rightarrow> if i = j then remove_single E st (st + page_round sz) i s
                          else remove_multi st (st + page_round sz) i j s) = Inr (r, s')"
      by (auto simp: remove_page_locked_def nolibc_assert_eq_Inr Let_def simp del: remove_scan.simps
          split: if_splits)
    then obtain i j where "?scan = Inr (Some (i, j))"
      "(if i = j then remove_single E st (st + page_round sz) i s
        else remove_multi st (st + page_round sz) i j s) = Inr (r, s')"
      using False unfolding rbind_eq_Inr by (auto simp del: remove_scan.simps split: option.splits prod.splits)
    with ps sz show ?thesis by blast
  qed simp
qed

lemma remove_page_locked_ok:
  assumes wf: "wf_pages (pages s)" and fresh: "fresh_refill 1 E s"
    and nowrap: "unat st + unat (page_round sz) < 2 ^ 64"
    and run: "remove_page_locked E st sz cid s = Inr (r, s')"
  defines "en \<equiv> st + page_round sz"
  shows "(r = -1 \<and> s' = s) \<or>
    (r = 0 \<and> (\<forall>a. in_range st en a \<longrightarrow> owned (pages s) cid a) \<and>
     tracks 1 E s s' (\<lambda>a. if in_range st en a then None else tracked (pages s) a) \<and>
     is_multithreaded s' = is_multithreaded s)"
proof (cases "r = -1 \<and> s' = s")
  case False
  with remove_page_locked_run [OF run] obtain c n rest i j where ps: "pages s = c # n # rest"
    and sz: "page_round sz \<noteq> 0"
    and scan: "remove_scan st en cid 0 (if vp_start n > st then Some 0 else None) (pages s) = Inr (Some (i, j))"
    and rem: "(if i = j then remove_single E st en i s else remove_multi st en i j s) = Inr (r, s')"
    unfolding en_def by blast
  have lt: "unat st < unat en" using range_end(2) [OF nowrap sz] by (simp add: en_def)
  have np: "\<not> vp_start n > st"
  proof
    assume "vp_start n > st"
    with scan have "remove_scan st en cid 0 (Some 0) (pages s) = Inr (Some (i, j))" by simp
    from remove_scan_Some [OF this wf] have "i = 0" "j \<noteq> 0" by (auto simp: run_of_def)
    with rem show False by (simp add: remove_multi_def)
  qed
  with scan have "remove_scan st en cid 0 None (pages s) = Inr (Some (i, j))" by simp
  from remove_scan_None [OF this wf lt] obtain c' pre p rs post where
    eq: "pages s = c' # pre @ (p # rs) @ post" and ro: "run_of en cid (p # rs)"
    and ij: "i = Suc 0 + length pre" "j = i + length rs"
    and p: "pst p \<le> unat st" "unat st < pen p" by auto
  have own: "\<forall>a. in_range st en a \<longrightarrow> owned (pages s) cid a"
    using run_owned [OF wf _ ro p(1)] eq by auto
  have "r = 0 \<and> tracks 1 E s s' (tracked (cut_range st en (pages s))) \<and> is_multithreaded s' = is_multithreaded s"
  proof (cases "rs = []")
    case True
    then have "remove_single E st en (length (c' # pre)) s = Inr (r, s')"
      using rem ij by simp
    from remove_single_ok [OF wf _ p(1) lt _ fresh this] show ?thesis
      using eq True ro by (simp add: run_of_def)
  next
    case False
    then have "remove_multi st en (length (c' # pre)) (length (c' # pre) + length rs) s = Inr (r, s')"
      using rem ij by simp
    from remove_multi_cut [OF wf _ ro p lt False _ this] eq
    have "r = 0 \<and> pages s' = cut_range st en (pages s) \<and> is_multithreaded s' = is_multithreaded s" by simp
    with cut_range_wf [OF wf lt] show ?thesis by (auto intro: tracksI_pages)
  qed
  with own show ?thesis by (simp add: cut_range_tracked' [OF wf lt])
qed simp

section \<open>Removing a range with gaps\<close>

lemma fixed_walk_cut:
  assumes "fixed_walk st en cid ps = Inr (qs, fr, sp)" "wf_pages ps" "unat st < unat en"
  shows "(\<forall>p\<in>set ps. pen p \<le> unat st \<or> unat en \<le> pst p \<or> vp_Cid p = cid) \<and>
    (case sp of
       None \<Rightarrow> qs = cut_range st en ps
     | Some (k, g) \<Rightarrow> (\<exists>pre p post. ps = pre @ p # post \<and> qs = pre @ lower_part st p # post \<and> k = vp_start p \<and>
         g = upper_part en p \<and> pst p < unat st \<and> unat en < pen p))"
  using assms
proof (induction ps arbitrary: qs fr sp)
  case (Cons c ps)
  have gc: "good_page c" and wf: "wf_pages ps" and bef: "\<forall>q\<in>set ps. pen c \<le> pst q"
    using Cons.prems by (auto simp: wf_Cons page_before_def)
  note n = gc page_nat
  have above: "cut_range st en ps = ps" "\<forall>q\<in>set ps. unat en \<le> pst q" if "unat en \<le> pen c"
    using that bef by (auto intro!: cut_range_above simp: page_nat)
  consider (below) "pen c \<le> unat st" | (above) "unat st < pen c" "unat en \<le> pst c"
    | (over) "unat st < pen c" "pst c < unat en" "vp_Cid c = cid"
    using Cons.prems(1) by (fastforce simp: n res_simps split: if_splits)
  then show ?case
  proof cases
    case below
    with Cons.prems(1) obtain qs' where rec: "fixed_walk st en cid ps = Inr (qs', fr, sp)" "qs = c # qs'"
      by (auto simp: n res_simps)
    have cp: "cut_page st en c = [c]" using below gc by (simp add: cut_page_nat)
    show ?thesis
    proof (cases sp)
      case None
      with Cons.IH [OF rec(1) wf Cons.prems(3)] rec(2) below cp show ?thesis by simp
    next
      case (Some kg)
      obtain k g where kg: "kg = (k, g)" by (cases kg)
      with Some Cons.IH [OF rec(1) wf Cons.prems(3)] obtain pre p post where
        *: "ps = pre @ p # post" "qs' = pre @ lower_part st p # post" "k = vp_start p"
        "g = upper_part en p" "pst p < unat st" "unat en < pen p"
        "\<forall>p\<in>set ps. pen p \<le> unat st \<or> unat en \<le> pst p \<or> vp_Cid p = cid" by auto
      then have "c # ps = (c # pre) @ p # post" "qs = (c # pre) @ lower_part st p # post"
        using rec(2) by auto
      with * Some kg below show ?thesis by (auto intro!: exI [of _ "c # pre"])
    qed
  next
    case above
    with Cons.prems(1) have "qs = c # ps" "sp = None" by (auto simp: n)
    moreover have "unat en \<le> pen c" using above good_page_lt [OF gc] by simp
    ultimately show ?thesis
      using above \<open>unat en \<le> pen c \<Longrightarrow> cut_range st en ps = ps\<close>
        \<open>unat en \<le> pen c \<Longrightarrow> \<forall>q\<in>set ps. unat en \<le> pst q\<close> gc by (auto simp: cut_page_nat)
  next
    case over
    show ?thesis
    proof (cases "pen c \<le> unat en")
      case True
      with over Cons.prems(1) obtain qs' fr' where rec: "fixed_walk st en cid ps = Inr (qs', fr', sp)"
        and qs: "qs = (if pst c < unat st then [lower_part st c] else []) @ qs'"
        by (auto simp: n res_simps lower_part_def split: if_splits)
      have cp: "cut_page st en c = (if pst c < unat st then [lower_part st c] else [])"
        using over True gc by (simp add: cut_page_nat)
      have "sp = None"
      proof (rule ccontr)
        assume "sp \<noteq> None"
        then obtain k g where "sp = Some (k, g)" by auto
        with Cons.IH [OF rec wf Cons.prems(3)] obtain pre p post where "ps = pre @ p # post" "pst p < unat st"
          by (simp del: ex_simps) blast
        then have "p \<in> set ps" "pst p < unat st" by auto
        with bef over show False by auto
      qed
      with Cons.IH [OF rec wf Cons.prems(3)] qs over cp show ?thesis by simp
    next
      case False
      with above have ab: "cut_range st en ps = ps" "\<forall>q\<in>set ps. unat en \<le> pst q" by auto
      show ?thesis
      proof (cases "pst c < unat st")
        case True
        with over False Cons.prems(1) have "qs = lower_part st c # ps" "sp = Some (vp_start c, upper_part en c)"
          by (auto simp: n lower_part_def upper_part_def)
        with True False over ab show ?thesis by (auto intro!: exI [of _ "[]"])
      next
        case F2: False
        with over False Cons.prems(1) have "qs = upper_part en c # ps" "sp = None"
          by (auto simp: n upper_part_def)
        with False F2 over ab gc show ?thesis by (auto simp: cut_page_nat)
      qed
    qed
  qed
qed simp

lemma remove_page_map_fixed_locked_ok:
  assumes wf: "wf_pages (pages s)" and fresh: "fresh_refill 1 E s"
    and nowrap: "unat st + unat (page_round sz) < 2 ^ 64"
    and run: "remove_page_map_fixed_locked E st sz cid s = Inr (r, s')"
  defines "en \<equiv> st + page_round sz"
  shows "(r = -1 \<and> s' = s \<and> page_round sz = 0) \<or>
    (r = 0 \<and> (\<forall>a. in_range st en a \<longrightarrow> tracked (pages s) a = None \<or> owned (pages s) cid a) \<and>
     tracks 1 E s s' (\<lambda>a. if in_range st en a then None else tracked (pages s) a) \<and>
     is_multithreaded s' = is_multithreaded s)"
proof (cases "page_round sz = 0")
  case True
  with run show ?thesis by (simp add: remove_page_map_fixed_locked_def res_simps)
next
  case False
  have lt: "unat st < unat en" using range_end(2) [OF nowrap False] by (simp add: en_def)
  from run False obtain qs fr sp where walk: "fixed_walk st en cid (pages s) = Inr (qs, fr, sp)"
    and rest: "(case sp of None \<Rightarrow> Inr (0, s\<lparr>pages := qs, free_pages := free_pages s + fr\<rparr>)
         | Some (k, g) \<Rightarrow> rbind (virt_page_alloc E (s\<lparr>pages := qs, free_pages := free_pages s + fr\<rparr>))
            (\<lambda>s. Inr (0, s\<lparr>pages := link_after k [g] (pages s)\<rparr>))) = Inr (r, s')"
    by (auto simp: remove_page_map_fixed_locked_def en_def Let_def res_simps)
  note fw = fixed_walk_cut [OF walk wf lt]
  have own: "\<forall>a. in_range st en a \<longrightarrow> tracked (pages s) a = None \<or> owned (pages s) cid a"
  proof (intro allI impI)
    fix a assume a: "in_range st en a"
    show "tracked (pages s) a = None \<or> owned (pages s) cid a"
    proof (cases "tracked (pages s) a")
      case (Some v)
      then obtain p where p: "p \<in> set (pages s)" "covers p a" using wf by (auto simp: tracked_Some_iff)
      with fw a have "vp_Cid p = cid" by (fastforce simp: covers_def in_range_def)
      with p wf show ?thesis by (auto intro: ownedI)
    qed simp
  qed
  have "r = 0 \<and> tracks 1 E s s' (tracked (cut_range st en (pages s))) \<and> is_multithreaded s' = is_multithreaded s"
  proof (cases sp)
    case None
    with fw rest have "r = 0 \<and> pages s' = cut_range st en (pages s) \<and> is_multithreaded s' = is_multithreaded s" by auto
    with cut_range_wf [OF wf lt] show ?thesis by (auto intro: tracksI_pages)
  next
    case (Some kg)
    obtain k g where "kg = (k, g)" by (cases kg)
    with Some fw obtain pre p post where ps: "pages s = pre @ p # post" "qs = pre @ lower_part st p # post"
      and kg: "sp = Some (vp_start p, upper_part en p)" and p: "pst p < unat st" "unat en < pen p" by auto
    let ?s1 = "s\<lparr>pages := qs, free_pages := free_pages s + fr\<rparr>"
    from rest kg obtain s2 where al: "virt_page_alloc E ?s1 = Inr s2" and r: "r = 0"
      and s': "s' = s2\<lparr>pages := link_after (vp_start p) [upper_part en p] (pages s2)\<rparr>"
      by (auto simp: res_simps)
    have fr: "free_pages ?s1 = 0 \<Longrightarrow> good_page (refill_page E (trace ?s1)) \<and>
                  (\<forall>q\<in>set (pages s). page_disjoint q (refill_page E (trace ?s1)))"
      using fresh good_refill_page [OF fresh] by (simp add: fresh_refill_def)
    have c: "cut_range st en (pages s) = pre @ lower_part st p # upper_part en p # post"
      using cut_range_single [of pre p post st en] wf ps p lt by simp
    have wfc: "wf_pages (cut_range st en (pages s))" using cut_range_wf [OF wf lt] .
    then have wf1: "wf_pages (pages ?s1)" unfolding c using ps by (auto simp: wf_append wf_Cons)
    have qs: "pages ?s1 = pre @ lower_part st p # post" using ps(2) by simp
    note sg = split_group [OF wf ps(1) p(1) lt p(2) al qs fr]
    have "tracks 1 E s s' (tracked (cut_range st en (pages s)))"
      using sg wfc unfolding c by (intro tracksI [where t = "?s1"]) (simp_all add: s')
    moreover have "is_multithreaded s2 = is_multithreaded ?s1"
      using virt_page_alloc_ok(3) [OF al wf1] fr by blast
    ultimately show ?thesis using r s' by simp
  qed
  with own show ?thesis by (simp add: cut_range_tracked' [OF wf lt])
qed

end
