(* ===== verification/PageUpdate.thy ===== *)
theory PageUpdate
  imports PageRemove
begin

text \<open>
  Adding a group, changing the protection of a range and changing the size of a group: the effect of
  each body on the view of the list.
\<close>

section \<open>Adding a group\<close>

lemma tracks_mono: "tracks j E s s' f \<Longrightarrow> j \<le> k \<Longrightarrow> tracks k E s s' f"
  by (fastforce simp: tracks_def)

lemma tracks_exact: "tracks k E s s' f \<Longrightarrow> k \<le> free_pages s \<Longrightarrow> tracked (pages s') = f"
  by (auto simp: tracks_def)

lemma fresh_good: "fresh_refill k E s \<Longrightarrow> 0 < k \<Longrightarrow> free_pages s = 0 \<longrightarrow> good_page (refill_page E (trace s))"
  by (simp add: good_refill_page)

text \<open>An allocation before an operation, which may itself allocate.\<close>

lemma alloc_then_tracks:
  assumes al: "virt_page_alloc E s = Inr s1" and wf: "wf_pages (pages s)" and fresh: "fresh_refill 2 E s"
    and op: "tracks 1 E s1 s2 (\<lambda>a. if P a then v a else tracked (pages s1) a)"
  shows "tracks 2 E s s2 (\<lambda>a. if P a then v a else tracked (pages s) a)"
  using al wf fresh_good [OF fresh zero_less_numeral]
proof (cases rule: virt_page_alloc_cases)
  case pool
  then have "pages s1 = pages s" "trace s1 = trace s" "free_pages s1 < 1 \<longrightarrow> free_pages s < 2" by auto
  with op show ?thesis unfolding tracks_def by metis
next
  case refill
  have "tracked (pages s1) a = (if covers (refill_page E (trace s)) a
      then Some (attr (refill_page E (trace s))) else tracked (pages s) a)" for a
    using refill wf by (intro tracked_insert) auto
  with op refill show ?thesis by (auto simp: tracks_def)
qed

lemma alloc_fresh:
  assumes al: "virt_page_alloc E s = Inr s1" and wf: "wf_pages (pages s)" and fresh: "fresh_refill 2 E s"
  shows "fresh_refill 1 E s1" "wf_pages (pages s1)" "is_multithreaded s1 = is_multithreaded s"
    "tracked (pages s1) a = tracked (pages s) a \<or>
      (free_pages s < 2 \<and> covers (refill_page E (trace s)) a \<and>
       tracked (pages s1) a = Some (attr (refill_page E (trace s))))"
    "set (pages s) \<subseteq> set (pages s1)"
proof -
  have "fresh_refill 1 E s1 \<and> wf_pages (pages s1) \<and> is_multithreaded s1 = is_multithreaded s \<and>
    (tracked (pages s1) a = tracked (pages s) a \<or>
      (free_pages s < 2 \<and> covers (refill_page E (trace s)) a \<and>
       tracked (pages s1) a = Some (attr (refill_page E (trace s))))) \<and> set (pages s) \<subseteq> set (pages s1)"
    using al wf fresh_good [OF fresh zero_less_numeral]
  proof (cases rule: virt_page_alloc_cases)
    case pool
    with fresh wf show ?thesis by (auto simp: fresh_refill_def)
  next
    case refill
    with tracked_insert [OF wf refill(3,4), of a] show ?thesis by (auto simp: fresh_refill_def)
  qed
  then show "fresh_refill 1 E s1" "wf_pages (pages s1)" "is_multithreaded s1 = is_multithreaded s"
    "tracked (pages s1) a = tracked (pages s) a \<or>
      (free_pages s < 2 \<and> covers (refill_page E (trace s)) a \<and>
       tracked (pages s1) a = Some (attr (refill_page E (trace s))))"
    "set (pages s) \<subseteq> set (pages s1)" by auto
qed

lemma new_page_fields [simp]:
  "vp_start (new_page st sz pr fl cid) = st" "vp_size (new_page st sz pr fl cid) = page_round sz"
  "attr (new_page st sz pr fl cid) = (pr, fl, cid)"
  by (simp_all add: new_page_def attr_def)

lemma good_new_page:
  "unat st + unat (page_round sz) < 2 ^ 64 \<Longrightarrow> page_round sz \<noteq> 0 \<Longrightarrow> good_page (new_page st sz pr fl cid)"
  by (simp add: good_page_def range_defs)

lemma covers_new_page:
  "unat st + unat (page_round sz) < 2 ^ 64 \<Longrightarrow>
     covers (new_page st sz pr fl cid) a \<longleftrightarrow> in_range st (st + page_round sz) a"
  by (simp add: covers_def in_range_def range_defs unat_plus_nowrap)

lemma disjoint_covers: "page_disjoint p q \<Longrightarrow> covers p a \<Longrightarrow> \<not> covers q a"
  by (auto simp: page_disjoint_def page_before_def covers_def)

lemma page_round_idem:
  assumes "unat st + unat (page_round sz) < 2 ^ 64" "page_aligned st"
  shows "page_round (page_round sz) = page_round sz"
proof (cases "unat (page_round sz) + 4095 < 2 ^ 64")
  case True
  then show ?thesis by (simp add: page_round_fix page_round_aligned)
next
  case False
  have "4096 dvd unat (page_round sz)" using page_round_aligned [of sz] by (simp add: page_aligned_nat)
  moreover have "unat (page_round sz) < 2 ^ 64" by (rule unat_lt_2p64)
  ultimately have "unat (page_round sz) \<le> 2 ^ 64 - 4096" by (elim dvdE) simp
  then have "unat (page_round sz) + 4095 < 2 ^ 64" by simp
  with False show ?thesis by simp
qed

text \<open>The part of \<open>add_page_locked\<close> before the insertion.\<close>

lemma add_page_clear_ok:
  assumes wf: "wf_pages (pages s)" and fresh: "fresh_refill 1 E s"
    and nowrap: "unat st + unat (page_round sz) < 2 ^ 64" and al: "page_aligned st"
    and run: "(if mf then (if is_multithreaded s then remove_page_locked E st (page_round sz) cid s
                     else remove_page_map_fixed_locked E st (page_round sz) cid s)
               else Inr (0, s)) = Inr (r, s')"
  defines "en \<equiv> st + page_round sz"
  shows "(r = -1 \<and> s' = s \<and> mf) \<or>
    (r = 0 \<and> (mf \<longrightarrow> (\<forall>a. in_range st en a \<longrightarrow> tracked (pages s) a = None \<or> owned (pages s) cid a)) \<and>
     tracks 1 E s s' (\<lambda>a. if mf \<and> in_range st en a then None else tracked (pages s) a) \<and>
     is_multithreaded s' = is_multithreaded s)"
proof -
  note idem = page_round_idem [OF nowrap al]
  have nw: "unat st + unat (page_round (page_round sz)) < 2 ^ 64" using nowrap by (simp add: idem)
  show ?thesis
  proof (cases mf)
    case True
    then show ?thesis
    proof (cases "is_multithreaded s")
      case True
      with \<open>mf\<close> run have "remove_page_locked E st (page_round sz) cid s = Inr (r, s')" by simp
      from remove_page_locked_ok [OF wf fresh nw this] \<open>mf\<close> show ?thesis
        by (auto simp: idem en_def)
    next
      case False
      with \<open>mf\<close> run have "remove_page_map_fixed_locked E st (page_round sz) cid s = Inr (r, s')" by simp
      from remove_page_map_fixed_locked_ok [OF wf fresh nw this] \<open>mf\<close> show ?thesis
        by (auto simp: idem en_def)
    qed
  next
    case False
    with run wf show ?thesis by (auto intro: tracksI_pages)
  qed
qed

lemma tracks_insert:
  assumes "tracks k E s s1 f" "wf_pages qs" "set qs = insert p (set (pages s1))"
  shows "tracks k E s (s1\<lparr>pages := qs\<rparr>) (\<lambda>a. if covers p a then Some (attr p) else f a)"
  using assms tracked_insert [OF _ assms(2,3)] by (auto simp: tracks_def)

lemma add_page_body_ok:
  assumes wf: "wf_pages (pages s)" and fresh: "fresh_refill 2 E s"
    and range: "unat st + unat (page_round sz) < 2 ^ 64" "page_round sz \<noteq> 0"
    and dis: "free_pages s < 2 \<Longrightarrow> page_disjoint (new_page st sz pr fl cid) (refill_page E (trace s))"
    and al: "virt_page_alloc E s = Inr s1"
    and run: "add_page_locked E st sz pr fl cid mf s1 = Inr (r, s')"
  defines "en \<equiv> st + page_round sz"
  shows "(r = -1 \<and> tracks 2 E s s' (tracked (pages s)) \<and> is_multithreaded s' = is_multithreaded s) \<or>
    (r = 0 \<and> (\<forall>a. in_range st en a \<longrightarrow> tracked (pages s) a = None \<or> mf \<and> owned (pages s) cid a) \<and>
     tracks 2 E s s' (\<lambda>a. if in_range st en a then Some (pr, fl, cid) else tracked (pages s) a) \<and>
     is_multithreaded s' = is_multithreaded s)"
proof -
  let ?p = "new_page st sz pr fl cid" and ?R = "refill_page E (trace s)"
  note a1 = alloc_fresh [OF al wf fresh]
  from run obtain r1 s2 where ali: "page_aligned st"
    and clear': "(if mf then (if is_multithreaded s1 then remove_page_locked E st (vp_size ?p) cid s1
                     else remove_page_map_fixed_locked E st (vp_size ?p) cid s1)
               else Inr (0, s1)) = Inr (r1, s2)"
    and rest: "(if r1 = -1 then Inr (-1, s2)
                else rbind (add_page_insert ?p mf (pages s2)) (\<lambda>(r, qs). Inr (r, s2\<lparr>pages := qs\<rparr>))) = Inr (r, s')"
    unfolding add_page_locked_def by (auto simp: res_simps Let_def)
  note clear = clear' [unfolded new_page_fields]
  have same: "tracks 2 E s s1 (tracked (pages s))"
    using a1(2,4) by (auto simp: tracks_def)
  have nR: "\<not> covers ?R a" if "in_range st en a" "free_pages s < 2" for a
    using disjoint_covers [OF dis [OF that(2)]] that(1) covers_new_page [OF range(1)] by (auto simp: en_def)
  have tr1: "tracked (pages s1) a = tracked (pages s) a" if "in_range st en a" for a
    using a1(4) [of a] nR [OF that] by auto
  from add_page_clear_ok [OF a1(2,1) range(1) ali clear] show ?thesis
  proof (elim disjE conjE)
    assume "r1 = -1" "s2 = s1"
    with rest same a1(3) show ?thesis by simp
  next
    assume r1: "r1 = 0"
      and own: "mf \<longrightarrow> (\<forall>a. in_range st (st + page_round sz) a \<longrightarrow> tracked (pages s1) a = None \<or> owned (pages s1) cid a)"
      and t2: "tracks 1 E s1 s2 (\<lambda>a. if mf \<and> in_range st (st + page_round sz) a then None else tracked (pages s1) a)"
      and mt: "is_multithreaded s2 = is_multithreaded s1"
    from rest r1 obtain qs where ins: "add_page_insert ?p mf (pages s2) = Inr (r, qs)" and s': "s' = s2\<lparr>pages := qs\<rparr>"
      by (auto simp: res_simps)
    have wf2: "wf_pages (pages s2)" using t2 by (simp add: tracks_def)
    have t: "tracks 2 E s s2 (\<lambda>a. if mf \<and> in_range st en a then None else tracked (pages s) a)"
      using alloc_then_tracks [OF al wf fresh, where v = "\<lambda>_. None"] t2 by (simp add: en_def)
    from add_page_insert_ok [OF wf2 good_new_page [OF range] ins] show ?thesis
    proof (elim disjE conjE)
      assume "r = -1" "qs = pages s2" "\<not> mf"
      with t s' mt a1(3) show ?thesis by simp
    next
      assume r: "r = 0" and q: "wf_pages qs" "set qs = insert ?p (set (pages s2))"
        and disj: "\<forall>q\<in>set (pages s2). page_disjoint q ?p"
      have "tracks 2 E s s' (\<lambda>a. if in_range st en a then Some (pr, fl, cid) else tracked (pages s) a)"
        using tracks_insert [OF t q] by (simp add: s' covers_new_page [OF range(1)] en_def if_distrib cong: if_cong)
      moreover have "tracked (pages s) a = None \<or> mf \<and> owned (pages s) cid a" if a: "in_range st en a" for a
      proof (cases mf)
        case True
        with own a have "tracked (pages s1) a = None \<or> owned (pages s1) cid a" by (simp add: en_def)
        with True tr1 [OF a] show ?thesis by (simp add: owned_def)
      next
        case False
        have "covers ?p a" using a by (simp add: covers_new_page [OF range(1)] en_def)
        with disj have "tracked (pages s2) a = None" by (auto simp: tracked_None_iff dest: disjoint_covers)
        with False clear tr1 [OF a] show ?thesis by simp
      qed
      ultimately show ?thesis using r s' mt a1(3) by simp
    qed
  qed
qed

section \<open>Replacing a group by parts of it\<close>

lemma node_split:
  assumes "wf_pages ps" "p \<in> set ps"
  obtains pre post where "ps = pre @ p # post" "\<forall>q\<in>set pre. vp_start q \<noteq> vp_start p"
proof -
  obtain pre post where ps: "ps = pre @ p # post" using assms(2) by (meson split_list)
  have "vp_start q \<noteq> vp_start p" if "q \<in> set pre" for q
    using that assms(1) ps wf_good [OF assms(1), of q] good_page_lt [of q]
    by (auto simp: wf_append page_before_def pst_def)
  with ps that show ?thesis by blast
qed

lemma node_ops:
  assumes "\<forall>q\<in>set pre. vp_start q \<noteq> k" "vp_start p = k"
  shows "link_after k gs (pre @ p # post) = pre @ p # gs @ post"
    and "upd_node k f (pre @ p # post) = pre @ f p # post"
    and "next_of k (pre @ p # post) = (case post of [] \<Rightarrow> None | n # _ \<Rightarrow> Some n)"
  using assms by (induction pre) auto

lemma wf_replace:
  assumes "wf_pages (pre @ p # post)" "wf_pages gs" "\<forall>g\<in>set gs. pst p \<le> pst g \<and> pen g \<le> pen p"
  shows "wf_pages (pre @ gs @ post)"
  using assms by (fastforce simp: wf_append wf_Cons page_before_def)

lemma tracked_replace:
  assumes "wf_pages (pre @ p # post)" "wf_pages gs" "\<forall>g\<in>set gs. pst p \<le> pst g \<and> pen g \<le> pen p"
  shows "tracked (pre @ gs @ post) a = (if covers p a then tracked gs a else tracked (pre @ p # post) a)"
proof (cases "covers p a")
  case True
  then have "\<not> covers q a" if "q \<in> set pre \<union> set post" for q
    using that assms(1) by (auto simp: wf_append wf_Cons page_before_def covers_def)
  moreover have "wf_pages (pre @ gs @ post)" by (rule wf_replace [OF assms])
  ultimately have "tracked (pre @ gs @ post) a = tracked gs a"
    using assms(2) by (intro tracked_eqI) auto
  with True show ?thesis by simp
next
  case False
  then have "\<not> covers g a" if "g \<in> set gs" for g
    using that assms(3) by (force simp: covers_def)
  with False show ?thesis using wf_replace [OF assms] assms(1) by (auto intro!: tracked_eqI)
qed

section \<open>Changing the protection of a range\<close>

lemma alloc_tracks:
  assumes al: "virt_page_alloc E s = Inr s1" and wf: "wf_pages (pages s)" and fresh: "fresh_refill 1 E s"
  shows "tracks 1 E s s1 (tracked (pages s)) \<and> set (pages s) \<subseteq> set (pages s1) \<and>
    is_multithreaded s1 = is_multithreaded s"
  using al wf fresh_good [OF fresh zero_less_one]
proof (cases rule: virt_page_alloc_cases)
  case pool
  with wf show ?thesis by (auto intro: tracksI_pages)
next
  case refill
  with tracked_insert [OF wf refill(3,4)] show ?thesis by (auto simp: tracks_def)
qed

lemma alloc2_tracks:
  assumes "virt_page_alloc E s = Inr s1" "virt_page_alloc E s1 = Inr s2" "wf_pages (pages s)" "fresh_refill 2 E s"
  shows "tracks 2 E s s2 (tracked (pages s)) \<and> set (pages s) \<subseteq> set (pages s2) \<and>
    is_multithreaded s2 = is_multithreaded s"
proof -
  note a1 = alloc_fresh [OF assms(1,3,4)]
  note a2 = alloc_tracks [OF assms(2) a1(2,1)]
  have "tracks 2 E s s2 (tracked (pages s))"
    using alloc_then_tracks [OF assms(1,3,4), where P = "\<lambda>_. False"] a2 by simp
  with a1 a2 show ?thesis by auto
qed

text \<open>The parts of a group when the protection of \<open>st .. en\<close> changes.\<close>

definition mid_part :: "addr \<Rightarrow> addr \<Rightarrow> c_int \<Rightarrow> virt_page \<Rightarrow> virt_page" where
  "mid_part st en pr p = p\<lparr>vp_start := st, vp_size := en - st, vp_prot := pr\<rparr>"

definition prot_parts :: "addr \<Rightarrow> addr \<Rightarrow> c_int \<Rightarrow> virt_page \<Rightarrow> virt_page list" where
  "prot_parts st en pr p = (if pst p < unat st then [lower_part st p] else []) @ [mid_part st en pr p] @
     (if unat en < pen p then [upper_part en p] else [])"

lemma mid_part_nat:
  assumes "unat st < unat en"
  shows "pst (mid_part st en pr p) = unat st" "pen (mid_part st en pr p) = unat en"
    "attr (mid_part st en pr p) = (pr, vp_flags p, vp_Cid p)"
  using assms by (auto simp: mid_part_def range_defs unat_minus_le attr_def)

lemma prot_parts_ok:
  assumes g: "good_page p" and st: "pst p \<le> unat st" "unat st < unat en" "unat en \<le> pen p"
  shows "wf_pages (prot_parts st en pr p)"
    and "\<forall>q\<in>set (prot_parts st en pr p). pst p \<le> pst q \<and> pen q \<le> pen p"
    and "covers p a \<Longrightarrow> tracked (prot_parts st en pr p) a =
           Some (if in_range st en a then (pr, vp_flags p, vp_Cid p) else attr p)"
proof -
  note nat = mid_part_nat [OF st(2)] lower_part_nat [OF st(1)] upper_part_nat [OF g st(3)]
  note b = good_page_bounds [OF g]
  have gp: "pst p < unat st \<Longrightarrow> good_page (lower_part st p)" "good_page (mid_part st en pr p)"
    "unat en < pen p \<Longrightarrow> good_page (upper_part en p)"
    using st b by (simp_all add: good_page_iff nat)
  with st b show wf: "wf_pages (prot_parts st en pr p)"
    by (auto simp: prot_parts_def wf_Cons page_before_def nat)
  show "\<forall>q\<in>set (prot_parts st en pr p). pst p \<le> pst q \<and> pen q \<le> pen p"
    using st by (auto simp: prot_parts_def nat)
  show "tracked (prot_parts st en pr p) a =
           Some (if in_range st en a then (pr, vp_flags p, vp_Cid p) else attr p)" if "covers p a"
    unfolding tracked_Some_iff [OF wf]
    using st that by (auto simp: prot_parts_def covers_def nat in_range_def)
qed

text \<open>Replacing the group, in a list to which allocations may have added the pool's group.\<close>

lemma prot_replace:
  assumes t: "tracks 2 E s s1 (tracked (pages s))" and sub: "set (pages s) \<subseteq> set (pages s1)"
    and wf: "wf_pages (pages s)"
    and p: "p \<in> set (pages s)" "pst p \<le> unat st" "unat st < unat en" "unat en \<le> pen p"
    and parts: "f p # gs = prot_parts st en pr p"
  shows "tracks 2 E s (s1\<lparr>pages := upd_node (vp_start p) f (link_after (vp_start p) gs (pages s1))\<rparr>)
     (\<lambda>a. if in_range st en a then Some (pr, vp_flags p, vp_Cid p) else tracked (pages s) a)"
proof -
  have wf1: "wf_pages (pages s1)" using t by (simp add: tracks_def)
  have p1: "p \<in> set (pages s1)" using p(1) sub by auto
  have g: "good_page p" using wf_good [OF wf p(1)] .
  from wf1 p1 obtain pre post where ps: "pages s1 = pre @ p # post" and k: "\<forall>q\<in>set pre. vp_start q \<noteq> vp_start p"
    by (rule node_split)
  let ?qs = "upd_node (vp_start p) f (link_after (vp_start p) gs (pages s1))"
  have "?qs = pre @ prot_parts st en pr p @ post"
    using node_ops [OF k refl] by (simp add: ps parts [symmetric])
  moreover note pp = prot_parts_ok [OF g p(2-4), where pr = pr]
  moreover have "wf_pages (pre @ p # post)" using wf1 ps by simp
  ultimately have qs: "wf_pages ?qs"
    and tr: "tracked ?qs a = (if covers p a then tracked (prot_parts st en pr p) a else tracked (pages s1) a)" for a
    using wf_replace [of pre p post "prot_parts st en pr p"] tracked_replace [of pre p post "prot_parts st en pr p"] ps
    by simp_all
  have "tracked (pages s1) a = Some (attr p)" if "covers p a" for a
    using tracked_in [OF wf1 p1 that] .
  moreover have "in_range st en a \<Longrightarrow> covers p a" for a
    using p by (auto simp: in_range_def covers_def)
  ultimately have "tracked ?qs a = (if in_range st en a then Some (pr, vp_flags p, vp_Cid p) else tracked (pages s1) a)" for a
    using pp(3) tr [of a] by auto
  with qs t show ?thesis by (auto simp: tracks_def)
qed

lemma start_cmp:
  assumes "pst p \<le> unat st"
  shows "st = vp_start p \<longleftrightarrow> \<not> pst p < unat st" and "vp_start p < st \<longleftrightarrow> pst p < unat st"
  using assms by (simp_all only: word_eq_nat word_less_nat_alt unat_vp_start) linarith

lemma end_cmp:
  assumes "good_page p" "unat en \<le> pen p"
  shows "en = vp_end p \<longleftrightarrow> \<not> unat en < pen p" and "en < vp_end p \<longleftrightarrow> unat en < pen p"
  using assms(2) by (simp_all only: word_eq_nat word_less_nat_alt unat_vp_end [OF assms(1)]) linarith

lemma link_after_Nil [simp]: "link_after k [] ps = ps"
  by (induction ps) auto

lemma update_mprotect_locked_ok:
  assumes wf: "wf_pages (pages s)" and fresh: "fresh_refill 2 E s"
    and p: "p \<in> set (pages s)" "covers p st" "vp_Cid p = cid"
    and sz: "sz \<noteq> 0" "unat st + unat sz \<le> pen p"
    and run: "update_mprotect_locked E st sz pr cid s = Inr (r, s')"
  shows "r = 0 \<and> is_multithreaded s' = is_multithreaded s \<and>
    tracks 2 E s s' (\<lambda>a. if in_range st (st + sz) a then Some (pr, vp_flags p, cid) else tracked (pages s) a)"
proof -
  define en where "en = st + sz"
  let ?k = "vp_start p"
  have g: "good_page p" using wf_good [OF wf p(1)] .
  have st: "pst p \<le> unat st" "unat st < pen p" using p(2) by (auto simp: covers_def)
  have en: "unat st < unat en" "unat en \<le> pen p"
    using sz good_page_bounds [OF g] range_end [of st sz] by (auto simp: en_def)
  have sz_en: "sz = en - st" by (simp add: en_def)
  have look: "lookup_addr_locked (pages s) st cid = Some p" "pages s \<noteq> []"
    using wf p by (auto simp: lookup_addr_locked_iff)
  have guards: "\<not> en < st" "\<not> st < ?k" "\<not> vp_end p \<le> st"
    using st en g by (auto simp: page_nat)
  have cmp: "st = ?k \<longleftrightarrow> \<not> pst p < unat st" "en = vp_end p \<longleftrightarrow> \<not> unat en < pen p"
    "?k < st \<longleftrightarrow> pst p < unat st" "en < vp_end p \<longleftrightarrow> unat en < pen p"
    by (rule start_cmp [OF st(1)] end_cmp [OF g en(2)])+
  note eqn = run [unfolded update_mprotect_locked_def, simplified look option.case Let_def p(3) sz(1) en_def [symmetric]
      guards]
  note fin = prot_replace [OF _ _ wf p(1) st(1) en, where pr = pr]
  note parts = prot_parts_def mid_part_def lower_part_def upper_part_def
  have pcid: "p\<lparr>vp_Cid := cid\<rparr> = p" using p(3) by (cases p) simp
  have al1: "tracks 2 E s s1 (tracked (pages s)) \<and> set (pages s) \<subseteq> set (pages s1) \<and>
    is_multithreaded s1 = is_multithreaded s" if "virt_page_alloc E s = Inr s1" for s1
    using alloc_tracks [OF that wf] fresh tracks_mono [of 1 E s s1 _ 2] by (auto simp: fresh_refill_def)
  have "r = 0 \<and> is_multithreaded s' = is_multithreaded s \<and> (\<exists>s1 f gs.
     tracks 2 E s s1 (tracked (pages s)) \<and> set (pages s) \<subseteq> set (pages s1) \<and> f p # gs = prot_parts st en pr p \<and>
     s' = s1\<lparr>pages := upd_node ?k f (link_after ?k gs (pages s1))\<rparr>)"
  proof -
    consider (whole) "\<not> pst p < unat st" "\<not> unat en < pen p" | (low) "\<not> pst p < unat st" "unat en < pen p"
      | (high) "pst p < unat st" "\<not> unat en < pen p" | (inner) "pst p < unat st" "unat en < pen p" by blast
    then show ?thesis
    proof cases
      case whole
      then have "r = 0" "s' = s\<lparr>pages := upd_node ?k (\<lambda>q. q\<lparr>vp_prot := pr\<rparr>) (link_after ?k [] (pages s))\<rparr>"
        using eqn cmp by simp_all
      moreover have "p\<lparr>vp_prot := pr\<rparr> # [] = prot_parts st en pr p"
        using whole cmp by (cases p) (simp add: parts vp_end_def)
      ultimately show ?thesis using tracksI_pages [OF wf refl]
        by (intro conjI exI [of _ s] exI [of _ "\<lambda>q. q\<lparr>vp_prot := pr\<rparr>"] exI [of _ "[]"]) auto
    next
      case low
      then obtain s1 where al: "virt_page_alloc E s = Inr s1" and r: "r = 0"
        and s': "s' = s1\<lparr>pages := upd_node ?k (\<lambda>q. q\<lparr>vp_prot := pr, vp_size := sz\<rparr>)
             (link_after ?k [upper_part en p] (pages s1))\<rparr>"
        using eqn cmp by (auto simp: res_simps upper_part_def pcid)
      have "p\<lparr>vp_prot := pr, vp_size := sz\<rparr> # [upper_part en p] = prot_parts st en pr p"
        using low cmp by (cases p) (simp add: parts sz_en)
      with al1 [OF al] r s' show ?thesis by (intro conjI exI [of _ s1]) auto
    next
      case high
      then obtain s1 where al: "virt_page_alloc E s = Inr s1" and r: "r = 0"
        and s': "s' = s1\<lparr>pages := upd_node ?k (\<lambda>q. q\<lparr>vp_size := st - ?k\<rparr>)
             (link_after ?k [mid_part st en pr p] (pages s1))\<rparr>"
        using eqn cmp p(3) by (cases p) (auto simp: res_simps mid_part_def sz_en)
      have "p\<lparr>vp_size := st - ?k\<rparr> # [mid_part st en pr p] = prot_parts st en pr p"
        using high by (simp add: parts)
      with al1 [OF al] r s' show ?thesis by (intro conjI exI [of _ s1]) auto
    next
      case inner
      then obtain s0 s1 where al: "virt_page_alloc E s = Inr s0" "virt_page_alloc E s0 = Inr s1" and r: "r = 0"
        and s': "s' = s1\<lparr>pages := upd_node ?k (\<lambda>q. q\<lparr>vp_size := st - ?k\<rparr>)
             (link_after ?k [mid_part st en pr p, upper_part en p] (pages s1))\<rparr>"
        using eqn cmp p(3) by (cases p) (auto simp: res_simps mid_part_def upper_part_def sz_en)
      have "p\<lparr>vp_size := st - ?k\<rparr> # [mid_part st en pr p, upper_part en p] = prot_parts st en pr p"
        using inner by (simp add: parts)
      with alloc2_tracks [OF al wf fresh] r s' show ?thesis by (intro conjI exI [of _ s1]) auto
    qed
  qed
  then show ?thesis using fin p(3) by (auto simp: en_def)
qed

section \<open>Growing and shrinking a group\<close>

lemma wf_grow:
  assumes wf: "wf_pages (pre @ g # post)" and g': "pst g' = pst g" "pen g \<le> pen g'" "good_page g'"
    and nxt: "\<And>n ns. post = n # ns \<Longrightarrow> pen g' \<le> pst n"
  shows "wf_pages (pre @ g' # post)"
proof -
  have "page_before g' q" if "q \<in> set post" for q
  proof (cases post)
    case (Cons n ns)
    then have "pst n \<le> pst q" using that wf good_page_lt [of n]
      by (auto simp: wf_append wf_Cons page_before_def)
    with nxt [OF Cons] show ?thesis by (simp add: page_before_def)
  qed (use that in simp)
  with wf g' show ?thesis by (auto simp: wf_append wf_Cons page_before_def)
qed

lemma tracked_grow:
  assumes wf: "wf_pages (pre @ g # post)" "wf_pages (pre @ g' # post)"
    and g': "pst g' = pst g" "pen g \<le> pen g'" "attr g' = attr g"
  shows "tracked (pre @ g' # post) a = (if covers g' a then Some (attr g) else tracked (pre @ g # post) a)"
proof (cases "covers g' a")
  case True
  then show ?thesis using tracked_in [OF wf(2), of g' a] g' by simp
next
  case False
  then have "\<not> covers g a" using g' by (auto simp: covers_def)
  with False show ?thesis using wf by (auto intro!: tracked_eqI)
qed

lemma shrink_replace:
  assumes t: "tracks 1 E s s1 (tracked (pages s))" and sub: "set (pages s) \<subseteq> set (pages s1)"
    and wf: "wf_pages (pages s)"
    and p: "p \<in> set (pages s)" "pst p < unat st" "unat st < unat en" "unat en \<le> pen p"
    and parts: "f p # gs = cut_page st en p"
  shows "tracks 1 E s (s1\<lparr>pages := upd_node (vp_start p) f (link_after (vp_start p) gs (pages s1))\<rparr>)
     (\<lambda>a. if in_range st en a then None else tracked (pages s) a)"
proof -
  have wf1: "wf_pages (pages s1)" using t by (simp add: tracks_def)
  have p1: "p \<in> set (pages s1)" using p(1) sub by auto
  have g: "good_page p" using wf_good [OF wf p(1)] .
  from wf1 p1 obtain pre post where ps: "pages s1 = pre @ p # post" and k: "\<forall>q\<in>set pre. vp_start q \<noteq> vp_start p"
    by (rule node_split)
  let ?qs = "upd_node (vp_start p) f (link_after (vp_start p) gs (pages s1))"
  have eq: "?qs = cut_range st en (pages s1)"
  proof -
    have "?qs = pre @ cut_page st en p @ post"
      using node_ops [OF k refl] by (simp add: ps parts [symmetric])
    also have "\<dots> = cut_range st en (pages s1)"
      using cut_range_single [of pre p post st en] wf1 ps p cut_page_nat [OF g, of st en] by simp
    finally show ?thesis .
  qed
  have "wf_pages ?qs" unfolding eq by (rule cut_range_wf [OF wf1 p(3)])
  moreover have "tracked ?qs a = (if in_range st en a then None else tracked (pages s1) a)" for a
    unfolding eq using cut_range_tracked' [OF wf1 p(3)] by simp
  ultimately show ?thesis using t by (auto simp: tracks_def)
qed

text \<open>A group grown in place up to \<open>ne\<close>, at most to the start of its successor.\<close>

lemma grow_group:
  fixes ne :: addr
  assumes wf: "wf_pages (pages s)" and g: "g \<in> set (pages s)"
    and le: "pen g < unat ne" and d: "unat d = unat ne - pen g"
    and nxt: "\<And>n. next_of (vp_start g) (pages s) = Some n \<Longrightarrow> unat ne \<le> pst n"
  defines "g' \<equiv> g\<lparr>vp_size := vp_size g + d\<rparr>"
  defines "qs \<equiv> upd_node (vp_start g) (\<lambda>q. q\<lparr>vp_size := vp_size q + d\<rparr>) (pages s)"
  shows "wf_pages qs"
    and "tracked qs a = (if pst g \<le> unat a \<and> unat a < unat ne then Some (attr g) else tracked (pages s) a)"
    and "pen g \<le> unat a \<Longrightarrow> unat a < unat ne \<Longrightarrow> tracked (pages s) a = None"
proof -
  have gg: "good_page g" using wf_good [OF wf g] .
  from wf g obtain pre post where ps: "pages s = pre @ g # post" and k: "\<forall>q\<in>set pre. vp_start q \<noteq> vp_start g"
    by (rule node_split)
  note ops = node_ops [OF k refl]
  have qs: "qs = pre @ g' # post" using ops(2) by (simp add: qs_def ps g'_def)
  have "unat (vp_size g) + unat d < 2 ^ 64" using d le unat_lt_2p64 [of ne] by (simp add: pen_def)
  then have nat: "pst g' = pst g" "pen g' = unat ne" "attr g' = attr g"
    using d le by (simp_all add: g'_def range_defs attr_def unat_plus_nowrap)
  have good: "good_page g'" using nat le good_page_lt [OF gg] unat_lt_2p64 [of ne] by (simp add: good_page_iff)
  have wf': "wf_pages (pre @ g' # post)"
  proof (rule wf_grow [OF _ nat(1) _ good])
    show "pen g' \<le> pst n" if "post = n # ns" for n ns using nxt [of n] ops(3) ps that nat by simp
  qed (use wf ps nat le in auto)
  then show "wf_pages qs" by (simp add: qs)
  show "tracked qs a = (if pst g \<le> unat a \<and> unat a < unat ne then Some (attr g) else tracked (pages s) a)"
    using tracked_grow [of pre g post g' a] wf wf' ps nat le by (simp add: qs covers_def)
  assume a: "pen g \<le> unat a" "unat a < unat ne"
  then have ca: "covers g' a" using nat good_page_lt [OF gg] by (simp add: covers_def)
  have "\<not> covers q a" if "q \<in> set pre \<union> set post" for q
    using ca wf' that by (auto simp: wf_append wf_Cons page_before_def covers_def)
  with a ps show "tracked (pages s) a = None" by (auto simp: tracked_None_iff covers_def)
qed

text \<open>The two directions of \<open>update_size_locked\<close>, for the group \<open>g\<close> it finds.\<close>

lemma update_size_grow:
  assumes wf: "wf_pages (pages s)" and g: "g \<in> set (pages s)" "pst g \<le> unat st"
    and nat: "unat oe = unat st + unat old" "unat ne = unat st + unat new" and pe: "pen g = unat oe" and lt: "old < new"
    and nn: "\<not> (case next_of (vp_start g) (pages s) of None \<Rightarrow> False | Some n \<Rightarrow> vp_start n < ne)"
    and s': "s' = s\<lparr>pages := upd_node (vp_start g) (\<lambda>q. q\<lparr>vp_size := vp_size q + (new - old)\<rparr>) (pages s)\<rparr>"
  shows "(\<forall>a. in_range oe ne a \<longrightarrow> tracked (pages s) a = None) \<and>
    tracks 1 E s s' (\<lambda>a. if in_range st ne a then Some (attr g) else if in_range ne oe a then None else tracked (pages s) a)"
proof -
  have less: "unat oe < unat ne" using nat lt by (simp add: word_order_nat)
  have d: "unat (new - old) = unat ne - pen g"
    using nat lt pe by (simp add: unat_minus_le word_order_nat)
  have nxt: "unat ne \<le> pst n" if "next_of (vp_start g) (pages s) = Some n" for n
    using nn that by (simp add: page_nat)
  note grow = grow_group [OF wf g(1) _ d nxt]
  have "tracked (pages s') a = (if in_range st ne a then Some (attr g)
                            else if in_range ne oe a then None else tracked (pages s) a)" for a
  proof (cases "covers g a")
    case True
    then show ?thesis using grow(2) [of a] tracked_in [OF wf g(1) True] pe less g(2)
      by (auto simp: covers_def in_range_def s')
  next
    case False
    then show ?thesis using grow(2) [of a] pe less g(2) nat by (auto simp: covers_def in_range_def s')
  qed
  then show ?thesis using grow(1,3) less pe s' by (auto simp: in_range_def intro!: tracksI_pages)
qed

lemma update_size_shrink:
  assumes wf: "wf_pages (pages s)" and fresh: "fresh_refill 1 E s"
    and g: "g \<in> set (pages s)" "vp_Cid g = cid" "pst g < unat ne" "unat ne < unat oe" "unat oe \<le> pen g"
    and ends: "oe = st + old" "ne = st + new"
    and run: "(if oe = vp_end g
         then Inr (0, s\<lparr>pages := upd_node (vp_start g) (\<lambda>q. q\<lparr>vp_size := vp_size q - (old - new)\<rparr>) (pages s)\<rparr>)
         else rbind (virt_page_alloc E s)
            (\<lambda>s. Inr (0, s\<lparr>pages := upd_node (vp_start g) (\<lambda>q. q\<lparr>vp_size := ne - vp_start g\<rparr>)
                   (link_after (vp_start g) [g\<lparr>vp_Cid := cid, vp_start := oe, vp_size := vp_end g - oe\<rparr>] (pages s))\<rparr>)))
        = Inr (r, s')"
  shows "r = 0 \<and> tracks 1 E s s' (\<lambda>a. if in_range ne oe a then None else tracked (pages s) a)"
proof -
  have gg: "good_page g" using wf_good [OF wf g(1)] .
  have cut: "cut_page ne oe g = lower_part ne g # (if unat oe < pen g then [upper_part oe g] else [])"
    using gg g(3-5) by (simp add: cut_page_nat)
  note eq = end_cmp [OF gg g(5)]
  show ?thesis
  proof (cases "unat oe < pen g")
    case True
    with run eq obtain s1 where al: "virt_page_alloc E s = Inr s1" and r: "r = 0"
      and s': "s' = s1\<lparr>pages := upd_node (vp_start g) (\<lambda>q. q\<lparr>vp_size := ne - vp_start g\<rparr>)
            (link_after (vp_start g) [upper_part oe g] (pages s1))\<rparr>"
      using g(2) by (cases g) (auto simp: res_simps upper_part_def)
    have "g\<lparr>vp_size := ne - vp_start g\<rparr> # [upper_part oe g] = cut_page ne oe g"
      using cut True by (simp add: lower_part_def)
    with alloc_tracks [OF al wf fresh] shrink_replace [OF _ _ wf g(1,3-5)] r s' show ?thesis by auto
  next
    case False
    then have oe: "vp_end g = oe" using eq by simp
    then have ne: "vp_size g - (old - new) = ne - vp_start g"
      by (auto simp: ends vp_end_def algebra_simps eq_diff_eq)
    have "r = 0" "s' = s\<lparr>pages := upd_node (vp_start g) (\<lambda>q. q\<lparr>vp_size := vp_size q - (old - new)\<rparr>)
            (link_after (vp_start g) [] (pages s))\<rparr>"
      using run oe by simp_all
    moreover have "g\<lparr>vp_size := vp_size g - (old - new)\<rparr> # [] = cut_page ne oe g"
      using cut False by (simp add: lower_part_def ne)
    ultimately show ?thesis
      using shrink_replace [OF tracksI_pages [OF wf refl] order_refl wf g(1,3-5),
          of "\<lambda>q. q\<lparr>vp_size := vp_size q - (old - new)\<rparr>" "[]" E] by simp
  qed
qed

lemma update_size_locked_ok:
  assumes wf: "wf_pages (pages s)" and fresh: "fresh_refill 1 E s"
    and nowrap: "unat st + unat old < 2 ^ 64" "unat st + unat new < 2 ^ 64" and new: "new \<noteq> 0" and cid: "cid \<noteq> -1"
    and run: "update_size_locked E st old new cid s = Inr (r, s')"
  shows "((r = -1 \<or> r = -2) \<and> s' = s) \<or> (r = 0 \<and> old = new \<and> s' = s) \<or>
    (r = 0 \<and> (\<exists>g\<in>set (pages s). covers g st \<and> vp_Cid g = cid \<and> unat st + unat old \<le> pen g \<and>
       (\<forall>a. in_range (st + old) (st + new) a \<longrightarrow> tracked (pages s) a = None) \<and>
       tracks 1 E s s' (\<lambda>a. if in_range st (st + new) a then Some (attr g)
                            else if in_range (st + new) (st + old) a then None else tracked (pages s) a)))"
proof (cases "((r = -1 \<or> r = -2) \<and> s' = s) \<or> (r = 0 \<and> old = new \<and> s' = s)")
  case False
  define oe ne where "oe = st + old" and "ne = st + new"
  have nat: "unat oe = unat st + unat old" "unat ne = unat st + unat new"
    using nowrap by (simp_all add: oe_def ne_def unat_plus_nowrap)
  obtain g where look: "lookup_addr_locked (pages s) st cid = Some g"
    using False run by (auto simp: update_size_locked_def Let_def split: option.splits)
  note eqn = run [unfolded update_size_locked_def Let_def look option.case oe_def [symmetric] ne_def [symmetric]]
  have neq: "old \<noteq> new" using eqn False by (cases "old = new") auto
  have nle: "\<not> vp_end g < oe" using eqn False neq by (cases "vp_end g < oe") auto
  have g: "g \<in> set (pages s)" "covers g st" "vp_Cid g = cid"
    using look cid by (auto simp: lookup_addr_locked_iff [OF wf])
  have gg: "good_page g" using wf_good [OF wf g(1)] .
  have st: "pst g \<le> unat st" "unat st < pen g" using g(2) by (auto simp: covers_def)
  have le: "unat oe \<le> pen g" using nle gg by (simp add: page_nat)
  have cov: "tracked (pages s) a = Some (attr g)" if "in_range st oe a" for a
    using that le st g wf by (intro tracked_in) (auto simp: in_range_def covers_def)
  have "r = 0 \<and> (\<forall>a. in_range oe ne a \<longrightarrow> tracked (pages s) a = None) \<and>
     tracks 1 E s s' (\<lambda>a. if in_range st ne a then Some (attr g) else if in_range ne oe a then None else tracked (pages s) a)"
  proof (cases "old < new")
    case True
    then have "vp_end g = oe" and nn: "\<not> (case next_of (vp_start g) (pages s) of None \<Rightarrow> False | Some n \<Rightarrow> vp_start n < ne)"
      and r: "r = 0"
      and s': "s' = s\<lparr>pages := upd_node (vp_start g) (\<lambda>q. q\<lparr>vp_size := vp_size q + (new - old)\<rparr>) (pages s)\<rparr>"
      using eqn neq nle False by (auto split: if_splits)
    then have "pen g = unat oe" using gg by (simp add: vp_end_eq_iff)
    from update_size_grow [OF wf g(1) st(1) nat this True nn s'] r show ?thesis by simp
  next
    case F: False
    then have lt: "unat ne < unat oe" using nat neq by (auto simp: word_order_nat word_eq_nat)
    have sne: "pst g < unat ne" using st nat new unat_gt_0 [of new] by linarith
    have "r = 0 \<and> tracks 1 E s s' (\<lambda>a. if in_range ne oe a then None else tracked (pages s) a)"
      using eqn neq nle F
      by (intro update_size_shrink [OF wf fresh g(1,3) sne lt le oe_def ne_def]) simp
    moreover have "(if in_range ne oe a then None else tracked (pages s) a) =
       (if in_range st ne a then Some (attr g) else if in_range ne oe a then None else tracked (pages s) a)" for a
      using cov [of a] lt by (auto simp: in_range_def)
    moreover have "\<forall>a. in_range oe ne a \<longrightarrow> tracked (pages s) a = None"
      using lt by (auto simp: in_range_def)
    ultimately show ?thesis by simp
  qed
  moreover have "unat st + unat old \<le> pen g" using le nat by simp
  ultimately show ?thesis using g unfolding oe_def ne_def by blast
qed auto

end
