(* ===== verification/PageOps.thy ===== *)
theory PageOps
  imports PageUpdate
begin

text \<open>
  The interface of the page manager: the range lookups, the public operations under the lock, the
  locale \<open>page_tracker\<close> with the laws the monitor relies on and its interpretation on the operations
  of the model, and the properties of the component.
\<close>

section \<open>Lookups of a range\<close>

lemma range_start_split:
  assumes "wf_pages ps" "range_start ps a = c # rest"
  shows "covers c a \<and> (\<exists>pre. ps = pre @ c # rest)"
  using assms
proof (induction ps)
  case (Cons p ps)
  show ?case
  proof (cases "covers p a")
    case True
    with Cons.prems show ?thesis by (auto simp: wf_Cons overlap_byte_covers)
  next
    case False
    with Cons show ?thesis by (auto simp: wf_Cons overlap_byte_covers)
  qed
qed simp

lemma range_start_Nil: "wf_pages ps \<Longrightarrow> range_start ps a = [] \<longleftrightarrow> tracked ps a = None"
  by (induction ps) (auto simp: wf_Cons overlap_byte_covers tracked_None_iff)

lemma owned_Cons:
  assumes "wf_pages (c # ps)"
  shows "owned (c # ps) cid a \<longleftrightarrow> covers c a \<and> vp_Cid c = cid \<or> owned ps cid a"
  using assms by (auto simp: owned_iff wf_Cons)

lemma owned_after:
  assumes "wf_pages (pre @ ps)" "p \<in> set ps" "pst p \<le> unat a"
  shows "owned (pre @ ps) cid a \<longleftrightarrow> owned ps cid a"
proof -
  have "\<not> covers q a" if "q \<in> set pre" for q
    using assms that by (force simp: wf_append page_before_def covers_def)
  with assms(1) show ?thesis by (auto simp: owned_iff wf_append)
qed

lemma range_walk_iff:
  assumes "wf_pages (c # ps)" "covers c a" "unat a < unat en"
  shows "range_walk (c # ps) en cid \<longleftrightarrow> (\<forall>b. in_range a en b \<longrightarrow> owned (c # ps) cid b)"
  using assms
proof (induction ps arbitrary: c a)
  case Nil
  have g: "good_page c" using Nil.prems by (simp add: wf_Cons)
  have a: "in_range a en a" using Nil.prems by (simp add: in_range_def)
  have e: "in_range a en (vp_end c)" if "\<not> en \<le> vp_end c"
    using that Nil.prems g by (auto simp: in_range_def page_nat covers_def)
  have ne: "\<not> covers c (vp_end c)" using g by (simp add: covers_def unat_vp_end)
  show ?case
  proof (cases "vp_Cid c = cid \<and> en \<le> vp_end c")
    case True
    then show ?thesis using Nil.prems g
      by (auto simp: owned_iff page_nat covers_def in_range_def)
  next
    case False
    then have "\<not> range_walk [c] en cid" by simp
    moreover have "\<exists>b. in_range a en b \<and> \<not> owned [c] cid b"
      using False a e ne Nil.prems by (auto simp: owned_iff)
    ultimately show ?thesis by blast
  qed
next
  case (Cons n ps)
  have wfn: "wf_pages (n # ps)" and g: "good_page c" "good_page n" and cn: "pen c \<le> pst n"
    using Cons.prems by (auto simp: wf_Cons page_before_def)
  have a: "in_range a en a" using Cons.prems by (simp add: in_range_def)
  have no: "\<not> owned (n # ps) cid b" if "unat b < pst n" for b
  proof -
    have "pst n \<le> pst q" if "q \<in> set (n # ps)" for q
      using that wfn good_page_lt [OF g(2)] by (auto simp: wf_Cons page_before_def)
    with that wfn show ?thesis by (fastforce simp: owned_iff covers_def)
  qed
  note oc = owned_Cons [OF Cons.prems(1)]
  show ?case
  proof (cases "vp_Cid c = cid")
    case False
    have "unat a < pst n" using Cons.prems(2) cn by (simp add: covers_def)
    with False a no oc show ?thesis by auto
  next
    case cid: True
    show ?thesis
    proof (cases "en \<le> vp_end c")
      case True
      then have "covers c b" if "in_range a en b" for b
        using that Cons.prems(2) g by (auto simp: page_nat covers_def in_range_def)
      with True cid oc show ?thesis by auto
    next
      case False
      then have lt: "pen c < unat en" using g by (simp add: page_nat)
      let ?e = "vp_end c"
      have ue: "unat ?e = pen c" using g by (simp add: unat_vp_end)
      have re: "in_range a en ?e" using lt ue Cons.prems(2) by (auto simp: in_range_def covers_def)
      have nce: "\<not> covers c ?e" using ue by (simp add: covers_def)
      show ?thesis
      proof (cases "vp_start n = ?e")
        case True
        then have pn: "pst n = pen c" using ue by (simp add: pst_def)
        have cov: "covers n ?e" using pn ue good_page_lt [OF g(2)] by (simp add: covers_def)
        have "range_walk (c # n # ps) en cid \<longleftrightarrow> range_walk (n # ps) en cid"
          using cid False True by simp
        also have "\<dots> \<longleftrightarrow> (\<forall>b. in_range ?e en b \<longrightarrow> owned (n # ps) cid b)"
          using Cons.IH [OF wfn cov] lt ue by simp
        also have "\<dots> \<longleftrightarrow> (\<forall>b. in_range a en b \<longrightarrow> owned (c # n # ps) cid b)"
        proof (intro iffI allI impI)
          fix b assume L: "\<forall>b. in_range ?e en b \<longrightarrow> owned (n # ps) cid b" and b: "in_range a en b"
          show "owned (c # n # ps) cid b"
            using L b oc cid ue Cons.prems(2) by (cases "unat b < pen c") (auto simp: in_range_def covers_def)
        next
          fix b assume R: "\<forall>b. in_range a en b \<longrightarrow> owned (c # n # ps) cid b" and b: "in_range ?e en b"
          then have "in_range a en b" "\<not> covers c b" using ue Cons.prems(2) by (auto simp: in_range_def covers_def)
          with R oc show "owned (n # ps) cid b" by auto
        qed
        finally show ?thesis .
      next
        case ne: False
        then have "pen c \<noteq> pst n" using ue by (simp add: vp_start_eq_iff)
        with cn have "unat ?e < pst n" using ue by simp
        with no oc re nce have "\<not> (\<forall>b. in_range a en b \<longrightarrow> owned (c # n # ps) cid b)" by auto
        with False ne cid show ?thesis by simp
      qed
    qed
  qed
qed

lemma lookup_range_locked_iff:
  assumes wf: "wf_pages ps" "ps \<noteq> []" and nowrap: "unat st + unat sz < 2 ^ 64" "sz \<noteq> 0"
  shows "\<exists>res. lookup_range_locked ps st sz cid = Inr res \<and>
    (res \<noteq> None \<longleftrightarrow> (\<forall>b. in_range st (st + sz) b \<longrightarrow> owned ps cid b)) \<and>
    (\<forall>p. res = Some p \<longrightarrow> p \<in> set ps \<and> covers p st)"
proof (cases "range_start ps st")
  case Nil
  then have "tracked ps st = None" using wf by (simp add: range_start_Nil)
  moreover have "in_range st (st + sz) st" using range_end [OF nowrap] by (simp add: in_range_def)
  ultimately have "\<not> (\<forall>b. in_range st (st + sz) b \<longrightarrow> owned ps cid b)"
    by (auto simp: owned_def intro!: exI [of _ st])
  with Nil wf show ?thesis by (simp add: lookup_range_locked_def)
next
  case (Cons c rest)
  from range_start_split [OF wf(1) Cons] obtain pre where c: "covers c st" and ps: "ps = pre @ c # rest" by blast
  have wfc: "wf_pages (c # rest)" using wf ps by (simp add: wf_append)
  have "(\<forall>b. in_range st (st + sz) b \<longrightarrow> owned ps cid b) \<longleftrightarrow> range_walk (c # rest) (st + sz) cid"
  proof -
    have "owned ps cid b \<longleftrightarrow> owned (c # rest) cid b" if "in_range st (st + sz) b" for b
      unfolding ps using wf(1) that c ps by (intro owned_after [of _ _ c]) (auto simp: in_range_def covers_def)
    with range_walk_iff [OF wfc c range_end(2) [OF nowrap]] show ?thesis by auto
  qed
  with Cons wf ps c show ?thesis
    by (auto simp: lookup_range_locked_def Let_def)
qed

lemma lookup_range_allow_gaps_locked_iff:
  assumes "wf_pages ps" and nowrap: "unat st + unat sz < 2 ^ 64" "sz \<noteq> 0"
  shows "lookup_range_allow_gaps_locked ps st sz cid =
     (if \<forall>b. in_range st (st + sz) b \<longrightarrow> tracked ps b = None \<or> owned ps cid b then 0 else -1)"
proof -
  have en: "unat st < unat (st + sz)" using range_end [OF nowrap] by simp
  have "lookup_range_allow_gaps_locked ps st sz cid =
     (if \<forall>p\<in>set ps. pen p \<le> unat st \<or> unat (st + sz) \<le> pst p \<or> vp_Cid p = cid then 0 else -1)"
    using assms(1) by (induction ps) (auto simp: wf_Cons page_nat simp del: word_add_def)
  also have "(\<forall>p\<in>set ps. pen p \<le> unat st \<or> unat (st + sz) \<le> pst p \<or> vp_Cid p = cid) \<longleftrightarrow>
     (\<forall>b. in_range st (st + sz) b \<longrightarrow> tracked ps b = None \<or> owned ps cid b)" (is "?L \<longleftrightarrow> ?R")
  proof
    assume ?L
    show ?R
    proof (intro allI impI)
      fix b assume b: "in_range st (st + sz) b"
      show "tracked ps b = None \<or> owned ps cid b"
      proof (cases "tracked ps b")
        case (Some v)
        then obtain p where "p \<in> set ps" "covers p b" using assms(1) by (auto simp: tracked_Some_iff)
        with \<open>?L\<close> b assms(1) show ?thesis by (fastforce simp: in_range_def covers_def owned_iff)
      qed simp
    qed
  next
    assume R: ?R
    show ?L
    proof (rule ccontr)
      assume "\<not> ?L"
      then obtain p where p: "p \<in> set ps" "unat st < pen p" "pst p < unat (st + sz)" "vp_Cid p \<noteq> cid" by force
      have gp: "good_page p" using wf_good [OF assms(1) p(1)] .
      define b where "b = (if pst p \<le> unat st then st else vp_start p)"
      have b: "covers p b" "in_range st (st + sz) b"
        using p en good_page_lt [OF gp] by (auto simp: b_def covers_def in_range_def pst_def)
      with R p assms(1) have "owned ps cid b" by (auto simp: tracked_None_iff)
      then obtain q where "q \<in> set ps" "covers q b" "vp_Cid q = cid" using assms(1) by (auto simp: owned_iff)
      with covers_unique [OF assms(1) p(1) _ b(1)] p(4) show False by auto
    qed
  qed
  finally show ?thesis .
qed

section \<open>The public operations\<close>

lemma locked_Inr:
  "locked body s = Inr (r, s') \<longleftrightarrow>
     \<not> pm_lock s \<and> (\<exists>s1. body (set_sud_allow (s\<lparr>pm_lock := True\<rparr>)) = Inr (r, s1) \<and>
                        s' = restore_sud (get_sud s) (s1\<lparr>pm_lock := False\<rparr>))"
  by (auto simp: locked_def res_simps Let_def)

lemma restore_fields [simp]:
  "pages (restore_sud sel s) = pages s" "free_pages (restore_sud sel s) = free_pages s"
  "pm_lock (restore_sud sel s) = pm_lock s" "is_multithreaded (restore_sud sel s) = is_multithreaded s"
  "trace (restore_sud sel s) = trace s"
  by (simp_all add: sud_defs)

lemma allow_fields [simp]:
  "pages (set_sud_allow s) = pages s" "free_pages (set_sud_allow s) = free_pages s"
  "pm_lock (set_sud_allow s) = pm_lock s" "is_multithreaded (set_sud_allow s) = is_multithreaded s"
  "trace (set_sud_allow s) = trace s" "sud_selector (set_sud_allow s) = SUD_ALLOW"
  by (simp_all add: sud_defs)

text \<open>The lock is free and the selector is as before after every public operation.\<close>

lemma locked_restores:
  assumes "locked body s = Inr (r, s')" "sud_selector s = SUD_ALLOW \<or> sud_selector s = SUD_BLOCK"
  shows "\<not> pm_lock s' \<and> sud_selector s' = sud_selector s"
  using assms by (auto simp: locked_Inr sud_defs)

section \<open>What the public operations do\<close>

abbreviation (input) enter :: "'z vpm_scheme \<Rightarrow> 'z vpm_scheme" where
  "enter s \<equiv> set_sud_allow (s\<lparr>pm_lock := True\<rparr>)"

lemma fresh_refill_enter [simp]: "fresh_refill k E (enter s) = fresh_refill k E s"
  by (simp add: fresh_refill_def)

lemma enter_pages: "pages (enter s) = pages s"
  by simp

lemma tracks_enter: "tracks k E (enter s) s1 f \<Longrightarrow> pages s' = pages s1 \<Longrightarrow> tracks k E s s' f"
  by (simp add: tracks_def)

lemma add_page_ok:
  assumes wf: "wf_pages (pages s)" and fresh: "fresh_refill 2 E s"
    and range: "unat st + unat (page_round sz) < 2 ^ 64" "page_round sz \<noteq> 0"
    and dis: "free_pages s < 2 \<Longrightarrow> page_disjoint (new_page st sz pr fl cid) (refill_page E (trace s))"
    and run: "add_page E st sz pr fl cid mf s = Inr (r, s')"
  defines "en \<equiv> st + page_round sz"
  shows "(r = -1 \<and> tracks 2 E s s' (tracked (pages s))) \<or>
    (r = 0 \<and> (\<forall>a. in_range st en a \<longrightarrow> tracked (pages s) a = None \<or> mf \<and> owned (pages s) cid a) \<and>
     tracks 2 E s s' (\<lambda>a. if in_range st en a then Some (pr, fl, cid) else tracked (pages s) a))"
proof -
  from run obtain s1 s2 where al: "virt_page_alloc E (enter s) = Inr s1"
    and ins: "add_page_locked E st sz pr fl cid mf s1 = Inr (r, s2)" and s': "pages s' = pages s2"
    by (auto simp: add_page_def locked_Inr res_simps virt_page_free_def split: if_splits)
  have "wf_pages (pages (enter s))" "fresh_refill 2 E (enter s)" using wf fresh by simp_all
  from add_page_body_ok [OF this range _ al ins, unfolded enter_pages] dis show ?thesis
    by (auto simp: en_def intro: tracks_enter [OF _ s'])
qed

lemma remove_page_ok:
  assumes wf: "wf_pages (pages s)" and fresh: "fresh_refill 1 E s"
    and nowrap: "unat st + unat (page_round sz) < 2 ^ 64"
    and run: "remove_page E st sz cid s = Inr (r, s')"
  defines "en \<equiv> st + page_round sz"
  shows "(r = -1 \<and> pages s' = pages s \<and> free_pages s' = free_pages s \<and> trace s' = trace s) \<or>
    (r = 0 \<and> (\<forall>a. in_range st en a \<longrightarrow> owned (pages s) cid a) \<and>
     tracks 1 E s s' (\<lambda>a. if in_range st en a then None else tracked (pages s) a))"
proof -
  from run obtain s1 where rem: "remove_page_locked E st sz cid (enter s) = Inr (r, s1)"
    and p: "pages s' = pages s1" "free_pages s' = free_pages s1" "trace s' = trace s1"
    by (auto simp: remove_page_def locked_Inr)
  have "wf_pages (pages (enter s))" "fresh_refill 1 E (enter s)" using wf fresh by simp_all
  from remove_page_locked_ok [OF this nowrap rem, unfolded enter_pages] show ?thesis
    using p(2,3) tracks_enter [OF _ p(1), of 1 E s] p(1) unfolding en_def by auto
qed

lemma update_mprotect_ok:
  assumes wf: "wf_pages (pages s)" and fresh: "fresh_refill 2 E s"
    and p: "p \<in> set (pages s)" "covers p st" "vp_Cid p = cid"
    and sz: "sz \<noteq> 0" "unat st + unat sz \<le> pen p"
    and run: "update_mprotect E st sz pr cid s = Inr (r, s')"
  shows "r = 0 \<and>
    tracks 2 E s s' (\<lambda>a. if in_range st (st + sz) a then Some (pr, vp_flags p, cid) else tracked (pages s) a)"
proof -
  from run obtain s1 where u: "update_mprotect_locked E st sz pr cid (enter s) = Inr (r, s1)" and s': "pages s' = pages s1"
    by (auto simp: update_mprotect_def locked_Inr)
  have "wf_pages (pages (enter s))" "fresh_refill 2 E (enter s)" "p \<in> set (pages (enter s))" using wf fresh p by simp_all
  from update_mprotect_locked_ok [OF this p(2,3) sz u, unfolded enter_pages] show ?thesis
    by (auto intro: tracks_enter [OF _ s'])
qed

lemma update_size_ok:
  assumes wf: "wf_pages (pages s)" and fresh: "fresh_refill 1 E s"
    and nowrap: "unat st + unat old < 2 ^ 64" "unat st + unat new < 2 ^ 64" and new: "new \<noteq> 0" and cid: "cid \<noteq> -1"
    and run: "update_size E st old new cid s = Inr (r, s')"
  shows "((r = -1 \<or> r = -2 \<or> r = 0 \<and> old = new) \<and> pages s' = pages s) \<or>
    (r = 0 \<and> (\<exists>g\<in>set (pages s). covers g st \<and> vp_Cid g = cid \<and> unat st + unat old \<le> pen g \<and>
       (\<forall>a. in_range (st + old) (st + new) a \<longrightarrow> tracked (pages s) a = None) \<and>
       tracks 1 E s s' (\<lambda>a. if in_range st (st + new) a then Some (attr g)
                            else if in_range (st + new) (st + old) a then None else tracked (pages s) a)))"
proof -
  from run obtain s1 where u: "update_size_locked E st old new cid (enter s) = Inr (r, s1)" and s': "pages s' = pages s1"
    by (auto simp: update_size_def locked_Inr)
  have "wf_pages (pages (enter s))" "fresh_refill 1 E (enter s)" using wf fresh by simp_all
  from update_size_locked_ok [OF this nowrap new cid u, unfolded enter_pages] show ?thesis
    using s' tracks_enter [OF _ s', of 1 E s] by auto
qed

section \<open>The interface of the page manager\<close>

text \<open>
  What the monitor relies on: every operation acts for one compartment and changes the ownership
  of a byte only from or to that compartment; memory of the node pool is the exception, which only
  takes bytes nobody owns.
\<close>

locale page_tracker =
  fixes good :: "'s \<Rightarrow> bool"
    and owner :: "'s \<Rightarrow> addr \<Rightarrow> c_int option"
    and step :: "'op \<Rightarrow> 's \<Rightarrow> 's \<Rightarrow> bool"
    and actor :: "'op \<Rightarrow> c_int"
    and pool :: c_int
  assumes step_good: "good s \<Longrightarrow> step op s s' \<Longrightarrow> good s'"
    and step_keeps: "good s \<Longrightarrow> step op s s' \<Longrightarrow> owner s a = Some c \<Longrightarrow> c \<noteq> actor op \<Longrightarrow> owner s' a = Some c"
    and step_gives: "good s \<Longrightarrow> step op s s' \<Longrightarrow> owner s' a = Some c \<Longrightarrow> c \<noteq> actor op \<Longrightarrow> c \<noteq> pool \<Longrightarrow> owner s a = Some c"
begin

inductive steps :: "'op list \<Rightarrow> 's \<Rightarrow> 's \<Rightarrow> bool" where
  "steps [] s s"
| "step op s s1 \<Longrightarrow> steps ops s1 s2 \<Longrightarrow> steps (op # ops) s s2"

lemma steps_good: "steps ops s s' \<Longrightarrow> good s \<Longrightarrow> good s'"
  by (induction rule: steps.induct) (auto intro: step_good)

text \<open>A compartment that does not act keeps exactly its bytes.\<close>

lemma isolated:
  assumes "steps ops s s'" "good s" "c \<notin> actor ` set ops" "c \<noteq> pool"
  shows "owner s' a = Some c \<longleftrightarrow> owner s a = Some c"
  using assms
proof (induction rule: steps.induct)
  case (2 op s s1 ops s2)
  have g: "good s1" by (rule step_good [OF "2.prems"(1) "2.hyps"(1)])
  have "c \<noteq> actor op" "c \<notin> actor ` set ops" using "2.prems"(2) by auto
  with "2.IH" [OF g _ "2.prems"(3)] step_keeps [OF "2.prems"(1) "2.hyps"(1)]
    step_gives [OF "2.prems"(1) "2.hyps"(1)] "2.prems"(3)
  show ?case by blast
qed simp

end

text \<open>The operations of the page manager, and when the laws of the previous section apply to one.\<close>

datatype page_op =
    AddPage addr u64 c_int c_int c_int bool
  | RemovePage addr u64 c_int
  | UpdateMprotect addr u64 c_int c_int
  | UpdateSize addr u64 u64 c_int

primrec run_page_op :: "env \<Rightarrow> page_op \<Rightarrow> 'z vpm_scheme \<Rightarrow> (int \<times> 'z vpm_scheme) res" where
  "run_page_op E (AddPage st sz pr fl cid mf) s = add_page E st sz pr fl cid mf s"
| "run_page_op E (RemovePage st sz cid) s = remove_page E st sz cid s"
| "run_page_op E (UpdateMprotect st sz pr cid) s = update_mprotect E st sz pr cid s"
| "run_page_op E (UpdateSize st old new cid) s = update_size E st old new cid s"

primrec op_cid :: "page_op \<Rightarrow> c_int" where
  "op_cid (AddPage st sz pr fl cid mf) = cid"
| "op_cid (RemovePage st sz cid) = cid"
| "op_cid (UpdateMprotect st sz pr cid) = cid"
| "op_cid (UpdateSize st old new cid) = cid"

primrec op_range :: "page_op \<Rightarrow> virt_page list \<Rightarrow> bool" where
  "op_range (AddPage st sz pr fl cid mf) ps \<longleftrightarrow> unat st + unat (page_round sz) < 2 ^ 64 \<and> page_round sz \<noteq> 0"
| "op_range (RemovePage st sz cid) ps \<longleftrightarrow> unat st + unat (page_round sz) < 2 ^ 64"
| "op_range (UpdateMprotect st sz pr cid) ps \<longleftrightarrow> cid \<noteq> -1 \<and>
     (case lookup_addr_locked ps st cid of None \<Rightarrow> True | Some p \<Rightarrow> unat st + unat sz \<le> pen p)"
| "op_range (UpdateSize st old new cid) ps \<longleftrightarrow>
     unat st + unat old < 2 ^ 64 \<and> unat st + unat new < 2 ^ 64 \<and> new \<noteq> 0 \<and> cid \<noteq> -1"

primrec op_new :: "page_op \<Rightarrow> virt_page list" where
  "op_new (AddPage st sz pr fl cid mf) = [new_page st sz pr fl cid]"
| "op_new (RemovePage st sz cid) = []"
| "op_new (UpdateMprotect st sz pr cid) = []"
| "op_new (UpdateSize st old new cid) = []"

definition op_ok :: "env \<Rightarrow> page_op \<Rightarrow> 'z vpm_scheme \<Rightarrow> bool" where
  "op_ok E op s \<longleftrightarrow> op_range op (pages s) \<and> fresh_refill 2 E s \<and>
     (free_pages s < 2 \<longrightarrow> list_all (\<lambda>p. page_disjoint p (refill_page E (trace s))) (op_new op))"

definition page_step :: "env \<Rightarrow> page_op \<Rightarrow> 'z vpm_scheme \<Rightarrow> 'z vpm_scheme \<Rightarrow> bool" where
  "page_step E op s s' \<longleftrightarrow> op_ok E op s \<and> (\<exists>r. run_page_op E op s = Inr (r, s'))"

definition page_owner :: "'z vpm_scheme \<Rightarrow> addr \<Rightarrow> c_int option" where
  "page_owner s a = map_option (\<lambda>(pr, fl, cid). cid) (tracked (pages s) a)"

text \<open>The shape all operations share: only bytes that are free or the actor's own change, and they
  become free or the actor's own.\<close>

definition own_change :: "env \<Rightarrow> 'z vpm_scheme \<Rightarrow> 'z vpm_scheme \<Rightarrow> c_int \<Rightarrow> bool" where
  "own_change E s s' cid \<longleftrightarrow> (\<exists>f. tracks 2 E s s' f \<and> (\<forall>a. f a = tracked (pages s) a \<or>
     (tracked (pages s) a = None \<or> owned (pages s) cid a) \<and> (f a = None \<or> (\<exists>pr fl. f a = Some (pr, fl, cid)))))"

lemma own_changeI:
  assumes "tracks 2 E s s' (\<lambda>a. if P a then v a else tracked (pages s) a)"
    and "\<And>a. P a \<Longrightarrow> tracked (pages s) a = None \<or> owned (pages s) cid a"
    and "\<And>a. P a \<Longrightarrow> v a = None \<or> (\<exists>pr fl. v a = Some (pr, fl, cid))"
  shows "own_change E s s' cid"
  unfolding own_change_def using assms
  by (intro exI [where x = "\<lambda>a. if P a then v a else tracked (pages s) a"]) auto

lemma own_change_same: "wf_pages (pages s) \<Longrightarrow> pages s' = pages s \<Longrightarrow> own_change E s s' cid"
  unfolding own_change_def by (intro exI [where x = "tracked (pages s)"]) (auto intro: tracksI_pages)

lemma own_change_tracks: "tracks 2 E s s' (tracked (pages s)) \<Longrightarrow> own_change E s s' cid"
  unfolding own_change_def by blast

lemma fresh_2_1: "fresh_refill 2 E s \<Longrightarrow> fresh_refill 1 E s"
  by (auto simp: fresh_refill_def)

lemma add_page_own:
  assumes "wf_pages (pages s)" "op_ok E (AddPage st sz pr fl cid mf) s" "add_page E st sz pr fl cid mf s = Inr (r, s')"
  shows "own_change E s s' cid"
proof -
  have "(r = -1 \<and> tracks 2 E s s' (tracked (pages s))) \<or>
    (r = 0 \<and> (\<forall>a. in_range st (st + page_round sz) a \<longrightarrow> tracked (pages s) a = None \<or> mf \<and> owned (pages s) cid a) \<and>
     tracks 2 E s s' (\<lambda>a. if in_range st (st + page_round sz) a then Some (pr, fl, cid) else tracked (pages s) a))"
    using assms by (intro add_page_ok) (auto simp: op_ok_def)
  then show ?thesis by (auto intro: own_change_tracks own_changeI)
qed

lemma remove_page_own:
  assumes wf: "wf_pages (pages s)" and ok: "op_ok E (RemovePage st sz cid) s" and run: "remove_page E st sz cid s = Inr (r, s')"
  shows "own_change E s s' cid"
proof -
  have "(r = -1 \<and> pages s' = pages s \<and> free_pages s' = free_pages s \<and> trace s' = trace s) \<or>
    (r = 0 \<and> (\<forall>a. in_range st (st + page_round sz) a \<longrightarrow> owned (pages s) cid a) \<and>
     tracks 1 E s s' (\<lambda>a. if in_range st (st + page_round sz) a then None else tracked (pages s) a))"
    using ok run by (intro remove_page_ok [OF wf fresh_2_1]) (auto simp: op_ok_def)
  then show ?thesis
  proof (elim disjE conjE)
    assume "pages s' = pages s"
    with wf show ?thesis by (rule own_change_same)
  next
    assume own: "\<forall>a. in_range st (st + page_round sz) a \<longrightarrow> owned (pages s) cid a"
      and "tracks 1 E s s' (\<lambda>a. if in_range st (st + page_round sz) a then None else tracked (pages s) a)"
    from tracks_mono [OF this(2), of 2] own show ?thesis by (auto intro!: own_changeI)
  qed
qed

lemma update_mprotect_own:
  assumes wf: "wf_pages (pages s)" and ok: "op_ok E (UpdateMprotect st sz pr cid) s"
    and run: "update_mprotect E st sz pr cid s = Inr (r, s')"
  shows "own_change E s s' cid"
proof (cases "sz \<noteq> 0 \<and> lookup_addr_locked (pages s) st cid \<noteq> None")
  case True
  then obtain p where look: "lookup_addr_locked (pages s) st cid = Some p" and sz: "sz \<noteq> 0" by auto
  have le: "unat st + unat sz \<le> pen p" and "cid \<noteq> -1" using ok look by (auto simp: op_ok_def)
  then have p: "p \<in> set (pages s)" "covers p st" "vp_Cid p = cid"
    using look by (auto simp: lookup_addr_locked_iff [OF wf])
  have fresh: "fresh_refill 2 E s" using ok by (simp add: op_ok_def)
  have "owned (pages s) cid a" if "in_range st (st + sz) a" for a
  proof -
    have "covers p a" using that p(2) le range_end(1) [of st sz] sz good_page_bounds [OF wf_good [OF wf p(1)]]
      by (auto simp: in_range_def covers_def)
    then show ?thesis using wf p by (auto intro: ownedI)
  qed
  moreover have "tracks 2 E s s' (\<lambda>a. if in_range st (st + sz) a then Some (pr, vp_flags p, cid) else tracked (pages s) a)"
    using update_mprotect_ok [OF wf fresh p sz le run] by simp
  ultimately show ?thesis by (auto intro!: own_changeI)
next
  case False
  then have "pages s' = pages s"
    using run by (auto simp: update_mprotect_def locked_Inr update_mprotect_locked_def Let_def split: option.splits if_splits)
  with wf show ?thesis by (rule own_change_same)
qed

lemma update_size_own:
  assumes wf: "wf_pages (pages s)" and ok: "op_ok E (UpdateSize st old new cid) s"
    and run: "update_size E st old new cid s = Inr (r, s')"
  shows "own_change E s s' cid"
proof -
  have "((r = -1 \<or> r = -2 \<or> r = 0 \<and> old = new) \<and> pages s' = pages s) \<or>
    (r = 0 \<and> (\<exists>g\<in>set (pages s). covers g st \<and> vp_Cid g = cid \<and> unat st + unat old \<le> pen g \<and>
     (\<forall>a. in_range (st + old) (st + new) a \<longrightarrow> tracked (pages s) a = None) \<and>
     tracks 1 E s s' (\<lambda>a. if in_range st (st + new) a then Some (attr g)
                          else if in_range (st + new) (st + old) a then None else tracked (pages s) a)))"
    using ok run by (intro update_size_ok [OF wf fresh_2_1]) (auto simp: op_ok_def)
  then show ?thesis
  proof (elim disjE conjE bexE)
    fix g assume g: "g \<in> set (pages s)" "covers g st" "vp_Cid g = cid" "unat st + unat old \<le> pen g"
      and free: "\<forall>a. in_range (st + old) (st + new) a \<longrightarrow> tracked (pages s) a = None"
      and t: "tracks 1 E s s' (\<lambda>a. if in_range st (st + new) a then Some (attr g)
                          else if in_range (st + new) (st + old) a then None else tracked (pages s) a)"
    let ?P = "\<lambda>a. in_range st (st + new) a \<or> in_range (st + new) (st + old) a"
    have ends: "unat (st + old) = unat st + unat old" "unat (st + new) = unat st + unat new"
      using ok by (simp_all add: op_ok_def unat_plus_nowrap)
    have own: "owned (pages s) cid a" if "in_range st (st + old) a" for a
      using that g ends by (intro ownedI [OF wf g(1)]) (auto simp: in_range_def covers_def)
    have "tracked (pages s) a = None \<or> owned (pages s) cid a" if "?P a" for a
      using that own [of a] free ends by (cases "unat a < unat (st + old)") (auto simp: in_range_def)
    moreover have "tracks 2 E s s' (\<lambda>a. if ?P a then (if in_range st (st + new) a then Some (attr g) else None)
        else tracked (pages s) a)"
    proof -
      have "(\<lambda>a. if ?P a then (if in_range st (st + new) a then Some (attr g) else None) else tracked (pages s) a) =
        (\<lambda>a. if in_range st (st + new) a then Some (attr g)
              else if in_range (st + new) (st + old) a then None else tracked (pages s) a)"
        by (rule ext) auto
      with tracks_mono [OF t, of 2] show ?thesis by simp
    qed
    moreover have "attr g = (vp_prot g, vp_flags g, cid)" using g by (simp add: attr_def)
    ultimately show ?thesis by (auto intro!: own_changeI)
  qed (use own_change_same [OF wf] in auto)
qed

lemma page_step_own:
  assumes "wf_pages (pages s)" "page_step E op s s'"
  shows "own_change E s s' (op_cid op)"
  using assms add_page_own remove_page_own update_mprotect_own update_size_own
  by (cases op) (auto simp: page_step_def)

lemma refill_page_cid [simp]: "attr (refill_page E t) = (PROT_READ OR PROT_WRITE, TS_MONITOR, MAP_PRIVATE OR MAP_SHARED)"
  by (simp add: refill_page_def)

interpretation pt: page_tracker "\<lambda>s. wf_pages (pages s)" page_owner "page_step E" op_cid "MAP_PRIVATE OR MAP_SHARED"
proof unfold_locales
  fix s s' :: "'z vpm_scheme" and op a c
  assume wf: "wf_pages (pages s)" and st: "page_step E op s s'"
  from page_step_own [OF wf st] obtain f where t: "tracks 2 E s s' f"
    and f: "\<And>a. f a = tracked (pages s) a \<or> (tracked (pages s) a = None \<or> owned (pages s) (op_cid op) a) \<and>
       (f a = None \<or> (\<exists>pr fl. f a = Some (pr, fl, op_cid op)))" unfolding own_change_def by blast
  show "wf_pages (pages s')" using t by (simp add: tracks_def)
  have fresh: "free_pages s < 2 \<Longrightarrow> covers (refill_page E (trace s)) a \<Longrightarrow> tracked (pages s) a = None"
    using st by (auto simp: page_step_def op_ok_def fresh_refill_def tracked_None_iff dest: disjoint_covers)
  have tr: "tracked (pages s') a = f a \<or> free_pages s < 2 \<and> covers (refill_page E (trace s)) a \<and>
      tracked (pages s') a = Some (attr (refill_page E (trace s)))"
    using t by (simp add: tracks_def)
  show "page_owner s' a = Some c" if "page_owner s a = Some c" "c \<noteq> op_cid op"
    using that tr f [of a] fresh by (auto simp: page_owner_def owned_def)
  show "page_owner s a = Some c" if "page_owner s' a = Some c" "c \<noteq> op_cid op" "c \<noteq> MAP_PRIVATE OR MAP_SHARED"
    using that tr f [of a] fresh by (auto simp: page_owner_def owned_def)
qed

section \<open>Sequences of operations\<close>

primrec page_ops :: "env \<Rightarrow> page_op list \<Rightarrow> 'z vpm_scheme \<Rightarrow> 'z vpm_scheme res" where
  "page_ops E [] s = Inr s"
| "page_ops E (op # ops) s = rbind (run_page_op E op s) (\<lambda>(r, s). page_ops E ops s)"

primrec ops_ok :: "env \<Rightarrow> page_op list \<Rightarrow> 'z vpm_scheme \<Rightarrow> bool" where
  "ops_ok E [] s = True"
| "ops_ok E (op # ops) s \<longleftrightarrow> op_ok E op s \<and>
     (case run_page_op E op s of Inl _ \<Rightarrow> True | Inr (r, s') \<Rightarrow> ops_ok E ops s')"

lemma page_ops_steps: "page_ops E ops s = Inr s' \<Longrightarrow> ops_ok E ops s \<Longrightarrow> pt.steps E ops s s'"
  by (induction ops arbitrary: s) (auto simp: res_simps page_step_def intro: pt.steps.intros)

section \<open>Example states\<close>

definition demo_env :: env where
  "demo_env = \<lparr>kernel = (\<lambda>t. 0), memory = (\<lambda>t a. 0), page_perm = (\<lambda>t a. 3), page_key = (\<lambda>t a. 2)\<rparr>"

definition demo_page :: "addr \<Rightarrow> u64 \<Rightarrow> c_int \<Rightarrow> c_int \<Rightarrow> virt_page" where
  "demo_page st sz pr cid = \<lparr>vp_start = st, vp_size = sz, vp_prot = pr, vp_flags = 34, vp_Cid = cid\<rparr>"

definition demo_vpm :: vpm where
  "demo_vpm = \<lparr>trace = [], sud_selector = SUD_BLOCK,
     pages = [demo_page 4096 4096 3 0, demo_page 16384 16384 3 1, demo_page 32768 8192 1 1, demo_page 65536 4096 3 0],
     free_pages = 10, pm_lock = False, is_multithreaded = False\<rparr>"

lemmas demo_defs = demo_vpm_def demo_page_def demo_env_def

lemma page_round_eval: "page_round sz = (sz + 4095) - (sz + 4095) mod 4096"
  by (simp add: page_round_page_of page_of_minus)

lemmas page_run_defs = op_ok_def fresh_refill_def pen_def page_round_eval page_aligned_def
  add_page_def remove_page_def update_mprotect_def update_size_def locked_def sud_defs
  virt_page_alloc_def add_page_locked_def add_page_insert_def new_page_def virt_page_overlap_def
  virt_page_overlap_byte_def vp_end_def virt_page_free_def
  remove_page_locked_def remove_page_map_fixed_locked_def remove_single_def remove_multi_def unlink_at_def
  unlink_until.simps update_mprotect_locked_def mprotect_reinsert_def update_size_locked_def
  lookup_range_def lookup_range_locked_def Let_def

lemma demo_wf: "wf_pages (pages demo_vpm)"
  by (simp add: demo_vpm_def demo_page_def wf_Cons good_page_def page_before_def range_defs)

lemma demo_fresh: "fresh_refill 2 E demo_vpm" "fresh_refill 1 E demo_vpm"
  by (simp_all add: fresh_refill_def demo_vpm_def)

section \<open>Properties\<close>


definition demo_ops :: "page_op list" where
  "demo_ops = [AddPage 40960 8192 5 34 1 False, UpdateMprotect 20480 4096 1 1, RemovePage 24576 8192 1,
               UpdateSize 40960 8192 4096 1]"

lemma demo_ops_run: "ops_ok demo_env demo_ops demo_vpm" "\<exists>s'. page_ops demo_env demo_ops demo_vpm = Inr s'"
  by (simp_all add: demo_ops_def demo_defs page_run_defs)


end
