(* ===== verification/PageProps.thy ===== *)
theory PageProps
  imports PageOps
begin

text \<open>
  The properties of the single operations of the page manager, each with a run of the
  operation on an example list, and the inputs on which the code leaves its intended behaviour.
\<close>

lemma tracks_wf: "tracks k E s s' f \<Longrightarrow> wf_pages (pages s')"
  by (simp add: tracks_def)

section \<open>When the operations succeed\<close>

lemma free_disjoint:
  assumes "wf_pages ps" "good_page p1" "\<And>a. covers p1 a \<Longrightarrow> tracked ps a = None" "p \<in> set ps"
  shows "page_disjoint p p1"
proof (rule ccontr)
  assume "\<not> page_disjoint p p1"
  then have o: "pst p1 < pen p" "pst p < pen p1" by (auto simp: page_disjoint_def page_before_def)
  define a where "a = (if pst p \<le> pst p1 then vp_start p1 else vp_start p)"
  have "covers p a" "covers p1 a"
    using o good_page_lt [OF assms(2)] good_page_lt [OF wf_good [OF assms(1,4)]]
    by (auto simp: a_def covers_def pst_def)
  with assms(3,4) show False by (auto simp: tracked_None_iff)
qed

lemma fixed_walk_total:
  assumes "wf_pages ps" "unat st < unat en"
    and "\<And>p. p \<in> set ps \<Longrightarrow> \<not> (pen p \<le> unat st \<or> unat en \<le> pst p) \<Longrightarrow> vp_Cid p = cid"
  shows "\<exists>r. fixed_walk st en cid ps = Inr r"
  using assms
proof (induction ps)
  case (Cons c ps)
  have gc: "good_page c" using Cons.prems by (simp add: wf_Cons)
  obtain qs fr sp where rec: "fixed_walk st en cid ps = Inr (qs, fr, sp)"
    using Cons by (auto simp: wf_Cons)
  have "vp_Cid c = cid \<or> vp_end c \<le> st \<or> en \<le> vp_start c"
    using Cons.prems(3) [of c] gc by (auto simp: page_nat)
  with rec show ?case by (auto simp: not_le not_less)
qed simp

lemma remove_fixed_total:
  assumes wf: "wf_pages (pages s)" and pool: "0 < free_pages s" and range: "unat st + unat (page_round sz) < 2 ^ 64"
    "page_round sz \<noteq> 0" "page_aligned st"
    and own: "\<And>a. in_range st (st + page_round sz) a \<Longrightarrow> tracked (pages s) a = None \<or> owned (pages s) cid a"
  shows "\<exists>s'. remove_page_map_fixed_locked E st sz cid s = Inr (0, s')"
proof -
  let ?en = "st + page_round sz"
  have lt: "unat st < unat ?en" using range_end [OF range(1,2)] by simp
  have "vp_Cid p = cid" if p: "p \<in> set (pages s)" "\<not> (pen p \<le> unat st \<or> unat ?en \<le> pst p)" for p
  proof -
    have gp: "good_page p" using wf_good [OF wf p(1)] .
    define a where "a = (if pst p \<le> unat st then st else vp_start p)"
    have "covers p a" "in_range st ?en a"
      using p(2) lt good_page_lt [OF gp] by (auto simp: a_def covers_def in_range_def pst_def)
    with own [of a] tracked_in [OF wf p(1)] show ?thesis by (auto simp: owned_def attr_def)
  qed
  from fixed_walk_total [OF wf lt this] obtain qs fr sp where "fixed_walk st ?en cid (pages s) = Inr (qs, fr, sp)"
    by (metis surj_pair)
  with pool range show ?thesis
    by (auto simp: remove_page_map_fixed_locked_def virt_page_alloc_def Let_def split: option.splits)
qed

lemma add_page_total:
  assumes wf: "wf_pages (pages s)" and pool: "2 \<le> free_pages s" and lock: "\<not> pm_lock s"
    and range: "unat st + unat (page_round sz) < 2 ^ 64" "page_round sz \<noteq> 0" "page_aligned st"
    and free: "\<And>a. in_range st (st + page_round sz) a \<Longrightarrow>
      tracked (pages s) a = None \<or> (mf \<and> \<not> is_multithreaded s \<and> owned (pages s) cid a)"
    and mf: "mf \<Longrightarrow> \<not> is_multithreaded s"
  shows "\<exists>s'. add_page E st sz pr fl cid mf s = Inr (0, s') \<and>
    wf_pages (pages s') \<and>
    tracked (pages s') = (\<lambda>a. if in_range st (st + page_round sz) a then Some (pr, fl, cid) else tracked (pages s) a)"
proof -
  let ?p = "new_page st sz pr fl cid" and ?en = "st + page_round sz"
  define s1 where "s1 = (enter s)\<lparr>free_pages := free_pages s - 1\<rparr>"
  have s1: "pages s1 = pages s" "free_pages s1 = free_pages s - 1" "is_multithreaded s1 = is_multithreaded s"
    by (simp_all add: s1_def sud_defs)
  have al: "virt_page_alloc E (enter s) = Inr s1"
    using pool by (simp add: virt_page_alloc_def s1_def sud_defs)
  have idem: "page_round (page_round sz) = page_round sz" by (rule page_round_idem [OF range(1,3)])
  have fresh: "fresh_refill 1 E s1" "fresh_refill 2 E s" using pool by (auto simp: fresh_refill_def s1)
  have "\<exists>s2. (if mf then remove_page_map_fixed_locked E st (page_round sz) cid s1 else Inr (0, s1)) = Inr (0, s2)"
    using remove_fixed_total [of s1 st "page_round sz" cid E] wf pool range free s1 by (auto simp: idem)
  then obtain s2 where c: "(if mf then remove_page_map_fixed_locked E st (page_round sz) cid s1 else Inr (0, s1)) = Inr (0, s2)"
    by blast
  then have "(if mf then (if is_multithreaded s1 then remove_page_locked E st (page_round sz) cid s1
      else remove_page_map_fixed_locked E st (page_round sz) cid s1) else Inr (0, s1)) = Inr (0, s2)"
    using mf s1 by auto
  from add_page_clear_ok [OF _ fresh(1) range(1,3) this, unfolded s1(1)] wf
  have t: "tracks 1 E s1 s2 (\<lambda>a. if mf \<and> in_range st ?en a then None else tracked (pages s) a)" by auto
  then have t2: "tracked (pages s2) = (\<lambda>a. if mf \<and> in_range st ?en a then None else tracked (pages s) a)"
    and wf2: "wf_pages (pages s2)"
    using tracks_exact [OF t] pool s1 by (auto simp: tracks_def)
  have gp: "good_page ?p" using range by (simp add: good_new_page)
  have "page_disjoint p ?p" if "p \<in> set (pages s2)" for p
    using free t2 that by (intro free_disjoint [OF wf2 gp]) (auto simp: covers_new_page [OF range(1)])
  from add_page_insert_total [OF wf2 gp] this obtain qs where "add_page_insert ?p mf (pages s2) = Inr (0, qs)" by blast
  with c mf s1 range(3) have "add_page_locked E st sz pr fl cid mf s1 = Inr (0, s2\<lparr>pages := qs\<rparr>)"
    by (auto simp: add_page_locked_def Let_def split: if_splits)
  with al lock obtain s' where run: "add_page E st sz pr fl cid mf s = Inr (0, s')"
    by (auto simp: add_page_def locked_def Let_def)
  from add_page_ok [OF wf fresh(2) range(1,2) _ this] pool
  have "tracks 2 E s s' (\<lambda>a. if in_range st ?en a then Some (pr, fl, cid) else tracked (pages s) a)" by auto
  with tracks_exact [OF this pool] run show ?thesis by (auto simp: tracks_def)
qed

lemma update_mprotect_total:
  assumes wf: "wf_pages (pages s)" and pool: "2 \<le> free_pages s" and lock: "\<not> pm_lock s"
    and p: "p \<in> set (pages s)" "covers p st" "vp_Cid p = cid" and sz: "sz \<noteq> 0" "unat st + unat sz \<le> pen p"
  shows "\<exists>s'. update_mprotect E st sz pr cid s = Inr (0, s') \<and> wf_pages (pages s') \<and>
    tracked (pages s') = (\<lambda>a. if in_range st (st + sz) a then Some (pr, vp_flags p, cid) else tracked (pages s) a)"
proof -
  have g: "good_page p" using wf_good [OF wf p(1)] .
  have en: "unat st < unat (st + sz)" "unat (st + sz) \<le> pen p"
    using sz good_page_bounds [OF g] range_end [of st sz] by auto
  have look: "lookup_addr_locked (pages s) st cid = Some p" using wf p by (simp add: lookup_addr_locked_iff)
  have guards: "\<not> st + sz < st" "\<not> st < vp_start p" "\<not> vp_end p \<le> st"
    using p(2) en g by (auto simp: page_nat covers_def)
  have cmp: "st = vp_start p \<or> vp_start p < st" "st + sz = vp_end p \<or> st + sz < vp_end p"
    using start_cmp [of p st] end_cmp [OF g en(2)] p(2) by (auto simp: covers_def)
  have al: "virt_page_alloc E s0 = Inr (s0\<lparr>free_pages := free_pages s0 - 1\<rparr>)" if "0 < free_pages s0" for s0 :: "'a vpm_scheme"
    using that by (simp add: virt_page_alloc_def)
  have ne: "pages s \<noteq> []" using p(1) by auto
  have "\<exists>s1. update_mprotect_locked E st sz pr cid (enter s) = Inr (0, s1)"
    using cmp look guards sz(1) p(3) pool ne unfolding update_mprotect_locked_def Let_def
    by (auto simp: al sud_defs)
  with lock obtain s' where run: "update_mprotect E st sz pr cid s = Inr (0, s')"
    by (auto simp: update_mprotect_def locked_def Let_def)
  have "fresh_refill 2 E s" using pool by (simp add: fresh_refill_def)
  from update_mprotect_ok [OF wf this p sz run] have
    t: "tracks 2 E s s' (\<lambda>a. if in_range st (st + sz) a then Some (pr, vp_flags p, cid) else tracked (pages s) a)" by simp
  with tracks_exact [OF t pool] run show ?thesis by (auto simp: tracks_def)
qed


text \<open>
  C22. \<open>add_page\<close>. On a well-formed list, with two nodes in the pool and the lock free, adding a group
  succeeds whenever its bytes are untracked or, with \<open>map_fixed\<close> in a single-threaded process, owned by
  the same compartment. Afterwards exactly the bytes of the rounded range are tracked with
  the given protection, flags and compartment and every other byte is as before.
\<close>

theorem add_page_tracks:
  assumes "wf_pages (pages s)" "2 \<le> free_pages s" "\<not> pm_lock s"
    and "unat st + unat (page_round sz) < 2 ^ 64" "page_round sz \<noteq> 0" "page_aligned st"
    and "\<And>a. in_range st (st + page_round sz) a \<Longrightarrow>
      tracked (pages s) a = None \<or> (mf \<and> \<not> is_multithreaded s \<and> owned (pages s) cid a)"
    and "mf \<Longrightarrow> \<not> is_multithreaded s"
  shows "\<exists>s'. add_page E st sz pr fl cid mf s = Inr (0, s') \<and> wf_pages (pages s') \<and>
    tracked (pages s') = (\<lambda>a. if in_range st (st + page_round sz) a then Some (pr, fl, cid) else tracked (pages s) a)"
  by (rule add_page_total [OF assms])

theorem add_page_tracks_witness:
  "\<exists>s'. add_page demo_env 20480 8000 5 34 1 True demo_vpm = Inr (0, s') \<and> tracked (pages s') 24576 = Some (5, 34, 1)"
proof -
  have sz: "page_round 8000 = 8192" by (simp add: page_round_eval)
  have own: "owned (pages demo_vpm) 1 a" if "in_range 20480 (20480 + page_round 8000) a" for a
    using that demo_wf by (auto simp: sz owned_iff in_range_def demo_defs covers_def range_defs)
  have "\<exists>s'. add_page demo_env 20480 8000 5 34 1 True demo_vpm = Inr (0, s') \<and> wf_pages (pages s') \<and>
    tracked (pages s') = (\<lambda>a. if in_range 20480 (20480 + page_round 8000) a then Some (5, 34, 1)
      else tracked (pages demo_vpm) a)"
    using own by (intro add_page_tracks [OF demo_wf]) (auto simp: sz demo_vpm_def page_aligned_def)
  then show ?thesis by (auto simp: sz in_range_def)
qed

text \<open>
  C23. \<open>remove_page\<close>. A removal that returns 0 had every byte of the rounded range owned by the caller
  and makes exactly those bytes untracked; a removal that returns anything else returned -1 and
  left the list as it was.
\<close>

theorem remove_page_tracks:
  assumes "wf_pages (pages s)" "1 \<le> free_pages s" "unat st + unat (page_round sz) < 2 ^ 64"
    and "remove_page E st sz cid s = Inr (r, s')"
  shows "(r = -1 \<and> pages s' = pages s) \<or>
    (r = 0 \<and> wf_pages (pages s') \<and> (\<forall>a. in_range st (st + page_round sz) a \<longrightarrow> owned (pages s) cid a) \<and>
     tracked (pages s') = (\<lambda>a. if in_range st (st + page_round sz) a then None else tracked (pages s) a))"
proof -
  have "fresh_refill 1 E s" using assms(2) by (simp add: fresh_refill_def)
  from remove_page_ok [OF assms(1) this assms(3,4)] show ?thesis
  proof (elim disjE conjE)
    assume "r = 0" "\<forall>a. in_range st (st + page_round sz) a \<longrightarrow> owned (pages s) cid a"
      and t: "tracks 1 E s s' (\<lambda>a. if in_range st (st + page_round sz) a then None else tracked (pages s) a)"
    with tracks_exact [OF t assms(2)] tracks_wf [OF t] show ?thesis by simp
  qed simp
qed

lemma demo_remove: "\<exists>s'. remove_page demo_env 24576 12288 1 demo_vpm = Inr (0, s')"
  by (simp add: demo_defs page_run_defs)

lemma demo_pool: "1 \<le> free_pages demo_vpm" "2 \<le> free_pages demo_vpm" "\<not> pm_lock demo_vpm"
  by (simp_all add: demo_vpm_def)

theorem remove_page_tracks_witness:
  "\<exists>s'. remove_page demo_env 24576 12288 1 demo_vpm = Inr (0, s') \<and> tracked (pages s') 28672 = None \<and>
     tracked (pages s') 65536 = Some (3, 34, 0)"
proof -
  obtain s' where r: "remove_page demo_env 24576 12288 1 demo_vpm = Inr (0, s')" using demo_remove by blast
  have sz: "page_round 12288 = 12288" by (simp add: page_round_eval)
  have "tracked (pages demo_vpm) 65536 = Some (3, 34, 0)"
    by (simp add: demo_defs tracked_def covers_def range_defs attr_def)
  moreover have "tracked (pages s') = (\<lambda>a. if in_range 24576 (24576 + page_round 12288) a then None
      else tracked (pages demo_vpm) a)"
    using remove_page_tracks [OF demo_wf demo_pool(1) _ r] by (simp add: sz)
  ultimately show ?thesis using r by (simp add: sz in_range_def)
qed

text \<open>
  \<open>update_mprotect\<close> within one group. For a non-empty range inside a group of the caller the
  update succeeds, whether the range is the whole group, its start, its end or its middle, and
  changes the recorded protection of exactly the bytes of the range.
\<close>

theorem update_mprotect_tracks:
  assumes "wf_pages (pages s)" "2 \<le> free_pages s" "\<not> pm_lock s"
    and "p \<in> set (pages s)" "covers p st" "vp_Cid p = cid" "sz \<noteq> 0" "unat st + unat sz \<le> pen p"
  shows "\<exists>s'. update_mprotect E st sz pr cid s = Inr (0, s') \<and> wf_pages (pages s') \<and>
    tracked (pages s') = (\<lambda>a. if in_range st (st + sz) a then Some (pr, vp_flags p, cid) else tracked (pages s) a)"
  by (rule update_mprotect_total [OF assms])

theorem update_mprotect_tracks_witness:
  "\<exists>s'. update_mprotect demo_env 20480 4096 1 1 demo_vpm = Inr (0, s') \<and> tracked (pages s') 20480 = Some (1, 34, 1)"
proof -
  have "\<exists>s'. update_mprotect demo_env 20480 4096 1 1 demo_vpm = Inr (0, s') \<and> wf_pages (pages s') \<and>
    tracked (pages s') = (\<lambda>a. if in_range 20480 (20480 + 4096) a then Some (1, vp_flags (demo_page 16384 16384 3 1), 1)
       else tracked (pages demo_vpm) a)"
    by (intro update_mprotect_tracks [OF demo_wf]) (auto simp: demo_defs covers_def range_defs)
  then show ?thesis by (auto simp: in_range_def demo_page_def)
qed

text \<open>
  \<open>update_size\<close>. Growing or shrinking a range of the caller that returns 0 (with a real change of
  size) leaves exactly the new range tracked like the group it belonged to; a grown range takes
  only bytes that were untracked. A refusal (-1 or -2) leaves the list as it was.
\<close>

theorem update_size_tracks:
  assumes "wf_pages (pages s)" "1 \<le> free_pages s" "unat st + unat old < 2 ^ 64" "unat st + unat new < 2 ^ 64"
    and "new \<noteq> 0" "cid \<noteq> -1" "update_size E st old new cid s = Inr (r, s')"
  shows "((r = -1 \<or> r = -2 \<or> r = 0 \<and> old = new) \<and> pages s' = pages s) \<or>
    (r = 0 \<and> wf_pages (pages s') \<and> (\<exists>g\<in>set (pages s). covers g st \<and> vp_Cid g = cid \<and> unat st + unat old \<le> pen g \<and>
       (\<forall>a. in_range (st + old) (st + new) a \<longrightarrow> tracked (pages s) a = None) \<and>
       tracked (pages s') = (\<lambda>a. if in_range st (st + new) a then Some (attr g)
          else if in_range (st + new) (st + old) a then None else tracked (pages s) a)))"
proof -
  have "fresh_refill 1 E s" using assms(2) by (simp add: fresh_refill_def)
  from update_size_ok [OF assms(1) this assms(3-7)] show ?thesis
  proof (elim disjE conjE bexE)
    fix g assume g: "g \<in> set (pages s)" "covers g st" "vp_Cid g = cid" "unat st + unat old \<le> pen g"
      "\<forall>a. in_range (st + old) (st + new) a \<longrightarrow> tracked (pages s) a = None" "r = 0"
      and t: "tracks 1 E s s' (\<lambda>a. if in_range st (st + new) a then Some (attr g)
                            else if in_range (st + new) (st + old) a then None else tracked (pages s) a)"
    moreover have "wf_pages (pages s')" using t by (simp add: tracks_def)
    ultimately show ?thesis using tracks_exact [OF t assms(2)] by blast
  qed auto
qed

theorem update_size_tracks_witness:
  "\<exists>s'. update_size demo_env 32768 8192 12288 1 demo_vpm = Inr (0, s') \<and> tracked (pages s') 40960 = Some (1, 34, 1)"
proof -
  obtain s' where r: "update_size demo_env 32768 8192 12288 1 demo_vpm = Inr (0, s')"
    by (auto simp: demo_defs page_run_defs)
  have "\<exists>g\<in>set (pages demo_vpm). covers g 32768 \<and> vp_Cid g = 1 \<and> unat (32768::u64) + unat (8192::u64) \<le> pen g \<and>
       (\<forall>a. in_range (32768 + 8192) (32768 + 12288) a \<longrightarrow> tracked (pages demo_vpm) a = None) \<and>
       tracked (pages s') = (\<lambda>a. if in_range 32768 (32768 + 12288) a then Some (attr g)
          else if in_range (32768 + 12288) (32768 + 8192) a then None else tracked (pages demo_vpm) a)"
    using update_size_tracks [OF demo_wf demo_pool(1) _ _ _ _ r] by simp
  then obtain g where "g \<in> set (pages demo_vpm)" "covers g 32768" "tracked (pages s') 40960 = Some (attr g)"
    by (auto simp: in_range_def)
  then show ?thesis using r by (auto simp: demo_defs covers_def range_defs attr_def)
qed

text \<open>
  \<open>lookup_range\<close>. For a non-empty range that does not wrap, the lookup finds a group if and only
  if every byte of the range is owned by the given compartment, the group it returns holds the
  first byte, and the state is unchanged.
\<close>

theorem lookup_range_owned:
  assumes "wf_pages (pages s)" "pages s \<noteq> []" "\<not> pm_lock s" "sud_selector s = SUD_ALLOW \<or> sud_selector s = SUD_BLOCK"
    and "unat st + unat sz < 2 ^ 64" "sz \<noteq> 0"
  shows "\<exists>res. lookup_range st sz cid s = Inr (res, s) \<and>
    (res \<noteq> None \<longleftrightarrow> (\<forall>b. in_range st (st + sz) b \<longrightarrow> owned (pages s) cid b)) \<and>
    (\<forall>p. res = Some p \<longrightarrow> p \<in> set (pages s) \<and> covers p st)"
proof -
  have "restore_sud (get_sud s) ((enter s)\<lparr>pm_lock := False\<rparr>) = s"
    using assms(3,4) by (cases s) (auto simp: sud_defs)
  with lookup_range_locked_iff [OF assms(1,2,5,6), of cid] assms(3) show ?thesis
    by (auto simp: lookup_range_def locked_def Let_def enter_pages)
qed

theorem lookup_range_owned_witness:
  "\<exists>p. lookup_range 24576 16384 1 demo_vpm = Inr (Some p, demo_vpm)"
proof -
  obtain res where r: "lookup_range 24576 16384 1 demo_vpm = Inr (res, demo_vpm)"
    and iff: "res \<noteq> None \<longleftrightarrow> (\<forall>b. in_range 24576 (24576 + 16384) b \<longrightarrow> owned (pages demo_vpm) 1 b)"
    using lookup_range_owned [OF demo_wf _ demo_pool(3), of 24576 16384 1] by (auto simp: demo_vpm_def)
  have "owned (pages demo_vpm) 1 b" if "in_range 24576 (24576 + 16384) b" for b
    using that demo_wf by (auto simp: owned_iff in_range_def demo_defs covers_def range_defs)
  with r iff show ?thesis by auto
qed

text \<open>
  \<open>lookup_range_allow_gaps\<close>, the check before a fixed mapping of a single-threaded process:
  it returns 0 if no byte of the range belongs to another compartment and -1 otherwise.
\<close>

theorem lookup_range_allow_gaps_owned:
  assumes "wf_pages (pages s)" "\<not> pm_lock s" "sud_selector s = SUD_ALLOW \<or> sud_selector s = SUD_BLOCK"
    and "unat st + unat sz < 2 ^ 64" "sz \<noteq> 0"
  shows "lookup_range_allow_gaps st sz cid s =
    Inr (if \<forall>b. in_range st (st + sz) b \<longrightarrow> tracked (pages s) b = None \<or> owned (pages s) cid b then 0 else -1, s)"
proof -
  have "restore_sud (get_sud s) ((enter s)\<lparr>pm_lock := False\<rparr>) = s"
    using assms(2,3) by (cases s) (auto simp: sud_defs)
  with lookup_range_allow_gaps_locked_iff [OF assms(1,4,5), of cid] assms(2) show ?thesis
    by (simp add: lookup_range_allow_gaps_def locked_def Let_def enter_pages)
qed

theorem lookup_range_allow_gaps_owned_witness:
  "lookup_range_allow_gaps 61440 8192 1 demo_vpm = Inr (-1, demo_vpm)"
proof -
  have "in_range 61440 (61440 + 8192) 65536" "tracked (pages demo_vpm) 65536 = Some (3, 34, 0)"
    by (simp_all add: in_range_def demo_defs tracked_def covers_def range_defs attr_def)
  then have "\<not> (\<forall>b. in_range 61440 (61440 + 8192) b \<longrightarrow> tracked (pages demo_vpm) b = None \<or> owned (pages demo_vpm) 1 b)"
    by (auto simp: owned_def)
  with lookup_range_allow_gaps_owned [OF demo_wf demo_pool(3), of 61440 8192 1] show ?thesis
    by (simp add: demo_vpm_def)
qed

text \<open>
  Every operation of the page manager that returns has released the lock and put the
  selector of syscall user dispatch back, on every path including the refusals.
\<close>

theorem page_op_restores:
  assumes "run_page_op E op s = Inr (r, s')" "sud_selector s = SUD_ALLOW \<or> sud_selector s = SUD_BLOCK"
  shows "\<not> pm_lock s' \<and> sud_selector s' = sud_selector s"
  using assms by (cases op)
    (auto simp: add_page_def remove_page_def update_mprotect_def update_size_def dest: locked_restores)

theorem page_op_restores_witness:
  "\<exists>s'. run_page_op demo_env (RemovePage 24576 12288 1) demo_vpm = Inr (0, s') \<and> sud_selector s' = SUD_BLOCK"
proof -
  obtain s' where "run_page_op demo_env (RemovePage 24576 12288 1) demo_vpm = Inr (0, s')" using demo_remove by auto
  moreover from page_op_restores [OF this] have "sud_selector s' = SUD_BLOCK" by (simp add: demo_vpm_def)
  ultimately show ?thesis by blast
qed

section \<open>Where the code leaves its intended behaviour\<close>

text \<open>
  A protection change over two adjacent groups of the application removes the range and links
  the new group after the first group that ends below it instead of the last one: the call
  reports success and the list is no longer sorted, so a later \<open>lookup_range\<close> over memory the
  application owns throughout is refused.
\<close>

theorem update_mprotect_unsorts:
  "\<exists>s'. update_mprotect demo_env 24576 12288 1 1 demo_vpm = Inr (0, s') \<and> \<not> wf_pages (pages s') \<and>
     lookup_range 16384 24576 1 demo_vpm = Inr (Some (demo_page 16384 16384 3 1), demo_vpm) \<and>
     lookup_range 16384 24576 1 s' = Inr (None, s')"
  by (simp add: demo_defs page_run_defs wf_Cons page_before_def range_defs)

text \<open>
  Removing a range that starts in a gap ends the process: after the first group with a null
  \<open>prev_page\<close> or with \<open>ud2\<close>, depending on where it ends. The last group of the list is refused although it is tracked.
\<close>

theorem remove_page_gap_crashes:
  "remove_page demo_env 8192 12288 1 demo_vpm = Inl NullDeref \<and>
   remove_page demo_env 8192 4096 1 demo_vpm = Inl Ud2 \<and>
   remove_page demo_env 40960 4096 1 demo_vpm = Inr (-1, demo_vpm) \<and>
   remove_page demo_env 65536 4096 0 demo_vpm = Inr (-1, demo_vpm)"
  by (simp add: demo_defs page_run_defs)

text \<open>
  The range check of \<open>lookup_range\<close> does not notice a range that wraps around the address space:
  with a size of almost 2 ^ 64 the end lies below the start and the check succeeds.
\<close>

theorem lookup_range_wraps:
  "lookup_range 16384 (- 16384) 1 demo_vpm = Inr (Some (demo_page 16384 16384 3 1), demo_vpm)"
  by (simp add: demo_defs page_run_defs)

end
