(* ===== verification/Erim.thy ===== *)
theory Erim
  imports PageOps
begin

text \<open>
  The scanner for instructions that could change protection keys, \<open>src/src/syscall_monitor/erim.cpp\<close>, and the
  list of unsafe pages it keeps.

  Memory is read through the environment. The code raises its own rights around each read and
  restores them, which does not change what is read, so the key register is not part of the
  state. The vector \<open>unsafe_pages.list\<close> and its counter \<open>unsafe_pages.size\<close> always grow together and are one
  HOL list; entries are never removed, so a pointer to an entry is its position. The vector of
  instructions of a page and the field \<open>unsafe_instructions_size\<close> are separate, as in the code. The
  length of a scan is at most a page and only shrinks by what was scanned, so it is a natural number.
\<close>

section \<open>Instruction patterns\<close>

definition erim_isWRPKRU :: "(addr \<Rightarrow> u8) \<Rightarrow> addr \<Rightarrow> bool" where
  "erim_isWRPKRU m p \<longleftrightarrow> m p = 0x0f \<and> m (p + 1) = 0x01 \<and> m (p + 2) = 0xef"

definition erim_isXRSTOR :: "(addr \<Rightarrow> u8) \<Rightarrow> addr \<Rightarrow> bool" where
  "erim_isXRSTOR m p \<longleftrightarrow> m p = 0x0f \<and> m (p + 1) = 0xae \<and>
     m (p + 2) AND 0xC0 \<noteq> 0xC0 \<and> m (p + 2) AND 0x38 = 0x28"

definition erim_isWRGSBASE32 :: "(addr \<Rightarrow> u8) \<Rightarrow> addr \<Rightarrow> bool" where
  "erim_isWRGSBASE32 m p \<longleftrightarrow> m p = 0xf3 \<and> m (p + 1) = 0x0f \<and> m (p + 2) = 0xae \<and> m (p + 3) AND 0xf8 = 0xd8"

definition erim_isWRGSBASE64 :: "(addr \<Rightarrow> u8) \<Rightarrow> addr \<Rightarrow> bool" where
  "erim_isWRGSBASE64 m p \<longleftrightarrow> m p = 0xf3 \<and> m (p + 1) AND 0xf0 = 0x40 \<and> m (p + 2) = 0x0f \<and> m (p + 3) = 0xae \<and>
     m (p + 4) AND 0xf8 = 0xd8"

text \<open>\<open>TYPE_WRPKRU\<close>, \<open>TYPE_XRSTOR\<close>, \<open>TYPE_WRGSBASE\<close>, with \<open>None\<close> for the 0 that stands for no instruction.\<close>

datatype insn_type = TYPE_WRPKRU | TYPE_XRSTOR | TYPE_WRGSBASE

definition insn_at :: "(addr \<Rightarrow> u8) \<Rightarrow> addr \<Rightarrow> insn_type option" where
  "insn_at m p =
     (if erim_isWRPKRU m p then Some TYPE_WRPKRU
      else if erim_isXRSTOR m p then Some TYPE_XRSTOR
      else if erim_isWRGSBASE32 m p \<or> erim_isWRGSBASE64 m p then Some TYPE_WRGSBASE
      else None)"

text \<open>The loop of the scan from offset \<open>it\<close> to \<open>n\<close>, and the scan: the type found and the value of
  \<open>*ret\<close>, which the caller has set to 0.\<close>

function scan_loop :: "(addr \<Rightarrow> u8) \<Rightarrow> addr \<Rightarrow> nat \<Rightarrow> nat \<Rightarrow> insn_type option \<times> nat" where
  "scan_loop m st it n =
     (if it < n
      then (case insn_at m (st + of_nat it) of
              Some ty \<Rightarrow> (Some ty, it)
            | None \<Rightarrow> scan_loop m st (Suc it) n)
      else (None, 0))"
  by auto
termination by (relation "measure (\<lambda>(m, st, it, n). n - it)") auto

declare scan_loop.simps [simp del]

definition erim_scanMemForWRPKRUXRSTOR :: "(addr \<Rightarrow> u8) \<Rightarrow> addr \<Rightarrow> nat \<Rightarrow> insn_type option \<times> nat" where
  "erim_scanMemForWRPKRUXRSTOR m mem_start len =
     (if len < 3 then (None, 0) else scan_loop m mem_start 0 (len - 3))"

definition checkWhitelistedWRPKRU :: "u64 \<Rightarrow> u64 list \<Rightarrow> bool" where
  "checkWhitelistedWRPKRU a whitelist = list_ex (\<lambda>w. a = w) whitelist"

definition isBenignXRSTOR :: "(addr \<Rightarrow> u8) \<Rightarrow> addr \<Rightarrow> bool" where
  "isBenignXRSTOR m p \<longleftrightarrow> erim_isXRSTOR m p \<and>
     m (p + 3) = 0x89 \<and> m (p + 4) = 0xc2 \<and>
     m (p + 5) = 0x0f \<and> m (p + 6) = 0xba \<and> m (p + 7) = 0xe2 \<and> m (p + 8) = 0x09 \<and>
     m (p + 9) = 0x73 \<and> m (p + 10) = 0x03 \<and>
     m (p + 11) = 0x0f \<and> m (p + 12) = 0x0b \<and> m (p + 13) = 0xcc"

text \<open>A little-endian 32-bit load, and \<open>REVOKE_PERMISSIONS\<close> of \<open>gsreldata.h\<close>.\<close>

definition load32 :: "(addr \<Rightarrow> u8) \<Rightarrow> addr \<Rightarrow> c_int" where
  "load32 m p = ucast (m p) OR push_bit 8 (ucast (m (p + 1))) OR push_bit 16 (ucast (m (p + 2))) OR
     push_bit 24 (ucast (m (p + 3)))"

abbreviation (input) REVOKE_PERMISSIONS :: c_int where "REVOKE_PERMISSIONS \<equiv> 0x7FFFFFCB"

definition isBenignWRPKRU :: "(addr \<Rightarrow> u8) \<Rightarrow> addr \<Rightarrow> bool" where
  "isBenignWRPKRU m p =
     (if load32 m (p + 4) = REVOKE_PERMISSIONS \<and> erim_isWRPKRU m p \<and> m (p + 3) = 0x3d \<and>
         m (p + 8) = 0x74 \<and> m (p + 9) = 0x03 \<and> m (p + 10) = 0x0f \<and> m (p + 11) = 0x0b \<and> m (p + 12) = 0xcc
      then True
      else erim_isWRPKRU m p \<and> m (p + 3) = 0x65 \<and> m (p + 4) = 0x8a \<and> m (p + 5) = 0x14 \<and> m (p + 6) = 0x25 \<and>
         load32 m (p + 7) = 0x10 \<and> m (p + 11) = 0x80 \<and> m (p + 12) = 0xfa \<and> m (p + 13) = 0 \<and>
         m (p + 14) = 0x74 \<and> m (p + 15) = 0x03 \<and> m (p + 16) = 0x0f \<and> m (p + 17) = 0x0b \<and> m (p + 18) = 0xcc)"

section \<open>The list of unsafe pages\<close>

record unsafe_page =
  up_address :: addr
  trusted_page :: bool
  current_perm :: c_int
  desired_perm :: c_int
  unsafe_instructions :: "addr list option"
  unsafe_instructions_size :: nat

record erim = vpm +
  unsafe_pages :: "unsafe_page list"
  erim_scan_mutex :: bool

text \<open>\<open>while(unsafe_pages.list[i]->address != address)\<close>: the position of the first entry.\<close>

fun find_entry :: "addr \<Rightarrow> unsafe_page list \<Rightarrow> nat option" where
  "find_entry a [] = None"
| "find_entry a (u # us) = (if up_address u = a then Some 0 else map_option Suc (find_entry a us))"

definition update_unsafe_page :: "addr \<Rightarrow> c_int \<Rightarrow> c_int \<Rightarrow> bool \<Rightarrow> addr list option \<Rightarrow> 'z erim_scheme
    \<Rightarrow> (nat option \<times> 'z erim_scheme) res" where
  "update_unsafe_page a cur des trusted insns s =
     (case find_entry a (unsafe_pages s) of
        None \<Rightarrow> Inr (None, s)
      | Some i \<Rightarrow>
          (case insns of
             None \<Rightarrow> Inl NullDeref
           | Some v \<Rightarrow> Inr (Some i, s\<lparr>unsafe_pages := (unsafe_pages s)[i :=
                \<lparr>up_address = a, trusted_page = trusted, current_perm = cur, desired_perm = des,
                 unsafe_instructions = Some v, unsafe_instructions_size = length v\<rparr>]\<rparr>)))"

definition add_unsafe_page :: "addr \<Rightarrow> c_int \<Rightarrow> c_int \<Rightarrow> bool \<Rightarrow> addr list option \<Rightarrow> 'z erim_scheme
    \<Rightarrow> (nat \<times> 'z erim_scheme) res" where
  "add_unsafe_page a cur des trusted insns s =
     rbind (update_unsafe_page a cur des trusted insns s)
       (\<lambda>(updated, s). case updated of
            Some i \<Rightarrow> Inr (i, s)
          | None \<Rightarrow>
              let new = \<lparr>up_address = a, trusted_page = trusted, current_perm = cur, desired_perm = des,
                   unsafe_instructions = insns,
                   unsafe_instructions_size = (case insns of None \<Rightarrow> 0 | Some v \<Rightarrow> length v)\<rparr>
              in Inr (length (unsafe_pages s), s\<lparr>unsafe_pages := unsafe_pages s @ [new]\<rparr>))"

text \<open>The loop of \<open>update_unsafe_instruction\<close> does not stop at the first match: the last one counts.\<close>

fun find_last_entry :: "addr \<Rightarrow> unsafe_page list \<Rightarrow> nat option" where
  "find_last_entry a [] = None"
| "find_last_entry a (u # us) =
     (case find_last_entry a us of
        Some i \<Rightarrow> Some (Suc i)
      | None \<Rightarrow> if up_address u = a then Some 0 else None)"

definition update_unsafe_instruction :: "addr \<Rightarrow> addr \<Rightarrow> c_int \<Rightarrow> c_int \<Rightarrow> bool \<Rightarrow> 'z erim_scheme \<Rightarrow> 'z erim_scheme res" where
  "update_unsafe_instruction a insn cur des trusted s =
     nolibc_assert (insn \<ge> a \<and> insn < a + PAGE_SIZE)
       (case find_last_entry (page_of a) (unsafe_pages s) of
          None \<Rightarrow> rbind (add_unsafe_page a cur des trusted (Some [insn]) s) (\<lambda>(i, s). Inr s)
        | Some i \<Rightarrow>
            (case unsafe_instructions (unsafe_pages s ! i) of
               None \<Rightarrow> Inl NullDeref
             | Some v \<Rightarrow>
                 if insn \<in> set v then Inr s
                 else Inr (s\<lparr>unsafe_pages := (unsafe_pages s)[i := (unsafe_pages s ! i)\<lparr>unsafe_instructions := Some (v @ [insn])\<rparr>]\<rparr>)))"

section \<open>Scanning a page\<close>

text \<open>The \<open>while\<close> loop of \<open>erim_memScanRegion\<close>: the instructions that are neither listed nor benign. A
  hit at offset 0 of the remaining range is not told from no hit and ends the loop.\<close>

definition unsafe_insn :: "(addr \<Rightarrow> u8) \<Rightarrow> u64 list option \<Rightarrow> insn_type \<Rightarrow> addr \<Rightarrow> bool" where
  "unsafe_insn m whitelist ty p =
     (case ty of
        TYPE_WRPKRU \<Rightarrow> \<not> ((case whitelist of None \<Rightarrow> False | Some w \<Rightarrow> checkWhitelistedWRPKRU p w) \<or> isBenignWRPKRU m p)
      | TYPE_XRSTOR \<Rightarrow> \<not> isBenignXRSTOR m p
      | TYPE_WRGSBASE \<Rightarrow> True)"

function scan_region :: "(addr \<Rightarrow> u8) \<Rightarrow> u64 list option \<Rightarrow> addr \<Rightarrow> nat \<Rightarrow> addr list" where
  "scan_region m whitelist st len =
     (if len = 0 then []
      else case erim_scanMemForWRPKRUXRSTOR m st len of
             (Some ty, found) \<Rightarrow>
               if found \<noteq> 0
               then (if unsafe_insn m whitelist ty (st + of_nat found) then [st + of_nat found] else []) @
                    scan_region m whitelist (st + of_nat (found + 3)) (len - (found + 3))
               else []
           | (None, _) \<Rightarrow> [])"
  by pat_completeness auto
termination by (relation "measure (\<lambda>(m, w, st, len). len)") auto

declare scan_region.simps [simp del]

text \<open>The loops over the last three bytes of the previous page and the first four of the next one.
  \<open>prev_ptr\<close> is the value behind the caller's \<open>prev_page_ptr\<close>, 0 also when that pointer is null: then
  the previous page is made non-executable here, otherwise the caller is told with -1.\<close>

definition is_unsafe_start :: "(addr \<Rightarrow> u8) \<Rightarrow> addr \<Rightarrow> bool" where
  "is_unsafe_start m p \<longleftrightarrow> erim_isWRPKRU m p \<or> erim_isXRSTOR m p \<or> erim_isWRGSBASE32 m p \<or> erim_isWRGSBASE64 m p"

fun scan_prev :: "env \<Rightarrow> addr list \<Rightarrow> addr \<Rightarrow> c_int \<Rightarrow> c_int \<Rightarrow> bool \<Rightarrow> c_int \<Rightarrow> c_int
    \<Rightarrow> addr \<times> 'z erim_scheme \<Rightarrow> (addr \<times> 'z erim_scheme) res" where
  "scan_prev E [] prev_page unsafe_perm perm trusted temp_prot temp_cid ps = Inr ps"
| "scan_prev E (ptr # ptrs) prev_page unsafe_perm perm trusted temp_prot temp_cid (prev_ptr, s) =
     rbind
       (if is_unsafe_start (mem_at E s) ptr
        then rbind (update_unsafe_instruction prev_page ptr unsafe_perm perm trusted s)
          (\<lambda>s. if prev_ptr = 0
               then let (r, s) = syscall_wrapper E NR_mprotect prev_page PAGE_SIZE
                            (scast (temp_prot AND NOT PROT_EXEC)) 0 0 0 temp_cid s
                    in nolibc_assert (r = 0) (Inr (prev_ptr, s))
               else Inr (-1, s))
        else Inr (prev_ptr, s))
       (scan_prev E ptrs prev_page unsafe_perm perm trusted temp_prot temp_cid)"

fun scan_next :: "env \<Rightarrow> addr list \<Rightarrow> addr \<Rightarrow> c_int \<Rightarrow> c_int \<Rightarrow> bool \<Rightarrow> c_int \<Rightarrow> c_int
    \<Rightarrow> 'z erim_scheme \<Rightarrow> 'z erim_scheme res" where
  "scan_next E [] next_page unsafe_perm perm trusted temp_prot temp_cid s = Inr s"
| "scan_next E (ptr # ptrs) next_page unsafe_perm perm trusted temp_prot temp_cid s =
     rbind
       (if is_unsafe_start (mem_at E s) ptr
        then rbind (update_unsafe_instruction next_page ptr unsafe_perm perm trusted s)
          (\<lambda>s. let (r, s) = syscall_wrapper E NR_mprotect next_page PAGE_SIZE
                       (scast (temp_prot AND NOT PROT_EXEC)) 0 0 0 temp_cid s
               in nolibc_assert (r = 0) (Inr s))
        else Inr s)
       (scan_next E ptrs next_page unsafe_perm perm trusted temp_prot temp_cid)"

text \<open>The page before the scanned one: the one of the caller's previous iteration, or one that the
  page manager knows and that is accessible; and the page after it. \<open>temp_prot\<close> and \<open>temp_cid\<close> are one
  pair of variables that the lookup of the next page overwrites, as in the code.\<close>

definition scan_prev_page :: "addr \<Rightarrow> c_int \<Rightarrow> bool \<Rightarrow> addr \<Rightarrow> 'z erim_scheme
    \<Rightarrow> (addr \<times> c_int \<times> c_int \<times> 'z erim_scheme) res" where
  "scan_prev_page st perm trusted prev_ptr s =
     (if prev_ptr = 0 then
        if st \<ge> PAGE_SIZE
        then rbind (lookup_addr (st - PAGE_SIZE) (-1) s)
          (\<lambda>(temp, s). case temp of
               Some g \<Rightarrow> if vp_prot g \<noteq> PROT_NONE
                         then Inr (st - PAGE_SIZE, vp_prot g, vp_Cid g, s)
                         else Inr (0, 0, -1, s)
             | None \<Rightarrow> Inr (0, 0, -1, s))
        else Inr (0, 0, -1, s)
      else Inr (prev_ptr, perm, if trusted then TS_MONITOR else TS_APPLICATION, s))"

definition scan_next_page :: "addr \<Rightarrow> c_int \<Rightarrow> c_int \<Rightarrow> 'z erim_scheme
    \<Rightarrow> (addr \<times> c_int \<times> c_int \<times> 'z erim_scheme) res" where
  "scan_next_page st temp_prot temp_cid s =
     rbind (lookup_addr (st + PAGE_SIZE) (-1) s)
       (\<lambda>(temp, s). case temp of
            Some g \<Rightarrow> if vp_prot g \<noteq> PROT_NONE
                      then Inr (st + PAGE_SIZE, vp_prot g, vp_Cid g, s)
                      else Inr (0, temp_prot, temp_cid, s)
          | None \<Rightarrow> Inr (0, temp_prot, temp_cid, s))"

text \<open>The scan of the page itself and the record of its result.\<close>

definition scan_result :: "env \<Rightarrow> addr \<Rightarrow> u64 \<Rightarrow> u64 list option \<Rightarrow> c_int \<Rightarrow> c_int \<Rightarrow> bool \<Rightarrow> addr
    \<Rightarrow> 'z erim_scheme \<Rightarrow> (nat option \<times> addr \<times> 'z erim_scheme) res" where
  "scan_result E st len whitelist perm unsafe_perm trusted prev_ptr s =
     (let insns = scan_region (mem_at E s) whitelist st (unat len);
          s = s\<lparr>erim_scan_mutex := False\<rparr>
      in if insns \<noteq> []
         then rbind (add_unsafe_page st unsafe_perm perm trusted (Some insns) s)
                (\<lambda>(i, s). Inr (Some i, prev_ptr, s))
         else rbind (update_unsafe_page st perm perm trusted (Some insns) s)
                (\<lambda>(i, s). Inr (None, prev_ptr, s)))"

text \<open>
  \<open>erim_memScanRegion\<close>. The result is the position of the unsafe page (\<open>None\<close> for \<open>NULL\<close>) and the new
  value behind \<open>prev_page_ptr\<close>.
\<close>

definition erim_memScanRegion :: "env \<Rightarrow> addr \<Rightarrow> u64 \<Rightarrow> u64 list option \<Rightarrow> c_int \<Rightarrow> c_int \<Rightarrow> bool \<Rightarrow> addr
    \<Rightarrow> 'z erim_scheme \<Rightarrow> (nat option \<times> addr \<times> 'z erim_scheme) res" where
  "erim_memScanRegion E st len whitelist perm unsafe_perm trusted prev_ptr s =
     rbind (if erim_scan_mutex s then Inl Deadlock else Inr (s\<lparr>erim_scan_mutex := True\<rparr>))
     (\<lambda>s. nolibc_assert (len = PAGE_SIZE)
       (rbind (scan_prev_page st perm trusted prev_ptr s)
       (\<lambda>(prev_page, temp_prot, temp_cid, s). rbind (scan_next_page st temp_prot temp_cid s)
       (\<lambda>(next_page, temp_prot, temp_cid, s). rbind
          (if prev_page = 0 then Inr (prev_ptr, s)
           else scan_prev E [st - 3, st - 2, st - 1] prev_page unsafe_perm perm trusted temp_prot temp_cid
                  (prev_ptr, s))
       (\<lambda>(prev_ptr, s). rbind
          (if next_page = 0 then Inr s
           else scan_next E [next_page, next_page + 1, next_page + 2, next_page + 3] next_page
                  unsafe_perm perm trusted temp_prot temp_cid s)
       (\<lambda>s. scan_result E st len whitelist perm unsafe_perm trusted prev_ptr s))))))"

end
