(* ===== verification/ErimFacts.thy ===== *)
theory ErimFacts
  imports PageProps Erim
begin

text \<open>
  Properties of the scanner. The scan of a page is compared with the instructions that really are
  there; the calls a scan makes are classified (\<open>exec_call\<close>); the unsafe page list is shown to be a store
  keyed by page addresses (locale \<open>keyed_store\<close>, interpreted on the list operations).
\<close>

section \<open>What the scan of a page reports\<close>

lemma scan_loop_step:
  assumes "it < n"
  shows "scan_loop m st it n = (case insn_at m (st + of_nat it) of Some ty \<Rightarrow> (Some ty, it) | None \<Rightarrow> scan_loop m st (Suc it) n)"
  using assms by (subst scan_loop.simps) simp

lemma scan_loop_stop: "\<not> it < n \<Longrightarrow> scan_loop m st it n = (None, 0)"
  by (subst scan_loop.simps) simp

lemma scan_loop_spec:
  "(case scan_loop m st it n of
      (None, k) \<Rightarrow> k = 0 \<and> (\<forall>i. it \<le> i \<and> i < n \<longrightarrow> insn_at m (st + of_nat i) = None)
    | (Some ty, k) \<Rightarrow> it \<le> k \<and> k < n \<and> insn_at m (st + of_nat k) = Some ty \<and>
        (\<forall>i. it \<le> i \<and> i < k \<longrightarrow> insn_at m (st + of_nat i) = None))"
proof (induction m st it n rule: scan_loop.induct)
  case (1 m st it n)
  show ?case
  proof (cases "it < n")
    case lt: True
    show ?thesis
    proof (cases "insn_at m (st + of_nat it)")
      case None
      have "i = it \<or> Suc it \<le> i" if "it \<le> i" for i using that by auto
      with "1.IH" [OF lt None] None lt show ?thesis
        by (fastforce simp: scan_loop_step split: prod.splits option.splits)
    next
      case (Some a)
      then show ?thesis using lt by (auto simp: scan_loop_step)
    qed
  qed (auto simp: scan_loop_stop)
qed

lemma scan_cases:
  obtains (clean) "erim_scanMemForWRPKRUXRSTOR m st len = (None, 0)" "\<And>i. i + 3 < len \<Longrightarrow> insn_at m (st + of_nat i) = None"
  | (hit) ty f where "erim_scanMemForWRPKRUXRSTOR m st len = (Some ty, f)" "f + 3 < len"
      "insn_at m (st + of_nat f) = Some ty" "\<And>i. i < f \<Longrightarrow> insn_at m (st + of_nat i) = None"
proof (cases "len < 3")
  case True
  then show ?thesis using clean by (simp add: erim_scanMemForWRPKRUXRSTOR_def)
next
  case False
  then show ?thesis
    using scan_loop_spec [where m = m and st = st and it = 0 and n = "len - 3"] clean hit
    by (auto simp: erim_scanMemForWRPKRUXRSTOR_def split: prod.splits option.splits)
qed

lemma scan_region_clean:
  "erim_scanMemForWRPKRUXRSTOR m st len = (None, 0) \<Longrightarrow> scan_region m wl st len = []"
  by (subst scan_region.simps) simp

lemma scan_region_hit:
  assumes "erim_scanMemForWRPKRUXRSTOR m st len = (Some ty, f)" "f + 3 < len"
  shows "scan_region m wl st len =
    (if f = 0 then [] else (if unsafe_insn m wl ty (st + of_nat f) then [st + of_nat f] else []) @
        scan_region m wl (st + of_nat (f + 3)) (len - (f + 3)))"
  using assms by (subst scan_region.simps) simp

text \<open>Every reported address holds an instruction that is neither listed nor benign.\<close>

lemma scan_region_sound:
  "p \<in> set (scan_region m wl st len) \<Longrightarrow>
     \<exists>i ty. p = st + of_nat i \<and> 0 < i \<and> i + 3 < len \<and> insn_at m p = Some ty \<and> unsafe_insn m wl ty p"
proof (induction m wl st len rule: scan_region.induct)
  case (1 m wl st len)
  show ?case
  proof (cases rule: scan_cases [of m st len])
    case clean
    then show ?thesis using "1.prems" by (simp add: scan_region_clean)
  next
    case (hit ty f)
    have f: "f \<noteq> 0" using "1.prems" scan_region_hit [OF hit(1,2), of wl] by (auto split: if_splits)
    show ?thesis
    proof (cases "p = st + of_nat f \<and> unsafe_insn m wl ty p")
      case True
      with hit f show ?thesis by blast
    next
      case False
      then have rec: "p \<in> set (scan_region m wl (st + of_nat (f + 3)) (len - (f + 3)))"
        using "1.prems" scan_region_hit [OF hit(1,2), of wl] f by (auto split: if_splits)
      have "len \<noteq> 0" using hit(2) by simp
      from "1.IH" [OF this hit(1) [symmetric] refl f rec] obtain i ty' where
        i: "p = st + of_nat (f + 3) + of_nat i" "0 < i" "i + 3 < len - (f + 3)" "insn_at m p = Some ty'" "unsafe_insn m wl ty' p"
        by blast
      then have "p = st + of_nat (f + 3 + i)" by (simp add: add.assoc)
      moreover have "f + 3 + i + 3 < len" using i(3) by simp
      ultimately show ?thesis using i by (intro exI [of _ "f + 3 + i"] exI [of _ ty']) simp
    qed
  qed
qed

text \<open>The scan misses nothing on a page where no instruction stands at its very start and any two are
  at least four bytes apart.\<close>

definition spaced :: "(addr \<Rightarrow> u8) \<Rightarrow> addr \<Rightarrow> nat \<Rightarrow> bool" where
  "spaced m st len \<longleftrightarrow> (\<forall>i. i + 3 < len \<longrightarrow> insn_at m (st + of_nat i) \<noteq> None \<longrightarrow>
     0 < i \<and> (\<forall>j. i < j \<longrightarrow> j + 3 < len \<longrightarrow> insn_at m (st + of_nat j) \<noteq> None \<longrightarrow> i + 4 \<le> j))"

lemma spacedD:
  assumes "spaced m st len" "i + 3 < len" "insn_at m (st + of_nat i) \<noteq> None"
  shows "0 < i" and "i < j \<Longrightarrow> j + 3 < len \<Longrightarrow> insn_at m (st + of_nat j) \<noteq> None \<Longrightarrow> i + 4 \<le> j"
  using assms unfolding spaced_def by blast+

lemma of_nat_shift: "(st :: addr) + of_nat k + of_nat i = st + of_nat (k + i)"
  by (simp add: add.assoc)

lemma spaced_rest:
  assumes sp: "spaced m st len" and f: "f + 3 < len" "insn_at m (st + of_nat f) \<noteq> None"
  shows "spaced m (st + of_nat (f + 3)) (len - (f + 3))"
  unfolding spaced_def of_nat_shift
proof (intro allI impI conjI)
  fix i assume "i + 3 < len - (f + 3)" and i: "insn_at m (st + of_nat (f + 3 + i)) \<noteq> None"
  then have il: "f + 3 + i + 3 < len" by simp
  have "f + 4 \<le> f + 3 + i" by (rule spacedD(2) [OF sp f _ il i]) simp
  then show "0 < i" by simp
  fix j assume "i < j" "j + 3 < len - (f + 3)" and j: "insn_at m (st + of_nat (f + 3 + j)) \<noteq> None"
  then have "f + 3 + i < f + 3 + j" "f + 3 + j + 3 < len" by simp_all
  from spacedD(2) [OF sp il i this j] show "i + 4 \<le> j" by simp
qed

lemma scan_region_complete:
  "spaced m st len \<Longrightarrow> i + 3 < len \<Longrightarrow> insn_at m (st + of_nat i) = Some ty \<Longrightarrow> unsafe_insn m wl ty (st + of_nat i) \<Longrightarrow>
     st + of_nat i \<in> set (scan_region m wl st len)"
proof (induction m wl st len arbitrary: i rule: scan_region.induct)
  case (1 m wl st len)
  show ?case
  proof (cases rule: scan_cases [of m st len])
    case clean
    then show ?thesis using "1.prems" by simp
  next
    case (hit ty' f)
    have hf: "insn_at m (st + of_nat f) \<noteq> None" using hit(3) by simp
    have f: "f \<noteq> 0" using spacedD(1) [OF "1.prems"(1) hit(2) hf] by simp
    have "f \<le> i" using hit(4) [of i] "1.prems"(3) by (cases "i < f") auto
    show ?thesis
    proof (cases "i = f")
      case True
      with hit f "1.prems"(3,4) scan_region_hit [OF hit(1,2), of wl] show ?thesis by simp
    next
      case False
      have "f + 4 \<le> i"
        using spacedD(2) [OF "1.prems"(1) hit(2) hf, of i] \<open>f \<le> i\<close> False "1.prems"(2,3) by simp
      then have i: "i = f + 3 + (i - (f + 3))" by simp
      then obtain k where i: "i = f + 3 + k" by blast
      have "st + of_nat (f + 3) + of_nat k \<in> set (scan_region m wl (st + of_nat (f + 3)) (len - (f + 3)))"
      proof (rule "1.IH" [OF _ hit(1) [symmetric] refl f spaced_rest [OF "1.prems"(1) hit(2) hf]])
        show "len \<noteq> 0" using hit(2) by simp
        show "k + 3 < len - (f + 3)" using "1.prems"(2) i by simp
        show "insn_at m (st + of_nat (f + 3) + of_nat k) = Some ty" using "1.prems"(3) unfolding i of_nat_shift .
        show "unsafe_insn m wl ty (st + of_nat (f + 3) + of_nat k)" using "1.prems"(4) unfolding i of_nat_shift .
      qed
      then show ?thesis using f scan_region_hit [OF hit(1,2), of wl] unfolding i of_nat_shift by simp
    qed
  qed
qed

lemma scan_region_blind:
  assumes "insn_at m st \<noteq> None"
  shows "scan_region m wl st len = []"
proof (cases rule: scan_cases [of m st len])
  case clean
  then show ?thesis by (simp add: scan_region_clean)
next
  case (hit ty f)
  then have "f = 0" using assms hit(4) [of 0] by (cases "f = 0") auto
  then show ?thesis using scan_region_hit [OF hit(1,2), of wl] by simp
qed

section \<open>Calls that ask for executable memory\<close>

definition exec_call :: "scall \<Rightarrow> bool" where
  "exec_call c \<longleftrightarrow> prot_call c \<and> bit (sc_a3 c) 2"

lemma wx_exec_call: "wx_call c \<Longrightarrow> exec_call c"
  by (simp add: wx_call_def exec_call_def wx_bits)

lemma not_exec_clear: "\<not> exec_call (SCall via sel nr a1 a2 (scast ((p :: c_int) AND NOT PROT_EXEC)) a4 a5 a6)"
  by (simp add: exec_call_def scast_and_bit bit_simps)

text \<open>The page manager asks for no executable memory: its only calls get memory for its own nodes.\<close>

lemma refill_emits: "refill_free_list E s = Inr s' \<Longrightarrow> emits (\<lambda>c. \<not> exec_call c) s s'"
  by (auto simp: refill_free_list_def res_simps syscall_defs Let_def emits_def exec_call_def prot_call_def)

lemma virt_page_alloc_emits: "virt_page_alloc E s = Inr s' \<Longrightarrow> emits (\<lambda>c. \<not> exec_call c) s s'"
  by (auto simp: virt_page_alloc_def res_simps split: if_splits dest!: refill_emits intro: emits_cong)

lemma remove_single_emits: "remove_single E st en i s = Inr (r, s') \<Longrightarrow> emits (\<lambda>c. \<not> exec_call c) s s'"
  by (auto simp: remove_single_def Let_def res_simps virt_page_free_def split: if_splits
      dest!: virt_page_alloc_emits elim: emits_cong)

lemma remove_multi_trace: "remove_multi st en i j s = Inr (r, s') \<Longrightarrow> trace s' = trace s"
  by (auto simp: remove_multi_def Let_def split: if_splits prod.splits)

lemma remove_page_locked_emits:
  assumes "remove_page_locked E st sz cid s = Inr (r, s')"
  shows "emits (\<lambda>c. \<not> exec_call c) s s'"
  using remove_page_locked_run [OF assms]
  by (auto split: if_splits dest: remove_single_emits remove_multi_trace)

lemma remove_fixed_emits:
  assumes "remove_page_map_fixed_locked E st sz cid s = Inr (r, s')"
  shows "emits (\<lambda>c. \<not> exec_call c) s s'"
  using assms by (auto simp: remove_page_map_fixed_locked_def Let_def res_simps split: if_splits option.splits
      dest!: virt_page_alloc_emits) (simp add: emits_def)

lemma add_page_locked_emits:
  assumes "add_page_locked E st sz pr fl cid mf s = Inr (r, s')"
  shows "emits (\<lambda>c. \<not> exec_call c) s s'"
proof -
  let ?sz = "vp_size (new_page st sz pr fl cid)"
  from assms obtain r1 s1 where c: "(if mf then (if is_multithreaded s then remove_page_locked E st ?sz cid s
      else remove_page_map_fixed_locked E st ?sz cid s) else Inr (0, s)) = Inr (r1, s1)"
    and t: "trace s' = trace s1"
    unfolding add_page_locked_def Let_def by (auto simp: res_simps split: if_splits)
  have "emits (\<lambda>c. \<not> exec_call c) s s1"
    using c by (auto split: if_splits dest: remove_page_locked_emits remove_fixed_emits)
  with t show ?thesis by (auto intro: emits_cong)
qed

lemma locked_emits:
  assumes "locked body s = Inr (r, s')" "\<And>s1. body (enter s) = Inr (r, s1) \<Longrightarrow> emits P (enter s) s1"
  shows "emits P s s'"
  using assms by (fastforce simp: locked_Inr intro: emits_cong)

lemma add_page_emits:
  assumes "add_page E st sz pr fl cid mf s = Inr (r, s')"
  shows "emits (\<lambda>c. \<not> exec_call c) s s'"
  using assms unfolding add_page_def
proof (rule locked_emits)
  fix s1 assume "rbind (virt_page_alloc E (enter s)) (\<lambda>s. rbind (add_page_locked E st sz pr fl cid mf s)
      (\<lambda>(r, s). Inr (r, if r = - 1 then virt_page_free s else s))) = Inr (r, s1)"
  then obtain s0 s2 where "virt_page_alloc E (enter s) = Inr s0" "add_page_locked E st sz pr fl cid mf s0 = Inr (r, s2)"
    "trace s1 = trace s2" by (auto simp: res_simps virt_page_free_def)
  then show "emits (\<lambda>c. \<not> exec_call c) (enter s) s1"
    using emits_trans [OF virt_page_alloc_emits add_page_locked_emits] emits_cong by blast
qed

lemma remove_page_emits: "remove_page E st sz cid s = Inr (r, s') \<Longrightarrow> emits (\<lambda>c. \<not> exec_call c) s s'"
  unfolding remove_page_def by (erule locked_emits) (rule remove_page_locked_emits)

lemma mprotect_reinsert_emits:
  "mprotect_reinsert E st sz pr cid s = Inr (r, s') \<Longrightarrow> emits (\<lambda>c. \<not> exec_call c) s s'"
  by (auto simp: mprotect_reinsert_def Let_def res_simps split: option.splits dest!: virt_page_alloc_emits elim: emits_cong)

lemma update_mprotect_locked_emits:
  assumes "update_mprotect_locked E st sz pr cid s = Inr (r, s')"
  shows "emits (\<lambda>c. \<not> exec_call c) s s'"
proof -
  note al = virt_page_alloc_emits
  consider "trace s' = trace s" | s1 where "virt_page_alloc E s = Inr s1" "trace s' = trace s1"
    | s1 s2 where "virt_page_alloc E s = Inr s1" "virt_page_alloc E s1 = Inr s2" "trace s' = trace s2"
    | r1 s1 where "remove_page_locked E st sz cid s = Inr (r1, s1)" "s' = s1 \<or> mprotect_reinsert E st sz pr cid s1 = Inr (r, s')"
    using assms unfolding update_mprotect_locked_def Let_def
    by (auto simp: res_simps split: if_splits option.splits)
  then show ?thesis
  proof cases
    case 2
    then show ?thesis using al [OF 2(1)] emits_cong by blast
  next
    case 3
    then show ?thesis using emits_trans [OF al al] emits_cong by blast
  next
    case 4
    then show ?thesis
      using remove_page_locked_emits [OF 4(1)] mprotect_reinsert_emits emits_trans by blast
  qed simp
qed

lemma update_mprotect_emits: "update_mprotect E st sz pr cid s = Inr (r, s') \<Longrightarrow> emits (\<lambda>c. \<not> exec_call c) s s'"
  unfolding update_mprotect_def by (erule locked_emits) (rule update_mprotect_locked_emits)

lemma update_size_emits: "update_size E st old new cid s = Inr (r, s') \<Longrightarrow> emits (\<lambda>c. \<not> exec_call c) s s'"
  unfolding update_size_def
  by (erule locked_emits) (auto simp: update_size_locked_def Let_def res_simps split: if_splits option.splits
      dest!: virt_page_alloc_emits elim: emits_cong)

lemma lookup_addr_trace: "lookup_addr a cid s = Inr (r, s') \<Longrightarrow> trace s' = trace s"
  by (auto simp: lookup_addr_def locked_Inr)

lemma lookup_range_trace: "lookup_range a sz cid s = Inr (r, s') \<Longrightarrow> trace s' = trace s"
  by (auto simp: lookup_range_def locked_Inr res_simps)

lemma lookup_gaps_trace: "lookup_range_allow_gaps a sz cid s = Inr (r, s') \<Longrightarrow> trace s' = trace s"
  by (auto simp: lookup_range_allow_gaps_def locked_Inr)

lemmas page_op_emits = add_page_emits remove_page_emits update_mprotect_emits update_size_emits

section \<open>What a scan changes\<close>

definition sel_ok :: "'z kern_scheme \<Rightarrow> bool" where
  "sel_ok s \<longleftrightarrow> sud_selector s = SUD_ALLOW \<or> sud_selector s = SUD_BLOCK"

definition same_pm :: "'z vpm_scheme \<Rightarrow> 'z vpm_scheme \<Rightarrow> bool" where
  "same_pm s s' \<longleftrightarrow> pages s' = pages s \<and> free_pages s' = free_pages s \<and> pm_lock s' = pm_lock s \<and>
     is_multithreaded s' = is_multithreaded s \<and> (sel_ok s \<longrightarrow> sud_selector s' = sud_selector s)"

lemma same_pm_refl [simp]: "same_pm s s"
  by (simp add: same_pm_def)

lemma same_pm_trans: "same_pm s s1 \<Longrightarrow> same_pm s1 s2 \<Longrightarrow> same_pm s s2"
  by (auto simp: same_pm_def sel_ok_def)

lemma lookup_addr_same: "lookup_addr a cid s = Inr (r, s') \<Longrightarrow>
    same_pm s s' \<and> trace s' = trace s \<and> r = lookup_addr_locked (pages s) a cid"
  by (auto simp: lookup_addr_def locked_Inr same_pm_def sel_ok_def sud_defs)

text \<open>The changes of the scanner: the unsafe page list and calls that ask for no executable memory.\<close>

lemma find_entry_Some: "find_entry a us = Some i \<Longrightarrow> i < length us \<and> up_address (us ! i) = a"
  by (induction us arbitrary: i) (auto split: if_splits)

definition entries_kept :: "unsafe_page list \<Rightarrow> unsafe_page list \<Rightarrow> bool" where
  "entries_kept us us' \<longleftrightarrow> (\<forall>a i. find_entry a us = Some i \<longrightarrow> find_entry a us' = Some i)"

definition scan_ok :: "'z erim_scheme \<Rightarrow> 'z erim_scheme \<Rightarrow> bool" where
  "scan_ok s s' \<longleftrightarrow> same_pm s s' \<and> emits (\<lambda>c. \<not> exec_call c) s s' \<and> erim.more s' = erim.more s \<and>
     entries_kept (unsafe_pages s) (unsafe_pages s')"

lemma entries_kept_refl [simp]: "entries_kept us us"
  by (simp add: entries_kept_def)

lemma scan_ok_refl [simp]: "scan_ok s s"
  by (simp add: scan_ok_def)

lemma scan_ok_trans: "scan_ok s s1 \<Longrightarrow> scan_ok s1 s2 \<Longrightarrow> scan_ok s s2"
  by (auto simp: scan_ok_def entries_kept_def intro: same_pm_trans emits_trans)

lemma find_entry_update_same:
  "i < length us \<Longrightarrow> up_address u = up_address (us ! i) \<Longrightarrow> find_entry a (us[i := u]) = find_entry a us"
  by (induction us arbitrary: i) (auto split: nat.split)

lemma find_last_entry_Some: "find_last_entry a us = Some i \<Longrightarrow> i < length us \<and> up_address (us ! i) = a"
  by (induction us arbitrary: i) (auto split: option.splits if_splits)

lemma entries_kept_update [simp]: "up_address u = up_address (us ! i) \<Longrightarrow> entries_kept us (us[i := u])"
  by (cases "i < length us") (simp_all add: entries_kept_def find_entry_update_same list_update_beyond)

lemma entries_kept_append [simp]: "entries_kept us (us @ vs)"
proof -
  have "find_entry a us = Some i \<Longrightarrow> find_entry a (us @ vs) = Some i" for a i
    by (induction us arbitrary: i) auto
  then show ?thesis by (simp add: entries_kept_def)
qed

lemma update_unsafe_page_state:
  "update_unsafe_page a cur des tr v s = Inr (r, s') \<Longrightarrow> \<exists>us. s' = s\<lparr>unsafe_pages := us\<rparr>"
  by (cases s) (auto simp: update_unsafe_page_def split: option.splits)

lemma add_unsafe_page_state:
  "add_unsafe_page a cur des tr v s = Inr (r, s') \<Longrightarrow> \<exists>us. s' = s\<lparr>unsafe_pages := us\<rparr>"
  by (auto simp: add_unsafe_page_def res_simps split: option.splits dest!: update_unsafe_page_state)

lemma update_unsafe_instruction_state:
  "update_unsafe_instruction a insn cur des tr s = Inr s' \<Longrightarrow> \<exists>us. s' = s\<lparr>unsafe_pages := us\<rparr>"
  by (cases s) (auto simp: update_unsafe_instruction_def res_simps split: option.splits if_splits dest!: add_unsafe_page_state)

lemma add_unsafe_page_kept:
  "add_unsafe_page a cur des tr v s = Inr (r, s') \<Longrightarrow> entries_kept (unsafe_pages s) (unsafe_pages s')"
  by (auto simp: add_unsafe_page_def res_simps Let_def update_unsafe_page_def split: option.splits
      intro!: entries_kept_update dest: find_entry_Some)

lemma update_unsafe_instruction_kept:
  "update_unsafe_instruction a insn cur des tr s = Inr s' \<Longrightarrow> entries_kept (unsafe_pages s) (unsafe_pages s')"
  by (auto simp: update_unsafe_instruction_def res_simps split: option.splits if_splits dest!: add_unsafe_page_kept)

lemma update_unsafe_instruction_ok:
  assumes "update_unsafe_instruction a insn cur des tr s = Inr s'"
  shows "scan_ok s s'"
  using update_unsafe_instruction_state [OF assms] update_unsafe_instruction_kept [OF assms]
  by (cases s) (auto simp: scan_ok_def same_pm_def)

lemma mprotect_scan_ok:
  assumes "syscall_wrapper E NR_mprotect p sz (scast ((pr :: c_int) AND NOT PROT_EXEC)) 0 0 0 cid s = (r, s')"
  shows "scan_ok s s'"
proof -
  have "same_pm s s' \<and> erim.more s' = erim.more s \<and> unsafe_pages s' = unsafe_pages s"
    using syscall_wrapper_state [OF assms] by (cases s) (auto simp: same_pm_def)
  moreover have "emits (\<lambda>c. \<not> exec_call c) s s'"
    using assms by (rule syscall_wrapper_emits) (rule not_exec_clear)
  ultimately show ?thesis by (simp add: scan_ok_def)
qed

lemma guarded_mprotect:
  assumes "(let (r, s) = syscall_wrapper E NR_mprotect p sz (scast ((pr :: c_int) AND NOT PROT_EXEC)) 0 0 0 cid s
            in nolibc_assert (r = 0) (Inr (f s))) = Inr y"
  shows "\<exists>s1. scan_ok s s1 \<and> y = f s1"
  using assms mprotect_scan_ok [of E p sz pr cid s]
  by (cases "syscall_wrapper E NR_mprotect p sz (scast (pr AND NOT PROT_EXEC)) 0 0 0 cid s")
     (auto simp: nolibc_assert_eq_Inr)

lemma scan_prev_ok:
  "scan_prev E ptrs pp up pm tr tp tc (pv, s) = Inr (pv', s') \<Longrightarrow> scan_ok s s' \<and> (pv' = pv \<or> pv' = -1) \<and> (pv = 0 \<longrightarrow> pv' = 0)"
proof (induction ptrs arbitrary: pv s)
  case (Cons p ptrs)
  then obtain pv1 s1 where
    step: "(if is_unsafe_start (mem_at E s) p
        then rbind (update_unsafe_instruction pp p up pm tr s)
          (\<lambda>s. if pv = 0
               then let (r, s) = syscall_wrapper E NR_mprotect pp PAGE_SIZE (scast (tp AND NOT PROT_EXEC)) 0 0 0 tc s
                    in nolibc_assert (r = 0) (Inr (pv, s))
               else Inr (-1, s))
        else Inr (pv, s)) = Inr (pv1, s1)"
    and rec: "scan_prev E ptrs pp up pm tr tp tc (pv1, s1) = Inr (pv', s')"
    by (auto simp: res_simps)
  have "scan_ok s s1 \<and> (pv1 = pv \<or> pv1 = -1) \<and> (pv = 0 \<longrightarrow> pv1 = 0)"
  proof (cases "is_unsafe_start (mem_at E s) p")
    case True
    with step obtain s0 where u: "update_unsafe_instruction pp p up pm tr s = Inr s0"
      and k: "(if pv = 0
               then let (r, s) = syscall_wrapper E NR_mprotect pp PAGE_SIZE (scast (tp AND NOT PROT_EXEC)) 0 0 0 tc s0
                    in nolibc_assert (r = 0) (Inr (pv, s))
               else Inr (-1, s0)) = Inr (pv1, s1)"
      by (simp only: if_True rbind_eq_Inr) blast
    have "scan_ok s s0" by (rule update_unsafe_instruction_ok [OF u])
    moreover have "scan_ok s0 s1 \<and> (pv1 = pv \<or> pv1 = -1) \<and> (pv = 0 \<longrightarrow> pv1 = 0)"
    proof (cases "pv = 0")
      case True
      with k show ?thesis using guarded_mprotect [of E pp PAGE_SIZE tp tc s0 "Pair pv"] by (simp only: if_True) fastforce
    next
      case False
      with k show ?thesis by simp
    qed
    ultimately show ?thesis by (blast intro: scan_ok_trans)
  qed (use step in simp)
  with Cons.IH [OF rec] show ?case by (auto intro: scan_ok_trans)
qed simp

lemma scan_next_ok: "scan_next E ptrs np up pm tr tp tc s = Inr s' \<Longrightarrow> scan_ok s s'"
proof (induction ptrs arbitrary: s)
  case (Cons p ptrs)
  then obtain s1 where
    step: "(if is_unsafe_start (mem_at E s) p
        then rbind (update_unsafe_instruction np p up pm tr s)
          (\<lambda>s. let (r, s) = syscall_wrapper E NR_mprotect np PAGE_SIZE (scast (tp AND NOT PROT_EXEC)) 0 0 0 tc s
               in nolibc_assert (r = 0) (Inr s))
        else Inr s) = Inr s1"
    and rec: "scan_next E ptrs np up pm tr tp tc s1 = Inr s'"
    by (auto simp: res_simps)
  have "scan_ok s s1"
  proof (cases "is_unsafe_start (mem_at E s) p")
    case True
    with step obtain s0 where u: "update_unsafe_instruction np p up pm tr s = Inr s0"
      and k: "(let (r, s) = syscall_wrapper E NR_mprotect np PAGE_SIZE (scast (tp AND NOT PROT_EXEC)) 0 0 0 tc s0
               in nolibc_assert (r = 0) (Inr s)) = Inr s1"
      by (simp only: if_True rbind_eq_Inr) blast
    have "scan_ok s s0" by (rule update_unsafe_instruction_ok [OF u])
    moreover have "scan_ok s0 s1" using guarded_mprotect [OF k] by blast
    ultimately show ?thesis by (rule scan_ok_trans)
  qed (use step in simp)
  with Cons.IH [OF rec] show ?case by (auto intro: scan_ok_trans)
qed simp

section \<open>The unsafe page list as a store\<close>

text \<open>The list is a store keyed by page addresses. The interface and what follows from its laws:\<close>

locale keyed_store =
  fixes inv :: "'s \<Rightarrow> bool"
    and get :: "'s \<Rightarrow> 'k \<Rightarrow> 'v option"
    and put :: "'k \<Rightarrow> 'v \<Rightarrow> 's \<Rightarrow> 's"
  assumes inv_put: "inv s \<Longrightarrow> inv (put k v s)"
    and get_put_same: "inv s \<Longrightarrow> get (put k v s) k = Some v"
    and get_put_other: "inv s \<Longrightarrow> k' \<noteq> k \<Longrightarrow> get (put k v s) k' = get s k'"
begin

lemma inv_puts: "inv s \<Longrightarrow> inv (foldl (\<lambda>s (k, v). put k v s) s kvs)"
  by (induction kvs arbitrary: s) (auto intro: inv_put)

text \<open>After any number of updates the last one for a key counts.\<close>

lemma get_puts:
  "inv s \<Longrightarrow> get (foldl (\<lambda>s (k, v). put k v s) s kvs) k' =
     (case map_of (rev kvs) k' of Some v \<Rightarrow> Some v | None \<Rightarrow> get s k')"
proof (induction kvs arbitrary: s)
  case (Cons kv kvs)
  obtain k v where kv: "kv = (k, v)" by (cases kv)
  have "inv (put k v s)" using Cons.prems by (rule inv_put)
  then show ?case
    using Cons.IH [of "put k v s"] Cons.prems kv
    by (cases "k' = k") (auto simp: get_put_same get_put_other map_add_def split: option.splits)
qed simp

end

definition page_entry :: "unsafe_page list \<Rightarrow> addr \<Rightarrow> unsafe_page option" where
  "page_entry us a = find (\<lambda>u. up_address u = a) us"

definition entry_of :: "addr \<Rightarrow> c_int \<Rightarrow> c_int \<Rightarrow> bool \<Rightarrow> addr list \<Rightarrow> unsafe_page" where
  "entry_of a cur des tr v = \<lparr>up_address = a, trusted_page = tr, current_perm = cur, desired_perm = des,
     unsafe_instructions = Some v, unsafe_instructions_size = length v\<rparr>"

definition put_entry :: "addr \<Rightarrow> unsafe_page \<Rightarrow> unsafe_page list \<Rightarrow> unsafe_page list" where
  "put_entry a u us = (case find_entry a us of Some i \<Rightarrow> us[i := u\<lparr>up_address := a\<rparr>] | None \<Rightarrow> us @ [u\<lparr>up_address := a\<rparr>])"

definition wf_unsafe :: "unsafe_page list \<Rightarrow> bool" where
  "wf_unsafe us \<longleftrightarrow> distinct (map up_address us)"

lemma find_entry_None: "find_entry a us = None \<longleftrightarrow> a \<notin> up_address ` set us"
  by (induction us) auto

lemma find_entry_page_entry: "page_entry us a = map_option ((!) us) (find_entry a us)"
  by (induction us) (auto simp: page_entry_def option.map_comp comp_def)

lemma page_entry_update:
  assumes "find_entry a us = Some i"
  shows "page_entry (us[i := u\<lparr>up_address := a\<rparr>]) a' = (if a' = a then Some (u\<lparr>up_address := a\<rparr>) else page_entry us a')"
  using assms by (induction us arbitrary: i) (auto simp: page_entry_def split: if_splits)

lemma page_entry_append:
  assumes "find_entry a us = None"
  shows "page_entry (us @ [u\<lparr>up_address := a\<rparr>]) a' = (if a' = a then Some (u\<lparr>up_address := a\<rparr>) else page_entry us a')"
  using assms by (induction us) (auto simp: page_entry_def)

lemma page_entry_put: "page_entry (put_entry a u us) a' = (if a' = a then Some (u\<lparr>up_address := a\<rparr>) else page_entry us a')"
  by (auto simp: put_entry_def page_entry_update page_entry_append split: option.splits)

lemma wf_unsafe_put: "wf_unsafe us \<Longrightarrow> wf_unsafe (put_entry a u us)"
proof (cases "find_entry a us")
  case (Some i)
  assume wf: "wf_unsafe us"
  have "map up_address (us[i := u\<lparr>up_address := a\<rparr>]) = map up_address us"
    using find_entry_Some [OF Some] by (simp add: map_update list_update_same_conv)
  with wf Some show ?thesis by (simp add: wf_unsafe_def put_entry_def)
next
  case None
  assume "wf_unsafe us"
  moreover have "a \<notin> up_address ` set us" using None by (simp add: find_entry_None)
  ultimately show ?thesis using None by (simp add: wf_unsafe_def put_entry_def)
qed

lemma add_unsafe_page_put:
  "\<exists>i. add_unsafe_page a cur des tr (Some v) s = Inr (i, s\<lparr>unsafe_pages := put_entry a (entry_of a cur des tr v) (unsafe_pages s)\<rparr>) \<and>
     i < length (put_entry a (entry_of a cur des tr v) (unsafe_pages s)) \<and>
     put_entry a (entry_of a cur des tr v) (unsafe_pages s) ! i = entry_of a cur des tr v"
  by (auto simp: add_unsafe_page_def update_unsafe_page_def put_entry_def entry_of_def dest: find_entry_Some split: option.splits)

lemma update_unsafe_page_put:
  "update_unsafe_page a cur des tr (Some v) s =
     (if page_entry (unsafe_pages s) a = None then Inr (None, s)
      else Inr (find_entry a (unsafe_pages s), s\<lparr>unsafe_pages := put_entry a (entry_of a cur des tr v) (unsafe_pages s)\<rparr>))"
  by (auto simp: update_unsafe_page_def put_entry_def entry_of_def find_entry_page_entry split: option.splits)

text \<open>What is recorded of a page: permissions, trust and instructions.\<close>

type_synonym page_note = "c_int \<times> c_int \<times> bool \<times> addr list"

definition note_of :: "unsafe_page \<Rightarrow> page_note" where
  "note_of u = (current_perm u, desired_perm u, trusted_page u,
     case unsafe_instructions u of None \<Rightarrow> [] | Some v \<Rightarrow> v)"

definition page_note :: "unsafe_page list \<Rightarrow> addr \<Rightarrow> page_note option" where
  "page_note us a = map_option note_of (page_entry us a)"

definition put_note :: "addr \<Rightarrow> page_note \<Rightarrow> unsafe_page list \<Rightarrow> unsafe_page list" where
  "put_note a n us = (case n of (cur, des, tr, v) \<Rightarrow> put_entry a (entry_of a cur des tr v) us)"

interpretation us: keyed_store wf_unsafe page_note put_note
  by unfold_locales
     (auto simp: put_note_def page_note_def page_entry_put wf_unsafe_put note_of_def entry_of_def split: prod.splits)

section \<open>The scan of a page\<close>

lemma mem_at_cong: "trace s' = trace s \<Longrightarrow> mem_at E s' = mem_at E s"
  by (rule ext) (simp add: mem_at_def)

lemma put_entry_kept: "entries_kept us (put_entry a u us)"
  by (auto simp: put_entry_def split: option.splits intro!: entries_kept_update dest: find_entry_Some)

lemma scan_finish:
  fixes s2 :: "'z erim_scheme"
  assumes "scan_result E st len wl perm up tr pv s2 = Inr (res, pv', s')"
  defines "found \<equiv> scan_region (mem_at E s') wl st (unat len)"
  shows "scan_ok s2 s' \<and> \<not> erim_scan_mutex s' \<and> pv' = pv \<and> (res = None \<longleftrightarrow> found = []) \<and>
    (res \<noteq> None \<longrightarrow> page_entry (unsafe_pages s') st = Some (entry_of st up perm tr found)) \<and>
    (res = None \<longrightarrow> page_entry (unsafe_pages s') st \<in> {None, Some (entry_of st perm perm tr [])})"
proof -
  let ?f = "scan_region (mem_at E s2) wl st (unat len)" and ?s = "s2\<lparr>erim_scan_mutex := False\<rparr>"
  have ent: "(entry_of st c d t v)\<lparr>up_address := st\<rparr> = entry_of st c d t v" for c d t v by (simp add: entry_of_def)
  have ok: "entries_kept (unsafe_pages s2) us \<Longrightarrow> scan_ok s2 (?s\<lparr>unsafe_pages := us\<rparr>)" for us
    by (cases s2) (simp add: scan_ok_def same_pm_def)
  have mem: "mem_at E (?s\<lparr>unsafe_pages := us\<rparr>) = mem_at E s2" "mem_at E ?s = mem_at E s2" for us
    by (rule mem_at_cong, simp)+
  show ?thesis
  proof (cases "?f = []")
    case False
    obtain i where "add_unsafe_page st up perm tr (Some ?f) ?s =
        Inr (i, ?s\<lparr>unsafe_pages := put_entry st (entry_of st up perm tr ?f) (unsafe_pages ?s)\<rparr>)"
      using add_unsafe_page_put [of st up perm tr ?f ?s] by blast
    with assms(1) False have "res = Some i" "pv' = pv"
      "s' = ?s\<lparr>unsafe_pages := put_entry st (entry_of st up perm tr ?f) (unsafe_pages ?s)\<rparr>"
      by (auto simp: scan_result_def Let_def)
    with False ok show ?thesis by (simp add: found_def mem page_entry_put ent put_entry_kept)
  next
    case True
    with assms(1) ok [of "unsafe_pages s2"] ok show ?thesis
      by (auto simp: scan_result_def Let_def update_unsafe_page_put found_def mem page_entry_put ent put_entry_kept split: if_splits)
  qed
qed

lemma lookup_scan_ok: "lookup_addr a cid s = Inr (r, s') \<Longrightarrow> scan_ok s s'"
  by (cases s) (auto simp: lookup_addr_def locked_Inr scan_ok_def same_pm_def sel_ok_def sud_defs)

lemma scan_prev_page_ok: "scan_prev_page st perm tr pv s = Inr (pp, tp, tc, s') \<Longrightarrow> scan_ok s s'"
  by (auto simp: scan_prev_page_def res_simps split: if_splits option.splits dest: lookup_scan_ok)

lemma scan_next_page_ok: "scan_next_page st tp tc s = Inr (np, tp2, tc2, s') \<Longrightarrow> scan_ok s s'"
  by (auto simp: scan_next_page_def res_simps split: if_splits option.splits dest: lookup_scan_ok)

lemma memScan_run:
  assumes run: "erim_memScanRegion E st len wl perm up tr pv s = Inr (res, pv', s')"
  defines "found \<equiv> scan_region (mem_at E s') wl st 4096"
  shows "scan_ok s s' \<and> \<not> erim_scan_mutex s' \<and> len = PAGE_SIZE \<and> (pv' = pv \<or> pv' = -1) \<and> (pv = 0 \<longrightarrow> pv' = 0) \<and>
    (res = None \<longleftrightarrow> found = []) \<and>
    (res \<noteq> None \<longrightarrow> page_entry (unsafe_pages s') st = Some (entry_of st up perm tr found)) \<and>
    (res = None \<longrightarrow> page_entry (unsafe_pages s') st \<in> {None, Some (entry_of st perm perm tr [])})"
proof -
  let ?s0 = "s\<lparr>erim_scan_mutex := True\<rparr>"
  from run obtain pp tp tc s1 np tp2 tc2 s2 pv3 s3 s4 where len: "len = PAGE_SIZE"
    and s1: "scan_prev_page st perm tr pv ?s0 = Inr (pp, tp, tc, s1)"
    and s2: "scan_next_page st tp tc s1 = Inr (np, tp2, tc2, s2)"
    and s3: "(if pp = 0 then Inr (pv, s2)
              else scan_prev E [st - 3, st - 2, st - 1] pp up perm tr tp2 tc2 (pv, s2)) = Inr (pv3, s3)"
    and s4: "(if np = 0 then Inr s3 else scan_next E [np, np + 1, np + 2, np + 3] np up perm tr tp2 tc2 s3) = Inr s4"
    and fin: "scan_result E st len wl perm up tr pv3 s4 = Inr (res, pv', s')"
    by (cases "erim_scan_mutex s") (auto simp: erim_memScanRegion_def res_simps)
  have "scan_ok s ?s0" by (cases s) (simp add: scan_ok_def same_pm_def)
  moreover have "scan_ok ?s0 s1" by (rule scan_prev_page_ok [OF s1])
  moreover have "scan_ok s1 s2" by (rule scan_next_page_ok [OF s2])
  moreover have "scan_ok s2 s3 \<and> (pv3 = pv \<or> pv3 = -1) \<and> (pv = 0 \<longrightarrow> pv3 = 0)"
    using s3 scan_prev_ok [of E "[st - 3, st - 2, st - 1]" pp up perm tr tp2 tc2 pv s2 pv3 s3]
    by (cases "pp = 0") (auto simp del: scan_prev.simps)
  moreover have "scan_ok s3 s4" 
    using s4 scan_next_ok [of E "[np, np + 1, np + 2, np + 3]" np up perm tr tp2 tc2 s3 s4]
    by (cases "np = 0") (auto simp del: scan_next.simps)
  ultimately have "scan_ok s s4 \<and> (pv3 = pv \<or> pv3 = -1) \<and> (pv = 0 \<longrightarrow> pv3 = 0)"
    by (blast intro: scan_ok_trans)
  with scan_finish [OF fin] len show ?thesis by (auto simp: found_def intro: scan_ok_trans)
qed

section \<open>Properties\<close>


definition demo_mem :: "addr \<Rightarrow> u8" where
  "demo_mem a = (if a = 5000 then 0x0f else if a = 5001 then 0x01 else if a = 5002 then 0xef else 0)"

lemma demo_mem_insn: "insn_at demo_mem p \<noteq> None \<longleftrightarrow> p = 5000"
  by (auto simp: insn_at_def demo_mem_def erim_isWRPKRU_def erim_isXRSTOR_def erim_isWRGSBASE32_def
      erim_isWRGSBASE64_def split: if_splits)

lemma demo_mem_at: "insn_at demo_mem 5000 = Some TYPE_WRPKRU"
  by (simp add: insn_at_def demo_mem_def erim_isWRPKRU_def)

lemma of_nat_5000: "i < 2 ^ 64 \<Longrightarrow> (4096 + of_nat i = (5000 :: addr)) \<longleftrightarrow> i = 904"
proof -
  assume i: "i < 2 ^ 64"
  have "(5000 :: addr) = 4096 + 904" by simp
  then have "(4096 + of_nat i = (5000 :: addr)) \<longleftrightarrow> (of_nat i = (904 :: addr))" by (simp only: add_left_cancel)
  also have "\<dots> \<longleftrightarrow> i = 904" 
    using i by (simp add: word_eq_nat unsigned_of_nat take_bit_nat_eq_self)
  finally show ?thesis .
qed



text \<open>
  The blind spot of the scanner: an instruction at the first byte of the scanned range is
  taken for the end of the scan, so whatever follows on the page is not reported. The same
  happens within a page to an instruction that directly follows another one.
\<close>

theorem scan_region_blind_spot:
  assumes "insn_at m st \<noteq> None \<or> 0 < f \<and> insn_at m (st + of_nat f) = Some ty \<and> insn_at m (st + of_nat (f + 3)) \<noteq> None \<and>
             (\<forall>i<f. insn_at m (st + of_nat i) = None)"
  shows "set (scan_region m wl st len) \<subseteq> {st + of_nat f}"
  using assms
proof
  assume "insn_at m st \<noteq> None"
  then show ?thesis by (simp add: scan_region_blind)
next
  assume f: "0 < f \<and> insn_at m (st + of_nat f) = Some ty \<and> insn_at m (st + of_nat (f + 3)) \<noteq> None \<and>
             (\<forall>i<f. insn_at m (st + of_nat i) = None)"
  show ?thesis
  proof (cases rule: scan_cases [of m st len])
    case clean
    then show ?thesis by (simp add: scan_region_clean)
  next
    case (hit ty' g)
    have "g = f" using hit(3) hit(4) [of f] f by (metis nat_neq_iff option.distinct(1))
    then show ?thesis using scan_region_hit [OF hit(1,2), of wl] f by (auto simp: scan_region_blind split: if_splits)
  qed
qed

definition demo_mem0 :: "addr \<Rightarrow> u8" where
  "demo_mem0 a = (if a = 4096 \<or> a = 4200 then 0x0f else if a = 4097 \<or> a = 4201 then 0x01
     else if a = 4098 \<or> a = 4202 then 0xef else 0)"

theorem scan_region_blind_spot_witness:
  "insn_at demo_mem0 4200 = Some TYPE_WRPKRU \<and> unsafe_insn demo_mem0 None TYPE_WRPKRU 4200 \<and>
   4200 \<notin> set (scan_region demo_mem0 None 4096 4096)"
proof -
  have "insn_at demo_mem0 4096 \<noteq> None"
    by (simp add: insn_at_def demo_mem0_def erim_isWRPKRU_def)
  then have "set (scan_region demo_mem0 None 4096 4096) \<subseteq> {4096 + of_nat 0}"
    by (intro scan_region_blind_spot disjI1)
  then show ?thesis
    by (auto simp: insn_at_def demo_mem0_def erim_isWRPKRU_def unsafe_insn_def isBenignWRPKRU_def)
qed

text \<open>
  A scan of a page that returns leaves the page list and the selector as they were, has
  released its mutex, has asked for no executable memory, returns no page exactly when the scan
  found nothing, and otherwise has recorded the page with the non-executable permission as
  current, the requested one as desired, and the instructions found.
\<close>

theorem memScanRegion_ok:
  assumes "erim_memScanRegion E st len wl perm up tr pv s = Inr (res, pv', s')" "sel_ok s"
  shows "pages s' = pages s \<and> sud_selector s' = sud_selector s \<and> \<not> erim_scan_mutex s' \<and>
    emits (\<lambda>c. \<not> exec_call c) s s' \<and>
    (res = None \<longleftrightarrow> scan_region (mem_at E s') wl st 4096 = []) \<and>
    (res \<noteq> None \<longrightarrow> page_entry (unsafe_pages s') st = Some (entry_of st up perm tr (scan_region (mem_at E s') wl st 4096)))"
  using memScan_run [OF assms(1)] assms(2) by (auto simp: scan_ok_def same_pm_def)

definition demo_scan_env :: env where
  "demo_scan_env = \<lparr>kernel = (\<lambda>t. 0), memory = (\<lambda>t. demo_mem0),
     page_perm = (\<lambda>t a. 3), page_key = (\<lambda>t a. 2)\<rparr>"

definition demo_erim :: erim where
  "demo_erim = \<lparr>trace = [], sud_selector = SUD_BLOCK, pages = [demo_page 65536 4096 3 0], free_pages = 10,
     pm_lock = False, is_multithreaded = False, unsafe_pages = [], erim_scan_mutex = False\<rparr>"

lemma demo_scan_clean: "scan_region demo_mem0 None 4096 4096 = []"
  by (rule scan_region_blind) (simp add: insn_at_def demo_mem0_def erim_isWRPKRU_def)

lemma mem_at_demo: "mem_at demo_scan_env s = demo_mem0"
  by (rule ext) (simp add: mem_at_def demo_scan_env_def)

lemma demo_scan_run: "\<exists>pv s'. erim_memScanRegion demo_scan_env 4096 4096 None 5 1 False 0 demo_erim = Inr (None, pv, s')"
  by (simp add: erim_memScanRegion_def demo_erim_def demo_page_def scan_prev_page_def scan_next_page_def lookup_addr_def
      locked_def sud_defs Let_def virt_page_overlap_byte_def scan_result_def mem_at_demo demo_scan_clean
      update_unsafe_page_def)

theorem memScanRegion_ok_witness:
  "\<exists>pv s'. erim_memScanRegion demo_scan_env 4096 4096 None 5 1 False 0 demo_erim = Inr (None, pv, s') \<and>
     pages s' = pages demo_erim \<and> emits (\<lambda>c. \<not> exec_call c) demo_erim s'"
proof -
  obtain pv s' where r: "erim_memScanRegion demo_scan_env 4096 4096 None 5 1 False 0 demo_erim = Inr (None, pv, s')"
    using demo_scan_run by blast
  have "sel_ok demo_erim" by (simp add: sel_ok_def demo_erim_def)
  from memScanRegion_ok [OF r this] r show ?thesis by blast
qed

primrec add_unsafe_pages :: "(addr \<times> page_note) list \<Rightarrow> 'z erim_scheme \<Rightarrow> 'z erim_scheme res" where
  "add_unsafe_pages [] s = Inr s"
| "add_unsafe_pages (e # es) s =
     (case e of (a, cur, des, tr, v) \<Rightarrow> rbind (add_unsafe_page a cur des tr (Some v) s) (\<lambda>(i, s). add_unsafe_pages es s))"

lemma add_unsafe_pages_puts:
  "add_unsafe_pages es s = Inr (s\<lparr>unsafe_pages := foldl (\<lambda>us (a, n). put_note a n us) (unsafe_pages s) es\<rparr>)"
proof (induction es arbitrary: s)
  case (Cons e es)
  obtain a cur des tr v where e: "e = (a, cur, des, tr, v)" by (cases e)
  obtain i where "add_unsafe_page a cur des tr (Some v) s =
      Inr (i, s\<lparr>unsafe_pages := put_entry a (entry_of a cur des tr v) (unsafe_pages s)\<rparr>)"
    using add_unsafe_page_put by blast
  with Cons show ?case by (simp add: e put_note_def)
qed simp



text \<open>
  Marking a page that the list already has as writable and executable, for which the callers
  pass a null vector, ends the process: \<open>update_unsafe_page\<close> takes the size of the null vector.
\<close>

theorem add_unsafe_page_null:
  assumes "page_entry (unsafe_pages s) a \<noteq> None"
  shows "add_unsafe_page a cur des tr None s = Inl NullDeref"
  using assms by (auto simp: add_unsafe_page_def update_unsafe_page_def find_entry_page_entry split: option.splits)

theorem add_unsafe_page_null_witness:
  "\<exists>s'. add_unsafe_page 4096 3 7 False None demo_erim = Inr (0, s') \<and> add_unsafe_page 4096 3 7 False None s' = Inl NullDeref"
proof -
  obtain s' where r: "add_unsafe_page 4096 3 7 False None demo_erim = Inr (0, s')"
    and e: "page_entry (unsafe_pages s') 4096 \<noteq> None"
    by (auto simp: add_unsafe_page_def update_unsafe_page_def demo_erim_def page_entry_def)
  from r add_unsafe_page_null [OF e] show ?thesis by blast
qed

text \<open>
  An instruction that crosses into an already listed page is appended to the vector of the page
  but not counted in \<open>unsafe_instructions_size\<close>, the number of breakpoints that are set for the page.
\<close>

theorem update_unsafe_instruction_uncounted:
  assumes "insn \<ge> a" "insn < a + PAGE_SIZE" "find_last_entry (page_of a) (unsafe_pages s) = Some i" "i < length (unsafe_pages s)"
    and "unsafe_instructions (unsafe_pages s ! i) = Some v" "insn \<notin> set v"
  shows "\<exists>s'. update_unsafe_instruction a insn cur des tr s = Inr s' \<and>
    unsafe_instructions (unsafe_pages s' ! i) = Some (v @ [insn]) \<and>
    unsafe_instructions_size (unsafe_pages s' ! i) = unsafe_instructions_size (unsafe_pages s ! i)"
  using assms by (simp add: update_unsafe_instruction_def)

theorem update_unsafe_instruction_uncounted_witness:
  "\<exists>s s'. update_unsafe_instruction 4096 8190 1 5 False (s :: erim) = Inr s' \<and> unsafe_instructions (unsafe_pages s' ! 0) = Some [5000, 8190] \<and>
     unsafe_instructions_size (unsafe_pages s' ! 0) = 1"
proof -
  let ?s = "demo_erim\<lparr>unsafe_pages := [entry_of 4096 1 5 False [5000]]\<rparr>"
  have "page_of 4096 = 4096" by (simp add: page_of_def)
  then have "\<exists>s'. update_unsafe_instruction 4096 8190 1 5 False ?s = Inr s' \<and>
    unsafe_instructions (unsafe_pages s' ! 0) = Some ([5000] @ [8190]) \<and>
    unsafe_instructions_size (unsafe_pages s' ! 0) = unsafe_instructions_size (unsafe_pages ?s ! 0)"
    by (intro update_unsafe_instruction_uncounted) (simp_all add: entry_of_def)
  then show ?thesis by (auto simp: entry_of_def)
qed

end
