(* ===== verification/Maps.thy ===== *)
theory Maps
  imports ErimFacts
begin

text \<open>
  The mapping services, \<open>src/src/syscall_handlers/virtualize_maps.cpp\<close>: mapping memory, scanning executable
  mappings, changing protections to executable, and moving mappings. They tie the page manager,
  the scanner and the kernel together.

  A \<open>size_t\<close> passed as \<open>int\<close> is truncated with \<open>ucast\<close>; an \<open>int\<close> passed to a system call is sign
  extended with \<open>scast\<close>. \<open>assert(f() == 0)\<close> runs \<open>f\<close> and then stops the process if the result is not 0.
\<close>

section \<open>Compartments and keys\<close>

abbreviation (input) SECPOLINE_MPKEY :: c_int where "SECPOLINE_MPKEY \<equiv> 0"
abbreviation (input) SECPOLINE_READONLY_MPKEY :: c_int where "SECPOLINE_READONLY_MPKEY \<equiv> 1"
abbreviation (input) UNTRUSTED_MPKEY :: c_int where "UNTRUSTED_MPKEY \<equiv> 2"
abbreviation (input) NULL_PTR_MPKEY :: c_int where "NULL_PTR_MPKEY \<equiv> 3"

definition get_pkey :: "c_int \<Rightarrow> c_int" where
  "get_pkey cid = (if cid = TS_MONITOR then SECPOLINE_MPKEY
     else if cid = TS_APPLICATION then UNTRUSTED_MPKEY else -1)"

definition get_cid :: "c_int \<Rightarrow> c_int" where
  "get_cid key = (if key = SECPOLINE_MPKEY \<or> key = SECPOLINE_READONLY_MPKEY then TS_MONITOR
     else if key = UNTRUSTED_MPKEY then TS_APPLICATION else -1)"

abbreviation (input) MAP_HUGETLB :: u64 where "MAP_HUGETLB \<equiv> 0x40000"
abbreviation (input) MREMAP_MAYMOVE :: c_int where "MREMAP_MAYMOVE \<equiv> 1"
abbreviation (input) MREMAP_FIXED :: c_int where "MREMAP_FIXED \<equiv> 2"
abbreviation (input) MREMAP_DONTUNMAP :: c_int where "MREMAP_DONTUNMAP \<equiv> 4"

section \<open>Pairs of a page manager update and a kernel call\<close>

text \<open>\<open>assert(page_manager.add_page(..)==0); assert(inline_syscall6(__NR_pkey_mprotect, ..)==0);\<close>\<close>

definition add_group :: "env \<Rightarrow> addr \<Rightarrow> u64 \<Rightarrow> c_int \<Rightarrow> c_int \<Rightarrow> c_int \<Rightarrow> bool \<Rightarrow> c_int
    \<Rightarrow> 'z vpm_scheme \<Rightarrow> 'z vpm_scheme res" where
  "add_group E st sz pr fl cid map_fixed key s =
     rbind (add_page E st sz pr fl cid map_fixed s)
       (\<lambda>(r, s). nolibc_assert (r = 0)
         (let (r, s) = inline_syscall6 E NR_pkey_mprotect st sz (scast pr) (scast key) 0 0 s
          in nolibc_assert (r = 0) (Inr s)))"

text \<open>\<open>assert(syscall_wrapper(__NR_mprotect, ..)==0); assert(page_manager.update_mprotect(..)==0);\<close>\<close>

definition mprotect_group :: "env \<Rightarrow> addr \<Rightarrow> u64 \<Rightarrow> c_int \<Rightarrow> c_int \<Rightarrow> 'z vpm_scheme \<Rightarrow> 'z vpm_scheme res" where
  "mprotect_group E st sz pr cid s =
     (let (r, s) = syscall_wrapper E NR_mprotect st sz (scast pr) 0 0 0 cid s
      in nolibc_assert (r = 0)
        (rbind (update_mprotect E st sz pr cid s) (\<lambda>(r, s). nolibc_assert (r = 0) (Inr s))))"

section \<open>Walking over the pages of a range\<close>

text \<open>\<open>for(char* page = start; page < start+size; page += PAGE_SIZE)\<close>. The bound on the number of
  iterations is exact for a range that does not wrap.\<close>

primrec page_loop :: "nat \<Rightarrow> addr \<Rightarrow> addr \<Rightarrow> addr list" where
  "page_loop 0 a en = []"
| "page_loop (Suc n) a en = (if a < en then a # page_loop n (a + PAGE_SIZE) en else [])"

definition page_addrs :: "addr \<Rightarrow> u64 \<Rightarrow> addr list" where
  "page_addrs st sz = page_loop (Suc (unat sz div 4096)) st (st + sz)"

section \<open>Scanning a new executable mapping\<close>

text \<open>The local variables of the loop: \<open>start_group\<close> (0 for null), \<open>group_size\<close> and \<open>prev_page\<close>.\<close>

record scan_vars =
  start_group :: addr
  group_size :: u64
  prev_page :: addr

fun scan_exec_loop :: "env \<Rightarrow> addr list \<Rightarrow> c_int \<Rightarrow> c_int \<Rightarrow> c_int \<Rightarrow> bool \<Rightarrow> c_int \<Rightarrow> c_int \<Rightarrow> u64 list option
    \<Rightarrow> scan_vars \<times> 'z erim_scheme \<Rightarrow> (scan_vars \<times> 'z erim_scheme) res" where
  "scan_exec_loop E [] prot unsafe_prot flags map_fixed cid key allow (v, s) = Inr (v, s)"
| "scan_exec_loop E (page # rest) prot unsafe_prot flags map_fixed cid key allow (v, s) =
     nolibc_assert (start_group v = 0 \<longrightarrow> group_size v = 0)
     (let v = (if start_group v = 0 then v\<lparr>start_group := page\<rparr> else v) in
      rbind (erim_memScanRegion E page PAGE_SIZE allow prot (prot AND NOT PROT_EXEC) False (prev_page v) s)
      (\<lambda>(erim_ret, prev, s).
        rbind
          (if prev = -1 \<and> group_size v \<noteq> 0
           then rbind (add_group E (page - PAGE_SIZE) PAGE_SIZE unsafe_prot flags cid map_fixed key s)
                  (\<lambda>s. Inr (v\<lparr>group_size := group_size v - PAGE_SIZE\<rparr>, s))
           else Inr (v, s))
        (\<lambda>(v, s). rbind
          (if (erim_ret \<noteq> None \<or> prev = -1) \<and> group_size v \<noteq> 0
           then rbind (add_group E (start_group v) (group_size v) prot flags cid map_fixed key s)
                  (\<lambda>s. Inr (v\<lparr>group_size := 0, start_group := page\<rparr>, s))
           else Inr (v, s))
        (\<lambda>(v, s). rbind
          (if erim_ret \<noteq> None
           then rbind (add_group E page PAGE_SIZE unsafe_prot flags cid map_fixed key s)
                  (\<lambda>s. Inr (\<lparr>start_group = 0, group_size = 0, prev_page = page\<rparr>, s))
           else Inr (v\<lparr>prev_page := page, group_size := group_size v + PAGE_SIZE\<rparr>, s))
        (scan_exec_loop E rest prot unsafe_prot flags map_fixed cid key allow)))))"

definition scan_exec_mapping :: "env \<Rightarrow> addr \<Rightarrow> u64 \<Rightarrow> c_int \<Rightarrow> c_int \<Rightarrow> c_int \<Rightarrow> bool \<Rightarrow> c_int \<Rightarrow> u64 list option
    \<Rightarrow> 'z erim_scheme \<Rightarrow> 'z erim_scheme res" where
  "scan_exec_mapping E st sz prot unsafe_prot flags map_fixed cid allow s =
     (let key = get_pkey cid in
      if key = -1 then Inr s
      else rbind (scan_exec_loop E (page_addrs st sz) prot unsafe_prot flags map_fixed cid key allow
                    (\<lparr>start_group = 0, group_size = 0, prev_page = 0\<rparr>, s))
        (\<lambda>(v, s). if group_size v = 0 then Inr s
                  else add_group E (start_group v) (group_size v) prot flags cid map_fixed key s))"

text \<open>The same walk over memory that is already mapped; the group is not reset after its first part
  has been made executable.\<close>

fun scan_mprotect_loop :: "env \<Rightarrow> addr list \<Rightarrow> c_int \<Rightarrow> c_int \<Rightarrow> c_int \<Rightarrow> u64 list option
    \<Rightarrow> scan_vars \<times> 'z erim_scheme \<Rightarrow> (scan_vars \<times> 'z erim_scheme) res" where
  "scan_mprotect_loop E [] prot unsafe_prot cid allow (v, s) = Inr (v, s)"
| "scan_mprotect_loop E (page # rest) prot unsafe_prot cid allow (v, s) =
     nolibc_assert (start_group v = 0 \<longrightarrow> group_size v = 0)
     (let v = (if start_group v = 0 then v\<lparr>start_group := page\<rparr> else v) in
      rbind (erim_memScanRegion E page PAGE_SIZE allow prot (prot AND NOT PROT_EXEC) False (prev_page v) s)
      (\<lambda>(erim_ret, prev, s).
        rbind
          (if prev = -1 \<and> group_size v \<noteq> 0
           then rbind (mprotect_group E (page - PAGE_SIZE) PAGE_SIZE unsafe_prot cid s)
                  (\<lambda>s. Inr (v\<lparr>group_size := group_size v - PAGE_SIZE\<rparr>, s))
           else Inr (v, s))
        (\<lambda>(v, s). rbind
          (if (erim_ret \<noteq> None \<or> prev = -1) \<and> group_size v \<noteq> 0
           then rbind (mprotect_group E (start_group v) (group_size v) prot cid s) (\<lambda>s. Inr (v, s))
           else Inr (v, s))
        (\<lambda>(v, s). rbind
          (if erim_ret \<noteq> None
           then rbind (mprotect_group E page PAGE_SIZE unsafe_prot cid s)
                  (\<lambda>s. Inr (\<lparr>start_group = 0, group_size = 0, prev_page = page\<rparr>, s))
           else Inr (v\<lparr>prev_page := page, group_size := group_size v + PAGE_SIZE\<rparr>, s))
        (scan_mprotect_loop E rest prot unsafe_prot cid allow)))))"

definition scan_exec_mapping_mprotect :: "env \<Rightarrow> addr \<Rightarrow> u64 \<Rightarrow> c_int \<Rightarrow> c_int \<Rightarrow> c_int \<Rightarrow> u64 list option
    \<Rightarrow> 'z erim_scheme \<Rightarrow> 'z erim_scheme res" where
  "scan_exec_mapping_mprotect E st sz prot unsafe_prot cid allow s =
     (if get_pkey cid = -1 then Inr s
      else rbind (scan_mprotect_loop E (page_addrs st sz) prot unsafe_prot cid allow
                    (\<lparr>start_group = 0, group_size = 0, prev_page = 0\<rparr>, s))
        (\<lambda>(v, s). if group_size v = 0 then Inr s
                  else mprotect_group E (start_group v) (group_size v) prot cid s))"

section \<open>Mapping memory\<close>

text \<open>
  The read loop of \<open>map_file_baked\<close>. \<open>curlen\<close> is unsigned, so the assertion that it is not negative
  always holds. The loop is bounded by the size, which suffices when every successful read
  returns at least one byte.
\<close>

primrec read_loop :: "env \<Rightarrow> nat \<Rightarrow> u64 \<Rightarrow> addr \<Rightarrow> u64 \<Rightarrow> u64 \<Rightarrow> 'z kern_scheme \<Rightarrow> 'z kern_scheme res" where
  "read_loop E 0 fd dst sz readlen s = (if readlen < sz then Inl NoFuel else Inr s)"
| "read_loop E (Suc n) fd dst sz readlen s =
     (if readlen < sz
      then let (curlen, s) = inline_syscall6 E NR_read fd (dst + readlen) (sz - readlen) 0 0 0 s
           in if curlen = 0 then Inr s else read_loop E n fd dst sz (readlen + curlen) s
      else Inr s)"

text \<open>The results of \<open>lseek\<close> are unsigned too: the checks for a negative offset never fail.\<close>

definition map_file_baked :: "env \<Rightarrow> addr \<Rightarrow> u64 \<Rightarrow> u64 \<Rightarrow> u64 \<Rightarrow> c_int \<Rightarrow> u64 \<Rightarrow> c_int
    \<Rightarrow> 'z kern_scheme \<Rightarrow> (u64 \<times> 'z kern_scheme) res" where
  "map_file_baked E st sz prot flags fd offset cid s =
     (let (result, s) = syscall_wrapper E NR_mmap st sz (scast (PROT_WRITE OR PROT_READ))
            (flags OR scast MAP_ANONYMOUS) (-1) 0 cid s
      in if result <s 0 then Inr (result, s)
         else
           let (cur, s) = syscall_wrapper E NR_lseek (scast fd) 0 1 0 0 0 cid s;
               (ret, s) = syscall_wrapper E NR_lseek (scast fd) offset 0 0 0 0 cid s
           in rbind (read_loop E (unat sz) (scast fd) result sz 0 s)
                (\<lambda>s. let (ret, s) = syscall_wrapper E NR_lseek (scast fd) cur 0 0 0 0 cid s
                     in Inr (result, s)))"

text \<open>\<open>for(..) add_unsafe_page(address, prot, prot|PROT_EXEC, .., NULL)\<close>\<close>

primrec mark_wx_pages :: "addr list \<Rightarrow> c_int \<Rightarrow> bool \<Rightarrow> 'z erim_scheme \<Rightarrow> 'z erim_scheme res" where
  "mark_wx_pages [] prot trusted s = Inr s"
| "mark_wx_pages (a # as) prot trusted s =
     rbind (add_unsafe_page a prot (prot OR PROT_EXEC) trusted None s) (\<lambda>(i, s). mark_wx_pages as prot trusted s)"

text \<open>\<open>if(cid == TS_MONITOR) set_sud_block(); .. if(cid == TS_MONITOR) set_sud_allow();\<close>\<close>

definition with_block :: "c_int \<Rightarrow> ('z kern_scheme \<Rightarrow> 'z kern_scheme res) \<Rightarrow> 'z kern_scheme \<Rightarrow> 'z kern_scheme res" where
  "with_block cid body s =
     rbind (body (if cid = TS_MONITOR then set_sud_block s else s))
       (\<lambda>s. Inr (if cid = TS_MONITOR then set_sud_allow s else s))"

definition secpoline_mmap :: "env \<Rightarrow> addr \<Rightarrow> u64 \<Rightarrow> u64 \<Rightarrow> u64 \<Rightarrow> c_int \<Rightarrow> u64 \<Rightarrow> c_int
    \<Rightarrow> 'z erim_scheme \<Rightarrow> (u64 \<times> 'z erim_scheme) res" where
  "secpoline_mmap E st sz prot flags fd offset cid s =
     (let key = get_pkey cid in
      nolibc_assert (cid = TS_MONITOR \<longrightarrow> sud_selector s = SUD_ALLOW)
      (if key = -1 then Inr (- EINVAL, s)
       else
        let is_exec = (prot AND 4 \<noteq> 0); is_write = (prot AND 2 \<noteq> 0); real_prot = (ucast prot :: c_int) in
        nolibc_assert (flags AND MAP_HUGETLB = 0)
        (if sz = 0 \<or> \<not> page_aligned st then Inr (- EINVAL, s)
         else
          let flags = flags OR scast MAP_PRIVATE; fixed = (flags AND scast MAP_FIXED \<noteq> 0) in
          rbind
            (if fixed
             then if is_multithreaded s
                  then rbind (lookup_range st sz cid s) (\<lambda>(g, s). Inr (g = None, s))
                  else rbind (lookup_range_allow_gaps st sz cid s) (\<lambda>(r, s). Inr (r = -1, s))
             else Inr (False, s))
          (\<lambda>(refused, s).
            if refused then Inr (- EINVAL, s)
            else
              let prot = (if is_exec \<and> \<not> is_write then scast PROT_READ else prot);
                  prot = (if is_exec \<and> is_write then prot AND NOT 4 else prot)
              in rbind
                (if fd \<noteq> -1 \<and> fd \<noteq> 0 then map_file_baked E st sz prot flags fd offset cid s
                 else Inr (syscall_wrapper E NR_mmap st sz prot flags (-1) 0 cid s))
              (\<lambda>(result, s).
                if result \<le>s 0 then Inr (result, s)
                else if is_exec \<and> \<not> is_write
                  then rbind (with_block cid (scan_exec_mapping E result sz real_prot (real_prot AND NOT PROT_EXEC)
                                (ucast flags) fixed cid None) s)
                         (\<lambda>s. Inr (result, s))
                else rbind (add_page E result sz (ucast prot) (ucast flags) cid fixed s)
                  (\<lambda>(r, s). nolibc_assert (r = 0)
                    (let (r, s) = syscall_wrapper E NR_pkey_mprotect result sz prot (scast key) 0 0 cid s
                     in nolibc_assert (r = 0)
                       (if is_exec \<and> is_write
                        then rbind (with_block cid (mark_wx_pages (page_addrs result sz) (ucast prot) (cid = TS_MONITOR)) s)
                               (\<lambda>s. Inr (result, s))
                        else Inr (result, s)))))))))"

section \<open>Moving and resizing mappings\<close>

definition handle_mremap :: "env \<Rightarrow> addr \<Rightarrow> u64 \<Rightarrow> u64 \<Rightarrow> c_int \<Rightarrow> addr \<Rightarrow> c_int
    \<Rightarrow> 'z vpm_scheme \<Rightarrow> (u64 \<times> 'z vpm_scheme) res" where
  "handle_mremap E st old_size new_size flags new_start cid s =
     (if old_size = 0 \<or> new_size = 0 then Inr (- EINVAL, s)
      else if \<not> page_aligned st then Inr (- EINVAL, s)
      else if flags AND MREMAP_FIXED \<noteq> 0 \<and> \<not> page_aligned new_start then Inr (- EINVAL, s)
      else if \<not> page_aligned old_size \<or> \<not> page_aligned new_size then Inr (- EINVAL, s)
      else if flags AND MREMAP_MAYMOVE = 0 then
        (if flags AND MREMAP_FIXED \<noteq> 0 \<or> flags AND MREMAP_DONTUNMAP \<noteq> 0 then Inr (- EINVAL, s)
         else rbind (update_size E st old_size new_size cid s)
           (\<lambda>(r, s). if r = 0
              then let (r, s) = syscall_wrapper E NR_mremap st old_size new_size (scast flags) 0 0 cid s
                   in nolibc_assert (r = st) (Inr (st, s))
              else Inr (- EFAULT, s)))
      else if flags AND MREMAP_FIXED = 0 then
        rbind (update_size E st old_size new_size cid s)
          (\<lambda>(res, s).
             if res = 0
             then let (r, s) = syscall_wrapper E NR_mremap st old_size new_size (scast flags) 0 0 cid s
                  in nolibc_assert (r = st) (Inr (st, s))
             else if res = -2
             then rbind (lookup_addr st cid s)
               (\<lambda>(g, s). case g of
                    None \<Rightarrow> Inr (- EINVAL, s)
                  | Some current_page \<Rightarrow>
                      rbind (if flags AND MREMAP_DONTUNMAP = 0
                             then rbind (remove_page E st old_size cid s) (\<lambda>(r, s). Inr (r \<noteq> 0, s))
                             else rbind (lookup_range st old_size cid s) (\<lambda>(g, s). Inr (g = None, s)))
                      (\<lambda>(failed, s).
                         if failed then Inr (- EFAULT, s)
                         else let (new_addr, s) = syscall_wrapper E NR_mremap st old_size new_size (scast flags) 0 0 cid s
                              in nolibc_assert (new_addr > 0)
                                (rbind (add_page E new_addr new_size (vp_prot current_page) flags cid False s)
                                  (\<lambda>(r, s). nolibc_assert (r = 0) (Inr (new_addr, s))))))
             else Inr (- EFAULT, s))
      else
        rbind (lookup_addr st cid s)
          (\<lambda>(g, s). case g of
               None \<Rightarrow> Inr (- EINVAL, s)
             | Some current_page \<Rightarrow>
                 rbind (lookup_range new_start new_size cid s)
                 (\<lambda>(g, s). if g \<noteq> None then Inr (- EFAULT, s)
                    else rbind (if flags AND MREMAP_DONTUNMAP = 0
                             then rbind (remove_page E st old_size cid s) (\<lambda>(r, s). Inr (r \<noteq> 0, s))
                             else rbind (lookup_range st old_size cid s) (\<lambda>(g, s). Inr (g = None, s)))
                      (\<lambda>(failed, s).
                         if failed then Inr (- EFAULT, s)
                         else let (new_addr, s) = syscall_wrapper E NR_mremap st old_size new_size (scast flags) new_start 0 cid s
                              in nolibc_assert (new_addr > 0)
                                (rbind (add_page E new_addr new_size (vp_prot current_page) cid flags False s)
                                  (\<lambda>(r, s). nolibc_assert (r = 0) (Inr (new_addr, s))))))))"

definition handle_mremap_exec :: "env \<Rightarrow> addr \<Rightarrow> u64 \<Rightarrow> u64 \<Rightarrow> c_int \<Rightarrow> addr \<Rightarrow> c_int \<Rightarrow> c_int
    \<Rightarrow> 'z erim_scheme \<Rightarrow> (u64 \<times> 'z erim_scheme) res" where
  "handle_mremap_exec E st old_size new_size flags new_start prot cid s =
     (let (r, s) = syscall_wrapper E NR_mprotect st old_size (scast PROT_READ) 0 0 0 cid s in
      if r \<noteq> 0 then Inr (- EINVAL, s)
      else rbind (handle_mremap E st old_size new_size flags new_start cid s)
        (\<lambda>(res, s). nolibc_assert (res > 0)
          (rbind (if flags AND MREMAP_DONTUNMAP = 0 then Inr s
                  else scan_exec_mapping_mprotect E st old_size prot (prot AND NOT PROT_EXEC) cid None s)
            (\<lambda>s. rbind (scan_exec_mapping_mprotect E res new_size prot (prot AND NOT PROT_EXEC) cid None s)
              (\<lambda>s. Inr (res, s))))))"

end
