(* ===== verification/MapsFacts.thy ===== *)
theory MapsFacts
  imports Maps
begin

text \<open>
  Executable memory and the mapping services. The history of a run shows which pages were scanned
  clean before the kernel was asked to make memory executable; \<open>scanned_run\<close> says that all such
  requests of a run are covered by scans. The two scanning loops are treated once, in the locale
  \<open>exec_walk\<close>, and carried over to both by interpretation; \<open>secpoline_mmap\<close> and the calls it makes follow.
\<close>

section \<open>Executable memory is scanned first\<close>

text \<open>The pages a call covers, the pages whose scan found nothing at some point of a run, and the
  calls for executable memory that are covered by such scans.\<close>

definition covered :: "scall \<Rightarrow> addr set" where
  "covered c = {sc_a1 c + of_nat (4096 * i) | i. 4096 * i < unat (sc_a2 c)}"

definition clean_in :: "env \<Rightarrow> u64 list option \<Rightarrow> 'z kern_scheme \<Rightarrow> 'z kern_scheme \<Rightarrow> addr set" where
  "clean_in E wl s s' = {q. \<exists>t x y. trace s' = x @ t \<and> t = y @ trace s \<and> scan_region (memory E t) wl q 4096 = []}"

definition scanned_call :: "env \<Rightarrow> u64 list option \<Rightarrow> c_int \<Rightarrow> 'z kern_scheme \<Rightarrow> 'z kern_scheme \<Rightarrow> scall \<Rightarrow> bool" where
  "scanned_call E wl pr s s' c \<longleftrightarrow> (exec_call c \<longrightarrow> sc_a3 c = scast pr \<and> covered c \<subseteq> clean_in E wl s s')"

lemma clean_in_mono:
  assumes "emits P s1 s2"
  shows "clean_in E wl s s1 \<subseteq> clean_in E wl s s2"
proof -
  obtain new where n: "trace s2 = new @ trace s1" using assms by (auto simp: emits_def)
  show ?thesis
  proof
    fix q assume "q \<in> clean_in E wl s s1"
    then obtain t x y where "trace s1 = x @ t" "t = y @ trace s" "scan_region (memory E t) wl q 4096 = []"
      by (auto simp: clean_in_def)
    with n have "trace s2 = (new @ x) @ t" "t = y @ trace s" "scan_region (memory E t) wl q 4096 = []" by simp_all
    then show "q \<in> clean_in E wl s s2" unfolding clean_in_def by blast
  qed
qed

lemma emits_scanned_mono:
  assumes "emits (scanned_call E wl pr s0 s1) s s1" "emits P s1 s2"
  shows "emits (scanned_call E wl pr s0 s2) s s1"
proof (rule emits_mono [OF assms(1)])
  fix c assume "scanned_call E wl pr s0 s1 c"
  with clean_in_mono [OF assms(2), of E wl s0] show "scanned_call E wl pr s0 s2 c"
    unfolding scanned_call_def by blast
qed

text \<open>What adding a group of memory asks the kernel for.\<close>

lemma add_group_emits:
  assumes "add_group E st sz pr fl cid mf key s = Inr s'"
  shows "emits (\<lambda>c. exec_call c \<longrightarrow> sc_a1 c = st \<and> sc_a2 c = sz \<and> sc_a3 c = scast pr) s s'"
proof -
  from assms obtain s1 where a: "add_page E st sz pr fl cid mf s = Inr (0, s1)"
    and k: "(let (r, s) = inline_syscall6 E NR_pkey_mprotect st sz (scast pr) (scast key) 0 0 s1
          in nolibc_assert (r = 0) (Inr s)) = Inr s'"
    by (auto simp: add_group_def rbind_eq_Inr nolibc_assert_eq_Inr)
  from k have "emits (\<lambda>c. exec_call c \<longrightarrow> sc_a1 c = st \<and> sc_a2 c = sz \<and> sc_a3 c = scast pr) s1 s'"
    by (auto simp: syscall_defs Let_def nolibc_assert_eq_Inr emits_def)
  with add_page_emits [OF a] show ?thesis by (blast intro: emits_trans emits_mono)
qed

lemma mprotect_group_emits:
  assumes "mprotect_group E st sz pr cid s = Inr s'"
  shows "emits (\<lambda>c. exec_call c \<longrightarrow> sc_a1 c = st \<and> sc_a2 c = sz \<and> sc_a3 c = scast pr) s s'"
proof -
  obtain r1 s1 where k: "syscall_wrapper E NR_mprotect st sz (scast pr) 0 0 0 cid s = (r1, s1)" by fastforce
  from assms k obtain r2 where u: "update_mprotect E st sz pr cid s1 = Inr (r2, s')"
    by (auto simp: mprotect_group_def rbind_eq_Inr nolibc_assert_eq_Inr)
  have "emits (\<lambda>c. exec_call c \<longrightarrow> sc_a1 c = st \<and> sc_a2 c = sz \<and> sc_a3 c = scast pr) s s1"
    by (rule syscall_wrapper_emits [OF k]) simp
  with update_mprotect_emits [OF u] show ?thesis by (blast intro: emits_trans emits_mono)
qed

lemma covered_group:
  assumes "sc_a1 c = st" "sc_a2 c = of_nat (4096 * k)" "\<And>i. i < k \<Longrightarrow> st + of_nat (4096 * i) \<in> C"
  shows "covered c \<subseteq> C"
proof
  fix q assume "q \<in> covered c"
  then obtain i where q: "q = st + of_nat (4096 * i)" and i: "4096 * i < unat (of_nat (4096 * k) :: u64)"
    using assms(1,2) by (auto simp: covered_def)
  have "unat (of_nat (4096 * k) :: u64) \<le> 4096 * k" 
    by (simp only: unsigned_of_nat of_nat_id take_bit_nat_less_eq_self)
  with i have "i < k" by simp
  with q assms(3) show "q \<in> C" by simp
qed

text \<open>A run so far, from \<open>s0\<close> to \<open>s\<close>, in which executable memory was only asked for with protection
  \<open>pr\<close> and over clean pages; how it continues.\<close>

definition scanned_run :: "env \<Rightarrow> u64 list option \<Rightarrow> c_int \<Rightarrow> 'z kern_scheme \<Rightarrow> 'z kern_scheme \<Rightarrow> bool" where
  "scanned_run E wl pr s0 s \<longleftrightarrow> emits (scanned_call E wl pr s0 s) s0 s"

lemma scanned_run_refl: "scanned_run E wl pr s s"
  by (simp add: scanned_run_def)

lemma scanned_run_step:
  assumes "scanned_run E wl pr s0 s" "emits P s s'"
    and "\<And>c. P c \<Longrightarrow> exec_call c \<Longrightarrow> sc_a3 c = scast pr \<and> covered c \<subseteq> clean_in E wl s0 s'"
  shows "scanned_run E wl pr s0 s'"
  using emits_trans [OF emits_scanned_mono [OF assms(1) [unfolded scanned_run_def] assms(2)]
      emits_mono [OF assms(2), of "scanned_call E wl pr s0 s'"]] assms(3)
  by (simp add: scanned_run_def scanned_call_def)

lemma scanned_run_noexec:
  "scanned_run E wl pr s0 s \<Longrightarrow> emits (\<lambda>c. \<not> exec_call c) s s' \<Longrightarrow> scanned_run E wl pr s0 s'"
  by (rule scanned_run_step [of E wl pr s0 s "\<lambda>c. \<not> exec_call c"]) auto

lemma scanned_run_group:
  assumes "scanned_run E wl pr s0 s" "covered (SCall via sel nr st sz a3 a4 a5 a6) \<subseteq> clean_in E wl s0 s"
    and "emits (\<lambda>c. exec_call c \<longrightarrow> sc_a1 c = st \<and> sc_a2 c = sz \<and> sc_a3 c = scast pr) s s'"
  shows "scanned_run E wl pr s0 s'"
  using assms clean_in_mono [OF assms(3), of E wl s0]
  by (intro scanned_run_step [OF assms(1,3)]) (auto simp: covered_def)

lemma scanned_run_unsafe:
  assumes "scanned_run E wl pr s0 s" "\<not> bit (up :: c_int) 2"
    and "emits (\<lambda>c. exec_call c \<longrightarrow> sc_a1 c = st \<and> sc_a2 c = sz \<and> sc_a3 c = scast up) s s'"
  shows "scanned_run E wl pr s0 s'"
  using assms(1,3) by (rule scanned_run_step) (use assms(2) in \<open>auto simp: exec_call_def scast_and_bit\<close>)

text \<open>The invariant of the two scanning loops before the page \<open>a\<close>: all pages from the start of the
  group up to \<open>a\<close> have been scanned and found clean, and the group is not longer than that.\<close>

definition group_upto :: "addr set \<Rightarrow> addr \<Rightarrow> scan_vars \<Rightarrow> bool" where
  "group_upto C a v \<longleftrightarrow> (\<exists>n k. k \<le> n \<and> group_size v = of_nat (4096 * k) \<and> a = start_group v + of_nat (4096 * n) \<and>
        (\<forall>i<n. start_group v + of_nat (4096 * i) \<in> C))"

definition group_inv :: "addr set \<Rightarrow> addr \<Rightarrow> scan_vars \<Rightarrow> bool" where
  "group_inv C a v \<longleftrightarrow> (start_group v = 0 \<and> group_size v = 0) \<or> group_upto C a v"

lemma group_upto_mono: "group_upto C a v \<Longrightarrow> C \<subseteq> D \<Longrightarrow> group_upto D a v"
  unfolding group_upto_def by blast

lemma group_upto_covered:
  assumes "group_upto C a v"
  shows "covered (SCall via sel nr (start_group v) (group_size v) a3 a4 a5 a6) \<subseteq> C"
proof -
  obtain n k where "k \<le> n" "group_size v = of_nat (4096 * k)" "\<forall>i<n. start_group v + of_nat (4096 * i) \<in> C"
    using assms by (auto simp: group_upto_def)
  then show ?thesis by (intro covered_group [of _ "start_group v" k]) auto
qed

lemma group_upto_start:
  "group_inv C a v \<Longrightarrow> (start_group v = 0 \<longrightarrow> group_size v = 0) \<Longrightarrow>
     group_upto C a (if start_group v = 0 then v\<lparr>start_group := a\<rparr> else v)"
  by (cases "start_group v = 0") (auto simp: group_inv_def group_upto_def intro!: exI [of _ 0])

lemma group_upto_shrink:
  assumes "group_upto C a v" "group_size v \<noteq> 0"
  shows "group_upto C a (v\<lparr>group_size := group_size v - PAGE_SIZE\<rparr>)"
proof -
  obtain n k where nk: "k \<le> n" "group_size v = of_nat (4096 * k)" "a = start_group v + of_nat (4096 * n)"
    "\<forall>i<n. start_group v + of_nat (4096 * i) \<in> C"
    using assms(1) by (auto simp: group_upto_def)
  then obtain j where j: "k = Suc j" using assms(2) by (cases k) auto
  then have "group_size v - PAGE_SIZE = of_nat (4096 * j)" using nk(2) by (simp add: algebra_simps)
  with nk j show ?thesis unfolding group_upto_def
    by (intro exI [of _ n] exI [of _ j]) simp
qed

lemma group_upto_new: "group_upto C a (v\<lparr>group_size := 0, start_group := a\<rparr>)"
  unfolding group_upto_def by (intro exI [of _ 0]) simp

lemma group_upto_grow:
  assumes "group_upto C a v" "a \<in> C"
  shows "group_upto C (a + PAGE_SIZE) (v\<lparr>prev_page := p, group_size := group_size v + PAGE_SIZE\<rparr>)"
proof -
  obtain n k where nk: "k \<le> n" "group_size v = of_nat (4096 * k)" "a = start_group v + of_nat (4096 * n)"
    "\<forall>i<n. start_group v + of_nat (4096 * i) \<in> C"
    using assms(1) by (auto simp: group_upto_def)
  have "group_size v + PAGE_SIZE = of_nat (4096 * Suc k)" using nk(2) by (simp add: algebra_simps)
  moreover have "a + PAGE_SIZE = start_group v + of_nat (4096 * Suc n)" using nk(3) by (simp add: algebra_simps)
  moreover have "\<forall>i<Suc n. start_group v + of_nat (4096 * i) \<in> C"
    using nk(3,4) assms(2) by (auto simp: less_Suc_eq)
  ultimately show ?thesis unfolding group_upto_def using nk(1)
    by (intro exI [of _ "Suc n"] exI [of _ "Suc k"]) simp
qed

lemma clean_in_scan:
  assumes "erim_memScanRegion E a sz wl pr up tr pv s = Inr (None, pv', s')" "emits P s0 s"
  shows "a \<in> clean_in E wl s0 s'"
proof -
  have m: "scan_region (mem_at E s') wl a 4096 = []" and o: "emits (\<lambda>c. \<not> exec_call c) s s'"
    using memScan_run [OF assms(1)] by (auto simp: scan_ok_def)
  from o assms(2) obtain y where "trace s' = y @ trace s0" by (auto simp: emits_def)
  moreover have "mem_at E s' = memory E (trace s')" by (rule ext) (simp add: mem_at_def)
  ultimately have "trace s' = [] @ trace s' \<and> trace s' = y @ trace s0 \<and> scan_region (memory E (trace s')) wl a 4096 = []"
    using m by simp
  then show ?thesis unfolding clean_in_def by blast
qed

lemma scanned_run_emits: "scanned_run E wl pr s0 s \<Longrightarrow> \<exists>P. emits P s0 s"
  unfolding scanned_run_def by blast

text \<open>The first half of an iteration, which both loops share: the scan of the page.\<close>

lemma scan_iter:
  assumes scan: "erim_memScanRegion E a PAGE_SIZE wl pr up tr (prev_page v) s = Inr (ret, prev, s1)"
    and run: "scanned_run E wl pr s0 s" and inv: "group_upto (clean_in E wl s0 s) a v"
  shows "scanned_run E wl pr s0 s1 \<and> group_upto (clean_in E wl s0 s1) a v \<and> (ret = None \<longrightarrow> a \<in> clean_in E wl s0 s1)"
proof -
  have o: "emits (\<lambda>c. \<not> exec_call c) s s1" using memScan_run [OF scan] by (auto simp: scan_ok_def)
  obtain P where "emits P s0 s" using scanned_run_emits [OF run] by blast
  with scan have "ret = None \<longrightarrow> a \<in> clean_in E wl s0 s1" by (auto intro: clean_in_scan)
  with scanned_run_noexec [OF run o] group_upto_mono [OF inv clean_in_mono [OF o]] show ?thesis by blast
qed

lemma group_step_unsafe:
  assumes "scanned_run E wl pr s0 s" "group_upto (clean_in E wl s0 s) a v" "\<not> bit (up :: c_int) 2"
    and "emits (\<lambda>c. exec_call c \<longrightarrow> sc_a1 c = st \<and> sc_a2 c = sz \<and> sc_a3 c = scast up) s s'"
  shows "scanned_run E wl pr s0 s' \<and> group_upto (clean_in E wl s0 s') a v"
  using scanned_run_unsafe [OF assms(1,3,4)] group_upto_mono [OF assms(2) clean_in_mono [OF assms(4)]] by blast

lemma group_step_exec:
  assumes "scanned_run E wl pr s0 s" "group_upto (clean_in E wl s0 s) a v"
    and "emits (\<lambda>c. exec_call c \<longrightarrow> sc_a1 c = start_group v \<and> sc_a2 c = group_size v \<and> sc_a3 c = scast pr) s s'"
  shows "scanned_run E wl pr s0 s' \<and> group_upto (clean_in E wl s0 s') a v"
  using scanned_run_group [OF assms(1) group_upto_covered [OF assms(2)] assms(3)]
    group_upto_mono [OF assms(2) clean_in_mono [OF assms(3)]] by blast

lemma clean_keep: "q \<in> clean_in E wl s0 s \<Longrightarrow> emits P s s' \<Longrightarrow> q \<in> clean_in E wl s0 s'"
  using clean_in_mono by blast

text \<open>
  Both loops hand groups of pages to an action that tells the page manager and the kernel: \<open>add_group\<close>
  for a new mapping, \<open>mprotect_group\<close> for an existing one. What the loops need of it is that it
  asks for executable memory over exactly its range and with exactly its protection.
\<close>

locale exec_walk =
  fixes act :: "addr \<Rightarrow> u64 \<Rightarrow> c_int \<Rightarrow> 'z erim_scheme \<Rightarrow> 'z erim_scheme res"
  assumes act_emits: "act st sz p s = Inr s' \<Longrightarrow>
    emits (\<lambda>c. exec_call c \<longrightarrow> sc_a1 c = st \<and> sc_a2 c = sz \<and> sc_a3 c = scast p) s s'"
begin

lemma walk_prev:
  assumes "(if prev = -1 \<and> group_size v1 \<noteq> 0
      then rbind (act (a - PAGE_SIZE) PAGE_SIZE up s1) (\<lambda>s. Inr (v1\<lparr>group_size := group_size v1 - PAGE_SIZE\<rparr>, s))
      else Inr (v1, s1)) = Inr (v2, s2)"
    and "\<not> bit (up :: c_int) 2" "scanned_run E wl pr s0 s1" "group_upto (clean_in E wl s0 s1) a v1"
    and "Q \<longrightarrow> a \<in> clean_in E wl s0 s1"
  shows "scanned_run E wl pr s0 s2 \<and> group_upto (clean_in E wl s0 s2) a v2 \<and> (Q \<longrightarrow> a \<in> clean_in E wl s0 s2)"
proof (cases "prev = -1 \<and> group_size v1 \<noteq> 0")
  case True
  with assms(1) have g: "act (a - PAGE_SIZE) PAGE_SIZE up s1 = Inr s2"
    and v2: "v2 = v1\<lparr>group_size := group_size v1 - PAGE_SIZE\<rparr>" by (auto simp: rbind_eq_Inr)
  from group_step_unsafe [OF assms(3) group_upto_shrink [OF assms(4)] assms(2) act_emits [OF g]] True v2
  show ?thesis using assms(5) clean_keep [OF _ act_emits [OF g]] by simp
qed (use assms in auto)

lemma walk_group:
  assumes "(if b \<and> group_size v2 \<noteq> 0 then rbind (act (start_group v2) (group_size v2) pr s2) (\<lambda>s. Inr (f v2, s))
      else Inr (v2, s2)) = Inr (v3, s3)"
    and "\<And>C. group_upto C a v2 \<Longrightarrow> group_upto C a (f v2)"
    and "scanned_run E wl pr s0 s2 \<and> group_upto (clean_in E wl s0 s2) a v2 \<and> (Q \<longrightarrow> a \<in> clean_in E wl s0 s2)"
  shows "scanned_run E wl pr s0 s3 \<and> group_upto (clean_in E wl s0 s3) a v3 \<and> (Q \<longrightarrow> a \<in> clean_in E wl s0 s3)"
proof (cases "b \<and> group_size v2 \<noteq> 0")
  case True
  with assms(1) have g: "act (start_group v2) (group_size v2) pr s2 = Inr s3" and v3: "v3 = f v2"
    by (auto simp: rbind_eq_Inr)
  from group_step_exec [OF _ _ act_emits [OF g]] assms(2,3) clean_keep [OF _ act_emits [OF g]] v3
  show ?thesis by blast
qed (use assms in auto)

lemma walk_last:
  assumes "(if ret \<noteq> None
      then rbind (act a PAGE_SIZE up s3) (\<lambda>s. Inr (\<lparr>start_group = 0, group_size = 0, prev_page = a\<rparr>, s))
      else Inr (v3\<lparr>prev_page := a, group_size := group_size v3 + PAGE_SIZE\<rparr>, s3)) = Inr (v4, s4)"
    and "\<not> bit (up :: c_int) 2"
    and "scanned_run E wl pr s0 s3 \<and> group_upto (clean_in E wl s0 s3) a v3 \<and> (ret = None \<longrightarrow> a \<in> clean_in E wl s0 s3)"
  shows "scanned_run E wl pr s0 s4 \<and> group_inv (clean_in E wl s0 s4) (a + PAGE_SIZE) v4"
proof (cases "ret = None")
  case True
  with assms show ?thesis using group_upto_grow [of "clean_in E wl s0 s3" a v3] by (auto simp: group_inv_def)
next
  case False
  with assms(1) have g: "act a PAGE_SIZE up s3 = Inr s4" and v4: "v4 = \<lparr>start_group = 0, group_size = 0, prev_page = a\<rparr>"
    by (auto simp: rbind_eq_Inr)
  from group_step_unsafe [OF _ _ assms(2) act_emits [OF g]] assms(3) v4 show ?thesis
    by (auto simp: group_inv_def)
qed

lemma walk_finish:
  assumes "scanned_run E wl pr s0 s" "group_inv (clean_in E wl s0 s) a v" "group_size v \<noteq> 0"
    and g: "act (start_group v) (group_size v) pr s = Inr s'"
  shows "scanned_run E wl pr s0 s'"
  using group_step_exec [OF assms(1) _ act_emits [OF g]] assms(2,3) by (auto simp: group_inv_def)

end

interpretation new_map: exec_walk "\<lambda>st sz p. add_group E st sz p fl cid mf key"
  by unfold_locales (rule add_group_emits)

interpretation old_map: exec_walk "\<lambda>st sz p. mprotect_group E st sz p cid"
  by unfold_locales (rule mprotect_group_emits)

lemma scan_exec_loop_inv:
  assumes "scan_exec_loop E (page_loop n a en) pr up fl mf cid key wl (v, s) = Inr (v', s')"
    and up: "\<not> bit (up :: c_int) 2" and "scanned_run E wl pr s0 s" "group_inv (clean_in E wl s0 s) a v"
  shows "scanned_run E wl pr s0 s' \<and> (\<exists>b. group_inv (clean_in E wl s0 s') b v')"
  using assms(1,3,4)
proof (induction n arbitrary: a v s)
  case (Suc n)
  show ?case
  proof (cases "a < en")
    case True
    define v1 where "v1 = (if start_group v = 0 then v\<lparr>start_group := a\<rparr> else v)"
    let ?A = "\<lambda>st sz p s. add_group E st sz p fl cid mf key s"
    from Suc.prems(1) True obtain ret prev s1 v2 s2 v3 s3 v4 s4 where
      as: "start_group v = 0 \<longrightarrow> group_size v = 0"
      and scan: "erim_memScanRegion E a PAGE_SIZE wl pr (pr AND NOT PROT_EXEC) False (prev_page v1) s = Inr (ret, prev, s1)"
      and st2: "(if prev = -1 \<and> group_size v1 \<noteq> 0
           then rbind (?A (a - PAGE_SIZE) PAGE_SIZE up s1) (\<lambda>s. Inr (v1\<lparr>group_size := group_size v1 - PAGE_SIZE\<rparr>, s))
           else Inr (v1, s1)) = Inr (v2, s2)"
      and st3: "(if (ret \<noteq> None \<or> prev = -1) \<and> group_size v2 \<noteq> 0
           then rbind (?A (start_group v2) (group_size v2) pr s2) (\<lambda>s. Inr (v2\<lparr>group_size := 0, start_group := a\<rparr>, s))
           else Inr (v2, s2)) = Inr (v3, s3)"
      and st4: "(if ret \<noteq> None
           then rbind (?A a PAGE_SIZE up s3) (\<lambda>s. Inr (\<lparr>start_group = 0, group_size = 0, prev_page = a\<rparr>, s))
           else Inr (v3\<lparr>prev_page := a, group_size := group_size v3 + PAGE_SIZE\<rparr>, s3)) = Inr (v4, s4)"
      and rec: "scan_exec_loop E (page_loop n (a + PAGE_SIZE) en) pr up fl mf cid key wl (v4, s4) = Inr (v', s')"
      unfolding v1_def by (auto simp: nolibc_assert_eq_Inr rbind_eq_Inr Let_def)
    have "group_upto (clean_in E wl s0 s) a v1" unfolding v1_def by (rule group_upto_start [OF Suc.prems(3) as])
    from scan_iter [OF scan Suc.prems(2) this] have
      i1: "scanned_run E wl pr s0 s1" "group_upto (clean_in E wl s0 s1) a v1" "ret = None \<longrightarrow> a \<in> clean_in E wl s0 s1" by auto
    note i2 = new_map.walk_prev [OF st2 up i1]
    have "scanned_run E wl pr s0 s3 \<and> group_upto (clean_in E wl s0 s3) a v3 \<and> (ret = None \<longrightarrow> a \<in> clean_in E wl s0 s3)"
      by (rule new_map.walk_group [where f = "\<lambda>v. v\<lparr>group_size := 0, start_group := a\<rparr>", OF st3 _ i2])
         (rule group_upto_new)
    from new_map.walk_last [OF st4 up this] Suc.IH [OF rec] show ?thesis by blast
  qed (use Suc.prems in auto)
qed auto

lemma scan_mprotect_loop_inv:
  assumes "scan_mprotect_loop E (page_loop n a en) pr up cid wl (v, s) = Inr (v', s')"
    and up: "\<not> bit (up :: c_int) 2" and "scanned_run E wl pr s0 s" "group_inv (clean_in E wl s0 s) a v"
  shows "scanned_run E wl pr s0 s' \<and> (\<exists>b. group_inv (clean_in E wl s0 s') b v')"
  using assms(1,3,4)
proof (induction n arbitrary: a v s)
  case (Suc n)
  show ?case
  proof (cases "a < en")
    case True
    define v1 where "v1 = (if start_group v = 0 then v\<lparr>start_group := a\<rparr> else v)"
    let ?A = "\<lambda>st sz p s. mprotect_group E st sz p cid s"
    from Suc.prems(1) True obtain ret prev s1 v2 s2 v3 s3 v4 s4 where
      as: "start_group v = 0 \<longrightarrow> group_size v = 0"
      and scan: "erim_memScanRegion E a PAGE_SIZE wl pr (pr AND NOT PROT_EXEC) False (prev_page v1) s = Inr (ret, prev, s1)"
      and st2: "(if prev = -1 \<and> group_size v1 \<noteq> 0
           then rbind (?A (a - PAGE_SIZE) PAGE_SIZE up s1) (\<lambda>s. Inr (v1\<lparr>group_size := group_size v1 - PAGE_SIZE\<rparr>, s))
           else Inr (v1, s1)) = Inr (v2, s2)"
      and st3: "(if (ret \<noteq> None \<or> prev = -1) \<and> group_size v2 \<noteq> 0
           then rbind (?A (start_group v2) (group_size v2) pr s2) (\<lambda>s. Inr (v2, s))
           else Inr (v2, s2)) = Inr (v3, s3)"
      and st4: "(if ret \<noteq> None
           then rbind (?A a PAGE_SIZE up s3) (\<lambda>s. Inr (\<lparr>start_group = 0, group_size = 0, prev_page = a\<rparr>, s))
           else Inr (v3\<lparr>prev_page := a, group_size := group_size v3 + PAGE_SIZE\<rparr>, s3)) = Inr (v4, s4)"
      and rec: "scan_mprotect_loop E (page_loop n (a + PAGE_SIZE) en) pr up cid wl (v4, s4) = Inr (v', s')"
      unfolding v1_def by (auto simp: nolibc_assert_eq_Inr rbind_eq_Inr Let_def)
    have "group_upto (clean_in E wl s0 s) a v1" unfolding v1_def by (rule group_upto_start [OF Suc.prems(3) as])
    from scan_iter [OF scan Suc.prems(2) this] have
      i1: "scanned_run E wl pr s0 s1" "group_upto (clean_in E wl s0 s1) a v1" "ret = None \<longrightarrow> a \<in> clean_in E wl s0 s1" by auto
    note i2 = old_map.walk_prev [OF st2 up i1]
    have "scanned_run E wl pr s0 s3 \<and> group_upto (clean_in E wl s0 s3) a v3 \<and> (ret = None \<longrightarrow> a \<in> clean_in E wl s0 s3)"
      by (rule old_map.walk_group [where f = "\<lambda>v. v", OF st3 _ i2])
    from old_map.walk_last [OF st4 up this] Suc.IH [OF rec] show ?thesis by blast
  qed (use Suc.prems in auto)
qed auto

lemma group_inv_init: "group_inv C a \<lparr>start_group = 0, group_size = 0, prev_page = 0\<rparr>"
  by (simp add: group_inv_def)

lemma scan_exec_mapping_scanned:
  assumes "scan_exec_mapping E st sz pr up fl mf cid wl s = Inr s'" "\<not> bit (up :: c_int) 2"
  shows "scanned_run E wl pr s s'"
proof (cases "get_pkey cid = -1")
  case True
  with assms show ?thesis by (simp add: scan_exec_mapping_def scanned_run_refl)
next
  case False
  with assms(1) obtain v s1 where
    loop: "scan_exec_loop E (page_addrs st sz) pr up fl mf cid (get_pkey cid) wl
        (\<lparr>start_group = 0, group_size = 0, prev_page = 0\<rparr>, s) = Inr (v, s1)"
    and fin: "(if group_size v = 0 then Inr s1
        else add_group E (start_group v) (group_size v) pr fl cid mf (get_pkey cid) s1) = Inr s'"
    by (auto simp: scan_exec_mapping_def rbind_eq_Inr Let_def)
  from scan_exec_loop_inv [OF loop [unfolded page_addrs_def] assms(2) scanned_run_refl group_inv_init]
  obtain b where i: "scanned_run E wl pr s s1" "group_inv (clean_in E wl s s1) b v" by blast
  then show ?thesis using fin new_map.walk_finish [OF i] by (auto split: if_splits)
qed

lemma scan_exec_mapping_mprotect_scanned:
  assumes "scan_exec_mapping_mprotect E st sz pr up cid wl s = Inr s'" "\<not> bit (up :: c_int) 2"
  shows "scanned_run E wl pr s s'"
proof (cases "get_pkey cid = -1")
  case True
  with assms show ?thesis by (simp add: scan_exec_mapping_mprotect_def scanned_run_refl)
next
  case False
  with assms(1) obtain v s1 where
    loop: "scan_mprotect_loop E (page_addrs st sz) pr up cid wl
        (\<lparr>start_group = 0, group_size = 0, prev_page = 0\<rparr>, s) = Inr (v, s1)"
    and fin: "(if group_size v = 0 then Inr s1
        else mprotect_group E (start_group v) (group_size v) pr cid s1) = Inr s'"
    by (auto simp: scan_exec_mapping_mprotect_def rbind_eq_Inr)
  from scan_mprotect_loop_inv [OF loop [unfolded page_addrs_def] assms(2) scanned_run_refl group_inv_init]
  obtain b where i: "scanned_run E wl pr s s1" "group_inv (clean_in E wl s s1) b v" by blast
  then show ?thesis using fin old_map.walk_finish [OF i] by (auto split: if_splits)
qed

section \<open>Mapping memory\<close>

lemma clean_in_cong: "trace s0 = trace s0' \<Longrightarrow> trace s = trace s' \<Longrightarrow> clean_in E wl s0 s = clean_in E wl s0' s'"
  by (simp add: clean_in_def)

lemma scanned_run_cong:
  assumes "scanned_run E wl pr s0 s" "trace s0' = trace s0" "trace s' = trace s"
  shows "scanned_run E wl pr s0' s'"
  using assms clean_in_cong [OF assms(2,3), of E wl]
  by (simp add: scanned_run_def scanned_call_def [abs_def] emits_def)

lemma clean_in_earlier: "emits P s s1 \<Longrightarrow> clean_in E wl s1 s' \<subseteq> clean_in E wl s s'"
  by (fastforce simp: clean_in_def emits_def)

lemma scanned_run_after:
  assumes "emits (\<lambda>c. \<not> exec_call c) s s1" "scanned_run E wl pr s1 s'"
  shows "scanned_run E wl pr s s'"
proof -
  have "emits (scanned_call E wl pr s s') s s1"
    by (rule emits_mono [OF assms(1)]) (simp add: scanned_call_def)
  moreover have "emits (scanned_call E wl pr s s') s1 s'"
  proof (rule emits_mono [OF assms(2) [unfolded scanned_run_def]])
    fix c assume "scanned_call E wl pr s1 s' c"
    with clean_in_earlier [OF assms(1), of E wl s'] show "scanned_call E wl pr s s' c"
      unfolding scanned_call_def by blast
  qed
  ultimately show ?thesis unfolding scanned_run_def by (rule emits_trans)
qed

lemma scanned_run_all_noexec: "emits (\<lambda>c. \<not> exec_call c) s s' \<Longrightarrow> scanned_run E wl pr s s'"
  by (rule scanned_run_noexec [OF scanned_run_refl])

lemma scanned_no_wx:
  assumes "scanned_run E wl pr s s'" "\<not> bit pr 1"
  shows "emits (\<lambda>c. \<not> wx_call c) s s'"
  using assms(1) unfolding scanned_run_def
proof (rule emits_mono)
  fix c assume "scanned_call E wl pr s s' c"
  then have "exec_call c \<Longrightarrow> \<not> bit (sc_a3 c) 1"
    using assms(2) by (simp add: scanned_call_def scast_and_bit)
  then show "\<not> wx_call c"
    using wx_exec_call [of c] by (fastforce simp: wx_call_def wx_bits)
qed

lemma noexec_no_wx: "emits (\<lambda>c. \<not> exec_call c) s s' \<Longrightarrow> emits (\<lambda>c. \<not> wx_call c) s s'"
  by (erule emits_mono) (auto dest: wx_exec_call)

lemma read_loop_emits: "read_loop E n fd dst sz rl s = Inr s' \<Longrightarrow> emits (\<lambda>c. \<not> exec_call c) s s'"
proof (induction n arbitrary: rl s)
  case (Suc n)
  obtain c s1 where k: "inline_syscall6 E NR_read fd (dst + rl) (sz - rl) 0 0 0 s = (c, s1)" by fastforce
  have "emits (\<lambda>c. \<not> exec_call c) s s1"
    using k unfolding inline_syscall6_def by (rule issue_emits) (simp add: exec_call_def prot_call_def)
  with Suc k show ?case by (auto split: if_splits intro: emits_trans)
qed (auto split: if_splits)

lemma wrapper_noexec:
  assumes "syscall_wrapper E nr a1 a2 a3 a4 a5 a6 cid s = (r, s')"
    and "nr \<noteq> NR_mmap \<and> nr \<noteq> NR_mprotect \<and> nr \<noteq> NR_pkey_mprotect \<or> \<not> bit a3 2"
  shows "emits (\<lambda>c. \<not> exec_call c) s s'"
  using assms(1) by (rule syscall_wrapper_emits) (use assms(2) in \<open>auto simp: exec_call_def prot_call_def\<close>)

lemma map_file_baked_emits:
  assumes "map_file_baked E st sz prot flags fd off cid s = Inr (r, s')"
  shows "emits (\<lambda>c. \<not> exec_call c) s s'"
proof -
  obtain r1 s1 where m: "syscall_wrapper E NR_mmap st sz (scast (PROT_WRITE OR PROT_READ))
      (flags OR scast MAP_ANONYMOUS) (-1) 0 cid s = (r1, s1)" by fastforce
  obtain r2 s2 where l2: "syscall_wrapper E NR_lseek (scast fd) 0 1 0 0 0 cid s1 = (r2, s2)" by fastforce
  obtain r3 s3 where l3: "syscall_wrapper E NR_lseek (scast fd) off 0 0 0 0 cid s2 = (r3, s3)" by fastforce
  have e1: "emits (\<lambda>c. \<not> exec_call c) s s1" by (rule wrapper_noexec [OF m]) simp
  have e2: "emits (\<lambda>c. \<not> exec_call c) s1 s2" by (rule wrapper_noexec [OF l2]) simp
  have e3: "emits (\<lambda>c. \<not> exec_call c) s2 s3" by (rule wrapper_noexec [OF l3]) simp
  show ?thesis
  proof (cases "r1 <s 0")
    case True
    with assms m e1 show ?thesis by (simp add: map_file_baked_def)
  next
    case False
    with assms m l2 l3 obtain s4 where rd: "read_loop E (unat sz) (scast fd) r1 sz 0 s3 = Inr s4"
      and k: "(let (ret, s) = syscall_wrapper E NR_lseek (scast fd) r2 0 0 0 0 cid s4 in Inr (r1, s)) =
        (Inr (r, s') :: (u64 \<times> 'a kern_scheme) res)"
      by (auto simp: map_file_baked_def rbind_eq_Inr)
    obtain r5 s5 where l: "syscall_wrapper E NR_lseek (scast fd) r2 0 0 0 0 cid s4 = (r5, s5)" by fastforce
    with k have l5: "syscall_wrapper E NR_lseek (scast fd) r2 0 0 0 0 cid s4 = (r5, s')" by simp
    have e5: "emits (\<lambda>c. \<not> exec_call c) s4 s'" by (rule wrapper_noexec [OF l5]) simp
    show ?thesis using e1 e2 e3 read_loop_emits [OF rd] e5 by (blast intro: emits_trans)
  qed
qed

lemma mark_wx_pages_state: "mark_wx_pages as pr tr s = Inr s' \<Longrightarrow> \<exists>us. s' = s\<lparr>unsafe_pages := us\<rparr>"
proof (induction as arbitrary: s)
  case Nil
  then show ?case by (cases s) auto
next
  case (Cons a as)
  then show ?case by (fastforce simp: rbind_eq_Inr dest: add_unsafe_page_state)
qed

lemma with_block_run:
  assumes "with_block cid body s = Inr s'"
  shows "\<exists>s0 s1. trace s0 = trace s \<and> body s0 = Inr s1 \<and> trace s' = trace s1"
proof -
  define s0 where "s0 = (if cid = TS_MONITOR then set_sud_block s else s)"
  obtain s1 where "body s0 = Inr s1" "s' = (if cid = TS_MONITOR then set_sud_allow s1 else s1)"
    using assms by (auto simp: with_block_def rbind_eq_Inr s0_def)
  moreover have "trace s0 = trace s" by (simp add: s0_def sud_defs)
  moreover have "trace s' = trace s1" using calculation(2) by (simp add: sud_defs)
  ultimately show ?thesis by blast
qed

lemma with_block_scan:
  assumes "with_block cid (scan_exec_mapping E a sz pr up fl mf cid wl) s = Inr s'" "\<not> bit (up :: c_int) 2"
  shows "scanned_run E wl pr s s'"
  using with_block_run [OF assms(1)] scan_exec_mapping_scanned [OF _ assms(2)]
  by (metis scanned_run_cong)

lemma with_block_mark:
  assumes "with_block cid (mark_wx_pages as pr tr) s = Inr s'"
  shows "emits P s s'"
proof -
  obtain s0 s1 :: "'a erim_scheme" where
    "trace s0 = trace s" "mark_wx_pages as pr tr s0 = Inr s1" "trace s' = trace s1"
    using with_block_run [OF assms] by auto
  moreover have "trace s1 = trace s0" using mark_wx_pages_state [OF calculation(2)] by auto
  ultimately show ?thesis by simp
qed

lemma bit_clear_exec: "\<not> bit ((p :: c_int) AND NOT PROT_EXEC) 2"
  by (simp add: bit_simps)

lemma bit_and_not_4: "\<not> bit ((p :: u64) AND - 5) 2"
proof -
  have "\<not> bit (p AND NOT 4) 2" by (simp only: bit_simps) simp
  then show ?thesis by simp
qed

text \<open>The last part of \<open>secpoline_mmap\<close>, once the kernel has answered.\<close>

definition mmap_tail :: "env \<Rightarrow> u64 \<Rightarrow> c_int \<Rightarrow> u64 \<Rightarrow> u64 \<Rightarrow> bool \<Rightarrow> c_int \<Rightarrow> bool \<Rightarrow> bool \<Rightarrow> u64
    \<Rightarrow> 'z erim_scheme \<Rightarrow> (u64 \<times> 'z erim_scheme) res" where
  "mmap_tail E sz real_prot prot flags fixed cid is_exec is_write result s =
     (if result \<le>s 0 then Inr (result, s)
      else if is_exec \<and> \<not> is_write
        then rbind (with_block cid (scan_exec_mapping E result sz real_prot (real_prot AND NOT PROT_EXEC)
                      (ucast flags) fixed cid None) s)
               (\<lambda>s. Inr (result, s))
      else rbind (add_page E result sz (ucast prot) (ucast flags) cid fixed s)
        (\<lambda>(r, s). nolibc_assert (r = 0)
          (let (r, s) = syscall_wrapper E NR_pkey_mprotect result sz prot (scast (get_pkey cid)) 0 0 cid s
           in nolibc_assert (r = 0)
             (if is_exec \<and> is_write
              then rbind (with_block cid (mark_wx_pages (page_addrs result sz) (ucast prot) (cid = TS_MONITOR)) s)
                     (\<lambda>s. Inr (result, s))
              else Inr (result, s)))))"

lemma mmap_tail_scanned:
  assumes "mmap_tail E sz real_prot prot flags fixed cid ex wr result s = Inr (r, s')"
    and "\<not> (ex \<and> \<not> wr) \<Longrightarrow> \<not> bit prot 2"
  shows "scanned_run E None real_prot s s' \<and> (wr \<longrightarrow> emits (\<lambda>c. \<not> exec_call c) s s')"
proof -
  consider "result \<le>s 0" | "\<not> result \<le>s 0" "ex \<and> \<not> wr" | "\<not> result \<le>s 0" "\<not> (ex \<and> \<not> wr)" by blast
  then show ?thesis
  proof cases
    case 1
    with assms(1) show ?thesis by (simp add: mmap_tail_def scanned_run_refl)
  next
    case 2
    with assms(1) have "with_block cid (scan_exec_mapping E result sz real_prot (real_prot AND NOT PROT_EXEC)
        (ucast flags) fixed cid None) s = Inr s'"
      by (auto simp: mmap_tail_def rbind_eq_Inr)
    from with_block_scan [OF this bit_clear_exec] 2 show ?thesis by blast
  next
    case 3
    obtain s1 where a: "add_page E result sz (ucast prot) (ucast flags) cid fixed s = Inr (0, s1)"
      using 3 assms(1) by (auto simp: mmap_tail_def rbind_eq_Inr nolibc_assert_eq_Inr)
    obtain r2 s2 where k: "syscall_wrapper E NR_pkey_mprotect result sz prot (scast (get_pkey cid)) 0 0 cid s1 = (r2, s2)"
      by fastforce
    have e2: "emits (\<lambda>c. \<not> exec_call c) s1 s2" by (rule wrapper_noexec [OF k]) (use assms(2) 3 in simp)
    have "(if ex \<and> wr
        then rbind (with_block cid (mark_wx_pages (page_addrs result sz) (ucast prot) (cid = TS_MONITOR)) s2)
           (\<lambda>s. Inr (result, s)) else Inr (result, s2)) = Inr (r, s')"
      using 3 assms(1) a k by (simp add: mmap_tail_def nolibc_assert_def split: if_splits)
    then have "emits (\<lambda>c. \<not> exec_call c) s2 s'"
      by (auto simp: rbind_eq_Inr split: if_splits dest: with_block_mark)
    with add_page_emits [OF a] e2 have "emits (\<lambda>c. \<not> exec_call c) s s'"
      by (blast intro: emits_trans emits_mono)
    then show ?thesis by (blast intro: scanned_run_all_noexec)
  qed
qed

text \<open>The protection that \<open>secpoline_mmap\<close> gives to the kernel.\<close>

definition mmap_prot :: "u64 \<Rightarrow> u64" where
  "mmap_prot prot =
     (let prot' = (if prot AND 4 \<noteq> 0 \<and> prot AND 2 = 0 then scast PROT_READ else prot)
      in if prot AND 4 \<noteq> 0 \<and> prot AND 2 \<noteq> 0 then prot' AND NOT 4 else prot')"

lemma mmap_prot_noexec: "\<not> bit (mmap_prot prot) 2"
  by (auto simp: mmap_prot_def Let_def and_two_zero and_four_zero bit_and_not_4)

text \<open>The ways a call of \<open>secpoline_mmap\<close> ends: refused before the kernel is asked, or the kernel's
  answer is handed to the last part.\<close>

lemma secpoline_mmap_cases:
  assumes "secpoline_mmap E st sz prot flags fd off cid s = Inr (r, s')"
  shows "trace s' = trace s \<and> r = - EINVAL \<or>
    (\<exists>s0 r1 s1 fl. trace s0 = trace s \<and>
      (map_file_baked E st sz (mmap_prot prot) fl fd off cid s0 = Inr (r1, s1) \<or>
       syscall_wrapper E NR_mmap st sz (mmap_prot prot) fl (-1) 0 cid s0 = (r1, s1)) \<and>
      mmap_tail E sz (ucast prot) (mmap_prot prot) fl (fl AND scast MAP_FIXED \<noteq> 0) cid
        (prot AND 4 \<noteq> 0) (prot AND 2 \<noteq> 0) r1 s1 = Inr (r, s'))"
proof -
  define fl where "fl = flags OR scast MAP_PRIVATE"
  define chk where "chk = (if fl AND scast MAP_FIXED \<noteq> 0
             then if is_multithreaded s
                  then rbind (lookup_range st sz cid s) (\<lambda>(g, s). Inr (g = None, s))
                  else rbind (lookup_range_allow_gaps st sz cid s) (\<lambda>(r, s). Inr (r = -1, s))
             else Inr (False, s))"
  define ker where "ker s0 = (if fd \<noteq> -1 \<and> fd \<noteq> 0 then map_file_baked E st sz (mmap_prot prot) fl fd off cid s0
                 else Inr (syscall_wrapper E NR_mmap st sz (mmap_prot prot) fl (-1) 0 cid s0))" for s0 :: "'a erim_scheme"
  have chk_trace: "trace s0 = trace s" if "chk = Inr (b, s0)" for b s0
    using that by (auto simp: chk_def rbind_eq_Inr split: if_splits dest: lookup_range_trace lookup_gaps_trace)
  have "secpoline_mmap E st sz prot flags fd off cid s =
     nolibc_assert (cid = TS_MONITOR \<longrightarrow> sud_selector s = SUD_ALLOW)
      (if get_pkey cid = -1 then Inr (- EINVAL, s)
       else nolibc_assert (flags AND MAP_HUGETLB = 0)
        (if sz = 0 \<or> \<not> page_aligned st then Inr (- EINVAL, s)
         else rbind chk (\<lambda>(refused, s). if refused then Inr (- EINVAL, s)
            else rbind (ker s) (\<lambda>(result, s). mmap_tail E sz (ucast prot) (mmap_prot prot) fl
                 (fl AND scast MAP_FIXED \<noteq> 0) cid (prot AND 4 \<noteq> 0) (prot AND 2 \<noteq> 0) result s))))"
    unfolding secpoline_mmap_def mmap_tail_def chk_def ker_def fl_def mmap_prot_def Let_def by simp
  with assms consider "r = - EINVAL" "s' = s"
    | s0 where "chk = Inr (True, s0)" "r = - EINVAL" "s' = s0"
    | s0 r1 s1 where "chk = Inr (False, s0)" "ker s0 = Inr (r1, s1)"
      "mmap_tail E sz (ucast prot) (mmap_prot prot) fl (fl AND scast MAP_FIXED \<noteq> 0) cid
         (prot AND 4 \<noteq> 0) (prot AND 2 \<noteq> 0) r1 s1 = Inr (r, s')"
    by (fastforce simp: rbind_eq_Inr nolibc_assert_eq_Inr split: if_splits)
  then show ?thesis
  proof cases
    case 1
    then show ?thesis by simp
  next
    case 2
    then show ?thesis using chk_trace [OF 2(1)] by simp
  next
    case 3
    moreover have "map_file_baked E st sz (mmap_prot prot) fl fd off cid s0 = Inr (r1, s1) \<or>
       syscall_wrapper E NR_mmap st sz (mmap_prot prot) fl (-1) 0 cid s0 = (r1, s1)"
      using 3(2) by (auto simp: ker_def split: if_splits)
    ultimately show ?thesis using chk_trace [OF 3(1)] by blast
  qed
qed

lemma secpoline_mmap_run:
  assumes "secpoline_mmap E st sz prot flags fd off cid s = Inr (r, s')"
  shows "scanned_run E None (ucast prot) s s' \<and> (bit prot 1 \<longrightarrow> emits (\<lambda>c. \<not> exec_call c) s s')"
proof -
  have noexec: ?thesis if "emits (\<lambda>c. \<not> exec_call c) s s'"
    using that by (blast intro: scanned_run_all_noexec)
  have tail: ?thesis if "emits (\<lambda>c. \<not> exec_call c) s s1"
    and "mmap_tail E sz (ucast prot) (mmap_prot prot) fl (fl AND scast MAP_FIXED \<noteq> 0) cid
         (prot AND 4 \<noteq> 0) (prot AND 2 \<noteq> 0) r1 s1 = Inr (r, s')" for fl r1 s1
    using mmap_tail_scanned [OF that(2) mmap_prot_noexec] that(1)
    by (metis One_nat_def and_two_zero emits_trans scanned_run_after)
  from secpoline_mmap_cases [OF assms] show ?thesis
  proof (elim disjE exE conjE)
    assume "trace s' = trace s"
    then show ?thesis by (intro noexec) simp
  next
    fix s0 s1 :: "'a erim_scheme" and r1 fl
    assume "trace s0 = trace s" and k: "map_file_baked E st sz (mmap_prot prot) fl fd off cid s0 = Inr (r1, s1)"
    then have "emits (\<lambda>c. \<not> exec_call c) s s1" using map_file_baked_emits [OF k] by (simp add: emits_def)
    then show ?thesis if "mmap_tail E sz (ucast prot) (mmap_prot prot) fl (fl AND scast MAP_FIXED \<noteq> 0) cid
         (prot AND 4 \<noteq> 0) (prot AND 2 \<noteq> 0) r1 s1 = Inr (r, s')" using that by (rule tail)
  next
    fix s0 s1 :: "'a erim_scheme" and r1 fl
    assume t: "trace s0 = trace s" and k: "syscall_wrapper E NR_mmap st sz (mmap_prot prot) fl (-1) 0 cid s0 = (r1, s1)"
    have "emits (\<lambda>c. \<not> exec_call c) s0 s1" by (rule wrapper_noexec [OF k]) (simp add: mmap_prot_noexec)
    with t have "emits (\<lambda>c. \<not> exec_call c) s s1" by (simp add: emits_def)
    then show ?thesis if "mmap_tail E sz (ucast prot) (mmap_prot prot) fl (fl AND scast MAP_FIXED \<noteq> 0) cid
         (prot AND 4 \<noteq> 0) (prot AND 2 \<noteq> 0) r1 s1 = Inr (r, s')" using that by (rule tail)
  qed
qed

lemma wx_prot_no_exec:
  assumes "scanned_run E wl (ucast prot) s s'" "bit prot 1 \<longrightarrow> emits (\<lambda>c. \<not> exec_call c) s s'"
  shows "emits (\<lambda>c. \<not> wx_call c) s s'"
proof (cases "bit prot 1")
  case True
  then show ?thesis using assms(2) noexec_no_wx by blast
next
  case False
  then have "\<not> bit (ucast prot :: c_int) 1" by (simp add: bit_simps)
  with assms(1) show ?thesis by (rule scanned_no_wx)
qed

end
