(* ===== verification/MapsProps.thy ===== *)
theory MapsProps
  imports MapsFacts
begin

text \<open>
  Moving mappings, reading files into memory, and the properties of the mapping services.
\<close>

section \<open>Runs that scan several mappings\<close>

lemma scanned_run_trans:
  assumes "scanned_run E wl pr s s1" "scanned_run E wl pr s1 s2"
  shows "scanned_run E wl pr s s2"
proof -
  have e: "emits (scanned_call E wl pr s1 s2) s1 s2" using assms(2) by (simp add: scanned_run_def)
  have o: "emits (scanned_call E wl pr s s1) s s1" using assms(1) by (simp add: scanned_run_def)
  show ?thesis
  proof (rule scanned_run_step [OF assms(1) e])
    fix c assume "scanned_call E wl pr s1 s2 c" "exec_call c"
    with clean_in_earlier [OF o, of E wl s2] show "sc_a3 c = scast pr \<and> covered c \<subseteq> clean_in E wl s s2"
      unfolding scanned_call_def by blast
  qed
qed

section \<open>Moving mappings\<close>

text \<open>Steps of a run that ask for no executable memory.\<close>

definition quiet :: "'z kern_scheme \<Rightarrow> ('a \<times> 'z kern_scheme) res \<Rightarrow> bool" where
  "quiet s m \<longleftrightarrow> (\<forall>r s'. m = Inr (r, s') \<longrightarrow> emits (\<lambda>c. \<not> exec_call c) s s')"

lemma quiet_Inr [simp]: "quiet s (Inr (r, s))" and quiet_Inl [simp]: "quiet s (Inl c)"
  by (simp_all add: quiet_def)

lemma quiet_rbind:
  assumes "quiet s m" "\<And>r s1. m = Inr (r, s1) \<Longrightarrow> quiet s1 (f (r, s1))"
  shows "quiet s (rbind m f)"
  using assms unfolding quiet_def by (fastforce simp: rbind_eq_Inr intro: emits_trans)

lemma quiet_call:
  assumes "nr \<noteq> NR_mmap \<and> nr \<noteq> NR_mprotect \<and> nr \<noteq> NR_pkey_mprotect \<or> \<not> bit a3 2" "\<And>r s1. quiet s1 (f r s1)"
  shows "quiet s (let (r, s) = syscall_wrapper E nr a1 a2 a3 a4 a5 a6 cid s in f r s)"
proof -
  obtain r s1 where k: "syscall_wrapper E nr a1 a2 a3 a4 a5 a6 cid s = (r, s1)" by fastforce
  with wrapper_noexec [OF k assms(1)] assms(2) [of s1 r] show ?thesis
    by (auto simp: quiet_def intro: emits_trans)
qed

lemma quiet_assert: "(b \<Longrightarrow> quiet s m) \<Longrightarrow> quiet s (nolibc_assert b m)"
  by (simp add: nolibc_assert_def)

lemma quiet_if: "(b \<Longrightarrow> quiet s m) \<Longrightarrow> (\<not> b \<Longrightarrow> quiet s n) \<Longrightarrow> quiet s (if b then m else n)"
  by simp

lemma quiet_pages:
  "quiet s (add_page E st sz pr fl cid False s)" "quiet s (remove_page E st sz cid s)"
  "quiet s (update_size E st old new cid s)" "quiet s (lookup_addr a cid s)" "quiet s (lookup_range a n cid s)"
  by (auto simp: quiet_def dest: add_page_emits remove_page_emits update_size_emits lookup_addr_trace lookup_range_trace)

lemmas quiet_intros = quiet_call quiet_assert quiet_if quiet_pages quiet_rbind

lemma handle_mremap_quiet: "quiet s (handle_mremap E st old new fl nst cid s)"
  unfolding handle_mremap_def
  by (auto intro!: quiet_intros split: option.splits)

lemma handle_mremap_exec_run:
  assumes "handle_mremap_exec E st old new fl nst pr cid s = Inr (r, s')"
  shows "scanned_run E None pr s s'"
proof -
  obtain r1 s1 where k: "syscall_wrapper E NR_mprotect st old (scast PROT_READ) 0 0 0 cid s = (r1, s1)" by fastforce
  have e1: "emits (\<lambda>c. \<not> exec_call c) s s1" by (rule wrapper_noexec [OF k]) simp
  show ?thesis
  proof (cases "r1 = 0")
    case False
    with assms k e1 show ?thesis by (simp add: handle_mremap_exec_def scanned_run_all_noexec)
  next
    case True
    with assms k obtain s2 s3 where m: "handle_mremap E st old new fl nst cid s1 = Inr (r, s2)"
      and a: "(if fl AND MREMAP_DONTUNMAP = 0 then Inr s2
          else scan_exec_mapping_mprotect E st old pr (pr AND NOT PROT_EXEC) cid None s2) = Inr s3"
      and b: "scan_exec_mapping_mprotect E r new pr (pr AND NOT PROT_EXEC) cid None s3 = Inr s'"
      by (auto simp: handle_mremap_exec_def rbind_eq_Inr nolibc_assert_eq_Inr simp del: if_split)
    have "emits (\<lambda>c. \<not> exec_call c) s1 s2" using handle_mremap_quiet [of s1 E st old new fl nst cid] m by (simp add: quiet_def)
    with e1 have "scanned_run E None pr s s2" by (blast intro: emits_trans scanned_run_all_noexec)
    moreover have "scanned_run E None pr s2 s3"
    proof (cases "fl AND MREMAP_DONTUNMAP = 0")
      case True
      with a show ?thesis by (simp add: scanned_run_refl)
    next
      case False
      then show ?thesis using a scan_exec_mapping_mprotect_scanned [OF _ bit_clear_exec] by (simp only: if_False)
    qed
    moreover have "scanned_run E None pr s3 s'"
      by (rule scan_exec_mapping_mprotect_scanned [OF b bit_clear_exec])
    ultimately show ?thesis by (blast intro: scanned_run_trans)
  qed
qed

section \<open>Reading a file\<close>

text \<open>What the manual page of \<open>read\<close> says of a successful call: at most the requested number of bytes.\<close>

definition reads_ok :: "env \<Rightarrow> u64 \<Rightarrow> bool" where
  "reads_ok E fd \<longleftrightarrow> (\<forall>sel a n t. kernel E (SCall Inline sel NR_read fd a n 0 0 0 # t) \<le> n)"

lemma read_loop_ends:
  assumes "reads_ok E fd" "rl \<le> sz" "unat (sz - rl) \<le> n"
  shows "\<exists>s'. read_loop E n fd dst sz rl s = Inr s'"
  using assms(2,3)
proof (induction n arbitrary: rl s)
  case 0
  then have "sz - rl = 0" by (metis le_zero_eq unat_eq_0)
  with 0 show ?case by simp
next
  case (Suc n)
  show ?case
  proof (cases "rl < sz")
    case True
    obtain c s1 where k: "inline_syscall6 E NR_read fd (dst + rl) (sz - rl) 0 0 0 s = (c, s1)" by fastforce
    then have c: "c \<le> sz - rl" using assms(1) by (auto simp: syscall_defs Let_def reads_ok_def)
    have n: "unat (sz - rl) = unat sz - unat rl" using Suc.prems by (simp add: unat_minus_le word_le_nat_alt)
    have s: "unat (rl + c) = unat rl + unat c"
      using c n Suc.prems(1) unat_lt_2p64 [of sz] by (intro unat_plus_nowrap) (simp add: word_le_nat_alt)
    have le: "rl + c \<le> sz" using c n s Suc.prems(1) by (simp add: word_le_nat_alt)
    have "unat (sz - (rl + c)) \<le> n" if "c \<noteq> 0"
    proof -
      have "unat (sz - (rl + c)) = unat sz - unat (rl + c)" using le by (simp add: unat_minus_le word_le_nat_alt)
      moreover have "0 < unat c" using that by (simp add: unat_gt_0)
      ultimately show ?thesis using s n Suc.prems(2) by linarith
    qed
    with Suc.IH [OF le] k True show ?thesis by auto
  qed simp
qed

lemma map_file_baked_total:
  assumes "reads_ok E (scast fd)"
  shows "\<exists>r s'. map_file_baked E st sz prot flags fd off cid s = Inr (r, s')"
proof -
  obtain r1 s1 where m: "syscall_wrapper E NR_mmap st sz (scast (PROT_WRITE OR PROT_READ))
      (flags OR scast MAP_ANONYMOUS) (-1) 0 cid s = (r1, s1)" by fastforce
  obtain r2 s2 where l2: "syscall_wrapper E NR_lseek (scast fd) 0 1 0 0 0 cid s1 = (r2, s2)" by fastforce
  obtain r3 s3 where l3: "syscall_wrapper E NR_lseek (scast fd) off 0 0 0 0 cid s2 = (r3, s3)" by fastforce
  obtain s4 where "read_loop E (unat sz) (scast fd) r1 sz 0 s3 = Inr s4"
    using read_loop_ends [OF assms, of 0 sz "unat sz" r1 s3] by auto
  moreover obtain r5 s5 where "syscall_wrapper E NR_lseek (scast fd) r2 0 0 0 0 cid s4 = (r5, s5)" by fastforce
  ultimately show ?thesis using m l2 l3 by (simp add: map_file_baked_def)
qed

section \<open>Tracking a new mapping\<close>

lemma wrapper_answer:
  assumes "\<And>via. kernel E (SCall via (sud_selector s) nr a1 a2 a3 a4 a5 a6 # trace s) = r"
  shows "\<exists>t. syscall_wrapper E nr a1 a2 a3 a4 a5 a6 cid s = (r, s\<lparr>trace := t\<rparr>)"
  using assms [of Inline] assms [of Untrusted]
  by (cases "cid = TS_MONITOR") (simp_all add: syscall_defs Let_def, blast+)

lemma mmap_tail_data:
  assumes r: "0 <s result" and run: "2 \<le> free_pages s" "\<not> pm_lock s" "wf_pages (pages s)"
    and range: "unat result + unat (page_round sz) < 2 ^ 64" "page_round sz \<noteq> 0" "page_aligned result"
    and free: "\<And>a. in_range result (result + page_round sz) a \<Longrightarrow> tracked (pages s) a = None"
    and ok: "\<And>via sel t. kernel E (SCall via sel NR_pkey_mprotect result sz prot (scast (get_pkey cid)) 0 0 # t) = 0"
  shows "\<exists>s'. mmap_tail E sz rp prot flags False cid False wr result s = Inr (result, s') \<and> wf_pages (pages s') \<and>
    tracked (pages s') = (\<lambda>a. if in_range result (result + page_round sz) a then Some (ucast prot, ucast flags, cid)
      else tracked (pages s) a)"
proof -
  obtain s1 where a: "add_page E result sz (ucast prot) (ucast flags) cid False s = Inr (0, s1)"
    and t: "wf_pages (pages s1)" "tracked (pages s1) = (\<lambda>a. if in_range result (result + page_round sz) a
      then Some (ucast prot, ucast flags, cid) else tracked (pages s) a)"
    using add_page_total [OF run(3,1,2) range, where mf = False] free by blast
  obtain s2 where "syscall_wrapper E NR_pkey_mprotect result sz prot (scast (get_pkey cid)) 0 0 cid s1 = (0, s2)"
    and "pages s2 = pages s1"
    using wrapper_answer [OF ok, of cid s1] by auto
  moreover have "\<not> result \<le>s 0" using r by (simp add: word_sle_eq word_sless_alt)
  ultimately show ?thesis using a t by (simp add: mmap_tail_def)
qed

section \<open>Example runs\<close>

text \<open>A kernel that maps at \<open>0x20000\<close> and grants everything else, memory that is all zero, and the list of
  the scanner's example with no free lock held.\<close>

definition demo_map_env :: env where
  "demo_map_env = \<lparr>kernel = (\<lambda>t. if sc_nr (hd t) = NR_mmap then 0x20000 else 0), memory = (\<lambda>t a. 0),
     page_perm = (\<lambda>t a. 3), page_key = (\<lambda>t a. 2)\<rparr>"

lemma demo_map_kernel [simp]:
  "kernel demo_map_env (SCall via sel nr a1 a2 a3 a4 a5 a6 # t) = (if nr = NR_mmap then 0x20000 else 0)"
  by (simp add: demo_map_env_def)

lemma demo_map_clean: "scan_region (mem_at demo_map_env s) wl a n = []"
proof -
  have "insn_at (mem_at demo_map_env s) p = None" for p
    by (simp add: insn_at_def mem_at_def demo_map_env_def erim_isWRPKRU_def erim_isXRSTOR_def
        erim_isWRGSBASE32_def erim_isWRGSBASE64_def)
  then show ?thesis
    by (cases rule: scan_cases [of "mem_at demo_map_env s" a n]) (auto simp: scan_region_clean)
qed

lemmas mmap_run_defs = secpoline_mmap_def get_pkey_def page_run_defs syscall_defs with_block_def
  demo_map_clean demo_erim_def demo_page_def

lemma page_addrs_one: "page_addrs 0x20000 4096 = [0x20000]"
  by (simp add: page_addrs_def)

lemma demo_mmap_rwx: "\<exists>s'. secpoline_mmap demo_map_env 0 4096 7 34 (-1) 0 1 demo_erim = Inr (0x20000, s')"
  by (simp add: mmap_run_defs page_addrs_one add_unsafe_page_def update_unsafe_page_def)

lemma demo_mmap_exec: "\<exists>s'. secpoline_mmap demo_map_env 0 4096 5 34 (-1) 0 1 demo_erim = Inr (0x20000, s')"
  by (simp add: mmap_run_defs page_addrs_one scan_exec_mapping_def erim_memScanRegion_def scan_prev_page_def
      scan_next_page_def lookup_addr_def scan_result_def update_unsafe_page_def add_group_def)

section \<open>Properties\<close>

text \<open>
  Write xor execute. A call of \<open>secpoline_mmap\<close> that returns, whatever protection it was asked for, has not
  asked the kernel for memory that is writable and executable at once.
\<close>

theorem secpoline_mmap_wx:
  assumes "secpoline_mmap E st sz prot flags fd off cid s = Inr (r, s')"
  shows "emits (\<lambda>c. \<not> wx_call c) s s'"
  using secpoline_mmap_run [OF assms] wx_prot_no_exec [of E None prot s s'] by blast

theorem secpoline_mmap_wx_witness:
  "\<exists>s'. secpoline_mmap demo_map_env 0 4096 7 34 (-1) 0 1 demo_erim = Inr (0x20000, s') \<and>
     emits (\<lambda>c. \<not> wx_call c) demo_erim s'"
  using demo_mmap_rwx secpoline_mmap_wx [of demo_map_env 0 4096 7 34 "-1" 0 1 demo_erim "0x20000"] by blast



text \<open>
  Moving executable memory. \<open>handle_mremap_exec\<close> takes the execute permission away before it moves a
  mapping; what it makes executable again, at the old and the new place, has been scanned clean first.
\<close>

theorem handle_mremap_exec_scanned:
  assumes "handle_mremap_exec E st old_size new_size flags new_start prot cid s = Inr (r, s')"
  shows "emits (\<lambda>c. exec_call c \<longrightarrow> sc_a3 c = scast prot \<and> covered c \<subseteq> clean_in E None s s') s s'"
  using handle_mremap_exec_run [OF assms] by (simp add: scanned_run_def scanned_call_def [abs_def])

definition demo_move_env :: env where
  "demo_move_env = \<lparr>kernel = (\<lambda>t. if sc_nr (hd t) = NR_mremap then 0x10000 else 0), memory = (\<lambda>t a. 0),
     page_perm = (\<lambda>t a. 3), page_key = (\<lambda>t a. 2)\<rparr>"

lemma demo_move_clean: "scan_region (mem_at demo_move_env s) wl a n = []"
  using demo_map_clean [of s wl a n] by (simp add: mem_at_def [abs_def] demo_move_env_def demo_map_env_def)

lemma demo_move_kernel [simp]:
  "kernel demo_move_env (SCall via sel nr a1 a2 a3 a4 a5 a6 # t) = (if nr = NR_mremap then 0x10000 else 0)"
  by (simp add: demo_move_env_def)

lemma page_addrs_two: "page_addrs 0x10000 8192 = [0x10000, 0x11000]"
  by (simp add: page_addrs_def numeral_3_eq_3)

lemma demo_move_start: "\<not> is_unsafe_start (mem_at demo_move_env s) p"
  by (simp add: is_unsafe_start_def mem_at_def demo_move_env_def erim_isWRPKRU_def erim_isXRSTOR_def
        erim_isWRGSBASE32_def erim_isWRGSBASE64_def)

lemma demo_move_run: "\<exists>s'. handle_mremap_exec demo_move_env 0x10000 4096 8192 1 0 5 0 demo_erim = Inr (0x10000, s')"
  by (simp add: handle_mremap_exec_def handle_mremap_def page_run_defs syscall_defs demo_erim_def demo_page_def
      scan_exec_mapping_mprotect_def get_pkey_def page_addrs_two erim_memScanRegion_def scan_prev_page_def
      scan_next_page_def lookup_addr_def scan_result_def update_unsafe_page_def mprotect_group_def demo_move_clean
      demo_move_start)

theorem handle_mremap_exec_scanned_witness:
  "\<exists>s'. handle_mremap_exec demo_move_env 0x10000 4096 8192 1 0 5 0 demo_erim = Inr (0x10000, s') \<and>
     emits (\<lambda>c. exec_call c \<longrightarrow> sc_a3 c = 5 \<and> covered c \<subseteq> clean_in demo_move_env None demo_erim s') demo_erim s'"
proof -
  obtain s' where r: "handle_mremap_exec demo_move_env 0x10000 4096 8192 1 0 5 0 demo_erim = Inr (0x10000, s')"
    using demo_move_run by blast
  from r handle_mremap_exec_scanned [OF r] show ?thesis by simp
qed

lemma page_round_zero: "page_round 0 = 0"
  by (simp add: page_round_eval)

text \<open>
  The page list follows the kernel. An anonymous mapping without execute permission and without
  \<open>MAP_FIXED\<close>, for one of the two compartments, returns the address the kernel chose, and afterwards
  exactly its rounded range is tracked, with the protection, the flags with \<open>MAP_PRIVATE\<close> and the
  compartment of the call.
\<close>

theorem secpoline_mmap_tracks:
  assumes "cid = TS_MONITOR \<and> sud_selector s = SUD_ALLOW \<or> cid = TS_APPLICATION"
    and "prot AND 4 = 0" "flags AND MAP_HUGETLB = 0" "(flags OR 2) AND 16 = 0" "page_aligned st"
    and "wf_pages (pages s)" "2 \<le> free_pages s" "\<not> pm_lock s"
    and "\<And>via. kernel E (SCall via (sud_selector s) NR_mmap st sz prot (flags OR 2) (-1) 0 # trace s) = r"
    and "\<And>via sel t. kernel E (SCall via sel NR_pkey_mprotect r sz prot (scast (get_pkey cid)) 0 0 # t) = 0"
    and "0 <s r" "page_aligned r" "unat r + unat (page_round sz) < 2 ^ 64" "page_round sz \<noteq> 0"
    and "\<And>a. in_range r (r + page_round sz) a \<Longrightarrow> tracked (pages s) a = None"
  shows "\<exists>s'. secpoline_mmap E st sz prot flags (-1) off cid s = Inr (r, s') \<and> wf_pages (pages s') \<and>
    tracked (pages s') = (\<lambda>a. if in_range r (r + page_round sz) a then Some (ucast prot, ucast (flags OR 2), cid)
      else tracked (pages s) a)"
proof -
  obtain t where k: "syscall_wrapper E NR_mmap st sz prot (flags OR 2) (-1) 0 cid s = (r, s\<lparr>trace := t\<rparr>)"
    using wrapper_answer [OF assms(9)] by blast
  have p: "get_pkey cid \<noteq> -1" "cid = TS_MONITOR \<longrightarrow> sud_selector s = SUD_ALLOW" using assms(1) by (auto simp: get_pkey_def)
  have "sz \<noteq> 0" using assms(14) page_round_zero by auto
  then have "secpoline_mmap E st sz prot flags (-1) off cid s =
      mmap_tail E sz (ucast prot) prot (flags OR 2) False cid False (prot AND 2 \<noteq> 0) r (s\<lparr>trace := t\<rparr>)"
    using p k assms(2-5) unfolding secpoline_mmap_def mmap_tail_def Let_def by simp
  moreover have pg: "pages (s\<lparr>trace := t\<rparr>) = pages s" by simp
  ultimately show ?thesis
    using mmap_tail_data [of r "s\<lparr>trace := t\<rparr>" sz E prot cid "ucast prot" "flags OR 2" "prot AND 2 \<noteq> 0", unfolded pg] assms
    by simp
qed

theorem secpoline_mmap_tracks_witness:
  "\<exists>s'. secpoline_mmap demo_map_env 0 5000 3 32 (-1) 0 1 demo_erim = Inr (0x20000, s') \<and>
     tracked (pages s') 0x21000 = Some (3, 34, 1)"
proof -
  have sz: "page_round 5000 = 8192" by (simp add: page_round_eval)
  have "\<exists>s'. secpoline_mmap demo_map_env 0 5000 3 32 (-1) 0 1 demo_erim = Inr (0x20000, s') \<and> wf_pages (pages s') \<and>
    tracked (pages s') = (\<lambda>a. if in_range 0x20000 (0x20000 + page_round 5000) a
      then Some (ucast (3 :: u64), ucast ((32 :: u64) OR 2), 1) else tracked (pages demo_erim) a)"
    by (rule secpoline_mmap_tracks)
      (simp_all add: sz page_aligned_def demo_erim_def demo_page_def wf_Cons good_page_def page_before_def
        range_defs in_range_def tracked_def covers_def word_sless_alt)
  then show ?thesis by (auto simp: sz in_range_def)
qed



text \<open>
  The check of a fixed move is the wrong way round. For \<open>MREMAP_MAYMOVE|MREMAP_FIXED\<close> of mapped memory, a target
  that belongs entirely to the caller is refused with \<open>EFAULT\<close>; any other target, memory of the other
  compartment included, is handed to the kernel once the source has been removed from the list.
\<close>

theorem mremap_fixed_check:
  assumes "flags AND MREMAP_MAYMOVE \<noteq> 0" "flags AND MREMAP_FIXED \<noteq> 0" "flags AND MREMAP_DONTUNMAP = 0"
    and "old_size \<noteq> 0" "new_size \<noteq> 0" "page_aligned st" "page_aligned new_start" "page_aligned old_size" "page_aligned new_size"
    and "wf_pages (pages s)" "\<not> pm_lock s" "sud_selector s = SUD_ALLOW \<or> sud_selector s = SUD_BLOCK"
    and "p \<in> set (pages s)" "covers p st" "vp_Cid p = cid" "unat new_start + unat new_size < 2 ^ 64"
  shows "handle_mremap E st old_size new_size flags new_start cid s =
    (if \<forall>b. in_range new_start (new_start + new_size) b \<longrightarrow> owned (pages s) cid b then Inr (- EFAULT, s)
     else rbind (remove_page E st old_size cid s)
       (\<lambda>(r, s). if r \<noteq> 0 then Inr (- EFAULT, s)
          else let (new_addr, s) = syscall_wrapper E NR_mremap st old_size new_size (scast flags) new_start 0 cid s
               in nolibc_assert (new_addr > 0)
                 (rbind (add_page E new_addr new_size (vp_prot p) cid flags False s)
                    (\<lambda>(r, s). nolibc_assert (r = 0) (Inr (new_addr, s))))))"
proof -
  have res0: "restore_sud (get_sud s) ((enter s)\<lparr>pm_lock := False\<rparr>) = s"
    using assms(11,12) by (cases s) (auto simp: sud_defs)
  have l1: "lookup_addr st cid s = Inr (Some p, s)"
    using assms(10,11,13-15) res0 by (simp add: lookup_addr_def locked_def Let_def enter_pages lookup_addr_locked_iff)
  have ne: "pages s \<noteq> []" using assms(13) by auto
  obtain res where "lookup_range_locked (pages s) new_start new_size cid = Inr res"
    and iff: "res \<noteq> None \<longleftrightarrow> (\<forall>b. in_range new_start (new_start + new_size) b \<longrightarrow> owned (pages s) cid b)"
    using lookup_range_locked_iff [OF assms(10) ne assms(16,5), of cid] by blast
  then have l2: "lookup_range new_start new_size cid s = Inr (res, s)"
    using assms(11) res0 by (simp add: lookup_range_def locked_def Let_def enter_pages)
  show ?thesis
    using assms(1-9) unfolding handle_mremap_def
    by (cases "remove_page E st old_size cid s") (auto simp: l1 l2 iff [symmetric])
qed

theorem mremap_fixed_check_witness:
  "handle_mremap demo_env 16384 4096 4096 3 20480 1 demo_vpm = Inr (- EFAULT, demo_vpm) \<and>
   (\<exists>s1. remove_page demo_env 16384 4096 1 demo_vpm = Inr (0, s1) \<and>
     handle_mremap demo_env 16384 4096 4096 3 65536 1 demo_vpm =
       (let (new_addr, s) = syscall_wrapper demo_env NR_mremap 16384 4096 4096 3 65536 0 1 s1
        in nolibc_assert (new_addr > 0)
          (rbind (add_page demo_env new_addr 4096 3 1 3 False s)
             (\<lambda>(r, s). nolibc_assert (r = 0) (Inr (new_addr, s))))))"
proof -
  let ?p = "demo_page 16384 16384 3 1"
  have p: "?p \<in> set (pages demo_vpm)" "covers ?p 16384" "vp_Cid ?p = 1"
    by (simp_all add: demo_defs covers_def range_defs)
  have sel: "sud_selector demo_vpm = SUD_ALLOW \<or> sud_selector demo_vpm = SUD_BLOCK" by (simp add: demo_vpm_def)
  note c = mremap_fixed_check [of 3 4096 4096 16384 _ demo_vpm ?p 1 demo_env, OF _ _ _ _ _ _ _ _ _ demo_wf demo_pool(3) sel p]
  have "owned (pages demo_vpm) 1 b" if "in_range 20480 (20480 + 4096) b" for b
    using that demo_wf by (auto simp: owned_iff in_range_def demo_defs covers_def range_defs)
  then have a: "handle_mremap demo_env 16384 4096 4096 3 20480 1 demo_vpm = Inr (- EFAULT, demo_vpm)"
    using c [of 20480] by (simp add: page_aligned_def)
  have "\<not> owned (pages demo_vpm) 1 65536"
    using demo_wf by (auto simp: owned_iff demo_defs covers_def range_defs)
  then have n: "\<not> (\<forall>b. in_range 65536 (65536 + 4096) b \<longrightarrow> owned (pages demo_vpm) 1 b)"
    by (auto simp: in_range_def intro!: exI [of _ 65536])
  obtain s1 where r: "remove_page demo_env 16384 4096 1 demo_vpm = Inr (0, s1)"
    by (simp add: demo_defs page_run_defs)
  have "handle_mremap demo_env 16384 4096 4096 3 65536 1 demo_vpm =
       (let (new_addr, s) = syscall_wrapper demo_env NR_mremap 16384 4096 4096 3 65536 0 1 s1
        in nolibc_assert (new_addr > 0)
          (rbind (add_page demo_env new_addr 4096 3 1 3 False s)
             (\<lambda>(r, s). nolibc_assert (r = 0) (Inr (new_addr, s)))))"
    using c [of 65536, unfolded if_not_P [OF n] r] by (simp add: page_aligned_def demo_page_def)
  with a r show ?thesis by blast
qed

end
