(* ===== verification/Isolation.thy ===== *)
theory Isolation
  imports MapsProps
begin

text \<open>
  Protection keys and the copies between the compartments, from \<open>src/src/include/mpk_isolation.h\<close> and
  \<open>src/src/syscall_monitor/mpk_isolation.cpp\<close>.

  The key register has two bits per key, access disable and write disable. The processor's check
  of an access needs the permissions and the key of the page, which the environment gives. A copy
  into application memory is recorded with its address and bytes; application memory itself belongs
  to the environment, since other threads of the application can write to it at any time.
\<close>

section \<open>The key register\<close>

record iso = erim +
  pkru :: c_int
  compartment_id :: u8
  copied :: "(addr \<times> u8 list) list"

abbreviation (input) GRANT_FULL_PERMISSIONS :: c_int where "GRANT_FULL_PERMISSIONS \<equiv> 0x7fffffc0"
abbreviation (input) GRANT_TRUSTED_PERMISSIONS :: c_int where "GRANT_TRUSTED_PERMISSIONS \<equiv> 0x7ffffff0"

definition key_ok :: "c_int \<Rightarrow> bool \<Rightarrow> nat \<Rightarrow> bool" where
  "key_ok pk wr k \<longleftrightarrow> \<not> bit pk (2 * k) \<and> (wr \<longrightarrow> \<not> bit pk (2 * k + 1))"

definition access_ok :: "env \<Rightarrow> scall list \<Rightarrow> c_int \<Rightarrow> bool \<Rightarrow> addr \<Rightarrow> bool" where
  "access_ok E t pk wr a \<longleftrightarrow> bit (page_perm E t a) (if wr then 1 else 0) \<and> key_ok pk wr (page_key E t a)"

definition range_ok :: "env \<Rightarrow> scall list \<Rightarrow> c_int \<Rightarrow> bool \<Rightarrow> addr \<Rightarrow> nat \<Rightarrow> bool" where
  "range_ok E t pk wr a n \<longleftrightarrow> list_all (\<lambda>i. access_ok E t pk wr (a + of_nat i)) [0..<n]"

definition internal_wrpkru :: "c_int \<Rightarrow> 'z iso_scheme \<Rightarrow> 'z iso_scheme res" where
  "internal_wrpkru v s = nolibc_assert (compartment_id s = ucast TS_MONITOR) (Inr (s\<lparr>pkru := v\<rparr>))"

definition rdpkru :: "'z iso_scheme \<Rightarrow> c_int" where
  "rdpkru s = pkru s"

text \<open>Both checks access the eight bytes at the address with the application's rights; the first one
  reads and writes them, the second one reads.\<close>

definition mpk_check :: "env \<Rightarrow> addr \<Rightarrow> c_int \<Rightarrow> 'z iso_scheme \<Rightarrow> 'z iso_scheme res" where
  "mpk_check E address pkru_after s =
     (if range_ok E (trace s) REVOKE_PERMISSIONS False address 8 \<and> range_ok E (trace s) REVOKE_PERMISSIONS True address 8
      then internal_wrpkru pkru_after s else Inl Segv)"

definition mpk_check_readonly :: "env \<Rightarrow> addr \<Rightarrow> c_int \<Rightarrow> 'z iso_scheme \<Rightarrow> 'z iso_scheme res" where
  "mpk_check_readonly E address pkru_after s =
     (if range_ok E (trace s) REVOKE_PERMISSIONS False address 8
      then internal_wrpkru pkru_after s else Inl Segv)"

section \<open>Copies between the compartments\<close>

text \<open>\<open>for(size_t address = start_page; address <= end_page; address+=PAGE_SIZE)\<close>. The bound is enough unless the
  last page of the address space is included, where the addition wraps.\<close>

primrec check_pages :: "nat \<Rightarrow> (addr \<Rightarrow> 's \<Rightarrow> 's res) \<Rightarrow> addr \<Rightarrow> addr \<Rightarrow> 's \<Rightarrow> 's res" where
  "check_pages 0 chk a en s = (if a \<le> en then Inl NoFuel else Inr s)"
| "check_pages (Suc n) chk a en s =
     (if a \<le> en then rbind (chk a s) (check_pages n chk (a + PAGE_SIZE) en) else Inr s)"

definition is_buffer_untrusted :: "env \<Rightarrow> addr \<Rightarrow> c_int \<Rightarrow> c_int \<Rightarrow> bool \<Rightarrow> 'z iso_scheme \<Rightarrow> 'z iso_scheme res" where
  "is_buffer_untrusted E st sz pkru_after readonly s =
     (let start_page = page_of st; end_page = page_of (st + scast sz);
          chk = (if readonly then mpk_check_readonly else mpk_check)
      in if start_page \<noteq> end_page
         then check_pages (Suc (unat (end_page - start_page) div 4096)) (\<lambda>a. chk E a pkru_after) start_page end_page s
         else chk E st pkru_after s)"

text \<open>The result of the first copy is the bytes that were read; the second one takes the bytes to write.\<close>

definition memcpy_untrusted_to_trusted :: "env \<Rightarrow> addr \<Rightarrow> c_int \<Rightarrow> 'z iso_scheme \<Rightarrow> (u8 list \<times> 'z iso_scheme) res" where
  "memcpy_untrusted_to_trusted E src sz s =
     nolibc_assert (rdpkru s = GRANT_TRUSTED_PERMISSIONS)
     (rbind (is_buffer_untrusted E src sz GRANT_FULL_PERMISSIONS True s)
      (\<lambda>s. let n = unat (scast sz :: u64) in
         if range_ok E (trace s) (pkru s) False src n
         then rbind (internal_wrpkru GRANT_TRUSTED_PERMISSIONS s)
                (\<lambda>s. Inr (map (\<lambda>i. mem_at E s (src + of_nat i)) [0..<n], s))
         else Inl Segv))"

definition memcpy_trusted_to_untrusted :: "env \<Rightarrow> addr \<Rightarrow> u8 list \<Rightarrow> c_int \<Rightarrow> 'z iso_scheme \<Rightarrow> 'z iso_scheme res" where
  "memcpy_trusted_to_untrusted E dest bytes sz s =
     nolibc_assert (rdpkru s = GRANT_TRUSTED_PERMISSIONS)
     (rbind (is_buffer_untrusted E dest sz GRANT_FULL_PERMISSIONS False s)
      (\<lambda>s. let n = unat (scast sz :: u64) in
         if range_ok E (trace s) (pkru s) True dest n
         then internal_wrpkru GRANT_TRUSTED_PERMISSIONS (s\<lparr>copied := (dest, take n bytes) # copied s\<rparr>)
         else Inl Segv))"

text \<open>\<open>mapping_in_list\<close> over the start addresses of the loader's list.\<close>

definition mapping_in_list :: "u64 \<Rightarrow> u64 list \<Rightarrow> bool" where
  "mapping_in_list mapping_address m_list = list_ex (\<lambda>a. mapping_address = a) m_list"

section \<open>What the keys grant\<close>

lemma less_16: "k < (16 :: nat) \<longleftrightarrow> k \<in> set [0,1,2,3,4,5,6,7,8,9,10,11,12,13,14,15]"
  unfolding list.set insert_iff empty_iff by presburger

lemma key_revoke:
  assumes "k < 16"
  shows "key_ok REVOKE_PERMISSIONS wr k \<longleftrightarrow> k = 2 \<or> (k = 1 \<and> \<not> wr)"
  using assms unfolding less_16 list.set insert_iff empty_iff
  by (elim disjE) (simp_all add: key_ok_def)

text \<open>What the processor guarantees of keys: there are sixteen, and a page has one.\<close>

definition paged_keys :: "env \<Rightarrow> bool" where
  "paged_keys E \<longleftrightarrow> (\<forall>t a. page_key E t a < 16 \<and> page_key E t a = page_key E t (page_of a))"

definition untrusted_byte :: "env \<Rightarrow> scall list \<Rightarrow> bool \<Rightarrow> addr \<Rightarrow> bool" where
  "untrusted_byte E t wr a \<longleftrightarrow> page_key E t a = 2 \<or> (page_key E t a = 1 \<and> \<not> wr)"

lemma access_untrusted:
  assumes "paged_keys E" "access_ok E t REVOKE_PERMISSIONS wr a" "page_of b = page_of a"
  shows "untrusted_byte E t wr b"
proof -
  have "page_key E t b = page_key E t a" "page_key E t a < 16" using assms(1,3) by (metis paged_keys_def)+
  with assms(2) show ?thesis by (simp add: access_ok_def untrusted_byte_def key_revoke)
qed

lemma internal_wrpkru_eq_Inr [res_simps]:
  "internal_wrpkru v s = Inr s' \<longleftrightarrow> compartment_id s = 0 \<and> s' = s\<lparr>pkru := v\<rparr>"
  by (auto simp: internal_wrpkru_def nolibc_assert_eq_Inr)

lemma range_ok_first: "range_ok E t pk wr a n \<Longrightarrow> 0 < n \<Longrightarrow> access_ok E t pk wr a"
  unfolding range_ok_def list_all_iff by (drule bspec [of _ _ 0]) auto

lemma mpk_check_run:
  "mpk_check E a v s = Inr s' \<Longrightarrow> access_ok E (trace s) REVOKE_PERMISSIONS True a \<and> s' = s\<lparr>pkru := v\<rparr> \<and> compartment_id s = 0"
  by (auto simp: mpk_check_def internal_wrpkru_eq_Inr dest: range_ok_first split: if_splits)

lemma mpk_check_readonly_run:
  "mpk_check_readonly E a v s = Inr s' \<Longrightarrow> access_ok E (trace s) REVOKE_PERMISSIONS False a \<and> s' = s\<lparr>pkru := v\<rparr> \<and> compartment_id s = 0"
  by (auto simp: mpk_check_readonly_def internal_wrpkru_eq_Inr dest: range_ok_first split: if_splits)

text \<open>The check of a single page, as the buffer check uses it.\<close>

definition buffer_chk :: "env \<Rightarrow> bool \<Rightarrow> addr \<Rightarrow> c_int \<Rightarrow> 'z iso_scheme \<Rightarrow> 'z iso_scheme res" where
  "buffer_chk E readonly = (if readonly then mpk_check_readonly E else mpk_check E)"

lemma buffer_chk_run:
  "buffer_chk E ro a v s = Inr s' \<Longrightarrow> access_ok E (trace s) REVOKE_PERMISSIONS (\<not> ro) a \<and> s' = s\<lparr>pkru := v\<rparr> \<and> compartment_id s = 0"
  by (cases ro) (simp_all add: buffer_chk_def mpk_check_run mpk_check_readonly_run)

lemma check_pages_all:
  assumes "\<And>a s s'. chk a s = Inr s' \<Longrightarrow> I s \<Longrightarrow> P a \<and> I s'"
    and "check_pages n chk a en s = Inr s'" "I s"
  shows "I s' \<and> (\<forall>k. unat a + 4096 * k \<le> unat en \<longrightarrow> P (a + of_nat (4096 * k)))"
  using assms(2,3)
proof (induction n arbitrary: a s)
  case (Suc n)
  show ?case
  proof (cases "a \<le> en")
    case True
    with Suc.prems obtain s1 where c: "chk a s = Inr s1" and r: "check_pages n chk (a + PAGE_SIZE) en s1 = Inr s'"
      by (auto simp: rbind_eq_Inr)
    from assms(1) [OF c Suc.prems(2)] have pa: "P a" and i1: "I s1" by blast+
    note ih = Suc.IH [OF r i1]
    have "P (a + of_nat (4096 * k))" if k: "unat a + 4096 * k \<le> unat en" for k
    proof (cases k)
      case (Suc j)
      have "unat (a + PAGE_SIZE) = unat a + 4096"
        using k Suc unat_lt_2p64 [of en] unat_plus_nowrap [of a PAGE_SIZE] by simp
      with k Suc have "unat (a + PAGE_SIZE) + 4096 * j \<le> unat en" by simp
      with ih have "P (a + PAGE_SIZE + of_nat (4096 * j))" by blast
      then show ?thesis by (simp add: Suc algebra_simps)
    qed (simp add: pa)
    with ih show ?thesis by blast
  next
    case False
    with Suc.prems show ?thesis by (auto simp: word_le_nat_alt)
  qed
qed (auto simp: word_le_nat_alt split: if_splits)

lemma page_of_le: "unat (page_of a) \<le> unat a" "4096 dvd unat (page_of a)" "unat a < unat (page_of a) + 4096"
proof -
  show "unat (page_of a) \<le> unat a" by (simp add: unat_page_of)
  show "4096 dvd unat (page_of a)" by (simp add: unat_page_of minus_mod_eq_div_mult)
  have "unat a mod 4096 < 4096" by simp
  then show "unat a < unat (page_of a) + 4096" by (simp add: unat_page_of)
qed

lemma page_of_mono:
  assumes "unat a \<le> unat b"
  shows "unat (page_of a) \<le> unat (page_of b)"
proof -
  obtain i j where "unat (page_of a) = 4096 * i" "unat (page_of b) = 4096 * j" using page_of_le(2) by (meson dvdE)
  with page_of_le [of a] page_of_le [of b] assms show ?thesis by simp
qed

lemma unat_of_nat_small: "n < 2 ^ 64 \<Longrightarrow> unat (of_nat n :: u64) = n"
  by (simp add: unsigned_of_nat take_bit_nat_eq_self)

lemma buffer_page:
  assumes "unat st + n < 2 ^ 64" "i < n"
  obtains k where "page_of (st + of_nat i) = page_of st + of_nat (4096 * k)"
    "unat (page_of st) + 4096 * k \<le> unat (page_of (st + of_nat n))"
proof -
  have u: "unat (st + of_nat j) = unat st + j" if "j \<le> n" for j
  proof -
    have "unat (of_nat j :: u64) = j" using that assms(1) by (intro unat_of_nat_small) simp
    then show ?thesis using that assms(1) unat_plus_nowrap [of st "of_nat j"] by simp
  qed
  let ?p = "page_of (st + of_nat i)"
  have le: "unat (page_of st) \<le> unat ?p" "unat ?p \<le> unat (page_of (st + of_nat n))"
    using assms u [of i] u [of n] by (auto intro!: page_of_mono)
  then have "4096 dvd unat ?p - unat (page_of st)" using page_of_le(2) by (simp add: dvd_diff_nat)
  then obtain k where k: "unat ?p = unat (page_of st) + 4096 * k" using le by (metis dvdE le_add_diff_inverse)
  have "4096 * k < 2 ^ 64" using k unat_lt_2p64 [of ?p] by simp
  then have "unat (of_nat (4096 * k) :: u64) = 4096 * k" by (rule unat_of_nat_small)
  then have "unat (page_of st + of_nat (4096 * k)) = unat ?p"
    using k unat_lt_2p64 [of ?p] unat_plus_nowrap [of "page_of st" "of_nat (4096 * k)"] by (simp del: of_nat_mult)
  then have "?p = page_of st + of_nat (4096 * k)" by (simp add: word_unat_eq_iff del: of_nat_mult)
  with k le(2) show thesis by (intro that) simp_all
qed

lemma page_of_page: "page_of (page_of a) = page_of a"
  by (simp add: page_of_def)

lemma is_buffer_eq:
  "is_buffer_untrusted E st sz v ro s =
     (if page_of st \<noteq> page_of (st + scast sz)
      then check_pages (Suc (unat (page_of (st + scast sz) - page_of st) div 4096)) (\<lambda>a. buffer_chk E ro a v)
             (page_of st) (page_of (st + scast sz)) s
      else buffer_chk E ro st v s)"
  by (simp add: is_buffer_untrusted_def buffer_chk_def Let_def)

lemma buffer_untrusted:
  assumes keys: "paged_keys E" and run: "is_buffer_untrusted E st sz v ro s = Inr s'"
    and n: "unat st + unat (scast sz :: u64) < 2 ^ 64" "i < unat (scast sz :: u64)"
  shows "untrusted_byte E (trace s) (\<not> ro) (st + of_nat i) \<and> (\<exists>p. s' = s\<lparr>pkru := p\<rparr>)"
proof -
  let ?n = "unat (scast sz :: u64)"
  define chk where "chk = (\<lambda>a. buffer_chk E ro a v :: 'a iso_scheme \<Rightarrow> 'a iso_scheme res)"
  have c: "buffer_chk E ro a v s = chk a s" for a by (simp add: chk_def)
  note eq = is_buffer_eq [of E st sz v ro s, folded chk_def, unfolded c]
  have w: "(scast sz :: u64) = of_nat ?n" by simp
  obtain k where k: "page_of (st + of_nat i) = page_of st + of_nat (4096 * k)"
    "unat (page_of st) + 4096 * k \<le> unat (page_of (st + scast sz))"
    using buffer_page [OF n] w by metis
  show ?thesis
  proof (cases "page_of st = page_of (st + scast sz)")
    case True
    then have "chk st s = Inr s'" using run eq by simp
    then have "access_ok E (trace s) REVOKE_PERMISSIONS (\<not> ro) st \<and> s' = s\<lparr>pkru := v\<rparr>"
      unfolding chk_def by (blast dest: buffer_chk_run)
    moreover have "page_of (st + of_nat i) = page_of st" using k True by simp
    ultimately show ?thesis using access_untrusted [OF keys] by blast
  next
    case False
    define I where "I t \<longleftrightarrow> (\<exists>p. t = s\<lparr>pkru := p\<rparr>)" for t
    define P where "P a \<longleftrightarrow> access_ok E (trace s) REVOKE_PERMISSIONS (\<not> ro) a" for a
    have step: "P a \<and> I t'" if "chk a t = Inr t'" "I t" for a t t'
      using buffer_chk_run [OF that(1) [unfolded chk_def]] that(2) by (auto simp: I_def P_def)
    have "I s" unfolding I_def by (intro exI [of _ "pkru s"]) simp
    moreover have "check_pages (Suc (unat (page_of (st + scast sz) - page_of st) div 4096)) chk (page_of st)
        (page_of (st + scast sz)) s = Inr s'"
      using run eq False by simp
    ultimately have "I s' \<and> (\<forall>k. unat (page_of st) + 4096 * k \<le> unat (page_of (st + scast sz)) \<longrightarrow> P (page_of st + of_nat (4096 * k)))"
      by (intro check_pages_all [of chk I P, OF step])
    with k have "I s'" "P (page_of (st + of_nat i))" by simp_all
    then show ?thesis using access_untrusted [OF keys _ page_of_page [symmetric]] by (auto simp: I_def P_def)
  qed
qed

lemma is_buffer_state:
  assumes "is_buffer_untrusted E st sz v ro s = Inr s'"
  shows "\<exists>p. s' = s\<lparr>pkru := p\<rparr>"
proof -
  define chk where "chk = (\<lambda>a. buffer_chk E ro a v :: 'a iso_scheme \<Rightarrow> 'a iso_scheme res)"
  have c: "buffer_chk E ro a v s = chk a s" for a by (simp add: chk_def)
  have step: "True \<and> (\<exists>p. t' = s\<lparr>pkru := p\<rparr>)" if "chk a t = Inr t'" "\<exists>p. t = s\<lparr>pkru := p\<rparr>" for a t t'
    using buffer_chk_run [OF that(1) [unfolded chk_def]] that(2) by auto
  have "s = s\<lparr>pkru := pkru s\<rparr>" by simp
  then have s: "\<exists>p. s = s\<lparr>pkru := p\<rparr>" by blast
  have "(if page_of st \<noteq> page_of (st + scast sz)
      then check_pages (Suc (unat (page_of (st + scast sz) - page_of st) div 4096)) chk (page_of st) (page_of (st + scast sz)) s
      else chk st s) = Inr s'"
    using assms is_buffer_eq [of E st sz v ro s, folded chk_def, unfolded c] by metis
  then show ?thesis
    using check_pages_all [of chk "\<lambda>t. \<exists>p. t = s\<lparr>pkru := p\<rparr>" "\<lambda>_. True", OF step _ s] step [OF _ s]
    by (auto simp del: check_pages.simps split: if_splits)
qed

text \<open>What the copies change.\<close>

lemma copy_out_state:
  assumes "memcpy_trusted_to_untrusted E dest bytes sz s = Inr s'"
  shows "s' = s\<lparr>copied := (dest, take (unat (scast sz :: u64)) bytes) # copied s, pkru := GRANT_TRUSTED_PERMISSIONS\<rparr>"
proof -
  obtain s1 where b: "is_buffer_untrusted E dest sz GRANT_FULL_PERMISSIONS False s = Inr s1"
    and s': "s' = s1\<lparr>copied := (dest, take (unat (scast sz :: u64)) bytes) # copied s1, pkru := GRANT_TRUSTED_PERMISSIONS\<rparr>"
    using assms by (auto simp: memcpy_trusted_to_untrusted_def res_simps Let_def split: if_splits)
  obtain p where "s1 = s\<lparr>pkru := p\<rparr>" using is_buffer_state [OF b] by blast
  with s' show ?thesis by simp
qed

lemma copy_in_state:
  assumes "memcpy_untrusted_to_trusted E src sz s = Inr (bytes, s')"
  shows "s' = s\<lparr>pkru := GRANT_TRUSTED_PERMISSIONS\<rparr> \<and>
    bytes = map (\<lambda>i. mem_at E s (src + of_nat i)) [0..<unat (scast sz :: u64)]"
proof -
  obtain s1 where b: "is_buffer_untrusted E src sz GRANT_FULL_PERMISSIONS True s = Inr s1"
    and k: "(let n = unat (scast sz :: u64) in
         if range_ok E (trace s1) (pkru s1) False src n
         then rbind (internal_wrpkru GRANT_TRUSTED_PERMISSIONS s1)
                (\<lambda>s. Inr (map (\<lambda>i. mem_at E s (src + of_nat i)) [0..<n], s))
         else Inl Segv) = Inr (bytes, s')"
    using assms unfolding memcpy_untrusted_to_trusted_def nolibc_assert_eq_Inr rbind_eq_Inr by blast
  then have r: "bytes = map (\<lambda>i. mem_at E (s1\<lparr>pkru := GRANT_TRUSTED_PERMISSIONS\<rparr>) (src + of_nat i)) [0..<unat (scast sz :: u64)]"
    and s': "s' = s1\<lparr>pkru := GRANT_TRUSTED_PERMISSIONS\<rparr>"
    by (auto simp: res_simps Let_def split: if_splits)
  obtain p where s1: "s1 = s\<lparr>pkru := p\<rparr>" using is_buffer_state [OF b] by blast
  have m: "mem_at E (s\<lparr>pkru := q\<rparr>) = mem_at E s" for q by (rule ext) (simp add: mem_at_def)
  show ?thesis using r s' s1 m by simp
qed

section \<open>Properties\<close>

text \<open>
  C10. Copies into the application stay there. A copy to application memory that returns has written
  only bytes of pages tagged with the application's key, whatever pointer the application gave,
  and leaves the monitor with its trusted rights.
\<close>

theorem memcpy_trusted_to_untrusted_safe:
  assumes "paged_keys E" "memcpy_trusted_to_untrusted E dest bytes sz s = Inr s'"
    and "unat dest + unat (scast sz :: u64) < 2 ^ 64" "i < unat (scast sz :: u64)"
  shows "page_key E (trace s) (dest + of_nat i) = 2 \<and> trace s' = trace s \<and> pkru s' = GRANT_TRUSTED_PERMISSIONS \<and>
    copied s' = (dest, take (unat (scast sz :: u64)) bytes) # copied s"
proof -
  obtain s1 where "is_buffer_untrusted E dest sz GRANT_FULL_PERMISSIONS False s = Inr s1"
    using assms(2) by (auto simp: memcpy_trusted_to_untrusted_def res_simps)
  from buffer_untrusted [OF assms(1) this assms(3,4)] copy_out_state [OF assms(2)] show ?thesis
    by (auto simp: untrusted_byte_def)
qed

text \<open>
  C11. Copies from the application. A copy from application memory that returns has read only bytes of
  pages with the application's key or the key of the pages the application may read, and returns
  exactly those bytes.
\<close>

theorem memcpy_untrusted_to_trusted_safe:
  assumes "paged_keys E" "memcpy_untrusted_to_trusted E src sz s = Inr (bytes, s')"
    and "unat src + unat (scast sz :: u64) < 2 ^ 64" "i < unat (scast sz :: u64)"
  shows "page_key E (trace s) (src + of_nat i) \<in> {1, 2} \<and> length bytes = unat (scast sz :: u64) \<and>
    bytes ! i = mem_at E s (src + of_nat i) \<and> pkru s' = GRANT_TRUSTED_PERMISSIONS"
proof -
  obtain s1 where "is_buffer_untrusted E src sz GRANT_FULL_PERMISSIONS True s = Inr s1"
    using assms(2) unfolding memcpy_untrusted_to_trusted_def nolibc_assert_eq_Inr rbind_eq_Inr by blast
  from buffer_untrusted [OF assms(1) this assms(3,4)] have "page_key E (trace s) (src + of_nat i) \<in> {1, 2}"
    by (auto simp: untrusted_byte_def)
  with copy_in_state [OF assms(2)] assms(4) show ?thesis by simp
qed

definition demo_iso :: iso where
  "demo_iso = erim.extend demo_erim \<lparr>pkru = GRANT_TRUSTED_PERMISSIONS, compartment_id = 0, copied = []\<rparr>"

lemma demo_keys: "paged_keys demo_env"
  by (simp add: paged_keys_def demo_env_def)

lemma demo_range: "range_ok demo_env t pk wr a n \<longleftrightarrow> n = 0 \<or> key_ok pk wr 2"
  by (cases n) (auto simp: range_ok_def access_ok_def demo_env_def list_all_iff)

lemma demo_copy_out: "\<exists>s'. memcpy_trusted_to_untrusted demo_env 0x5ffc [1, 2, 3, 4, 5, 6, 7, 8] 8 demo_iso = Inr s'"
  by (simp add: memcpy_trusted_to_untrusted_def is_buffer_untrusted_def mpk_check_def demo_range key_ok_def internal_wrpkru_def
      rdpkru_def demo_iso_def erim.defs page_of_minus Let_def)

lemma demo_copy_in: "\<exists>b s'. memcpy_untrusted_to_trusted demo_env 0x5ffc 8 demo_iso = Inr (b, s')"
  by (simp add: memcpy_untrusted_to_trusted_def is_buffer_untrusted_def mpk_check_readonly_def demo_range key_ok_def internal_wrpkru_def
      rdpkru_def demo_iso_def erim.defs page_of_minus Let_def)

theorem memcpy_trusted_to_untrusted_safe_witness:
  "\<exists>s'. memcpy_trusted_to_untrusted demo_env 0x5ffc [1, 2, 3, 4, 5, 6, 7, 8] 8 demo_iso = Inr s' \<and>
     copied s' = [(0x5ffc, [1, 2, 3, 4, 5, 6, 7, 8])]"
proof -
  obtain s' where r: "memcpy_trusted_to_untrusted demo_env 0x5ffc [1, 2, 3, 4, 5, 6, 7, 8] 8 demo_iso = Inr s'"
    using demo_copy_out by blast
  from memcpy_trusted_to_untrusted_safe [OF demo_keys r, of 0] r show ?thesis
    by (simp add: demo_iso_def erim.defs)
qed

theorem memcpy_untrusted_to_trusted_safe_witness:
  "\<exists>b s'. memcpy_untrusted_to_trusted demo_env 0x5ffc 8 demo_iso = Inr (b, s') \<and> length b = 8 \<and> b ! 5 = 0"
proof -
  obtain b s' where r: "memcpy_untrusted_to_trusted demo_env 0x5ffc 8 demo_iso = Inr (b, s')" using demo_copy_in by blast
  from memcpy_untrusted_to_trusted_safe [OF demo_keys r, of 5] r show ?thesis
    by (simp add: mem_at_def demo_env_def)
qed

end
