(* ===== verification/Files.thy ===== *)
theory Files
  imports Isolation
begin

text \<open>
  File descriptors of the application, \<open>src/src/include/virtualize_files.h\<close> and
  \<open>src/src/syscall_handlers/virtualize_files.cpp\<close>: the bitmap of the descriptors the application may use, the
  handlers that keep it, and the handler of \<open>open\<close> that hides \<open>/proc/self/mem\<close>.

  The bitmap is the list of its bytes, so \<open>size\<close> is the length of the list. Allocation succeeds. The
  locks of the bitmap are taken and released within one operation and are not part of the state.
  The registers a handler works on are the record \<open>gprs\<close>.
\<close>

section \<open>Registers\<close>

record gprs =
  REG_RAX :: u64
  REG_RDI :: u64
  REG_RSI :: u64
  REG_RDX :: u64
  REG_R10 :: u64
  REG_R8 :: u64
  REG_R9 :: u64

abbreviation (input) arg1 :: "gprs \<Rightarrow> u64" where "arg1 g \<equiv> REG_RDI g"
abbreviation (input) arg2 :: "gprs \<Rightarrow> u64" where "arg2 g \<equiv> REG_RSI g"
abbreviation (input) arg3 :: "gprs \<Rightarrow> u64" where "arg3 g \<equiv> REG_RDX g"
abbreviation (input) arg4 :: "gprs \<Rightarrow> u64" where "arg4 g \<equiv> REG_R10 g"
abbreviation (input) arg5 :: "gprs \<Rightarrow> u64" where "arg5 g \<equiv> REG_R8 g"
abbreviation (input) arg6 :: "gprs \<Rightarrow> u64" where "arg6 g \<equiv> REG_R9 g"

text \<open>\<open>gprs->do_syscall()\<close>: the call with the application's rights; the answer goes to RAX.\<close>

definition do_syscall :: "env \<Rightarrow> gprs \<Rightarrow> 'z kern_scheme \<Rightarrow> gprs \<times> 'z kern_scheme" where
  "do_syscall E g s =
     (let (r, s) = do_syscall_untrusted E (arg1 g) (arg2 g) (arg3 g) (arg4 g) (arg5 g) (arg6 g) (REG_RAX g) s
      in (g\<lparr>REG_RAX := r\<rparr>, s))"

section \<open>The bitmap\<close>

definition bit_byte :: "u64 \<Rightarrow> nat" where
  "bit_byte index = unat (index div 8)"

definition bit_mask :: "u64 \<Rightarrow> u8" where
  "bit_mask index = push_bit (unat (index mod 8)) 1"

definition fd_set_bit :: "u64 \<Rightarrow> u8 list \<Rightarrow> u8 list res" where
  "fd_set_bit index m =
     (let byte_index = bit_byte index;
          new_size = (byte_index div 8 + 1) * 8;
          m = (if byte_index \<ge> length m then m @ replicate (new_size - length m) 0 else m)
      in nolibc_assert (length m > byte_index) (Inr (m[byte_index := m ! byte_index OR bit_mask index])))"

definition fd_unset_bit :: "u64 \<Rightarrow> u8 list \<Rightarrow> u8 list" where
  "fd_unset_bit index m =
     (let byte_index = bit_byte index in
      if byte_index \<ge> length m then m else m[byte_index := m ! byte_index AND NOT (bit_mask index)])"

definition fd_read_bit :: "u64 \<Rightarrow> u8 list \<Rightarrow> bool" where
  "fd_read_bit index m =
     (let byte_index = bit_byte index in
      byte_index < length m \<and> drop_bit (unat (index mod 8)) (m ! byte_index) AND 1 \<noteq> 0)"

text \<open>The constructor: one byte, and a bit for every descriptor that \<open>/proc/self/fd\<close> lists.\<close>

primrec fd_bitmap_fill :: "c_int list \<Rightarrow> u8 list \<Rightarrow> u8 list res" where
  "fd_bitmap_fill [] m = Inr m"
| "fd_bitmap_fill (fd # fds) m = rbind (fd_set_bit (scast fd) m) (fd_bitmap_fill fds)"

definition fd_bitmap_init :: "c_int list \<Rightarrow> u8 list res" where
  "fd_bitmap_init fds = fd_bitmap_fill fds [0]"

section \<open>Handlers\<close>

record files = iso +
  fd_map :: "u8 list"
  stat_mem :: "u64 \<times> u64"
  stat_mem_init :: bool

type_synonym 'z handler_res = "(u64 \<times> gprs \<times> 'z) res"

definition handler_save_untrusted_fd :: "gprs \<Rightarrow> 'z files_scheme \<Rightarrow> 'z files_scheme handler_res" where
  "handler_save_untrusted_fd g s =
     (let fd = (ucast (REG_RAX g) :: c_int) in
      if fd <s 0 then Inr (0, g, s)
      else rbind (fd_set_bit (scast fd) (fd_map s)) (\<lambda>m. Inr (0, g, s\<lparr>fd_map := m\<rparr>)))"

definition handler_close :: "env \<Rightarrow> gprs \<Rightarrow> 'z files_scheme \<Rightarrow> 'z files_scheme handler_res" where
  "handler_close E g s =
     (let fd = (ucast (arg1 g) :: c_int); (g, s) = do_syscall E g s in
      if REG_RAX g \<noteq> 0 then Inr (0, g, s)
      else Inr (0, g, s\<lparr>fd_map := fd_unset_bit (scast fd) (fd_map s)\<rparr>))"

definition fd_refused :: "u64 \<Rightarrow> 'z files_scheme \<Rightarrow> bool" where
  "fd_refused a s \<longleftrightarrow> \<not> fd_read_bit (scast (ucast a :: c_int)) (fd_map s)"

definition handler_fd_first_argument :: "gprs \<Rightarrow> 'z files_scheme \<Rightarrow> 'z files_scheme handler_res" where
  "handler_fd_first_argument g s =
     (if (ucast (arg1 g) :: c_int) <s 0 then Inr (0, g, s)
      else Inr (0, if fd_refused (arg1 g) s then g\<lparr>REG_RDI := -1\<rparr> else g, s))"

definition handler_fd_second_argument :: "gprs \<Rightarrow> 'z files_scheme \<Rightarrow> 'z files_scheme handler_res" where
  "handler_fd_second_argument g s = Inr (0, if fd_refused (arg2 g) s then g\<lparr>REG_RDI := -1\<rparr> else g, s)"

definition handler_fd_first_second_argument :: "gprs \<Rightarrow> 'z files_scheme \<Rightarrow> 'z files_scheme handler_res" where
  "handler_fd_first_second_argument g s =
     (let fd1 = arg1 g; fd2 = arg2 g;
          g = (if fd_refused fd1 s then g\<lparr>REG_RDI := -1\<rparr> else g)
      in Inr (0, if fd_refused fd2 s then g\<lparr>REG_RDI := -1\<rparr> else g, s))"

definition handler_fd_first_third_argument :: "gprs \<Rightarrow> 'z files_scheme \<Rightarrow> 'z files_scheme handler_res" where
  "handler_fd_first_third_argument g s =
     (let fd1 = arg1 g; fd3 = arg3 g;
          g = (if fd_refused fd1 s then g\<lparr>REG_RDI := -1\<rparr> else g)
      in Inr (0, if fd_refused fd3 s then g\<lparr>REG_RDI := -1\<rparr> else g, s))"

text \<open>
  \<open>open\<close>. The string and the two structures are at addresses the compiler chose, so they are arguments.
  The kernel writes a \<open>struct stat\<close> with the device at offset 0 and the inode at offset 8; the model
  reads them from memory right after the call.
\<close>

record open_addrs =
  mem_path :: addr
  stat_mem_addr :: addr
  stat_buf_addr :: addr

definition load64 :: "(addr \<Rightarrow> u8) \<Rightarrow> addr \<Rightarrow> u64" where
  "load64 m a = foldr (\<lambda>i w. push_bit 8 w OR ucast (m (a + of_nat i))) [0..<8] 0"

definition stat_at :: "env \<Rightarrow> 'z kern_scheme \<Rightarrow> addr \<Rightarrow> u64 \<times> u64" where
  "stat_at E s a = (load64 (mem_at E s) (a + 8), load64 (mem_at E s) a)"

definition open_stat_mem :: "env \<Rightarrow> open_addrs \<Rightarrow> 'z files_scheme \<Rightarrow> 'z files_scheme" where
  "open_stat_mem E A s =
     (if stat_mem_init s then s
      else let (fdx, s) = inline_syscall6 E NR_open (mem_path A) 0 0x180 0 0 0 s;
               (r, s) = inline_syscall6 E NR_fstat fdx (stat_mem_addr A) 0 0 0 0 s;
               s = s\<lparr>stat_mem := stat_at E s (stat_mem_addr A), stat_mem_init := True\<rparr>;
               (r, s) = inline_syscall6 E NR_close fdx 0 0 0 0 0 s
           in s)"

definition handler_open :: "env \<Rightarrow> open_addrs \<Rightarrow> gprs \<Rightarrow> 'z files_scheme \<Rightarrow> 'z files_scheme handler_res" where
  "handler_open E A g s =
     (let s = open_stat_mem E A s; (g, s) = do_syscall E g s; fd = REG_RAX g in
      if fd <s 0 then Inr (0, g, s)
      else
        let (r, s) = inline_syscall6 E NR_fstat fd (stat_buf_addr A) 0 0 0 0 s in
        if r <s 0
        then let (r, s) = inline_syscall6 E NR_close fd 0 0 0 0 0 s in Inr (0, g\<lparr>REG_RAX := - EACCES\<rparr>, s)
        else if stat_at E s (stat_buf_addr A) = stat_mem s
        then let (r, s) = inline_syscall6 E NR_close fd 0 0 0 0 0 s in Inr (0, g\<lparr>REG_RAX := - EACCES\<rparr>, s)
        else Inr (0, g, s))"

text \<open>\<open>close_range\<close> begins with \<open>assert(0)\<close>.\<close>

definition handler_close_range :: "gprs \<Rightarrow> 'z files_scheme \<Rightarrow> 'z files_scheme handler_res" where
  "handler_close_range g s = Inl Ud2"

end
