(* ===== verification/FilesProps.thy ===== *)
theory FilesProps
  imports Files
begin

text \<open>
  The bitmap as a set of descriptors, and the properties of the handlers that use it.
\<close>

section \<open>An interface for sets of identifiers\<close>

text \<open>A store with operations that add and remove an identifier and a membership test; what the
  test returns after any sequence of operations.\<close>

locale id_set =
  fixes inv :: "'s \<Rightarrow> bool" and has :: "'i \<Rightarrow> 's \<Rightarrow> bool" and add :: "'i \<Rightarrow> 's \<Rightarrow> 's" and del :: "'i \<Rightarrow> 's \<Rightarrow> 's"
  assumes inv_add: "inv s \<Longrightarrow> inv (add i s)" and inv_del: "inv s \<Longrightarrow> inv (del i s)"
    and has_add: "inv s \<Longrightarrow> has j (add i s) \<longleftrightarrow> j = i \<or> has j s"
    and has_del: "inv s \<Longrightarrow> has j (del i s) \<longleftrightarrow> j \<noteq> i \<and> has j s"
begin

primrec run :: "(bool \<times> 'i) list \<Rightarrow> 's \<Rightarrow> 's" where
  "run [] s = s"
| "run (op # ops) s = run ops (if fst op then add (snd op) s else del (snd op) s)"

lemma inv_run: "inv s \<Longrightarrow> inv (run ops s)"
  by (induction ops arbitrary: s) (auto simp: inv_add inv_del)

lemma has_run:
  assumes "inv s"
  shows "has i (run ops s) \<longleftrightarrow> (case find (\<lambda>op. snd op = i) (rev ops) of Some op \<Rightarrow> fst op | None \<Rightarrow> has i s)"
proof -
  have "inv s \<Longrightarrow> has i (run ops s) \<longleftrightarrow>
    foldl (\<lambda>b op. if snd op = i then fst op else b) (has i s) ops"
    by (induction ops arbitrary: s) (auto simp: inv_add inv_del has_add has_del)
  moreover have "foldl (\<lambda>b op. if snd op = i then fst op else b) c ops =
    (case find (\<lambda>op. snd op = i) (rev ops) of Some op \<Rightarrow> fst op | None \<Rightarrow> c)" for c
    by (induction ops rule: rev_induct) auto
  ultimately show ?thesis using assms by simp
qed

end

section \<open>The bitmap implements it\<close>

lemma bit_index: "unat (i div 8) * 8 + unat (i mod 8) = unat (i :: u64)" "unat (i mod 8) < 8"
  by (simp_all add: unat_div unat_mod)

lemma bit_index_eq: "bit_byte i = bit_byte j \<Longrightarrow> unat (i mod 8) = unat (j mod 8) \<Longrightarrow> i = j"
  using bit_index(1) [of i] bit_index(1) [of j] by (simp add: bit_byte_def word_unat_eq_iff)

lemma fd_read_bit_iff: "fd_read_bit i m \<longleftrightarrow> bit_byte i < length m \<and> bit (m ! bit_byte i) (unat (i mod 8))"
  by (simp add: fd_read_bit_def Let_def and_one_eq bit_iff_odd_drop_bit odd_iff_mod_2_eq_one)

lemma bit_mask_iff: "bit (bit_mask i) n \<longleftrightarrow> n = unat (i mod 8)"
  using bit_index(2) [of i] by (auto simp: bit_mask_def bit_simps)

text \<open>The resized bitmap of \<open>set_bit\<close>: the new bytes are zero, so no descriptor is added.\<close>

definition fd_grow :: "u64 \<Rightarrow> u8 list \<Rightarrow> u8 list" where
  "fd_grow i m = (if bit_byte i \<ge> length m then m @ replicate ((bit_byte i div 8 + 1) * 8 - length m) 0 else m)"

lemma fd_grow_length: "bit_byte i < length (fd_grow i m)"
  by (auto simp: fd_grow_def)

lemma fd_grow_read: "fd_read_bit j (fd_grow i m) = fd_read_bit j m"
  by (auto simp: fd_read_bit_iff fd_grow_def nth_append)

definition fd_put :: "u64 \<Rightarrow> u8 list \<Rightarrow> u8 list" where
  "fd_put i m = (fd_grow i m)[bit_byte i := fd_grow i m ! bit_byte i OR bit_mask i]"

lemma fd_set_bit_put: "fd_set_bit i m = Inr (fd_put i m)"
proof -
  have "fd_set_bit i m = nolibc_assert (length (fd_grow i m) > bit_byte i) (Inr (fd_put i m))"
    by (simp only: fd_set_bit_def fd_put_def fd_grow_def Let_def)
  with fd_grow_length [of i m] show ?thesis by simp
qed

lemma fd_put_read: "fd_read_bit j (fd_put i m) \<longleftrightarrow> j = i \<or> fd_read_bit j m"
proof -
  have "fd_read_bit j (fd_put i m) \<longleftrightarrow> j = i \<or> fd_read_bit j (fd_grow i m)"
    using fd_grow_length [of i m] bit_index_eq [of j i]
    by (auto simp: fd_read_bit_iff fd_put_def nth_list_update bit_simps bit_mask_iff)
  then show ?thesis by (simp add: fd_grow_read)
qed

lemma fd_unset_bit_read: "fd_read_bit j (fd_unset_bit i m) \<longleftrightarrow> j \<noteq> i \<and> fd_read_bit j m"
  using bit_index(2) [of j] bit_index_eq [of j i]
  by (auto simp: fd_read_bit_iff fd_unset_bit_def Let_def nth_list_update bit_simps bit_mask_iff)

interpretation fds: id_set "\<lambda>_. True" fd_read_bit fd_put fd_unset_bit
  by unfold_locales (simp_all add: fd_put_read fd_unset_bit_read)

lemma fd_bitmap_fill_run:
  "fd_bitmap_fill fds m = Inr (fds.run (map (\<lambda>fd. (True, scast fd)) fds) m)"
  by (induction fds arbitrary: m) (simp_all add: fd_set_bit_put)

lemma fd_read_fresh: "fd_read_bit i [0] = False"
  by (auto simp: fd_read_bit_iff)

lemma find_init: "(case find (\<lambda>op. snd op = i) (rev (map (\<lambda>fd. (True, f fd)) xs)) of Some op \<Rightarrow> fst op | None \<Rightarrow> False)
    \<longleftrightarrow> i \<in> f ` set xs"
  by (induction xs rule: rev_induct) auto

lemma fd_init_read: "fd_read_bit i (fds.run (map (\<lambda>fd. (True, scast fd)) fds) [0]) \<longleftrightarrow> i \<in> scast ` set (fds :: c_int list)"
  unfolding fds.has_run [OF TrueI] fd_read_fresh by (rule find_init)

section \<open>Properties\<close>

text \<open>The operations of the bitmap on a sequence of requests, \<open>True\<close> for \<open>set_bit\<close>.\<close>

primrec fd_ops :: "(bool \<times> u64) list \<Rightarrow> u8 list \<Rightarrow> u8 list res" where
  "fd_ops [] m = Inr m"
| "fd_ops (op # ops) m = (if fst op then rbind (fd_set_bit (snd op) m) (fd_ops ops) else fd_ops ops (fd_unset_bit (snd op) m))"

lemma fd_ops_run: "fd_ops ops m = Inr (fds.run ops m)"
  by (induction ops arbitrary: m) (simp_all add: fd_set_bit_put)

text \<open>
  C16. The bitmap is a set. Created from a list of open descriptors and then changed by any sequence of
  \<open>set_bit\<close> and \<open>unset_bit\<close> calls, it never fails, and \<open>read_bit\<close> answers whether the last call for the
  descriptor set it, or, without such a call, whether it was in the list.
\<close>

theorem fd_bitmap_is_set:
  "\<exists>m0 m. fd_bitmap_init fds = Inr m0 \<and> fd_ops ops m0 = Inr m \<and>
    (fd_read_bit i m \<longleftrightarrow> (case find (\<lambda>op. snd op = i) (rev ops) of Some op \<Rightarrow> fst op | None \<Rightarrow> i \<in> scast ` set fds))"
proof -
  let ?m0 = "fds.run (map (\<lambda>fd. (True, scast fd)) fds) [0]"
  have "fd_bitmap_init fds = Inr ?m0" by (simp add: fd_bitmap_init_def fd_bitmap_fill_run)
  moreover have "fd_ops ops ?m0 = Inr (fds.run ops ?m0)" by (rule fd_ops_run)
  moreover have "fd_read_bit i (fds.run ops ?m0) \<longleftrightarrow>
      (case find (\<lambda>op. snd op = i) (rev ops) of Some op \<Rightarrow> fst op | None \<Rightarrow> i \<in> scast ` set fds)"
    using fds.has_run [OF TrueI, of i ops ?m0] unfolding fd_init_read by simp
  ultimately show ?thesis by blast
qed


definition demo_files :: files where
  "demo_files = iso.extend demo_iso \<lparr>fd_map = [7], stat_mem = (0, 0), stat_mem_init = False\<rparr>"

definition demo_gprs :: gprs where
  "demo_gprs = \<lparr>REG_RAX = NR_open, REG_RDI = 0x5000, REG_RSI = 0, REG_RDX = 0, REG_R10 = 0, REG_R8 = 0, REG_R9 = 0\<rparr>"

definition demo_open_env :: env where
  "demo_open_env = \<lparr>kernel = (\<lambda>t. if sc_nr (hd t) = NR_open then 5 else 0),
     memory = (\<lambda>t a. if sc_nr (hd t) = NR_fstat \<and> a = 0x9000 then 1 else 0),
     page_perm = (\<lambda>t a. 3), page_key = (\<lambda>t a. 2)\<rparr>"

definition demo_addrs :: open_addrs where
  "demo_addrs = \<lparr>mem_path = 0x7000, stat_mem_addr = 0x8000, stat_buf_addr = 0x9000\<rparr>"

lemma demo_open_run: "\<exists>g' s'. handler_open demo_open_env demo_addrs demo_gprs demo_files = Inr (0, g', s') \<and> REG_RAX g' = 5"
  by (simp add: handler_open_def open_stat_mem_def do_syscall_def syscall_defs demo_open_env_def demo_addrs_def demo_gprs_def
      demo_files_def iso.defs demo_iso_def erim.defs stat_at_def load64_def mem_at_def Let_def upt_rec word_sless_alt)


end
