(* ===== verification/Signals.thy ===== *)
theory Signals
  imports Files
begin

text \<open>
  Signal handlers of the application, \<open>src/src/syscall_monitor/vIrTuAlIzE_sIgNaLs.cpp\<close>: the table of the handlers
  the application has asked for, and the actions that are given to the kernel in their place.

  A \<open>kernel_sigaction\<close> crosses the compartments as its 32 bytes. The pointers of the structures that
  are passed to the kernel are those of local variables, so they are arguments; the content behind
  them is recorded in \<open>sigacts\<close> together with the signal. The spinlock of the table is a flag.
\<close>

section \<open>Actions\<close>

record kernel_sigaction =
  k_sa_handler :: addr
  sa_flags :: u64
  sa_restorer :: addr
  sa_mask :: u64

definition store64 :: "u64 \<Rightarrow> u8 list" where
  "store64 w = map (\<lambda>i. ucast (drop_bit (8 * i) w)) [0..<8]"

definition word_of_bytes :: "u8 list \<Rightarrow> u64" where
  "word_of_bytes bs = foldr (\<lambda>b w. push_bit 8 w OR ucast b) bs 0"

definition sigaction_bytes :: "kernel_sigaction \<Rightarrow> u8 list" where
  "sigaction_bytes a = store64 (k_sa_handler a) @ store64 (sa_flags a) @ store64 (sa_restorer a) @ store64 (sa_mask a)"

definition sigaction_of :: "u8 list \<Rightarrow> kernel_sigaction" where
  "sigaction_of bs = \<lparr>k_sa_handler = word_of_bytes (take 8 bs), sa_flags = word_of_bytes (take 8 (drop 8 bs)),
     sa_restorer = word_of_bytes (take 8 (drop 16 bs)), sa_mask = word_of_bytes (take 8 (drop 24 bs))\<rparr>"

abbreviation (input) SIG_DFL :: addr where "SIG_DFL \<equiv> 0"
abbreviation (input) SIG_IGN :: addr where "SIG_IGN \<equiv> 1"
abbreviation (input) SIGTRAP :: c_int where "SIGTRAP \<equiv> 5"
abbreviation (input) SIGKILL :: c_int where "SIGKILL \<equiv> 9"
abbreviation (input) SIGSEGV :: c_int where "SIGSEGV \<equiv> 11"
abbreviation (input) SIGSYS :: c_int where "SIGSYS \<equiv> 31"
abbreviation (input) SA_SIGINFO :: u64 where "SA_SIGINFO \<equiv> 4"
abbreviation (input) SA_UNSUPPORTED :: u64 where "SA_UNSUPPORTED \<equiv> 0x400"
abbreviation (input) SA_ONSTACK :: u64 where "SA_ONSTACK \<equiv> 0x08000000"
abbreviation (input) SA_NODEFER :: u64 where "SA_NODEFER \<equiv> 0x40000000"
abbreviation (input) SA_RESETHAND :: u64 where "SA_RESETHAND \<equiv> 0x80000000"

section \<open>The table of application handlers\<close>

record signals = files +
  app_handlers :: "kernel_sigaction list"
  dfl_handler :: kernel_sigaction
  sig_mut :: bool
  asm_signal_entry :: addr
  sigacts :: "(c_int \<times> kernel_sigaction option) list"
  secure_stack_sp :: addr

record sig_addrs =
  newact_addr :: addr
  newact_cpy_addr :: addr
  oldact_addr :: addr

definition nolibc_rt_sigaction :: "env \<Rightarrow> c_int \<Rightarrow> (addr \<times> kernel_sigaction) option \<Rightarrow> addr \<Rightarrow> 'z signals_scheme
    \<Rightarrow> u64 \<times> 'z signals_scheme" where
  "nolibc_rt_sigaction E signo newact oldact s =
     (let ptr = (case newact of None \<Rightarrow> 0 | Some (p, _) \<Rightarrow> p);
          s = s\<lparr>sigacts := (signo, map_option snd newact) # sigacts s\<rparr>
      in inline_syscall6 E NR_rt_sigaction (scast signo) ptr oldact 8 0 0 s)"

text \<open>\<open>app_handlers().at(signo)\<close> throws outside the array.\<close>

definition get_app_handler :: "c_int \<Rightarrow> 'z signals_scheme \<Rightarrow> kernel_sigaction res" where
  "get_app_handler signo s =
     (let i = unat (scast signo :: u64) in if i < length (app_handlers s) then Inr (app_handlers s ! i) else Inl OutOfBounds)"

definition set_app_handler :: "c_int \<Rightarrow> kernel_sigaction \<Rightarrow> 'z signals_scheme \<Rightarrow> (kernel_sigaction \<times> 'z signals_scheme) res" where
  "set_app_handler signo newact s =
     rbind (get_app_handler signo s)
       (\<lambda>old. Inr (old, s\<lparr>app_handlers := (app_handlers s)[unat (scast signo :: u64) := newact]\<rparr>))"

text \<open>\<open>if (oldact) memcpy_trusted_to_untrusted(oldact, &act, sizeof(act))\<close>\<close>

definition copy_oldact :: "env \<Rightarrow> addr \<Rightarrow> kernel_sigaction \<Rightarrow> 'z signals_scheme \<Rightarrow> 'z signals_scheme res" where
  "copy_oldact E oldact act s =
     (if oldact = 0 then Inr s else memcpy_trusted_to_untrusted E oldact (sigaction_bytes act) 32 s)"

text \<open>\<open>if (oldact){ kernel_sigaction trusted_oldact = get_app_handler(signo); memcpy_trusted_to_untrusted(..); }\<close>\<close>

definition copy_current :: "env \<Rightarrow> addr \<Rightarrow> c_int \<Rightarrow> 'z signals_scheme \<Rightarrow> 'z signals_scheme res" where
  "copy_current E oldact signo s =
     (if oldact = 0 then Inr s else rbind (get_app_handler signo s) (\<lambda>act. copy_oldact E oldact act s))"

section \<open>Setting an action\<close>

text \<open>The part for \<open>SIGSEGV\<close> and \<open>SIGTRAP\<close>: a value if the function returns there, and the new action with
  \<open>SA_RESETHAND\<close> cleared; after a change the code goes on with the part for all signals.\<close>

definition sigaction_monitored :: "env \<Rightarrow> sig_addrs \<Rightarrow> c_int \<Rightarrow> kernel_sigaction option \<Rightarrow> addr \<Rightarrow> 'z signals_scheme
    \<Rightarrow> (u64 option \<times> kernel_sigaction option \<times> 'z signals_scheme) res" where
  "sigaction_monitored E A signo new oldact s =
     (case new of
        None \<Rightarrow>
          (let (result, s) = nolibc_rt_sigaction E signo None (oldact_addr A) s
           in if result \<noteq> 0 then Inr (Some result, None, s)
              else rbind (copy_current E oldact signo s) (\<lambda>s. Inr (Some result, None, s)))
      | Some act \<Rightarrow>
          (let act = act\<lparr>sa_flags := sa_flags act AND NOT SA_RESETHAND\<rparr>;
               (result, s) = nolibc_rt_sigaction E signo None (oldact_addr A) s
           in if result = 0
              then rbind (set_app_handler signo act s)
                (\<lambda>(old, s). rbind (copy_oldact E oldact old s) (\<lambda>s. Inr (None, Some act, s)))
              else Inr (None, Some act, s)))"

definition sigaction_wrapped :: "kernel_sigaction \<Rightarrow> addr \<Rightarrow> kernel_sigaction" where
  "sigaction_wrapped act entry =
     act\<lparr>sa_flags := sa_flags act OR (SA_SIGINFO OR SA_ONSTACK OR SA_NODEFER), k_sa_handler := entry\<rparr>"

definition sigaction_any :: "env \<Rightarrow> sig_addrs \<Rightarrow> c_int \<Rightarrow> kernel_sigaction option \<Rightarrow> addr \<Rightarrow> 'z signals_scheme
    \<Rightarrow> (u64 \<times> 'z signals_scheme) res" where
  "sigaction_any E A signo new oldact s =
     (case new of
        None \<Rightarrow>
          (let (result, s) = nolibc_rt_sigaction E signo None (oldact_addr A) s
           in if result \<noteq> 0 then Inr (result, s)
              else rbind (copy_current E oldact signo s) (\<lambda>s. Inr (result, s)))
      | Some act \<Rightarrow>
          if k_sa_handler act = SIG_IGN
          then let (result, s) = nolibc_rt_sigaction E signo (Some (newact_addr A, act)) (oldact_addr A) s
               in if result \<noteq> 0 then Inr (result, s)
                  else rbind (copy_current E oldact signo s)
                    (\<lambda>s. rbind (set_app_handler signo act s) (\<lambda>(old, s). Inr (result, s)))
          else if k_sa_handler act = SIG_DFL
          then let (result, s) = nolibc_rt_sigaction E signo (Some (newact_addr A, act)) (oldact_addr A) s
               in if result = 0
                  then rbind (set_app_handler signo act s)
                    (\<lambda>(old, s). rbind (copy_oldact E oldact old s) (\<lambda>s. Inr (result, s)))
                  else Inr (result, s)
          else let (result, s) = nolibc_rt_sigaction E signo
                     (Some (newact_cpy_addr A, sigaction_wrapped act (asm_signal_entry s))) (oldact_addr A) s
               in if result \<noteq> 0 then Inr (result, s)
                  else rbind (set_app_handler signo act s)
                    (\<lambda>(old, s). rbind (copy_oldact E oldact old s) (\<lambda>s. Inr (result, s))))"

definition sigaction_read :: "env \<Rightarrow> addr \<Rightarrow> 'z signals_scheme \<Rightarrow> (kernel_sigaction option \<times> 'z signals_scheme) res" where
  "sigaction_read E newact s =
     (if newact = 0 then Inr (None, s)
      else rbind (memcpy_untrusted_to_trusted E newact 32 s) (\<lambda>(bs, s). Inr (Some (sigaction_of bs), s)))"

definition handle_app_sigaction :: "env \<Rightarrow> sig_addrs \<Rightarrow> c_int \<Rightarrow> addr \<Rightarrow> addr \<Rightarrow> 'z signals_scheme
    \<Rightarrow> (u64 \<times> 'z signals_scheme) res" where
  "handle_app_sigaction E A signo newact oldact s =
     nolibc_assert (signo <s 128 \<and> 0 <s signo)
     (if sig_mut s then Inl Deadlock
      else rbind
        (rbind (sigaction_read E newact (s\<lparr>sig_mut := True\<rparr>))
        (\<lambda>(new, s).
          if signo = SIGSYS
          then nolibc_assert (case new of None \<Rightarrow> True | Some act \<Rightarrow> sa_flags act AND SA_UNSUPPORTED = 0)
                 (rbind (copy_current E oldact SIGSYS s) (\<lambda>s. Inr (0, s)))
          else if signo = SIGSEGV \<or> signo = SIGTRAP
          then rbind (sigaction_monitored E A signo new oldact s)
                 (\<lambda>(ret, new, s). case ret of Some r \<Rightarrow> Inr (r, s) | None \<Rightarrow> sigaction_any E A signo new oldact s)
          else sigaction_any E A signo new oldact s))
        (\<lambda>(r, s). Inr (r, s\<lparr>sig_mut := False\<rparr>)))"

section \<open>Invoking a handler\<close>

text \<open>The address of the handler that \<open>call_app_handler\<close> is given. A signal without a handler of the
  application ends the process.\<close>

definition invoke_app_specific_handler :: "c_int \<Rightarrow> 'z signals_scheme \<Rightarrow> (addr \<times> 'z signals_scheme) res" where
  "invoke_app_specific_handler sig s =
     (if sig_mut s then Inl Deadlock
      else rbind (get_app_handler sig s)
        (\<lambda>act. nolibc_assert (k_sa_handler act \<noteq> SIG_DFL \<and> k_sa_handler act \<noteq> SIG_IGN)
          (if sa_flags act AND SA_RESETHAND \<noteq> 0
           then rbind (set_app_handler sig (dfl_handler s) s) (\<lambda>(old, s). Inr (k_sa_handler act, s))
           else Inr (k_sa_handler act, s))))"

text \<open>\<open>wrap_signal_handler\<close>: the frame is copied below the application's stack, the handler runs, and the
  frame is copied back when the signal interrupted the application. \<open>siginfo_t\<close> has 128 bytes and
  \<open>ucontext_t\<close> 968. The bytes of the trusted frame are arguments, and the result is what is left there.\<close>

definition wrap_signal_handler :: "env \<Rightarrow> c_int \<Rightarrow> u8 list \<Rightarrow> u8 list \<Rightarrow> u8 \<Rightarrow> 'z signals_scheme
    \<Rightarrow> (u8 list \<times> u8 list \<times> addr \<times> 'z signals_scheme) res" where
  "wrap_signal_handler E signo info ucontext compartment_id_on_entry s =
     (let old_untrusted_stack = secure_stack_sp s;
          untrusted_info = old_untrusted_stack - 128 in
      if compartment_id_on_entry = ucast TS_APPLICATION
      then
        let untrusted_ucontext = untrusted_info - 968 in
        rbind (memcpy_trusted_to_untrusted E untrusted_ucontext ucontext 968 (s\<lparr>secure_stack_sp := untrusted_ucontext\<rparr>))
        (\<lambda>s. rbind (memcpy_trusted_to_untrusted E untrusted_info info 128 s)
        (\<lambda>s. rbind (invoke_app_specific_handler signo s)
        (\<lambda>(h, s). rbind (memcpy_untrusted_to_trusted E untrusted_ucontext 968 s)
        (\<lambda>(uc, s). rbind (memcpy_untrusted_to_trusted E untrusted_info 128 s)
        (\<lambda>(si, s). Inr (si, uc, h, s\<lparr>secure_stack_sp := old_untrusted_stack\<rparr>))))))
      else
        rbind (memcpy_trusted_to_untrusted E untrusted_info info 128 (s\<lparr>secure_stack_sp := untrusted_info\<rparr>))
        (\<lambda>s. rbind (invoke_app_specific_handler signo s)
        (\<lambda>(h, s). Inr (info, ucontext, h, s\<lparr>secure_stack_sp := old_untrusted_stack\<rparr>))))"

section \<open>The initial table\<close>

text \<open>The constructor: the actions the kernel reports; the structure it writes is read from memory
  after the call. \<open>_NSIG\<close> is 65.\<close>

primrec signal_handlers_fill :: "env \<Rightarrow> addr \<Rightarrow> nat list \<Rightarrow> 'z signals_scheme \<Rightarrow> 'z signals_scheme res" where
  "signal_handlers_fill E dfl [] s = Inr s"
| "signal_handlers_fill E dfl (i # is) s =
     (if of_nat i = SIGKILL then signal_handlers_fill E dfl is s
      else let (result, s) = nolibc_rt_sigaction E (of_nat i) None dfl s in
        if result \<noteq> 0 then signal_handlers_fill E dfl is s
        else let act = sigaction_of (map (\<lambda>k. mem_at E s (dfl + of_nat k)) [0..<32]) in
          rbind (set_app_handler (of_nat i) act s)
            (\<lambda>(old, s). signal_handlers_fill E dfl is
               (if k_sa_handler act = SIG_DFL then s\<lparr>dfl_handler := act\<rparr> else s)))"

definition signal_handlers_init :: "env \<Rightarrow> addr \<Rightarrow> 'z signals_scheme \<Rightarrow> 'z signals_scheme res" where
  "signal_handlers_init E dfl s = signal_handlers_fill E dfl [0..<65] s"

section \<open>Default behaviour\<close>

datatype sigdisp_type = SIGDISP_IGN | SIGDISP_TERM | SIGDISP_CORE | SIGDISP_STOP | SIGDISP_CONT

definition get_default_behavior :: "c_int \<Rightarrow> sigdisp_type res" where
  "get_default_behavior signo =
     (if signo \<in> {17, 23, 28} then Inr SIGDISP_IGN
      else if signo \<in> {14, 1, 2, 29, 9, 13, 27, 30, 16, 15, 10, 12, 26} then Inr SIGDISP_TERM
      else if signo \<in> {6, 7, 8, 4, 3, 11, 31, 5, 24, 25} then Inr SIGDISP_CORE
      else if signo \<in> {19, 20, 21, 22} then Inr SIGDISP_STOP
      else if signo = 18 then Inr SIGDISP_CONT
      else Inl Ud2)"

definition is_terminating_sig :: "c_int \<Rightarrow> bool res" where
  "is_terminating_sig signo = rbind (get_default_behavior signo) (\<lambda>beh. Inr (beh = SIGDISP_TERM \<or> beh = SIGDISP_CORE))"

end
