(* ===== verification/SignalsProps.thy ===== *)
theory SignalsProps
  imports Signals FilesProps
begin

text \<open>
  What the kernel is told and what the application is told about its signal handlers.
\<close>

section \<open>Bytes of an action\<close>

lemma store64_length [simp]: "length (store64 w) = 8"
  by (simp add: store64_def)

lemma word_of_bytes_Cons: "word_of_bytes (b # bs) = push_bit 8 (word_of_bytes bs) OR ucast b"
  by (simp add: word_of_bytes_def)

lemma byte_join:
  "push_bit 8 (drop_bit (8 * Suc i) (w :: u64)) OR ucast (ucast (drop_bit (8 * i) w) :: u8) = drop_bit (8 * i) w"
  by (rule bit_word_eqI) (auto simp: bit_simps)

lemma word_of_store_upt:
  "i \<le> 8 \<Longrightarrow> word_of_bytes (map (\<lambda>k. ucast (drop_bit (8 * k) w)) [i..<8]) = drop_bit (8 * i) w"
proof (induction i rule: inc_induct)
  case base
  have "drop_bit 64 w = 0" by (rule bit_word_eqI) (simp add: bit_simps)
  then show ?case by (simp add: word_of_bytes_def)
next
  case (step i)
  then have "[i..<8] = i # [Suc i..<8]" by (simp add: upt_conv_Cons)
  with step.IH show ?case by (simp only: list.map word_of_bytes_Cons byte_join)
qed

lemma word_of_store64 [simp]: "word_of_bytes (store64 w) = w"
  using word_of_store_upt [of 0 w] by (simp add: store64_def)

lemma sigaction_bytes_take:
  "take 8 (sigaction_bytes a @ rest) = store64 (k_sa_handler a)"
  "take 8 (drop 8 (sigaction_bytes a @ rest)) = store64 (sa_flags a)"
  "take 8 (drop 16 (sigaction_bytes a @ rest)) = store64 (sa_restorer a)"
  "take 8 (drop 24 (sigaction_bytes a @ rest)) = store64 (sa_mask a)"
  by (simp_all add: sigaction_bytes_def)

section \<open>Steps\<close>

text \<open>The parts of the state a step leaves alone.\<close>

definition same_sig :: "'z signals_scheme \<Rightarrow> 'z signals_scheme \<Rightarrow> bool" where
  "same_sig s s' \<longleftrightarrow> app_handlers s' = app_handlers s \<and> asm_signal_entry s' = asm_signal_entry s \<and> sigacts s' = sigacts s"

lemma copy_oldact_run:
  "copy_oldact E oldact act s = Inr s' \<Longrightarrow> same_sig s s' \<and>
     copied s' = (if oldact = 0 then copied s else (oldact, sigaction_bytes act) # copied s)"
  by (auto simp: copy_oldact_def same_sig_def sigaction_bytes_def split: if_splits dest!: copy_out_state)

lemma copy_current_run:
  "copy_current E oldact signo s = Inr s' \<Longrightarrow> same_sig s s' \<and>
     copied s' = (if oldact = 0 then copied s else (oldact, sigaction_bytes (app_handlers s ! unat (scast signo :: u64))) # copied s)"
  by (auto simp: copy_current_def same_sig_def rbind_eq_Inr get_app_handler_def Let_def split: if_splits dest!: copy_oldact_run)

lemma rt_sigaction_run:
  assumes "nolibc_rt_sigaction E signo new old s = (r, s')"
  shows "app_handlers s' = app_handlers s \<and> asm_signal_entry s' = asm_signal_entry s \<and> copied s' = copied s \<and>
    sigacts s' = (signo, map_option snd new) # sigacts s"
  using assms by (auto simp: nolibc_rt_sigaction_def syscall_defs Let_def)

lemma get_app_handler_eq_Inr [res_simps]:
  "get_app_handler signo s = Inr a \<longleftrightarrow> unat (scast signo :: u64) < length (app_handlers s) \<and> a = app_handlers s ! unat (scast signo :: u64)"
  by (auto simp: get_app_handler_def Let_def)

lemma set_app_handler_eq_Inr [res_simps]:
  "set_app_handler signo new s = Inr (old, s') \<longleftrightarrow> unat (scast signo :: u64) < length (app_handlers s) \<and>
     old = app_handlers s ! unat (scast signo :: u64) \<and> s' = s\<lparr>app_handlers := (app_handlers s)[unat (scast signo :: u64) := new]\<rparr>"
  by (auto simp: set_app_handler_def res_simps)

text \<open>What an action may be that is given to the kernel for the application.\<close>

definition entry_flags :: u64 where
  "entry_flags = SA_SIGINFO OR SA_ONSTACK OR SA_NODEFER"

definition passed_ok :: "addr \<Rightarrow> c_int \<times> kernel_sigaction option \<Rightarrow> bool" where
  "passed_ok entry q \<longleftrightarrow> (case snd q of None \<Rightarrow> True | Some a \<Rightarrow>
     k_sa_handler a = SIG_DFL \<or> k_sa_handler a = SIG_IGN \<or> (k_sa_handler a = entry \<and> sa_flags a AND entry_flags = entry_flags))"

definition sig_step :: "c_int \<Rightarrow> 'z signals_scheme \<Rightarrow> 'z signals_scheme \<Rightarrow> bool" where
  "sig_step signo s s' \<longleftrightarrow> asm_signal_entry s' = asm_signal_entry s \<and>
     (\<exists>new. sigacts s' = new @ sigacts s \<and> list_all (\<lambda>q. fst q = signo \<and> passed_ok (asm_signal_entry s) q) new)"

lemma sig_step_same: "same_sig s s' \<Longrightarrow> sig_step signo s s'"
  by (simp add: sig_step_def same_sig_def)

lemma sig_step_trans:
  assumes "sig_step signo s s1" "sig_step signo s1 s2"
  shows "sig_step signo s s2"
proof -
  obtain n1 n2 where "sigacts s1 = n1 @ sigacts s" "sigacts s2 = n2 @ sigacts s1"
    "list_all (\<lambda>q. fst q = signo \<and> passed_ok (asm_signal_entry s) q) n1"
    "list_all (\<lambda>q. fst q = signo \<and> passed_ok (asm_signal_entry s1) q) n2"
    "asm_signal_entry s1 = asm_signal_entry s" "asm_signal_entry s2 = asm_signal_entry s1"
    using assms by (auto simp: sig_step_def)
  then show ?thesis unfolding sig_step_def by (intro conjI exI [of _ "n2 @ n1"]) simp_all
qed

lemma sig_step_kernel:
  assumes "nolibc_rt_sigaction E signo new old s = (r, s')" "passed_ok (asm_signal_entry s) (signo, map_option snd new)"
  shows "sig_step signo s s'"
  using rt_sigaction_run [OF assms(1)] assms(2) by (simp add: sig_step_def)

lemma or_and_absorb: "(a OR m) AND m = (m :: u64)"
  by (rule bit_word_eqI) (auto simp: bit_simps)

lemma passed_wrapped: "passed_ok entry (signo, Some (sigaction_wrapped act entry))"
  using or_and_absorb [of "sa_flags act" entry_flags] by (simp add: passed_ok_def sigaction_wrapped_def entry_flags_def)

text \<open>Storing an action and reporting the old one.\<close>

lemma set_and_copy:
  assumes "rbind (set_app_handler signo act s) (\<lambda>(old, s). rbind (copy_oldact E oldact old s) (\<lambda>s. Inr (k s))) = Inr x"
  obtains s' where "x = k s'" "same_sig (s\<lparr>app_handlers := (app_handlers s)[unat (scast signo :: u64) := act]\<rparr>) s'"
    "copied s' = (if oldact = 0 then copied s else (oldact, sigaction_bytes (app_handlers s ! unat (scast signo :: u64))) # copied s)"
proof -
  obtain s1 where "unat (scast signo :: u64) < length (app_handlers s)"
    and c: "copy_oldact E oldact (app_handlers s ! unat (scast signo :: u64))
        (s\<lparr>app_handlers := (app_handlers s)[unat (scast signo :: u64) := act]\<rparr>) = Inr s1" and x: "x = k s1"
    using assms by (auto simp: res_simps)
  from copy_oldact_run [OF c] x show thesis by (intro that [of s1]) auto
qed

text \<open>The part for all signals: what the kernel was told, and the table afterwards.\<close>

lemma sigaction_any_run:
  assumes "sigaction_any E A signo new oldact s = Inr (r, s')"
  shows "sig_step signo s s' \<and>
    app_handlers s' = (case new of Some act \<Rightarrow> if r = 0 then (app_handlers s)[unat (scast signo :: u64) := act] else app_handlers s
      | None \<Rightarrow> app_handlers s) \<and>
    (new \<noteq> None \<and> r = 0 \<and> oldact \<noteq> 0 \<longrightarrow>
       copied s' = (oldact, sigaction_bytes (app_handlers s ! unat (scast signo :: u64))) # copied s)"
proof (cases new)
  case None
  obtain r1 s1 where k: "nolibc_rt_sigaction E signo None (oldact_addr A) s = (r1, s1)" by fastforce
  have st: "sig_step signo s s1" by (rule sig_step_kernel [OF k]) (simp add: passed_ok_def)
  have "same_sig s1 s'"
    using assms k None by (auto simp: sigaction_any_def same_sig_def rbind_eq_Inr split: if_splits dest!: copy_current_run)
  with st rt_sigaction_run [OF k] None show ?thesis
    using sig_step_trans [OF st sig_step_same] by (simp add: same_sig_def)
next
  case (Some act)
  define arg where "arg = (if k_sa_handler act = SIG_IGN \<or> k_sa_handler act = SIG_DFL then (newact_addr A, act)
    else (newact_cpy_addr A, sigaction_wrapped act (asm_signal_entry s)))"
  obtain r1 s1 where k: "nolibc_rt_sigaction E signo (Some arg) (oldact_addr A) s = (r1, s1)" by fastforce
  have "passed_ok (asm_signal_entry s) (signo, map_option snd (Some arg))"
    using passed_wrapped by (auto simp: arg_def passed_ok_def split: if_splits)
  from sig_step_kernel [OF k this] have st: "sig_step signo s s1" .
  note h = rt_sigaction_run [OF k]
  have "r = r1 \<and> (if r1 = 0 then same_sig (s1\<lparr>app_handlers := (app_handlers s1)[unat (scast signo :: u64) := act]\<rparr>) s' \<and>
      (oldact \<noteq> 0 \<longrightarrow> copied s' = (oldact, sigaction_bytes (app_handlers s1 ! unat (scast signo :: u64))) # copied s1) else s' = s1)"
  proof (cases "k_sa_handler act = SIG_IGN")
    case True
    with k have k': "nolibc_rt_sigaction E signo (Some (newact_addr A, act)) (oldact_addr A) s = (r1, s1)"
      by (simp add: arg_def)
    show ?thesis
      using assms Some True by (auto simp: sigaction_any_def k' same_sig_def res_simps split: if_splits dest!: copy_current_run)
  next
    case False
    then have e: "sigaction_any E A signo new oldact s =
      (if r1 = 0 then rbind (set_app_handler signo act s1) (\<lambda>(old, s). rbind (copy_oldact E oldact old s) (\<lambda>s. Inr (r1, s)))
       else Inr (r1, s1))"
      using k Some by (auto simp: sigaction_any_def arg_def Let_def)
    show ?thesis
    proof (cases "r1 = 0")
      case True
      with assms e have "rbind (set_app_handler signo act s1) (\<lambda>(old, s). rbind (copy_oldact E oldact old s) (\<lambda>s. Inr (r1, s))) = Inr (r, s')"
        by simp
      then show ?thesis using True by (elim set_and_copy) auto
    qed (use assms e in auto)
  qed
  then show ?thesis using st h Some
    by (cases "r1 = 0") (auto simp: same_sig_def sig_step_def)
qed

lemma sigaction_monitored_run:
  assumes "sigaction_monitored E A signo new oldact s = Inr (ret, new', s')"
  shows "sig_step signo s s' \<and> (new = None \<longleftrightarrow> ret \<noteq> None) \<and>
    (\<forall>act. new = Some act \<longrightarrow> new' = Some (act\<lparr>sa_flags := sa_flags act AND NOT SA_RESETHAND\<rparr>)) \<and>
    (\<forall>x. (app_handlers s')[unat (scast signo :: u64) := x] = (app_handlers s)[unat (scast signo :: u64) := x]) \<and> (new = None \<longrightarrow> app_handlers s' = app_handlers s) \<and>
    ((\<forall>via sel a b t. kernel E (SCall via sel NR_rt_sigaction (scast signo) a b 8 0 0 # t) = 0) \<and> new \<noteq> None \<longrightarrow>
       app_handlers s' ! unat (scast signo :: u64) = the new')"
proof -
  obtain r1 s1 where k: "nolibc_rt_sigaction E signo None (oldact_addr A) s = (r1, s1)" by fastforce
  have st: "sig_step signo s s1" by (rule sig_step_kernel [OF k]) (simp add: passed_ok_def)
  note h = rt_sigaction_run [OF k]
  have r0: "(\<forall>via sel a b t. kernel E (SCall via sel NR_rt_sigaction (scast signo) a b 8 0 0 # t) = 0) \<Longrightarrow> r1 = 0"
    using k by (auto simp: nolibc_rt_sigaction_def syscall_defs Let_def)
  show ?thesis
  proof (cases new)
    case None
    have s': "same_sig s1 s'" and ret: "ret \<noteq> None"
      using assms k None by (auto simp: sigaction_monitored_def same_sig_def rbind_eq_Inr split: if_splits dest!: copy_current_run)
    from sig_step_trans [OF st sig_step_same [OF s']] s' h ret None show ?thesis by (simp add: same_sig_def)
  next
    case (Some act)
    let ?a = "act\<lparr>sa_flags := sa_flags act AND NOT SA_RESETHAND\<rparr>"
    have e: "sigaction_monitored E A signo new oldact s =
      (if r1 = 0 then rbind (set_app_handler signo ?a s1) (\<lambda>(old, s). rbind (copy_oldact E oldact old s) (\<lambda>s. Inr (None, Some ?a, s)))
       else Inr (None, Some ?a, s1))"
      using k Some by (simp add: sigaction_monitored_def Let_def)
    show ?thesis
    proof (cases "r1 = 0")
      case True
      with assms e have "rbind (set_app_handler signo ?a s1) (\<lambda>(old, s). rbind (copy_oldact E oldact old s) (\<lambda>s. Inr (None, Some ?a, s)))
          = Inr (ret, new', s')" by simp
      then show ?thesis
      proof (rule set_and_copy)
        have i: "unat (scast signo :: u64) < length (app_handlers s1)"
          using assms e True by (auto simp: res_simps)
        fix s2 assume x: "(ret, new', s') = (None, Some ?a, s2)"
          and s2: "same_sig (s1\<lparr>app_handlers := (app_handlers s1)[unat (scast signo :: u64) := ?a]\<rparr>) s2"
        have "sig_step signo s1 s2" using s2 by (simp add: same_sig_def sig_step_def)
        from sig_step_trans [OF st this] x s2 h Some i show ?thesis by (simp add: same_sig_def)
      qed
    next
      case False
      then have "\<not> (\<forall>via sel a b t. kernel E (SCall via sel NR_rt_sigaction (scast signo) a b 8 0 0 # t) = 0)" using r0 by blast
      moreover have "ret = None \<and> new' = Some ?a \<and> s' = s1" using assms e False by simp
      ultimately show ?thesis using st h Some by auto
    qed
  qed
qed

text \<open>The whole function.\<close>

lemma sigaction_read_run:
  assumes "sigaction_read E newact s = Inr (new, s')"
  shows "same_sig s s' \<and> new = (if newact = 0 then None else Some (sigaction_of (map (\<lambda>i. mem_at E s (newact + of_nat i)) [0..<32])))"
proof (cases "newact = 0")
  case False
  with assms obtain bs where c: "memcpy_untrusted_to_trusted E newact 32 s = Inr (bs, s')" and n: "new = Some (sigaction_of bs)"
    by (auto simp: sigaction_read_def rbind_eq_Inr)
  from copy_in_state [OF c] n False show ?thesis by (simp add: same_sig_def)
qed (use assms in \<open>simp add: sigaction_read_def same_sig_def\<close>)

definition app_action :: "env \<Rightarrow> c_int \<Rightarrow> addr \<Rightarrow> 'z kern_scheme \<Rightarrow> kernel_sigaction" where
  "app_action E signo newact s =
     (let act = sigaction_of (map (\<lambda>i. mem_at E s (newact + of_nat i)) [0..<32])
      in if signo = SIGSEGV \<or> signo = SIGTRAP then act\<lparr>sa_flags := sa_flags act AND NOT SA_RESETHAND\<rparr> else act)"

lemma handle_app_sigaction_run:
  assumes "handle_app_sigaction E A signo newact oldact s = Inr (r, s')"
  shows "sig_step signo s s' \<and> (newact \<noteq> 0 \<and> signo \<noteq> SIGSYS \<and> r = 0 \<longrightarrow>
      app_handlers s' = (app_handlers s)[unat (scast signo :: u64) := app_action E signo newact s]) \<and>
    (newact = 0 \<or> signo = SIGSYS \<longrightarrow> app_handlers s' = app_handlers s) \<and>
    ((signo = SIGSEGV \<or> signo = SIGTRAP) \<and> newact \<noteq> 0 \<and> oldact \<noteq> 0 \<and> r = 0 \<and>
     (\<forall>via sel a b t. kernel E (SCall via sel NR_rt_sigaction (scast signo) a b 8 0 0 # t) = 0) \<longrightarrow>
       (\<exists>cs. copied s' = (oldact, sigaction_bytes (app_action E signo newact s)) # cs))"
proof -
  obtain new s1 s2 where rd: "sigaction_read E newact (s\<lparr>sig_mut := True\<rparr>) = Inr (new, s1)"
    and b: "(if signo = SIGSYS
          then nolibc_assert (case new of None \<Rightarrow> True | Some act \<Rightarrow> sa_flags act AND SA_UNSUPPORTED = 0)
                 (rbind (copy_current E oldact SIGSYS s1) (\<lambda>s. Inr (0, s)))
          else if signo = SIGSEGV \<or> signo = SIGTRAP
          then rbind (sigaction_monitored E A signo new oldact s1)
                 (\<lambda>(ret, new, s). case ret of Some r \<Rightarrow> Inr (r, s) | None \<Rightarrow> sigaction_any E A signo new oldact s)
          else sigaction_any E A signo new oldact s1) = Inr (r, s2)"
    and s': "s' = s2\<lparr>sig_mut := False\<rparr>"
    using assms unfolding handle_app_sigaction_def by (auto simp: res_simps split: if_splits)
  have m: "mem_at E (s\<lparr>sig_mut := True\<rparr>) = mem_at E s" by (rule ext) (simp add: mem_at_def)
  note rd' = sigaction_read_run [OF rd, unfolded m]
  have s1: "same_sig s s1" using rd' by (simp add: same_sig_def)
  consider (sys) "signo = SIGSYS" | (mon) "signo \<noteq> SIGSYS" "signo = SIGSEGV \<or> signo = SIGTRAP"
    | (any) "signo \<noteq> SIGSYS" "\<not> (signo = SIGSEGV \<or> signo = SIGTRAP)" by blast
  then show ?thesis
  proof cases
    case sys
    then have "same_sig s1 s2" using b by (auto simp: res_simps dest: copy_current_run)
    then have "same_sig s s'" using s1 s' by (simp add: same_sig_def)
    then show ?thesis using sys sig_step_same [of s s'] by (simp add: same_sig_def)
  next
    case any
    then have "sigaction_any E A signo new oldact s1 = Inr (r, s2)" using b by simp
    from sigaction_any_run [OF this] show ?thesis
      using any s1 s' rd' by (auto simp: same_sig_def sig_step_def app_action_def split: if_splits)
  next
    case mon
    then obtain ret new' s3 where mo: "sigaction_monitored E A signo new oldact s1 = Inr (ret, new', s3)"
      and c: "(case ret of Some r \<Rightarrow> Inr (r, s3) | None \<Rightarrow> sigaction_any E A signo new' oldact s3) = Inr (r, s2)"
      using b by (auto simp: rbind_eq_Inr)
    note mo' = sigaction_monitored_run [OF mo]
    show ?thesis
    proof (cases new)
      case None
      then have "s2 = s3" using c mo' by auto
      with None mo' s1 s' rd' mon show ?thesis
        by (auto simp: same_sig_def sig_step_def split: if_splits)
    next
      case (Some act)
      then have "sigaction_any E A signo new' oldact s3 = Inr (r, s2)" using c mo' by (auto split: option.splits)
      note an = sigaction_any_run [OF this]
      have st: "sig_step signo s s'"
        using sig_step_trans [OF conjunct1 [OF mo'] conjunct1 [OF an]] s1 s' by (simp add: same_sig_def sig_step_def)
      have "(app_handlers s3)[unat (scast signo :: u64) := x] = (app_handlers s)[unat (scast signo :: u64) := x]" for x
        using mo' s1 by (simp add: same_sig_def)
      with st an mo' Some rd' s' mon show ?thesis
        by (auto simp: app_action_def Let_def split: if_splits)
    qed
  qed
qed

section \<open>An example\<close>

text \<open>Application memory at \<open>0x5000\<close> holds an action with the handler \<open>0x1000\<close>.\<close>

definition demo_sig_env :: env where
  "demo_sig_env = \<lparr>kernel = (\<lambda>t. 0), memory = (\<lambda>t a. if a = 0x5001 then 0x10 else 0),
     page_perm = (\<lambda>t a. 3), page_key = (\<lambda>t a. 2)\<rparr>"

definition demo_act :: kernel_sigaction where
  "demo_act = \<lparr>k_sa_handler = 0, sa_flags = 0, sa_restorer = 0, sa_mask = 0\<rparr>"

definition demo_signals :: signals where
  "demo_signals = files.extend demo_files \<lparr>app_handlers = replicate 65 demo_act, dfl_handler = demo_act, sig_mut = False,
     asm_signal_entry = 0x7000, sigacts = [], secure_stack_sp = 0x9000\<rparr>"

definition demo_sig_addrs :: sig_addrs where
  "demo_sig_addrs = \<lparr>newact_addr = 0x100, newact_cpy_addr = 0x200, oldact_addr = 0x300\<rparr>"

lemma demo_sig_range: "range_ok demo_sig_env t pk wr a n \<longleftrightarrow> n = 0 \<or> key_ok pk wr 2"
  by (cases n) (auto simp: range_ok_def access_ok_def demo_sig_env_def list_all_iff)

lemmas demo_sig_defs = demo_signals_def files.defs demo_files_def iso.defs demo_iso_def erim.defs demo_erim_def

lemma demo_act_read: "sigaction_of (map (\<lambda>i. mem_at demo_sig_env s (0x5000 + of_nat i)) [0..<32]) = demo_act\<lparr>k_sa_handler := 0x1000\<rparr>"
  by (simp add: sigaction_of_def demo_act_def word_of_bytes_def mem_at_def demo_sig_env_def upt_rec)

lemma demo_copy_in_sig:
  "pkru s = GRANT_TRUSTED_PERMISSIONS \<Longrightarrow> compartment_id s = 0 \<Longrightarrow>
     sigaction_read demo_sig_env 0x5000 s = Inr (Some (demo_act\<lparr>k_sa_handler := 0x1000\<rparr>), s)"
  for s :: "'a signals_scheme"
  by (cases s) (simp add: sigaction_read_def memcpy_untrusted_to_trusted_def is_buffer_untrusted_def mpk_check_readonly_def
      demo_sig_range key_ok_def internal_wrpkru_def rdpkru_def page_of_minus Let_def demo_act_read)

lemma demo_copy_old:
  "pkru s = GRANT_TRUSTED_PERMISSIONS \<Longrightarrow> compartment_id s = 0 \<Longrightarrow>
     copy_oldact demo_sig_env 0x6000 act s = Inr (s\<lparr>copied := (0x6000, sigaction_bytes act) # copied s\<rparr>)"
  for s :: "'a signals_scheme"
  by (cases s) (simp add: copy_oldact_def memcpy_trusted_to_untrusted_def is_buffer_untrusted_def mpk_check_def
      demo_sig_range key_ok_def internal_wrpkru_def rdpkru_def page_of_minus Let_def sigaction_bytes_def)

lemma demo_sig_kernel: "kernel demo_sig_env t = 0"
  by (simp add: demo_sig_env_def)

lemma demo_sigaction_run: "\<exists>s'. handle_app_sigaction demo_sig_env demo_sig_addrs SIGSEGV 0x5000 0x6000 demo_signals = Inr (0, s')"
  by (simp add: handle_app_sigaction_def demo_copy_in_sig demo_copy_old sigaction_monitored_def sigaction_any_def
      nolibc_rt_sigaction_def syscall_defs demo_sig_kernel set_app_handler_def get_app_handler_def demo_sig_defs demo_act_def
      word_sless_alt Let_def)

section \<open>Properties\<close>

text \<open>
  The bytes of an action determine it: reading back the 32 bytes that are copied to the application,
  whatever follows them, gives the same handler, flags, restorer and mask.
\<close>

theorem sigaction_roundtrip: "sigaction_of (sigaction_bytes a @ rest) = a"
  unfolding sigaction_of_def sigaction_bytes_take word_of_store64 by simp



text \<open>
  The table of application handlers. A call that returns 0 for a new action and a signal other than
  \<open>SIGSYS\<close> stores the action that application memory held, for \<open>SIGSEGV\<close> and \<open>SIGTRAP\<close> without \<open>SA_RESETHAND\<close>, at the
  signal's place and nowhere else; a query and \<open>SIGSYS\<close> change nothing.
\<close>

theorem sigaction_updates_table:
  assumes "handle_app_sigaction E A signo newact oldact s = Inr (r, s')"
  shows "(newact \<noteq> 0 \<and> signo \<noteq> SIGSYS \<and> r = 0 \<longrightarrow>
      app_handlers s' = (app_handlers s)[unat (scast signo :: u64) := app_action E signo newact s]) \<and>
    (newact = 0 \<or> signo = SIGSYS \<longrightarrow> app_handlers s' = app_handlers s)"
  using handle_app_sigaction_run [OF assms] by blast

theorem sigaction_updates_table_witness:
  "\<exists>s'. handle_app_sigaction demo_sig_env demo_sig_addrs SIGSEGV 0x5000 0x6000 demo_signals = Inr (0, s') \<and>
     k_sa_handler (app_handlers s' ! 11) = 0x1000"
proof -
  obtain s' where r: "handle_app_sigaction demo_sig_env demo_sig_addrs SIGSEGV 0x5000 0x6000 demo_signals = Inr (0, s')"
    using demo_sigaction_run by blast
  from sigaction_updates_table [OF r] r show ?thesis
    by (simp add: app_action_def demo_act_read Let_def demo_sig_defs)
qed

text \<open>
  The old action of \<open>SIGSEGV\<close> and \<open>SIGTRAP\<close> is lost. After the code for these signals has stored the new
  action it goes on with the code for all signals, which stores it again; what the application is
  told last as its old action is the new one.
\<close>

theorem sigaction_old_is_new:
  assumes "handle_app_sigaction E A signo newact oldact s = Inr (0, s')" "signo = SIGSEGV \<or> signo = SIGTRAP"
    and "newact \<noteq> 0" "oldact \<noteq> 0" "\<And>via sel a b t. kernel E (SCall via sel NR_rt_sigaction (scast signo) a b 8 0 0 # t) = 0"
  shows "\<exists>cs. copied s' = (oldact, sigaction_bytes (app_action E signo newact s)) # cs"
  using handle_app_sigaction_run [OF assms(1)] assms(2-) by blast

theorem sigaction_old_is_new_witness:
  "\<exists>s' cs. handle_app_sigaction demo_sig_env demo_sig_addrs SIGSEGV 0x5000 0x6000 demo_signals = Inr (0, s') \<and>
     copied s' = (0x6000, sigaction_bytes (demo_act\<lparr>k_sa_handler := 0x1000\<rparr>)) # cs"
proof -
  obtain s' where r: "handle_app_sigaction demo_sig_env demo_sig_addrs SIGSEGV 0x5000 0x6000 demo_signals = Inr (0, s')"
    using demo_sigaction_run by blast
  have "app_action demo_sig_env SIGSEGV 0x5000 demo_signals = demo_act\<lparr>k_sa_handler := 0x1000\<rparr>"
    by (simp add: app_action_def demo_act_read demo_act_def Let_def)
  with sigaction_old_is_new [OF r] r demo_sig_kernel show ?thesis by fastforce
qed

end
