(* ===== verification/Breakpoints.thy ===== *)
theory Breakpoints
  imports Signals
begin

text \<open>
  Hardware breakpoints, \<open>src/src/segfault_handler/hardware_breakpoints.cpp\<close> and the page handling they rest on in
  \<open>segfault_handler.cpp\<close>: the controller that keeps at most four breakpoints on unsafe instructions and
  takes the execute permission of the oldest page away before it reuses its breakpoints.

  The arrays \<open>page_list\<close> and \<open>breakpoints\<close> with their counters are lists; writing behind the four places of
  an array is \<open>Inl OutOfBounds\<close>. The counters of the controller are integers. The attribute structure of
  \<open>perf_event_open\<close> is a local variable: its address is an argument, and the breakpoint address in it is
  recorded in \<open>bp_log\<close>.
\<close>

section \<open>The controller\<close>

record hbreakpoint =
  hb_address :: addr
  hb_fd :: c_int

type_synonym watched_page = "hbreakpoint list"

record hb_controller =
  max_dynamic_breakpoints :: int
  used_breakpoints :: int
  static_hbreakpoints :: "watched_page list"
  dynamic_hbreakpoints :: "watched_page list"

abbreviation (input) MAX_HBREAKPOINTS :: int where "MAX_HBREAKPOINTS \<equiv> 4"

definition hb_controller_init :: hb_controller where
  "hb_controller_init = \<lparr>max_dynamic_breakpoints = MAX_HBREAKPOINTS, used_breakpoints = 0,
     static_hbreakpoints = [], dynamic_hbreakpoints = []\<rparr>"

text \<open>The state of the library of the segmentation fault handler.\<close>

record trap = signals +
  hb :: hb_controller
  global_hb :: hb_controller
  hb_location :: addr
  bp_log :: "addr list"
  unsafe_page_mutex :: bool
  hbreakpoint_sync_mutex :: bool
  segfault_handler_mutex :: bool
  trap_handler_mutex :: bool
  controller_thread :: c_int
  waiting_thread_count :: int
  segfault_page :: "nat option"
  active_thread_list :: "(c_int \<times> c_int) list"
  sigreturn_stack :: "u64 list"

section \<open>Unsafe pages\<close>

definition find_unsafe_page :: "addr \<Rightarrow> 'z erim_scheme \<Rightarrow> nat option" where
  "find_unsafe_page address s = find_entry (page_of address) (unsafe_pages s)"

definition set_current_perm :: "nat \<Rightarrow> c_int \<Rightarrow> 'z erim_scheme \<Rightarrow> 'z erim_scheme" where
  "set_current_perm i perm s = s\<lparr>unsafe_pages := (unsafe_pages s)[i := (unsafe_pages s ! i)\<lparr>current_perm := perm\<rparr>]\<rparr>"

text \<open>The branch for writable pages returns with the mutex held, as in the code.\<close>

definition set_page_non_executable :: "env \<Rightarrow> addr \<Rightarrow> 'z trap_scheme \<Rightarrow> 'z trap_scheme res" where
  "set_page_non_executable E address s =
     rbind (lookup_addr address (-1) s)
     (\<lambda>(pm_page, s). case pm_page of
        None \<Rightarrow> Inl Ud2
      | Some pm_page \<Rightarrow>
         (case find_unsafe_page address s of
            None \<Rightarrow> Inl NullDeref
          | Some i \<Rightarrow>
             let page = unsafe_pages s ! i; cid = vp_Cid pm_page in
             nolibc_assert (trusted_page page \<longrightarrow> cid = TS_MONITOR)
             (if current_perm page AND PROT_EXEC = 0 then Inr s
              else if unsafe_page_mutex s then Inl Deadlock
              else
                let s = s\<lparr>unsafe_page_mutex := True\<rparr> in
                if desired_perm page AND PROT_WRITE \<noteq> 0
                then rbind (secpoline_mprotect E (up_address page) PAGE_SIZE (PROT_READ OR PROT_WRITE) cid
                             (set_current_perm i (PROT_READ OR PROT_WRITE) s))
                       (\<lambda>(r, s). nolibc_assert (r = 0) (Inr s))
                else rbind (secpoline_mprotect E (up_address page) PAGE_SIZE PROT_READ cid (set_current_perm i PROT_READ s))
                       (\<lambda>(r, s). nolibc_assert (r = 0) (Inr (s\<lparr>unsafe_page_mutex := False\<rparr>))))))"

section \<open>Placing and removing breakpoints\<close>

definition set_hbreakpoint :: "env \<Rightarrow> addr \<Rightarrow> addr \<Rightarrow> 'z trap_scheme \<Rightarrow> (c_int \<times> 'z trap_scheme) res" where
  "set_hbreakpoint E pa address s =
     (let (r, s) = inline_syscall6 E NR_perf_event_open pa 0 (-1) (-1) 8 0 (s\<lparr>bp_log := address # bp_log s\<rparr>);
          fd = (ucast r :: c_int)
      in nolibc_assert (\<not> fd <s 0) (Inr (fd, s)))"

primrec set_hbreakpoints :: "env \<Rightarrow> addr \<Rightarrow> addr list \<Rightarrow> 'z trap_scheme \<Rightarrow> (hbreakpoint list \<times> 'z trap_scheme) res" where
  "set_hbreakpoints E pa [] s = Inr ([], s)"
| "set_hbreakpoints E pa (a # as) s =
     rbind (set_hbreakpoint E pa a s)
       (\<lambda>(fd, s). rbind (set_hbreakpoints E pa as s)
         (\<lambda>(bs, s). Inr (\<lparr>hb_address = a, hb_fd = fd\<rparr> # bs, s)))"

text \<open>\<open>(*unsafe_instructions)[i]\<close> for \<open>i\<close> below \<open>unsafe_instructions_size\<close>.\<close>

definition page_insns :: "unsafe_page \<Rightarrow> addr list res" where
  "page_insns page =
     (if unsafe_instructions_size page = 0 then Inr []
      else case unsafe_instructions page of
        None \<Rightarrow> Inl NullDeref
      | Some v \<Rightarrow> if unsafe_instructions_size page \<le> length v then Inr (take (unsafe_instructions_size page) v)
                  else Inl OutOfBounds)"

definition add_watched_page :: "env \<Rightarrow> addr \<Rightarrow> unsafe_page \<Rightarrow> bool \<Rightarrow> hb_controller \<times> 'z trap_scheme
    \<Rightarrow> (hb_controller \<times> 'z trap_scheme) res" where
  "add_watched_page E pa page is_static cs =
     (case cs of (c, s) \<Rightarrow>
      let n = int (unsafe_instructions_size page);
          pages = (if is_static then static_hbreakpoints c else dynamic_hbreakpoints c) in
      nolibc_assert (n + used_breakpoints c \<le> MAX_HBREAKPOINTS \<and> (is_static \<longrightarrow> n \<le> max_dynamic_breakpoints c))
      (if length pages \<ge> 4 then Inl OutOfBounds
       else rbind (page_insns page)
         (\<lambda>insns. rbind (set_hbreakpoints E pa insns s)
           (\<lambda>(bs, s).
              let c = c\<lparr>used_breakpoints := used_breakpoints c + n\<rparr> in
              Inr (if is_static
                   then c\<lparr>static_hbreakpoints := pages @ [bs], max_dynamic_breakpoints := max_dynamic_breakpoints c - n\<rparr>
                   else c\<lparr>dynamic_hbreakpoints := pages @ [bs]\<rparr>, s)))))"

primrec close_hbreakpoints :: "env \<Rightarrow> hbreakpoint list \<Rightarrow> 'z kern_scheme \<Rightarrow> 'z kern_scheme res" where
  "close_hbreakpoints E [] s = Inr s"
| "close_hbreakpoints E (b # bs) s =
     nolibc_assert (hb_fd b \<noteq> 0)
       (let (r, s) = inline_syscall6 E NR_close (scast (hb_fd b)) 0 0 0 0 0 s
        in nolibc_assert (r = 0) (close_hbreakpoints E bs s))"

definition remove_last_page :: "env \<Rightarrow> hb_controller \<times> 'z trap_scheme \<Rightarrow> (hb_controller \<times> 'z trap_scheme) res" where
  "remove_last_page E cs =
     (case cs of (c, s) \<Rightarrow>
      (case dynamic_hbreakpoints c of
         [] \<Rightarrow> Inl Ud2
       | oldest # rest \<Rightarrow>
           (case oldest of
              [] \<Rightarrow> Inl Ud2
            | b # bs \<Rightarrow>
                rbind (set_page_non_executable E (hb_address b) s)
                  (\<lambda>s. rbind (close_hbreakpoints E oldest s)
                    (\<lambda>s. Inr (c\<lparr>used_breakpoints := used_breakpoints c - int (length oldest),
                              dynamic_hbreakpoints := rest\<rparr>, s))))))"

text \<open>\<open>while(MAX_HBREAKPOINTS-used_breakpoints < n) remove_last_page();\<close> with one iteration more than there are
  pages, which is enough: without pages \<open>remove_last_page\<close> ends the process.\<close>

primrec remove_until :: "env \<Rightarrow> nat \<Rightarrow> int \<Rightarrow> hb_controller \<times> 'z trap_scheme \<Rightarrow> (hb_controller \<times> 'z trap_scheme) res" where
  "remove_until E 0 n cs = (if MAX_HBREAKPOINTS - used_breakpoints (fst cs) < n then Inl NoFuel else Inr cs)"
| "remove_until E (Suc k) n cs =
     (if MAX_HBREAKPOINTS - used_breakpoints (fst cs) < n
      then rbind (remove_last_page E cs) (remove_until E k n) else Inr cs)"

definition remove_dynamic_hbreakpoints :: "env \<Rightarrow> int \<Rightarrow> hb_controller \<times> 'z trap_scheme \<Rightarrow> (hb_controller \<times> 'z trap_scheme) res" where
  "remove_dynamic_hbreakpoints E n cs =
     nolibc_assert (n \<le> max_dynamic_breakpoints (fst cs))
       (remove_until E (Suc (length (dynamic_hbreakpoints (fst cs)))) n cs)"

definition add_breakpoints :: "env \<Rightarrow> addr \<Rightarrow> unsafe_page \<Rightarrow> bool \<Rightarrow> hb_controller \<times> 'z trap_scheme
    \<Rightarrow> (hb_controller \<times> 'z trap_scheme) res" where
  "add_breakpoints E pa page is_static cs =
     (let needed = int (unsafe_instructions_size page) in
      nolibc_assert (if is_static then int (length (static_hbreakpoints (fst cs))) + needed \<le> MAX_HBREAKPOINTS
                     else needed \<le> max_dynamic_breakpoints (fst cs))
      (if used_breakpoints (fst cs) + needed \<le> MAX_HBREAKPOINTS
       then add_watched_page E pa page is_static cs
       else rbind (remove_dynamic_hbreakpoints E needed cs) (add_watched_page E pa page is_static)))"

section \<open>All breakpoints of a thread\<close>

text \<open>In the child of a fork every breakpoint is placed again with a new descriptor.\<close>

primrec set_pages :: "env \<Rightarrow> addr \<Rightarrow> watched_page list \<Rightarrow> 'z trap_scheme \<Rightarrow> (watched_page list \<times> 'z trap_scheme) res" where
  "set_pages E pa [] s = Inr ([], s)"
| "set_pages E pa (p # ps) s =
     rbind (set_hbreakpoints E pa (map hb_address p) s)
       (\<lambda>(bs, s). rbind (set_pages E pa ps s) (\<lambda>(qs, s). Inr (bs # qs, s)))"

definition page_bps :: "watched_page list \<Rightarrow> int" where
  "page_bps ps = int (sum_list (map length ps))"

definition set_all_hbreakpoits :: "env \<Rightarrow> addr \<Rightarrow> hb_controller \<times> 'z trap_scheme \<Rightarrow> (hb_controller \<times> 'z trap_scheme) res" where
  "set_all_hbreakpoits E pa cs =
     (case cs of (c, s) \<Rightarrow>
      rbind (set_pages E pa (static_hbreakpoints c) s)
      (\<lambda>(st, s). rbind (set_pages E pa (dynamic_hbreakpoints c) s)
      (\<lambda>(dy, s).
        let used = page_bps st + page_bps dy; max_dynamic = MAX_HBREAKPOINTS - page_bps st in
        nolibc_assert (used = used_breakpoints c \<and> max_dynamic = max_dynamic_breakpoints c)
          (Inr (\<lparr>max_dynamic_breakpoints = max_dynamic, used_breakpoints = used,
                 static_hbreakpoints = st, dynamic_hbreakpoints = dy\<rparr>, s)))))"

text \<open>Closing without the check that the descriptor is not 0.\<close>

primrec close_all :: "env \<Rightarrow> hbreakpoint list \<Rightarrow> 'z kern_scheme \<Rightarrow> 'z kern_scheme res" where
  "close_all E [] s = Inr s"
| "close_all E (b # bs) s =
     (let (r, s) = inline_syscall6 E NR_close (scast (hb_fd b)) 0 0 0 0 0 s
      in nolibc_assert ((ucast r :: c_int) = 0) (close_all E bs s))"

definition remove_all_hbreakpoints :: "env \<Rightarrow> hb_controller \<times> 'z trap_scheme \<Rightarrow> (hb_controller \<times> 'z trap_scheme) res" where
  "remove_all_hbreakpoints E cs =
     (case cs of (c, s) \<Rightarrow>
      rbind (close_all E (concat (static_hbreakpoints c)) s)
      (\<lambda>s. rbind (close_all E (concat (dynamic_hbreakpoints c)) s)
      (\<lambda>s. Inr (c\<lparr>used_breakpoints := 0\<rparr>, s))))"

end
