(* ===== verification/Segfault.thy ===== *)
theory Segfault
  imports Breakpoints
begin

text \<open>
  The handlers of \<open>SIGSEGV\<close> and \<open>SIGTRAP\<close> and the list of active threads, the rest of
  \<open>src/src/segfault_handler/segfault_handler.cpp\<close>.

  The functions are those of one thread. Where the code spins until other threads have changed a
  shared variable, the function goes on with the value that ends the wait, and a wait that no
  other thread can end is \<open>Inl NoFuel\<close>; the protocol between the threads is the subject of \<open>ThreadSync\<close>. A
  lock that the thread itself holds is \<open>Inl Deadlock\<close>. An unsafe page is its position in the list,
  which never shrinks.
\<close>

abbreviation (input) NR_getpid :: u64 where "NR_getpid \<equiv> 39"
abbreviation (input) NR_gettid :: u64 where "NR_gettid \<equiv> 186"
abbreviation (input) SI_USER :: c_int where "SI_USER \<equiv> 0"
abbreviation (input) SI_TKILL :: c_int where "SI_TKILL \<equiv> -6"
abbreviation (input) SEGV_MAPERR :: c_int where "SEGV_MAPERR \<equiv> 1"
abbreviation (input) SEGV_BNDERR :: c_int where "SEGV_BNDERR \<equiv> 3"
abbreviation (input) SEGV_PKUERR :: c_int where "SEGV_PKUERR \<equiv> 4"
abbreviation (input) TRAP_PERF :: c_int where "TRAP_PERF \<equiv> 6"

text \<open>Addresses of local variables that are passed to the kernel.\<close>

record trap_addrs =
  perf_attr :: addr
  empty_mask :: addr
  full_mask :: addr

section \<open>Threads\<close>

definition nolibc_gettid :: "env \<Rightarrow> 'z kern_scheme \<Rightarrow> u64 \<times> 'z kern_scheme" where
  "nolibc_gettid E s = inline_syscall6 E NR_gettid 0 0 0 0 0 0 s"

definition nolibc_getpid :: "env \<Rightarrow> 'z kern_scheme \<Rightarrow> u64 \<times> 'z kern_scheme" where
  "nolibc_getpid E s = inline_syscall6 E NR_getpid 0 0 0 0 0 0 s"

text \<open>The signal to every other thread; only possible when the page is not a static one.\<close>

primrec signal_threads :: "env \<Rightarrow> bool \<Rightarrow> (c_int \<times> c_int) list \<Rightarrow> 'z kern_scheme \<Rightarrow> 'z kern_scheme res" where
  "signal_threads E is_static [] s = Inr s"
| "signal_threads E is_static (t # ts) s =
     (let (me, s) = nolibc_gettid E s in
      if scast (fst t) = me then signal_threads E is_static ts s
      else nolibc_assert (\<not> is_static)
        (let (ret, s) = inline_syscall6 E NR_tgkill (scast (snd t)) (scast (fst t)) (scast SIGSEGV) 0 0 0 s
         in nolibc_assert ((ucast ret :: c_int) = 0) (signal_threads E is_static ts s)))"

text \<open>\<open>waiting_thread_count.store(active_thread_list_size-1)\<close> and the wait until it is 0.\<close>

definition wait_followers :: "'z trap_scheme \<Rightarrow> 'z trap_scheme res" where
  "wait_followers s =
     (if active_thread_list s = [] then Inl NoFuel else Inr (s\<lparr>waiting_thread_count := 0\<rparr>))"

definition add_breakpoint_wrapper :: "env \<Rightarrow> trap_addrs \<Rightarrow> nat \<Rightarrow> bool \<Rightarrow> 'z trap_scheme \<Rightarrow> 'z trap_scheme res" where
  "add_breakpoint_wrapper E A i is_static s =
     (if hbreakpoint_sync_mutex s then Inl Deadlock
      else if current_perm (unsafe_pages s ! i) AND PROT_EXEC \<noteq> 0 then Inr s
      else
        let s = s\<lparr>hbreakpoint_sync_mutex := True\<rparr> in
        nolibc_assert (controller_thread s = 0 \<and> waiting_thread_count s = 0 \<and> segfault_page s = None)
        (let (me, s) = nolibc_gettid E s;
             s = s\<lparr>controller_thread := ucast me, segfault_page := Some i\<rparr> in
         rbind (signal_threads E is_static (active_thread_list s) s)
         (\<lambda>s. rbind (add_breakpoints E (perf_attr A) (unsafe_pages s ! i) is_static (hb s, s))
         (\<lambda>(c, s). rbind (wait_followers (s\<lparr>hb := c, global_hb := c\<rparr>))
         (\<lambda>s. rbind (wait_followers (s\<lparr>segfault_page := None, controller_thread := 0\<rparr>))
         (\<lambda>s. Inr (s\<lparr>hbreakpoint_sync_mutex := False\<rparr>)))))))"

text \<open>A follower: it places the breakpoints of the page the controller works on, reports this, waits
  until the controller has gone on, and reports that it has seen it.\<close>

definition other_thread_add_breakpoint_wrapper :: "env \<Rightarrow> trap_addrs \<Rightarrow> 'z trap_scheme \<Rightarrow> 'z trap_scheme res" where
  "other_thread_add_breakpoint_wrapper E A s =
     (if waiting_thread_count s = 0 then Inl NoFuel
      else case segfault_page s of
        None \<Rightarrow> Inl Ud2
      | Some i \<Rightarrow>
          rbind (add_breakpoints E (perf_attr A) (unsafe_pages s ! i) False (hb s, s))
          (\<lambda>(c, s). nolibc_assert (waiting_thread_count s > 0)
             (let s = s\<lparr>hb := c, waiting_thread_count := waiting_thread_count s - 1\<rparr>;
                  s = s\<lparr>controller_thread := 0, segfault_page := None,
                        waiting_thread_count := int (length (active_thread_list s)) - 1\<rparr>
              in nolibc_assert (waiting_thread_count s > 0)
                (Inr (s\<lparr>waiting_thread_count := waiting_thread_count s - 1\<rparr>)))))"

text \<open>The search stops at the last element, which is taken without looking at it; then it has to be the
  right one. The rest moves one place down.\<close>

fun thread_index :: "c_int \<Rightarrow> (c_int \<times> c_int) list \<Rightarrow> nat" where
  "thread_index tid [] = 0"
| "thread_index tid [t] = 0"
| "thread_index tid (t # u # ts) = (if fst t = tid then 0 else Suc (thread_index tid (u # ts)))"

definition remove_element_active_thread_list :: "c_int \<Rightarrow> (c_int \<times> c_int) list \<Rightarrow> (c_int \<times> c_int) list res" where
  "remove_element_active_thread_list tid ts =
     (let i = thread_index tid ts in
      if ts = [] then Inl Ud2
      else if i = length ts - 1 then nolibc_assert (fst (ts ! i) = tid) (Inr (butlast ts))
      else Inr (take i ts @ drop (Suc i) ts))"

text \<open>The size of the controller is below a page. The removal passes the controller's pages to \<open>mmap\<close>,
  and only asserts that the result is not 0.\<close>

definition update_active_thread_list :: "env \<Rightarrow> trap_addrs \<Rightarrow> bool \<Rightarrow> 'z trap_scheme \<Rightarrow> 'z trap_scheme res" where
  "update_active_thread_list E A remove_thread s =
     (let s = set_sud_allow s in
      if hbreakpoint_sync_mutex s then Inl Deadlock
      else nolibc_assert (controller_thread s = 0)
      (if remove_thread
       then let (r, s) = inline_syscall6 E NR_rt_sigprocmask 2 (full_mask A) 0 8 0 0 s in
         nolibc_assert (r = 0)
         (let (me, s) = nolibc_gettid E s in
          rbind (remove_element_active_thread_list (ucast me) (active_thread_list s))
          (\<lambda>ts. rbind (remove_all_hbreakpoints E (hb s, s\<lparr>active_thread_list := ts\<rparr>))
          (\<lambda>(c, s). let (r, s) = inline_syscall6 E NR_mmap (hb_location s) PAGE_SIZE 0 0 0 0 (s\<lparr>hb := c\<rparr>)
                    in nolibc_assert (r \<noteq> 0) (Inr s))))
       else
         rbind (set_all_hbreakpoits E (perf_attr A) (global_hb s, s))
         (\<lambda>(c, s). nolibc_assert (length (active_thread_list s) < 4096)
           (let (tid, s) = nolibc_gettid E s;
                (pid, s) = nolibc_getpid E s;
                s = set_sud_block (s\<lparr>active_thread_list := active_thread_list s @ [(ucast tid, ucast pid)], hb := c\<rparr>);
                (loc, s) = inline_syscall6 E NR_mmap 0 PAGE_SIZE (scast (PROT_READ OR PROT_WRITE))
                             (scast (MAP_PRIVATE OR MAP_ANONYMOUS)) (-1) 0 s
            in Inr (s\<lparr>hb_location := loc\<rparr>)))))"

definition add_breakpoints_after_fork_wrapper :: "env \<Rightarrow> trap_addrs \<Rightarrow> 'z trap_scheme \<Rightarrow> 'z trap_scheme res" where
  "add_breakpoints_after_fork_wrapper E A s =
     (let s = s\<lparr>controller_thread := 0, waiting_thread_count := 0, segfault_page := None\<rparr>;
          (tid, s) = nolibc_gettid E s;
          (pid, s) = nolibc_getpid E s;
          s = s\<lparr>active_thread_list := [(ucast tid, ucast pid)]\<rparr>
      in rbind (set_all_hbreakpoits E (perf_attr A) (hb s, s)) (\<lambda>(c, s). Inr (s\<lparr>hb := c\<rparr>)))"

section \<open>The signal handlers\<close>

definition segfault_mprotect :: "env \<Rightarrow> nat \<Rightarrow> c_int \<Rightarrow> c_int \<Rightarrow> 'z trap_scheme \<Rightarrow> (int \<times> 'z trap_scheme) res" where
  "segfault_mprotect E i perm cid s =
     rbind (secpoline_mprotect E (up_address (unsafe_pages s ! i)) PAGE_SIZE perm cid s)
       (\<lambda>(r, s). nolibc_assert (r = 0) (Inr (0, set_current_perm i perm s)))"

definition secpoline_segfault_handler :: "env \<Rightarrow> trap_addrs \<Rightarrow> c_int \<Rightarrow> addr \<Rightarrow> u8 \<Rightarrow> 'z trap_scheme \<Rightarrow> (int \<times> 'z trap_scheme) res" where
  "secpoline_segfault_handler E A si_code si_addr cid_on_entry s =
     (let cid = scast cid_on_entry in
      nolibc_assert (si_code \<noteq> SI_USER \<and> si_code \<noteq> SI_TKILL \<and> si_code \<noteq> SEGV_PKUERR)
      (if si_code = SEGV_BNDERR \<or> si_code = SEGV_MAPERR then Inr (1, s)
       else case find_unsafe_page si_addr s of
         None \<Rightarrow> Inr (2, s)
       | Some i \<Rightarrow>
           rbind (lookup_addr (up_address (unsafe_pages s ! i)) cid s)
           (\<lambda>(g, s). let page = unsafe_pages s ! i in
             if g = None then Inr (3, s)
             else if current_perm page AND PROT_EXEC \<noteq> 0
             then if desired_perm page AND PROT_WRITE = 0 then Inr (0, s)
                  else segfault_mprotect E i (desired_perm page AND NOT PROT_EXEC) cid s
             else if current_perm page AND PROT_WRITE \<noteq> 0
             then if desired_perm page AND PROT_EXEC = 0 then Inr (4, s)
                  else rbind (erim_memScanRegion E (up_address page) PAGE_SIZE None (desired_perm page)
                               (desired_perm page AND NOT PROT_WRITE) (trusted_page page) 0 s)
                    (\<lambda>(found, _, s). rbind (if found \<noteq> None then add_breakpoint_wrapper E A i False s else Inr s)
                      (segfault_mprotect E i (PROT_READ OR PROT_EXEC) cid))
             else if unsafe_instructions page \<noteq> None
             then if desired_perm page AND PROT_EXEC = 0 then Inr (5, s)
                  else rbind (add_breakpoint_wrapper E A i False s) (segfault_mprotect E i (PROT_READ OR PROT_EXEC) cid)
             else Inr (6, s))))"

text \<open>The handler of a hardware breakpoint: the result and the address at which the interrupted code
  goes on.\<close>

definition secpoline_sigtrap_handler :: "env \<Rightarrow> c_int \<Rightarrow> addr \<Rightarrow> u64 \<Rightarrow> 'z trap_scheme \<Rightarrow> (int \<times> addr \<times> 'z trap_scheme) res" where
  "secpoline_sigtrap_handler E si_code rip rax s =
     nolibc_assert (si_code = TRAP_PERF)
     (rbind (internal_wrpkru GRANT_FULL_PERMISSIONS s)
      (\<lambda>s. if erim_isXRSTOR (mem_at E s) rip
           then rbind (internal_wrpkru GRANT_TRUSTED_PERMISSIONS s)
             (\<lambda>s. if rax AND 0x200 \<noteq> 0 then Inl Exit else Inr (0, rip + 3, s))
           else rbind (internal_wrpkru GRANT_FULL_PERMISSIONS s)
             (\<lambda>s. if erim_isWRGSBASE32 (mem_at E s) rip then Inl Exit
                  else if erim_isWRGSBASE64 (mem_at E s) rip then Inl Exit
                  else if erim_isWRPKRU (mem_at E s) rip then Inl Exit
                  else Inl Ud2)))"

text \<open>The signal as the kernel delivers it, and the entry point for all signals: the compartment that was
  interrupted, the address where it goes on, and the address of the handler that ran, if any.\<close>

record siginfo =
  si_code :: c_int
  si_addr :: addr
  si_bytes :: "u8 list"
  uc_bytes :: "u8 list"
  uc_rip :: addr
  uc_rax :: u64

definition with_segfault_mutex :: "('z trap_scheme \<Rightarrow> (int \<times> 'z trap_scheme) res) \<Rightarrow> 'z trap_scheme \<Rightarrow> (int \<times> 'z trap_scheme) res" where
  "with_segfault_mutex f s =
     (if segfault_handler_mutex s then Inl Deadlock
      else rbind (f (s\<lparr>segfault_handler_mutex := True\<rparr>)) (\<lambda>(r, s). Inr (r, s\<lparr>segfault_handler_mutex := False\<rparr>)))"

definition segv_switch :: "env \<Rightarrow> trap_addrs \<Rightarrow> siginfo \<Rightarrow> u8 \<Rightarrow> 'z trap_scheme \<Rightarrow> (int \<times> 'z trap_scheme) res" where
  "segv_switch E A info cid s =
     (let sent = (si_code info = SI_USER \<or> si_code info = SI_TKILL);
          handle = with_segfault_mutex (secpoline_segfault_handler E A (si_code info) (si_addr info) cid) in
      if controller_thread s \<noteq> 0
      then if sent then rbind (other_thread_add_breakpoint_wrapper E A s) (\<lambda>s. Inr (0, s))
           else case segfault_page s of
             None \<Rightarrow> Inl NullDeref
           | Some i \<Rightarrow>
               rbind (other_thread_add_breakpoint_wrapper E A s)
                 (\<lambda>s'. if page_of (si_addr info) = up_address (unsafe_pages s ! i) then Inr (0, s') else handle s')
      else if sent then Inr (0, s)
      else handle s)"

definition trap_switch :: "env \<Rightarrow> siginfo \<Rightarrow> 'z trap_scheme \<Rightarrow> (int \<times> addr \<times> 'z trap_scheme) res" where
  "trap_switch E info s =
     (if trap_handler_mutex s then Inl Deadlock
      else rbind (secpoline_sigtrap_handler E (si_code info) (uc_rip info) (uc_rax info) (s\<lparr>trap_handler_mutex := True\<rparr>))
        (\<lambda>(r, rip, s). Inr (r, rip, s\<lparr>trap_handler_mutex := False\<rparr>)))"

definition signal_handler_switch :: "env \<Rightarrow> trap_addrs \<Rightarrow> c_int \<Rightarrow> siginfo \<Rightarrow> 'z trap_scheme
    \<Rightarrow> (u8 \<times> addr \<times> addr option \<times> 'z trap_scheme) res" where
  "signal_handler_switch E A signo info s =
     (let cid_on_entry = compartment_id s; selector_on_entry = get_sud s;
          s = set_sud_allow (s\<lparr>compartment_id := ucast TS_MONITOR\<rparr>) in
      rbind (if signo = SIGSEGV then segv_switch E A info cid_on_entry s else Inr (-1, s))
      (\<lambda>(segfault_res, s). rbind
        (if signo = SIGTRAP then trap_switch E info s else Inr (-1, uc_rip info, s))
      (\<lambda>(trap_res, rip, s).
        let (r, s) = inline_syscall6 E NR_rt_sigprocmask 2 (empty_mask A) 0 8 0 0 s in
        nolibc_assert (r = 0)
        (rbind (if segfault_res \<noteq> 0 \<and> trap_res \<noteq> 0
                then rbind (wrap_signal_handler E signo (si_bytes info) (uc_bytes info) cid_on_entry (set_sud_block s))
                       (\<lambda>(si, uc, h, s). Inr (Some h, s))
                else Inr (None, set_sud_block s))
        (\<lambda>(h, s). if length (sigreturn_stack s) + 2 > 0x1000 then Inl OutOfBounds
           else Inr (cid_on_entry, rip, h, s\<lparr>sigreturn_stack := sigreturn_stack s @ [scast cid_on_entry, scast selector_on_entry]\<rparr>))))))"

end
