(* ===== verification/Frame.thy ===== *)
theory Frame
  imports ErimFacts
begin

text \<open>
  The page manager changes only its own part of the state: whatever a component above it keeps in
  the extension of the record is as before.
\<close>

lemma virt_page_alloc_more: "virt_page_alloc E s = Inr s' \<Longrightarrow> vpm.more s' = vpm.more s"
  by (auto simp: virt_page_alloc_def refill_free_list_def res_simps syscall_defs Let_def split: if_splits)

lemma remove_single_more: "remove_single E st en i s = Inr (r, s') \<Longrightarrow> vpm.more s' = vpm.more s"
  by (auto simp: remove_single_def Let_def res_simps virt_page_free_def split: if_splits dest!: virt_page_alloc_more)

lemma remove_multi_more: "remove_multi st en i j s = Inr (r, s') \<Longrightarrow> vpm.more s' = vpm.more s"
  by (auto simp: remove_multi_def Let_def split: if_splits prod.splits)

lemma remove_page_locked_more: "remove_page_locked E st sz cid s = Inr (r, s') \<Longrightarrow> vpm.more s' = vpm.more s"
  by (drule remove_page_locked_run) (auto split: if_splits dest: remove_single_more remove_multi_more)

lemma remove_fixed_more: "remove_page_map_fixed_locked E st sz cid s = Inr (r, s') \<Longrightarrow> vpm.more s' = vpm.more s"
  by (auto simp: remove_page_map_fixed_locked_def Let_def res_simps split: if_splits option.splits
      dest!: virt_page_alloc_more)

lemma add_page_locked_more:
  assumes "add_page_locked E st sz pr fl cid mf s = Inr (r, s')"
  shows "vpm.more s' = vpm.more s"
proof -
  let ?sz = "vp_size (new_page st sz pr fl cid)"
  from assms obtain r1 s1 where c: "(if mf then (if is_multithreaded s then remove_page_locked E st ?sz cid s
      else remove_page_map_fixed_locked E st ?sz cid s) else Inr (0, s)) = Inr (r1, s1)"
    and t: "vpm.more s' = vpm.more s1"
    unfolding add_page_locked_def Let_def by (auto simp: res_simps split: if_splits)
  show ?thesis unfolding t
    using c by (auto split: if_splits dest: remove_page_locked_more remove_fixed_more)
qed

lemma mprotect_reinsert_more: "mprotect_reinsert E st sz pr cid s = Inr (r, s') \<Longrightarrow> vpm.more s' = vpm.more s"
  by (auto simp: mprotect_reinsert_def Let_def res_simps split: option.splits dest!: virt_page_alloc_more)

lemma update_mprotect_locked_more:
  assumes "update_mprotect_locked E st sz pr cid s = Inr (r, s')"
  shows "vpm.more s' = vpm.more s"
proof -
  consider "vpm.more s' = vpm.more s" | s1 where "virt_page_alloc E s = Inr s1" "vpm.more s' = vpm.more s1"
    | s1 s2 where "virt_page_alloc E s = Inr s1" "virt_page_alloc E s1 = Inr s2" "vpm.more s' = vpm.more s2"
    | r1 s1 where "remove_page_locked E st sz cid s = Inr (r1, s1)" "s' = s1 \<or> mprotect_reinsert E st sz pr cid s1 = Inr (r, s')"
    using assms unfolding update_mprotect_locked_def Let_def
    by (auto simp: res_simps split: if_splits option.splits)
  then show ?thesis
    by cases (auto dest!: virt_page_alloc_more remove_page_locked_more mprotect_reinsert_more)
qed

lemma locked_more:
  assumes "locked body s = Inr (r, s')" "\<And>s1. body (enter s) = Inr (r, s1) \<Longrightarrow> vpm.more s1 = vpm.more (enter s)"
  shows "vpm.more s' = vpm.more s"
  using assms by (auto simp: locked_Inr sud_defs)

lemma add_page_more: "add_page E st sz pr fl cid mf s = Inr (r, s') \<Longrightarrow> vpm.more s' = vpm.more s"
  unfolding add_page_def
  by (erule locked_more) (auto simp: res_simps virt_page_free_def dest!: virt_page_alloc_more add_page_locked_more)

lemma remove_page_more: "remove_page E st sz cid s = Inr (r, s') \<Longrightarrow> vpm.more s' = vpm.more s"
  unfolding remove_page_def by (erule locked_more) (rule remove_page_locked_more)

lemma update_mprotect_more: "update_mprotect E st sz pr cid s = Inr (r, s') \<Longrightarrow> vpm.more s' = vpm.more s"
  unfolding update_mprotect_def by (erule locked_more) (rule update_mprotect_locked_more)

lemma lookup_addr_more: "lookup_addr a cid s = Inr (r, s') \<Longrightarrow> vpm.more s' = vpm.more s"
  unfolding lookup_addr_def by (erule locked_more) simp

lemma secpoline_mprotect_more: "secpoline_mprotect E a sz pr cid s = Inr (r, s') \<Longrightarrow> vpm.more s' = vpm.more s"
  by (auto simp: secpoline_mprotect_def syscall_defs Let_def res_simps split: if_splits dest!: update_mprotect_more)

lemma secpoline_mprotect_0: "secpoline_mprotect E a sz pr cid s = Inr (r, s') \<Longrightarrow> r = 0"
  by (auto simp: secpoline_mprotect_def Let_def res_simps split: if_splits prod.splits)

text \<open>The part above the page manager determines the fields kept there.\<close>

lemma more_unsafe_pages: "vpm.more (s' :: 'z erim_scheme) = vpm.more s \<Longrightarrow> unsafe_pages s' = unsafe_pages s"
  by (cases s; cases s') simp

end
