(* ===== verification/BreakpointProps.thy ===== *)
theory BreakpointProps
  imports Segfault SignalsProps Frame
begin

text \<open>
  Properties of the hardware breakpoints and of the fault handlers: the controller never holds more than
  four breakpoints and its counters agree with its lists, every executable page has a breakpoint on
  each of its recorded unsafe instructions as long as pages become executable through the branch for
  read-only pages, and what the branch for writable pages does instead.
\<close>

section \<open>The invariants\<close>

definition bp_addrs :: "hb_controller \<Rightarrow> addr set" where
  "bp_addrs c = hb_address ` set (concat (static_hbreakpoints c) @ concat (dynamic_hbreakpoints c))"

definition same_page :: "watched_page \<Rightarrow> bool" where
  "same_page w \<longleftrightarrow> (\<forall>b\<in>set w. page_of (hb_address b) = page_of (hb_address (hd w)))"

definition hb_wf :: "hb_controller \<Rightarrow> bool" where
  "hb_wf c \<longleftrightarrow> used_breakpoints c = page_bps (static_hbreakpoints c) + page_bps (dynamic_hbreakpoints c) \<and>
     used_breakpoints c \<le> 4 \<and> max_dynamic_breakpoints c = 4 - page_bps (static_hbreakpoints c) \<and>
     list_all same_page (dynamic_hbreakpoints c)"

definition counted :: "unsafe_page \<Rightarrow> addr list" where
  "counted p = (case unsafe_instructions p of None \<Rightarrow> [] | Some v \<Rightarrow> take (unsafe_instructions_size p) v)"

definition on_page :: "unsafe_page \<Rightarrow> bool" where
  "on_page p \<longleftrightarrow> list_all (\<lambda>a. page_of a = up_address p) (counted p)"

definition list_ok :: "unsafe_page list \<Rightarrow> bool" where
  "list_ok us \<longleftrightarrow> distinct (map up_address us) \<and> list_all on_page us"

definition page_guarded :: "hb_controller \<Rightarrow> unsafe_page \<Rightarrow> bool" where
  "page_guarded c p \<longleftrightarrow> (current_perm p AND PROT_EXEC \<noteq> 0 \<longrightarrow> set (counted p) \<subseteq> bp_addrs c)"

definition guarded :: "hb_controller \<Rightarrow> unsafe_page list \<Rightarrow> bool" where
  "guarded c us \<longleftrightarrow> hb_wf c \<and> list_ok us \<and> list_all (page_guarded c) us"

lemma counted_perm [simp]: "counted (p\<lparr>current_perm := x\<rparr>) = counted p"
  by (simp add: counted_def split: option.split)

lemma page_bps_simps [simp]: "page_bps [] = 0" "page_bps (p # ps) = int (length p) + page_bps ps"
  "page_bps (ps @ qs) = page_bps ps + page_bps qs" "0 \<le> page_bps ps"
  by (simp_all add: page_bps_def)

text \<open>Changing the current permission of an entry.\<close>

lemma list_ok_perm: "list_ok (us[i := (us ! i)\<lparr>current_perm := p\<rparr>]) = list_ok us"
proof (cases "i < length us")
  case True
  have "map up_address (us[i := (us ! i)\<lparr>current_perm := p\<rparr>]) = map up_address us"
    using True by (simp add: map_update) (metis list_update_id map_update nth_map)
  moreover have "list_all on_page (us[i := (us ! i)\<lparr>current_perm := p\<rparr>]) = list_all on_page us"
    using True by (simp add: list_all_length nth_list_update on_page_def) metis
  ultimately show ?thesis by (simp add: list_ok_def)
qed (simp add: list_update_beyond)

lemma guarded_perm:
  assumes "guarded c us" "p AND PROT_EXEC \<noteq> 0 \<longrightarrow> set (counted (us ! i)) \<subseteq> bp_addrs c"
  shows "guarded c (us[i := (us ! i)\<lparr>current_perm := p\<rparr>])"
proof (cases "i < length us")
  case True
  then show ?thesis
    using assms unfolding guarded_def list_ok_perm
    by (auto simp: list_all_length nth_list_update page_guarded_def)
next
  case False
  then show ?thesis using assms(1) by (simp add: list_update_beyond)
qed

lemma map_counted_perm: "map counted (us[i := (us ! i)\<lparr>current_perm := p\<rparr>]) = map counted us"
proof (cases "i < length us")
  case True
  then show ?thesis by (intro nth_equalityI) (auto simp: nth_list_update)
qed (simp add: list_update_beyond)

section \<open>Runs of the operations\<close>

lemma set_hbreakpoint_run:
  assumes "set_hbreakpoint E pa a s = Inr (fd, s')"
  shows "\<exists>t. s' = s\<lparr>trace := t, bp_log := a # bp_log s\<rparr>"
  using assms by (cases s) (auto simp: set_hbreakpoint_def syscall_defs Let_def res_simps)

lemma set_hbreakpoints_run:
  "set_hbreakpoints E pa as s = Inr (bs, s') \<Longrightarrow>
     map hb_address bs = as \<and> (\<exists>t. s' = s\<lparr>trace := t, bp_log := rev as @ bp_log s\<rparr>)"
proof (induction as arbitrary: s bs s')
  case Nil
  then show ?case by (cases s) auto
next
  case (Cons a as)
  then obtain fd s1 bs1 where "set_hbreakpoint E pa a s = Inr (fd, s1)"
    "set_hbreakpoints E pa as s1 = Inr (bs1, s')" "bs = \<lparr>hb_address = a, hb_fd = fd\<rparr> # bs1"
    by (auto simp: res_simps)
  with Cons.IH [of s1 bs1 s'] set_hbreakpoint_run [of E pa a s fd s1] show ?case by auto
qed

lemma page_insns_counted: "page_insns page = Inr is \<Longrightarrow> is = counted page \<and> length is = unsafe_instructions_size page"
  by (auto simp: page_insns_def counted_def split: if_splits option.splits)

lemma add_watched_page_run:
  assumes "add_watched_page E pa page st (c, s) = Inr (c', s')"
  obtains bs where "map hb_address bs = counted page" "unsafe_pages s' = unsafe_pages s"
    "int (length bs) + used_breakpoints c \<le> 4"
    "c' = (if st then c\<lparr>used_breakpoints := used_breakpoints c + int (length bs),
             static_hbreakpoints := static_hbreakpoints c @ [bs],
             max_dynamic_breakpoints := max_dynamic_breakpoints c - int (length bs)\<rparr>
           else c\<lparr>used_breakpoints := used_breakpoints c + int (length bs),
             dynamic_hbreakpoints := dynamic_hbreakpoints c @ [bs]\<rparr>)"
proof -
  let ?n = "int (unsafe_instructions_size page)"
  from assms obtain "is" bs s1 where i: "page_insns page = Inr is" "set_hbreakpoints E pa is s = Inr (bs, s1)"
    and n: "?n + used_breakpoints c \<le> 4"
    and r: "s' = s1" "c' = (let c = c\<lparr>used_breakpoints := used_breakpoints c + ?n\<rparr> in
      if st then c\<lparr>static_hbreakpoints := static_hbreakpoints c @ [bs], max_dynamic_breakpoints := max_dynamic_breakpoints c - ?n\<rparr>
      else c\<lparr>dynamic_hbreakpoints := dynamic_hbreakpoints c @ [bs]\<rparr>)"
    by (auto simp: add_watched_page_def Let_def res_simps split: if_splits)
  from page_insns_counted [OF i(1)] set_hbreakpoints_run [OF i(2)]
  have l: "?n = int (length bs)" "map hb_address bs = counted page" "unsafe_pages s1 = unsafe_pages s"
    using length_map [of hb_address bs] by auto
  show thesis
    by (rule that [OF l(2)]) (use l n r in \<open>simp_all add: Let_def\<close>)
qed

lemma close_hbreakpoints_run: "close_hbreakpoints E bs s = Inr s' \<Longrightarrow> \<exists>t. s' = s\<lparr>trace := t\<rparr>"
proof (induction bs arbitrary: s)
  case Nil
  then show ?case by (cases s) auto
next
  case (Cons b bs)
  then show ?case by (fastforce simp: syscall_defs Let_def res_simps)
qed

lemma set_page_non_executable_run:
  assumes "set_page_non_executable E a s = Inr s'"
  obtains i p where "find_entry (page_of a) (unsafe_pages s) = Some i" "p AND PROT_EXEC = 0"
    "unsafe_pages s' = (unsafe_pages s)[i := (unsafe_pages s ! i)\<lparr>current_perm := p\<rparr>]"
proof -
  from assms obtain g s1 where l: "lookup_addr a (-1) s = Inr (Some g, s1)"
    by (auto simp: set_page_non_executable_def res_simps split: option.splits)
  have u: "unsafe_pages s1 = unsafe_pages s" by (rule more_unsafe_pages [OF lookup_addr_more [OF l]])
  from assms l obtain i where i: "find_entry (page_of a) (unsafe_pages s) = Some i"
    by (auto simp: set_page_non_executable_def find_unsafe_page_def u split: option.splits)
  let ?u = "unsafe_pages s ! i"
  show thesis
  proof (cases "current_perm ?u AND PROT_EXEC = 0")
    case True
    then have "s' = s1"
      using assms l i by (auto simp: set_page_non_executable_def find_unsafe_page_def u res_simps Let_def)
    then show thesis using that [OF i True] by (simp add: u)
  next
    case False
    define s2 where "s2 = s1\<lparr>unsafe_page_mutex := True\<rparr>"
    have u2: "unsafe_pages s2 = unsafe_pages s" by (simp add: s2_def u)
    obtain p r s3 where p: "p = PROT_READ OR PROT_WRITE \<or> p = PROT_READ"
      and m: "secpoline_mprotect E (up_address ?u) PAGE_SIZE p (vp_Cid g) (set_current_perm i p s2) = Inr (r, s3)"
      and s3: "unsafe_pages s' = unsafe_pages s3"
      using assms l i False
      by (fastforce simp: set_page_non_executable_def find_unsafe_page_def u s2_def res_simps Let_def split: if_splits)
    have "unsafe_pages s' = (unsafe_pages s)[i := ?u\<lparr>current_perm := p\<rparr>]"
      unfolding s3 more_unsafe_pages [OF secpoline_mprotect_more [OF m]]
      by (simp add: set_current_perm_def u2)
    moreover have "p AND PROT_EXEC = 0" using p by auto
    ultimately show thesis using that [OF i] by blast
  qed
qed

lemma remove_last_page_run:
  assumes "remove_last_page E (c, s) = Inr (c', s')"
  obtains w rest i p where "dynamic_hbreakpoints c = w # rest" "w \<noteq> []"
    "c' = c\<lparr>used_breakpoints := used_breakpoints c - int (length w), dynamic_hbreakpoints := rest\<rparr>"
    "find_entry (page_of (hb_address (hd w))) (unsafe_pages s) = Some i" "p AND PROT_EXEC = 0"
    "unsafe_pages s' = (unsafe_pages s)[i := (unsafe_pages s ! i)\<lparr>current_perm := p\<rparr>]"
proof -
  from assms obtain b bs rest s1 where w: "dynamic_hbreakpoints c = (b # bs) # rest"
    and s1: "set_page_non_executable E (hb_address b) s = Inr s1" "close_hbreakpoints E (b # bs) s1 = Inr s'"
    and c': "c' = c\<lparr>used_breakpoints := used_breakpoints c - int (length (b # bs)), dynamic_hbreakpoints := rest\<rparr>"
    unfolding remove_last_page_def by (auto simp: res_simps split: list.splits)
  have u: "unsafe_pages s' = unsafe_pages s1" using close_hbreakpoints_run [OF s1(2)] by auto
  from set_page_non_executable_run [OF s1(1)] obtain i p where
    "find_entry (page_of (hb_address b)) (unsafe_pages s) = Some i" "p AND PROT_EXEC = 0"
    "unsafe_pages s1 = (unsafe_pages s)[i := (unsafe_pages s ! i)\<lparr>current_perm := p\<rparr>]" .
  then show thesis using that [OF w _ c'] u by simp
qed

section \<open>The invariants are kept\<close>

lemma remove_last_page_guarded:
  assumes "remove_last_page E (c, s) = Inr (c', s')" "guarded c (unsafe_pages s)"
  shows "guarded c' (unsafe_pages s')"
proof -
  let ?us = "unsafe_pages s"
  from assms(1) obtain w rest i p where d: "dynamic_hbreakpoints c = w # rest" "w \<noteq> []"
    and c': "c' = c\<lparr>used_breakpoints := used_breakpoints c - int (length w), dynamic_hbreakpoints := rest\<rparr>"
    and i: "find_entry (page_of (hb_address (hd w))) ?us = Some i" and p: "p AND PROT_EXEC = 0"
    and u: "unsafe_pages s' = ?us[i := (?us ! i)\<lparr>current_perm := p\<rparr>]"
    by (rule remove_last_page_run)
  note ii = find_entry_Some [OF i]
  have w: "same_page w" and l: "list_ok ?us" and g: "list_all (page_guarded c) ?us"
    using assms(2) d(1) by (auto simp: guarded_def hb_wf_def)
  have "hb_wf c'" using assms(2) d by (auto simp: guarded_def hb_wf_def c')
  moreover have "page_guarded c' (unsafe_pages s' ! j)" if j: "j < length ?us" for j
  proof (cases "j = i")
    case True
    then show ?thesis using ii p by (simp add: u page_guarded_def)
  next
    case False
    have ne: "up_address (?us ! j) \<noteq> page_of (hb_address (hd w))"
      using False ii l j nth_eq_iff_index_eq [of "map up_address ?us" i j] by (auto simp: list_ok_def)
    have "a \<in> bp_addrs c'" if "a \<in> bp_addrs c" "a \<in> set (counted (?us ! j))" for a
    proof -
      have "page_of a = up_address (?us ! j)"
        using l nth_mem [OF j] that(2) by (auto simp: list_ok_def on_page_def list_all_iff)
      then have "a \<notin> hb_address ` set w" using ne w by (auto simp: same_page_def)
      then show ?thesis using that(1) d(1) by (auto simp: bp_addrs_def c')
    qed
    then show ?thesis using g j False by (auto simp: u page_guarded_def list_all_length)
  qed
  ultimately show ?thesis
    using l by (simp add: guarded_def list_ok_perm u list_all_length)
qed

lemma remove_until_guarded:
  "remove_until E k n (c, s) = Inr (c', s') \<Longrightarrow> guarded c (unsafe_pages s) \<Longrightarrow>
     guarded c' (unsafe_pages s') \<and> n \<le> 4 - used_breakpoints c' \<and>
     static_hbreakpoints c' = static_hbreakpoints c \<and> map counted (unsafe_pages s') = map counted (unsafe_pages s)"
proof (induction k arbitrary: c s)
  case 0
  then show ?case by (auto split: if_splits)
next
  case (Suc k)
  show ?case
  proof (cases "4 - used_breakpoints c < n")
    case True
    then obtain c1 s1 where 1: "remove_last_page E (c, s) = Inr (c1, s1)" "remove_until E k n (c1, s1) = Inr (c', s')"
      using Suc.prems(1) by (auto simp: res_simps)
    note ih = Suc.IH [OF 1(2) remove_last_page_guarded [OF 1(1) Suc.prems(2)]]
    have "static_hbreakpoints c1 = static_hbreakpoints c \<and> map counted (unsafe_pages s1) = map counted (unsafe_pages s)"
      by (rule remove_last_page_run [OF 1(1)]) (simp add: map_counted_perm)
    with ih show ?thesis by simp
  next
    case False
    then show ?thesis using Suc.prems by auto
  qed
qed

lemma add_watched_page_guarded:
  assumes "add_watched_page E pa page st (c, s) = Inr (c', s')" "guarded c (unsafe_pages s)" "on_page page"
  shows "guarded c' (unsafe_pages s') \<and> set (counted page) \<subseteq> bp_addrs c' \<and> unsafe_pages s' = unsafe_pages s"
proof -
  from assms(1) obtain bs where b: "map hb_address bs = counted page" and u: "unsafe_pages s' = unsafe_pages s"
    and le: "int (length bs) + used_breakpoints c \<le> 4"
    and c': "c' = (if st then c\<lparr>used_breakpoints := used_breakpoints c + int (length bs),
             static_hbreakpoints := static_hbreakpoints c @ [bs],
             max_dynamic_breakpoints := max_dynamic_breakpoints c - int (length bs)\<rparr>
           else c\<lparr>used_breakpoints := used_breakpoints c + int (length bs),
             dynamic_hbreakpoints := dynamic_hbreakpoints c @ [bs]\<rparr>)"
    by (rule add_watched_page_run)
  have "same_page bs"
    using assms(3) unfolding on_page_def b [symmetric] by (cases bs) (auto simp: same_page_def list_all_iff)
  then have "hb_wf c'" using assms(2) le by (auto simp: guarded_def hb_wf_def c')
  moreover have sub: "bp_addrs c \<subseteq> bp_addrs c'" by (auto simp: bp_addrs_def c')
  moreover have "set (counted page) \<subseteq> bp_addrs c'" by (auto simp: bp_addrs_def c' b [symmetric])
  ultimately show ?thesis
    using assms(2) by (auto simp: guarded_def u page_guarded_def list_all_iff)
qed

lemma add_breakpoints_guarded:
  assumes "add_breakpoints E pa page st (c, s) = Inr (c', s')" "guarded c (unsafe_pages s)" "on_page page"
  shows "guarded c' (unsafe_pages s') \<and> set (counted page) \<subseteq> bp_addrs c' \<and>
    map counted (unsafe_pages s') = map counted (unsafe_pages s)"
proof -
  let ?n = "int (unsafe_instructions_size page)"
  from assms(1) obtain c1 s1 where r: "remove_dynamic_hbreakpoints E ?n (c, s) = Inr (c1, s1) \<or> (c1, s1) = (c, s)"
    and a: "add_watched_page E pa page st (c1, s1) = Inr (c', s')"
    by (auto simp: add_breakpoints_def Let_def res_simps split: if_splits)
  have "guarded c1 (unsafe_pages s1) \<and> map counted (unsafe_pages s1) = map counted (unsafe_pages s)"
    using r
  proof
    assume "remove_dynamic_hbreakpoints E ?n (c, s) = Inr (c1, s1)"
    then have "remove_until E (Suc (length (dynamic_hbreakpoints c))) ?n (c, s) = Inr (c1, s1)"
      by (simp only: remove_dynamic_hbreakpoints_def nolibc_assert_eq_Inr fst_conv)
    from remove_until_guarded [OF this assms(2)] show ?thesis by simp
  qed (use assms(2) in simp)
  then show ?thesis using add_watched_page_guarded [OF a _ assms(3)] by auto
qed

lemma set_pages_run:
  "set_pages E pa ps s = Inr (qs, s') \<Longrightarrow>
     map (map hb_address) qs = map (map hb_address) ps \<and> unsafe_pages s' = unsafe_pages s"
proof (induction ps arbitrary: s qs)
  case (Cons p ps)
  then obtain bs s1 rs where "set_hbreakpoints E pa (map hb_address p) s = Inr (bs, s1)"
    "set_pages E pa ps s1 = Inr (rs, s')" "qs = bs # rs" by (auto simp: res_simps)
  then show ?case
    using set_hbreakpoints_run [of E pa "map hb_address p" s bs s1] Cons.IH [of s1 rs] by auto
qed simp

lemma set_all_run:
  assumes "set_all_hbreakpoits E pa (c, s) = Inr (c', s')"
  shows "map (map hb_address) (static_hbreakpoints c') = map (map hb_address) (static_hbreakpoints c) \<and>
    map (map hb_address) (dynamic_hbreakpoints c') = map (map hb_address) (dynamic_hbreakpoints c) \<and>
    used_breakpoints c' = used_breakpoints c \<and> max_dynamic_breakpoints c' = max_dynamic_breakpoints c \<and>
    unsafe_pages s' = unsafe_pages s"
  using assms by (auto simp: set_all_hbreakpoits_def Let_def res_simps dest!: set_pages_run)

lemma addrs_bps: "map (map hb_address) ps = map (map hb_address) qs \<Longrightarrow>
    page_bps ps = page_bps qs \<and> hb_address ` set (concat ps) = hb_address ` set (concat qs)"
proof -
  assume e: "map (map hb_address) ps = map (map hb_address) qs"
  then have "map length (map (map hb_address) ps) = map length (map (map hb_address) qs)" by simp
  then have "map length ps = map length qs" by (simp add: comp_def)
  moreover have "set (map hb_address (concat ps)) = set (map hb_address (concat qs))"
    using e by (simp only: map_concat)
  ultimately show ?thesis by (simp add: page_bps_def)
qed

lemma same_pages_addrs:
  "list_all same_page ps = list_all (\<lambda>as. \<forall>a\<in>set as. page_of a = page_of (hd as)) (map (map hb_address) ps)"
proof (induction ps)
  case (Cons w ps)
  then show ?case by (cases w) (auto simp: same_page_def)
qed simp

lemma set_all_guarded:
  assumes "set_all_hbreakpoits E pa (c, s) = Inr (c', s')" "guarded c (unsafe_pages s)"
  shows "guarded c' (unsafe_pages s') \<and> bp_addrs c' = bp_addrs c"
proof -
  note r = set_all_run [OF assms(1)]
  have st: "page_bps (static_hbreakpoints c') = page_bps (static_hbreakpoints c)"
    "hb_address ` set (concat (static_hbreakpoints c')) = hb_address ` set (concat (static_hbreakpoints c))"
    using r addrs_bps [of "static_hbreakpoints c'" "static_hbreakpoints c"] by auto
  have dy: "page_bps (dynamic_hbreakpoints c') = page_bps (dynamic_hbreakpoints c)"
    "hb_address ` set (concat (dynamic_hbreakpoints c')) = hb_address ` set (concat (dynamic_hbreakpoints c))"
    using r addrs_bps [of "dynamic_hbreakpoints c'" "dynamic_hbreakpoints c"] by auto
  have "bp_addrs c' = bp_addrs c" using st dy by (simp add: bp_addrs_def image_Un)
  moreover from this have "page_guarded c' = page_guarded c" by (intro ext) (simp add: page_guarded_def)
  moreover have "hb_wf c' = hb_wf c"
    using r st dy by (simp add: hb_wf_def same_pages_addrs)
  ultimately show ?thesis using assms(2) r by (simp add: guarded_def)
qed

section \<open>Sequences of operations on a controller\<close>

datatype hb_op = AddBreakpoints unsafe_page bool | SetAllHbreakpoints

primrec hb_op_run :: "env \<Rightarrow> addr \<Rightarrow> hb_op \<Rightarrow> hb_controller \<times> 'z trap_scheme \<Rightarrow> (hb_controller \<times> 'z trap_scheme) res" where
  "hb_op_run E pa (AddBreakpoints page st) cs = add_breakpoints E pa page st cs"
| "hb_op_run E pa SetAllHbreakpoints cs = set_all_hbreakpoits E pa cs"

primrec hb_ops_run :: "env \<Rightarrow> addr \<Rightarrow> hb_op list \<Rightarrow> hb_controller \<times> 'z trap_scheme \<Rightarrow> (hb_controller \<times> 'z trap_scheme) res" where
  "hb_ops_run E pa [] cs = Inr cs"
| "hb_ops_run E pa (op # ops) cs = rbind (hb_op_run E pa op cs) (hb_ops_run E pa ops)"

definition hb_op_ok :: "hb_op \<Rightarrow> bool" where
  "hb_op_ok op = (case op of AddBreakpoints page st \<Rightarrow> on_page page | SetAllHbreakpoints \<Rightarrow> True)"

lemma hb_ops_guarded:
  "hb_ops_run E pa ops (c, s) = Inr (c', s') \<Longrightarrow> list_all hb_op_ok ops \<Longrightarrow> guarded c (unsafe_pages s) \<Longrightarrow>
     guarded c' (unsafe_pages s')"
proof (induction ops arbitrary: c s)
  case (Cons op ops)
  then obtain c1 s1 where o: "hb_op_run E pa op (c, s) = Inr (c1, s1)" "hb_ops_run E pa ops (c1, s1) = Inr (c', s')"
    by (auto simp: res_simps)
  have "guarded c1 (unsafe_pages s1)"
    using o(1) Cons.prems(2,3)
    by (cases op) (auto simp: hb_op_ok_def dest: add_breakpoints_guarded set_all_guarded)
  with Cons.IH [OF o(2)] Cons.prems(2) show ?case by simp
qed simp

section \<open>The fault handlers\<close>

lemma signal_threads_run: "signal_threads E st ts s = Inr s' \<Longrightarrow> \<exists>t. s' = s\<lparr>trace := t\<rparr>"
proof (induction ts arbitrary: s)
  case Nil
  then show ?case by (cases s) auto
next
  case (Cons t ts)
  then show ?case
    by (fastforce simp: nolibc_gettid_def syscall_defs Let_def res_simps split: if_splits)
qed

lemma add_breakpoint_wrapper_run:
  fixes s :: "'z trap_scheme"
  assumes "add_breakpoint_wrapper E A i st s = Inr s'" "current_perm (unsafe_pages s ! i) AND PROT_EXEC = 0"
  obtains s1 :: "'z trap_scheme" and s2 :: "'z trap_scheme" and c where "add_breakpoints E (perf_attr A) (unsafe_pages s ! i) st (hb s, s1) = Inr (c, s2)"
    "unsafe_pages s1 = unsafe_pages s" "hb s' = c" "unsafe_pages s' = unsafe_pages s2"
proof -
  define s0 where "s0 = (snd (nolibc_gettid E (s\<lparr>hbreakpoint_sync_mutex := True\<rparr>)))
    \<lparr>controller_thread := ucast (fst (nolibc_gettid E (s\<lparr>hbreakpoint_sync_mutex := True\<rparr>))), segfault_page := Some i\<rparr>"
  have 0: "unsafe_pages s0 = unsafe_pages s" "hb s0 = hb s"
    by (simp_all add: s0_def nolibc_gettid_def syscall_defs Let_def)
  from assms obtain s1 c s2 s3 s4 where
    1: "signal_threads E st (active_thread_list s0) s0 = Inr s1"
    and 2: "add_breakpoints E (perf_attr A) (unsafe_pages s1 ! i) st (hb s1, s1) = Inr (c, s2)"
    and 3: "wait_followers (s2\<lparr>hb := c, global_hb := c\<rparr>) = Inr s3"
      "wait_followers (s3\<lparr>segfault_page := None, controller_thread := 0\<rparr>) = Inr s4"
    and 4: "s' = s4\<lparr>hbreakpoint_sync_mutex := False\<rparr>"
    unfolding add_breakpoint_wrapper_def s0_def Let_def
    by (auto simp: res_simps case_prod_unfold split: if_splits)
  have u: "unsafe_pages s1 = unsafe_pages s" "hb s1 = hb s"
    using signal_threads_run [OF 1] 0 by auto
  have f: "hb s' = c" "unsafe_pages s' = unsafe_pages s2"
    using 3 4 by (auto simp: wait_followers_def split: if_splits)
  show thesis using that [OF _ u(1) f] 2 u by simp
qed

lemma segfault_mprotect_run:
  assumes "segfault_mprotect E i p cid s = Inr (r, s')"
  shows "r = 0 \<and> hb s' = hb s \<and> unsafe_pages s' = (unsafe_pages s)[i := (unsafe_pages s ! i)\<lparr>current_perm := p\<rparr>]"
proof -
  from assms obtain r1 s1 where m: "secpoline_mprotect E (up_address (unsafe_pages s ! i)) PAGE_SIZE p cid s = Inr (r1, s1)"
    and s': "r = 0" "s' = set_current_perm i p s1" by (auto simp: segfault_mprotect_def res_simps)
  have "vpm.more s1 = vpm.more s" by (rule secpoline_mprotect_more [OF m])
  then have "hb s1 = hb s" "unsafe_pages s1 = unsafe_pages s" by (cases s; cases s1; simp)+
  then show ?thesis by (simp add: s' set_current_perm_def)
qed

lemma segfault_guarded:
  fixes s :: "'z trap_scheme"
  assumes "secpoline_segfault_handler E A code a cid s = Inr (r, s')" "guarded (hb s) (unsafe_pages s)"
    and "\<And>i. find_unsafe_page a s = Some i \<Longrightarrow>
      current_perm (unsafe_pages s ! i) AND PROT_WRITE = 0 \<or> current_perm (unsafe_pages s ! i) AND PROT_EXEC \<noteq> 0"
  shows "guarded (hb s') (unsafe_pages s')"
proof (cases "s' = s")
  case False
  with assms(1) obtain i where i: "find_unsafe_page a s = Some i"
    by (auto simp: secpoline_segfault_handler_def Let_def res_simps split: if_splits option.splits)
  let ?p = "unsafe_pages s ! i"
  have "i < length (unsafe_pages s)" using i find_entry_Some by (auto simp: find_unsafe_page_def)
  then have on: "on_page ?p" using assms(2) by (auto simp: guarded_def list_ok_def list_all_length)
  from assms(1) i obtain g s1 where l: "lookup_addr (up_address ?p) (scast cid) s = Inr (g, s1)"
    using False by (auto simp: secpoline_segfault_handler_def Let_def res_simps split: if_splits)
  have "vpm.more s1 = vpm.more s" by (rule lookup_addr_more [OF l])
  then have m: "hb s1 = hb s" "unsafe_pages s1 = unsafe_pages s" by (cases s; cases s1; simp)+
  consider "s' = s1" | "segfault_mprotect E i (desired_perm ?p AND NOT PROT_EXEC) (scast cid) s1 = Inr (r, s')"
    | s2 where "add_breakpoint_wrapper E A i False s1 = Inr s2" "current_perm ?p AND PROT_EXEC = 0"
      "segfault_mprotect E i (PROT_READ OR PROT_EXEC) (scast cid) s2 = Inr (r, s')"
  proof (cases "s' = s1")
    case False
    show thesis
    proof (cases "current_perm ?p AND PROT_EXEC = 0")
      case True
      then show thesis
        using assms(1) i l assms(3) [OF i] \<open>s' \<noteq> s1\<close> \<open>s' \<noteq> s\<close> that(3)
        by (simp add: secpoline_segfault_handler_def Let_def m nolibc_assert_eq_Inr split: if_splits)
           (auto simp: rbind_eq_Inr)
    next
      case 2: False
      then show thesis
        using assms(1) i l \<open>s' \<noteq> s1\<close> \<open>s' \<noteq> s\<close> that(2)
        by (simp add: secpoline_segfault_handler_def Let_def m nolibc_assert_eq_Inr split: if_splits)
    qed
  qed (rule that(1))
  then show ?thesis
  proof cases
    case 2
    have "(desired_perm ?p AND NOT PROT_EXEC) AND PROT_EXEC = 0" by (simp add: and.assoc)
    then show ?thesis using segfault_mprotect_run [OF 2] guarded_perm [OF assms(2)] by (simp add: m)
  next
    case 3
    have e: "current_perm (unsafe_pages s1 ! i) AND PROT_EXEC = 0" using 3(2) m by simp
    obtain s3 s4 :: "'z trap_scheme" and c where a: "add_breakpoints E (perf_attr A) ?p False (hb s, s3) = Inr (c, s4)"
      "unsafe_pages s3 = unsafe_pages s" "hb s2 = c" "unsafe_pages s2 = unsafe_pages s4"
      by (rule add_breakpoint_wrapper_run [OF 3(1) e, unfolded m])
    have g: "guarded c (unsafe_pages s4) \<and> set (counted ?p) \<subseteq> bp_addrs c \<and> map counted (unsafe_pages s4) = map counted (unsafe_pages s)"
      using add_breakpoints_guarded [OF a(1)] assms(2) on a(2) by simp
    have "length (unsafe_pages s4) = length (unsafe_pages s)" using g map_eq_imp_length_eq by blast
    then have "counted (unsafe_pages s4 ! i) = counted ?p"
      using g \<open>i < length (unsafe_pages s)\<close> by (metis nth_map)
    then show ?thesis using segfault_mprotect_run [OF 3(3)] guarded_perm [of c] g a by simp
  qed (use m assms(2) in simp)
qed (use assms(2) in simp)

text \<open>A fault on a writable page: the rescan has already written the executable permission to the entry when the
  breakpoints would be placed.\<close>

lemma scan_found_exec:
  assumes "erim_memScanRegion E a PAGE_SIZE None des (des AND NOT PROT_WRITE) tr 0 s = Inr (Some j, pv, s')"
    "find_entry a (unsafe_pages s) = Some i" "des AND PROT_EXEC \<noteq> 0"
  shows "current_perm (unsafe_pages s' ! i) AND PROT_EXEC \<noteq> 0"
proof -
  note r = memScan_run [OF assms(1)]
  have "find_entry a (unsafe_pages s') = Some i"
    using r assms(2) by (auto simp: scan_ok_def entries_kept_def)
  then have "current_perm (unsafe_pages s' ! i) = des AND NOT PROT_WRITE"
    using r by (auto simp: find_entry_page_entry entry_of_def)
  moreover have "(des AND NOT PROT_WRITE) AND PROT_EXEC = des AND PROT_EXEC"
    by (simp add: and.assoc)
  ultimately show ?thesis using assms(3) by simp
qed

lemma scan_hb: "erim_memScanRegion E a l wl des p tr 0 s = Inr (j, pv, s') \<Longrightarrow> hb s' = hb s"
proof -
  assume "erim_memScanRegion E a l wl des p tr 0 s = Inr (j, pv, s')"
  from memScan_run [OF this] have "erim.more s' = erim.more s" by (simp add: scan_ok_def)
  then show ?thesis by (cases s; cases s') simp
qed

lemma writable_fault:
  fixes s :: "'z trap_scheme"
  assumes run: "secpoline_segfault_handler E A code a cid s = Inr (0, s')"
    and i: "find_unsafe_page a s = Some i"
    and cur: "current_perm (unsafe_pages s ! i) AND PROT_EXEC = 0" "current_perm (unsafe_pages s ! i) AND PROT_WRITE \<noteq> 0"
  shows "hb s' = hb s \<and> current_perm (unsafe_pages s' ! i) = PROT_READ OR PROT_EXEC"
proof -
  let ?p = "unsafe_pages s ! i"
  from run i obtain g s1 where l: "lookup_addr (up_address ?p) (scast cid) s = Inr (g, s1)"
    by (auto simp: secpoline_segfault_handler_def Let_def res_simps split: if_splits)
  have "vpm.more s1 = vpm.more s" by (rule lookup_addr_more [OF l])
  then have m: "hb s1 = hb s" "unsafe_pages s1 = unsafe_pages s" by (cases s; cases s1; simp)+
  have d: "desired_perm ?p AND PROT_EXEC \<noteq> 0" using run i l cur
    by (simp add: secpoline_segfault_handler_def Let_def m nolibc_assert_eq_Inr split: if_splits)
  from run i l cur d obtain j pv s2 s3 where
    sc: "erim_memScanRegion E (up_address ?p) PAGE_SIZE None (desired_perm ?p) (desired_perm ?p AND NOT PROT_WRITE)
      (trusted_page ?p) 0 s1 = Inr (j, pv, s2)"
    and w: "(if j \<noteq> None then add_breakpoint_wrapper E A i False s2 else Inr s2) = Inr s3"
    and p: "segfault_mprotect E i (PROT_READ OR PROT_EXEC) (scast cid) s3 = Inr (0, s')"
    by (simp add: secpoline_segfault_handler_def Let_def m nolibc_assert_eq_Inr split: if_splits)
       (auto simp: rbind_eq_Inr)
  have fe: "find_entry (up_address ?p) (unsafe_pages s1) = Some i"
    using i find_entry_Some [of "page_of a" "unsafe_pages s" i] by (simp add: find_unsafe_page_def m)
  then have "i < length (unsafe_pages s2)"
    using memScan_run [OF sc] find_entry_Some by (fastforce simp: scan_ok_def entries_kept_def)
  moreover have "s3 = s2"
  proof (cases j)
    case (Some k)
    have "current_perm (unsafe_pages s2 ! i) AND PROT_EXEC \<noteq> 0"
      using scan_found_exec [OF _ fe d] sc Some by simp
    then show ?thesis using w Some by (auto simp: add_breakpoint_wrapper_def split: if_splits)
  qed (use w in simp)
  ultimately show ?thesis
    using segfault_mprotect_run [OF p] scan_hb [OF sc] m by simp
qed

lemma non_executable_leaks:
  assumes "set_page_non_executable E a s = Inr s'" "find_unsafe_page a s = Some i"
    "current_perm (unsafe_pages s ! i) AND PROT_EXEC \<noteq> 0" "desired_perm (unsafe_pages s ! i) AND PROT_WRITE \<noteq> 0"
  shows "unsafe_page_mutex s'"
proof -
  from assms obtain g s1 where l: "lookup_addr a (-1) s = Inr (Some g, s1)"
    by (auto simp: set_page_non_executable_def res_simps split: option.splits)
  have u: "unsafe_pages s1 = unsafe_pages s" by (rule more_unsafe_pages [OF lookup_addr_more [OF l]])
  then obtain r where m: "secpoline_mprotect E (up_address (unsafe_pages s ! i)) PAGE_SIZE (PROT_READ OR PROT_WRITE) (vp_Cid g)
      (set_current_perm i (PROT_READ OR PROT_WRITE) (s1\<lparr>unsafe_page_mutex := True\<rparr>)) = Inr (r, s')"
    using assms l by (auto simp: set_page_non_executable_def find_unsafe_page_def res_simps Let_def split: if_splits)
  from secpoline_mprotect_more [OF m] show ?thesis
    by (cases s'; cases s1) (simp add: set_current_perm_def)
qed

section \<open>Example states\<close>

definition demo_unsafe :: "addr \<Rightarrow> c_int \<Rightarrow> c_int \<Rightarrow> addr list \<Rightarrow> unsafe_page" where
  "demo_unsafe a cur des v = \<lparr>up_address = a, trusted_page = False, current_perm = cur, desired_perm = des,
     unsafe_instructions = Some v, unsafe_instructions_size = length v\<rparr>"

definition demo_bp_env :: env where
  "demo_bp_env = \<lparr>kernel = (\<lambda>t. case t of [] \<Rightarrow> 0 | c # _ \<Rightarrow> if sc_nr c = NR_perf_event_open then 5
       else if sc_nr c = NR_gettid then 7 else 0), memory = (\<lambda>t. demo_mem), page_perm = (\<lambda>t a. 3), page_key = (\<lambda>t a. 2)\<rparr>"

definition demo_trap :: "unsafe_page list \<Rightarrow> trap" where
  "demo_trap us = signals.extend (demo_signals\<lparr>pages := [demo_page 4096 4096 1 1, demo_page 65536 4096 3 0], unsafe_pages := us\<rparr>)
     \<lparr>hb = hb_controller_init, global_hb = hb_controller_init, hb_location = 0, bp_log = [], unsafe_page_mutex = False,
      hbreakpoint_sync_mutex = False, segfault_handler_mutex = False, trap_handler_mutex = False, controller_thread = 0,
      waiting_thread_count = 0, segfault_page = None, active_thread_list = [(7, 7)], sigreturn_stack = []\<rparr>"

definition demo_trap_addrs :: trap_addrs where
  "demo_trap_addrs = \<lparr>perf_attr = 0x100, empty_mask = 0x200, full_mask = 0x300\<rparr>"

lemma demo_trap_fields:
  "trace (demo_trap us) = []" "sud_selector (demo_trap us) = SUD_BLOCK" "unsafe_pages (demo_trap us) = us"
  "pages (demo_trap us) = [demo_page 4096 4096 1 1, demo_page 65536 4096 3 0]" "free_pages (demo_trap us) = 10"
  "pm_lock (demo_trap us) = False" "is_multithreaded (demo_trap us) = False" "erim_scan_mutex (demo_trap us) = False"
  "hb (demo_trap us) = hb_controller_init" "hbreakpoint_sync_mutex (demo_trap us) = False" "controller_thread (demo_trap us) = 0"
  "waiting_thread_count (demo_trap us) = 0" "segfault_page (demo_trap us) = None" "active_thread_list (demo_trap us) = [(7, 7)]"
  "unsafe_page_mutex (demo_trap us) = False"
  by (simp_all add: demo_trap_def signals.defs demo_sig_defs)

text \<open>The kernel of the example.\<close>

lemma demo_kernel: "kernel demo_bp_env (SCall via sel nr a1 a2 a3 a4 a5 a6 # t) =
    (if nr = NR_perf_event_open then 5 else if nr = NR_gettid then 7 else 0)"
  by (simp add: demo_bp_env_def)

section \<open>Properties\<close>


lemma demo_bp_run:
  "\<exists>c s'. hb_ops_run demo_bp_env 0x100 [AddBreakpoints (demo_unsafe 4096 1 5 [4100, 4200, 4300]) False,
      AddBreakpoints (demo_unsafe 8192 1 5 [8200, 8300]) False] (hb_controller_init,
      demo_trap [demo_unsafe 4096 1 5 [4100, 4200, 4300], demo_unsafe 8192 1 5 [8200, 8300]]) = Inr (c, s')"
  by (simp add: add_breakpoints_def hb_controller_init_def add_watched_page_def page_insns_def demo_unsafe_def
      set_hbreakpoint_def syscall_defs Let_def demo_kernel demo_trap_fields remove_dynamic_hbreakpoints_def remove_last_page_def
      set_page_non_executable_def lookup_addr_def locked_def find_unsafe_page_def page_of_minus sud_defs demo_page_def
      virt_page_overlap_byte_def word_sless_alt)


text \<open>
  C4. Faults on unsafe pages. If every executable page has breakpoints on its recorded unsafe instructions
  and the page of the fault is not writable at the moment, then this still holds after the fault handler, in
  particular when it has made the page executable.
\<close>

theorem segfault_keeps_guard:
  assumes "secpoline_segfault_handler E A code a cid s = Inr (r, s')" "guarded (hb s) (unsafe_pages s)"
    "\<forall>i. find_unsafe_page a s = Some i \<longrightarrow>
      current_perm (unsafe_pages s ! i) AND PROT_WRITE = 0 \<or> current_perm (unsafe_pages s ! i) AND PROT_EXEC \<noteq> 0"
  shows "guarded (hb s') (unsafe_pages s')"
  using assms(3) by (intro segfault_guarded [OF assms(1,2)]) blast

lemma demo_fault_run:
  "\<exists>s'. secpoline_segfault_handler demo_bp_env demo_trap_addrs 2 4099 1 (demo_trap [demo_unsafe 4096 1 5 [4100, 4200]]) = Inr (0, s')"
  by (simp add: secpoline_segfault_handler_def find_unsafe_page_def demo_trap_fields demo_unsafe_def page_of_minus lookup_addr_def
      locked_def sud_defs demo_page_def virt_page_overlap_byte_def Let_def add_breakpoint_wrapper_def nolibc_gettid_def syscall_defs
      demo_kernel add_breakpoints_def hb_controller_init_def add_watched_page_def page_insns_def set_hbreakpoint_def
      word_sless_alt wait_followers_def segfault_mprotect_def secpoline_mprotect_def update_mprotect_def
      update_mprotect_locked_def vp_end_def set_current_perm_def demo_trap_addrs_def)

theorem segfault_keeps_guard_witness:
  "\<exists>s'. secpoline_segfault_handler demo_bp_env demo_trap_addrs 2 4099 1 (demo_trap [demo_unsafe 4096 1 5 [4100, 4200]]) = Inr (0, s') \<and>
     guarded (hb s') (unsafe_pages s')"
proof -
  obtain s' where r: "secpoline_segfault_handler demo_bp_env demo_trap_addrs 2 4099 1
      (demo_trap [demo_unsafe 4096 1 5 [4100, 4200]]) = Inr (0, s')" using demo_fault_run by blast
  have "guarded (hb s') (unsafe_pages s')"
    by (rule segfault_keeps_guard [OF r])
       (simp_all add: demo_trap_fields guarded_def hb_wf_def hb_controller_init_def list_ok_def on_page_def counted_def
         demo_unsafe_def page_of_minus page_guarded_def find_unsafe_page_def)
  with r show ?thesis by blast
qed

text \<open>
  A fault on a writable page never places a breakpoint. When the handler makes a writable page executable
  it has scanned it, but the scan itself has recorded the page as executable, so the function that
  places the breakpoints returns at once: the controller is unchanged, whatever the scan found.
\<close>

theorem writable_fault_unguarded:
  assumes "secpoline_segfault_handler E A code a cid s = Inr (0, s')" "find_unsafe_page a s = Some i"
    "current_perm (unsafe_pages s ! i) AND PROT_EXEC = 0" "current_perm (unsafe_pages s ! i) AND PROT_WRITE \<noteq> 0"
  shows "hb s' = hb s \<and> current_perm (unsafe_pages s' ! i) = PROT_READ OR PROT_EXEC"
  using assms by (rule writable_fault)

lemma demo_scan_hit: "scan_region demo_mem None 4096 4096 \<noteq> []"
proof -
  have "spaced demo_mem 4096 4096" unfolding spaced_def demo_mem_insn using of_nat_5000 by auto
  then have "4096 + of_nat 904 \<in> set (scan_region demo_mem None 4096 4096)"
    by (rule scan_region_complete [where ty = TYPE_WRPKRU]) (simp_all add: demo_mem_at unsafe_insn_def isBenignWRPKRU_def demo_mem_def)
  then show ?thesis by auto
qed

lemma demo_mem_bp: "mem_at demo_bp_env s = demo_mem"
  by (rule ext) (simp add: mem_at_def demo_bp_env_def)

lemma demo_write_fault:
  "\<exists>s'. secpoline_segfault_handler demo_bp_env demo_trap_addrs 2 4099 1 (demo_trap [demo_unsafe 4096 3 7 []]) = Inr (0, s') \<and>
     unsafe_instructions (unsafe_pages s' ! 0) = Some (scan_region demo_mem None 4096 4096)"
  using demo_scan_hit
  by (simp add: secpoline_segfault_handler_def find_unsafe_page_def demo_trap_fields demo_unsafe_def page_of_minus lookup_addr_def
      locked_def sud_defs demo_page_def virt_page_overlap_byte_def Let_def add_breakpoint_wrapper_def erim_memScanRegion_def
      scan_prev_page_def scan_next_page_def scan_result_def demo_mem_bp add_unsafe_page_def update_unsafe_page_def
      segfault_mprotect_def secpoline_mprotect_def update_mprotect_def syscall_defs demo_kernel
      update_mprotect_locked_def vp_end_def set_current_perm_def demo_trap_addrs_def)

theorem writable_fault_unguarded_witness:
  "\<exists>s'. secpoline_segfault_handler demo_bp_env demo_trap_addrs 2 4099 1 (demo_trap [demo_unsafe 4096 3 7 []]) = Inr (0, s') \<and>
     hb s' = hb_controller_init \<and> current_perm (unsafe_pages s' ! 0) = 5 \<and> unsafe_instructions (unsafe_pages s' ! 0) \<noteq> Some []"
proof -
  obtain s' where r: "secpoline_segfault_handler demo_bp_env demo_trap_addrs 2 4099 1 (demo_trap [demo_unsafe 4096 3 7 []]) = Inr (0, s')"
    "unsafe_instructions (unsafe_pages s' ! 0) = Some (scan_region demo_mem None 4096 4096)"
    using demo_write_fault by blast
  have "find_unsafe_page 4099 (demo_trap [demo_unsafe 4096 3 7 []]) = Some 0"
    by (simp add: find_unsafe_page_def demo_trap_fields demo_unsafe_def page_of_minus)
  from writable_fault_unguarded [OF r(1) this] r demo_scan_hit show ?thesis
    by (simp add: demo_trap_fields demo_unsafe_def)
qed

text \<open>
  Breakpoint traps. The trap handler lets the interrupted code go on only behind an \<open>XRSTOR\<close> whose
  feature mask leaves the key register alone; at every other unsafe instruction the process ends.
\<close>

theorem sigtrap_only_xrstor:
  assumes "secpoline_sigtrap_handler E code rip rax s = Inr (r, rip', s')"
  shows "r = 0 \<and> erim_isXRSTOR (mem_at E s) rip \<and> \<not> bit rax 9 \<and> rip' = rip + 3 \<and> pkru s' = GRANT_TRUSTED_PERMISSIONS \<and>
    trace s' = trace s \<and> unsafe_pages s' = unsafe_pages s"
proof -
  have "rax AND 0x200 = 0 \<longleftrightarrow> \<not> bit rax 9"
    using and_exp_eq_0_iff_not_bit [of rax 9] by simp
  moreover have "mem_at E (s\<lparr>pkru := x\<rparr>) = mem_at E s" for x by (rule mem_at_cong) simp
  ultimately show ?thesis using assms
    by (auto simp: secpoline_sigtrap_handler_def internal_wrpkru_eq_Inr res_simps split: if_splits)
qed

definition demo_xrstor_env :: env where
  "demo_xrstor_env = \<lparr>kernel = (\<lambda>t. 0), memory = (\<lambda>t a. if a = 0x5000 then 0x0f else if a = 0x5001 then 0xae else 0x28),
     page_perm = (\<lambda>t a. 3), page_key = (\<lambda>t a. 2)\<rparr>"

theorem sigtrap_only_xrstor_witness:
  "\<exists>s'. secpoline_sigtrap_handler demo_xrstor_env TRAP_PERF 0x5000 0x407 (demo_trap []) = Inr (0, 0x5003, s') \<and>
     erim_isXRSTOR (mem_at demo_xrstor_env (demo_trap [])) 0x5000"
proof -
  obtain s' where r: "secpoline_sigtrap_handler demo_xrstor_env TRAP_PERF 0x5000 0x407 (demo_trap []) = Inr (0, 0x5003, s')"
    by (simp add: secpoline_sigtrap_handler_def internal_wrpkru_def erim_isXRSTOR_def mem_at_def demo_xrstor_env_def
        demo_trap_def signals.defs demo_sig_defs)
  with sigtrap_only_xrstor [OF r] show ?thesis by blast
qed

text \<open>
  Evicting a page that is also wanted writable leaves the mutex of the unsafe pages locked, so the next eviction of
  an executable page can not return.
\<close>

theorem evict_writable_deadlocks:
  assumes "set_page_non_executable E a s = Inr s'" "find_unsafe_page a s = Some i"
    "current_perm (unsafe_pages s ! i) AND PROT_EXEC \<noteq> 0" "desired_perm (unsafe_pages s ! i) AND PROT_WRITE \<noteq> 0"
    "find_unsafe_page b s' = Some j" "current_perm (unsafe_pages s' ! j) AND PROT_EXEC \<noteq> 0"
  shows "\<exists>c. set_page_non_executable E b s' = Inl c"
proof (cases "set_page_non_executable E b s'")
  case (Inr s2)
  have "unsafe_page_mutex s'" by (rule non_executable_leaks [OF assms(1-4)])
  from Inr obtain g s1 where l: "lookup_addr b (-1) s' = Inr (Some g, s1)"
    by (auto simp: set_page_non_executable_def res_simps split: option.splits)
  have "vpm.more s1 = vpm.more s'" by (rule lookup_addr_more [OF l])
  then have "unsafe_page_mutex s1 = unsafe_page_mutex s'" "unsafe_pages s1 = unsafe_pages s'"
    by (cases s'; cases s1; simp)+
  with Inr l assms(5,6) \<open>unsafe_page_mutex s'\<close> show ?thesis
    by (auto simp: set_page_non_executable_def find_unsafe_page_def res_simps Let_def)
qed blast

theorem evict_writable_deadlocks_witness:
  "\<exists>s' c. set_page_non_executable demo_bp_env 4100 (demo_trap [demo_unsafe 4096 5 7 [4100], demo_unsafe 65536 5 5 [65540]]) = Inr s' \<and>
     set_page_non_executable demo_bp_env 65540 s' = Inl c"
proof -
  let ?s = "demo_trap [demo_unsafe 4096 5 7 [4100], demo_unsafe 65536 5 5 [65540]]"
  obtain s' where r: "set_page_non_executable demo_bp_env 4100 ?s = Inr s'"
    and u: "unsafe_pages s' = [demo_unsafe 4096 3 7 [4100], demo_unsafe 65536 5 5 [65540]]"
    by (simp add: set_page_non_executable_def lookup_addr_def locked_def sud_defs demo_trap_fields demo_page_def
        virt_page_overlap_byte_def find_unsafe_page_def demo_unsafe_def page_of_minus set_current_perm_def secpoline_mprotect_def
        update_mprotect_def syscall_defs demo_kernel update_mprotect_locked_def vp_end_def Let_def)
  have "\<exists>c. set_page_non_executable demo_bp_env 65540 s' = Inl c"
    by (rule evict_writable_deadlocks [OF r, of 0 _ 1])
       (simp_all add: u find_unsafe_page_def demo_trap_fields demo_unsafe_def page_of_minus)
  with r show ?thesis by blast
qed

end
