(* ===== verification/ThreadSync.thy ===== *)
theory ThreadSync
  imports Breakpoints
begin

text \<open>
  The protocol with which all threads place the breakpoints of a page together,
  \<open>add_breakpoint_wrapper\<close> and \<open>other_thread_add_breakpoint_wrapper\<close> of
  \<open>src/src/segfault_handler/segfault_handler.cpp\<close>, as steps of concurrent threads on the shared variables of
  \<open>hbreakpoint_thread_synchronizer\<close>.

  One controller and the other threads of the active list take part. A step is one access to a shared
  variable, or one section under the counter's mutex; a spinning loop is a step that is
  possible only when its condition ends it. A failed assertion is a program counter of its own, and so is a
  follower that comes when no controller is active (the signal is then dropped).
\<close>

section \<open>Threads and shared variables\<close>

datatype ctl_pc =
    CtlStart      \<comment> \<open>before the assertions, lines 387-391\<close>
  | CtlPlace      \<comment> \<open>signals sent, placing its own breakpoints, lines 394-415\<close>
  | CtlWait1      \<comment> \<open>line 418\<close>
  | CtlClear      \<comment> \<open>line 420\<close>
  | CtlCount2     \<comment> \<open>lines 422-424\<close>
  | CtlRelease    \<comment> \<open>line 425\<close>
  | CtlWait2      \<comment> \<open>line 426\<close>
  | CtlDone
  | CtlFailed

datatype fol_pc =
    FolStart      \<comment> \<open>before the handler looks at \<open>controller_thread\<close>\<close>
  | FolWait1      \<comment> \<open>line 354\<close>
  | FolPage       \<comment> \<open>line 356\<close>
  | FolPlace      \<comment> \<open>lines 359-364\<close>
  | FolWait2      \<comment> \<open>line 366\<close>
  | FolLeave      \<comment> \<open>lines 367-371\<close>
  | FolDone
  | FolDropped
  | FolFailed

record sync =
  ctl :: ctl_pc
  fols :: "fol_pc list"
  sync_controller :: bool
  sync_count :: nat
  sync_page :: bool
  placed :: "bool list"

text \<open>The steps; \<open>None\<close> when the thread has to wait or is at its end. The counter is set to
  \<open>active_thread_list_size - 1\<close>, the number of followers.\<close>

definition ctl_step :: "sync \<Rightarrow> sync option" where
  "ctl_step s = (case ctl s of
     CtlStart \<Rightarrow> Some (if \<not> sync_controller s \<and> sync_count s = 0 \<and> \<not> sync_page s
                  then s\<lparr>sync_controller := True, sync_page := True, ctl := CtlPlace\<rparr> else s\<lparr>ctl := CtlFailed\<rparr>)
   | CtlPlace \<Rightarrow> Some (s\<lparr>sync_count := length (fols s), ctl := CtlWait1\<rparr>)
   | CtlWait1 \<Rightarrow> if sync_count s = 0 then Some (s\<lparr>ctl := CtlClear\<rparr>) else None
   | CtlClear \<Rightarrow> Some (s\<lparr>sync_page := False, ctl := CtlCount2\<rparr>)
   | CtlCount2 \<Rightarrow> Some (s\<lparr>sync_count := length (fols s), ctl := CtlRelease\<rparr>)
   | CtlRelease \<Rightarrow> Some (s\<lparr>sync_controller := False, ctl := CtlWait2\<rparr>)
   | CtlWait2 \<Rightarrow> if sync_count s = 0 then Some (s\<lparr>ctl := CtlDone\<rparr>) else None
   | CtlDone \<Rightarrow> None
   | CtlFailed \<Rightarrow> None)"

definition fol_goto :: "nat \<Rightarrow> fol_pc \<Rightarrow> sync \<Rightarrow> sync" where
  "fol_goto i pc s = s\<lparr>fols := (fols s)[i := pc]\<rparr>"

definition fol_count_down :: "nat \<Rightarrow> fol_pc \<Rightarrow> sync \<Rightarrow> sync" where
  "fol_count_down i pc s =
     (if sync_count s > 0 then fol_goto i pc (s\<lparr>sync_count := sync_count s - 1\<rparr>) else fol_goto i FolFailed s)"

definition fol_step :: "nat \<Rightarrow> sync \<Rightarrow> sync option" where
  "fol_step i s = (case fols s ! i of
     FolStart \<Rightarrow> if ctl s = CtlStart then None
                 else Some (fol_goto i (if sync_controller s then FolWait1 else FolDropped) s)
   | FolWait1 \<Rightarrow> if sync_count s \<noteq> 0 then Some (fol_goto i FolPage s) else None
   | FolPage \<Rightarrow> Some (fol_goto i (if sync_page s then FolPlace else FolFailed) s)
   | FolPlace \<Rightarrow> Some (fol_count_down i FolWait2 (s\<lparr>placed := (placed s)[i := True]\<rparr>))
   | FolWait2 \<Rightarrow> if \<not> sync_controller s then Some (fol_goto i FolLeave s) else None
   | FolLeave \<Rightarrow> Some (fol_count_down i FolDone s)
   | FolDone \<Rightarrow> None
   | FolDropped \<Rightarrow> None
   | FolFailed \<Rightarrow> None)"

inductive sync_step :: "sync \<Rightarrow> sync \<Rightarrow> bool" where
  controller: "ctl_step s = Some s' \<Longrightarrow> sync_step s s'"
| follower: "i < length (fols s) \<Longrightarrow> fol_step i s = Some s' \<Longrightarrow> sync_step s s'"

inductive_cases sync_stepE: "sync_step s s'"

text \<open>At the start all variables are clear and \<open>n\<close> other threads are active.\<close>

definition sync_init :: "nat \<Rightarrow> sync" where
  "sync_init n = \<lparr>ctl = CtlStart, fols = replicate n FolStart, sync_controller = False, sync_count = 0,
     sync_page = False, placed = replicate n False\<rparr>"

section \<open>Protocols that come to an end\<close>

text \<open>A protocol whose steps keep an invariant, lower a rank and are possible until the protocol is at its end.\<close>

locale terminating_protocol =
  fixes step :: "'s \<Rightarrow> 's \<Rightarrow> bool"
    and inv :: "'s \<Rightarrow> bool"
    and final :: "'s \<Rightarrow> bool"
    and rank :: "'s \<Rightarrow> nat"
  assumes inv_step: "inv s \<Longrightarrow> step s s' \<Longrightarrow> inv s'"
    and rank_step: "inv s \<Longrightarrow> step s s' \<Longrightarrow> rank s' < rank s"
    and progress: "inv s \<Longrightarrow> \<not> final s \<Longrightarrow> \<exists>s'. step s s'"
begin

lemma inv_run: "step\<^sup>*\<^sup>* s s' \<Longrightarrow> inv s \<Longrightarrow> inv s'"
  by (induction rule: rtranclp_induct) (auto intro: inv_step)

lemma run_length: "(step ^^ n) s s' \<Longrightarrow> inv s \<Longrightarrow> n + rank s' \<le> rank s"
proof (induction n arbitrary: s')
  case (Suc n)
  then obtain t where t: "(step ^^ n) s t" "step t s'" by auto
  have "inv t" using inv_run [OF relpowp_imp_rtranclp [OF t(1)] Suc.prems(2)] .
  from rank_step [OF this t(2)] Suc.IH [OF t(1) Suc.prems(2)] show ?case by simp
qed simp

lemma stuck_final: "step\<^sup>*\<^sup>* s s' \<Longrightarrow> inv s \<Longrightarrow> (\<nexists>t. step s' t) \<Longrightarrow> final s'"
  using inv_run progress by blast

lemma completes: "inv s \<Longrightarrow> \<exists>s'. step\<^sup>*\<^sup>* s s' \<and> final s'"
proof (induction "rank s" arbitrary: s rule: less_induct)
  case less
  show ?case
  proof (cases "final s")
    case False
    then obtain t where t: "step s t" using progress less.prems by blast
    with less rank_step inv_step obtain s' where "step\<^sup>*\<^sup>* t s'" "final s'" by blast
    with t show ?thesis by (meson converse_rtranclp_into_rtranclp)
  qed blast
qed

end

section \<open>The invariant of the protocol\<close>

definition not_at :: "fol_pc set \<Rightarrow> sync \<Rightarrow> nat" where
  "not_at A s = length (filter (\<lambda>p. p \<notin> A) (fols s))"

definition sync_vars :: "sync \<Rightarrow> bool \<Rightarrow> bool \<Rightarrow> nat \<Rightarrow> fol_pc set \<Rightarrow> bool" where
  "sync_vars s c p n A \<longleftrightarrow> sync_controller s = c \<and> sync_page s = p \<and> sync_count s = n \<and> set (fols s) \<subseteq> A"

definition sync_phase :: "sync \<Rightarrow> bool" where
  "sync_phase s = (case ctl s of
        CtlStart \<Rightarrow> sync_vars s False False 0 {FolStart}
      | CtlPlace \<Rightarrow> sync_vars s True True 0 {FolStart, FolWait1}
      | CtlWait1 \<Rightarrow> sync_vars s True True (not_at {FolWait2} s) {FolStart, FolWait1, FolPage, FolPlace, FolWait2}
      | CtlClear \<Rightarrow> sync_vars s True True 0 {FolWait2}
      | CtlCount2 \<Rightarrow> sync_vars s True False 0 {FolWait2}
      | CtlRelease \<Rightarrow> sync_vars s True False (length (fols s)) {FolWait2}
      | CtlWait2 \<Rightarrow> sync_vars s False False (not_at {FolDone} s) {FolWait2, FolLeave, FolDone}
      | CtlDone \<Rightarrow> sync_vars s False False 0 {FolDone}
      | CtlFailed \<Rightarrow> False)"

definition sync_inv :: "sync \<Rightarrow> bool" where
  "sync_inv s \<longleftrightarrow> sync_phase s \<and> length (placed s) = length (fols s) \<and>
     (\<forall>i<length (fols s). fols s ! i \<in> {FolWait2, FolLeave, FolDone} \<longrightarrow> placed s ! i)"

definition sync_final :: "sync \<Rightarrow> bool" where
  "sync_final s \<longleftrightarrow> ctl s = CtlDone \<and> set (fols s) \<subseteq> {FolDone}"

fun ctl_rank :: "ctl_pc \<Rightarrow> nat" where
  "ctl_rank CtlStart = 8" | "ctl_rank CtlPlace = 7" | "ctl_rank CtlWait1 = 6" | "ctl_rank CtlClear = 5"
| "ctl_rank CtlCount2 = 4" | "ctl_rank CtlRelease = 3" | "ctl_rank CtlWait2 = 2" | "ctl_rank CtlDone = 1" | "ctl_rank CtlFailed = 0"

fun fol_rank :: "fol_pc \<Rightarrow> nat" where
  "fol_rank FolStart = 6" | "fol_rank FolWait1 = 5" | "fol_rank FolPage = 4" | "fol_rank FolPlace = 3"
| "fol_rank FolWait2 = 2" | "fol_rank FolLeave = 1" | "fol_rank FolDone = 0" | "fol_rank FolDropped = 0" | "fol_rank FolFailed = 0"

definition sync_rank :: "sync \<Rightarrow> nat" where
  "sync_rank s = ctl_rank (ctl s) + sum_list (map fol_rank (fols s))"

section \<open>Steps keep the invariant\<close>

lemma not_at_0: "not_at A s = 0 \<longleftrightarrow> set (fols s) \<subseteq> A"
  by (auto simp: not_at_def filter_empty_conv)

lemma not_at_all: "set (fols s) \<inter> A = {} \<Longrightarrow> not_at A s = length (fols s)"
  by (auto simp: not_at_def intro!: arg_cong [where f = length] filter_True)

lemma filter_update:
  "i < length ps \<Longrightarrow>
     length (filter P (ps[i := p])) + (if P (ps ! i) then 1 else 0) = length (filter P ps) + (if P p then 1 else 0)"
proof (induction ps arbitrary: i)
  case (Cons q ps)
  show ?case
  proof (cases i)
    case (Suc j)
    then show ?thesis using Cons.IH [of j] Cons.prems by simp
  qed simp
qed simp

text \<open>A follower that goes on: the count of those that are not yet in \<open>A\<close>.\<close>

lemma not_at_goto:
  assumes "i < length (fols s)"
  shows "not_at A (fol_goto i p s) + (if fols s ! i \<notin> A then 1 else 0) = not_at A s + (if p \<notin> A then 1 else 0)"
  using filter_update [OF assms, of "\<lambda>p. p \<notin> A" p] by (simp add: not_at_def fol_goto_def)

lemma not_at_goto_same: "i < length (fols s) \<Longrightarrow> fols s ! i \<notin> A \<Longrightarrow> p \<notin> A \<Longrightarrow> not_at A (fol_goto i p s) = not_at A s"
  using not_at_goto [of i s A p] by simp

lemma not_at_goto_in: "i < length (fols s) \<Longrightarrow> fols s ! i \<notin> A \<Longrightarrow> p \<in> A \<Longrightarrow> not_at A (fol_goto i p s) = not_at A s - 1"
  using not_at_goto [of i s A p] by simp

lemma not_at_pos: "i < length (fols s) \<Longrightarrow> fols s ! i \<notin> A \<Longrightarrow> 0 < not_at A s"
  using not_at_0 [of A s] nth_mem by (fastforce simp: subset_iff)

lemma not_at_vars [simp]: "not_at A (s\<lparr>sync_count := n\<rparr>) = not_at A s" "not_at A (s\<lparr>placed := q\<rparr>) = not_at A s"
  "not_at A (s\<lparr>ctl := c\<rparr>) = not_at A s" "not_at A (s\<lparr>sync_controller := b\<rparr>) = not_at A s"
  "not_at A (s\<lparr>sync_page := b\<rparr>) = not_at A s"
  by (simp_all add: not_at_def)

lemma goto_fields [simp]: "ctl (fol_goto i p s) = ctl s" "sync_controller (fol_goto i p s) = sync_controller s"
  "sync_count (fol_goto i p s) = sync_count s" "sync_page (fol_goto i p s) = sync_page s" "placed (fol_goto i p s) = placed s"
  "length (fols (fol_goto i p s)) = length (fols s)" "fols (fol_goto i p s) = (fols s)[i := p]"
  by (simp_all add: fol_goto_def)

lemma ctl_step_phase: "sync_phase s \<Longrightarrow> ctl_step s = Some s' \<Longrightarrow> sync_phase s'"
proof (cases "ctl s")
  case CtlPlace
  assume "sync_phase s" "ctl_step s = Some s'"
  with CtlPlace have "set (fols s) \<subseteq> {FolStart, FolWait1}" "s' = s\<lparr>sync_count := length (fols s), ctl := CtlWait1\<rparr>"
    "sync_controller s" "sync_page s" by (auto simp: sync_phase_def sync_vars_def ctl_step_def)
  moreover from this have "not_at {FolWait2} s = length (fols s)" by (intro not_at_all) auto
  ultimately show ?thesis by (auto simp: sync_phase_def sync_vars_def)
next
  case CtlRelease
  assume "sync_phase s" "ctl_step s = Some s'"
  with CtlRelease have "set (fols s) \<subseteq> {FolWait2}" "s' = s\<lparr>sync_controller := False, ctl := CtlWait2\<rparr>"
    "\<not> sync_page s" "sync_count s = length (fols s)" by (auto simp: sync_phase_def sync_vars_def ctl_step_def)
  moreover from this have "not_at {FolDone} s = length (fols s)" by (intro not_at_all) auto
  ultimately show ?thesis by (auto simp: sync_phase_def sync_vars_def)
qed (auto simp: sync_phase_def sync_vars_def ctl_step_def not_at_0 split: if_splits)

lemma goto_set: "set (fols s) \<subseteq> A \<Longrightarrow> p \<in> A \<Longrightarrow> set ((fols s)[i := p]) \<subseteq> A"
  by (rule set_update_subsetI)

lemma fol_blocked:
  assumes "sync_phase s" "i < length (fols s)" "ctl s \<notin> {CtlPlace, CtlWait1, CtlWait2}"
  shows "fol_step i s = None"
proof -
  have "set (fols s) \<subseteq> {FolStart} \<and> ctl s = CtlStart \<or> set (fols s) \<subseteq> {FolWait2} \<and> sync_controller s \<or> set (fols s) \<subseteq> {FolDone}"
    using assms(1,3) by (cases "ctl s") (auto simp: sync_phase_def sync_vars_def)
  then have "fols s ! i = FolStart \<and> ctl s = CtlStart \<or> fols s ! i = FolWait2 \<and> sync_controller s \<or> fols s ! i = FolDone"
    using nth_mem [OF assms(2)] by blast
  then show ?thesis by (auto simp: fol_step_def)
qed

lemma fol_step_phase:
  assumes "sync_phase s" "i < length (fols s)" "fol_step i s = Some s'"
  shows "sync_phase s'"
proof -
  note mem = nth_mem [OF assms(2)]
  show ?thesis
  proof (cases "ctl s")
    case CtlPlace
    then have "fols s ! i \<in> {FolStart, FolWait1}" using assms(1) mem by (auto simp: sync_phase_def sync_vars_def)
    then show ?thesis using CtlPlace assms
      by (auto simp: sync_phase_def sync_vars_def fol_step_def goto_set split: if_splits)
  next
    case CtlWait1
    then have "fols s ! i \<in> {FolStart, FolWait1, FolPage, FolPlace, FolWait2}"
      using assms(1) mem by (auto simp: sync_phase_def sync_vars_def)
    then show ?thesis using CtlWait1 assms not_at_pos [OF assms(2), of "{FolWait2}"]
      by (auto simp: sync_phase_def sync_vars_def fol_step_def fol_count_down_def goto_set not_at_goto_same not_at_goto_in split: if_splits)
  next
    case CtlWait2
    then have "fols s ! i \<in> {FolWait2, FolLeave, FolDone}"
      using assms(1) mem by (auto simp: sync_phase_def sync_vars_def)
    then show ?thesis using CtlWait2 assms not_at_pos [OF assms(2), of "{FolDone}"]
      by (auto simp: sync_phase_def sync_vars_def fol_step_def fol_count_down_def goto_set not_at_goto_same not_at_goto_in split: if_splits)
  qed (use fol_blocked [OF assms(1,2)] assms(3) in simp_all)
qed

lemma fol_step_placed:
  assumes "sync_inv s" "i < length (fols s)" "fol_step i s = Some s'"
  shows "length (placed s') = length (fols s') \<and>
    (\<forall>j<length (fols s'). fols s' ! j \<in> {FolWait2, FolLeave, FolDone} \<longrightarrow> placed s' ! j)"
  using assms
  by (cases "fols s ! i") (auto simp: sync_inv_def fol_step_def fol_count_down_def nth_list_update split: if_splits)

lemma ctl_step_fols: "ctl_step s = Some s' \<Longrightarrow> fols s' = fols s \<and> placed s' = placed s"
  by (auto simp: ctl_step_def split: ctl_pc.splits if_splits)

lemma sync_inv_step: "sync_inv s \<Longrightarrow> sync_step s s' \<Longrightarrow> sync_inv s'"
proof (erule sync_stepE)
  assume s: "sync_inv s" "ctl_step s = Some s'"
  then show "sync_inv s'" using ctl_step_phase [of s s'] ctl_step_fols [OF s(2)] by (simp add: sync_inv_def)
next
  fix i assume s: "sync_inv s" "i < length (fols s)" "fol_step i s = Some s'"
  have "sync_phase s'" using s(1) by (intro fol_step_phase [OF _ s(2,3)]) (simp add: sync_inv_def)
  with fol_step_placed [OF s] show "sync_inv s'" unfolding sync_inv_def by blast
qed

lemma sum_list_update_less:
  "i < length ps \<Longrightarrow> f p < (f (ps ! i) :: nat) \<Longrightarrow> sum_list (map f (ps[i := p])) < sum_list (map f ps)"
proof (induction ps arbitrary: i)
  case (Cons q ps)
  then show ?case by (cases i) auto
qed simp

lemma fol_step_goto: "fol_step i s = Some s' \<Longrightarrow> \<exists>p. fols s' = (fols s)[i := p] \<and> fol_rank p < fol_rank (fols s ! i) \<and> ctl s' = ctl s"
  by (auto simp: fol_step_def fol_count_down_def split: fol_pc.splits if_splits)

lemma sync_rank_step: "sync_step s s' \<Longrightarrow> sync_rank s' < sync_rank s"
proof (erule sync_stepE)
  assume "ctl_step s = Some s'"
  then show ?thesis by (auto simp: sync_rank_def ctl_step_def split: ctl_pc.splits if_splits)
next
  fix i assume i: "i < length (fols s)" "fol_step i s = Some s'"
  from fol_step_goto [OF i(2)] sum_list_update_less [OF i(1)] show ?thesis by (auto simp: sync_rank_def)
qed

text \<open>As long as the protocol is not at its end, some thread can go on.\<close>

lemma sync_progress:
  assumes "sync_inv s" "\<not> sync_final s"
  shows "\<exists>s'. sync_step s s'"
proof (cases "ctl_step s")
  case (Some s')
  then show ?thesis by (blast intro: controller)
next
  case None
  then consider "ctl s = CtlWait1" "sync_count s \<noteq> 0" | "ctl s = CtlWait2" "sync_count s \<noteq> 0" | "ctl s \<in> {CtlDone, CtlFailed}"
    by (auto simp: ctl_step_def split: ctl_pc.splits if_splits)
  then show ?thesis
  proof cases
    case 1
    then obtain p where "p \<in> set (fols s)" "p \<noteq> FolWait2" using assms(1) not_at_0 [of "{FolWait2}" s]
      by (auto simp: sync_inv_def sync_phase_def sync_vars_def)
    then obtain i where i: "i < length (fols s)" "fols s ! i \<noteq> FolWait2" by (auto simp: in_set_conv_nth)
    have "set (fols s) \<subseteq> {FolStart, FolWait1, FolPage, FolPlace, FolWait2}"
      using assms(1) 1(1) by (simp add: sync_inv_def sync_phase_def sync_vars_def)
    with i nth_mem [OF i(1)] have "fols s ! i \<in> {FolStart, FolWait1, FolPage, FolPlace}" by blast
    then have "fol_step i s \<noteq> None" using 1 by (auto simp: fol_step_def)
    then show ?thesis using follower [OF i(1)] by blast
  next
    case 2
    then obtain p where "p \<in> set (fols s)" "p \<noteq> FolDone" using assms(1) not_at_0 [of "{FolDone}" s]
      by (auto simp: sync_inv_def sync_phase_def sync_vars_def)
    then obtain i where i: "i < length (fols s)" "fols s ! i \<noteq> FolDone" by (auto simp: in_set_conv_nth)
    have "set (fols s) \<subseteq> {FolWait2, FolLeave, FolDone}" "\<not> sync_controller s"
      using assms(1) 2(1) by (simp_all add: sync_inv_def sync_phase_def sync_vars_def)
    with i nth_mem [OF i(1)] have "fols s ! i \<in> {FolWait2, FolLeave}" "\<not> sync_controller s" by blast+
    then have "fol_step i s \<noteq> None" by (auto simp: fol_step_def)
    then show ?thesis using follower [OF i(1)] by blast
  qed (use assms in \<open>auto simp: sync_inv_def sync_phase_def sync_vars_def sync_final_def\<close>)
qed

interpretation tsync: terminating_protocol sync_step sync_inv sync_final sync_rank
  by unfold_locales (blast intro: sync_inv_step sync_rank_step sync_progress)+

lemma sync_init_inv: "sync_inv (sync_init n)"
  by (auto simp: sync_inv_def sync_phase_def sync_init_def sync_vars_def)

lemma sync_init_rank: "sync_rank (sync_init n) = 8 + 6 * n"
  by (simp add: sync_rank_def sync_init_def map_replicate sum_list_replicate)

text \<open>A schedule names the thread of every step, \<open>None\<close> for the controller.\<close>

primrec run_schedule :: "nat option list \<Rightarrow> sync \<Rightarrow> sync option" where
  "run_schedule [] s = Some s"
| "run_schedule (a # as) s =
     (case (case a of None \<Rightarrow> ctl_step s | Some i \<Rightarrow> if i < length (fols s) then fol_step i s else None) of
        None \<Rightarrow> None | Some s' \<Rightarrow> run_schedule as s')"

lemma run_schedule_steps: "run_schedule as s = Some s' \<Longrightarrow> (sync_step ^^ length as) s s'"
proof (induction as arbitrary: s)
  case (Cons a as)
  then obtain t where "run_schedule as t = Some s'" "sync_step s t"
    by (auto split: option.splits if_splits intro: controller follower)
  then show ?case using relpowp_Suc_I2 [of sync_step s t "length as" s'] Cons.IH by (simp del: relpowp.simps)
qed simp

definition demo_schedule :: "nat option list" where
  "demo_schedule = [None, None, Some 0, Some 0, Some 0, Some 0, None, None, None, None, Some 0, Some 0, None]"

lemmas sync_step_defs = sync_init_def ctl_step_def fol_step_def fol_goto_def fol_count_down_def demo_schedule_def

section \<open>Properties\<close>

text \<open>
  C14. The protocol of the breakpoints is safe. In every state that a controller and any number of followers can
  reach, no assertion has failed and no follower has dropped its signal, a follower that has
  reported has placed its breakpoints, and when the controller has seen the counter at zero all of them have.
\<close>

theorem sync_safe:
  assumes "sync_step\<^sup>*\<^sup>* (sync_init n) s"
  shows "ctl s \<noteq> CtlFailed \<and> FolFailed \<notin> set (fols s) \<and> FolDropped \<notin> set (fols s) \<and>
    (ctl s \<in> {CtlClear, CtlCount2, CtlRelease, CtlWait2, CtlDone} \<longrightarrow> list_all id (placed s))"
proof -
  have i: "sync_inv s" by (rule tsync.inv_run [OF assms sync_init_inv])
  have p: "list_all id (placed s)" if "set (fols s) \<subseteq> {FolWait2, FolLeave, FolDone}"
    using i that nth_mem by (fastforce simp: sync_inv_def list_all_length)
  show ?thesis
    using i p by (cases "ctl s") (auto simp: sync_inv_def sync_phase_def sync_vars_def)
qed

theorem sync_safe_witness:
  "\<exists>s. run_schedule (take 7 demo_schedule) (sync_init 1) = Some s \<and> ctl s = CtlClear \<and> list_all id (placed s)"
proof -
  obtain s where r: "run_schedule (take 7 demo_schedule) (sync_init 1) = Some s" and c: "ctl s = CtlClear"
    by (simp add: sync_step_defs)
  have "sync_step\<^sup>*\<^sup>* (sync_init 1) s" by (rule relpowp_imp_rtranclp [OF run_schedule_steps [OF r]])
  from sync_safe [OF this] r c show ?thesis by simp
qed

text \<open>
  C15. The protocol always comes to an end. With \<open>n\<close> followers every run has at most \<open>8 + 6 * n\<close> steps, and a run that can
  not go on has ended: the controller has returned with the variables clear for the next controller, and all followers
  have left.
\<close>

theorem sync_completes:
  assumes "(sync_step ^^ k) (sync_init n) s"
  shows "k \<le> 8 + 6 * n \<and> ((\<nexists>t. sync_step s t) \<longrightarrow>
    ctl s = CtlDone \<and> set (fols s) \<subseteq> {FolDone} \<and> \<not> sync_controller s \<and> sync_count s = 0 \<and> \<not> sync_page s)"
proof -
  have r: "sync_step\<^sup>*\<^sup>* (sync_init n) s" by (rule relpowp_imp_rtranclp [OF assms])
  have "k \<le> 8 + 6 * n" using tsync.run_length [OF assms sync_init_inv] by (simp add: sync_init_rank)
  moreover have "sync_final s" if "\<nexists>t. sync_step s t" by (rule tsync.stuck_final [OF r sync_init_inv that])
  moreover have "sync_inv s" by (rule tsync.inv_run [OF r sync_init_inv])
  ultimately show ?thesis by (auto simp: sync_final_def sync_inv_def sync_phase_def sync_vars_def)
qed

theorem sync_completes_witness:
  "\<exists>s. run_schedule demo_schedule (sync_init 1) = Some s \<and> length demo_schedule \<le> 14 \<and> ctl s = CtlDone"
proof -
  obtain s where r: "run_schedule demo_schedule (sync_init 1) = Some s" and c: "ctl s = CtlDone"
    by (simp add: sync_step_defs)
  from sync_completes [OF run_schedule_steps [OF r]] r c show ?thesis by simp
qed

end
