(* ===== verification/Threads.thy ===== *)
theory Threads
  imports Segfault
begin

text \<open>
  The start and the end of threads, \<open>src/src/syscall_monitor/setup_new_thread.cpp\<close> and
  \<open>virtualize_threads.cpp\<close>: the block of thread data behind the GS base, the secure stack, the registration of a
  thread with the page manager and the breakpoints, and what clones do around it.

  The fields of \<open>GSRelativeData\<close> are part of the state of the thread; \<open>gs_base\<close> is the address of the
  block. A store through a pointer that the code got from elsewhere is recorded in \<open>stores\<close>. The size of
  \<open>GSRelativeData\<close> follows from the offsets asserted in \<open>gsreldata.h\<close>; the size of the signal handler class depends on the
  standard library and is an argument, and so is the mask that \<open>sigfillset\<close> of the C library gives.
\<close>

section \<open>The state of the monitor\<close>

record monitor = trap +
  gs_base :: addr
  fs_base :: addr
  secure_stack_base :: addr
  altstack :: "addr \<times> c_int \<times> u64"
  fake_clone_flag :: bool
  child_stack :: addr
  signal_handlers_ptr :: addr
  mmap_lock :: bool
  path_to_loader :: "u8 list"
  path_to_secpoline :: "u8 list"
  stores :: "(addr \<times> u8 list) list"
  sigmasks :: "(c_int \<times> u64 option) list"
  execs :: "(u8 list list \<times> u8 list list option) list"

abbreviation (input) NR_prctl :: u64 where "NR_prctl \<equiv> 157"
abbreviation (input) NR_arch_prctl :: u64 where "NR_arch_prctl \<equiv> 158"
abbreviation (input) NR_sigaltstack :: u64 where "NR_sigaltstack \<equiv> 131"
abbreviation (input) ARCH_SET_GS :: u64 where "ARCH_SET_GS \<equiv> 0x1001"
abbreviation (input) PR_SET_SYSCALL_USER_DISPATCH :: u64 where "PR_SET_SYSCALL_USER_DISPATCH \<equiv> 59"
abbreviation (input) CLONE_VM :: u64 where "CLONE_VM \<equiv> 0x100"
abbreviation (input) CLONE_SIGHAND :: u64 where "CLONE_SIGHAND \<equiv> 0x800"
abbreviation (input) CLONE_VFORK :: u64 where "CLONE_VFORK \<equiv> 0x4000"
abbreviation (input) SIGCHLD :: u64 where "SIGCHLD \<equiv> 17"
abbreviation (input) GSREL_SIZE :: u64 where "GSREL_SIZE \<equiv> 0xc000"
abbreviation (input) SECURE_STACK_SIZE :: u64 where "SECURE_STACK_SIZE \<equiv> 0x800000"
abbreviation (input) PROT_RW :: u64 where "PROT_RW \<equiv> 3"
abbreviation (input) MAP_PRIV_ANON :: u64 where "MAP_PRIV_ANON \<equiv> 0x22"

record thread_addrs =
  trap_locals :: trap_addrs
  new_mask_addr :: addr
  old_mask_addr :: addr
  altstack_addr :: addr
  sizeof_handlers :: u64
  sigfillset_mask :: u64

section \<open>Signal masks\<close>

text \<open>A mask of \<open>SIGSETSIZE\<close> bytes is one word; the bit of a signal is its number less one.\<close>

definition clear_sig :: "u64 \<Rightarrow> c_int \<Rightarrow> u64" where
  "clear_sig sset sig = sset AND NOT (push_bit (unat (sig - 1) mod 64) 1)"

definition nolibc_sigfill_set :: u64 where
  "nolibc_sigfill_set = clear_sig (clear_sig (clear_sig (-1) SIGSYS) SIGSEGV) SIGTRAP"

text \<open>\<open>inline_syscall6(__NR_rt_sigprocmask, how, &set, oldset, SIGSETSIZE, 0, 0)\<close> with the mask behind the pointer.\<close>

definition set_sigmask :: "env \<Rightarrow> c_int \<Rightarrow> (addr \<times> u64) option \<Rightarrow> addr \<Rightarrow> 'z monitor_scheme \<Rightarrow> u64 \<times> 'z monitor_scheme" where
  "set_sigmask E how sset oldset s =
     (let ptr = (case sset of None \<Rightarrow> 0 | Some (p, _) \<Rightarrow> p)
      in inline_syscall6 E NR_rt_sigprocmask (scast how) ptr oldset 8 0 0
           (s\<lparr>sigmasks := (how, map_option snd sset) # sigmasks s\<rparr>))"

section \<open>Thread data\<close>

definition tag_as_trusted :: "env \<Rightarrow> addr \<Rightarrow> u64 \<Rightarrow> 'z kern_scheme \<Rightarrow> 'z kern_scheme res" where
  "tag_as_trusted E a len s =
     (let (res, s) = inline_syscall6 E NR_pkey_mprotect a len PROT_RW (scast SECPOLINE_MPKEY) 0 0 s
      in nolibc_assert (res = 0) (Inr s))"

text \<open>The new block becomes the thread data when the GS base is set.\<close>

definition map_gsrel_region :: "env \<Rightarrow> addr \<Rightarrow> 'z monitor_scheme \<Rightarrow> (addr \<times> 'z monitor_scheme) res" where
  "map_gsrel_region E base s =
     (let (mem, s) = inline_syscall6 E NR_mmap 0 GSREL_SIZE PROT_RW MAP_PRIV_ANON (-1) 0 s in
      nolibc_assert (mem \<noteq> -1 \<and> mem \<noteq> 0)
      (rbind (tag_as_trusted E mem GSREL_SIZE s)
      (\<lambda>s. let (res, s) = inline_syscall6 E NR_pkey_mprotect mem PAGE_SIZE PROT_RW (scast SECPOLINE_READONLY_MPKEY) 0 0 s in
        nolibc_assert (res = 0)
        (let (res, s) = inline_syscall6 E NR_arch_prctl ARCH_SET_GS mem 0 0 0 0 s in
         nolibc_assert (res = 0)
         (Inr (mem, s\<lparr>gs_base := mem, sud_selector := 0xff, fs_base := 0, fake_clone_flag := False, child_stack := 0,
            sigreturn_stack := [], signal_handlers_ptr := 0, secure_stack_base := base,
            secure_stack_sp := base + SECURE_STACK_SIZE, compartment_id := ucast TS_MONITOR\<rparr>))))))"

definition enable_sud :: "env \<Rightarrow> 'z monitor_scheme \<Rightarrow> 'z monitor_scheme res" where
  "enable_sud E s =
     (let (r, s) = inline_syscall6 E NR_prctl PR_SET_SYSCALL_USER_DISPATCH 1 0 0 (gs_base s) 0 s
      in nolibc_assert (r = 0) (Inr s))"

definition map_signal_handlers :: "env \<Rightarrow> thread_addrs \<Rightarrow> 'z kern_scheme \<Rightarrow> (addr \<times> 'z kern_scheme) res" where
  "map_signal_handlers E T s =
     (let (r, s) = inline_syscall6 E NR_mmap 0 (sizeof_handlers T) PROT_RW MAP_PRIV_ANON (-1) 0 s in
      nolibc_assert (r \<noteq> -1 \<and> r \<noteq> 0) (rbind (tag_as_trusted E r (sizeof_handlers T) s) (\<lambda>s. Inr (r, s))))"

definition setup_secure_stack :: "env \<Rightarrow> 'z kern_scheme \<Rightarrow> (addr \<times> 'z kern_scheme) res" where
  "setup_secure_stack E s =
     (let (base, s) = inline_syscall6 E NR_mmap 0 SECURE_STACK_SIZE PROT_RW MAP_PRIV_ANON (-1) 0 s in
      nolibc_assert (base \<noteq> -1 \<and> base \<noteq> 0)
      (let (res, s) = inline_syscall6 E NR_pkey_mprotect base SECURE_STACK_SIZE PROT_RW (scast SECPOLINE_MPKEY) 0 0 s in
       nolibc_assert (res = 0)
       (let (res, s) = inline_syscall6 E NR_mprotect base PAGE_SIZE (scast PROT_READ) 0 0 0 s
        in nolibc_assert (res = 0) (Inr (base, s)))))"

definition setup_altstack :: "env \<Rightarrow> thread_addrs \<Rightarrow> 'z monitor_scheme \<Rightarrow> 'z monitor_scheme res" where
  "setup_altstack E T s =
     (let (res, s) = inline_syscall6 E NR_sigaltstack (altstack_addr T) 0 0 0 0 0
            (s\<lparr>altstack := (secure_stack_base s, 0, SECURE_STACK_SIZE)\<rparr>)
      in nolibc_assert ((ucast res :: c_int) = 0) (Inr s))"

section \<open>New threads\<close>

text \<open>Without \<open>CLONE_SIGHAND\<close> the table of handlers is copied to memory of its own; the contents are the same.\<close>

definition setup_new_thread :: "env \<Rightarrow> thread_addrs \<Rightarrow> u64 \<Rightarrow> addr \<Rightarrow> 'z monitor_scheme \<Rightarrow> 'z monitor_scheme res" where
  "setup_new_thread E T clone_flags base s =
     (let cloner_handlers = signal_handlers_ptr s;
          (r, s) = set_sigmask E 2 (Some (new_mask_addr T, nolibc_sigfill_set)) (old_mask_addr T) s in
      nolibc_assert (r = 0)
      (rbind (map_gsrel_region E base s)
      (\<lambda>(mem, s). nolibc_assert (compartment_id s = ucast TS_MONITOR)
        (let s = set_sud_allow s; shared = (clone_flags AND CLONE_SIGHAND \<noteq> 0) in
         rbind (if shared then Inr (cloner_handlers, s) else map_signal_handlers E T s)
         (\<lambda>(handlers, s). rbind (enable_sud E (s\<lparr>signal_handlers_ptr := handlers, altstack := (base, 0, snd (snd (altstack s)))\<rparr>))
         (\<lambda>s. rbind (update_active_thread_list E (trap_locals T) False s)
         (\<lambda>s. let (r, s) = set_sigmask E 2 (Some (old_mask_addr T, load64 (mem_at E s) (old_mask_addr T))) 0 s in
           nolibc_assert (r = 0)
           (rbind (add_page E mem GSREL_SIZE (PROT_READ OR PROT_WRITE) (MAP_PRIVATE OR MAP_ANONYMOUS) TS_MONITOR False s)
           (\<lambda>(r, s). nolibc_assert (r = 0)
             (rbind (if shared then Inr (0, s)
                     else add_page E handlers (sizeof_handlers T) (PROT_READ OR PROT_WRITE) (MAP_PRIVATE OR MAP_ANONYMOUS)
                            TS_MONITOR False s)
             (\<lambda>(r, s). nolibc_assert (r = 0) (Inr (set_sud_block s)))))))))))))"

definition setup_vforked_child :: "env \<Rightarrow> thread_addrs \<Rightarrow> 'z monitor_scheme \<Rightarrow> 'z monitor_scheme res" where
  "setup_vforked_child E T s = setup_new_thread E T (CLONE_VM OR CLONE_VFORK OR SIGCHLD) 0 s"

text \<open>The end of a thread; the result is the base of its stack.\<close>

definition teardown_thread_metadata :: "env \<Rightarrow> thread_addrs \<Rightarrow> 'z monitor_scheme \<Rightarrow> (addr \<times> 'z monitor_scheme) res" where
  "teardown_thread_metadata E T s =
     (let s = set_sud_allow s;
          (r, s) = set_sigmask E 2 (Some (new_mask_addr T, sigfillset_mask T)) 0 s in
      nolibc_assert (r = 0)
      (rbind (update_active_thread_list E (trap_locals T) True s)
      (\<lambda>s. rbind (remove_page E (gs_base s) GSREL_SIZE TS_MONITOR s)
      (\<lambda>(r, s). nolibc_assert (r = 0)
        (let (r, s) = inline_syscall6 E NR_prctl PR_SET_SYSCALL_USER_DISPATCH 0 0 0 0 0 s in
         nolibc_assert ((ucast r :: c_int) = 0)
         (let (r, s) = inline_syscall6 E NR_munmap (gs_base s) GSREL_SIZE 0 0 0 0 s
          in nolibc_assert ((ucast r :: c_int) = 0) (Inr (secure_stack_base s, s))))))))"

section \<open>Returning from a signal\<close>

text \<open>The registers of the interrupted code that the trampoline saves and replaces; six values are
  pushed on the stack for returns from signals.\<close>

record ucontext_regs =
  uc_REG_RIP :: u64
  uc_REG_RSP :: u64
  uc_REG_EFL :: u64
  uc_REG_RAX :: u64
  uc_REG_RDX :: u64
  uc_REG_RCX :: u64
  uc_REG_R9 :: u64

definition setup_restore_selector_trampoline :: "addr \<Rightarrow> ucontext_regs \<Rightarrow> addr \<Rightarrow> 'z monitor_scheme
    \<Rightarrow> (ucontext_regs \<times> 'z monitor_scheme) res" where
  "setup_restore_selector_trampoline trampoline u secure_sp s =
     (if length (sigreturn_stack s) + 6 > 0x1000 then Inl OutOfBounds
      else
        let rip = uc_REG_RIP u;
            u = u\<lparr>uc_REG_RIP := trampoline\<rparr>;
            u = (if uc_REG_RSP u = 0 then u\<lparr>uc_REG_RSP := uc_REG_R9 u\<rparr> else u);
            s = s\<lparr>sigreturn_stack := sigreturn_stack s @
                   [rip, uc_REG_EFL u, uc_REG_RSP u, uc_REG_RAX u, uc_REG_RDX u, uc_REG_RCX u]\<rparr>
        in Inr (u\<lparr>uc_REG_RSP := secure_sp\<rparr>, s))"

section \<open>Clones\<close>

text \<open>The fake clone only keeps the stack of the child; its result is the thread id of the caller.\<close>

definition virual_clone_wrapper :: "env \<Rightarrow> addr \<Rightarrow> u64 \<Rightarrow> u64 \<Rightarrow> 'z monitor_scheme \<Rightarrow> c_int \<times> 'z monitor_scheme" where
  "virual_clone_wrapper E stack ptid tls s =
     (let stack = stack - 16;
          (tid, s) = nolibc_gettid E (s\<lparr>stores := (stack + 8, store64 tls) # (stack, store64 ptid) # stores s,
                                        child_stack := stack\<rparr>)
      in (ucast tid, s))"

definition prepare_clone_parent :: "env \<Rightarrow> thread_addrs \<Rightarrow> u64 \<Rightarrow> 'z monitor_scheme \<Rightarrow> 'z monitor_scheme res" where
  "prepare_clone_parent E T flags s =
     (if flags AND CLONE_VFORK \<noteq> 0 then update_active_thread_list E (trap_locals T) True s else Inr s)"

definition restart_clone_parent :: "env \<Rightarrow> thread_addrs \<Rightarrow> u64 \<Rightarrow> 'z monitor_scheme \<Rightarrow> 'z monitor_scheme res" where
  "restart_clone_parent E T flags s =
     rbind (if flags AND CLONE_VFORK \<noteq> 0 then update_active_thread_list E (trap_locals T) False s else Inr s)
     (\<lambda>s. let (r, s) = set_sigmask E 2 (Some (new_mask_addr T, 0)) 0 (set_sud_allow s)
          in nolibc_assert (r = 0) (Inr (set_sud_allow s)))"

end
