(* ===== verification/Handlers.thy ===== *)
theory Handlers
  imports Threads "HOL-Library.Signed_Division"
begin

text \<open>
  The handlers of the application's system calls, \<open>src/src/syscall_handlers/main_monitor.cpp\<close>. A handler gets the
  number of the call and the registers and returns the new registers; its result tells whether the
  assembly code has to do the call itself.

  The arguments are signed in the code (\<open>long long\<close>): divisions and comparisons of them are signed.
  Pointers of the application are read either with a checked copy or, with full permissions, directly; a
  direct access that the processor refuses is \<open>Inl Segv\<close>. Loops over strings and pointer arrays of the application end at a zero that
  the application controls, so they get a bound.
\<close>

abbreviation (input) NR_fork :: u64 where "NR_fork \<equiv> 57"
abbreviation (input) NR_execve :: u64 where "NR_execve \<equiv> 59"
abbreviation (input) NR_access :: u64 where "NR_access \<equiv> 21"
abbreviation (input) ARCH_SET_FS :: u64 where "ARCH_SET_FS \<equiv> 0x1002"
abbreviation (input) ARCH_GET_FS :: u64 where "ARCH_GET_FS \<equiv> 0x1003"
abbreviation (input) PR_SET_PTRACER :: u64 where "PR_SET_PTRACER \<equiv> 0x59616d61"
abbreviation (input) PR_SET_SECCOMP :: u64 where "PR_SET_SECCOMP \<equiv> 22"
abbreviation (input) PROT_GROWSDOWN :: u64 where "PROT_GROWSDOWN \<equiv> 0x01000000"
abbreviation (input) CLONE_THREAD :: u64 where "CLONE_THREAD \<equiv> 0x10000"
abbreviation (input) CLONE_DETACHED :: u64 where "CLONE_DETACHED \<equiv> 0x400000"
abbreviation (input) CLONE_CLEAR_SIGHAND :: u64 where "CLONE_CLEAR_SIGHAND \<equiv> 0x100000000"

text \<open>Addresses of local variables, of the copies that \<open>execve\<close> makes, and the bound for its loops.\<close>

record handler_addrs =
  open_locals :: open_addrs
  sig_locals :: sig_addrs
  thread_locals :: thread_addrs
  mask_addr :: addr
  oldset_addr :: addr
  fds_addr :: addr
  loader_ptr :: addr
  file_ptr :: addr
  argv_ptr :: addr
  envp_ptr :: addr
  str_limit :: nat

section \<open>Simple handlers\<close>

definition handler_not_implemented :: "gprs \<Rightarrow> 'z \<Rightarrow> 'z handler_res" where
  "handler_not_implemented g s = Inr (0, g\<lparr>REG_RAX := - ENOSYS\<rparr>, s)"

definition handler_default :: "env \<Rightarrow> gprs \<Rightarrow> 'z kern_scheme \<Rightarrow> 'z kern_scheme handler_res" where
  "handler_default E g s = (let (g, s) = do_syscall E g s in Inr (0, g, s))"

text \<open>\<open>brk\<close> answers \<open>-ENOSYS\<close>; the rest of the function is unreachable.\<close>

definition handler_brk :: "gprs \<Rightarrow> 'z \<Rightarrow> 'z handler_res" where
  "handler_brk g s = Inr (0, g\<lparr>REG_RAX := - ENOSYS\<rparr>, s)"

definition handler_execveat :: "gprs \<Rightarrow> 'z \<Rightarrow> 'z handler_res" where
  "handler_execveat g s = Inr (0, g\<lparr>REG_RAX := - ENOSYS\<rparr>, s)"

section \<open>Memory\<close>

text \<open>\<open>((arg2 + PAGE_SIZE - 1) / PAGE_SIZE) * PAGE_SIZE\<close> with a signed division.\<close>

definition align_size :: "u64 \<Rightarrow> u64" where
  "align_size n = word_of_int (sint (n + PAGE_SIZE - 1) sdiv 4096 * 4096)"

definition with_mmap_lock :: "('z monitor_scheme \<Rightarrow> ('a \<times> 'z monitor_scheme) res) \<Rightarrow> 'z monitor_scheme \<Rightarrow> ('a \<times> 'z monitor_scheme) res" where
  "with_mmap_lock f s =
     (if mmap_lock s then Inl Deadlock
      else rbind (f (s\<lparr>mmap_lock := True\<rparr>)) (\<lambda>(r, s). Inr (r, s\<lparr>mmap_lock := False\<rparr>)))"

definition handler_mmap :: "env \<Rightarrow> gprs \<Rightarrow> 'z monitor_scheme \<Rightarrow> 'z monitor_scheme handler_res" where
  "handler_mmap E g s =
     rbind (with_mmap_lock (secpoline_mmap E (arg1 g) (align_size (arg2 g)) (arg3 g) (arg4 g) (ucast (arg5 g)) (arg6 g)
              TS_APPLICATION) s)
       (\<lambda>(r, s). Inr (0, g\<lparr>REG_RAX := r\<rparr>, s))"

definition handler_mprotect :: "env \<Rightarrow> gprs \<Rightarrow> 'z erim_scheme \<Rightarrow> 'z erim_scheme handler_res" where
  "handler_mprotect E g s =
     rbind (lookup_range (arg1 g) (arg2 g) TS_APPLICATION s)
     (\<lambda>(range, s).
       if range = None then Inr (0, g\<lparr>REG_RAX := - EINVAL\<rparr>, s)
       else nolibc_assert (arg3 g AND PROT_GROWSDOWN = 0)
        (if arg3 g AND 4 \<noteq> 0 \<and> arg3 g AND 2 \<noteq> 0
         then
          let g = g\<lparr>REG_RDX := arg3 g AND NOT 4\<rparr>;
              (r, s) = do_syscall_untrusted E (arg1 g) (arg2 g) (arg3 g) 0 0 0 NR_mprotect s;
              res = (ucast r :: c_int) in
          rbind (if res = 0
                 then rbind (update_mprotect E (arg1 g) (arg2 g) (ucast (arg3 g)) TS_APPLICATION s)
                   (\<lambda>(r, s). nolibc_assert (r = 0) (mark_wx_pages (page_addrs (arg1 g) (arg2 g)) (ucast (arg3 g)) False s))
                 else Inr s)
          (\<lambda>s. Inr (0, g\<lparr>REG_RAX := scast res\<rparr>, s))
         else if arg3 g AND 4 \<noteq> 0
         then
          let (r, s) = do_syscall_untrusted E (arg1 g) (arg2 g) (scast PROT_READ) 0 0 0 NR_mprotect s;
              res = (ucast r :: c_int) in
          if res <s 0 then Inr (0, g\<lparr>REG_RAX := scast res\<rparr>, s)
          else rbind (scan_exec_mapping_mprotect E (arg1 g) (arg2 g) (ucast (arg3 g)) (ucast (arg3 g) AND NOT PROT_EXEC)
                       TS_APPLICATION None s)
                 (\<lambda>s. Inr (0, g\<lparr>REG_RAX := 0\<rparr>, s))
         else
          let (g, s) = do_syscall E g s in
          rbind (update_mprotect E (arg1 g) (arg2 g) (ucast (arg3 g)) TS_APPLICATION s)
            (\<lambda>(r, s). nolibc_assert (r = 0) (Inr (0, g, s)))))"

definition handler_munmap :: "env \<Rightarrow> gprs \<Rightarrow> 'z monitor_scheme \<Rightarrow> 'z monitor_scheme handler_res" where
  "handler_munmap E g s =
     rbind (with_mmap_lock
       (\<lambda>s. rbind (remove_page E (arg1 g) (arg2 g) TS_APPLICATION s)
         (\<lambda>(r, s). if r = -1 then Inr (g\<lparr>REG_RAX := - EINVAL\<rparr>, s) else Inr (do_syscall E g s))) s)
     (\<lambda>(g, s). Inr (0, g, s))"

text \<open>When the mapping is not the application's the handler returns \<open>-EFAULT\<close> and leaves the number of the call in RAX.\<close>

definition handler_mremap :: "env \<Rightarrow> gprs \<Rightarrow> 'z erim_scheme \<Rightarrow> 'z erim_scheme handler_res" where
  "handler_mremap E g s =
     rbind (lookup_addr (arg1 g) TS_APPLICATION s)
     (\<lambda>(rpage, s). case rpage of
        None \<Rightarrow> Inr (- EFAULT, g, s)
      | Some p \<Rightarrow>
          if arg1 g + arg2 g > vp_end p then Inr (- EFAULT, g, s)
          else rbind
            (if vp_prot p AND PROT_EXEC \<noteq> 0
             then handle_mremap_exec E (arg1 g) (arg2 g) (arg3 g) (ucast (arg4 g)) (arg5 g) (vp_prot p) TS_APPLICATION s
             else handle_mremap E (arg1 g) (arg2 g) (arg3 g) (ucast (arg4 g)) (arg5 g) TS_APPLICATION s)
            (\<lambda>(r, s). Inr (0, g\<lparr>REG_RAX := r\<rparr>, s)))"

section \<open>Starting programs\<close>

text \<open>Direct reads with the current key register: a byte, a pointer, a string, an array of pointers that ends with a null
  pointer after the first (\<open>while(argv[++argc]);\<close>).\<close>

definition read_ptr :: "env \<Rightarrow> addr \<Rightarrow> 'z iso_scheme \<Rightarrow> u64 res" where
  "read_ptr E a s = (if range_ok E (trace s) (pkru s) False a 8 then Inr (load64 (mem_at E s) a) else Inl Segv)"

primrec strdup :: "env \<Rightarrow> nat \<Rightarrow> addr \<Rightarrow> 'z iso_scheme \<Rightarrow> u8 list res" where
  "strdup E 0 a s = Inl NoFuel"
| "strdup E (Suc n) a s =
     (if \<not> access_ok E (trace s) (pkru s) False a then Inl Segv
      else if mem_at E s a = 0 then Inr []
      else rbind (strdup E n (a + 1) s) (\<lambda>str. Inr (mem_at E s a # str)))"

primrec count_ptrs :: "env \<Rightarrow> nat \<Rightarrow> addr \<Rightarrow> nat \<Rightarrow> 'z iso_scheme \<Rightarrow> nat res" where
  "count_ptrs E 0 arr i s = Inl NoFuel"
| "count_ptrs E (Suc n) arr i s =
     rbind (read_ptr E (arr + 8 * of_nat (Suc i)) s)
       (\<lambda>p. if p = 0 then Inr (Suc i) else count_ptrs E n arr (Suc i) s)"

primrec copy_strings :: "env \<Rightarrow> nat \<Rightarrow> addr \<Rightarrow> nat list \<Rightarrow> 'z iso_scheme \<Rightarrow> u8 list list res" where
  "copy_strings E lim arr [] s = Inr []"
| "copy_strings E lim arr (i # is) s =
     rbind (read_ptr E (arr + 8 * of_nat i) s)
       (\<lambda>p. rbind (strdup E lim p s) (\<lambda>str. rbind (copy_strings E lim arr is s) (\<lambda>strs. Inr (str # strs))))"

definition exec_argc :: "env \<Rightarrow> nat \<Rightarrow> addr \<Rightarrow> 'z iso_scheme \<Rightarrow> nat res" where
  "exec_argc E lim argv s =
     (if argv = 0 then Inr 1
      else rbind (read_ptr E argv s) (\<lambda>p. if p = 0 then Inr 1 else count_ptrs E lim argv 0 s))"

abbreviation (input) EQUALS :: u8 where "EQUALS \<equiv> 0x3d"

definition preload_name :: "u8 list" where
  "preload_name = map of_char ''SECPOLINE_LD_PRELOAD''"

definition clear_preload :: "u8 list \<Rightarrow> u8 list" where
  "clear_preload str =
     (let name = takeWhile (\<lambda>c. c \<noteq> EQUALS) str in
      if length name = length str then str
      else if name = preload_name then name @ [EQUALS] else str)"

definition exec_envp :: "env \<Rightarrow> nat \<Rightarrow> addr \<Rightarrow> 'z iso_scheme \<Rightarrow> (u8 list list option \<times> 'z iso_scheme) res" where
  "exec_envp E lim envp s =
     (if envp = 0 then Inr (None, s)
      else rbind (internal_wrpkru GRANT_FULL_PERMISSIONS s)
      (\<lambda>s. rbind (count_ptrs E lim envp 0 s)
      (\<lambda>envpc. rbind (internal_wrpkru GRANT_TRUSTED_PERMISSIONS s)
      (\<lambda>s. rbind (internal_wrpkru GRANT_FULL_PERMISSIONS s)
      (\<lambda>s. rbind (copy_strings E lim envp [0..<envpc] s)
      (\<lambda>strs. rbind (internal_wrpkru GRANT_TRUSTED_PERMISSIONS s)
      (\<lambda>s. Inr (Some (map clear_preload strs), s))))))))"

definition handler_execve :: "env \<Rightarrow> handler_addrs \<Rightarrow> gprs \<Rightarrow> 'z monitor_scheme \<Rightarrow> 'z monitor_scheme handler_res" where
  "handler_execve E A g s =
     rbind (internal_wrpkru GRANT_FULL_PERMISSIONS s)
     (\<lambda>s. rbind (exec_argc E (str_limit A) (arg2 g) s)
     (\<lambda>argc. rbind (internal_wrpkru GRANT_TRUSTED_PERMISSIONS s)
     (\<lambda>s. rbind (internal_wrpkru GRANT_FULL_PERMISSIONS s)
     (\<lambda>s. rbind (strdup E (str_limit A) (arg1 g) s)
     (\<lambda>file. rbind (internal_wrpkru GRANT_TRUSTED_PERMISSIONS s)
     (\<lambda>s. let (r, s) = inline_syscall6 E NR_access (file_ptr A) 0 0 0 0 0 s in
       if r \<noteq> 0 then Inr (0, g\<lparr>REG_RAX := - ENOTDIR\<rparr>, s)
       else rbind (internal_wrpkru GRANT_FULL_PERMISSIONS s)
       (\<lambda>s. rbind (copy_strings E (str_limit A) (arg2 g) [1..<argc] s)
       (\<lambda>args. rbind (internal_wrpkru GRANT_TRUSTED_PERMISSIONS s)
       (\<lambda>s. rbind (exec_envp E (str_limit A) (arg3 g) s)
       (\<lambda>(envp, s). rbind (internal_wrpkru GRANT_TRUSTED_PERMISSIONS s)
       (\<lambda>s. rbind (update_active_thread_list E (trap_locals (thread_locals A)) True s)
       (\<lambda>s. let (res, s) = inline_syscall6 E NR_execve (loader_ptr A) (argv_ptr A) (if envp = None then 0 else envp_ptr A) 0 0 0
                  (s\<lparr>execs := (path_to_loader s # path_to_secpoline s # file # args, envp) # execs s\<rparr>)
            in Inr (0, g\<lparr>REG_RAX := res\<rparr>, s)))))))))))))"

section \<open>Processes and threads\<close>

text \<open>\<open>ARCH_GET_FS\<close> writes through the pointer of the application with the rights of the monitor.\<close>

definition handler_arch_prctl :: "env \<Rightarrow> gprs \<Rightarrow> 'z monitor_scheme \<Rightarrow> 'z monitor_scheme handler_res" where
  "handler_arch_prctl E g s =
     (if arg1 g = ARCH_SET_GS then Inr (0, g\<lparr>REG_RAX := - ENOSYS\<rparr>, s)
      else if arg1 g = ARCH_SET_FS then Inr (0, g\<lparr>REG_RAX := 0\<rparr>, s\<lparr>fs_base := arg2 g\<rparr>)
      else if arg1 g = ARCH_GET_FS
      then if range_ok E (trace s) (pkru s) True (arg2 g) 8
           then Inr (0, g\<lparr>REG_RAX := 0\<rparr>, s\<lparr>stores := (arg2 g, store64 (fs_base s)) # stores s\<rparr>)
           else Inl Segv
      else if arg1 g = PR_SET_SYSCALL_USER_DISPATCH \<or> arg1 g = PR_SET_PTRACER \<or> arg1 g = PR_SET_SECCOMP
      then Inr (0, g\<lparr>REG_RAX := - ENOSYS\<rparr>, s)
      else let (g, s) = do_syscall E g s in Inr (0, g, s))"

definition handler_fork :: "env \<Rightarrow> handler_addrs \<Rightarrow> gprs \<Rightarrow> 'z monitor_scheme \<Rightarrow> 'z monitor_scheme handler_res" where
  "handler_fork E A g s =
     (let (g, s) = do_syscall E (g\<lparr>REG_RAX := NR_fork\<rparr>) s in
      if (ucast (REG_RAX g) :: c_int) = 0
      then rbind (add_breakpoints_after_fork_wrapper E (trap_locals (thread_locals A)) s)
             (\<lambda>s. rbind (enable_sud E s) (\<lambda>s. Inr (0, g, s)))
      else Inr (0, g, s))"

definition handler_clone :: "env \<Rightarrow> handler_addrs \<Rightarrow> gprs \<Rightarrow> 'z monitor_scheme \<Rightarrow> 'z monitor_scheme handler_res" where
  "handler_clone E A g s =
     (let s = s\<lparr>is_multithreaded := True\<rparr>; flags = arg1 g; stack = arg2 g in
      if flags AND CLONE_THREAD \<noteq> 0
      then nolibc_assert (flags AND CLONE_VM \<noteq> 0 \<and> flags AND CLONE_VFORK = 0 \<and> flags AND CLONE_CLEAR_SIGHAND = 0 \<and> stack \<noteq> 0)
             (Inr (1, g, s))
      else if flags AND CLONE_VFORK \<noteq> 0
      then nolibc_assert (stack \<noteq> 0 \<and> flags AND CLONE_VM \<noteq> 0 \<and> flags AND CLONE_CLEAR_SIGHAND = 0) (Inr (1, g, s))
      else nolibc_assert (stack = 0 \<and> flags AND CLONE_CLEAR_SIGHAND = 0 \<and> flags AND CLONE_DETACHED = 0 \<and>
               flags AND CLONE_SIGHAND = 0 \<and> flags AND CLONE_VM = 0)
             (rbind (handler_fork E A g s) (\<lambda>(r, g, s). Inr (0, g, s))))"

text \<open>\<open>cleanup_thread\<close> ends the thread, \<open>exit_group\<close> the process.\<close>

definition handler_exit :: "gprs \<Rightarrow> 'z \<Rightarrow> 'z handler_res" where
  "handler_exit g s = Inl Exit"

definition handler_exit_group :: "env \<Rightarrow> gprs \<Rightarrow> 'z kern_scheme \<Rightarrow> 'z kern_scheme handler_res" where
  "handler_exit_group E g s = (let (g, s) = do_syscall E g s in Inl Exit)"

section \<open>Signals\<close>

text \<open>The mask is copied before the three signals of the monitor are removed from it. The old mask is what the kernel wrote to the
  local variable.\<close>

definition monitor_mask :: "u64 \<Rightarrow> u64" where
  "monitor_mask m = clear_sig (clear_sig (clear_sig m SIGSYS) SIGSEGV) SIGTRAP"

definition handler_rt_sigprocmask :: "env \<Rightarrow> handler_addrs \<Rightarrow> gprs \<Rightarrow> 'z monitor_scheme \<Rightarrow> 'z monitor_scheme handler_res" where
  "handler_rt_sigprocmask E A g s =
     nolibc_assert (arg4 g \<le>s 128)
     (if arg4 g \<noteq> 8 then Inr (0, g\<lparr>REG_RAX := - EINVAL\<rparr>, s)
      else rbind
        (if arg2 g = 0 then Inr (None, s)
         else rbind (memcpy_untrusted_to_trusted E (arg2 g) 8 s)
           (\<lambda>(bs, s). Inr (Some (mask_addr A, monitor_mask (word_of_bytes bs)), s)))
      (\<lambda>(sset, s).
        let oldset = (if arg3 g = 0 then 0 else oldset_addr A);
            (r, s) = set_sigmask E (ucast (arg1 g)) sset oldset (set_sud_allow s);
            s = set_sud_block s; g = g\<lparr>REG_RAX := r\<rparr> in
        rbind (if arg3 g = 0 then Inr s
               else memcpy_trusted_to_untrusted E (arg3 g) (map (\<lambda>i. mem_at E s (oldset_addr A + of_nat i)) [0..<8]) 8 s)
          (\<lambda>s. Inr (0, g, s))))"

definition handler_rt_sigaction :: "env \<Rightarrow> handler_addrs \<Rightarrow> gprs \<Rightarrow> 'z signals_scheme \<Rightarrow> 'z signals_scheme handler_res" where
  "handler_rt_sigaction E A g s =
     rbind (handle_app_sigaction E (sig_locals A) (ucast (arg1 g)) (arg2 g) (arg3 g) s)
       (\<lambda>(r, s). Inr (0, g\<lparr>REG_RAX := r\<rparr>, s))"

section \<open>Calls that create two descriptors\<close>

definition fd_at :: "env \<Rightarrow> 'z kern_scheme \<Rightarrow> addr \<Rightarrow> c_int" where
  "fd_at E s a = ucast (load64 (mem_at E s) a)"

text \<open>What \<open>pipe\<close> and \<open>socketpair\<close> do after the call: \<open>dest\<close> is the application's array.\<close>

definition save_fd_pair :: "env \<Rightarrow> addr \<Rightarrow> addr \<Rightarrow> gprs \<Rightarrow> 'z files_scheme \<Rightarrow> 'z files_scheme handler_res" where
  "save_fd_pair E fds dest g s =
     (if REG_RAX g <s 0 then Inr (0, g, s)
      else if fd_at E s fds <s 0 \<or> fd_at E s (fds + 4) <s 0 then Inr (0, g, s)
      else rbind (fd_set_bit (scast (fd_at E s fds)) (fd_map s))
        (\<lambda>m. rbind (fd_set_bit (scast (fd_at E s (fds + 4))) m)
        (\<lambda>m. let s = s\<lparr>fd_map := m\<rparr> in
           rbind (memcpy_trusted_to_untrusted E dest (map (\<lambda>i. mem_at E s (fds + of_nat i)) [0..<8]) 8 s)
             (\<lambda>s. Inr (0, g, s)))))"

definition handler_pipe :: "env \<Rightarrow> handler_addrs \<Rightarrow> u64 \<Rightarrow> gprs \<Rightarrow> 'z files_scheme \<Rightarrow> 'z files_scheme handler_res" where
  "handler_pipe E A syscall_no g s =
     (let (r, s) = inline_syscall6 E syscall_no (fds_addr A) (arg2 g) (arg3 g) (arg4 g) (arg5 g) (arg6 g) s
      in save_fd_pair E (fds_addr A) (arg1 g) (g\<lparr>REG_RAX := r\<rparr>) s)"

definition handler_socketpair :: "env \<Rightarrow> handler_addrs \<Rightarrow> u64 \<Rightarrow> gprs \<Rightarrow> 'z files_scheme \<Rightarrow> 'z files_scheme handler_res" where
  "handler_socketpair E A syscall_no g s =
     (let (r, s) = inline_syscall6 E syscall_no (arg1 g) (arg2 g) (arg3 g) (fds_addr A) (arg5 g) (arg6 g) s
      in save_fd_pair E (fds_addr A) (arg4 g) (g\<lparr>REG_RAX := r\<rparr>) s)"

end
