(* ===== verification/HandlersFacts.thy ===== *)
theory HandlersFacts
  imports Handlers BreakpointProps MapsProps
begin

text \<open>
  What the handlers ask the kernel for. A run is calm if it makes no request for executable memory; the rules
  follow the structure of the definitions, with \<open>f\<close> taking the final state out of the result.
\<close>

section \<open>Calm runs\<close>

definition calm :: "('a \<Rightarrow> 'z kern_scheme) \<Rightarrow> 'z kern_scheme \<Rightarrow> 'a res \<Rightarrow> bool" where
  "calm f s m \<longleftrightarrow> (\<forall>y. m = Inr y \<longrightarrow> emits (\<lambda>c. \<not> exec_call c) s (f y))"

lemma calmD: "calm f s m \<Longrightarrow> m = Inr y \<Longrightarrow> emits (\<lambda>c. \<not> exec_call c) s (f y)"
  by (simp add: calm_def)

lemma calm_Inl [simp]: "calm f s (Inl c)"
  by (simp add: calm_def)

lemma calm_Inr [simp]: "trace (f y) = trace s \<Longrightarrow> calm f s (Inr y)"
  by (simp add: calm_def)

lemma calm_rbind:
  assumes "calm g s m" "\<And>y. m = Inr y \<Longrightarrow> calm f (g y) (k y)"
  shows "calm f s (rbind m k)"
  using assms unfolding calm_def by (auto simp: rbind_eq_Inr intro: emits_trans)

lemma calm_seq: "calm id s m \<Longrightarrow> (\<And>s1. m = Inr s1 \<Longrightarrow> calm f s1 (k s1)) \<Longrightarrow> calm f s (rbind m k)"
  by (rule calm_rbind [of id]) auto

lemma calm_pair: "calm snd s m \<Longrightarrow> (\<And>r s1. m = Inr (r, s1) \<Longrightarrow> calm f s1 (k (r, s1))) \<Longrightarrow> calm f s (rbind m k)"
  by (rule calm_rbind [of snd]) auto

lemma calm_pure: "(\<And>y. m = Inr y \<Longrightarrow> calm f s (k y)) \<Longrightarrow> calm f s (rbind m k)"
  by (cases m) auto

lemma calm_assert: "(b \<Longrightarrow> calm f s m) \<Longrightarrow> calm f s (nolibc_assert b m)"
  by (simp add: nolibc_assert_def)

lemma calm_if: "(b \<Longrightarrow> calm f s m) \<Longrightarrow> (\<not> b \<Longrightarrow> calm f s n) \<Longrightarrow> calm f s (if b then m else n)"
  by simp

definition data_call :: "u64 \<Rightarrow> u64 \<Rightarrow> bool" where
  "data_call nr p \<longleftrightarrow> nr \<noteq> NR_mmap \<and> nr \<noteq> NR_mprotect \<and> nr \<noteq> NR_pkey_mprotect \<or> \<not> bit p 2"

lemma data_call_not_exec: "data_call nr a3 \<Longrightarrow> \<not> exec_call (SCall via sel nr a1 a2 a3 a4 a5 a6)"
  by (auto simp: data_call_def exec_call_def prot_call_def)

lemma data_call_simps [simp]: "nr \<noteq> 9 \<Longrightarrow> nr \<noteq> 10 \<Longrightarrow> nr \<noteq> 329 \<Longrightarrow> data_call nr p" "\<not> bit p 2 \<Longrightarrow> data_call nr p"
  by (simp_all add: data_call_def)

lemma calm_issue:
  assumes "data_call nr a3" "trace s0 = trace s" "\<And>r s1. calm f s1 (k r s1)"
  shows "calm f s (case issue E via nr a1 a2 a3 a4 a5 a6 s0 of (r, s) \<Rightarrow> k r s)"
  unfolding calm_def
proof (intro allI impI)
  fix y assume y: "(case issue E via nr a1 a2 a3 a4 a5 a6 s0 of (r, s) \<Rightarrow> k r s) = Inr y"
  obtain r s1 where i: "issue E via nr a1 a2 a3 a4 a5 a6 s0 = (r, s1)" by fastforce
  have "emits (\<lambda>c. \<not> exec_call c) s0 s1"
    using i by (rule issue_emits) (rule data_call_not_exec [OF assms(1)])
  then have "emits (\<lambda>c. \<not> exec_call c) s s1" using assms(2) by (simp add: emits_def)
  moreover have "emits (\<lambda>c. \<not> exec_call c) s1 (f y)" using calmD [OF assms(3)] y i by simp
  ultimately show "emits (\<lambda>c. \<not> exec_call c) s (f y)" by (rule emits_trans)
qed

lemma calm_inline:
  assumes "data_call nr a3" "trace s0 = trace s" "\<And>r s1. calm f s1 (k r s1)"
  shows "calm f s (case inline_syscall6 E nr a1 a2 a3 a4 a5 a6 s0 of (r, s) \<Rightarrow> k r s)"
  unfolding inline_syscall6_def by (rule calm_issue [OF assms])

lemma calm_untrusted:
  assumes "data_call nr a3" "trace s0 = trace s" "\<And>r s1. calm f s1 (k r s1)"
  shows "calm f s (case do_syscall_untrusted E a1 a2 a3 a4 a5 a6 nr s0 of (r, s) \<Rightarrow> k r s)"
  unfolding do_syscall_untrusted_def by (rule calm_issue [OF assms])

lemma calm_do_syscall:
  assumes "data_call (REG_RAX g) (arg3 g)" "trace s0 = trace s" "\<And>r s1. calm f s1 (k (g\<lparr>REG_RAX := r\<rparr>) s1)"
  shows "calm f s (case do_syscall E g s0 of (g, s) \<Rightarrow> k g s)"
  using calm_untrusted [OF assms(1,2), of f "\<lambda>r s. k (g\<lparr>REG_RAX := r\<rparr>) s" E] assms(3)
  by (simp add: do_syscall_def case_prod_unfold Let_def)

lemmas calm_intros = calm_assert calm_if calm_inline calm_untrusted calm_do_syscall

section \<open>Breakpoints and threads\<close>

lemma close_all_calm: "calm id s (close_all E bs s)"
proof (induction bs arbitrary: s)
  case (Cons b bs)
  then show ?case by (auto intro!: calm_intros simp: Let_def)
qed simp

lemma set_hbreakpoint_calm: "calm snd s (set_hbreakpoint E pa a s)"
  unfolding set_hbreakpoint_def Let_def by (auto intro!: calm_intros)

lemma set_hbreakpoints_calm: "calm snd s (set_hbreakpoints E pa as s)"
proof (induction as arbitrary: s)
  case (Cons a as)
  then show ?case by (auto intro!: calm_pair set_hbreakpoint_calm)
qed simp

lemma set_pages_calm: "calm snd s (set_pages E pa ps s)"
proof (induction ps arbitrary: s)
  case (Cons a as)
  then show ?case by (auto intro!: calm_pair set_hbreakpoints_calm)
qed simp

lemma set_all_calm: "calm snd (snd cs) (set_all_hbreakpoits E pa cs)"
  unfolding set_all_hbreakpoits_def
  by (cases cs) (auto intro!: calm_pair calm_intros set_pages_calm simp: Let_def)

lemma remove_all_calm: "calm snd (snd cs) (remove_all_hbreakpoints E cs)"
  unfolding remove_all_hbreakpoints_def
  by (cases cs) (auto intro!: calm_seq close_all_calm)

text \<open>The same with the controller and the state apart, from a state with the same history.\<close>

lemma calm_cong: "calm f s0 m \<Longrightarrow> trace s0 = trace s \<Longrightarrow> calm f s m"
  by (simp add: calm_def emits_def)

lemma set_all_calm': "trace s0 = trace s \<Longrightarrow> calm snd s (set_all_hbreakpoits E pa (c, s0))"
  using set_all_calm [of "(c, s0)"] by (auto intro: calm_cong)

lemma remove_all_calm': "trace s0 = trace s \<Longrightarrow> calm snd s (remove_all_hbreakpoints E (c, s0))"
  using remove_all_calm [of "(c, s0)"] by (auto intro: calm_cong)

lemma calm_set_all:
  assumes "trace s0 = trace s" "\<And>c s1. calm f s1 (k (c, s1))"
  shows "calm f s (rbind (set_all_hbreakpoits E pa (c, s0)) k)"
  using set_all_calm' [OF assms(1)] by (rule calm_pair) (rule assms(2))

lemma calm_remove_all:
  assumes "trace s0 = trace s" "\<And>c s1. calm f s1 (k (c, s1))"
  shows "calm f s (rbind (remove_all_hbreakpoints E (c, s0)) k)"
  using remove_all_calm' [OF assms(1)] by (rule calm_pair) (rule assms(2))

lemma calm_remove_element: "(\<And>ts. calm f s (k ts)) \<Longrightarrow> calm f s (rbind (remove_element_active_thread_list i l) k)"
  by (rule calm_pure)

lemma thread_list_calm: "calm id s (update_active_thread_list E A rm s)"
  unfolding update_active_thread_list_def Let_def nolibc_gettid_def nolibc_getpid_def
  by (auto intro!: calm_intros calm_remove_element calm_remove_all calm_set_all simp: sud_defs)

lemma after_fork_calm: "calm id s (add_breakpoints_after_fork_wrapper E A s)"
  unfolding add_breakpoints_after_fork_wrapper_def Let_def nolibc_gettid_def nolibc_getpid_def
  by (auto intro!: calm_intros calm_set_all simp: sud_defs)

lemma enable_sud_calm: "calm id s (enable_sud E s)"
  unfolding enable_sud_def Let_def by (auto intro!: calm_intros)

lemma set_sigmask_calm:
  assumes "trace s0 = trace s" "\<And>r s1. calm f s1 (k r s1)"
  shows "calm f s (case set_sigmask E how m old s0 of (r, s) \<Rightarrow> k r s)"
  unfolding set_sigmask_def Let_def using assms by (intro calm_inline) simp_all

section \<open>Copies and signals\<close>

text \<open>Nothing but the copy and the key register is touched by the copies.\<close>

lemma copy_in_calm: "trace s0 = trace s \<Longrightarrow> calm snd s (memcpy_untrusted_to_trusted E src n s0)"
  by (auto simp: calm_def dest!: copy_in_state)

lemma copy_out_calm: "trace s0 = trace s \<Longrightarrow> calm id s (memcpy_trusted_to_untrusted E dest bs n s0)"
  by (auto simp: calm_def dest!: copy_out_state)

lemma copy_oldact_calm: "trace s0 = trace s \<Longrightarrow> calm id s (copy_oldact E oldact act s0)"
  by (simp add: copy_oldact_def copy_out_calm)

lemma copy_current_calm: "trace s0 = trace s \<Longrightarrow> calm id s (copy_current E oldact signo s0)"
  unfolding copy_current_def by (auto intro!: calm_if calm_pure copy_oldact_calm)

lemma rt_sigaction_calm:
  assumes "trace s0 = trace s" "\<And>r s1. calm f s1 (k r s1)"
  shows "calm f s (case nolibc_rt_sigaction E signo new old s0 of (r, s) \<Rightarrow> k r s)"
  unfolding nolibc_rt_sigaction_def Let_def using assms by (intro calm_inline) simp_all

lemma set_handler_calm:
  assumes "\<And>old s1. trace s1 = trace s \<Longrightarrow> calm f s (k (old, s1))"
  shows "calm f s (rbind (set_app_handler signo act s) k)"
  using assms by (intro calm_pure) (auto simp: set_app_handler_eq_Inr)

lemma sigaction_any_calm: "trace s0 = trace s \<Longrightarrow> calm snd s (sigaction_any E A signo new oldact s0)"
  unfolding sigaction_any_def Let_def
  by (cases new) (auto intro!: rt_sigaction_calm calm_if set_handler_calm calm_seq copy_current_calm copy_oldact_calm)

lemma sigaction_monitored_calm: "trace s0 = trace s \<Longrightarrow> calm (snd \<circ> snd) s (sigaction_monitored E A signo new oldact s0)"
  unfolding sigaction_monitored_def Let_def
  by (cases new) (auto intro!: rt_sigaction_calm calm_if set_handler_calm calm_seq copy_current_calm copy_oldact_calm)

lemma sigaction_read_calm: "calm snd s (sigaction_read E newact s)"
  unfolding sigaction_read_def by (auto intro!: calm_if calm_pair copy_in_calm)

lemma handle_app_sigaction_calm: "calm snd s (handle_app_sigaction E A signo newact oldact s)"
proof -
  have body: "calm snd s1 (if signo = SIGSYS
          then nolibc_assert (case new of None \<Rightarrow> True | Some act \<Rightarrow> sa_flags act AND SA_UNSUPPORTED = 0)
                 (rbind (copy_current E oldact SIGSYS s1) (\<lambda>s. Inr (0, s)))
          else if signo = SIGSEGV \<or> signo = SIGTRAP
          then rbind (sigaction_monitored E A signo new oldact s1)
                 (\<lambda>(ret, new, s). case ret of Some r \<Rightarrow> Inr (r, s) | None \<Rightarrow> sigaction_any E A signo new oldact s)
          else sigaction_any E A signo new oldact s1)" for s1 :: "'a signals_scheme" and new
    by (auto intro!: calm_if calm_assert calm_seq copy_current_calm sigaction_any_calm
        calm_rbind [OF sigaction_monitored_calm] split: option.splits)
  show ?thesis unfolding handle_app_sigaction_def
    by (auto intro!: calm_assert calm_if calm_pair [OF calm_pair] calm_cong [OF sigaction_read_calm] body)
qed

section \<open>The handlers without executable memory\<close>

text \<open>The numbers of the calls that set protections; a handler that passes on a call of another number is calm.\<close>

abbreviation (input) no_prot_nr :: "u64 \<Rightarrow> bool" where
  "no_prot_nr nr \<equiv> nr \<noteq> NR_mmap \<and> nr \<noteq> NR_mprotect \<and> nr \<noteq> NR_pkey_mprotect"

abbreviation (input) calm_handler :: "'z kern_scheme \<Rightarrow> 'z kern_scheme handler_res \<Rightarrow> bool" where
  "calm_handler s m \<equiv> calm (snd \<circ> snd) s m"

lemma do_syscall_calm:
  assumes "no_prot_nr (REG_RAX g)" "trace s0 = trace s"
  shows "calm_handler s (Inr (r, do_syscall E g s0))"
  using calm_do_syscall [of g s0 s "snd \<circ> snd" "\<lambda>g s. Inr (r, g, s)" E] assms by (simp add: case_prod_unfold)

lemma handler_default_calm: "no_prot_nr (REG_RAX g) \<Longrightarrow> calm_handler s (handler_default E g s)"
  unfolding handler_default_def Let_def by (auto intro!: do_syscall_calm)

lemma handler_arch_prctl_calm: "no_prot_nr (REG_RAX g) \<Longrightarrow> calm_handler s (handler_arch_prctl E g s)"
  unfolding handler_arch_prctl_def Let_def by (auto intro!: do_syscall_calm)

lemma handler_fork_calm: "calm_handler s (handler_fork E A g s)"
  unfolding handler_fork_def Let_def
  by (auto intro!: calm_do_syscall calm_if calm_seq after_fork_calm enable_sud_calm)

lemma handler_clone_calm: "calm_handler s (handler_clone E A g s)"
  unfolding handler_clone_def Let_def
  by (auto intro!: calm_if calm_assert calm_rbind [OF calm_cong [OF handler_fork_calm]])

lemma handler_rt_sigprocmask_calm: "calm_handler s (handler_rt_sigprocmask E A g s)"
  unfolding handler_rt_sigprocmask_def Let_def
  by (auto intro!: calm_assert calm_if calm_pair copy_in_calm set_sigmask_calm calm_seq copy_out_calm simp: sud_defs)

lemma handler_rt_sigaction_calm: "calm_handler s (handler_rt_sigaction E A g s)"
  unfolding handler_rt_sigaction_def by (auto intro!: calm_pair handle_app_sigaction_calm)

text \<open>Reading the arguments of \<open>execve\<close> changes the key register only.\<close>

lemma calm_wrpkru:
  assumes "trace s0 = trace s" "\<And>s1. trace s1 = trace s \<Longrightarrow> calm f s (k s1)"
  shows "calm f s (rbind (internal_wrpkru v s0) k)"
  using assms by (intro calm_pure) (auto simp: internal_wrpkru_eq_Inr)

lemma exec_envp_trace: "exec_envp E lim envp s = Inr (r, s') \<Longrightarrow> trace s' = trace s"
  by (auto simp: exec_envp_def rbind_eq_Inr internal_wrpkru_eq_Inr split: if_splits)

lemma calm_exec_envp:
  assumes "trace s0 = trace s" "\<And>r s1. trace s1 = trace s \<Longrightarrow> calm f s (k (r, s1))"
  shows "calm f s (rbind (exec_envp E lim envp s0) k)"
  using assms by (intro calm_pure) (auto dest: exec_envp_trace)

lemma handler_execve_calm: "calm_handler s (handler_execve E A g s)"
proof -
  note reads = calm_pure [where m = "exec_argc E l a s" for E l a s] calm_pure [where m = "strdup E l a s" for E l a s]
    calm_pure [where m = "copy_strings E l a is s" for E l a "is" s]
  show ?thesis unfolding handler_execve_def Let_def
    by (auto intro!: calm_wrpkru reads calm_inline calm_if calm_exec_envp calm_seq [OF calm_cong [OF thread_list_calm]])
qed

lemma with_mmap_lock_calm: "(\<And>s0. trace s0 = trace s \<Longrightarrow> calm snd s (f s0)) \<Longrightarrow> calm snd s (with_mmap_lock f s)"
  unfolding with_mmap_lock_def by (rule calm_if) (simp, rule calm_pair, auto)

lemma handler_munmap_calm:
  assumes "no_prot_nr (REG_RAX g)"
  shows "calm_handler s (handler_munmap E g s)"
proof -
  have "calm snd s0 (rbind (remove_page E (arg1 g) (arg2 g) TS_APPLICATION s0)
         (\<lambda>(r, s). if r = -1 then Inr (g\<lparr>REG_RAX := - EINVAL\<rparr>, s) else Inr (do_syscall E g s)))" for s0
    using assms calm_do_syscall [of g _ _ snd "\<lambda>g s. Inr (g, s)" E]
    by (intro calm_pair) (auto simp: calm_def [of snd s0] intro: remove_page_emits)
  then show ?thesis unfolding handler_munmap_def
    by (intro calm_pair [OF with_mmap_lock_calm]) (auto intro: calm_cong)
qed

lemma open_stat_mem_emits: "emits (\<lambda>c. \<not> exec_call c) s (open_stat_mem E A s)"
  by (auto simp: open_stat_mem_def syscall_defs Let_def emits_def exec_call_def prot_call_def)

lemma handler_open_calm:
  assumes "no_prot_nr (REG_RAX g)"
  shows "calm_handler s (handler_open E A g s)"
proof -
  have "calm_handler (open_stat_mem E A s) (handler_open E A g s)"
    unfolding handler_open_def Let_def using assms by (auto intro!: calm_do_syscall calm_if calm_inline)
  with open_stat_mem_emits show ?thesis unfolding calm_def by (blast intro: emits_trans)
qed

lemma handler_close_calm: "no_prot_nr (REG_RAX g) \<Longrightarrow> calm_handler s (handler_close E g s)"
  unfolding handler_close_def Let_def by (auto intro!: calm_do_syscall calm_if)

lemma save_fd_pair_calm: "calm_handler s (save_fd_pair E fds dest g s)"
  unfolding save_fd_pair_def Let_def by (auto intro!: calm_if calm_pure dest!: copy_out_state)

lemma handler_pipe_calm: "no_prot_nr k \<Longrightarrow> calm_handler s (handler_pipe E A k g s)"
  "no_prot_nr k \<Longrightarrow> calm_handler s (handler_socketpair E A k g s)"
  unfolding handler_pipe_def handler_socketpair_def Let_def by (auto intro!: calm_inline save_fd_pair_calm)

lemmas handler_calms = handler_default_calm handler_arch_prctl_calm handler_fork_calm handler_clone_calm
  handler_rt_sigprocmask_calm handler_rt_sigaction_calm handler_execve_calm handler_munmap_calm handler_open_calm
  handler_close_calm handler_pipe_calm

section \<open>The handlers for executable memory\<close>

text \<open>What every handler guarantees: executable memory is never asked for together with write permission, and all of its
  pages were scanned without an unsafe instruction during the same call of the application.\<close>

definition exec_ok :: "env \<Rightarrow> 'z kern_scheme \<Rightarrow> 'z kern_scheme \<Rightarrow> bool" where
  "exec_ok E s s' \<longleftrightarrow> emits (\<lambda>c. exec_call c \<longrightarrow> \<not> wx_call c \<and> covered c \<subseteq> clean_in E None s s') s s'"

lemma exec_ok_calm: "emits (\<lambda>c. \<not> exec_call c) s s' \<Longrightarrow> exec_ok E s s'"
  unfolding exec_ok_def by (erule emits_mono) simp

lemma exec_ok_scanned:
  assumes "scanned_run E None pr s s'" "\<not> bit pr 1"
  shows "exec_ok E s s'"
  unfolding exec_ok_def
proof (rule emits_mono [OF assms(1) [unfolded scanned_run_def]], intro impI conjI)
  fix c assume "scanned_call E None pr s s' c" "exec_call c"
  then have c: "sc_a3 c = scast pr" "covered c \<subseteq> clean_in E None s s'" by (simp_all add: scanned_call_def)
  show "\<not> wx_call c" using c(1) assms(2) by (simp add: wx_call_def wx_bits scast_and_bit)
  show "covered c \<subseteq> clean_in E None s s'" by (rule c(2))
qed

lemma exec_ok_cong: "exec_ok E s0 s1 \<Longrightarrow> trace s = trace s0 \<Longrightarrow> trace s' = trace s1 \<Longrightarrow> exec_ok E s s'"
  using clean_in_cong [of s s0 s' s1 E None] by (auto simp: exec_ok_def emits_def)

lemma locked_mmap_exec_ok:
  assumes "with_mmap_lock (secpoline_mmap E a n p fl fd off cid) s = Inr (r, s')"
  shows "exec_ok E s s'"
proof -
  obtain s1 where m: "secpoline_mmap E a n p fl fd off cid (s\<lparr>mmap_lock := True\<rparr>) = Inr (r, s1)" and t: "trace s' = trace s1"
    using assms by (auto simp: with_mmap_lock_def rbind_eq_Inr split: if_splits)
  have "exec_ok E (s\<lparr>mmap_lock := True\<rparr>) s1"
    using secpoline_mmap_run [OF m] by (cases "bit p 1") (auto intro: exec_ok_calm exec_ok_scanned simp: bit_simps)
  then show ?thesis by (rule exec_ok_cong) (simp_all add: t)
qed

lemma handler_mmap_exec_ok: "handler_mmap E g s = Inr (r, g', s') \<Longrightarrow> exec_ok E s s'"
  by (auto simp: handler_mmap_def rbind_eq_Inr intro: locked_mmap_exec_ok)

lemma mark_wx_calm: "calm id s (mark_wx_pages as pr tr s)"
  by (auto simp: calm_def dest: mark_wx_pages_state)

lemma update_mprotect_calm: "calm snd s (update_mprotect E st n pr cid s)"
  by (auto simp: calm_def intro: update_mprotect_emits)

lemma bit_and_not_four: "\<not> bit ((p :: u64) AND - 5) 2"
proof -
  have "(p AND - 5) AND 4 = 0" by (simp add: and.assoc)
  then show ?thesis by (simp add: and_four_zero)
qed

text \<open>The common end of the two handlers: scanning a range after calls that ask for no executable memory.\<close>

lemma scan_after_exec_ok:
  assumes "emits (\<lambda>c. \<not> exec_call c) s s1" "scan_exec_mapping_mprotect E a n pr (pr AND NOT PROT_EXEC) cid None s1 = Inr s'" "\<not> bit pr 1"
  shows "exec_ok E s s'"
  using scanned_run_after [OF assms(1) scan_exec_mapping_mprotect_scanned [OF assms(2) bit_clear_exec]] assms(3) by (rule exec_ok_scanned)

lemma handler_mprotect_exec_ok:
  fixes s :: "'z erim_scheme"
  assumes "handler_mprotect E g s = Inr (r, g', s')"
  shows "exec_ok E s s'"
proof -
  obtain range s0 where l: "lookup_range (arg1 g) (arg2 g) TS_APPLICATION s = Inr (range, s0)"
    using assms by (auto simp: handler_mprotect_def rbind_eq_Inr)
  note t = lookup_range_trace [OF l]
  consider (none) "range = None" | (wx) "range \<noteq> None" "arg3 g AND 4 \<noteq> 0" "arg3 g AND 2 \<noteq> 0"
    | (exec) "range \<noteq> None" "arg3 g AND 4 \<noteq> 0" "arg3 g AND 2 = 0" | (data) "range \<noteq> None" "arg3 g AND 4 = 0"
    by blast
  then show ?thesis
  proof cases
    case none
    with assms l t show ?thesis by (auto simp: handler_mprotect_def intro: exec_ok_calm)
  next
    case wx
    have "calm_handler s0 (handler_mprotect E g s)"
      using l wx by (simp add: handler_mprotect_def Let_def)
        (intro calm_assert calm_untrusted calm_seq [OF calm_if] calm_pair [OF update_mprotect_calm],
          auto intro!: calm_assert mark_wx_calm simp: bit_and_not_four)
    then show ?thesis using assms t by (auto simp: calm_def emits_def intro: exec_ok_calm)
  next
    case exec
    obtain k s1 where k: "do_syscall_untrusted E (arg1 g) (arg2 g) (scast PROT_READ) 0 0 0 NR_mprotect s0 = (k, s1)" by fastforce
    have e: "emits (\<lambda>c. \<not> exec_call c) s0 s1"
      using k unfolding do_syscall_untrusted_def by (rule issue_emits) (simp add: exec_call_def)
    from assms l k exec consider "s' = s1"
      | "scan_exec_mapping_mprotect E (arg1 g) (arg2 g) (ucast (arg3 g)) (ucast (arg3 g) AND NOT PROT_EXEC)
           TS_APPLICATION None s1 = Inr s'"
      by (auto simp: handler_mprotect_def rbind_eq_Inr nolibc_assert_eq_Inr Let_def split: if_splits)
    then have "exec_ok E s0 s'"
    proof cases
      case 1
      with e show ?thesis by (simp add: exec_ok_calm)
    next
      case 2
      have "\<not> bit (ucast (arg3 g) :: c_int) 1" using exec(3) by (simp add: and_two_zero bit_simps)
      with e 2 show ?thesis by (rule scan_after_exec_ok)
    qed
    then show ?thesis using t by (auto intro: exec_ok_cong)
  next
    case data
    have "calm_handler s0 (handler_mprotect E g s)"
      using l data by (simp add: handler_mprotect_def Let_def)
        (intro calm_assert calm_do_syscall calm_pair [OF update_mprotect_calm], auto intro!: calm_assert simp: and_four_zero)
    then show ?thesis using assms t by (auto simp: calm_def emits_def intro: exec_ok_calm)
  qed
qed

text \<open>Memory can only be moved with the protection the page list has for it.\<close>

definition no_wx_pages :: "virt_page list \<Rightarrow> bool" where
  "no_wx_pages ps \<longleftrightarrow> list_all (\<lambda>p. vp_prot p AND PROT_WRITE = 0 \<or> vp_prot p AND PROT_EXEC = 0) ps"

lemma c_int_and_zero: "(p :: c_int) AND PROT_WRITE = 0 \<longleftrightarrow> \<not> bit p 1" "(p :: c_int) AND PROT_EXEC = 0 \<longleftrightarrow> \<not> bit p 2"
  using and_exp_eq_0_iff_not_bit [of p 1] and_exp_eq_0_iff_not_bit [of p 2] by simp_all

lemma lookup_locked_member: "lookup_addr_locked ps a cid = Some p \<Longrightarrow> p \<in> set ps"
  by (induction ps) (auto split: if_splits)

lemma moved_exec_ok:
  assumes run: "(if vp_prot p AND PROT_EXEC \<noteq> 0 then handle_mremap_exec E a old new fl target (vp_prot p) cid s
      else handle_mremap E a old new fl target cid s) = Inr (r, s')"
    and p: "lookup_addr_locked ps a' cid' = Some p" "no_wx_pages ps"
  shows "exec_ok E s s'"
proof (cases "vp_prot p AND PROT_EXEC = 0")
  case True
  with run handle_mremap_quiet [of s E] show ?thesis unfolding quiet_def by (auto intro: exec_ok_calm)
next
  case False
  then have "\<not> bit (vp_prot p) 1"
    using p lookup_locked_member [OF p(1)] by (auto simp: no_wx_pages_def list_all_iff c_int_and_zero)
  with False run show ?thesis by (auto intro: exec_ok_scanned [OF handle_mremap_exec_run])
qed

lemma handler_mremap_exec_ok:
  fixes s :: "'z erim_scheme"
  assumes "handler_mremap E g s = Inr (r, g', s')" "no_wx_pages (pages s)"
  shows "exec_ok E s s'"
proof -
  obtain rpage s0 where l: "lookup_addr (arg1 g) TS_APPLICATION s = Inr (rpage, s0)"
    using assms by (auto simp: handler_mremap_def rbind_eq_Inr)
  note t = lookup_addr_same [OF l]
  consider "s' = s0"
    | p a where "rpage = Some p" "(if vp_prot p AND PROT_EXEC \<noteq> 0
        then handle_mremap_exec E (arg1 g) (arg2 g) (arg3 g) (ucast (arg4 g)) (arg5 g) (vp_prot p) TS_APPLICATION s0
        else handle_mremap E (arg1 g) (arg2 g) (arg3 g) (ucast (arg4 g)) (arg5 g) TS_APPLICATION s0) = Inr (a, s')"
    using assms(1) l by (auto simp: handler_mremap_def rbind_eq_Inr split: option.splits if_splits)
  then have "exec_ok E s0 s'"
    by cases (use t assms(2) in \<open>auto intro: exec_ok_calm moved_exec_ok\<close>)
  then show ?thesis using t by (auto intro: exec_ok_cong)
qed

section \<open>Signal masks\<close>

lemma clear_sig_bit: "unat (sig - 1) = k \<Longrightarrow> k < 64 \<Longrightarrow> bit (clear_sig m sig) i \<longleftrightarrow> bit m i \<and> i \<noteq> k"
  by (auto simp: clear_sig_def bit_simps dest: bit_imp_le_length)

lemma monitor_mask_bit: "bit (monitor_mask m) i \<longleftrightarrow> bit m i \<and> i \<notin> {4, 10, 30}"
  by (simp add: monitor_mask_def clear_sig_bit [of SIGSYS 30] clear_sig_bit [of SIGSEGV 10] clear_sig_bit [of SIGTRAP 4]) blast

section \<open>An example state\<close>

definition demo_monitor :: monitor where
  "demo_monitor = trap.extend (demo_trap [])
     \<lparr>gs_base = 0x70000, fs_base = 0x1234, secure_stack_base = 0x80000, altstack = (0x80000, 0, 0x800000), fake_clone_flag = False,
      child_stack = 0, signal_handlers_ptr = 0x90000, mmap_lock = False, path_to_loader = [108], path_to_secpoline = [115],
      stores = [], sigmasks = [], execs = []\<rparr>"

definition demo_handler_addrs :: handler_addrs where
  "demo_handler_addrs = \<lparr>open_locals = \<lparr>mem_path = 0x100, stat_mem_addr = 0x200, stat_buf_addr = 0x300\<rparr>,
     sig_locals = demo_sig_addrs,
     thread_locals = \<lparr>trap_locals = demo_trap_addrs, new_mask_addr = 0x400, old_mask_addr = 0x500, altstack_addr = 0x600,
       sizeof_handlers = 0x1000, sigfillset_mask = 0xfffffffe7fffffff\<rparr>,
     mask_addr = 0x700, oldset_addr = 0x800, fds_addr = 0x900, loader_ptr = 0xa00, file_ptr = 0xb00, argv_ptr = 0xc00,
     envp_ptr = 0xd00, str_limit = 64\<rparr>"

definition demo_regs :: "u64 \<Rightarrow> u64 \<Rightarrow> u64 \<Rightarrow> u64 \<Rightarrow> gprs" where
  "demo_regs nr a b c = \<lparr>REG_RAX = nr, REG_RDI = a, REG_RSI = b, REG_RDX = c, REG_R10 = 8, REG_R8 = 0, REG_R9 = 0\<rparr>"

lemma demo_monitor_fields:
  "trace demo_monitor = []" "sud_selector demo_monitor = SUD_BLOCK" "fd_map demo_monitor = fd_map demo_signals"
  "pages demo_monitor = [demo_page 4096 4096 1 1, demo_page 65536 4096 3 0]" "pkru demo_monitor = pkru demo_signals"
  "compartment_id demo_monitor = compartment_id demo_signals" "mmap_lock demo_monitor = False" "fs_base demo_monitor = 0x1234"
  "stores demo_monitor = []" "sigmasks demo_monitor = []" "execs demo_monitor = []" "pm_lock demo_monitor = False"
  "path_to_loader demo_monitor = [108]" "path_to_secpoline demo_monitor = [115]"
  by (simp_all add: demo_monitor_def demo_trap_def trap.defs signals.defs demo_sig_defs)

end
