(* ===== verification/HandlersProps.thy ===== *)
theory HandlersProps
  imports HandlersFacts
begin

text \<open>
  Properties of single handlers: the signal masks that reach the kernel, the programs that \<open>execve\<close> starts, and the
  write of \<open>ARCH_GET_FS\<close>.
\<close>

section \<open>Signal masks\<close>

lemma sigfill_bit: "bit nolibc_sigfill_set i \<longleftrightarrow> i < 64 \<and> i \<notin> {4, 10, 30}"
  using monitor_mask_bit [of "-1" i] by (simp add: nolibc_sigfill_set_def monitor_mask_def)

lemma set_sigmask_masks [simp]: "sigmasks (snd (set_sigmask E how m old s)) = (how, map_option snd m) # sigmasks s"
  by (simp add: set_sigmask_def syscall_defs Let_def)

text \<open>
  C8. The application can not block the signals of the monitor. A \<open>rt_sigprocmask\<close> that returns has changed the
  mask at most once, and if it did, with exactly the mask the application stored at the address it passed, except
  that \<open>SIGTRAP\<close> (bit 4), \<open>SIGSEGV\<close> (bit 10) and \<open>SIGSYS\<close> (bit 30) are removed from it.
\<close>

theorem sigprocmask_never_blocks:
  fixes s :: "'z monitor_scheme"
  assumes "handler_rt_sigprocmask E A g s = Inr (r, g', s')"
  shows "sigmasks s' = sigmasks s \<or> (\<exists>m. sigmasks s' = (ucast (arg1 g), m) # sigmasks s \<and> (m = None \<longleftrightarrow> arg2 g = 0) \<and>
    (\<forall>w i. m = Some w \<longrightarrow> bit w i = (bit (word_of_bytes (map (\<lambda>j. mem_at E s (arg2 g + of_nat j)) [0..<8])) i \<and> i \<notin> {4, 10, 30})))"
proof (cases "arg4 g = 8")
  case False
  with assms show ?thesis by (auto simp: handler_rt_sigprocmask_def nolibc_assert_eq_Inr)
next
  case True
  let ?w = "word_of_bytes (map (\<lambda>j. mem_at E s (arg2 g + of_nat j)) [0..<8])"
  have "sigmasks s' = (ucast (arg1 g), if arg2 g = 0 then None else Some (monitor_mask ?w)) # sigmasks s"
    using assms True unfolding handler_rt_sigprocmask_def Let_def case_prod_unfold
    by (auto simp: nolibc_assert_eq_Inr rbind_eq_Inr sud_defs split: if_splits dest!: copy_in_state copy_out_state)
  then show ?thesis by (auto simp: monitor_mask_bit split: if_splits)
qed

section \<open>Starting programs\<close>

lemma strdup_run:
  "strdup E n a s = Inr str \<Longrightarrow> (\<forall>i < length str. str ! i = mem_at E s (a + of_nat i) \<and> str ! i \<noteq> 0) \<and>
     mem_at E s (a + of_nat (length str)) = 0"
proof (induction n arbitrary: a str)
  case (Suc n)
  show ?case
  proof (cases "mem_at E s a = 0")
    case True
    with Suc.prems show ?thesis by (auto split: if_splits)
  next
    case False
    with Suc.prems obtain rest where r: "strdup E n (a + 1) s = Inr rest" "str = mem_at E s a # rest"
      by (auto simp: rbind_eq_Inr split: if_splits)
    from Suc.IH [OF r(1)] False r(2) show ?thesis
      by (auto simp: less_Suc_eq_0_disj add.assoc)
  qed
qed simp

lemma clear_preload_empty: "clear_preload str = preload_name @ EQUALS # v \<Longrightarrow> v = []"
proof -
  let ?eq = "EQUALS"
  let ?name = "takeWhile (\<lambda>c. c \<noteq> ?eq) str"
  have np: "takeWhile (\<lambda>c. c \<noteq> ?eq) (preload_name @ ?eq # v) = preload_name" for v
    by (simp add: preload_name_def)
  assume c: "clear_preload str = preload_name @ ?eq # v"
  show "v = []"
  proof (cases "?name = preload_name \<and> length ?name \<noteq> length str")
    case True
    with c show ?thesis by (auto simp: clear_preload_def Let_def)
  next
    case False
    with c have "str = preload_name @ ?eq # v" by (auto simp: clear_preload_def Let_def split: if_splits)
    with False np [of v] show ?thesis by simp
  qed
qed

lemma exec_envp_cleared:
  "exec_envp E lim envp s = Inr (Some es, s') \<Longrightarrow> e \<in> set es \<Longrightarrow> e = preload_name @ EQUALS # v \<Longrightarrow> v = []"
  by (auto simp: exec_envp_def rbind_eq_Inr dest: clear_preload_empty [OF sym] split: if_splits)

lemma exec_envp_more: "exec_envp E lim envp s = Inr (r, s') \<Longrightarrow> iso.more s' = iso.more s"
  by (auto simp: exec_envp_def rbind_eq_Inr internal_wrpkru_eq_Inr split: if_splits)

lemma close_all_trace: "close_all E bs s = Inr s' \<Longrightarrow> \<exists>t. s' = s\<lparr>trace := t\<rparr>"
proof (induction bs arbitrary: s)
  case Nil
  then show ?case by (auto intro: exI [of _ "trace s"])
next
  case (Cons b bs)
  from Cons.prems show ?case by (auto simp: syscall_defs Let_def nolibc_assert_eq_Inr dest!: Cons.IH)
qed

lemma remove_thread_more:
  assumes "update_active_thread_list E A True s = Inr s'"
  shows "trap.more s' = trap.more s"
  using assms
  by (auto simp: update_active_thread_list_def remove_all_hbreakpoints_def nolibc_gettid_def syscall_defs Let_def nolibc_assert_eq_Inr
      rbind_eq_Inr sud_defs split: if_splits dest!: close_all_trace)

lemma more_monitor: "trap.more (s' :: 'z monitor_scheme) = trap.more s \<Longrightarrow>
    execs s' = execs s \<and> path_to_loader s' = path_to_loader s \<and> path_to_secpoline s' = path_to_secpoline s"
  by (cases s; cases s') simp

lemma iso_more_monitor: "iso.more (s' :: 'z monitor_scheme) = iso.more s \<Longrightarrow>
    execs s' = execs s \<and> path_to_loader s' = path_to_loader s \<and> path_to_secpoline s' = path_to_secpoline s"
  by (cases s; cases s') simp

text \<open>
  C9. Every program the application starts runs under the monitor. An \<open>execve\<close> that returns has either asked
  for nothing, or for one program: the loader, with the monitor and then the application's file as first arguments; the file is
  the zero-terminated string at the address the application passed, and no environment string gives a value to
  \<open>SECPOLINE_LD_PRELOAD\<close>.
\<close>

theorem execve_keeps_monitor:
  fixes s :: "'z monitor_scheme"
  assumes "handler_execve E A g s = Inr (r, g', s')"
  shows "execs s' = execs s \<or> (\<exists>file args envp.
    execs s' = (path_to_loader s # path_to_secpoline s # file # args, envp) # execs s \<and>
    (\<forall>i < length file. file ! i = mem_at E s (arg1 g + of_nat i) \<and> file ! i \<noteq> 0) \<and> mem_at E s (arg1 g + of_nat (length file)) = 0 \<and>
    (\<forall>es e v. envp = Some es \<and> e \<in> set es \<and> e = preload_name @ EQUALS # v \<longrightarrow> v = []))"
proof -
  define s1 where "s1 = s\<lparr>pkru := GRANT_FULL_PERMISSIONS\<rparr>"
  define s2 where "s2 = s\<lparr>pkru := GRANT_TRUSTED_PERMISSIONS\<rparr>"
  obtain k s3 where acc: "inline_syscall6 E NR_access (file_ptr A) 0 0 0 0 0 s2 = (k, s3)" by fastforce
  have s3: "iso.more s3 = iso.more s" using acc by (auto simp: s2_def syscall_defs Let_def)
  have m1: "mem_at E s1 = mem_at E s" by (rule ext) (simp add: s1_def mem_at_def)
  from assms obtain argc fname where f: "strdup E (str_limit A) (arg1 g) s1 = Inr fname"
    and rest: "(if k \<noteq> 0 then Inr (0, g\<lparr>REG_RAX := - ENOTDIR\<rparr>, s3)
       else rbind (internal_wrpkru GRANT_FULL_PERMISSIONS s3)
       (\<lambda>s. rbind (copy_strings E (str_limit A) (arg2 g) [1..<argc] s)
       (\<lambda>args. rbind (internal_wrpkru GRANT_TRUSTED_PERMISSIONS s)
       (\<lambda>s. rbind (exec_envp E (str_limit A) (arg3 g) s)
       (\<lambda>(envp, s). rbind (internal_wrpkru GRANT_TRUSTED_PERMISSIONS s)
       (\<lambda>s. rbind (update_active_thread_list E (trap_locals (thread_locals A)) True s)
       (\<lambda>s. let (res, s) = inline_syscall6 E NR_execve (loader_ptr A) (argv_ptr A) (if envp = None then 0 else envp_ptr A) 0 0 0
                  (s\<lparr>execs := (path_to_loader s # path_to_secpoline s # fname # args, envp) # execs s\<rparr>)
            in Inr (0, g\<lparr>REG_RAX := res\<rparr>, s)))))))) = Inr (r, g', s')"
    using acc by (auto simp: handler_execve_def rbind_eq_Inr internal_wrpkru_eq_Inr s1_def s2_def simp del: if_split_eq1)
  show ?thesis
  proof (cases "k = 0")
    case False
    with rest iso_more_monitor [OF s3] show ?thesis by simp
  next
    case True
    from rest True obtain args envp s4 s5 s6 where
        e: "exec_envp E (str_limit A) (arg3 g) s4 = Inr (envp, s5)" and s4: "iso.more s4 = iso.more s3"
      and u: "update_active_thread_list E (trap_locals (thread_locals A)) True (s5\<lparr>pkru := GRANT_TRUSTED_PERMISSIONS\<rparr>) = Inr s6"
      and x: "execs s' = (path_to_loader s6 # path_to_secpoline s6 # fname # args, envp) # execs s6"
      by (auto simp: rbind_eq_Inr internal_wrpkru_eq_Inr syscall_defs Let_def)
    have "execs s6 = execs s \<and> path_to_loader s6 = path_to_loader s \<and> path_to_secpoline s6 = path_to_secpoline s"
      using more_monitor [OF remove_thread_more [OF u]] iso_more_monitor [OF exec_envp_more [OF e]]
        iso_more_monitor [OF s4] iso_more_monitor [OF s3] by simp
    with x strdup_run [OF f] m1 e show ?thesis by (auto dest: exec_envp_cleared)
  qed
qed

section \<open>The base of the FS segment\<close>

lemma key_trusted: "key_ok GRANT_TRUSTED_PERMISSIONS wr 0" "\<not> key_ok GRANT_TRUSTED_PERMISSIONS wr 2"
  by (simp_all add: key_ok_def)

text \<open>
  \<open>ARCH_GET_FS\<close> trusts the pointer it is given. With the rights the monitor has, the eight bytes of the FS base, a value the
  application can choose with \<open>ARCH_SET_FS\<close>, are written to any writable memory of the monitor the application points at,
  whereas a pointer to memory of the application ends in a fault.
\<close>

theorem arch_get_fs_pointer:
  fixes s :: "'z monitor_scheme"
  assumes "arg1 g = ARCH_GET_FS" "pkru s = GRANT_TRUSTED_PERMISSIONS"
  shows "((\<forall>i < 8. page_key E (trace s) (arg2 g + of_nat i) = 0 \<and> bit (page_perm E (trace s) (arg2 g + of_nat i)) 1) \<longrightarrow>
      handler_arch_prctl E g s = Inr (0, g\<lparr>REG_RAX := 0\<rparr>, s\<lparr>stores := (arg2 g, store64 (fs_base s)) # stores s\<rparr>)) \<and>
    (page_key E (trace s) (arg2 g) = 2 \<longrightarrow> handler_arch_prctl E g s = Inl Segv)"
proof -
  have "range_ok E (trace s) (pkru s) True (arg2 g) 8"
    if "\<forall>i < 8. page_key E (trace s) (arg2 g + of_nat i) = 0 \<and> bit (page_perm E (trace s) (arg2 g + of_nat i)) 1"
    using that assms(2) by (simp add: range_ok_def access_ok_def list_all_iff key_trusted)
  moreover have "\<not> range_ok E (trace s) (pkru s) True (arg2 g) 8" if "page_key E (trace s) (arg2 g) = 2"
    using that assms(2) range_ok_first [of E "trace s" "pkru s" True "arg2 g" 8] by (auto simp: access_ok_def key_trusted)
  ultimately show ?thesis using assms(1) by (auto simp: handler_arch_prctl_def)
qed

section \<open>Examples\<close>

text \<open>Memory where every byte is 255; the first page is the monitor's.\<close>

definition demo_full_env :: env where
  "demo_full_env = \<lparr>kernel = (\<lambda>t. 0), memory = (\<lambda>t a. 0xff), page_perm = (\<lambda>t a. 3),
     page_key = (\<lambda>t a. if a < 4096 then 0 else 2)\<rparr>"

theorem arch_get_fs_pointer_witness:
  "handler_arch_prctl demo_full_env (demo_regs 158 0x1003 0x100 0) demo_monitor =
     Inr (0, demo_regs 0 0x1003 0x100 0, demo_monitor\<lparr>stores := [(0x100, store64 0x1234)]\<rparr>) \<and>
   handler_arch_prctl demo_full_env (demo_regs 158 0x1003 0x5000 0) demo_monitor = Inl Segv"
proof -
  have p: "pkru demo_monitor = GRANT_TRUSTED_PERMISSIONS" by (simp add: demo_monitor_fields demo_sig_defs)
  have i: "(0x100 :: u64) + of_nat i < 4096" if "i < 8" for i
  proof -
    have "i \<in> {0, 1, 2, 3, 4, 5, 6, 7}" using that by auto
    then show ?thesis by auto
  qed
  show ?thesis
    using arch_get_fs_pointer [of "demo_regs 158 0x1003 0x100 0" demo_monitor demo_full_env]
      arch_get_fs_pointer [of "demo_regs 158 0x1003 0x5000 0" demo_monitor demo_full_env] p i
    by (simp add: demo_regs_def demo_full_env_def demo_monitor_fields)
qed

lemma demo_mask_run: "\<exists>s'. handler_rt_sigprocmask demo_full_env demo_handler_addrs (demo_regs 14 2 0x5000 0) demo_monitor
    = Inr (0, demo_regs 0 2 0x5000 0, s') \<and> sigmasks s' \<noteq> sigmasks demo_monitor"
  by (simp add: handler_rt_sigprocmask_def demo_regs_def demo_handler_addrs_def memcpy_untrusted_to_trusted_def is_buffer_untrusted_def
      mpk_check_readonly_def range_ok_def access_ok_def key_ok_def internal_wrpkru_def rdpkru_def page_of_minus demo_full_env_def
      demo_monitor_fields demo_sig_defs set_sigmask_def syscall_defs sud_defs Let_def word_sle_eq upt_rec)

theorem sigprocmask_never_blocks_witness:
  "\<exists>s' w. handler_rt_sigprocmask demo_full_env demo_handler_addrs (demo_regs 14 2 0x5000 0) demo_monitor
     = Inr (0, demo_regs 0 2 0x5000 0, s') \<and> sigmasks s' = [(2, Some w)] \<and> bit w 0 \<and> \<not> bit w 10 \<and> \<not> bit w 30"
proof -
  obtain s' where r: "handler_rt_sigprocmask demo_full_env demo_handler_addrs (demo_regs 14 2 0x5000 0) demo_monitor
      = Inr (0, demo_regs 0 2 0x5000 0, s')" and ch: "sigmasks s' \<noteq> sigmasks demo_monitor"
    using demo_mask_run by blast
  have "bit (word_of_bytes (map (\<lambda>j. mem_at demo_full_env demo_monitor (0x5000 + of_nat j)) [0..<8])) 0"
    by (simp add: mem_at_def demo_full_env_def word_of_bytes_def upt_rec bit_0)
  with sigprocmask_never_blocks [OF r] ch r show ?thesis
    by (auto simp: demo_regs_def demo_monitor_fields)
qed

text \<open>The file \<open>a\<close>, without arguments and environment.\<close>

definition demo_exec_env :: env where
  "demo_exec_env = \<lparr>kernel = (\<lambda>t. if sc_nr (hd t) = NR_gettid then 7 else if sc_nr (hd t) = NR_mmap then 1 else 0),
     memory = (\<lambda>t a. if a = 0x5000 then 97 else 0), page_perm = (\<lambda>t a. 3), page_key = (\<lambda>t a. 2)\<rparr>"

lemma demo_exec_kernel: "kernel demo_exec_env (SCall via sel nr a1 a2 a3 a4 a5 a6 # t) =
    (if nr = NR_gettid then 7 else if nr = NR_mmap then 1 else 0)"
  by (simp add: demo_exec_env_def)

lemma demo_exec_file: "pkru s = GRANT_FULL_PERMISSIONS \<Longrightarrow> strdup demo_exec_env 64 0x5000 s = Inr [97]"
proof -
  assume "pkru s = GRANT_FULL_PERMISSIONS"
  then have "strdup demo_exec_env (Suc (Suc n)) 0x5000 s = Inr [97]" for n
    by (simp add: access_ok_def key_ok_def mem_at_def demo_exec_env_def)
  from this [of 62] show ?thesis by simp
qed

lemma demo_execve_run: "\<exists>g' s'. handler_execve demo_exec_env demo_handler_addrs (demo_regs 59 0x5000 0 0) demo_monitor
    = Inr (0, g', s') \<and> execs s' \<noteq> execs demo_monitor"
proof -
  have "compartment_id demo_monitor = 0" "active_thread_list demo_monitor = [(7, 7)]" "hbreakpoint_sync_mutex demo_monitor = False"
    "controller_thread demo_monitor = 0" "hb demo_monitor = hb_controller_init"
    by (simp_all add: demo_monitor_def demo_trap_def trap.defs signals.defs demo_sig_defs)
  then show ?thesis
    by (simp add: handler_execve_def demo_regs_def demo_handler_addrs_def internal_wrpkru_def exec_argc_def demo_exec_file exec_envp_def
        update_active_thread_list_def remove_element_active_thread_list_def remove_all_hbreakpoints_def nolibc_gettid_def syscall_defs
        sud_defs demo_exec_kernel hb_controller_init_def Let_def)
qed

theorem execve_keeps_monitor_witness:
  "\<exists>g' s' args envp. handler_execve demo_exec_env demo_handler_addrs (demo_regs 59 0x5000 0 0) demo_monitor = Inr (0, g', s') \<and>
     execs s' = [([108] # [115] # args, envp)]"
proof -
  obtain g' s' where r: "handler_execve demo_exec_env demo_handler_addrs (demo_regs 59 0x5000 0 0) demo_monitor = Inr (0, g', s')"
    and ch: "execs s' \<noteq> execs demo_monitor"
    using demo_execve_run by blast
  from execve_keeps_monitor [OF r] ch r show ?thesis by (auto simp: demo_monitor_fields)
qed

end
