(* ===== verification/Table.thy ===== *)
theory Table
  imports Handlers
begin

text \<open>
  The table of handlers and the dispatch of a system call of the application, \<open>src/src/secpoline.cpp\<close> with the groups of
  \<open>src/src/include/syscall_grouping.h\<close>.

  A handler function is a value of \<open>handler\<close>; \<open>run_handler\<close> gives its meaning. The arrays of pre- and
  posthandlers, which end with a null pointer, are lists. A row of the generated list has five places, so a row without a
  null pointer makes the dispatch read the next row: \<open>Inl OutOfBounds\<close>.
\<close>

section \<open>Handlers as data\<close>

datatype handler =
    H_default | H_not_implemented | H_mmap | H_munmap | H_brk | H_mprotect | H_mremap | H_execve | H_execveat
  | H_arch_prctl | H_fork | H_clone | H_rt_sigprocmask | H_rt_sigaction | H_exit | H_exit_group | H_open | H_close
  | H_close_range | H_pipe | H_socketpair | H_save_untrusted_fd | H_fd_first_argument | H_fd_second_argument
  | H_fd_first_second_argument | H_fd_first_third_argument

datatype handler_type = Prehandler | Main_handler | Posthandler | Emulate_later

record syscall_handlers =
  prehandlers :: "handler list"
  main_handler :: handler
  posthandlers :: "handler list"
  is_emulated :: bool

abbreviation (input) MAX_VALID_SYSCALL_NUM :: nat where "MAX_VALID_SYSCALL_NUM \<equiv> 463"
abbreviation (input) MAX_SYSCALL_HANDLER_DEPTH :: nat where "MAX_SYSCALL_HANDLER_DEPTH \<equiv> 2"

definition add_handler :: "nat \<times> handler \<times> handler_type \<Rightarrow> (nat \<Rightarrow> syscall_handlers) \<Rightarrow> (nat \<Rightarrow> syscall_handlers) res" where
  "add_handler reg table =
     (case reg of (syscall_no, func, how) \<Rightarrow>
      nolibc_assert (syscall_no < MAX_VALID_SYSCALL_NUM)
      (let row = table syscall_no in
       case how of
         Main_handler \<Rightarrow> nolibc_assert (main_handler row = H_default) (Inr (table(syscall_no := row\<lparr>main_handler := func\<rparr>)))
       | Prehandler \<Rightarrow> nolibc_assert (length (prehandlers row) < MAX_SYSCALL_HANDLER_DEPTH)
           (Inr (table(syscall_no := row\<lparr>prehandlers := prehandlers row @ [func]\<rparr>)))
       | Posthandler \<Rightarrow> nolibc_assert (length (posthandlers row) < MAX_SYSCALL_HANDLER_DEPTH)
           (Inr (table(syscall_no := row\<lparr>posthandlers := posthandlers row @ [func]\<rparr>)))
       | Emulate_later \<Rightarrow> nolibc_assert (posthandlers row = [] \<and> prehandlers row = [])
           (Inr (table(syscall_no := row\<lparr>is_emulated := True, main_handler := func\<rparr>)))))"

primrec add_handlers :: "(nat \<times> handler \<times> handler_type) list \<Rightarrow> (nat \<Rightarrow> syscall_handlers) \<Rightarrow> (nat \<Rightarrow> syscall_handlers) res" where
  "add_handlers [] table = Inr table"
| "add_handlers (r # rs) table = rbind (add_handler r table) (add_handlers rs)"

section \<open>Groups of system calls\<close>

text \<open>The numbers of the calls in the order of the source.\<close>

definition FD_CREATORS :: "nat list" where
  "FD_CREATORS = [2, 32, 33, 292, 41, 43, 288, 85, 213, 291, 253, 294, 257, 437, 282, 283, 284, 290, 298, 300, 319, 323, 428,
     430, 432, 433, 434, 438, 444, 447, 304]"

definition FD_USERS :: "nat list" where
  "FD_USERS = [32, 0, 1, 3, 5, 8, 16, 17, 18, 19, 20, 42, 43, 288, 44, 45, 46, 47, 49, 50, 51, 52, 72, 73, 74, 75, 77, 78, 81, 91,
     93, 138, 313, 187, 196, 199, 221, 254, 255, 257, 437, 258, 259, 260, 261, 262, 268, 452, 269, 439, 277, 278, 280, 282,
     289, 285, 286, 287, 295, 296, 327, 328, 301, 303, 306, 308, 322, 332, 424, 426, 427, 428, 431, 432, 433, 442, 443, 445,
     446, 448, 451, 263, 48, 304, 232, 281, 441, 54, 55, 190, 193, 267, 299, 307]"

definition FD_USERS_SECOND_ARGUMENT :: "nat list" where
  "FD_USERS_SECOND_ARGUMENT = [266, 440]"

definition FD_USERS_FIRST_SECOND_ARGUMENT :: "nat list" where
  "FD_USERS_FIRST_SECOND_ARGUMENT = [33, 292, 40, 276, 320, 429, 438]"

definition FD_USERS_FIRST_THIRD_ARGUMENT :: "nat list" where
  "FD_USERS_FIRST_THIRD_ARGUMENT = [264, 316, 265, 275, 326, 233]"

definition NOT_IMPLEMENTED :: "nat list" where
  "NOT_IMPLEMENTED = [15, 329, 331, 334, 321, 209, 310, 311, 317, 278, 323, 272, 435, 131, 298]"

definition main_registrations :: "(nat \<times> handler) list" where
  "main_registrations = [(3, H_close), (436, H_close_range), (22, H_pipe), (293, H_pipe), (53, H_socketpair)]
     @ map (\<lambda>n. (n, H_not_implemented)) NOT_IMPLEMENTED
     @ [(2, H_open), (257, H_open), (437, H_open), (304, H_open), (57, H_fork), (58, H_fork), (9, H_mmap), (11, H_munmap),
        (12, H_brk), (10, H_mprotect), (25, H_mremap), (59, H_execve), (322, H_execveat), (158, H_arch_prctl),
        (157, H_arch_prctl), (14, H_rt_sigprocmask), (13, H_rt_sigaction), (60, H_exit), (231, H_exit_group)]"

definition pre_registrations :: "(nat \<times> handler) list" where
  "pre_registrations = map (\<lambda>n. (n, H_fd_first_argument)) FD_USERS
     @ map (\<lambda>n. (n, H_fd_second_argument)) FD_USERS_SECOND_ARGUMENT
     @ map (\<lambda>n. (n, H_fd_first_second_argument)) FD_USERS_FIRST_SECOND_ARGUMENT
     @ map (\<lambda>n. (n, H_fd_first_third_argument)) FD_USERS_FIRST_THIRD_ARGUMENT"

definition registrations :: "(nat \<times> handler \<times> handler_type) list" where
  "registrations = map (\<lambda>n. (n, H_save_untrusted_fd, Posthandler)) FD_CREATORS
     @ map (\<lambda>(n, h). (n, h, Prehandler)) pre_registrations
     @ map (\<lambda>(n, h). (n, h, Main_handler)) main_registrations
     @ [(56, H_clone, Emulate_later)]"

definition empty_row :: syscall_handlers where
  "empty_row = \<lparr>prehandlers = [], main_handler = H_default, posthandlers = [], is_emulated = False\<rparr>"

definition initialise_syscall_handlers :: "(nat \<Rightarrow> syscall_handlers) res" where
  "initialise_syscall_handlers = add_handlers registrations (\<lambda>_. empty_row)"

section \<open>Dispatch\<close>

definition generate_2d_handler_list :: "(nat \<Rightarrow> syscall_handlers) \<Rightarrow> nat \<Rightarrow> handler list" where
  "generate_2d_handler_list table syscall_no =
     prehandlers (table syscall_no) @ [main_handler (table syscall_no)] @ posthandlers (table syscall_no)"

definition run_handler :: "env \<Rightarrow> handler_addrs \<Rightarrow> u64 \<Rightarrow> handler \<Rightarrow> gprs \<Rightarrow> 'z monitor_scheme \<Rightarrow> 'z monitor_scheme handler_res" where
  "run_handler E A syscall_no h g s = (case h of
     H_default \<Rightarrow> handler_default E g s
   | H_not_implemented \<Rightarrow> handler_not_implemented g s
   | H_mmap \<Rightarrow> handler_mmap E g s
   | H_munmap \<Rightarrow> handler_munmap E g s
   | H_brk \<Rightarrow> handler_brk g s
   | H_mprotect \<Rightarrow> handler_mprotect E g s
   | H_mremap \<Rightarrow> handler_mremap E g s
   | H_execve \<Rightarrow> handler_execve E A g s
   | H_execveat \<Rightarrow> handler_execveat g s
   | H_arch_prctl \<Rightarrow> handler_arch_prctl E g s
   | H_fork \<Rightarrow> handler_fork E A g s
   | H_clone \<Rightarrow> handler_clone E A g s
   | H_rt_sigprocmask \<Rightarrow> handler_rt_sigprocmask E A g s
   | H_rt_sigaction \<Rightarrow> handler_rt_sigaction E A g s
   | H_exit \<Rightarrow> handler_exit g s
   | H_exit_group \<Rightarrow> handler_exit_group E g s
   | H_open \<Rightarrow> handler_open E (open_locals A) g s
   | H_close \<Rightarrow> handler_close E g s
   | H_close_range \<Rightarrow> handler_close_range g s
   | H_pipe \<Rightarrow> handler_pipe E A syscall_no g s
   | H_socketpair \<Rightarrow> handler_socketpair E A syscall_no g s
   | H_save_untrusted_fd \<Rightarrow> handler_save_untrusted_fd g s
   | H_fd_first_argument \<Rightarrow> handler_fd_first_argument g s
   | H_fd_second_argument \<Rightarrow> handler_fd_second_argument g s
   | H_fd_first_second_argument \<Rightarrow> handler_fd_first_second_argument g s
   | H_fd_first_third_argument \<Rightarrow> handler_fd_first_third_argument g s)"

text \<open>All handlers of the row run, whatever they return; the result is that of the last one.\<close>

primrec run_row :: "env \<Rightarrow> handler_addrs \<Rightarrow> u64 \<Rightarrow> handler list \<Rightarrow> u64 \<times> gprs \<times> 'z monitor_scheme \<Rightarrow> 'z monitor_scheme handler_res" where
  "run_row E A syscall_no [] rgs = Inr rgs"
| "run_row E A syscall_no (h # hs) rgs =
     rbind (run_handler E A syscall_no h (fst (snd rgs)) (snd (snd rgs))) (run_row E A syscall_no hs)"

definition secpoline_syscall_handler :: "env \<Rightarrow> handler_addrs \<Rightarrow> (nat \<Rightarrow> handler list) \<Rightarrow> gprs \<Rightarrow> 'z monitor_scheme
    \<Rightarrow> 'z monitor_scheme handler_res" where
  "secpoline_syscall_handler E A handler_list g s =
     (let syscall_no = REG_RAX g in
      nolibc_assert (syscall_no <s of_nat MAX_VALID_SYSCALL_NUM)
      (if syscall_no <s 0 then Inl OutOfBounds
       else let row = handler_list (unat syscall_no) in
         if length row > MAX_SYSCALL_HANDLER_DEPTH * 2 then Inl OutOfBounds
         else rbind (run_row E A syscall_no row (0, g, s))
           (\<lambda>(ret, g, s). Inr (scast (ucast ret :: c_int), g, s))))"

section \<open>The rows of the table\<close>

text \<open>What the registrations mean, call by call.\<close>

definition row_spec :: "nat \<Rightarrow> syscall_handlers" where
  "row_spec n = \<lparr>prehandlers = (case map_of pre_registrations n of None \<Rightarrow> [] | Some h \<Rightarrow> [h]),
     main_handler = (if n = 56 then H_clone else case map_of main_registrations n of None \<Rightarrow> H_default | Some h \<Rightarrow> h),
     posthandlers = (if n \<in> set FD_CREATORS then [H_save_untrusted_fd] else []), is_emulated = (n = 56)\<rparr>"

end
