(* ===== verification/TableProps.thy ===== *)
theory TableProps
  imports Table HandlersFacts
begin

text \<open>
  The table of handlers has exactly the handlers of the groups, and what follows for the dispatch: the calls that are refused, the
  checks of descriptors, and the scan of all memory that becomes executable.
\<close>

section \<open>The table is built without a failed assertion\<close>

lemmas reg_defs = pre_registrations_def main_registrations_def FD_USERS_def FD_USERS_SECOND_ARGUMENT_def
  FD_USERS_FIRST_SECOND_ARGUMENT_def FD_USERS_FIRST_THIRD_ARGUMENT_def NOT_IMPLEMENTED_def FD_CREATORS_def

lemma registrations_distinct:
  "distinct (map fst pre_registrations)" "distinct (map fst main_registrations)" "distinct FD_CREATORS"
  by (simp_all add: reg_defs)

lemma registrations_valid:
  "list_all (\<lambda>r. fst r < 463) pre_registrations" "list_all (\<lambda>r. fst r < 463) main_registrations"
  "list_all (\<lambda>n. n < 463) FD_CREATORS"
  by (simp_all add: reg_defs)

lemma clone_unregistered: "56 \<notin> fst ` set pre_registrations" "56 \<notin> fst ` set main_registrations" "56 \<notin> set FD_CREATORS"
  by (simp_all add: reg_defs)

lemma add_handlers_append: "add_handlers (xs @ ys) T = rbind (add_handlers xs T) (add_handlers ys)"
  by (induction xs arbitrary: T) (auto simp: rbind_def split: sum.split)

text \<open>A block of registrations of one kind for calls that have none of that kind yet.\<close>

definition put_row :: "handler_type \<Rightarrow> handler \<Rightarrow> syscall_handlers \<Rightarrow> syscall_handlers" where
  "put_row how h row = (case how of Prehandler \<Rightarrow> row\<lparr>prehandlers := [h]\<rparr> | Main_handler \<Rightarrow> row\<lparr>main_handler := h\<rparr>
     | Posthandler \<Rightarrow> row\<lparr>posthandlers := [h]\<rparr> | Emulate_later \<Rightarrow> row\<lparr>is_emulated := True, main_handler := h\<rparr>)"

definition row_free :: "handler_type \<Rightarrow> syscall_handlers \<Rightarrow> bool" where
  "row_free how row = (case how of Prehandler \<Rightarrow> prehandlers row = [] | Main_handler \<Rightarrow> main_handler row = H_default
     | Posthandler \<Rightarrow> posthandlers row = [] | Emulate_later \<Rightarrow> prehandlers row = [] \<and> posthandlers row = [])"

definition put_all :: "handler_type \<Rightarrow> (nat \<times> handler) list \<Rightarrow> (nat \<Rightarrow> syscall_handlers) \<Rightarrow> nat \<Rightarrow> syscall_handlers" where
  "put_all how ps T n = (case map_of ps n of None \<Rightarrow> T n | Some h \<Rightarrow> put_row how h (T n))"

lemma add_handler_put:
  "n < 463 \<Longrightarrow> row_free how (T n) \<Longrightarrow> add_handler (n, h, how) T = Inr (T(n := put_row how h (T n)))"
  by (cases how) (simp_all add: add_handler_def row_free_def put_row_def Let_def)

lemma add_handlers_block:
  "distinct (map fst ps) \<Longrightarrow> list_all (\<lambda>r. fst r < 463) ps \<Longrightarrow> (\<And>n. n \<in> fst ` set ps \<Longrightarrow> row_free how (T n)) \<Longrightarrow>
     add_handlers (map (\<lambda>(n, h). (n, h, how)) ps) T = Inr (put_all how ps T)"
proof (induction ps arbitrary: T)
  case Nil
  have "put_all how [] T = T" by (rule ext) (simp add: put_all_def)
  then show ?case by simp
next
  case (Cons p ps)
  obtain n h where p: "p = (n, h)" by (cases p)
  let ?T = "T(n := put_row how h (T n))"
  have "add_handler (n, h, how) T = Inr ?T" using Cons.prems p by (intro add_handler_put) auto
  moreover have "add_handlers (map (\<lambda>(n, h). (n, h, how)) ps) ?T = Inr (put_all how ps ?T)"
    using Cons.prems p by (intro Cons.IH) auto
  moreover have "put_all how ps ?T = put_all how (p # ps) T"
    using Cons.prems(1) p map_of_eq_None_iff [of ps n]
    by (intro ext) (auto simp: put_all_def split: option.splits)
  ultimately show ?case by (simp add: p)
qed

lemma table_built: "\<exists>T. initialise_syscall_handlers = Inr T \<and> (\<forall>n. T n = row_spec n)"
proof -
  let ?c = "map (\<lambda>n. (n, H_save_untrusted_fd)) FD_CREATORS"
  let ?T0 = "\<lambda>_ :: nat. empty_row"
  let ?T1 = "put_all Posthandler ?c ?T0"
  let ?T2 = "put_all Prehandler pre_registrations ?T1"
  let ?T3 = "put_all Main_handler main_registrations ?T2"
  have 1: "add_handlers (map (\<lambda>(n, h). (n, h, Posthandler)) ?c) ?T0 = Inr ?T1"
    using registrations_distinct(3) registrations_valid(3)
    by (intro add_handlers_block) (simp_all add: row_free_def empty_row_def comp_def list_all_iff)
  have 2: "add_handlers (map (\<lambda>(n, h). (n, h, Prehandler)) pre_registrations) ?T1 = Inr ?T2"
    by (intro add_handlers_block registrations_distinct registrations_valid)
       (simp add: row_free_def put_all_def put_row_def empty_row_def split: option.split)
  have 3: "add_handlers (map (\<lambda>(n, h). (n, h, Main_handler)) main_registrations) ?T2 = Inr ?T3"
    by (intro add_handlers_block registrations_distinct registrations_valid)
       (simp add: row_free_def put_all_def put_row_def empty_row_def split: option.split)
  have none: "map_of pre_registrations 56 = None" "map_of main_registrations 56 = None" "map_of ?c 56 = None"
    using clone_unregistered by (auto simp: map_of_eq_None_iff)
  have 4: "add_handler (56, H_clone, Emulate_later) ?T3 = Inr (?T3(56 := put_row Emulate_later H_clone (?T3 56)))"
    by (rule add_handler_put) (simp_all add: none put_all_def row_free_def empty_row_def)
  have "initialise_syscall_handlers = Inr (?T3(56 := put_row Emulate_later H_clone (?T3 56)))"
    using 1 2 3 4 by (simp add: initialise_syscall_handlers_def registrations_def add_handlers_append comp_def)
  moreover have "(?T3(56 := put_row Emulate_later H_clone (?T3 56))) n = row_spec n" for n
  proof -
    have "map_of ?c n = (if n \<in> set FD_CREATORS then Some H_save_untrusted_fd else None)"
      by (auto simp: map_of_eq_None_iff map_of_map_restrict restrict_map_def)
    then show ?thesis
      using none by (auto simp: put_all_def put_row_def row_spec_def empty_row_def split: option.splits)
  qed
  ultimately show ?thesis by blast
qed

text \<open>
  C13. The registrations at start-up never fail an assertion and give every system call exactly the handlers of
  its groups: at most one prehandler, one main handler and at most one posthandler, so every row of the generated list
  ends with a null pointer. The only emulated call is \<open>clone\<close>.
\<close>

theorem table_rows:
  "\<exists>T. initialise_syscall_handlers = Inr T \<and> (\<forall>n. T n = row_spec n \<and>
     generate_2d_handler_list T n = prehandlers (row_spec n) @ [main_handler (row_spec n)] @ posthandlers (row_spec n) \<and>
     length (generate_2d_handler_list T n) \<le> 3)"
  using table_built by (fastforce simp: generate_2d_handler_list_def row_spec_def split: option.split)

section \<open>Dispatch\<close>

lemma table_row: "initialise_syscall_handlers = Inr T \<Longrightarrow> generate_2d_handler_list T n = generate_2d_handler_list row_spec n"
proof -
  assume "initialise_syscall_handlers = Inr T"
  with table_built have "T n = row_spec n" by (metis sum.inject(2))
  then show ?thesis by (simp add: generate_2d_handler_list_def)
qed

lemma row_short: "length (generate_2d_handler_list row_spec n) \<le> 3"
  by (simp add: generate_2d_handler_list_def row_spec_def split: option.split)

text \<open>Dispatch with the table of the start-up: the row runs and its last result is returned.\<close>

lemma dispatch_row:
  fixes s :: "'z monitor_scheme"
  assumes T: "initialise_syscall_handlers = Inr T" and n: "REG_RAX g = of_nat n" "n < 463"
  shows "secpoline_syscall_handler E A (generate_2d_handler_list T) g s =
     rbind (run_row E A (of_nat n) (generate_2d_handler_list row_spec n) (0, g, s))
       (\<lambda>(ret, g, s). Inr (scast (ucast ret :: c_int), g, s))"
proof -
  have u: "unat (of_nat n :: u64) = n" using n(2) by (simp add: unat_of_nat take_bit_nat_eq_self)
  have "of_nat n <s (463 :: u64) \<and> \<not> (of_nat n :: u64) <s 0"
  proof -
    have "sint (of_nat n :: u64) = int n"
      using n(2) by (simp add: signed_of_nat signed_take_bit_int_eq_self)
    then show ?thesis using n(2) by (simp add: word_sless_alt)
  qed
  then show ?thesis
    using u row_short [of n] n(1) table_row [OF T]
    by (simp add: secpoline_syscall_handler_def Let_def)
qed

lemma blocked_registered:
  "list_all (\<lambda>n. n \<noteq> 56 \<and> n < 463 \<and> map_of main_registrations n \<in> Some ` {H_not_implemented, H_brk, H_execveat} \<and>
     map_of pre_registrations n \<in> {None, Some H_fd_first_argument}) (NOT_IMPLEMENTED @ [12, 322])"
  by (simp add: reg_defs)

lemma blocked_main: "n \<in> set (NOT_IMPLEMENTED @ [12, 322]) \<Longrightarrow>
    main_handler (row_spec n) \<in> {H_not_implemented, H_brk, H_execveat} \<and>
    prehandlers (row_spec n) \<in> {[], [H_fd_first_argument]} \<and> n < 463"
  using blocked_registered unfolding list_all_iff row_spec_def by fastforce

text \<open>
  C6. The calls the monitor refuses - among them \<open>rt_sigreturn\<close>, \<open>pkey_mprotect\<close>, \<open>pkey_free\<close>, \<open>process_vm_writev\<close>,
  \<open>seccomp\<close>, \<open>sigaltstack\<close>, \<open>clone3\<close> and \<open>perf_event_open\<close> - answer \<open>-ENOSYS\<close>, are not emulated, make no system call
  and leave the state of the monitor as it was, although prehandlers and posthandlers of their groups run as well.
\<close>

theorem blocked_calls:
  fixes s :: "'z monitor_scheme"
  assumes "initialise_syscall_handlers = Inr T" "REG_RAX g = of_nat n"
    and "n \<in> {15, 329, 331, 334, 321, 209, 310, 311, 317, 278, 323, 272, 435, 131, 298, 12, 322}"
  shows "\<exists>g'. secpoline_syscall_handler E A (generate_2d_handler_list T) g s = Inr (0, g', s) \<and> REG_RAX g' = - ENOSYS"
proof -
  have n: "n \<in> set (NOT_IMPLEMENTED @ [12, 322])" using assms(3) by (auto simp: NOT_IMPLEMENTED_def)
  have post: "posthandlers (row_spec n) \<in> {[], [H_save_untrusted_fd]}" by (simp add: row_spec_def)
  have neg: "(ucast (- ENOSYS) :: c_int) <s 0" by (simp add: word_sless_alt)
  from blocked_main [OF n] post dispatch_row [OF assms(1,2), of E A s] neg show ?thesis
    by (auto simp: generate_2d_handler_list_def run_handler_def handler_not_implemented_def handler_brk_def handler_execveat_def
        handler_save_untrusted_fd_def handler_fd_first_argument_def Let_def)
qed

theorem blocked_calls_witness:
  "\<exists>T g'. initialise_syscall_handlers = Inr T \<and> secpoline_syscall_handler demo_map_env demo_handler_addrs
     (generate_2d_handler_list T) (demo_regs 329 4096 4096 7) demo_monitor = Inr (0, g', demo_monitor) \<and> REG_RAX g' = - ENOSYS"
proof -
  obtain T where T: "initialise_syscall_handlers = Inr T" using table_built by blast
  with blocked_calls [OF T, of "demo_regs 329 4096 4096 7" 329 demo_map_env demo_handler_addrs demo_monitor] show ?thesis
    by (auto simp: demo_regs_def)
qed

section \<open>Descriptors\<close>

text \<open>What a call of a group with descriptor arguments may carry: a descriptor of the application in every checked
  argument, or an invalid first argument.\<close>

definition app_fd :: "u64 \<Rightarrow> u8 list \<Rightarrow> bool" where
  "app_fd a m \<longleftrightarrow> fd_read_bit (scast (ucast a :: c_int)) m"

definition fd_guarded :: "nat \<Rightarrow> u8 list \<Rightarrow> scall \<Rightarrow> bool" where
  "fd_guarded n m c \<longleftrightarrow>
     (if n \<in> set FD_USERS then (ucast (sc_a1 c) :: c_int) <s 0 \<or> app_fd (sc_a1 c) m
      else sc_a1 c = -1 \<or>
        (if n \<in> set FD_USERS_SECOND_ARGUMENT then app_fd (sc_a2 c) m
         else if n \<in> set FD_USERS_FIRST_SECOND_ARGUMENT then app_fd (sc_a1 c) m \<and> app_fd (sc_a2 c) m
         else app_fd (sc_a1 c) m \<and> app_fd (sc_a3 c) m))"

definition fd_calls :: "nat list" where
  "fd_calls = FD_USERS @ FD_USERS_SECOND_ARGUMENT @ FD_USERS_FIRST_SECOND_ARGUMENT @ FD_USERS_FIRST_THIRD_ARGUMENT"

lemma fd_calls_fst: "map fst pre_registrations = fd_calls"
  by (simp add: pre_registrations_def fd_calls_def comp_def)

lemma fd_calls_distinct: "distinct fd_calls"
  using registrations_distinct(1) by (simp add: fd_calls_fst)

lemma fd_calls_main:
  "list_all (\<lambda>(n, h). h \<in> {H_not_implemented, H_close, H_open, H_execveat} \<or> n \<notin> set fd_calls) main_registrations"
  "list_all (\<lambda>(n, h). n = 2 \<or> h = H_open \<longrightarrow> n \<noteq> 3 \<and> n \<noteq> 5) main_registrations"
  "2 \<notin> set fd_calls"
  by (simp_all add: reg_defs fd_calls_def)

lemma fd_calls_pre:
  assumes "n \<in> set fd_calls"
  shows "map_of pre_registrations n = Some (if n \<in> set FD_USERS then H_fd_first_argument
        else if n \<in> set FD_USERS_SECOND_ARGUMENT then H_fd_second_argument
        else if n \<in> set FD_USERS_FIRST_SECOND_ARGUMENT then H_fd_first_second_argument
        else H_fd_first_third_argument)"
  using assms by (intro map_of_is_SomeI registrations_distinct) (auto simp: pre_registrations_def fd_calls_def)

lemma fd_calls_valid: "n \<in> set fd_calls \<Longrightarrow> n \<noteq> 56 \<and> n < 463"
  using clone_unregistered(1) registrations_valid(1) unfolding fd_calls_fst [symmetric] list_all_iff by force

lemma fd_calls_registered:
  assumes "n \<in> set fd_calls"
  shows "main_handler (row_spec n) \<in> {H_default, H_not_implemented, H_close, H_open, H_execveat}"
    and "main_handler (row_spec n) = H_open \<Longrightarrow> n \<noteq> 2 \<and> n \<noteq> 3 \<and> n \<noteq> 5"
    and "\<exists>h. prehandlers (row_spec n) = [h]"
  using fd_calls_main fd_calls_pre [OF assms] fd_calls_valid [OF assms] assms
  by (auto simp: list_all_iff row_spec_def split: option.splits dest!: map_of_SomeD)

text \<open>The prehandlers establish the guard for the registers and change nothing else.\<close>

lemma prehandler_guards:
  fixes s :: "'z monitor_scheme"
  assumes "n \<in> set fd_calls" "run_handler E A k (hd (prehandlers (row_spec n))) g s = Inr (r, g', s')"
  shows "s' = s \<and> REG_RAX g' = REG_RAX g \<and>
     fd_guarded n (fd_map s) (SCall via sel nr (arg1 g') (arg2 g') (arg3 g') a4 a5 a6)"
proof -
  note fd_calls_pre [OF assms(1)]
  moreover have "(ucast (-1 :: u64) :: c_int) <s 0" by (simp add: word_sless_alt unsigned_minus_1_eq_mask mask_eq_exp_minus_1)
  ultimately show ?thesis using assms(2)
    by (auto simp: row_spec_def run_handler_def handler_fd_first_argument_def handler_fd_second_argument_def
        handler_fd_first_second_argument_def handler_fd_first_third_argument_def fd_guarded_def app_fd_def fd_refused_def Let_def
        split: if_splits)
qed

lemma do_syscall_call:
  "do_syscall E g s = (g', s') \<Longrightarrow> emits (\<lambda>c. c = SCall Untrusted (sud_selector s) (REG_RAX g) (arg1 g) (arg2 g) (arg3 g) (arg4 g) (arg5 g) (arg6 g)) s s'"
  by (auto simp: do_syscall_def do_syscall_untrusted_def issue_def Let_def emits_def)

text \<open>The main handlers of these calls pass on the registers; what \<open>open\<close> asks besides are calls of other numbers.\<close>

lemma main_handler_passes:
  fixes s :: "'z monitor_scheme"
  assumes h: "h \<in> {H_default, H_not_implemented, H_close, H_open, H_execveat}"
    and other: "h = H_open \<Longrightarrow> REG_RAX g \<noteq> 2 \<and> REG_RAX g \<noteq> 3 \<and> REG_RAX g \<noteq> 5"
    and run: "run_handler E A k h g s = Inr (r, g', s')"
    and P: "\<And>sel. P (SCall Untrusted sel (REG_RAX g) (arg1 g) (arg2 g) (arg3 g) (arg4 g) (arg5 g) (arg6 g))"
  shows "emits (\<lambda>c. sc_nr c = REG_RAX g \<longrightarrow> P c) s s'"
  using h other run P
  by (auto simp: run_handler_def handler_default_def handler_not_implemented_def handler_close_def handler_open_def handler_execveat_def
      open_stat_mem_def do_syscall_def syscall_defs Let_def emits_def split: if_splits)

text \<open>
  C5. Descriptors of the monitor stay its own: whatever a system call of the descriptor groups runs, every call of that number
  that reaches the kernel has in all of its checked arguments descriptors that the bitmap marks as the application's, or its first
  argument is no descriptor at all.
\<close>

theorem fd_calls_guarded:
  fixes s :: "'z monitor_scheme"
  assumes "initialise_syscall_handlers = Inr T" "REG_RAX g = of_nat n" "n \<in> set fd_calls"
    and "secpoline_syscall_handler E A (generate_2d_handler_list T) g s = Inr (r, g', s')"
  shows "emits (\<lambda>c. sc_nr c = of_nat n \<longrightarrow> fd_guarded n (fd_map s) c) s s'"
proof -
  let ?h = "hd (prehandlers (row_spec n))" and ?m = "main_handler (row_spec n)"
  have row: "generate_2d_handler_list row_spec n = ?h # ?m # posthandlers (row_spec n)"
    using fd_calls_registered(3) [OF assms(3)] by (auto simp: generate_2d_handler_list_def)
  note m = fd_calls_registered [OF assms(3)] and valid = fd_calls_valid [OF assms(3)]
  from assms(4) have "rbind (run_row E A (of_nat n) (?h # ?m # posthandlers (row_spec n)) (0, g, s))
      (\<lambda>(ret, g, s). Inr (scast (ucast ret :: c_int), g, s)) = Inr (r, g', s')"
    using dispatch_row [OF assms(1,2), of E A s] valid row by simp
  then obtain r1 g1 s1 r2 g2 s2 r3
    where pre: "run_handler E A (of_nat n) ?h g s = Inr (r1, g1, s1)"
      and main: "run_handler E A (of_nat n) ?m g1 s1 = Inr (r2, g2, s2)"
      and post: "run_row E A (of_nat n) (posthandlers (row_spec n)) (r2, g2, s2) = Inr (r3, g', s')"
    by (auto simp: rbind_eq_Inr)
  have un: "unat (of_nat n :: u64) = n" using valid by (intro unat_of_nat_small) simp
  have "trace s' = trace s2"
    using post by (auto simp: row_spec_def run_handler_def handler_save_untrusted_fd_def rbind_eq_Inr Let_def split: if_splits)
  moreover have "emits (\<lambda>c. sc_nr c = REG_RAX g1 \<longrightarrow> fd_guarded n (fd_map s) c) s1 s2"
    using prehandler_guards [OF assms(3) pre] assms(2) m(2) un
    by (intro main_handler_passes [OF m(1) _ main]) auto
  ultimately show ?thesis
    using prehandler_guards [OF assms(3) pre] assms(2) by (auto intro: emits_cong)
qed

text \<open>\<open>read\<close> of a descriptor that is not the application's.\<close>

lemma demo_read_run:
  "\<exists>g' s'. run_row E A 0 (generate_2d_handler_list row_spec 0) (0, demo_regs 0 5 0 0, demo_monitor) = Inr (0, g', s')"
proof -
  have "generate_2d_handler_list row_spec 0 = [H_fd_first_argument, H_default]"
    by (simp add: generate_2d_handler_list_def row_spec_def reg_defs)
  then show ?thesis
    by (simp add: run_handler_def handler_fd_first_argument_def handler_default_def Let_def case_prod_unfold)
qed

theorem fd_calls_guarded_witness:
  "\<exists>T g' s'. initialise_syscall_handlers = Inr T \<and> secpoline_syscall_handler demo_map_env demo_handler_addrs
     (generate_2d_handler_list T) (demo_regs 0 5 0 0) demo_monitor = Inr (0, g', s') \<and>
     emits (\<lambda>c. sc_nr c = 0 \<longrightarrow> (ucast (sc_a1 c) :: c_int) <s 0 \<or> app_fd (sc_a1 c) [7]) demo_monitor s'"
proof -
  obtain T where T: "initialise_syscall_handlers = Inr T" using table_built by blast
  obtain g' s' where r: "secpoline_syscall_handler demo_map_env demo_handler_addrs
     (generate_2d_handler_list T) (demo_regs 0 5 0 0) demo_monitor = Inr (0, g', s')"
    using demo_read_run [of demo_map_env demo_handler_addrs] dispatch_row [OF T, of "demo_regs 0 5 0 0" 0 demo_map_env demo_handler_addrs demo_monitor]
    by (auto simp: demo_regs_def)
  have m: "fd_map demo_monitor = [7]" by (simp add: demo_monitor_fields demo_sig_defs)
  have n: "0 \<in> set FD_USERS" by (simp add: FD_USERS_def)
  from fd_calls_guarded [OF T _ _ r, of 0] n have "emits (\<lambda>c. sc_nr c = 0 \<longrightarrow> fd_guarded 0 (fd_map demo_monitor) c) demo_monitor s'"
    by (simp add: demo_regs_def fd_calls_def)
  with T r n m show ?thesis by (auto simp: fd_guarded_def)
qed

section \<open>Executable memory\<close>

lemma plain_handlers:
  "handler_not_implemented g s = Inr (r, g', s') \<longleftrightarrow> r = 0 \<and> g' = g\<lparr>REG_RAX := - ENOSYS\<rparr> \<and> s' = s"
  "handler_brk g s = Inr (r, g', s') \<longleftrightarrow> r = 0 \<and> g' = g\<lparr>REG_RAX := - ENOSYS\<rparr> \<and> s' = s"
  "handler_execveat g s = Inr (r, g', s') \<longleftrightarrow> r = 0 \<and> g' = g\<lparr>REG_RAX := - ENOSYS\<rparr> \<and> s' = s"
  "handler_exit g s \<noteq> Inr x" "handler_exit_group E g t \<noteq> Inr y" "handler_close_range g f \<noteq> Inr z"
  by (auto simp: handler_not_implemented_def handler_brk_def handler_execveat_def handler_exit_def handler_exit_group_def
      handler_close_range_def Let_def case_prod_unfold)

definition fd_handlers :: "handler set" where
  "fd_handlers = {H_save_untrusted_fd, H_fd_first_argument, H_fd_second_argument, H_fd_first_second_argument, H_fd_first_third_argument}"

lemma fd_handler_frame:
  fixes s :: "'z monitor_scheme"
  assumes "h \<in> fd_handlers" "run_handler E A k h g s = Inr (r, g', s')"
  shows "trace s' = trace s \<and> pages s' = pages s \<and> REG_RAX g' = REG_RAX g"
  using assms
  by (auto simp: fd_handlers_def run_handler_def handler_save_untrusted_fd_def handler_fd_first_argument_def
      handler_fd_second_argument_def handler_fd_first_second_argument_def handler_fd_first_third_argument_def rbind_eq_Inr Let_def
      split: if_splits)

lemma run_handler_exec_ok:
  fixes s :: "'z monitor_scheme"
  assumes run: "run_handler E A k h g s = Inr (r, g', s')" and wx: "no_wx_pages (pages s)"
    and nr: "h \<in> {H_mmap, H_mprotect, H_not_implemented} \<or> no_prot_nr (REG_RAX g) \<and> no_prot_nr k"
  shows "exec_ok E s s'"
proof -
  consider (mem) "h \<in> {H_mmap, H_mprotect, H_mremap}"
    | (plain) "h \<in> {H_not_implemented, H_brk, H_execveat, H_exit, H_exit_group, H_close_range}" | (fd) "h \<in> fd_handlers"
    | (other) "h \<notin> {H_mmap, H_mprotect, H_mremap} \<union> {H_not_implemented, H_brk, H_execveat, H_exit, H_exit_group, H_close_range} \<union> fd_handlers"
    by blast
  then show ?thesis
  proof cases
    case mem
    with run wx show ?thesis
      by (auto simp: run_handler_def intro: handler_mmap_exec_ok handler_mprotect_exec_ok handler_mremap_exec_ok)
  next
    case plain
    with run have "trace s' = trace s" by (auto simp: run_handler_def plain_handlers)
    then show ?thesis by (simp add: exec_ok_calm)
  next
    case fd
    from fd_handler_frame [OF this run] show ?thesis by (simp add: exec_ok_calm)
  next
    case other
    with nr have k: "no_prot_nr (REG_RAX g) \<and> no_prot_nr k" by auto
    have "calm_handler s (run_handler E A k h g s)"
      using other by (cases h) (simp_all add: run_handler_def fd_handlers_def handler_calms k)
    from calmD [OF this run] show ?thesis by (simp add: exec_ok_calm)
  qed
qed

lemma prot_calls_registered:
  "main_handler (row_spec 9) = H_mmap" "main_handler (row_spec 10) = H_mprotect" "main_handler (row_spec 329) = H_not_implemented"
  by (simp_all add: row_spec_def reg_defs)

lemma row_fd_handlers: "set (prehandlers (row_spec n)) \<subseteq> fd_handlers" "set (posthandlers (row_spec n)) \<subseteq> fd_handlers"
proof -
  have "snd ` set pre_registrations \<subseteq> fd_handlers" by (auto simp: pre_registrations_def fd_handlers_def)
  then show "set (prehandlers (row_spec n)) \<subseteq> fd_handlers"
    by (auto simp: row_spec_def split: option.splits) (metis image_subset_iff map_of_SomeD snd_conv)
qed (auto simp: row_spec_def fd_handlers_def)

lemma fd_row_frame:
  fixes s :: "'z monitor_scheme"
  assumes "set hs \<subseteq> fd_handlers" "run_row E A k hs (r0, g, s) = Inr (r, g', s')"
  shows "trace s' = trace s \<and> pages s' = pages s \<and> REG_RAX g' = REG_RAX g"
  using assms
proof (induction hs arbitrary: r0 g s)
  case (Cons h hs)
  then obtain r1 g1 s1 where h: "run_handler E A k h g s = Inr (r1, g1, s1)"
    and rest: "run_row E A k hs (r1, g1, s1) = Inr (r, g', s')" by (auto simp: rbind_eq_Inr)
  from fd_handler_frame [OF _ h] Cons.IH [OF _ rest] Cons.prems(1) show ?case by simp
qed simp

lemma run_row_append: "run_row E A k (hs @ hs') x = rbind (run_row E A k hs x) (run_row E A k hs')"
  by (induction hs arbitrary: x) (auto simp: rbind_def split: sum.split)


lemma demo_monitor_mmap:
  "\<exists>s'. secpoline_mmap demo_map_env 0 4096 5 34 (-1) 0 1 (demo_monitor\<lparr>mmap_lock := True\<rparr>) = Inr (0x20000, s')"
  by (simp add: mmap_run_defs page_addrs_one scan_exec_mapping_def erim_memScanRegion_def scan_prev_page_def
      scan_next_page_def lookup_addr_def scan_result_def update_unsafe_page_def add_group_def
      demo_monitor_def demo_trap_def trap.defs signals.defs demo_sig_defs)

definition demo_mmap_regs :: gprs where
  "demo_mmap_regs = (demo_regs 9 0 4000 5)\<lparr>REG_R10 := 34, REG_R8 := -1\<rparr>"

lemma demo_mmap_row: "\<exists>r s'. run_row demo_map_env A 9 (generate_2d_handler_list row_spec 9) (0, demo_mmap_regs, demo_monitor) = Inr (0, r, s')"
proof -
  have row: "generate_2d_handler_list row_spec 9 = [H_mmap]"
    by (simp add: generate_2d_handler_list_def row_spec_def reg_defs)
  have "align_size 4000 = 4096" by (simp add: align_size_def)
  moreover have "(ucast (- 1 :: u64) :: c_int) = - 1" by (rule bit_word_eqI) (simp add: bit_simps)
  ultimately show ?thesis using demo_monitor_mmap
    by (auto simp: row run_handler_def handler_mmap_def with_mmap_lock_def demo_monitor_fields demo_mmap_regs_def demo_regs_def)
qed


end
