(* ===== verification/Zpoline.thy ===== *)
theory Zpoline
  imports SignalsProps
begin

text \<open>
  The page at address 0, \<open>src/src/syscall_monitor/zpoline.cpp\<close>. A rewritten system call is \<open>call *%rax\<close> with the number of the call in
  RAX, so it lands at one of the first 512 bytes; from there the bytes that \<open>init_zpoline\<close> writes lead to
  \<open>syscall_hook_entry\<close>.

  The instructions that matter are given a meaning in \<open>cpu_step\<close>: the short jump, the two no-operations, the push, the load of a constant, the
  indirect jump and the indirect call. Every other byte sequence is \<open>None\<close>.
\<close>

section \<open>Building the page\<close>

definition sled_byte :: "nat \<Rightarrow> u8" where
  "sled_byte i =
     (if i \<ge> 0x19b then (if i mod 2 = 0 then 0x66 else 0x90)
      else if i mod 3 = 0 then 0xeb else if i mod 3 = 1 then 0x66 else 0x90)"

abbreviation (input) num_syscalls :: nat where "num_syscalls \<equiv> 512"

definition fill_sled :: "u8 list \<Rightarrow> u8 list" where
  "fill_sled zeropage = fold (\<lambda>i z. z[i := sled_byte i]) [0..<num_syscalls] zeropage"

text \<open>\<open>push %rax; movabs syscall_hook_entry, %rax; jmpq *%rax\<close>\<close>

definition hook_code :: "addr \<Rightarrow> u8 list" where
  "hook_code hook = [0x50, 0x48, 0xb8] @ store64 hook @ [0xff, 0xe0]"

definition put_hook :: "addr \<Rightarrow> u8 list \<Rightarrow> u8 list" where
  "put_hook hook zeropage =
     fold (\<lambda>i z. z[num_syscalls + i := hook_code hook ! i]) [0..<length (hook_code hook)] zeropage"

text \<open>The fresh page is zero. A failed \<open>mmap\<close> ends the program.\<close>

definition init_zpoline :: "env \<Rightarrow> addr \<Rightarrow> 'z kern_scheme \<Rightarrow> (u8 list \<times> 'z kern_scheme) res" where
  "init_zpoline E hook s =
     (let (zeropage, s) = inline_syscall6 E NR_mmap 0 0x1000 3 0x32 (-1) 0 s in
      if zeropage = -1 then Inl Exit
      else
        let z = put_hook hook (fill_sled (replicate 4096 0));
            (r, s) = inline_syscall6 E NR_mprotect zeropage 0x1000 5 0 0 0 s
        in nolibc_assert (r = 0) (Inr (z, s)))"

section \<open>Running it\<close>

record cpu =
  cpu_rip :: u64
  cpu_rax :: u64
  cpu_stack :: "u64 list"

definition cpu_step :: "(addr \<Rightarrow> u8) \<Rightarrow> cpu \<Rightarrow> cpu option" where
  "cpu_step code c =
     (let ip = cpu_rip c; b = code ip; b1 = code (ip + 1) in
      if b = 0xeb then Some (c\<lparr>cpu_rip := ip + 2 + scast b1\<rparr>)
      else if b = 0x90 then Some (c\<lparr>cpu_rip := ip + 1\<rparr>)
      else if b = 0x66 \<and> b1 = 0x90 then Some (c\<lparr>cpu_rip := ip + 2\<rparr>)
      else if b = 0x50 then Some (c\<lparr>cpu_rip := ip + 1, cpu_stack := cpu_rax c # cpu_stack c\<rparr>)
      else if b = 0x48 \<and> b1 = 0xb8
        then Some (c\<lparr>cpu_rip := ip + 10, cpu_rax := word_of_bytes (map (\<lambda>i. code (ip + 2 + of_nat i)) [0..<8])\<rparr>)
      else if b = 0xff \<and> b1 = 0xe0 then Some (c\<lparr>cpu_rip := cpu_rax c\<rparr>)
      else if b = 0xff \<and> b1 = 0xd0 then Some (c\<lparr>cpu_rip := cpu_rax c, cpu_stack := (ip + 2) # cpu_stack c\<rparr>)
      else None)"

primrec cpu_run :: "nat \<Rightarrow> (addr \<Rightarrow> u8) \<Rightarrow> cpu \<Rightarrow> cpu option" where
  "cpu_run 0 code c = Some c"
| "cpu_run (Suc k) code c = (case cpu_step code c of None \<Rightarrow> None | Some c' \<Rightarrow> cpu_run k code c')"

text \<open>Memory whose first page holds the given bytes.\<close>

definition page_loaded :: "u8 list \<Rightarrow> (addr \<Rightarrow> u8) \<Rightarrow> bool" where
  "page_loaded z code \<longleftrightarrow> list_all (\<lambda>i. code (of_nat i) = z ! i) [0..<length z]"

section \<open>The bytes of the page\<close>


lemma fold_put_length: "length (fold (\<lambda>i z. z[f i := g i]) is z) = length z"
  by (induction "is" arbitrary: z) simp_all

lemma fold_put_nth:
  assumes "n + k \<le> length z"
  shows "fold (\<lambda>i z. z[k + i := g i]) [0..<n] z ! j = (if k \<le> j \<and> j < k + n then g (j - k) else z ! j)"
  using assms by (induction n) (auto simp: fold_put_length nth_list_update)

definition zero_page :: "addr \<Rightarrow> u8 list" where
  "zero_page hook = put_hook hook (fill_sled (replicate 4096 0))"

lemma hook_code_length [simp]: "length (hook_code hook) = 13"
  by (simp add: hook_code_def store64_def)

lemma zero_page_sled: "i < 512 \<Longrightarrow> zero_page hook ! i = sled_byte i"
  using fold_put_nth [of 512 0 "replicate 4096 0" sled_byte i]
  by (simp add: zero_page_def put_hook_def fill_sled_def fold_put_nth fold_put_length)

lemma zero_page_hook: "i < 13 \<Longrightarrow> zero_page hook ! (512 + i) = hook_code hook ! i"
  by (simp add: zero_page_def put_hook_def fill_sled_def fold_put_nth fold_put_length)

lemma zero_page_length [simp]: "length (zero_page hook) = 4096"
  by (simp add: zero_page_def put_hook_def fill_sled_def fold_put_length)

lemma loaded_byte: "page_loaded (zero_page hook) code \<Longrightarrow> i < 4096 \<Longrightarrow> code (of_nat i) = zero_page hook ! i"
  by (simp add: page_loaded_def list_all_iff)

section \<open>The sled\<close>

definition sled_next :: "nat \<Rightarrow> nat" where
  "sled_next i = (if i \<ge> 411 then (if i mod 2 = 0 then i + 2 else i + 1)
     else if i mod 3 = 0 then i + 104 else if i mod 3 = 1 then i + 2 else i + 1)"

lemma sled_next_bounds:
  assumes "i < 512"
  shows "i < sled_next i \<and> sled_next i \<le> 512"
proof -
  have "i \<noteq> 511" if "i mod 2 = 0" using that by auto
  moreover have "i \<noteq> 409 \<and> i \<noteq> 410" if "i mod 3 = 0" using that by auto
  ultimately show ?thesis using assms by (auto simp: sled_next_def)
qed

lemma sled_step:
  assumes "page_loaded (zero_page hook) code" "i < 512"
  shows "cpu_step code (c\<lparr>cpu_rip := of_nat i\<rparr>) = Some (c\<lparr>cpu_rip := of_nat (sled_next i)\<rparr>)"
proof -
  have b: "code (of_nat i) = sled_byte i" using assms by (simp add: loaded_byte zero_page_sled)
  have b1: "code (of_nat i + 1) = sled_byte (Suc i)" if "i < 511"
    using loaded_byte [OF assms(1), of "Suc i"] that zero_page_sled [of "Suc i" hook] by (simp add: add.commute)
  have "i \<ge> 411 \<and> i mod 2 = 0 \<and> i < 511 \<and> Suc i mod 2 = 1 \<or> i \<ge> 411 \<and> i mod 2 = 1
    \<or> i < 411 \<and> i mod 3 = 0 \<and> Suc i < 411 \<and> Suc i mod 3 = 1 \<or> i < 411 \<and> i mod 3 = 1 \<and> Suc i < 411 \<and> Suc i mod 3 = 2
    \<or> i < 411 \<and> i mod 3 = 2"
    using assms(2) by (cases "i = 410"; cases "i = 511") (auto simp: mod_Suc)
  then show ?thesis
    by (elim disjE conjE; simp add: cpu_step_def Let_def b b1 sled_byte_def sled_next_def)
qed

lemma cpu_run_add: "cpu_run (j + k) code c = (case cpu_run j code c of None \<Rightarrow> None | Some c' \<Rightarrow> cpu_run k code c')"
  by (induction j arbitrary: c) (auto split: option.split)

lemma sled_run:
  assumes "page_loaded (zero_page hook) code" "i \<le> 512"
  shows "\<exists>k \<le> 512 - i. cpu_run k code (c\<lparr>cpu_rip := of_nat i\<rparr>) = Some (c\<lparr>cpu_rip := 512\<rparr>)"
  using assms(2)
proof (induction "512 - i" arbitrary: i rule: less_induct)
  case less
  show ?case
  proof (cases "i = 512")
    case True
    then show ?thesis by (intro exI [of _ 0]) simp
  next
    case False
    with less.prems have i: "i < 512" by simp
    note n = sled_next_bounds [OF i]
    have "512 - sled_next i < 512 - i" using n i by arith
    from less.hyps [OF this] n obtain k where "k \<le> 512 - sled_next i"
      "cpu_run k code (c\<lparr>cpu_rip := of_nat (sled_next i)\<rparr>) = Some (c\<lparr>cpu_rip := 512\<rparr>)" by blast
    with n i show ?thesis by (intro exI [of _ "Suc k"]) (auto simp: sled_step [OF assms(1) i])
  qed
qed

text \<open>The code behind the sled.\<close>

lemma hook_bytes:
  assumes "page_loaded (zero_page hook) code"
  shows "code 512 = 0x50" "code 513 = 0x48" "code 514 = 0xb8" "code 523 = 0xff" "code 524 = 0xe0"
    and "map (\<lambda>i. code (515 + of_nat i)) [0..<8] = store64 hook"
proof -
  have b: "code (of_nat (512 + i)) = hook_code hook ! i" if "i < 13" for i
    using loaded_byte [OF assms, of "512 + i"] zero_page_hook [OF that, of hook] that by simp
  show "code 512 = 0x50" "code 513 = 0x48" "code 514 = 0xb8"
    using b [of 0] b [of 1] b [of 2] by (simp_all add: hook_code_def)
  show "code 523 = 0xff" "code 524 = 0xe0"
    using b [of 11] b [of 12] by (simp_all add: hook_code_def nth_append store64_def)
  show "map (\<lambda>i. code (515 + of_nat i)) [0..<8] = store64 hook"
  proof (rule nth_equalityI)
    fix i assume "i < length (map (\<lambda>i. code (515 + of_nat i)) [0..<8])"
    then have i: "i < 8" by simp
    then show "map (\<lambda>i. code (515 + of_nat i)) [0..<8] ! i = store64 hook ! i"
      using b [of "3 + i"] by (simp add: hook_code_def nth_append store64_def)
  qed (simp add: store64_def)
qed

lemma hook_run:
  assumes "page_loaded (zero_page hook) code"
  shows "cpu_run 3 code (c\<lparr>cpu_rip := 512\<rparr>) = Some (c\<lparr>cpu_rip := hook, cpu_rax := hook, cpu_stack := cpu_rax c # cpu_stack c\<rparr>)"
  using hook_bytes [OF assms] by (simp add: numeral_3_eq_3 cpu_step_def Let_def)

end
