(* ===== verification/Sud.thy ===== *)
theory Sud
  imports Threads Zpoline
begin

text \<open>
  Syscall user dispatch, \<open>src/src/syscall_monitor/sud.cpp\<close>: the handler of the signal that an application's system call raises, the
  rewriting of the instruction, and the start of the dispatch.

  The saved registers are arguments and results of the handler. The bytes the code stores to other memory than its own variables are recorded in
  \<open>stores\<close>; what it reads there is the memory of the environment. \<open>hook\<close> is the address of \<open>syscall_hook_entry\<close>, \<open>sud_locals\<close> gives addresses of local
  variables.
\<close>

record dispatch = monitor +
  rewrite_lock :: bool
  vdso_pages :: "(addr \<times> c_int) option"

record sud_locals =
  empty_set_addr :: addr
  block_mask_addr :: addr
  saved_mask_addr :: addr
  sud_action_addr :: addr
  unblock_mask_addr :: addr
  dfl_addr :: addr
  libc_restorer :: addr
  libc_restorer_flag :: u64
  init_threads :: thread_addrs

abbreviation (input) SYS_USER_DISPATCH :: c_int where "SYS_USER_DISPATCH \<equiv> 2"

text \<open>\<open>addr >= start && addr < start + len\<close>; the constructor asserts that the start is aligned and not null.\<close>

definition vdso_contains :: "addr \<Rightarrow> 'z dispatch_scheme \<Rightarrow> bool res" where
  "vdso_contains a s =
     (case vdso_pages s of
        None \<Rightarrow> Inl NullDeref
      | Some (start, len) \<Rightarrow> nolibc_assert (start \<noteq> 0 \<and> page_aligned start) (Inr (start \<le> a \<and> a < start + scast len)))"

text \<open>\<open>*syscall_addr\<close>, a 16-bit word in little-endian order.\<close>

definition load16 :: "(addr \<Rightarrow> u8) \<Rightarrow> addr \<Rightarrow> 16 word" where
  "load16 m a = ucast (m a) OR push_bit 8 (ucast (m (a + 1)))"

section \<open>Rewriting a system call\<close>

text \<open>\<open>if(*syscall_addr==0x050F) *syscall_addr = 0xD0FF;\<close> The processor checks both accesses.\<close>

definition patch_syscall :: "env \<Rightarrow> addr \<Rightarrow> 'z monitor_scheme \<Rightarrow> 'z monitor_scheme res" where
  "patch_syscall E a s =
     (if \<not> range_ok E (trace s) (pkru s) False a 2 then Inl Segv
      else if load16 (mem_at E s) a \<noteq> 0x050F then Inr s
      else if range_ok E (trace s) (pkru s) True a 2 then Inr (s\<lparr>stores := (a, [0xFF, 0xD0]) # stores s\<rparr>)
      else Inl Segv)"

text \<open>The lock is released on every return. The mask of all signals is set around the change of the page, and the old one restored.\<close>

definition rewrite_syscall_inst :: "env \<Rightarrow> sud_locals \<Rightarrow> addr \<Rightarrow> u8 \<Rightarrow> 'z dispatch_scheme \<Rightarrow> 'z dispatch_scheme res" where
  "rewrite_syscall_inst E L syscall_addr compartment_id_on_entry s =
     (let syscall_page = page_of syscall_addr; app = (compartment_id_on_entry = ucast TS_APPLICATION) in
      if rewrite_lock s then Inl Deadlock
      else
        let s = s\<lparr>rewrite_lock := True\<rparr> in
        rbind (if app then mpk_check_readonly E syscall_addr GRANT_TRUSTED_PERMISSIONS s
               else internal_wrpkru GRANT_TRUSTED_PERMISSIONS s)
        (\<lambda>s.
          let page_pkey = (if app then scast UNTRUSTED_MPKEY else scast SECPOLINE_MPKEY);
              (r, s) = set_sigmask E 2 (Some (block_mask_addr L, -1)) (saved_mask_addr L) s in
          nolibc_assert (r = 0)
          (let (r, s) = inline_syscall6 E NR_pkey_mprotect syscall_page 0x1000 7 (scast SECPOLINE_MPKEY) 0 0 s in
           nolibc_assert (r = 0)
           (rbind (patch_syscall E syscall_addr s)
           (\<lambda>s. let (r, s) = inline_syscall6 E NR_pkey_mprotect syscall_page 0x1000 5 page_pkey 0 0 s in
            nolibc_assert (r = 0)
            (let (r, s) = set_sigmask E 2 (Some (saved_mask_addr L, load64 (mem_at E s) (saved_mask_addr L))) 0 s in
             nolibc_assert (r = 0)
             (rbind (internal_wrpkru GRANT_TRUSTED_PERMISSIONS s) (\<lambda>s. Inr (s\<lparr>rewrite_lock := False\<rparr>)))))))))"

section \<open>The signal handler\<close>

record sud_info =
  si_code :: c_int
  si_signo :: c_int
  si_errno :: c_int
  si_call_addr :: addr
  si_syscall :: c_int

text \<open>Two words are pushed on the stack of the interrupted code: with the rights of the application if it was interrupted, else directly.\<close>

definition push_frame :: "env \<Rightarrow> bool \<Rightarrow> addr \<Rightarrow> u64 \<Rightarrow> u64 \<Rightarrow> 'z monitor_scheme \<Rightarrow> 'z monitor_scheme res" where
  "push_frame E app sp ip ax s =
     (let s' = s\<lparr>stores := (sp, store64 ax) # (sp + 8, store64 ip) # stores s\<rparr> in
      if app
      then nolibc_assert (compartment_id s = ucast TS_MONITOR)
        (if range_ok E (trace s) REVOKE_PERMISSIONS True (sp + 8) 8 \<and> range_ok E (trace s) REVOKE_PERMISSIONS True sp 8
         then Inr (s'\<lparr>pkru := GRANT_TRUSTED_PERMISSIONS\<rparr>) else Inl Segv)
      else if range_ok E (trace s) (pkru s) True (sp + 8) 8 \<and> range_ok E (trace s) (pkru s) True sp 8
      then Inr s' else Inl Segv)"

definition handle_sigsys :: "env \<Rightarrow> sud_locals \<Rightarrow> addr \<Rightarrow> c_int \<Rightarrow> sud_info \<Rightarrow> ucontext_regs \<Rightarrow> u8 \<Rightarrow> 'z dispatch_scheme
    \<Rightarrow> (ucontext_regs \<times> 'z dispatch_scheme) res" where
  "handle_sigsys E L hook sig info u compartment_id_on_entry s =
     nolibc_assert (compartment_id s = ucast TS_MONITOR \<and> si_code info = SYS_USER_DISPATCH \<and> sig = SIGSYS \<and>
       si_signo info = SIGSYS \<and> si_errno info = 0)
     (let (r, s) = set_sigmask E 2 (Some (empty_set_addr L, 0)) 0 s in
      nolibc_assert (r = 0)
      (let syscall_addr = si_call_addr info - 2 in
       rbind (vdso_contains syscall_addr s)
       (\<lambda>in_vdso. rbind (if in_vdso then Inr s else rewrite_syscall_inst E L syscall_addr compartment_id_on_entry s)
       (\<lambda>s. nolibc_assert (uc_REG_RAX u = scast (si_syscall info))
         (let sp = uc_REG_RSP u - 16 in
          rbind (push_frame E (compartment_id_on_entry = ucast TS_APPLICATION) sp (uc_REG_RIP u) (uc_REG_RAX u) s)
          (\<lambda>s. Inr (u\<lparr>uc_REG_RSP := sp, uc_REG_RIP := hook\<rparr>, s\<lparr>compartment_id := compartment_id_on_entry\<rparr>)))))))"

section \<open>Start\<close>

definition prepare_signal_mask :: "env \<Rightarrow> sud_locals \<Rightarrow> 'z monitor_scheme \<Rightarrow> 'z monitor_scheme" where
  "prepare_signal_mask E L s =
     snd (set_sigmask E 1 (Some (unblock_mask_addr L, push_bit 30 1 OR push_bit 10 1 OR push_bit 4 1)) 0 s)"

text \<open>What the C library adds to an action is an argument. The table of handlers is set up by its constructor (\<open>signal_handlers_init\<close>), whose loop needs the answers of the kernel for every signal.\<close>

definition init_sud :: "env \<Rightarrow> sud_locals \<Rightarrow> addr \<Rightarrow> 'z monitor_scheme \<Rightarrow> 'z monitor_scheme res" where
  "init_sud E L entry s =
     rbind (setup_secure_stack E s)
     (\<lambda>(base, s). rbind (map_gsrel_region E base s)
     (\<lambda>(gs, s). rbind (map_signal_handlers E (init_threads L) (set_sud_allow s))
     (\<lambda>(handlers, s). rbind (signal_handlers_init E (dfl_addr L) (s\<lparr>signal_handlers_ptr := handlers\<rparr>))
     (\<lambda>s. rbind (setup_altstack E (init_threads L) s)
     (\<lambda>s. let (r, s) = nolibc_rt_sigaction E SIGSYS (Some (sud_action_addr L,
                  \<lparr>k_sa_handler = entry, sa_flags = SA_SIGINFO OR SA_ONSTACK OR SA_NODEFER OR libc_restorer_flag L,
                    sa_restorer = libc_restorer L, sa_mask = sigfillset_mask (init_threads L)\<rparr>)) 0 s in
        nolibc_assert (r = 0) (Inr (prepare_signal_mask E L s)))))))"

end
