(* ===== verification/EntryProps.thy ===== *)
theory EntryProps
  imports Sud HandlersFacts
begin

text \<open>
  How a system call of the application reaches the monitor: through the rewritten instruction and the page at address 0, or through the signal of
  syscall user dispatch. Both arrive at the same entry point with the same two words on the stack.
\<close>

section \<open>The rewritten instruction\<close>

lemma init_zpoline_page: "init_zpoline E hook s = Inr (z, s') \<Longrightarrow> z = zero_page hook"
  by (auto simp: init_zpoline_def zero_page_def nolibc_assert_eq_Inr Let_def split: prod.splits if_splits)

lemma rewritten_run:
  assumes z: "page_loaded (zero_page hook) code" and n: "n < 512" and b: "code site = 0xff" "code (site + 1) = 0xd0"
    and c: "cpu_rip c = site" "cpu_rax c = of_nat n"
  shows "\<exists>k \<le> 516. cpu_run k code c = Some (c\<lparr>cpu_rip := hook, cpu_rax := hook, cpu_stack := of_nat n # (site + 2) # cpu_stack c\<rparr>)"
proof -
  let ?c1 = "c\<lparr>cpu_stack := (site + 2) # cpu_stack c\<rparr>"
  have call: "cpu_step code c = Some (?c1\<lparr>cpu_rip := of_nat n\<rparr>)" using b c by (simp add: cpu_step_def Let_def)
  obtain k where k: "k \<le> 512 - n" "cpu_run k code (?c1\<lparr>cpu_rip := of_nat n\<rparr>) = Some (?c1\<lparr>cpu_rip := 512\<rparr>)"
    using sled_run [OF z, of n ?c1] n by auto
  have "cpu_run (Suc (k + 3)) code c = Some (c\<lparr>cpu_rip := hook, cpu_rax := hook, cpu_stack := of_nat n # (site + 2) # cpu_stack c\<rparr>)"
    unfolding cpu_run.simps(2) cpu_run_add using call k(2) hook_run [OF z, of ?c1] c by simp
  then show ?thesis using k(1) by (intro exI [of _ "Suc (k + 3)"]) simp
qed

text \<open>
  C26. The rewritten call always arrives. Once \<open>init_zpoline\<close> has built the page at address 0, executing \<open>call *%rax\<close> with any system call number
  below 512 in RAX reaches \<open>syscall_hook_entry\<close> after at most 516 instructions, with the number and below it the return address pushed on the stack.
\<close>

theorem sled_reaches_hook:
  assumes "init_zpoline E hook s = Inr (z, s')" "page_loaded z code" "n < 512" "code site = 0xff" "code (site + 1) = 0xd0"
    and "cpu_rip c = site" "cpu_rax c = of_nat n"
  shows "\<exists>k \<le> 516. cpu_run k code c = Some (c\<lparr>cpu_rip := hook, cpu_rax := hook, cpu_stack := of_nat n # (site + 2) # cpu_stack c\<rparr>)"
  using rewritten_run [OF _ assms(3-7)] assms(1,2) init_zpoline_page by blast

definition demo_code :: "addr \<Rightarrow> u8" where
  "demo_code a = (if a = 0x5000 then 0xff else if a = 0x5001 then 0xd0 else if a < 4096 then zero_page 0x12345678 ! unat a else 0)"

lemma demo_code_loaded: "page_loaded (zero_page 0x12345678) demo_code"
proof -
  have "demo_code (of_nat i) = zero_page 0x12345678 ! i" if "i < 4096" for i
  proof -
    have u: "unat (of_nat i :: u64) = i" using that by (intro unat_of_nat_small) simp
    then have "(of_nat i :: u64) < 4096" using that by (simp add: word_less_nat_alt)
    moreover from this have "(of_nat i :: u64) \<noteq> 0x5000" "(of_nat i :: u64) \<noteq> 0x5001" by auto
    ultimately show ?thesis using u by (simp add: demo_code_def)
  qed
  then show ?thesis by (simp add: page_loaded_def list_all_iff)
qed

definition demo_ok_env :: env where
  "demo_ok_env = \<lparr>kernel = (\<lambda>t. 0), memory = (\<lambda>t a. if a = 0x5000 then 0x0f else if a = 0x5001 then 0x05 else 0), page_perm = (\<lambda>t a. 3),
     page_key = (\<lambda>t a. if t \<noteq> [] \<and> sc_nr (hd t) = NR_pkey_mprotect \<and> sc_a3 (hd t) = 7 then 0 else 2)\<rparr>"

definition demo_cpu :: cpu where
  "demo_cpu = \<lparr>cpu_rip = 0x5000, cpu_rax = 39, cpu_stack = []\<rparr>"

lemma demo_zpoline: "\<exists>s'. init_zpoline demo_ok_env 0x12345678 \<lparr>trace = [], sud_selector = SUD_ALLOW\<rparr> = Inr (zero_page 0x12345678, s')"
  by (simp add: init_zpoline_def demo_ok_env_def syscall_defs zero_page_def Let_def)

theorem sled_reaches_hook_witness:
  "\<exists>k. cpu_run k demo_code demo_cpu = Some \<lparr>cpu_rip = 0x12345678, cpu_rax = 0x12345678, cpu_stack = [39, 0x5002]\<rparr>"
proof -
  obtain s' where z: "init_zpoline demo_ok_env 0x12345678 \<lparr>trace = [], sud_selector = SUD_ALLOW\<rparr> = Inr (zero_page 0x12345678, s')"
    using demo_zpoline by blast
  from sled_reaches_hook [OF z demo_code_loaded, where n = 39 and site = "0x5000" and c = demo_cpu] show ?thesis
    by (auto simp: demo_code_def demo_cpu_def)
qed

section \<open>Rewriting\<close>

lemma load16_bytes:
  assumes "load16 m a = 0x050F"
  shows "m a = 0x0F" "m (a + 1) = 0x05"
proof -
  have "(ucast (load16 m a) :: u8) = m a"
    by (rule bit_word_eqI) (auto simp: load16_def bit_simps)
  then show "m a = 0x0F" using assms by simp
  have "(ucast (drop_bit 8 (load16 m a)) :: u8) = m (a + 1)"
    by (rule bit_word_eqI) (auto simp: load16_def bit_simps dest: bit_imp_le_length)
  then show "m (a + 1) = 0x05" using assms by simp
qed

lemma mpk_readonly_state: "mpk_check_readonly E a v s = Inr s' \<Longrightarrow> s' = s\<lparr>pkru := v\<rparr> \<and> access_ok E (trace s) REVOKE_PERMISSIONS False a"
  by (auto dest: mpk_check_readonly_run)

lemma patch_syscall_run:
  assumes "patch_syscall E a s = Inr s'"
  shows "s' = s \<or> s' = s\<lparr>stores := (a, [0xFF, 0xD0]) # stores s\<rparr> \<and> memory E (trace s) a = 0x0F \<and> memory E (trace s) (a + 1) = 0x05"
proof (cases "load16 (mem_at E s) a = 0x050F")
  case True
  then show ?thesis using load16_bytes [OF True] assms by (auto simp: patch_syscall_def mem_at_def split: if_splits)
next
  case False
  then show ?thesis using assms by (simp add: patch_syscall_def split: if_splits)
qed

definition mask_call :: "u8 \<Rightarrow> c_int \<Rightarrow> addr \<Rightarrow> addr \<Rightarrow> scall" where
  "mask_call sel how ptr old = SCall Inline sel NR_rt_sigprocmask (scast how) ptr old 8 0 0"

lemma set_sigmask_Some:
  "set_sigmask E how (Some (ptr, m)) old s = (kernel E (mask_call (sud_selector s) how ptr old # trace s),
     s\<lparr>trace := mask_call (sud_selector s) how ptr old # trace s, sigmasks := (how, Some m) # sigmasks s\<rparr>)"
  by (simp add: set_sigmask_def syscall_defs Let_def mask_call_def)

lemma inline_eq: "inline_syscall6 E nr a1 a2 a3 a4 a5 a6 s =
    (kernel E (SCall Inline (sud_selector s) nr a1 a2 a3 a4 a5 a6 # trace s), s\<lparr>trace := SCall Inline (sud_selector s) nr a1 a2 a3 a4 a5 a6 # trace s\<rparr>)"
  by (simp add: syscall_defs Let_def)


definition demo_dispatch :: dispatch where
  "demo_dispatch = monitor.extend demo_monitor \<lparr>rewrite_lock = False, vdso_pages = Some (0x9000, 4096)\<rparr>"

definition demo_sud_locals :: sud_locals where
  "demo_sud_locals = \<lparr>empty_set_addr = 0x100, block_mask_addr = 0x200, saved_mask_addr = 0x300, sud_action_addr = 0x400,
     unblock_mask_addr = 0x500, dfl_addr = 0x600, libc_restorer = 0x700, libc_restorer_flag = 0x4000000,
     init_threads = thread_locals demo_handler_addrs\<rparr>"

lemma demo_dispatch_fields:
  "trace demo_dispatch = []" "sud_selector demo_dispatch = SUD_BLOCK" "pkru demo_dispatch = GRANT_TRUSTED_PERMISSIONS"
  "compartment_id demo_dispatch = 0" "rewrite_lock demo_dispatch = False" "vdso_pages demo_dispatch = Some (0x9000, 4096)"
  "stores demo_dispatch = []"
  by (simp_all add: demo_dispatch_def monitor.defs demo_monitor_def demo_trap_def trap.defs signals.defs demo_sig_defs)

lemma demo_ok_kernel: "kernel demo_ok_env t = 0"
  by (simp add: demo_ok_env_def)

lemma demo_ok_range: "range_ok demo_ok_env t pk wr a n \<longleftrightarrow> n = 0 \<or>
    key_ok pk wr (if t \<noteq> [] \<and> sc_nr (hd t) = NR_pkey_mprotect \<and> sc_a3 (hd t) = 7 then 0 else 2)"
  by (cases n) (auto simp: range_ok_def access_ok_def demo_ok_env_def list_all_iff)

lemma demo_ok_insn: "load16 (mem_at demo_ok_env s) 0x5000 = 0x050F"
  by (simp add: load16_def mem_at_def demo_ok_env_def)

lemmas demo_rewrite_defs = rewrite_syscall_inst_def mpk_check_readonly_def internal_wrpkru_def patch_syscall_def set_sigmask_Some
  inline_eq demo_ok_kernel demo_ok_range demo_ok_insn key_ok_def demo_sud_locals_def demo_dispatch_fields page_of_minus

lemma demo_rewrite: "\<exists>s'. rewrite_syscall_inst demo_ok_env demo_sud_locals 0x5000 1 demo_dispatch = Inr s'"
  by (simp add: demo_rewrite_defs Let_def)


section \<open>The two ways in\<close>

lemma push_frame_run:
  "push_frame E app sp ip ax s = Inr s' \<Longrightarrow> stores s' = (sp, store64 ax) # (sp + 8, store64 ip) # stores s \<and> trace s' = trace s \<and>
     (app \<longrightarrow> range_ok E (trace s) REVOKE_PERMISSIONS True sp 8 \<and> range_ok E (trace s) REVOKE_PERMISSIONS True (sp + 8) 8)"
  by (auto simp: push_frame_def nolibc_assert_eq_Inr Let_def split: if_splits)

lemma handle_sigsys_run:
  fixes s :: "'z dispatch_scheme"
  assumes "handle_sigsys E L hook sig info u cid s = Inr (u', s')"
  shows "u' = u\<lparr>uc_REG_RSP := uc_REG_RSP u - 16, uc_REG_RIP := hook\<rparr> \<and> compartment_id s' = cid \<and>
    (\<exists>rest. stores s' = (uc_REG_RSP u - 16, store64 (uc_REG_RAX u)) # (uc_REG_RSP u - 8, store64 (uc_REG_RIP u)) # rest) \<and>
    (cid = ucast TS_APPLICATION \<longrightarrow> range_ok E (trace s') REVOKE_PERMISSIONS True (uc_REG_RSP u - 16) 8 \<and>
       range_ok E (trace s') REVOKE_PERMISSIONS True (uc_REG_RSP u - 8) 8)"
proof -
  obtain s1 s2 where p: "push_frame E (cid = ucast TS_APPLICATION) (uc_REG_RSP u - 16) (uc_REG_RIP u) (uc_REG_RAX u) s1 = Inr s2"
    and r: "u' = u\<lparr>uc_REG_RSP := uc_REG_RSP u - 16, uc_REG_RIP := hook\<rparr>" "s' = s2\<lparr>compartment_id := cid\<rparr>"
    using assms unfolding handle_sigsys_def Let_def case_prod_unfold
    by (simp only: nolibc_assert_eq_Inr rbind_eq_Inr sum.inject prod.inject) blast
  then show ?thesis using push_frame_run [OF p] by simp
qed


definition demo_info :: sud_info where
  "demo_info = \<lparr>si_code = 2, si_signo = SIGSYS, si_errno = 0, si_call_addr = 0x5002, si_syscall = 39\<rparr>"

definition demo_ucontext :: ucontext_regs where
  "demo_ucontext = \<lparr>uc_REG_RIP = 0x5002, uc_REG_RSP = 0x6100, uc_REG_EFL = 0, uc_REG_RAX = 39, uc_REG_RDX = 0, uc_REG_RCX = 0, uc_REG_R9 = 0\<rparr>"

lemma demo_sigsys: "\<exists>u' s'. handle_sigsys demo_ok_env demo_sud_locals 0x12345678 SIGSYS demo_info demo_ucontext 1 demo_dispatch = Inr (u', s')"
  by (simp add: handle_sigsys_def vdso_contains_def push_frame_def demo_info_def demo_ucontext_def demo_rewrite_defs page_aligned_def
      mask_call_def Let_def)


end
