(* ===== verification/Meta.thy ===== *)
theory Meta
  imports Handlers
begin

text \<open>
  The meta monitor, \<open>src/src/syscall_handlers/meta_monitor.cpp\<close>: the system calls that the monitor itself makes through libraries. The arguments are
  those of the interrupted call, with its number in RAX. A block of the function that returns is a definition of its own.

  The monitor's memory is read and written directly; an access the processor refuses is \<open>Inl Segv\<close>.
\<close>

record meta_locals =
  meta_threads :: thread_addrs
  meta_set_addr :: addr
  meta_rip_after :: addr
  meta_child_rax :: u64

abbreviation (input) NR_clone :: u64 where "NR_clone \<equiv> 56"
abbreviation (input) NR_exit :: u64 where "NR_exit \<equiv> 60"
abbreviation (input) NR_clone3 :: u64 where "NR_clone3 \<equiv> 435"
abbreviation (input) NR_rt_sigreturn :: u64 where "NR_rt_sigreturn \<equiv> 15"

section \<open>Memory\<close>

definition meta_align :: "u64 \<Rightarrow> u64" where
  "meta_align n = ((n + PAGE_SIZE - 1) div PAGE_SIZE) * PAGE_SIZE"

definition meta_mmap :: "env \<Rightarrow> gprs \<Rightarrow> 'z monitor_scheme \<Rightarrow> (u64 \<times> 'z monitor_scheme) res" where
  "meta_mmap E g = with_mmap_lock
     (secpoline_mmap E (arg1 g) (meta_align (arg2 g)) (arg3 g) (arg4 g) (ucast (arg5 g)) (arg6 g) TS_MONITOR)"

definition meta_munmap :: "env \<Rightarrow> gprs \<Rightarrow> 'z monitor_scheme \<Rightarrow> (u64 \<times> 'z monitor_scheme) res" where
  "meta_munmap E g = with_mmap_lock
     (\<lambda>s. rbind (remove_page E (arg1 g) (arg2 g) TS_MONITOR s)
       (\<lambda>(r, s). if r = -1 then Inr (- EINVAL, s)
          else Inr (inline_syscall6 E (REG_RAX g) (arg1 g) (arg2 g) (arg3 g) (arg4 g) (arg5 g) (arg6 g) s)))"

definition meta_mremap :: "env \<Rightarrow> gprs \<Rightarrow> 'z erim_scheme \<Rightarrow> (u64 \<times> 'z erim_scheme) res" where
  "meta_mremap E g s =
     rbind (lookup_addr (arg1 g) TS_MONITOR s)
     (\<lambda>(rpage, s). case rpage of
        None \<Rightarrow> Inr (- EFAULT, s)
      | Some p \<Rightarrow>
          if arg1 g + arg2 g > vp_end p then Inr (- EFAULT, s)
          else rbind
            (if vp_prot p AND PROT_EXEC \<noteq> 0
             then handle_mremap_exec E (arg1 g) (arg2 g) (arg3 g) (ucast (arg4 g)) (arg5 g) (vp_prot p) TS_MONITOR (set_sud_block s)
             else handle_mremap E (arg1 g) (arg2 g) (arg3 g) (ucast (arg4 g)) (arg5 g) TS_MONITOR (set_sud_block s))
            (\<lambda>(r, s). Inr (r, set_sud_allow s)))"

text \<open>The result of the lookup is used without a check for null.\<close>

definition meta_pkey_mprotect :: "env \<Rightarrow> gprs \<Rightarrow> 'z erim_scheme \<Rightarrow> (u64 \<times> 'z erim_scheme) res" where
  "meta_pkey_mprotect E g s =
     (let cid = get_cid (ucast (arg4 g)) in
      if cid = -1 then Inr (- EINVAL, s)
      else rbind (lookup_addr (arg1 g) cid s)
        (\<lambda>(current_group, s). case current_group of
           None \<Rightarrow> Inl NullDeref
         | Some p \<Rightarrow>
             if vp_start p \<noteq> arg1 g \<or> vp_size p \<noteq> arg2 g \<or> vp_prot p \<noteq> ucast (arg3 g) then Inr (- EINVAL, s)
             else Inr (inline_syscall6 E (REG_RAX g) (arg1 g) (arg2 g) (arg3 g) (arg4 g) (arg5 g) (arg6 g) s)))"

definition meta_mprotect :: "env \<Rightarrow> gprs \<Rightarrow> 'z erim_scheme \<Rightarrow> (u64 \<times> 'z erim_scheme) res" where
  "meta_mprotect E g s =
     nolibc_assert (arg3 g AND MAP_HUGETLB = 0)
     (if arg3 g AND 4 \<noteq> 0 \<and> arg3 g AND 2 \<noteq> 0
      then
        let prot = arg3 g AND NOT 4;
            (r, s) = inline_syscall6 E (REG_RAX g) (arg1 g) (arg2 g) prot (arg4 g) (arg5 g) (arg6 g) s;
            res = (ucast r :: c_int) in
        rbind (if res = 0
               then rbind (update_mprotect E (arg1 g) (arg2 g) (ucast prot) TS_MONITOR s)
                 (\<lambda>(r, s). mark_wx_pages (page_addrs (arg1 g) (arg2 g)) (ucast prot) True s)
               else Inr s)
        (\<lambda>s. Inr (scast res, s))
      else if arg3 g AND 4 \<noteq> 0
      then
        let (r, s) = inline_syscall6 E NR_mprotect (arg1 g) (arg2 g) (scast PROT_READ) 0 0 0 s;
            res = (ucast r :: c_int) in
        if res <s 0 then Inr (scast res, s)
        else rbind (scan_exec_mapping_mprotect E (arg1 g) (arg2 g) (ucast (arg3 g)) (ucast (arg3 g) AND NOT PROT_EXEC)
                     TS_MONITOR None (set_sud_block s))
               (\<lambda>s. Inr (0, set_sud_allow s))
      else
        let (r, s) = inline_syscall6 E (REG_RAX g) (arg1 g) (arg2 g) (arg3 g) (arg4 g) (arg5 g) (arg6 g) s;
            ret = (ucast r :: c_int) in
        rbind (update_mprotect E (arg1 g) (arg2 g) (ucast (arg3 g)) TS_MONITOR s)
          (\<lambda>(r, s). nolibc_assert (r = 0) (Inr (scast ret, s))))"

section \<open>Signals\<close>

text \<open>\<open>arg4\<close> bytes are copied to a local set of 128 bytes. The kernel only accepts eight; of a shorter mask the missing bytes, which the
  code leaves uninitialised, are 0 here.\<close>

definition meta_sigprocmask :: "env \<Rightarrow> meta_locals \<Rightarrow> gprs \<Rightarrow> 'z monitor_scheme \<Rightarrow> (u64 \<times> 'z monitor_scheme) res" where
  "meta_sigprocmask E M g s =
     (let n = unat (arg4 g) in
      if \<not> range_ok E (trace s) (pkru s) False (arg2 g) n then Inl Segv
      else if n > 128 then Inl OutOfBounds
      else
        let bytes = map (\<lambda>i. mem_at E s (arg2 g + of_nat i)) [0..<min n 8];
            mask = monitor_mask (word_of_bytes bytes) in
        Inr (inline_syscall6 E (REG_RAX g) (arg1 g) (meta_set_addr M) (arg3 g) (arg4 g) (arg5 g) (arg6 g)
              (s\<lparr>sigmasks := (ucast (arg1 g), Some mask) # sigmasks s\<rparr>)))"

definition meta_sigaction :: "env \<Rightarrow> gprs \<Rightarrow> 'z monitor_scheme \<Rightarrow> (u64 \<times> 'z monitor_scheme) res" where
  "meta_sigaction E g s =
     (let newact = arg2 g in
      if newact = 0 then Inr (inline_syscall6 E (REG_RAX g) (arg1 g) (arg2 g) (arg3 g) (arg4 g) (arg5 g) (arg6 g) s)
      else if \<not> range_ok E (trace s) (pkru s) False newact 8 then Inl Segv
      else if load64 (mem_at E s) newact \<noteq> asm_signal_entry s
      then if range_ok E (trace s) (pkru s) True (newact + 8) 8
        then let flags = load64 (mem_at E s) (newact + 8) AND NOT (SA_RESETHAND OR SA_SIGINFO OR SA_ONSTACK OR SA_NODEFER)
             in Inr (inline_syscall6 E (REG_RAX g) (arg1 g) 0 (arg3 g) (arg4 g) (arg5 g) (arg6 g)
                  (s\<lparr>stores := (newact + 8, store64 flags) # stores s\<rparr>))
        else Inl Segv
      else Inr (inline_syscall6 E (REG_RAX g) (arg1 g) (arg2 g) (arg3 g) (arg4 g) (arg5 g) (arg6 g) s))"

section \<open>Threads\<close>

text \<open>The child of a clone sets up its thread data and returns to the address that the parent put on its stack; RAX is then what
  \<open>setup_new_thread\<close> left in it.\<close>

definition meta_clone :: "env \<Rightarrow> meta_locals \<Rightarrow> gprs \<Rightarrow> 'z monitor_scheme \<Rightarrow> (u64 \<times> 'z monitor_scheme) res" where
  "meta_clone E M g s =
     (if fake_clone_flag s
      then let (r, s) = virual_clone_wrapper E (arg2 g) (arg3 g) (arg5 g) s in Inr (scast r, s)
      else
        let stack = arg2 g - 8 in
        if \<not> range_ok E (trace s) (pkru s) True stack 8 then Inl Segv
        else
          let (r, s) = inline_syscall6 E (REG_RAX g) (arg1 g) stack (arg3 g) (arg4 g) (arg5 g) (arg6 g)
                 (s\<lparr>stores := (stack, store64 (meta_rip_after M)) # stores s\<rparr>) in
          if r = 0 then rbind (setup_new_thread E (meta_threads M) (arg1 g) 0 s) (\<lambda>s. Inr (meta_child_rax M, s))
          else Inr (r, s))"

text \<open>The last call ends the thread; for a thread of the application it is made with the rights of the application.\<close>

definition meta_exit :: "env \<Rightarrow> meta_locals \<Rightarrow> gprs \<Rightarrow> 'z monitor_scheme \<Rightarrow> (u64 \<times> 'z monitor_scheme) res" where
  "meta_exit E M g s =
     rbind (teardown_thread_metadata E (meta_threads M) s)
     (\<lambda>(base, s). let (r, s) = inline_syscall6 E (REG_RAX g) (arg1 g) (arg2 g) (arg3 g) (arg4 g) (arg5 g) (arg6 g) s in Inl Exit)"

section \<open>Dispatch\<close>

definition meta_monitor :: "env \<Rightarrow> meta_locals \<Rightarrow> gprs \<Rightarrow> 'z monitor_scheme \<Rightarrow> (u64 \<times> 'z monitor_scheme) res" where
  "meta_monitor E M g s =
     (let syscall_no = REG_RAX g in
      if syscall_no = NR_rt_sigreturn then Inl Ud2
      else if syscall_no = NR_mmap then meta_mmap E g s
      else if syscall_no = NR_munmap then meta_munmap E g s
      else if syscall_no = NR_mremap then meta_mremap E g s
      else if syscall_no = NR_pkey_mprotect then meta_pkey_mprotect E g s
      else if syscall_no = NR_mprotect then meta_mprotect E g s
      else if syscall_no = NR_rt_sigprocmask then meta_sigprocmask E M g s
      else if syscall_no = NR_rt_sigaction \<and> (arg1 g = 11 \<or> arg1 g = 31 \<or> arg1 g = 5) then meta_sigaction E g s
      else if syscall_no = NR_clone3 \<or> syscall_no = NR_sigaltstack then Inr (- ENOSYS, s)
      else if syscall_no = NR_clone then meta_clone E M g s
      else if syscall_no = NR_exit then meta_exit E M g s
      else Inr (inline_syscall6 E syscall_no (arg1 g) (arg2 g) (arg3 g) (arg4 g) (arg5 g) (arg6 g) s))"

end
