(* ===== verification/MetaProps.thy ===== *)
theory MetaProps
  imports Meta HandlersFacts
begin

text \<open>
  What the meta monitor lets the monitor's own libraries do: the same guarantees for executable memory as for the application, and
  the signals of the monitor stay with its entry point.
\<close>

section \<open>New threads ask for no executable memory\<close>

lemma calm_Inr_case: "calm f s (Inr (case x of (r, s) \<Rightarrow> k r s)) = calm f s (case x of (r, s) \<Rightarrow> Inr (k r s))"
  by (simp add: case_prod_unfold)

lemma inline_calm:
  assumes "data_call nr a3" "trace s0 = trace s"
  shows "calm snd s (Inr (inline_syscall6 E nr a1 a2 a3 a4 a5 a6 s0))"
  using calm_inline [OF assms, of snd "\<lambda>r s. Inr (r, s)"] by (simp add: case_prod_unfold)

lemma tag_as_trusted_calm: "calm id s (tag_as_trusted E a n s)"
  unfolding tag_as_trusted_def Let_def by (auto intro!: calm_inline calm_assert)

lemma map_gsrel_calm: "calm snd s (map_gsrel_region E base s)"
  unfolding map_gsrel_region_def Let_def
  by (auto intro!: calm_inline calm_assert calm_seq [OF tag_as_trusted_calm])

lemma map_signal_handlers_calm: "calm snd s (map_signal_handlers E T s)"
  unfolding map_signal_handlers_def Let_def
  by (auto intro!: calm_inline calm_assert calm_seq [OF tag_as_trusted_calm])

lemma add_page_calm: "trace s0 = trace s \<Longrightarrow> calm snd s (add_page E st sz pr fl cid False s0)"
  by (auto simp: calm_def emits_def dest: add_page_emits)

lemma setup_new_thread_calm: "calm id s (setup_new_thread E T flags base s)"
  unfolding setup_new_thread_def Let_def
  by (auto intro!: set_sigmask_calm calm_assert calm_pair [OF map_gsrel_calm] calm_pair [OF calm_cong [OF map_signal_handlers_calm]]
        calm_seq [OF calm_cong [OF enable_sud_calm]] calm_seq [OF calm_cong [OF thread_list_calm]] calm_pair [OF add_page_calm] simp: sud_defs)

section \<open>Executable memory\<close>

lemma clone_wrapper_emits: "emits (\<lambda>c. \<not> exec_call c) s (snd (virual_clone_wrapper E st p t s))"
  by (simp add: virual_clone_wrapper_def nolibc_gettid_def syscall_defs Let_def emits_def exec_call_def prot_call_def)

lemma meta_clone_calm:
  assumes "no_prot_nr (REG_RAX g)"
  shows "calm snd s (meta_clone E M g s)"
proof (cases "fake_clone_flag s")
  case True
  then show ?thesis using clone_wrapper_emits [of s]
    by (simp add: meta_clone_def calm_def case_prod_unfold Let_def)
next
  case False
  with assms show ?thesis unfolding meta_clone_def Let_def
    by (auto intro!: calm_if calm_inline calm_seq [OF setup_new_thread_calm])
qed

lemma meta_munmap_calm:
  assumes "no_prot_nr (REG_RAX g)"
  shows "calm snd s (meta_munmap E g s)"
proof -
  have "calm snd s0 (rbind (remove_page E (arg1 g) (arg2 g) TS_MONITOR s0)
       (\<lambda>(r, s). if r = -1 then Inr (- EINVAL, s)
          else Inr (inline_syscall6 E (REG_RAX g) (arg1 g) (arg2 g) (arg3 g) (arg4 g) (arg5 g) (arg6 g) s)))" for s0
    using assms by (intro calm_pair) (auto simp: calm_def [of snd s0] intro: remove_page_emits inline_calm)
  then show ?thesis unfolding meta_munmap_def by (intro with_mmap_lock_calm) (auto intro: calm_cong)
qed

lemma meta_signals_calm:
  assumes "no_prot_nr (REG_RAX g)"
  shows "calm snd s (meta_sigprocmask E M g s)" "calm snd s (meta_sigaction E g s)"
  using assms unfolding meta_sigprocmask_def meta_sigaction_def Let_def by (auto intro!: calm_if inline_calm)

lemmas meta_calms = meta_clone_calm meta_munmap_calm meta_signals_calm

lemma meta_mremap_exec_ok:
  fixes s :: "'z erim_scheme"
  assumes "meta_mremap E g s = Inr (r, s')" "no_wx_pages (pages s)"
  shows "exec_ok E s s'"
proof -
  obtain rpage s0 where l: "lookup_addr (arg1 g) TS_MONITOR s = Inr (rpage, s0)"
    using assms by (auto simp: meta_mremap_def rbind_eq_Inr)
  note t = lookup_addr_same [OF l]
  consider "s' = s0"
    | p a s1 where "rpage = Some p" "trace s' = trace s1" "(if vp_prot p AND PROT_EXEC \<noteq> 0
        then handle_mremap_exec E (arg1 g) (arg2 g) (arg3 g) (ucast (arg4 g)) (arg5 g) (vp_prot p) TS_MONITOR (set_sud_block s0)
        else handle_mremap E (arg1 g) (arg2 g) (arg3 g) (ucast (arg4 g)) (arg5 g) TS_MONITOR (set_sud_block s0)) = Inr (a, s1)"
    using assms(1) l by (auto simp: meta_mremap_def rbind_eq_Inr sud_defs split: option.splits if_splits)
  then show ?thesis
  proof cases
    case 1
    with t show ?thesis by (auto intro: exec_ok_calm)
  next
    case 2
    have "exec_ok E (set_sud_block s0) s1" using 2(3) t 2(1) assms(2) by (auto intro: moved_exec_ok)
    then show ?thesis by (rule exec_ok_cong) (use t 2(2) in \<open>simp_all add: sud_defs\<close>)
  qed
qed

lemma meta_mprotect_exec_ok:
  fixes s :: "'z erim_scheme"
  assumes "meta_mprotect E g s = Inr (r, s')"
  shows "exec_ok E s s'"
proof -
  consider (wx) "arg3 g AND 4 \<noteq> 0" "arg3 g AND 2 \<noteq> 0" | (exec) "arg3 g AND 4 \<noteq> 0" "arg3 g AND 2 = 0" | (data) "arg3 g AND 4 = 0"
    by blast
  then show ?thesis
  proof cases
    case wx
    have "calm snd s (meta_mprotect E g s)"
      using wx by (simp add: meta_mprotect_def Let_def)
        (intro calm_assert calm_inline calm_seq [OF calm_if] calm_pair [OF update_mprotect_calm],
          auto intro!: mark_wx_calm simp: bit_and_not_four)
    then show ?thesis using assms by (auto simp: calm_def intro: exec_ok_calm)
  next
    case exec
    obtain k s1 where k: "inline_syscall6 E NR_mprotect (arg1 g) (arg2 g) (scast PROT_READ) 0 0 0 s = (k, s1)" by fastforce
    have e: "emits (\<lambda>c. \<not> exec_call c) s s1"
      using k unfolding inline_syscall6_def by (rule issue_emits) (simp add: exec_call_def)
    from assms k exec consider "s' = s1"
      | s2 where "scan_exec_mapping_mprotect E (arg1 g) (arg2 g) (ucast (arg3 g)) (ucast (arg3 g) AND NOT PROT_EXEC)
           TS_MONITOR None (set_sud_block s1) = Inr s2" "trace s' = trace s2"
      by (auto simp: meta_mprotect_def rbind_eq_Inr nolibc_assert_eq_Inr Let_def sud_defs split: if_splits)
    then show ?thesis
    proof cases
      case 1
      with e show ?thesis by (simp add: exec_ok_calm)
    next
      case 2
      have "\<not> bit (ucast (arg3 g) :: c_int) 1" using exec(2) by (simp add: and_two_zero bit_simps)
      moreover have "emits (\<lambda>c. \<not> exec_call c) s (set_sud_block s1)" using e by (simp add: emits_def sud_defs)
      ultimately have "exec_ok E s s2" using 2(1) by (blast intro: scan_after_exec_ok)
      then show ?thesis by (rule exec_ok_cong) (simp_all add: 2)
    qed
  next
    case data
    have "calm snd s (meta_mprotect E g s)"
      using data by (simp add: meta_mprotect_def Let_def)
        (intro calm_assert calm_inline calm_pair [OF update_mprotect_calm], auto intro!: calm_assert simp: and_four_zero)
    then show ?thesis using assms by (auto simp: calm_def intro: exec_ok_calm)
  qed
qed

lemma meta_pkey_mprotect_wx:
  fixes s :: "'z erim_scheme"
  assumes "meta_pkey_mprotect E g s = Inr (r, s')" "no_wx_pages (pages s)"
  shows "emits (\<lambda>c. \<not> wx_call c) s s'"
proof -
  obtain rpage s0 where l: "lookup_addr (arg1 g) (get_cid (ucast (arg4 g))) s = Inr (rpage, s0) \<or> s' = s"
    using assms by (auto simp: meta_pkey_mprotect_def rbind_eq_Inr Let_def split: if_splits)
  show ?thesis
  proof (cases "s' = s")
    case False
    with l have l: "lookup_addr (arg1 g) (get_cid (ucast (arg4 g))) s = Inr (rpage, s0)" by simp
    note t = lookup_addr_same [OF l]
    consider "s' = s0"
      | p where "rpage = Some p" "vp_prot p = ucast (arg3 g)"
        "inline_syscall6 E (REG_RAX g) (arg1 g) (arg2 g) (arg3 g) (arg4 g) (arg5 g) (arg6 g) s0 = (r, s')"
      using assms(1) l False by (auto simp: meta_pkey_mprotect_def rbind_eq_Inr Let_def split: if_splits option.splits)
    then show ?thesis
    proof cases
      case 1
      with t show ?thesis by (simp add: emits_def)
    next
      case 2
      have "p \<in> set (pages s)" using t 2(1) by (auto dest: sym [THEN lookup_locked_member])
      then have "\<not> wx (arg3 g)"
        using assms(2) 2(2) by (fastforce simp: no_wx_pages_def list_all_iff c_int_and_zero wx_bits bit_simps)
      then have "emits (\<lambda>c. \<not> wx_call c) s0 s'"
        using 2(3) unfolding inline_syscall6_def by (intro issue_emits) (auto simp: wx_call_def)
      then show ?thesis using t by (simp add: emits_def)
    qed
  qed simp
qed

lemma meta_exit_calm: "calm snd s (meta_exit E M g s)"
  by (auto simp: calm_def meta_exit_def rbind_eq_Inr case_prod_unfold Let_def)

lemma exec_ok_parts:
  "exec_ok E s s' \<Longrightarrow> emits (\<lambda>c. \<not> wx_call c) s s' \<and> (b \<longrightarrow> emits (\<lambda>c. exec_call c \<longrightarrow> covered c \<subseteq> clean_in E None s s') s s')"
  unfolding exec_ok_def by (auto elim!: emits_mono dest: wx_exec_call)



definition demo_meta :: monitor where
  "demo_meta = demo_monitor\<lparr>sud_selector := SUD_ALLOW\<rparr>"

lemma demo_meta_mmap:
  "\<exists>s'. secpoline_mmap demo_map_env 0 4096 5 34 (-1) 0 TS_MONITOR (demo_meta\<lparr>mmap_lock := True\<rparr>) = Inr (0x20000, s')"
  by (simp add: mmap_run_defs page_addrs_one scan_exec_mapping_def erim_memScanRegion_def scan_prev_page_def
      scan_next_page_def lookup_addr_def scan_result_def update_unsafe_page_def add_group_def
      demo_meta_def demo_monitor_def demo_trap_def trap.defs signals.defs demo_sig_defs)

definition demo_meta_locals :: meta_locals where
  "demo_meta_locals = \<lparr>meta_threads = thread_locals demo_handler_addrs, meta_set_addr = 0xe00, meta_rip_after = 0x5000, meta_child_rax = 0\<rparr>"

definition demo_meta_regs :: gprs where
  "demo_meta_regs = (demo_regs 9 0 4000 5)\<lparr>REG_R10 := 34, REG_R8 := -1\<rparr>"

lemma demo_meta_run: "\<exists>s'. meta_monitor demo_map_env demo_meta_locals demo_meta_regs demo_meta = Inr (0x20000, s')"
proof -
  have "meta_align 4000 = 4096" by (simp add: meta_align_def)
  moreover have "(ucast (- 1 :: u64) :: c_int) = - 1" by (rule bit_word_eqI) (simp add: bit_simps)
  ultimately show ?thesis using demo_meta_mmap
    by (auto simp: meta_monitor_def meta_mmap_def with_mmap_lock_def demo_monitor_fields demo_meta_def demo_meta_regs_def demo_regs_def)
qed

lemma demo_meta_no_wx: "no_wx_pages (pages demo_meta)"
  by (simp add: no_wx_pages_def demo_monitor_fields demo_page_def demo_meta_def)


section \<open>Signals\<close>

text \<open>
  C30. The signals that the monitor lives from stay with it also when its own libraries ask: a call for SIGSEGV, SIGSYS or
  SIGTRAP reaches the kernel without an action or with the monitor's entry point as the handler, and a signal mask they set leaves
  these three signals unblocked.
\<close>

theorem meta_signals_kept:
  assumes "meta_monitor E M g s = Inr (r, s')"
  shows "(REG_RAX g = NR_rt_sigaction \<and> arg1 g \<in> {5, 11, 31} \<longrightarrow>
      emits (\<lambda>c. sc_nr c = NR_rt_sigaction \<and> sc_a1 c = arg1 g \<and>
        (sc_a2 c = 0 \<or> sc_a2 c = arg2 g \<and> load64 (mem_at E s) (arg2 g) = asm_signal_entry s)) s s') \<and>
    (REG_RAX g = NR_rt_sigprocmask \<longrightarrow>
      (\<exists>m. sigmasks s' = (ucast (arg1 g), Some m) # sigmasks s \<and> \<not> bit m 4 \<and> \<not> bit m 10 \<and> \<not> bit m 30))"
proof (intro conjI impI)
  assume "REG_RAX g = NR_rt_sigaction \<and> arg1 g \<in> {5, 11, 31}"
  with assms have "meta_sigaction E g s = Inr (r, s')" "REG_RAX g = NR_rt_sigaction" by (auto simp: meta_monitor_def)
  then show "emits (\<lambda>c. sc_nr c = NR_rt_sigaction \<and> sc_a1 c = arg1 g \<and>
        (sc_a2 c = 0 \<or> sc_a2 c = arg2 g \<and> load64 (mem_at E s) (arg2 g) = asm_signal_entry s)) s s'"
    by (auto simp: meta_sigaction_def syscall_defs emits_def Let_def split: if_splits)
next
  assume "REG_RAX g = NR_rt_sigprocmask"
  with assms have "meta_sigprocmask E M g s = Inr (r, s')" by (simp add: meta_monitor_def)
  then show "\<exists>m. sigmasks s' = (ucast (arg1 g), Some m) # sigmasks s \<and> \<not> bit m 4 \<and> \<not> bit m 10 \<and> \<not> bit m 30"
    by (auto simp: meta_sigprocmask_def syscall_defs monitor_mask_bit Let_def split: if_splits)
qed

definition demo_mask_env :: env where
  "demo_mask_env = \<lparr>kernel = (\<lambda>t. 0), memory = (\<lambda>t a. 0xff), page_perm = (\<lambda>t a. 3), page_key = (\<lambda>t a. 0)\<rparr>"

lemma demo_meta_mask: "\<exists>r s'. meta_monitor demo_mask_env demo_meta_locals (demo_regs 14 2 0x3000 0) demo_meta = Inr (r, s')"
proof -
  have "range_ok demo_mask_env (trace demo_meta) (pkru demo_meta) False 0x3000 8"
    by (simp add: range_ok_def list_all_iff access_ok_def key_ok_def demo_mask_env_def demo_meta_def demo_monitor_fields demo_sig_defs)
  then show ?thesis by (simp add: meta_monitor_def meta_sigprocmask_def demo_regs_def Let_def syscall_defs)
qed

theorem meta_signals_kept_witness:
  "\<exists>r s' m. meta_monitor demo_mask_env demo_meta_locals (demo_regs 14 2 0x3000 0) demo_meta = Inr (r, s') \<and>
     sigmasks s' = [(2, Some m)] \<and> \<not> bit m 4 \<and> \<not> bit m 10 \<and> \<not> bit m 30"
proof -
  obtain r s' where r: "meta_monitor demo_mask_env demo_meta_locals (demo_regs 14 2 0x3000 0) demo_meta = Inr (r, s')"
    using demo_meta_mask by blast
  from meta_signals_kept [OF r] obtain m where "sigmasks s' = (2, Some m) # sigmasks demo_meta" "\<not> bit m 4" "\<not> bit m 10" "\<not> bit m 30"
    by (auto simp: demo_regs_def)
  with r show ?thesis by (auto simp: demo_meta_def demo_monitor_fields)
qed

end
