(* ===== verification/ProcMaps.thy ===== *)
theory ProcMaps
  imports Prelude
begin

text \<open>
  The two readers of \<open>/proc/self/maps\<close>: \<open>get_mappings\<close> of the loader (\<open>src/src/secpoline_loader/loader/get_mappings.c\<close>), which lists the
  mappings of the application before the monitor is loaded, and the loop of \<open>init_page_manager\<close>
  (\<open>src/src/syscall_monitor/mpk_isolation.cpp\<close>), which registers every mapping once it is.

  A C string is the list of its bytes without the terminator; reading at its end gives the terminator. \<open>strtoll\<close>, \<open>strstr\<close>, \<open>strchr\<close>
  and \<open>fgets\<close> are those of the C standard, in the C locale.
\<close>

section \<open>The C library on strings\<close>

definition bytes :: "string \<Rightarrow> u8 list" where
  "bytes = map of_char"

definition first_byte :: "u8 list \<Rightarrow> u8" where
  "first_byte str = (case str of [] \<Rightarrow> 0 | c # _ \<Rightarrow> c)"

primrec prefix_of :: "u8 list \<Rightarrow> u8 list \<Rightarrow> bool" where
  "prefix_of [] str = True"
| "prefix_of (c # cs) str = (case str of [] \<Rightarrow> False | d # ds \<Rightarrow> c = d \<and> prefix_of cs ds)"

primrec strstr :: "u8 list \<Rightarrow> u8 list \<Rightarrow> bool" where
  "strstr [] pat = (pat = [])"
| "strstr (c # cs) pat = (prefix_of pat (c # cs) \<or> strstr cs pat)"

definition is_space :: "u8 \<Rightarrow> bool" where
  "is_space c \<longleftrightarrow> c = 32 \<or> 9 \<le> c \<and> c \<le> 13"

definition hex_value :: "u8 \<Rightarrow> nat option" where
  "hex_value c = (if 48 \<le> c \<and> c \<le> 57 then Some (unat (c - 48))
     else if 97 \<le> c \<and> c \<le> 102 then Some (unat (c - 87))
     else if 65 \<le> c \<and> c \<le> 70 then Some (unat (c - 55)) else None)"

definition is_hex :: "u8 \<Rightarrow> bool" where
  "is_hex c \<longleftrightarrow> hex_value c \<noteq> None"

definition hex_number :: "u8 list \<Rightarrow> int" where
  "hex_number = foldl (\<lambda>v c. 16 * v + (case hex_value c of Some d \<Rightarrow> int d | None \<Rightarrow> 0)) 0"

text \<open>\<open>strtoll(str, &end, 16)\<close>: the number, limited to the range of \<open>long long\<close>, and the rest of the string.\<close>

definition strtoll16 :: "u8 list \<Rightarrow> u64 \<times> u8 list" where
  "strtoll16 str =
     (let t = dropWhile is_space str;
          neg = (first_byte t = 45);
          t = (if first_byte t = 45 \<or> first_byte t = 43 then tl t else t);
          t = (if first_byte t = 48 \<and> (first_byte (tl t) = 120 \<or> first_byte (tl t) = 88) \<and> is_hex (first_byte (tl (tl t)))
               then tl (tl t) else t);
          ds = takeWhile is_hex t; v = hex_number ds
      in if ds = [] then (0, str)
         else (word_of_int (if neg then max (- (2 ^ 63)) (- v) else min (2 ^ 63 - 1) v), dropWhile is_hex t))"

text \<open>\<open>fgets(line, 256, file)\<close> repeated until the end of the file: at most 255 bytes, up to and with a newline. The string ends at a zero byte.\<close>

definition fgets_cut :: "u8 list \<Rightarrow> nat" where
  "fgets_cut buf = min 255 (length (takeWhile (\<lambda>c. c \<noteq> 10) buf) + 1)"

function fgets_lines :: "u8 list \<Rightarrow> u8 list list" where
  "fgets_lines buf =
     (if buf = [] then [] else takeWhile (\<lambda>c. c \<noteq> 0) (take (fgets_cut buf) buf) # fgets_lines (drop (fgets_cut buf) buf))"
  by pat_completeness auto
termination
  by (relation "measure length") (auto simp: fgets_cut_def)

declare fgets_lines.simps [simp del]

section \<open>The list of the loader\<close>

record page_group =
  start_address :: u64
  pg_size :: c_int
  permissions :: c_int

record mmapped_list =
  mm_list :: "page_group list"
  vvar :: page_group
  vdso :: page_group

abbreviation (input) MAX_MMAP_LIST_SIZE :: nat where "MAX_MMAP_LIST_SIZE \<equiv> 256"

text \<open>The bits of \<open>rwx\<close>.\<close>

definition perm_bits :: "u8 list \<Rightarrow> c_int" where
  "perm_bits p = (if first_byte p = 114 then PROT_READ else 0)
     OR (if first_byte (tl p) = 119 then PROT_WRITE else 0)
     OR (if first_byte (tl (tl p)) = 120 then PROT_EXEC else 0)"

text \<open>The body of the loop of \<open>get_mappings\<close>. A failed \<open>assert\<close> aborts the loader.\<close>

definition get_mapping_line :: "u8 list \<Rightarrow> mmapped_list \<Rightarrow> mmapped_list res" where
  "get_mapping_line line m =
     (if line = [] then Inr m
      else
        let (mapping_start, rest) = strtoll16 line in
        if mapping_start \<ge> 0x7fffffffffffffff then Inr m
        else nolibc_assert (first_byte rest = 45)
          (let (mapping_end, rest) = strtoll16 (tl rest);
               page_permissions = dropWhile (\<lambda>c. c \<noteq> 32) line;
               size = ucast (mapping_end - mapping_start) in
           if strstr line (bytes ''vvar'')
           then if start_address (vvar m) \<noteq> 0
             then nolibc_assert (mapping_start = start_address (vvar m) + scast (pg_size (vvar m)))
               (Inr (m\<lparr>vvar := (vvar m)\<lparr>permissions := PROT_READ, pg_size := pg_size (vvar m) + size\<rparr>\<rparr>))
             else Inr (m\<lparr>vvar := \<lparr>start_address = mapping_start, pg_size = size, permissions = PROT_READ\<rparr>\<rparr>)
           else if strstr line (bytes ''vdso'')
           then Inr (m\<lparr>vdso := \<lparr>start_address = mapping_start, pg_size = size, permissions = PROT_EXEC\<rparr>\<rparr>)
           else nolibc_assert (length (mm_list m) < MAX_MMAP_LIST_SIZE)
             (if page_permissions = [] then Inl NullDeref
              else
                let p = tl page_permissions in
                nolibc_assert (first_byte p = 114 \<or> first_byte p = 45)
                (Inr (m\<lparr>mm_list := mm_list m @ [\<lparr>start_address = mapping_start, pg_size = size, permissions = perm_bits p\<rparr>]\<rparr>)))))"

primrec get_mapping_lines :: "u8 list list \<Rightarrow> mmapped_list \<Rightarrow> mmapped_list res" where
  "get_mapping_lines [] m = Inr m"
| "get_mapping_lines (l # ls) m = rbind (get_mapping_line l m) (get_mapping_lines ls)"

text \<open>The content of the file, or none if it can not be opened, and the bytes that the local variable \<open>mmapped_list\<close> is made of before
  the function sets any of it except for the size.\<close>

definition get_mappings :: "u8 list option \<Rightarrow> mmapped_list \<Rightarrow> mmapped_list res" where
  "get_mappings maps_file m =
     (case maps_file of None \<Rightarrow> Inl Exit | Some file_bytes \<Rightarrow> get_mapping_lines (fgets_lines file_bytes) (m\<lparr>mm_list := []\<rparr>))"

section \<open>The lines of the monitor\<close>

text \<open>The loop of \<open>init_page_manager\<close> ends a line at a newline or at the end of the buffer.\<close>

definition line_of :: "u8 list \<Rightarrow> u8 list" where
  "line_of buf = takeWhile (\<lambda>c. c \<noteq> 0) (takeWhile (\<lambda>c. c \<noteq> 10) buf)"

lemma drop_line_less:
  assumes "buf \<noteq> []"
  shows "length (drop 1 (dropWhile P buf)) < length buf"
proof -
  have "0 < length buf" using assms by simp
  with length_dropWhile_le [of P buf] show ?thesis unfolding length_drop by linarith
qed

function maps_lines :: "u8 list \<Rightarrow> u8 list list" where
  "maps_lines buf = (if buf = [] then [] else line_of buf # maps_lines (drop 1 (dropWhile (\<lambda>c. c \<noteq> 10) buf)))"
  by pat_completeness auto
termination
  by (relation "measure length") (simp, use drop_line_less in simp)

declare maps_lines.simps [simp del]

record maps_entry =
  me_start :: u64
  me_end :: u64
  me_prot :: c_int
  me_handler :: bool

definition libsegfault_file :: "u8 list" where
  "libsegfault_file = bytes ''libsegfault_handler.so''"

definition maps_line :: "u8 list \<Rightarrow> maps_entry option res" where
  "maps_line line =
     (if line = [] \<or> strstr line (bytes ''vdso'') \<or> strstr line (bytes ''vvar'') then Inr None
      else
        let (mapping_start, rest) = strtoll16 line in
        if mapping_start \<ge> 0x7fffffffffffffff then Inr None
        else nolibc_assert (first_byte rest = 45)
          (let (mapping_end, rest) = strtoll16 (tl rest);
               page_permissions = dropWhile (\<lambda>c. c \<noteq> 32) line in
           if page_permissions = [] then Inl NullDeref
           else
             let p = tl page_permissions in
             nolibc_assert (first_byte p = 114 \<or> first_byte p = 45)
             (Inr (Some \<lparr>me_start = mapping_start, me_end = mapping_end, me_prot = perm_bits p,
                         me_handler = strstr line libsegfault_file\<rparr>))))"

end
