(* ===== verification/Startup.thy ===== *)
theory Startup
  imports Sud ProcMaps Table
begin

text \<open>
  The start of the monitor: \<open>init_page_manager\<close> and what it calls in \<open>src/src/syscall_monitor/mpk_isolation.cpp\<close>, and \<open>main\<close> of
  \<open>src/src/secpoline.cpp\<close>, up to the jump back to the loader.

  The dynamic linker is a parameter: \<open>dl_open\<close> and \<open>dl_sym\<close> give the handle of a library and the address of a symbol, or none with an
  error that \<open>dlerror\<close> reports. A function found this way is the definition of the same name. \<open>start_addrs\<close> has the addresses of local variables and string constants.
\<close>

record dl =
  dl_open :: "u8 list \<Rightarrow> addr option"
  dl_sym :: "addr \<Rightarrow> u8 list \<Rightarrow> addr option"

record start_addrs =
  start_sud :: sud_locals
  maps_path :: addr
  static_buf :: addr
  act_addr :: addr
  act_trap_addr :: addr
  entry_bound :: nat

abbreviation (input) RTLD_DEFAULT :: addr where "RTLD_DEFAULT \<equiv> 0"
abbreviation (input) NR_openat :: u64 where "NR_openat \<equiv> 257"
abbreviation (input) NR_pkey_alloc :: u64 where "NR_pkey_alloc \<equiv> 330"

section \<open>Symbols\<close>

text \<open>\<open>dlsym\<close>, \<open>exit(-1)\<close> on an error, and \<open>assert\<close> that the address is not null.\<close>

definition dl_need :: "dl \<Rightarrow> addr \<Rightarrow> string \<Rightarrow> (addr \<Rightarrow> 'a res) \<Rightarrow> 'a res" where
  "dl_need D h name k = (case dl_sym D h (bytes name) of None \<Rightarrow> Inl Exit | Some a \<Rightarrow> nolibc_assert (a \<noteq> 0) (k a))"

fun to_string :: "nat \<Rightarrow> u8 list" where
  "to_string n = (if n < 10 then [of_nat (48 + n)] else to_string (n div 10) @ [of_nat (48 + n mod 10)])"

declare to_string.simps [simp del]

text \<open>The loop ends with the first name that is not found; \<open>entry_bound\<close> limits it.\<close>

primrec entry_points :: "nat \<Rightarrow> dl \<Rightarrow> nat \<Rightarrow> u64 list res" where
  "entry_points 0 D i = Inl NoFuel"
| "entry_points (Suc n) D i =
     (case dl_sym D RTLD_DEFAULT (bytes ''safe_wrpkru_entry_point'' @ to_string i) of
        None \<Rightarrow> Inr []
      | Some a \<Rightarrow> rbind (entry_points n D (Suc i)) (\<lambda>as. Inr (a # as)))"

definition get_allow_list :: "nat \<Rightarrow> dl \<Rightarrow> u64 list res" where
  "get_allow_list n D =
     rbind (entry_points n D 0)
     (\<lambda>as. case dl_sym D RTLD_DEFAULT (bytes ''safe_wrpkru_entry_point_segfault'' @ to_string 0) of
        None \<Rightarrow> Inl Ud2
      | Some a \<Rightarrow> nolibc_assert (a \<noteq> 0) (nolibc_assert (length as + 1 = 4) (Inr (as @ [a]))))"

text \<open>The first \<open>wrpkru\<close> in the 256 bytes from \<open>pkey_set\<close> is overwritten with zeroes. The code of the C library can be read.\<close>

definition destroy_pkey_set :: "env \<Rightarrow> dl \<Rightarrow> 'z monitor_scheme \<Rightarrow> 'z monitor_scheme res" where
  "destroy_pkey_set E D s =
     (case dl_sym D RTLD_DEFAULT (bytes ''pkey_set'') of
        None \<Rightarrow> Inr s
      | Some loc \<Rightarrow>
          if loc = 0 then Inr s
          else case find (\<lambda>a. erim_isWRPKRU (mem_at E s) a) (map (\<lambda>i. loc + of_nat i) [0..<256]) of
            None \<Rightarrow> Inr s
          | Some a \<Rightarrow>
              let page = page_of a;
                  (r, s) = inline_syscall6 E NR_mprotect page PAGE_SIZE 3 0 0 0 s in
              if range_ok E (trace s) (pkru s) True a 3
              then let (r, s) = inline_syscall6 E NR_mprotect page PAGE_SIZE 5 0 0 0 (s\<lparr>stores := (a, [0, 0, 0]) # stores s\<rparr>)
                   in Inr s
              else Inl Segv)"

section \<open>The library of the fault handlers\<close>

text \<open>The directory of the monitor with the name of the library. Without a slash in the path the code subtracts from a null pointer.\<close>

definition libsegfault_path :: "u8 list \<Rightarrow> u8 list option" where
  "libsegfault_path path =
     (if 47 \<in> set path then Some (rev (dropWhile (\<lambda>c. c \<noteq> 47) (rev path)) @ libsegfault_file) else None)"

text \<open>The action for a signal of the monitor, with what the C library adds.\<close>

definition fault_action :: "sud_locals \<Rightarrow> addr \<Rightarrow> kernel_sigaction" where
  "fault_action L entry = \<lparr>k_sa_handler = entry, sa_flags = SA_SIGINFO OR SA_ONSTACK OR SA_NODEFER OR libc_restorer_flag L,
     sa_restorer = libc_restorer L, sa_mask = sigfillset_mask (init_threads L)\<rparr>"

definition open_libsegfault_handler :: "env \<Rightarrow> dl \<Rightarrow> start_addrs \<Rightarrow> 'z monitor_scheme \<Rightarrow> 'z monitor_scheme res" where
  "open_libsegfault_handler E D A s =
     (case libsegfault_path (path_to_secpoline s) of
        None \<Rightarrow> Inl Segv
      | Some path \<Rightarrow>
          case dl_open D path of
            None \<Rightarrow> Inl Exit
          | Some handle \<Rightarrow> nolibc_assert (handle \<noteq> 0)
              (dl_need D handle ''setup_segfault_handler'' (\<lambda>_.
               dl_need D handle ''add_breakpoint_wrapper'' (\<lambda>_.
               dl_need D handle ''add_breakpoints_after_fork_wrapper'' (\<lambda>_.
               dl_need D handle ''update_active_thread_list'' (\<lambda>_.
               rbind (update_active_thread_list E (trap_locals (init_threads (start_sud A))) False s)
               (\<lambda>s. dl_need D handle ''asm_signal_entry'' (\<lambda>entry.
                 let s = s\<lparr>asm_signal_entry := entry\<rparr>;
                     (r, s) = nolibc_rt_sigaction E SIGSEGV (Some (act_addr A, fault_action (start_sud A) entry)) 0 s in
                 nolibc_assert (r = 0)
                 (let (r, s) = nolibc_rt_sigaction E SIGTRAP (Some (act_trap_addr A, fault_action (start_sud A) entry)) 0 s in
                  nolibc_assert (r = 0) (Inr s))))))))))"

section \<open>Registering the mappings\<close>

text \<open>The pages of the fault handlers: scanned and marked, but never made non-executable.\<close>

primrec scan_handler_pages :: "env \<Rightarrow> trap_addrs \<Rightarrow> addr list \<Rightarrow> c_int \<Rightarrow> u64 list \<Rightarrow> 'z trap_scheme \<Rightarrow> 'z trap_scheme res" where
  "scan_handler_pages E A [] prot allow s = Inr s"
| "scan_handler_pages E A (a # as) prot allow s =
     rbind (erim_memScanRegion E a PAGE_SIZE (Some allow) prot prot True 0 s)
     (\<lambda>(page, prev, s). rbind (case page of None \<Rightarrow> Inr s | Some i \<Rightarrow> add_breakpoint_wrapper E A i True s)
       (scan_handler_pages E A as prot allow))"

definition init_page_group :: "env \<Rightarrow> trap_addrs \<Rightarrow> addr \<Rightarrow> addr \<Rightarrow> c_int \<Rightarrow> bool \<Rightarrow> c_int \<Rightarrow> u64 list
    \<Rightarrow> 'z trap_scheme \<Rightarrow> 'z trap_scheme res" where
  "init_page_group E A start en prot is_segfault_handler cid allow s =
     (let size = en - start; exec = (prot AND PROT_EXEC \<noteq> 0); write = (prot AND PROT_WRITE \<noteq> 0) in
      if is_segfault_handler
      then nolibc_assert (\<not> (exec \<and> write))
        (nolibc_assert (cid = TS_MONITOR)
         (rbind (if exec then scan_handler_pages E A (page_addrs start size) prot allow s else Inr s)
          (add_group E start size prot 0 TS_MONITOR False SECPOLINE_MPKEY)))
      else if exec \<and> write
      then let prot = prot AND NOT PROT_EXEC in
        rbind (mark_wx_pages (page_addrs start size) prot (cid = TS_MONITOR) s)
          (add_group E start size prot 0 cid False (get_pkey cid))
      else if exec
      then scan_exec_mapping E start size prot (prot AND NOT PROT_EXEC) 0 False cid (Some allow) s
      else add_group E start size prot 0 cid False (get_pkey cid) s)"

primrec init_lines :: "env \<Rightarrow> trap_addrs \<Rightarrow> u8 list list \<Rightarrow> mmapped_list \<Rightarrow> u64 list \<Rightarrow> 'z trap_scheme \<Rightarrow> 'z trap_scheme res" where
  "init_lines E A [] m allow s = Inr s"
| "init_lines E A (l # ls) m allow s =
     rbind (maps_line l)
     (\<lambda>e. rbind (case e of
          None \<Rightarrow> Inr s
        | Some e \<Rightarrow> init_page_group E A (me_start e) (me_end e) (me_prot e) (me_handler e)
            (if mapping_in_list (me_start e) (map start_address (mm_list m)) then TS_APPLICATION else TS_MONITOR) allow s)
       (init_lines E A ls m allow))"

text \<open>\<open>read_proc_maps\<close>: every read makes progress or ends the loop, so the size of the buffer bounds it. The result is what
  the kernel has written to the buffer. The descriptor is only compared with 0.\<close>

primrec read_maps_loop :: "env \<Rightarrow> nat \<Rightarrow> c_int \<Rightarrow> addr \<Rightarrow> u64 \<Rightarrow> u64 \<Rightarrow> 'z kern_scheme \<Rightarrow> (u64 \<times> 'z kern_scheme) res" where
  "read_maps_loop E 0 fd buf sz off s = (if off < sz - 1 then Inl NoFuel else Inr (off, s))"
| "read_maps_loop E (Suc n) fd buf sz off s =
     (if off < sz - 1
      then let (r, s) = inline_syscall6 E NR_read (scast fd) (buf + off) (sz - 1 - off) 0 0 0 s in
        if r <s 0 then Inl Ud2
        else if r = 0 then Inr (off, s)
        else read_maps_loop E n fd buf sz (off + r) s
      else Inr (off, s))"

definition read_proc_maps :: "env \<Rightarrow> start_addrs \<Rightarrow> u64 \<Rightarrow> 'z kern_scheme \<Rightarrow> (u8 list \<times> 'z kern_scheme) res" where
  "read_proc_maps E A buf_size s =
     (let (r, s) = inline_syscall6 E NR_openat (- 100) (maps_path A) 0 0 0 0 s; fd = (ucast r :: c_int) in
      nolibc_assert (fd \<noteq> 0)
      (rbind (read_maps_loop E (unat buf_size) fd (static_buf A) buf_size 0 s)
       (\<lambda>(off, s). if off \<ge> buf_size then Inl OutOfBounds
          else let bs = map (\<lambda>i. mem_at E s (static_buf A + of_nat i)) [0..<unat off];
                   (r, s) = inline_syscall6 E NR_close (scast fd) 0 0 0 0 0 s
               in Inr (bs, s))))"

text \<open>The pages of the kernel: trusted, but readable for the application.\<close>

definition tag_readonly :: "env \<Rightarrow> page_group \<Rightarrow> 'z vpm_scheme \<Rightarrow> 'z vpm_scheme res" where
  "tag_readonly E g s =
     add_group E (start_address g) (scast (pg_size g)) (permissions g) 0 TS_MONITOR False SECPOLINE_READONLY_MPKEY s"

text \<open>The page at address 0 can not be read any more once it has its own key.\<close>

definition protect_null :: "env \<Rightarrow> 'z vpm_scheme \<Rightarrow> 'z vpm_scheme res" where
  "protect_null E s =
     (let (r, s) = inline_syscall6 E NR_pkey_mprotect 0 PAGE_SIZE (scast PROT_EXEC) (scast NULL_PTR_MPKEY) 0 0 (set_sud_allow s) in
      nolibc_assert (r = 0)
      (rbind (update_mprotect E 0 PAGE_SIZE PROT_EXEC TS_MONITOR s)
       (\<lambda>(r, s). nolibc_assert (r = 0) (Inr (set_sud_block s)))))"

abbreviation (input) static_buf_size :: u64 where "static_buf_size \<equiv> 0x1000000"

definition init_page_manager :: "env \<Rightarrow> dl \<Rightarrow> start_addrs \<Rightarrow> mmapped_list \<Rightarrow> 'z dispatch_scheme \<Rightarrow> 'z dispatch_scheme res" where
  "init_page_manager E D A m s =
     rbind (open_libsegfault_handler E D A (s\<lparr>vdso_pages := Some (start_address (vdso m), pg_size (vdso m))\<rparr>))
     (\<lambda>s. rbind (destroy_pkey_set E D s)
     (\<lambda>s. rbind (get_allow_list (entry_bound A) D)
     (\<lambda>allow. rbind (read_proc_maps E A static_buf_size s)
     (\<lambda>(file_bytes, s). rbind (enable_sud E s)
     (\<lambda>s. rbind (init_lines E (trap_locals (init_threads (start_sud A))) (maps_lines file_bytes) m allow s)
     (\<lambda>s. rbind (tag_readonly E (vdso m) s)
     (\<lambda>s. rbind (tag_readonly E (vvar m) s)
     (\<lambda>s. let (r, s) = inline_syscall6 E NR_pkey_mprotect (gs_base s) PAGE_SIZE 3 (scast SECPOLINE_READONLY_MPKEY) 0 0 s in
        nolibc_assert (r = 0) (protect_null E s)))))))))"

section \<open>The main function\<close>

text \<open>The kernel must hand out the keys in the order that the constants have.\<close>

primrec alloc_keys :: "env \<Rightarrow> c_int list \<Rightarrow> 'z kern_scheme \<Rightarrow> 'z kern_scheme res" where
  "alloc_keys E [] s = Inr s"
| "alloc_keys E (k # ks) s =
     (let (r, s) = inline_syscall6 E NR_pkey_alloc 0 0 0 0 0 0 s in nolibc_assert (ucast r = k) (alloc_keys E ks s))"

text \<open>Up to the jump back to the loader with its FS base; the result has the table of handlers, the page at address 0 and the FS base of the loader.
  \<open>hook\<close> and \<open>entry\<close> are the entry points for system calls and signals.\<close>

definition secpoline_main :: "env \<Rightarrow> dl \<Rightarrow> start_addrs \<Rightarrow> addr \<Rightarrow> addr \<Rightarrow> u8 list list \<Rightarrow> addr \<Rightarrow> mmapped_list \<Rightarrow> addr \<Rightarrow> 'z dispatch_scheme
    \<Rightarrow> ((nat \<Rightarrow> syscall_handlers) \<times> u8 list \<times> addr \<times> 'z dispatch_scheme) res" where
  "secpoline_main E D A hook entry argv fsbase_loader m fsbase s =
     nolibc_assert (length argv = 5)
     (rbind (alloc_keys E [SECPOLINE_READONLY_MPKEY, UNTRUSTED_MPKEY, NULL_PTR_MPKEY] s)
     (\<lambda>s. rbind initialise_syscall_handlers
     (\<lambda>table. rbind (init_sud E (start_sud A) entry (s\<lparr>path_to_secpoline := argv ! 0, path_to_loader := argv ! 4\<rparr>))
     (\<lambda>s. rbind (init_zpoline E hook s)
     (\<lambda>(zeropage, s). rbind (init_page_manager E D A m s)
     (\<lambda>s. Inr (table, zeropage, fsbase_loader, s\<lparr>fs_base := fsbase\<rparr>)))))))"

end
