(* ===== verification/ProcMapsProps.thy ===== *)
theory ProcMapsProps
  imports ProcMaps
begin

text \<open>
  What the two readers make of a line as the kernel prints it: the addresses in hexadecimal, the permissions, and a rest that names the file.
\<close>

section \<open>Lines of the kernel\<close>

definition hex_digit :: "nat \<Rightarrow> u8" where
  "hex_digit d = (if d < 10 then of_nat (48 + d) else of_nat (87 + d))"

fun hex_digits :: "nat \<Rightarrow> u8 list" where
  "hex_digits n = (if n < 16 then [hex_digit n] else hex_digits (n div 16) @ [hex_digit (n mod 16)])"

declare hex_digits.simps [simp del]

text \<open>An address, padded with zeroes.\<close>

definition print_addr :: "nat \<Rightarrow> nat \<Rightarrow> u8 list" where
  "print_addr pad n = replicate pad 48 @ hex_digits n"

definition print_perms :: "bool \<Rightarrow> bool \<Rightarrow> bool \<Rightarrow> u8 list" where
  "print_perms r w x = [if r then 114 else 45, if w then 119 else 45, if x then 120 else 45]"

definition print_line :: "nat \<Rightarrow> nat \<Rightarrow> nat \<Rightarrow> nat \<Rightarrow> bool \<Rightarrow> bool \<Rightarrow> bool \<Rightarrow> u8 list \<Rightarrow> u8 list" where
  "print_line pad a pad' b r w x rest = print_addr pad a @ [45] @ print_addr pad' b @ [32] @ print_perms r w x @ rest"

section \<open>Numbers\<close>

lemma less_16_list: "d < (16 :: nat) \<longleftrightarrow> d \<in> set [0,1,2,3,4,5,6,7,8,9,10,11,12,13,14,15]"
  unfolding list.set insert_iff empty_iff by presburger

abbreviation hex_chars :: "u8 set" where
  "hex_chars \<equiv> {48,49,50,51,52,53,54,55,56,57,97,98,99,100,101,102}"

lemma hex_digit_cases: "d < 16 \<Longrightarrow> hex_digit d \<in> hex_chars"
  unfolding less_16_list list.set insert_iff empty_iff by (elim disjE) (simp_all add: hex_digit_def)

lemma hex_value_digit: "d < 16 \<Longrightarrow> hex_value (hex_digit d) = Some d"
  unfolding less_16_list list.set insert_iff empty_iff by (elim disjE) (simp_all add: hex_digit_def hex_value_def)

lemma hex_number_snoc: "hex_number (cs @ [c]) = 16 * hex_number cs + (case hex_value c of Some d \<Rightarrow> int d | None \<Rightarrow> 0)"
  by (simp add: hex_number_def)

lemma hex_number_digits: "hex_number (hex_digits n) = int n"
proof (induction n rule: hex_digits.induct)
  case (1 n)
  show ?case
  proof (cases "n < 16")
    case True
    then show ?thesis by (simp add: hex_digits.simps [of n] hex_number_def hex_value_digit)
  next
    case False
    have "int n = 16 * int (n div 16) + int (n mod 16)" by (simp add: zdiv_int zmod_int)
    with 1 False show ?thesis by (simp add: hex_digits.simps [of n] hex_number_snoc hex_value_digit)
  qed
qed

lemma hex_digits_chars: "set (hex_digits n) \<subseteq> hex_chars"
proof (induction n rule: hex_digits.induct)
  case (1 n)
  show ?case
  proof (cases "n < 16")
    case True
    then show ?thesis using hex_digit_cases by (simp add: hex_digits.simps [of n])
  next
    case False
    then show ?thesis using 1 hex_digit_cases [of "n mod 16"] unfolding hex_digits.simps [of n] by auto
  qed
qed

lemma hex_digits_nonempty: "hex_digits n \<noteq> []"
  by (simp add: hex_digits.simps [of n])

lemma print_addr_nonempty: "print_addr pad n \<noteq> []"
  by (simp add: print_addr_def hex_digits_nonempty)

lemma print_addr_chars: "set (print_addr pad n) \<subseteq> hex_chars"
  using hex_digits_chars [of n] by (auto simp: print_addr_def)

lemma hex_chars_hex: "c \<in> hex_chars \<Longrightarrow> is_hex c \<and> \<not> is_space c \<and> c \<notin> {32, 43, 45, 118, 120, 88, 0, 10}"
  unfolding insert_iff empty_iff by (elim disjE) (simp_all add: is_hex_def hex_value_def is_space_def)

lemma print_addr_hex: "c \<in> set (print_addr pad n) \<Longrightarrow> is_hex c"
  using print_addr_chars [of pad n] hex_chars_hex by blast

lemma hex_number_zeros: "hex_number (replicate k 48 @ cs) = hex_number cs"
  by (induction k) (simp_all add: hex_number_def hex_value_def)

lemma print_addr_number: "hex_number (print_addr pad n) = int n"
  by (simp add: print_addr_def hex_number_zeros hex_number_digits)

text \<open>Reading a printed address gives it back, and the character behind it.\<close>

lemma strtoll16_print:
  assumes "n < 2 ^ 63" "\<not> is_hex c" "c \<noteq> 120" "c \<noteq> 88"
  shows "strtoll16 (print_addr pad n @ c # rest) = (of_nat n, c # rest)"
proof -
  obtain d ds where p: "print_addr pad n = d # ds" using print_addr_nonempty by (cases "print_addr pad n") auto
  have h: "e \<in> set (d # ds) \<Longrightarrow> e \<in> hex_chars" for e using print_addr_chars [of pad n] p by auto
  have d: "\<not> is_space d" "d \<noteq> 45" "d \<noteq> 43" using hex_chars_hex [OF h [of d]] by auto
  have x: "first_byte (ds @ c # rest) \<noteq> 120" "first_byte (ds @ c # rest) \<noteq> 88"
    using hex_chars_hex [OF h [of "hd ds"]] assms(3,4) by (cases ds; simp add: first_byte_def)+
  have hex: "\<forall>e \<in> set (d # ds). is_hex e" using h hex_chars_hex by blast
  then have tw: "takeWhile is_hex (d # ds @ c # rest) = d # ds" "dropWhile is_hex (d # ds @ c # rest) = c # rest"
    using assms(2) takeWhile_append2 [of "d # ds" is_hex "c # rest"] dropWhile_append2 [of "d # ds" is_hex "c # rest"] by auto
  have v: "hex_number (d # ds) = int n" using print_addr_number [of pad n] p by simp
  have m: "min (2 ^ 63 - 1) (int n) = int n" using assms(1) by simp
  show ?thesis unfolding strtoll16_def p
    using d x tw v m by (simp add: Let_def first_byte_def [of "d # ds @ c # rest"])
qed


section \<open>Lines\<close>

text \<open>A pattern is only found behind characters that can not start it.\<close>

lemma strstr_skip: "v \<notin> set cs \<Longrightarrow> strstr (cs @ rest) (v # vs) = strstr rest (v # vs)"
  by (induction cs) auto

lemma print_line_split: "print_line pad a pad' b r w x rest = (print_addr pad a @ [45] @ print_addr pad' b @ [32] @ print_perms r w x) @ rest"
  by (simp add: print_line_def)

lemma print_perms_chars: "set (print_perms r w x) \<subseteq> {114, 119, 120, 45}"
  by (simp add: print_perms_def)

lemma line_head_chars: "set (print_addr pad a @ [45] @ print_addr pad' b @ [32] @ print_perms r w x) \<subseteq> hex_chars \<union> {114, 119, 120, 45, 32}"
  using print_addr_chars [of pad a] print_addr_chars [of pad' b] print_perms_chars [of r w x] by auto

lemma line_head_free: "c \<in> {118, 108, 10, 0} \<Longrightarrow> c \<notin> set (print_addr pad a @ [45] @ print_addr pad' b @ [32] @ print_perms r w x)"
proof -
  assume "c \<in> {118, 108, 10, 0}"
  then have "c \<notin> hex_chars \<union> {114, 119, 120, 45, 32}" by auto
  then show ?thesis using line_head_chars by blast
qed

lemma print_line_strstr:
  "strstr (print_line pad a pad' b r w x rest) (bytes ''vdso'') = strstr rest (bytes ''vdso'')"
  "strstr (print_line pad a pad' b r w x rest) (bytes ''vvar'') = strstr rest (bytes ''vvar'')"
  "strstr (print_line pad a pad' b r w x rest) libsegfault_file = strstr rest libsegfault_file"
  unfolding print_line_split libsegfault_file_def bytes_def list.map
  by (rule strstr_skip, rule line_head_free, simp)+

lemma dropWhile_find: "c \<notin> set cs \<Longrightarrow> dropWhile (\<lambda>d. d \<noteq> c) (cs @ c # rest) = c # rest"
  by (induction cs) auto

lemma print_line_read:
  assumes "a < 2 ^ 63" "b < 2 ^ 63"
  shows "strtoll16 (print_line pad a pad' b r w x rest) = (of_nat a, 45 # print_addr pad' b @ 32 # print_perms r w x @ rest)"
    "strtoll16 (print_addr pad' b @ 32 # print_perms r w x @ rest) = (of_nat b, 32 # print_perms r w x @ rest)"
    "dropWhile (\<lambda>c. c \<noteq> 32) (print_line pad a pad' b r w x rest) = 32 # print_perms r w x @ rest"
proof -
  have h: "\<not> is_hex 45" "\<not> is_hex 32" by (simp_all add: is_hex_def hex_value_def)
  show "strtoll16 (print_line pad a pad' b r w x rest) = (of_nat a, 45 # print_addr pad' b @ 32 # print_perms r w x @ rest)"
    unfolding print_line_def using strtoll16_print [OF assms(1) h(1)] by simp
  show "strtoll16 (print_addr pad' b @ 32 # print_perms r w x @ rest) = (of_nat b, 32 # print_perms r w x @ rest)"
    using strtoll16_print [OF assms(2) h(2)] by simp
  have no: "32 \<notin> set (print_addr pad a @ [45] @ print_addr pad' b)"
    using print_addr_chars [of pad a] print_addr_chars [of pad' b] by auto
  show "dropWhile (\<lambda>c. c \<noteq> 32) (print_line pad a pad' b r w x rest) = 32 # print_perms r w x @ rest"
    unfolding print_line_def using dropWhile_find [OF no, of "print_perms r w x @ rest"] by simp
qed

definition perms :: "bool \<Rightarrow> bool \<Rightarrow> bool \<Rightarrow> c_int" where
  "perms r w x = (if r then PROT_READ else 0) OR (if w then PROT_WRITE else 0) OR (if x then PROT_EXEC else 0)"

lemma perm_bits_print: "perm_bits (print_perms r w x @ rest) = perms r w x" "first_byte (print_perms r w x @ rest) \<in> {114, 45}"
  by (simp_all add: perm_bits_def print_perms_def perms_def first_byte_def)

lemma start_small: "a < 2 ^ 63 - 1 \<Longrightarrow> \<not> (0x7fffffffffffffff :: u64) \<le> of_nat a"
  by (simp add: word_le_nat_alt unat_of_nat take_bit_eq_mod)

lemma print_line_nonempty: "print_line pad a pad' b r w x rest \<noteq> []"
  by (simp add: print_line_def)

lemma maps_line_print:
  assumes "a < 2 ^ 63 - 1" "b < 2 ^ 63" "\<not> strstr rest (bytes ''vdso'')" "\<not> strstr rest (bytes ''vvar'')"
  shows "maps_line (print_line pad a pad' b r w x rest) =
    Inr (Some \<lparr>me_start = of_nat a, me_end = of_nat b, me_prot = perms r w x, me_handler = strstr rest libsegfault_file\<rparr>)"
proof -
  have a: "a < 2 ^ 63" using assms(1) by simp
  show ?thesis using start_small [OF assms(1)] assms(3,4) perm_bits_print [of r w x rest]
    by (simp add: maps_line_def print_line_nonempty print_line_strstr print_line_read [OF a assms(2)] first_byte_def [of "_ # _"])
qed

text \<open>
  C32. A line of \<open>/proc/self/maps\<close> that names a mapping below \<open>2^63 - 1\<close> other than the vdso and the vvar pages is
  read back exactly as the kernel printed it: both addresses, whatever zeroes they are padded with, the three permissions,
  and whether the file is the library of the fault handlers.
\<close>

theorem maps_line_roundtrip:
  assumes "a < 2 ^ 63 - 1" "b < 2 ^ 63" "\<not> strstr rest (bytes ''vdso'')" "\<not> strstr rest (bytes ''vvar'')"
  shows "maps_line (print_line pad a pad' b r w x rest) =
    Inr (Some \<lparr>me_start = of_nat a, me_end = of_nat b, me_prot = perms r w x, me_handler = strstr rest libsegfault_file\<rparr>)"
  using assms by (rule maps_line_print)

theorem maps_line_roundtrip_witness:
  "maps_line (print_line 0 0x555555554000 0 0x555555556000 True False True (bytes ''p 00001000 08:02 12 /bin/cat'')) =
    Inr (Some \<lparr>me_start = 0x555555554000, me_end = 0x555555556000, me_prot = 5, me_handler = False\<rparr>)"
  using maps_line_roundtrip [of "0x555555554000" "0x555555556000" "bytes ''p 00001000 08:02 12 /bin/cat''" 0 0 True False True]
  by (simp add: bytes_def perms_def libsegfault_file_def)


section \<open>The list of the loader\<close>

text \<open>A mapping as the kernel knows it, the line it prints for it, and the group the loader keeps.\<close>

record mapping =
  m_start :: nat
  m_end :: nat
  m_pads :: "nat \<times> nat"
  m_rwx :: "bool \<times> bool \<times> bool"
  m_rest :: "u8 list"

definition mapping_text :: "mapping \<Rightarrow> u8 list" where
  "mapping_text m = (case m_rwx m of (r, w, x) \<Rightarrow> print_line (fst (m_pads m)) (m_start m) (snd (m_pads m)) (m_end m) r w x (m_rest m @ [10]))"

definition mapping_group :: "mapping \<Rightarrow> page_group" where
  "mapping_group m = \<lparr>start_address = of_nat (m_start m), pg_size = ucast (of_nat (m_end m) - of_nat (m_start m) :: u64),
     permissions = (case m_rwx m of (r, w, x) \<Rightarrow> perms r w x)\<rparr>"

definition plain_mapping :: "mapping \<Rightarrow> bool" where
  "plain_mapping m \<longleftrightarrow> m_start m < 2 ^ 63 - 1 \<and> m_end m < 2 ^ 63 \<and> \<not> strstr (m_rest m @ [10]) (bytes ''vdso'') \<and>
     \<not> strstr (m_rest m @ [10]) (bytes ''vvar'') \<and> 10 \<notin> set (m_rest m) \<and> 0 \<notin> set (m_rest m) \<and> length (mapping_text m) < 256"

definition maps_text :: "mapping list \<Rightarrow> u8 list" where
  "maps_text ms = concat (map mapping_text ms)"

lemma mapping_text_line:
  assumes "plain_mapping m"
  shows "\<exists>l. mapping_text m = l @ [10] \<and> 10 \<notin> set l \<and> 0 \<notin> set l \<and> length l < 255"
proof -
  obtain r w x where rwx: "m_rwx m = (r, w, x)" by (cases "m_rwx m")
  let ?h = "print_addr (fst (m_pads m)) (m_start m) @ [45] @ print_addr (snd (m_pads m)) (m_end m) @ [32] @ print_perms r w x"
  have t: "mapping_text m = (?h @ m_rest m) @ [10]" by (simp add: mapping_text_def rwx print_line_split)
  have "10 \<notin> set ?h" "0 \<notin> set ?h" by (rule line_head_free, simp)+
  with assms t show ?thesis by (intro exI [of _ "?h @ m_rest m"]) (auto simp: plain_mapping_def)
qed

lemma fgets_line:
  assumes "10 \<notin> set l" "0 \<notin> set l" "length l < 255"
  shows "fgets_lines ((l @ [10]) @ rest) = (l @ [10]) # fgets_lines rest"
proof -
  have tw: "takeWhile (\<lambda>c. c \<noteq> 10) (l @ 10 # rest) = l" using assms(1) by (induction l) auto
  have cut: "fgets_cut ((l @ [10]) @ rest) = length (l @ [10])" using assms(3) tw by (simp add: fgets_cut_def)
  have z: "takeWhile (\<lambda>c. c \<noteq> 0) (l @ [10]) = l @ [10]" using assms(2) by (intro takeWhile_eq_all_conv [THEN iffD2]) auto
  show ?thesis by (subst fgets_lines.simps) (simp add: cut [simplified] z)
qed

lemma maps_text_lines:
  "list_all plain_mapping ms \<Longrightarrow> fgets_lines (maps_text ms) = map mapping_text ms"
proof (induction ms)
  case (Cons m ms)
  then obtain l where l: "mapping_text m = l @ [10]" "10 \<notin> set l" "0 \<notin> set l" "length l < 255"
    using mapping_text_line by auto
  with Cons show ?case using fgets_line [OF l(2-4), of "maps_text ms"] by (simp add: maps_text_def)
qed (simp add: maps_text_def fgets_lines.simps [of "[]"])

lemma get_mapping_line_plain:
  assumes "plain_mapping m" "length (mm_list s) < 256"
  shows "get_mapping_line (mapping_text m) s = Inr (s\<lparr>mm_list := mm_list s @ [mapping_group m]\<rparr>)"
proof -
  obtain r w x where rwx: "m_rwx m = (r, w, x)" by (cases "m_rwx m")
  have m: "m_start m < 2 ^ 63 - 1" "m_start m < 2 ^ 63" "m_end m < 2 ^ 63" "\<not> strstr (m_rest m @ [10]) (bytes ''vdso'')" "\<not> strstr (m_rest m @ [10]) (bytes ''vvar'')"
    using assms(1) by (auto simp: plain_mapping_def)
  show ?thesis using start_small [OF m(1)] m(4,5) perm_bits_print [of r w x "m_rest m @ [10]"] assms(2)
    by (simp add: get_mapping_line_def mapping_text_def rwx print_line_nonempty print_line_strstr print_line_read [OF m(2,3)]
        first_byte_def [of "_ # _"] mapping_group_def)
qed

text \<open>
  The list that tells the memory of the application from that of the monitor is complete: when the loader reads a
  file of up to 256 mappings, none of them the vdso or vvar pages, above \<open>2^63 - 2\<close> or on a line of more than 255 bytes, it
  keeps for each of them, in order, the address, the size as an int and the permissions.
\<close>

theorem get_mappings_complete:
  assumes "list_all plain_mapping ms" "length ms \<le> 256"
  shows "get_mappings (Some (maps_text ms)) m0 = Inr (m0\<lparr>mm_list := map mapping_group ms\<rparr>)"
proof -
  have "list_all plain_mapping ms \<Longrightarrow> length (mm_list m) + length ms \<le> 256 \<Longrightarrow>
      get_mapping_lines (map mapping_text ms) m = Inr (m\<lparr>mm_list := mm_list m @ map mapping_group ms\<rparr>)" for m ms
    by (induction ms arbitrary: m) (simp_all add: get_mapping_line_plain)
  from this [OF assms(1), of "m0\<lparr>mm_list := []\<rparr>"] assms show ?thesis
    by (simp add: get_mappings_def maps_text_lines)
qed

definition demo_mapping :: mapping where
  "demo_mapping = \<lparr>m_start = 0x400000, m_end = 0x452000, m_pads = (2, 2), m_rwx = (True, False, True), m_rest = bytes ''p 0 08:02 17 /bin/sh''\<rparr>"

lemma hex_digits_step: "16 \<le> n \<Longrightarrow> hex_digits n = hex_digits (n div 16) @ [hex_digit (n mod 16)]" "n < 16 \<Longrightarrow> hex_digits n = [hex_digit n]"
  by (simp_all add: hex_digits.simps [of n])

lemma demo_digits: "hex_digits 0x400000 = [52, 48, 48, 48, 48, 48]" "hex_digits 0x452000 = [52, 53, 50, 48, 48, 48]"
  by (simp_all add: hex_digits_step hex_digit_def)

lemma demo_mapping_plain: "plain_mapping demo_mapping"
  by (simp add: plain_mapping_def demo_mapping_def mapping_text_def print_line_def print_addr_def print_perms_def bytes_def demo_digits)

definition demo_list :: mmapped_list where
  "demo_list = \<lparr>mm_list = [], vvar = \<lparr>start_address = 0, pg_size = 0, permissions = 0\<rparr>, vdso = \<lparr>start_address = 0, pg_size = 0, permissions = 0\<rparr>\<rparr>"

theorem get_mappings_complete_witness:
  "\<exists>m. get_mappings (Some (maps_text [demo_mapping])) demo_list = Inr m \<and>
    mm_list m = [\<lparr>start_address = 0x400000, pg_size = 0x52000, permissions = 5\<rparr>]"
  using get_mappings_complete [of "[demo_mapping]" demo_list] demo_mapping_plain
  by (simp add: mapping_group_def demo_mapping_def perms_def)

text \<open>The start of the vvar pages is tested before it was ever set: with anything else in it, the first such line aborts the loader.\<close>

lemma get_mappings_uninitialised:
  assumes "start_address (vvar m0) \<noteq> 0" "of_nat a \<noteq> start_address (vvar m0) + scast (pg_size (vvar m0))"
    and "a < 2 ^ 63 - 1" "b < 2 ^ 63" "strstr rest (bytes ''vvar'')"
  shows "get_mapping_line (print_line pad a pad' b r w x rest) m0 = Inl Ud2"
proof -
  have a: "a < 2 ^ 63" using assms(3) by simp
  show ?thesis using start_small [OF assms(3)] assms(1,2,5)
    by (simp add: get_mapping_line_def print_line_nonempty print_line_strstr print_line_read [OF a assms(4)] first_byte_def [of "_ # _"])
qed

end
