(* ===== verification/StartupProps.thy ===== *)
theory StartupProps
  imports Startup ProcMapsProps EntryProps
begin

text \<open>
  What the start of the monitor guarantees of the mappings it finds, and what it does not.
\<close>

section \<open>Registering without executable memory that is writable or unscanned\<close>

text \<open>The requests of the start: never writable and executable, and executable only where scanned clean, up to the calls \<open>H\<close>.\<close>

definition start_ok :: "env \<Rightarrow> u64 list \<Rightarrow> (scall \<Rightarrow> bool) \<Rightarrow> 'z kern_scheme \<Rightarrow> 'z kern_scheme \<Rightarrow> bool" where
  "start_ok E allow H s s' \<longleftrightarrow>
     emits (\<lambda>c. \<not> wx_call c \<and> (exec_call c \<longrightarrow> covered c \<subseteq> clean_in E (Some allow) s s' \<or> H c)) s s'"

lemma start_ok_refl [simp]: "start_ok E allow H s s"
  by (simp add: start_ok_def)

lemma start_ok_emits: "start_ok E allow H s s' \<Longrightarrow> \<exists>P. emits P s s'"
  by (auto simp: start_ok_def)

lemma start_ok_trans:
  assumes "start_ok E allow H s s1" "start_ok E allow H s1 s2"
  shows "start_ok E allow H s s2"
proof -
  obtain P Q where e: "emits P s s1" "emits Q s1 s2" using assms start_ok_emits by meson
  have "emits (\<lambda>c. \<not> wx_call c \<and> (exec_call c \<longrightarrow> covered c \<subseteq> clean_in E (Some allow) s s2 \<or> H c)) s s1"
    using assms(1) clean_in_mono [OF e(2), of E "Some allow" s] unfolding start_ok_def by (elim emits_mono) blast
  moreover have "emits (\<lambda>c. \<not> wx_call c \<and> (exec_call c \<longrightarrow> covered c \<subseteq> clean_in E (Some allow) s s2 \<or> H c)) s1 s2"
    using assms(2) clean_in_earlier [OF e(1), of E "Some allow" s2] unfolding start_ok_def by (elim emits_mono) blast
  ultimately show ?thesis unfolding start_ok_def by (rule emits_trans)
qed

lemma start_ok_mono: "start_ok E allow H s s' \<Longrightarrow> (\<And>c. H c \<Longrightarrow> K c) \<Longrightarrow> start_ok E allow K s s'"
  unfolding start_ok_def by (elim emits_mono) blast

lemma start_ok_calm: "emits (\<lambda>c. \<not> exec_call c) s s' \<Longrightarrow> start_ok E allow H s s'"
  unfolding start_ok_def by (elim emits_mono) (auto dest: wx_exec_call)

lemma start_ok_scanned:
  assumes "scanned_run E (Some allow) pr s s'" "\<not> bit pr 1"
  shows "start_ok E allow H s s'"
  unfolding start_ok_def
proof (rule emits_mono [OF assms(1) [unfolded scanned_run_def]])
  fix c assume c: "scanned_call E (Some allow) pr s s' c"
  then have "exec_call c \<Longrightarrow> \<not> bit (sc_a3 c) 1" using assms(2) by (simp add: scanned_call_def scast_and_bit)
  then have "\<not> wx_call c" using wx_exec_call [of c] by (fastforce simp: wx_call_def wx_bits)
  with c show "\<not> wx_call c \<and> (exec_call c \<longrightarrow> covered c \<subseteq> clean_in E (Some allow) s s' \<or> H c)"
    by (simp add: scanned_call_def)
qed

text \<open>The entry of a page that a scan found something on has the permission it was told to note.\<close>

lemma scan_found_perm:
  assumes "erim_memScanRegion E a n wl perm up tr pv s = Inr (Some i, pv', s')"
  shows "current_perm (unsafe_pages s' ! i) = up"
proof -
  obtain pv1 s1 where "scan_result E a n wl perm up tr pv1 s1 = Inr (Some i, pv', s')"
    using assms by (auto simp: erim_memScanRegion_def rbind_eq_Inr nolibc_assert_eq_Inr)
  then show ?thesis
    by (auto simp: scan_result_def Let_def add_unsafe_page_def update_unsafe_page_def rbind_eq_Inr dest: find_entry_Some split: if_splits option.splits)
qed

lemma scan_handler_pages_calm: "bit prot 2 \<Longrightarrow> scan_handler_pages E A as prot allow s = Inr s' \<Longrightarrow>
    emits (\<lambda>c. \<not> exec_call c) s s' \<and> hb s' = hb s \<and> global_hb s' = global_hb s"
proof (induction as arbitrary: s)
  case (Cons a as)
  then obtain page prev s1 s2 where
    scan: "erim_memScanRegion E a PAGE_SIZE (Some allow) prot prot True 0 s = Inr (page, prev, s1)"
    and bp: "(case page of None \<Rightarrow> Inr s1 | Some i \<Rightarrow> add_breakpoint_wrapper E A i True s1) = Inr s2"
    and rest: "scan_handler_pages E A as prot allow s2 = Inr s'"
    by (auto simp: rbind_eq_Inr)
  have "s2 = s1"
  proof (cases page)
    case (Some i)
    have "current_perm (unsafe_pages s1 ! i) = prot" using scan_found_perm scan Some by blast
    then show ?thesis using bp Some Cons.prems(1) by (auto simp: add_breakpoint_wrapper_def c_int_and_zero split: if_splits)
  qed (use bp in simp)
  moreover have "emits (\<lambda>c. \<not> exec_call c) s s1" "erim.more s1 = erim.more s"
    using memScan_run [OF scan] by (auto simp: scan_ok_def)
  moreover from this have "hb s1 = hb s" "global_hb s1 = global_hb s" by (cases s; cases s1; simp)+
  ultimately show ?case using Cons.IH [OF Cons.prems(1) rest] by (auto intro: emits_trans)
qed simp


text \<open>The request that makes a mapping of the fault handlers executable.\<close>

definition handler_call :: "addr \<Rightarrow> addr \<Rightarrow> scall \<Rightarrow> bool" where
  "handler_call st en c \<longleftrightarrow> sc_a1 c = st \<and> sc_a2 c = en - st"

lemma add_group_data:
  assumes "add_group E st sz pr fl cid mf key s = Inr s'" "\<not> bit pr 2"
  shows "emits (\<lambda>c. \<not> exec_call c) s s'"
  by (rule emits_mono [OF add_group_emits [OF assms(1)]]) (use assms(2) in \<open>auto simp: exec_call_def scast_and_bit\<close>)

lemma add_group_exec:
  assumes "add_group E st (en - st) pr fl cid mf key s = Inr s'" "\<not> bit pr 1"
  shows "start_ok E allow (handler_call st en) s s'"
  unfolding start_ok_def
proof (rule emits_mono [OF add_group_emits [OF assms(1)]])
  fix c assume c: "exec_call c \<longrightarrow> sc_a1 c = st \<and> sc_a2 c = en - st \<and> sc_a3 c = scast pr"
  then have "exec_call c \<Longrightarrow> \<not> bit (sc_a3 c) 1" using assms(2) by (simp add: scast_and_bit)
  then have "\<not> wx_call c" using wx_exec_call [of c] by (fastforce simp: wx_call_def wx_bits)
  with c show "\<not> wx_call c \<and> (exec_call c \<longrightarrow> covered c \<subseteq> clean_in E (Some allow) s s' \<or> handler_call st en c)"
    by (simp add: handler_call_def)
qed

lemma init_page_group_ok:
  assumes run: "init_page_group E A st en prot h cid allow s = Inr s'"
  shows "start_ok E allow (\<lambda>c. h \<and> cid = TS_MONITOR \<and> handler_call st en c) s s'"
proof -
  consider (handler) "h" | (wx) "\<not> h" "bit prot 2" "bit prot 1" | (exec) "\<not> h" "bit prot 2" "\<not> bit prot 1" | (data) "\<not> h" "\<not> bit prot 2"
    by blast
  then show ?thesis
  proof cases
    case handler
    with run obtain s1 where cid: "cid = TS_MONITOR" and w: "\<not> (bit prot 2 \<and> bit prot 1)"
      and s1: "(if bit prot 2 then scan_handler_pages E A (page_addrs st (en - st)) prot allow s else Inr s) = Inr s1"
      and g: "add_group E st (en - st) prot 0 TS_MONITOR False SECPOLINE_MPKEY s1 = Inr s'"
      by (auto simp: init_page_group_def Let_def nolibc_assert_eq_Inr rbind_eq_Inr c_int_and_zero split: if_splits)
    have "emits (\<lambda>c. \<not> exec_call c) s s1" using s1 scan_handler_pages_calm [of prot E A "page_addrs st (en - st)" allow s s1] by (auto split: if_splits)
    then have "start_ok E allow (handler_call st en) s s1" by (rule start_ok_calm)
    moreover have "start_ok E allow (handler_call st en) s1 s'"
      using w by (cases "bit prot 2") (auto intro: add_group_exec [OF g] start_ok_calm [OF add_group_data [OF g]])
    ultimately show ?thesis using handler cid by (auto intro: start_ok_trans)
  next
    case wx
    with run obtain s1 where m: "mark_wx_pages (page_addrs st (en - st)) (prot AND NOT PROT_EXEC) (cid = TS_MONITOR) s = Inr s1"
      and g: "add_group E st (en - st) (prot AND NOT PROT_EXEC) 0 cid False (get_pkey cid) s1 = Inr s'"
      by (auto simp: init_page_group_def Let_def rbind_eq_Inr c_int_and_zero)
    have "emits (\<lambda>c. \<not> exec_call c) s s1" using mark_wx_pages_state [OF m] by auto
    moreover have "emits (\<lambda>c. \<not> exec_call c) s1 s'" by (rule add_group_data [OF g bit_clear_exec])
    ultimately show ?thesis by (blast intro: start_ok_calm emits_trans)
  next
    case exec
    with run have "scan_exec_mapping E st (en - st) prot (prot AND NOT PROT_EXEC) 0 False cid (Some allow) s = Inr s'"
      by (simp add: init_page_group_def Let_def c_int_and_zero)
    from scan_exec_mapping_scanned [OF this bit_clear_exec] exec(3) show ?thesis by (rule start_ok_scanned)
  next
    case data
    with run have "add_group E st (en - st) prot 0 cid False (get_pkey cid) s = Inr s'"
      by (simp add: init_page_group_def Let_def c_int_and_zero)
    from add_group_data [OF this data(2)] show ?thesis by (rule start_ok_calm)
  qed
qed


text \<open>The executable memory that the start does not scan: the library of the fault handlers, the pages of the kernel, the page at address 0
  and the page of \<open>pkey_set\<close>.\<close>

definition handler_line :: "u8 list list \<Rightarrow> mmapped_list \<Rightarrow> scall \<Rightarrow> bool" where
  "handler_line ls m c \<longleftrightarrow> (\<exists>l \<in> set ls. \<exists>e. maps_line l = Inr (Some e) \<and> me_handler e \<and>
     \<not> mapping_in_list (me_start e) (map start_address (mm_list m)) \<and> handler_call (me_start e) (me_end e) c)"

definition pkey_set_page :: "dl \<Rightarrow> scall \<Rightarrow> bool" where
  "pkey_set_page D c \<longleftrightarrow> (\<exists>loc i. dl_sym D RTLD_DEFAULT (bytes ''pkey_set'') = Some loc \<and> i < 256 \<and>
     sc_a1 c = page_of (loc + of_nat i) \<and> sc_a2 c = PAGE_SIZE)"

definition kernel_pages :: "mmapped_list \<Rightarrow> scall \<Rightarrow> bool" where
  "kernel_pages m c \<longleftrightarrow> (\<exists>g \<in> {vdso m, vvar m}. sc_a1 c = start_address g \<and> sc_a2 c = scast (pg_size g)) \<or> sc_a1 c = 0 \<and> sc_a2 c = PAGE_SIZE"

lemma init_lines_ok: "init_lines E A ls m allow s = Inr s' \<Longrightarrow> set ls \<subseteq> set all \<Longrightarrow> start_ok E allow (handler_line all m) s s'"
proof (induction ls arbitrary: s)
  case (Cons l ls)
  then obtain e s1 where e: "maps_line l = Inr e"
    and g: "(case e of None \<Rightarrow> Inr s | Some e \<Rightarrow> init_page_group E A (me_start e) (me_end e) (me_prot e) (me_handler e)
            (if mapping_in_list (me_start e) (map start_address (mm_list m)) then TS_APPLICATION else TS_MONITOR) allow s) = Inr s1"
    and r: "init_lines E A ls m allow s1 = Inr s'"
    by (auto simp: rbind_eq_Inr)
  have "start_ok E allow (handler_line all m) s s1"
  proof (cases e)
    case (Some e')
    with g have "init_page_group E A (me_start e') (me_end e') (me_prot e') (me_handler e')
            (if mapping_in_list (me_start e') (map start_address (mm_list m)) then TS_APPLICATION else TS_MONITOR) allow s = Inr s1"
      by simp
    from init_page_group_ok [OF this] show ?thesis
      by (rule start_ok_mono) (use e Some Cons.prems(2) in \<open>auto simp: handler_line_def split: if_splits\<close>)
  qed (use g in simp)
  moreover have "start_ok E allow (handler_line all m) s1 s'" using Cons.IH [OF r] Cons.prems(2) by simp
  ultimately show ?case by (rule start_ok_trans)
qed simp

lemma tag_readonly_ok:
  assumes "tag_readonly E g s = Inr s'" "g \<in> {vdso m, vvar m}" "\<not> wx (scast (permissions g))"
  shows "start_ok E allow (kernel_pages m) s s'"
  unfolding start_ok_def
proof (rule emits_mono [OF add_group_emits [OF assms(1) [unfolded tag_readonly_def]]])
  fix c assume c: "exec_call c \<longrightarrow> sc_a1 c = start_address g \<and> sc_a2 c = scast (pg_size g) \<and> sc_a3 c = scast (permissions g)"
  then have "\<not> wx_call c" using assms(3) wx_exec_call [of c] by (auto simp: wx_call_def)
  with c assms(2) show "\<not> wx_call c \<and> (exec_call c \<longrightarrow> covered c \<subseteq> clean_in E (Some allow) s s' \<or> kernel_pages m c)"
    by (auto simp: kernel_pages_def)
qed

lemma start_ok_call:
  assumes "inline_syscall6 E nr a1 a2 a3 a4 a5 a6 s = (r, s')" "\<not> wx a3" "\<And>via sel. H (SCall via sel nr a1 a2 a3 a4 a5 a6)"
  shows "start_ok E allow H s s'"
  unfolding start_ok_def using assms(1) unfolding inline_syscall6_def
  by (rule issue_emits) (use assms(2,3) in \<open>simp add: wx_call_def\<close>)

lemma protect_null_ok:
  assumes "protect_null E s = Inr s'"
  shows "start_ok E allow (kernel_pages m) s s'"
proof -
  obtain r s1 where k: "inline_syscall6 E NR_pkey_mprotect 0 PAGE_SIZE (scast PROT_EXEC) (scast NULL_PTR_MPKEY) 0 0 (set_sud_allow s) = (r, s1)"
    by fastforce
  with assms obtain r2 s2 where u: "update_mprotect E 0 PAGE_SIZE PROT_EXEC TS_MONITOR s1 = Inr (r2, s2)" and s': "s' = set_sud_block s2"
    by (auto simp: protect_null_def Let_def nolibc_assert_eq_Inr rbind_eq_Inr)
  have "start_ok E allow (kernel_pages m) (set_sud_allow s) s1"
    by (rule start_ok_call [OF k]) (simp_all add: wx_bits kernel_pages_def)
  moreover have "emits (\<lambda>c. \<not> exec_call c) s1 s'" using update_mprotect_emits [OF u] s' by (simp add: emits_def sud_defs)
  ultimately have "start_ok E allow (kernel_pages m) (set_sud_allow s) s'" by (blast intro: start_ok_calm start_ok_trans)
  then show ?thesis using clean_in_cong [of "set_sud_allow s" s s' s'] by (simp add: start_ok_def emits_def sud_defs)
qed

lemma destroy_pkey_set_ok:
  assumes "destroy_pkey_set E D s = Inr s'"
  shows "start_ok E allow (pkey_set_page D) s s'"
proof (cases "s' = s")
  case False
  then obtain loc a where loc: "dl_sym D RTLD_DEFAULT (bytes ''pkey_set'') = Some loc"
    and a: "find (\<lambda>a. erim_isWRPKRU (mem_at E s) a) (map (\<lambda>i. loc + of_nat i) [0..<256]) = Some a"
    using assms by (auto simp: destroy_pkey_set_def split: option.splits if_splits)
  from a obtain i where i: "i < 256" "a = loc + of_nat i" by (auto simp: find_Some_iff)
  obtain r1 s1 where k1: "inline_syscall6 E NR_mprotect (page_of a) PAGE_SIZE 3 0 0 0 s = (r1, s1)" by fastforce
  obtain r2 s2 where k2: "inline_syscall6 E NR_mprotect (page_of a) PAGE_SIZE 5 0 0 0 (s1\<lparr>stores := (a, [0, 0, 0]) # stores s1\<rparr>) = (r2, s2)"
    by fastforce
  have "s' = s2" using assms False loc a k1 k2 by (auto simp: destroy_pkey_set_def Let_def split: if_splits)
  moreover have p: "pkey_set_page D (SCall via sel nr (page_of a) PAGE_SIZE p a4 a5 a6)" for via sel nr p a4 a5 a6
    using loc i by (auto simp: pkey_set_page_def)
  have "start_ok E allow (pkey_set_page D) s s1" by (rule start_ok_call [OF k1]) (simp_all add: wx_bits p)
  moreover have "start_ok E allow (pkey_set_page D) (s1\<lparr>stores := (a, [0, 0, 0]) # stores s1\<rparr>) s2"
    by (rule start_ok_call [OF k2]) (simp_all add: wx_bits p)
  ultimately show ?thesis using start_ok_trans [of E allow _ s s1 s2] clean_in_cong [of "s1\<lparr>stores := (a, [0, 0, 0]) # stores s1\<rparr>" s1 s2 s2]
    by (simp add: start_ok_def emits_def)
qed simp


lemma dl_need_eq_Inr: "dl_need D h name k = Inr y \<Longrightarrow> \<exists>a. a \<noteq> 0 \<and> k a = Inr y"
  by (auto simp: dl_need_def nolibc_assert_eq_Inr split: option.splits)

lemma calm_need: "(\<And>a. calm f s (k a)) \<Longrightarrow> calm f s (dl_need D h name k)"
  unfolding calm_def by (blast dest: dl_need_eq_Inr)

lemma open_libsegfault_calm: "trace s0 = trace s \<Longrightarrow> calm id s (open_libsegfault_handler E D A s0)"
  unfolding open_libsegfault_handler_def
  by (auto intro!: calm_need calm_assert calm_seq [OF calm_cong [OF thread_list_calm]] rt_sigaction_calm simp: Let_def split: option.splits)

lemma read_maps_loop_calm: "calm snd s (read_maps_loop E n fd buf sz off s)"
  by (induction n arbitrary: off s) (auto intro!: calm_inline simp: Let_def)

lemma read_proc_maps_calm: "calm snd s (read_proc_maps E A n s)"
proof -
  have c: "calm snd s1 (let bs = f s1; (r, s) = inline_syscall6 E NR_close a 0 0 0 0 0 s1 in Inr (bs, s))"
    for s1 :: "'a kern_scheme" and f :: "'a kern_scheme \<Rightarrow> u8 list" and a
    unfolding Let_def by (auto intro!: calm_inline)
  show ?thesis unfolding read_proc_maps_def Let_def
    by (auto intro!: calm_inline calm_assert calm_pair [OF read_maps_loop_calm] c [unfolded Let_def])
qed

lemma retag_ok: "start_ok E allow H s (snd (inline_syscall6 E NR_pkey_mprotect a n 3 k 0 0 s))"
  by (rule start_ok_calm) (simp add: syscall_defs Let_def emits_def exec_call_def)



section \<open>An example start\<close>

text \<open>One mapping of the application in the file, read in one piece.\<close>

definition demo_data_mapping :: mapping where
  "demo_data_mapping = demo_mapping\<lparr>m_rwx := (True, False, False)\<rparr>"

definition demo_start_env :: env where
  "demo_start_env = \<lparr>kernel = (\<lambda>t. case t of SCall via sel nr a1 a2 a3 a4 a5 a6 # _ \<Rightarrow>
       if nr = 257 then 3 else if nr = 0 then (if a3 = 0xffffff then of_nat (length (mapping_text demo_data_mapping)) else 0) else 0 | [] \<Rightarrow> 0),
     memory = (\<lambda>t a. if unat (a - 0x900000) < length (mapping_text demo_data_mapping) then mapping_text demo_data_mapping ! unat (a - 0x900000) else 0),
     page_perm = (\<lambda>t a. 3), page_key = (\<lambda>t a. 0)\<rparr>"

definition demo_dl :: dl where
  "demo_dl = \<lparr>dl_open = (\<lambda>p. Some 1), dl_sym = (\<lambda>h n. if length n = 8 \<or> length n = 24 \<and> last n = 51 then None else Some 0x7000)\<rparr>"

definition demo_start_addrs :: start_addrs where
  "demo_start_addrs = \<lparr>start_sud = demo_sud_locals, maps_path = 0x100, static_buf = 0x900000, act_addr = 0x200, act_trap_addr = 0x300, entry_bound = Suc (Suc (Suc (Suc 0)))\<rparr>"

definition demo_start_list :: mmapped_list where
  "demo_start_list = \<lparr>mm_list = [mapping_group demo_data_mapping], vvar = \<lparr>start_address = 0x6ffc000, pg_size = 0x4000, permissions = 1\<rparr>,
     vdso = \<lparr>start_address = 0x7000000, pg_size = 0x2000, permissions = 4\<rparr>\<rparr>"

definition demo_start :: dispatch where
  "demo_start = demo_dispatch\<lparr>pages := [demo_page 0 4096 5 0], path_to_secpoline := [47, 115]\<rparr>"

lemma demo_data_text: "length (mapping_text demo_data_mapping) = 42" "plain_mapping demo_data_mapping"
  by (simp_all add: plain_mapping_def demo_mapping_def demo_data_mapping_def mapping_text_def print_line_def print_addr_def print_perms_def bytes_def demo_digits)

lemma demo_strings: "to_string 0 = [48]" "to_string (Suc 0) = [49]" "to_string (Suc (Suc 0)) = [50]" "to_string (Suc (Suc (Suc 0))) = [51]"
  by (simp_all add: to_string.simps)

lemma demo_allow: "get_allow_list (entry_bound demo_start_addrs) demo_dl = Inr [0x7000, 0x7000, 0x7000, 0x7000]"
  by (simp add: demo_start_addrs_def get_allow_list_def demo_dl_def bytes_def demo_strings)

lemma demo_start_kernel [simp]: "kernel demo_start_env (SCall via sel nr a1 a2 a3 a4 a5 a6 # t) =
    (if nr = 257 then 3 else if nr = 0 then (if a3 = 0xffffff then 42 else 0) else 0)"
  by (simp add: demo_start_env_def demo_data_text)

lemma demo_start_bytes: "map (\<lambda>i. mem_at demo_start_env s (0x900000 + of_nat i)) [0..<42] = mapping_text demo_data_mapping"
proof (rule nth_equalityI)
  fix i assume "i < length (map (\<lambda>i. mem_at demo_start_env s (0x900000 + of_nat i)) [0..<42])"
  then have "i < 42" by simp
  then have "unat (of_nat i :: u64) = i" by (simp add: unat_of_nat_small)
  with \<open>i < 42\<close> show "map (\<lambda>i. mem_at demo_start_env s (0x900000 + of_nat i)) [0..<42] ! i = mapping_text demo_data_mapping ! i"
    by (simp add: mem_at_def demo_start_env_def demo_data_text)
qed (simp add: demo_data_text)

lemma demo_read_loop: "\<exists>t. read_maps_loop demo_start_env 16777216 3 0x900000 0x1000000 0 s = Inr (42, s\<lparr>trace := t\<rparr>)"
proof -
  have n: "(16777216 :: nat) = Suc (Suc 16777214)" by simp
  show ?thesis unfolding n read_maps_loop.simps by (simp add: syscall_defs word_sless_alt) blast
qed

lemma demo_read_maps: "\<exists>t. read_proc_maps demo_start_env demo_start_addrs 0x1000000 s = Inr (mapping_text demo_data_mapping, s\<lparr>trace := t\<rparr>)"
proof -
  obtain t where "read_maps_loop demo_start_env 16777216 3 0x900000 0x1000000 0
      (s\<lparr>trace := SCall Inline (sud_selector s) 257 (- 100) 0x100 0 0 0 0 # trace s\<rparr>) = Inr (42, s\<lparr>trace := t\<rparr>)"
    using demo_read_loop [of "s\<lparr>trace := SCall Inline (sud_selector s) 257 (- 100) 0x100 0 0 0 0 # trace s\<rparr>"] by auto
  moreover have "static_buf demo_start_addrs = 0x900000" "maps_path demo_start_addrs = 0x100" by (simp_all add: demo_start_addrs_def)
  ultimately show ?thesis by (auto simp: read_proc_maps_def syscall_defs demo_start_bytes Let_def)
qed

lemma maps_lines_one: "10 \<notin> set l \<Longrightarrow> 0 \<notin> set l \<Longrightarrow> maps_lines (l @ [10]) = [l]"
proof -
  assume a: "10 \<notin> set l" "0 \<notin> set l"
  have "takeWhile (\<lambda>c. c \<noteq> 10) (l @ [10]) = l" "dropWhile (\<lambda>c. c \<noteq> 10) (l @ [10]) = [10]" using a(1) by (induction l) auto
  moreover have "takeWhile (\<lambda>c. c \<noteq> 0) l = l" using a(2) by (intro takeWhile_eq_all_conv [THEN iffD2]) auto
  ultimately show ?thesis by (simp add: maps_lines.simps [of "l @ [10]"] maps_lines.simps [of "[]"] line_of_def)
qed

lemma demo_line: "\<exists>l. maps_lines (mapping_text demo_data_mapping) = [l] \<and>
    maps_line l = Inr (Some \<lparr>me_start = 0x400000, me_end = 0x452000, me_prot = 1, me_handler = False\<rparr>)"
proof -
  let ?l = "print_line 2 0x400000 2 0x452000 True False False (bytes ''p 0 08:02 17 /bin/sh'')"
  have t: "mapping_text demo_data_mapping = ?l @ [10]"
    by (simp add: mapping_text_def demo_data_mapping_def demo_mapping_def print_line_def)
  obtain l' where "mapping_text demo_data_mapping = l' @ [10]" "10 \<notin> set l'" "0 \<notin> set l'"
    using mapping_text_line [OF demo_data_text(2)] by blast
  with t have "maps_lines (mapping_text demo_data_mapping) = [?l]" using maps_lines_one [of ?l] by simp
  moreover have "maps_line ?l = Inr (Some \<lparr>me_start = 0x400000, me_end = 0x452000, me_prot = 1, me_handler = False\<rparr>)"
    using maps_line_print [of "0x400000" "0x452000" "bytes ''p 0 08:02 17 /bin/sh''" 2 2 True False False]
    by (simp add: bytes_def perms_def libsegfault_file_def)
  ultimately show ?thesis by blast
qed


text \<open>What the page manager needs in every step of the example.\<close>

definition demo_pm :: "nat \<Rightarrow> virt_page list \<Rightarrow> 'z vpm_scheme \<Rightarrow> bool" where
  "demo_pm n ps s \<longleftrightarrow> pages s = ps \<and> \<not> pm_lock s \<and> free_pages s = n"

lemma demo_pm_trace [simp]: "demo_pm n ps (s\<lparr>trace := t\<rparr>) = demo_pm n ps s" "demo_pm n ps (s\<lparr>sud_selector := v\<rparr>) = demo_pm n ps s"
  by (simp_all add: demo_pm_def)

lemma demo_add_group:
  assumes "demo_pm (Suc n) ps s" "page_aligned st" "add_page_insert (new_page st sz pr fl cid) False ps = Inr (0, qs)"
  shows "\<exists>s'. add_group demo_start_env st sz pr fl cid False key s = Inr s' \<and> demo_pm n qs s'"
  using assms
  by (auto simp: demo_pm_def add_group_def add_page_def locked_def add_page_locked_def virt_page_alloc_def sud_defs syscall_defs Let_def)

lemma demo_open:
  "\<exists>s'. open_libsegfault_handler demo_start_env demo_dl demo_start_addrs (demo_start\<lparr>vdso_pages := v\<rparr>) = Inr s' \<and> demo_pm 10 [demo_page 0 4096 5 0] s'"
  by (simp add: open_libsegfault_handler_def dl_need_def demo_dl_def libsegfault_path_def demo_start_def demo_dispatch_def monitor.defs
      demo_monitor_def demo_trap_def trap.defs signals.defs demo_sig_defs update_active_thread_list_def set_all_hbreakpoits_def hb_controller_init_def
      nolibc_gettid_def nolibc_getpid_def nolibc_rt_sigaction_def bytes_def sud_defs syscall_defs demo_pm_def Let_def)


definition demo_pages :: "virt_page list" where
  "demo_pages = [demo_page 0 4096 5 0, new_page 0x400000 0x52000 1 0 1, new_page 0x6ffc000 0x4000 1 0 0, new_page 0x7000000 0x2000 4 0 0]"

lemma demo_inserts:
  "add_page_insert (new_page 0x400000 0x52000 1 0 1) False [demo_page 0 4096 5 0] = Inr (0, take 2 demo_pages)"
  "add_page_insert (new_page 0x7000000 0x2000 4 0 0) False (take 2 demo_pages) = Inr (0, take 2 demo_pages @ drop 3 demo_pages)"
  "add_page_insert (new_page 0x6ffc000 0x4000 1 0 0) False (take 2 demo_pages @ drop 3 demo_pages) = Inr (0, demo_pages)"
  by (simp_all add: demo_pages_def page_run_defs demo_page_def)

lemma demo_null:
  assumes "demo_pm n demo_pages s"
  shows "\<exists>s'. protect_null demo_start_env s = Inr s'"
  using assms
  by (simp add: demo_pm_def demo_pages_def protect_null_def syscall_defs update_mprotect_def locked_def update_mprotect_locked_def vp_end_def
      new_page_def demo_page_def virt_page_overlap_byte_def sud_defs Let_def)

lemma demo_lines:
  assumes "demo_pm 10 [demo_page 0 4096 5 0] s"
  shows "\<exists>s'. init_lines demo_start_env A (maps_lines (mapping_text demo_data_mapping)) demo_start_list allow s = Inr s' \<and> demo_pm 9 (take 2 demo_pages) s'"
proof -
  obtain l where l: "maps_lines (mapping_text demo_data_mapping) = [l]"
    "maps_line l = Inr (Some \<lparr>me_start = 0x400000, me_end = 0x452000, me_prot = 1, me_handler = False\<rparr>)" using demo_line by blast
  obtain s' where g: "add_group demo_start_env 0x400000 0x52000 1 0 1 False 2 s = Inr s'" "demo_pm 9 (take 2 demo_pages) s'"
    using demo_add_group [of 9 _ s "0x400000", OF _ _ demo_inserts(1)] assms by (auto simp: page_aligned_def)
  have "mapping_in_list 0x400000 (map start_address (mm_list demo_start_list))"
    by (simp add: mapping_in_list_def demo_start_list_def mapping_group_def demo_data_mapping_def demo_mapping_def)
  with l g show ?thesis by (simp add: init_page_group_def get_pkey_def)
qed

lemma demo_start_run: "\<exists>s'. init_page_manager demo_start_env demo_dl demo_start_addrs demo_start_list demo_start = Inr s'"
proof -
  obtain s1 where s1: "open_libsegfault_handler demo_start_env demo_dl demo_start_addrs (demo_start\<lparr>vdso_pages := Some (0x7000000, 0x2000)\<rparr>) = Inr s1"
    "demo_pm 10 [demo_page 0 4096 5 0] s1" using demo_open by blast
  have d: "destroy_pkey_set demo_start_env demo_dl s1 = Inr s1" by (simp add: destroy_pkey_set_def demo_dl_def bytes_def)
  obtain t where r: "read_proc_maps demo_start_env demo_start_addrs 0x1000000 s1 = Inr (mapping_text demo_data_mapping, s1\<lparr>trace := t\<rparr>)"
    using demo_read_maps by blast
  obtain t' where e: "enable_sud demo_start_env (s1\<lparr>trace := t\<rparr>) = Inr (s1\<lparr>trace := t'\<rparr>)" by (simp add: enable_sud_def syscall_defs)
  obtain s5 where s5: "init_lines demo_start_env (trap_locals (init_threads (start_sud demo_start_addrs)))
      (maps_lines (mapping_text demo_data_mapping)) demo_start_list [0x7000, 0x7000, 0x7000, 0x7000] (s1\<lparr>trace := t'\<rparr>) = Inr s5"
    "demo_pm (Suc 8) (take 2 demo_pages) s5" using demo_lines [of "s1\<lparr>trace := t'\<rparr>"] s1(2) by fastforce
  obtain s6 where s6: "tag_readonly demo_start_env (vdso demo_start_list) s5 = Inr s6" "demo_pm (Suc 7) (take 2 demo_pages @ drop 3 demo_pages) s6"
    using demo_add_group [OF s5(2) _ demo_inserts(2), of 1] by (auto simp: tag_readonly_def demo_start_list_def page_aligned_def)
  obtain s7 where s7: "tag_readonly demo_start_env (vvar demo_start_list) s6 = Inr s7" "demo_pm 7 demo_pages s7"
    using demo_add_group [OF s6(2) _ demo_inserts(3), of 1] by (auto simp: tag_readonly_def demo_start_list_def page_aligned_def)
  let ?k = "inline_syscall6 demo_start_env NR_pkey_mprotect (gs_base s7) PAGE_SIZE 3 1 0 0 s7"
  have "demo_pm 7 demo_pages (snd ?k)" "fst ?k = 0" using s7(2) by (simp_all add: syscall_defs Let_def)
  then obtain s9 where "protect_null demo_start_env (snd ?k) = Inr s9" using demo_null by blast
  with s1 d r e s5 s6 s7 \<open>fst ?k = 0\<close> show ?thesis
    by (simp add: init_page_manager_def demo_allow demo_start_list_def case_prod_unfold Let_def)
qed


lemma add_group_hb: "add_group E st sz pr fl cid mf key (s :: 'z trap_scheme) = Inr s' \<Longrightarrow> hb s' = hb s"
proof -
  assume "add_group E st sz pr fl cid mf key s = Inr s'"
  then obtain r s1 where a: "add_page E st sz pr fl cid mf s = Inr (r, s1)" and s': "\<exists>t. s' = s1\<lparr>trace := t\<rparr>"
    by (auto simp: add_group_def rbind_eq_Inr nolibc_assert_eq_Inr syscall_defs Let_def)
  from add_page_more [OF a] have "hb s1 = hb s" by (cases s; cases s1) simp
  with s' show ?thesis by auto
qed

text \<open>
  The breakpoints of the fault handlers are never set. An unsafe instruction in the library of the fault handlers is entered
  in the list of unsafe pages with the permission to execute, which the wrapper takes for a page that already has its breakpoints: the
  start leaves the hardware breakpoints as they were, whatever the scan finds.
\<close>

theorem handler_pages_unguarded:
  assumes "init_page_group E A st en prot True cid allow s = Inr s'"
  shows "hb s' = hb s"
  using assms scan_handler_pages_calm [of prot E A "page_addrs st (en - st)" allow s]
  by (auto simp: init_page_group_def Let_def nolibc_assert_eq_Inr rbind_eq_Inr c_int_and_zero dest!: add_group_hb split: if_splits)

definition demo_handler_state :: trap where
  "demo_handler_state = (demo_trap [])\<lparr>pages := []\<rparr>"

lemma demo_handler_hit: "scan_region demo_mem (Some []) 4096 4096 \<noteq> []"
proof -
  have "spaced demo_mem 4096 4096" unfolding spaced_def demo_mem_insn using of_nat_5000 by auto
  then have "4096 + of_nat 904 \<in> set (scan_region demo_mem (Some []) 4096 4096)"
    by (rule scan_region_complete [where ty = TYPE_WRPKRU])
      (simp_all add: demo_mem_at unsafe_insn_def checkWhitelistedWRPKRU_def isBenignWRPKRU_def demo_mem_def)
  then show ?thesis by auto
qed

lemma demo_handler_run:
  "\<exists>s'. init_page_group demo_bp_env demo_trap_addrs 4096 8192 5 True 0 [] demo_handler_state = Inr s' \<and>
     map unsafe_instructions (unsafe_pages s') = [Some (scan_region demo_mem (Some []) 4096 4096)]"
proof -
  have p: "page_addrs 4096 4096 = [4096]" by (simp add: page_addrs_def)
  show ?thesis using demo_handler_hit
    by (simp add: init_page_group_def p demo_handler_state_def demo_trap_fields demo_trap_def signals.defs demo_sig_defs erim_memScanRegion_def
        scan_prev_page_def scan_next_page_def lookup_addr_def locked_def sud_defs scan_result_def demo_mem_bp add_unsafe_page_def
        update_unsafe_page_def add_breakpoint_wrapper_def add_group_def page_run_defs syscall_defs demo_kernel Let_def)
qed

theorem handler_pages_unguarded_witness:
  "\<exists>s'. init_page_group demo_bp_env demo_trap_addrs 4096 8192 5 True 0 [] demo_handler_state = Inr s' \<and>
     map unsafe_instructions (unsafe_pages s') = [Some (scan_region demo_mem (Some []) 4096 4096)] \<and>
     scan_region demo_mem (Some []) 4096 4096 \<noteq> [] \<and> hb s' = hb_controller_init"
  using demo_handler_run
proof (elim exE conjE)
  fix s' assume r: "init_page_group demo_bp_env demo_trap_addrs 4096 8192 5 True 0 [] demo_handler_state = Inr s'"
    "map unsafe_instructions (unsafe_pages s') = [Some (scan_region demo_mem (Some []) 4096 4096)]"
  have "hb demo_handler_state = hb_controller_init" by (simp add: demo_handler_state_def demo_trap_def signals.defs)
  then have "hb s' = hb_controller_init" using handler_pages_unguarded [OF r(1)] by (rule trans [rotated])
  then show ?thesis using r demo_handler_hit by (intro exI [of _ s'] conjI)
qed

end
