(* ===== verification/Memory.thy ===== *)
theory Memory
  imports Sud ProcMaps SignalsProps
begin

text \<open>
  The memory of the loader as bytes that it reads and writes itself, and what a store leaves of the words around it.
\<close>

type_synonym mem = "addr \<Rightarrow> u8"

definition put_bytes :: "mem \<Rightarrow> addr \<Rightarrow> u8 list \<Rightarrow> mem" where
  "put_bytes m a bs = (\<lambda>x. if unat (x - a) < length bs then bs ! unat (x - a) else m x)"

lemma put_bytes_region:
  assumes "length bs \<le> unat (b - a)" "k \<le> unat (a - b)" "j < k" "k \<le> 2 ^ 32" "length bs \<le> 2 ^ 32"
  shows "put_bytes m a bs (b + of_nat j) = m (b + of_nat j)"
proof -
  have "\<not> unat (b + of_nat j - a) < length bs"
  proof
    define x where "x = unat (b + of_nat j - a)"
    assume "unat (b + of_nat j - a) < length bs"
    then have x: "x < length bs" by (simp add: x_def)
    have e: "b + of_nat j - a = of_nat x" by (simp add: x_def)
    show False
    proof (cases "j \<le> x")
      case True
      then have "b - a = of_nat (x - j)" using e by (simp add: of_nat_diff algebra_simps)
      then have "unat (b - a) = x - j" using x assms(5) by (simp add: unat_of_nat_small)
      with x assms(1) show False by simp
    next
      case False
      then have "a - b = of_nat (j - x)" using e by (simp add: of_nat_diff algebra_simps)
      then have "unat (a - b) = j - x" using assms(3,4) by (simp add: unat_of_nat_small)
      with assms(2,3) show False by simp
    qed
  qed
  then show ?thesis by (simp add: put_bytes_def)
qed

lemma load64_cong: "(\<And>j. j < 8 \<Longrightarrow> m (a + of_nat j) = m' (a + of_nat j)) \<Longrightarrow> load64 m a = load64 m' a"
  unfolding load64_def by (intro foldr_cong) auto

lemma load64_put_other:
  assumes "length bs \<le> unat (b - a)" "8 \<le> unat (a - b)" "length bs \<le> 2 ^ 32"
  shows "load64 (put_bytes m a bs) b = load64 m b"
  using put_bytes_region [OF assms(1,2) _ _ assms(3)] by (intro load64_cong) simp

lemma load64_bytes: "load64 m a = word_of_bytes (map (\<lambda>i. m (a + of_nat i)) [0..<8])"
  by (simp add: load64_def word_of_bytes_def foldr_map comp_def)

lemma load64_put_same: "load64 (put_bytes m a (store64 v)) a = v"
proof -
  have "map (\<lambda>i. put_bytes m a (store64 v) (a + of_nat i)) [0..<8] = store64 v"
    by (rule nth_equalityI) (simp_all add: put_bytes_def store64_def unat_of_nat_small)
  then show ?thesis by (simp add: load64_bytes)
qed

lemma load32_put_other:
  assumes "length bs \<le> unat (b - a)" "4 \<le> unat (a - b)" "length bs \<le> 2 ^ 32"
  shows "load32 (put_bytes m a bs) b = load32 m b"
proof -
  have "put_bytes m a bs (b + of_nat j) = m (b + of_nat j)" if "j < 4" for j
    using put_bytes_region [OF assms(1,2) that _ assms(3)] by simp
  from this [of 0] this [of 1] this [of 2] this [of 3] show ?thesis by (simp add: load32_def)
qed

lemma load16_put_other:
  assumes "length bs \<le> unat (b - a)" "2 \<le> unat (a - b)" "length bs \<le> 2 ^ 32"
  shows "load16 (put_bytes m a bs) b = load16 m b"
proof -
  have "put_bytes m a bs (b + of_nat j) = m (b + of_nat j)" if "j < 2" for j
    using put_bytes_region [OF assms(1,2) that _ assms(3)] by simp
  from this [of 0] this [of 1] show ?thesis by (simp add: load16_def)
qed

lemma unat_minus_one_64: "unat (- 1 :: u64) = 2 ^ 64 - 1"
  by (simp add: unsigned_minus_1_eq_mask mask_eq_exp_minus_1)

end
