(* ===== verification/Elf.thy ===== *)
theory Elf
  imports Memory
begin

text \<open>
  ELF files in memory: \<open>src/src/secpoline_loader/loader/elf.c\<close>. The structures are read from the bytes of the memory at the offsets of \<open>elf.h\<close>: an \<open>Elf64_Dyn\<close> has 16
  bytes, an \<open>Elf64_Phdr\<close> 56, an \<open>Elf64_Sym\<close> 24 and an \<open>Elf64_Rela\<close> 24. A pointer that is tested for null is an option or
  0; the use of a null table is \<open>Inl NullDeref\<close>. A loop that ends at a terminator in the memory is limited by a number \<open>n\<close> of rounds.
\<close>

type_synonym u32 = "32 word"

section \<open>The header\<close>

definition elf_verify_header :: "mem \<Rightarrow> addr \<Rightarrow> bool" where
  "elf_verify_header m h \<longleftrightarrow>
     m h = 0x7f \<and> m (h + 1) = 0x45 \<and> m (h + 2) = 0x4c \<and> m (h + 3) = 0x46 \<and>
     m (h + 4) = 2 \<and> m (h + 5) = 1 \<and> m (h + 6) = 1 \<and> (m (h + 7) = 0 \<or> m (h + 7) = 3) \<and> m (h + 8) = 0 \<and>
     (load16 m (h + 16) = 2 \<or> load16 m (h + 16) = 3) \<and> load16 m (h + 18) = 62 \<and> load32 m (h + 20) = 1 \<and> load16 m (h + 52) = 64"

definition e_type :: "mem \<Rightarrow> addr \<Rightarrow> 16 word" where "e_type m h = load16 m (h + 16)"
definition e_entry :: "mem \<Rightarrow> addr \<Rightarrow> u64" where "e_entry m h = load64 m (h + 24)"
definition e_phoff :: "mem \<Rightarrow> addr \<Rightarrow> u64" where "e_phoff m h = load64 m (h + 32)"
definition e_phnum :: "mem \<Rightarrow> addr \<Rightarrow> 16 word" where "e_phnum m h = load16 m (h + 56)"

section \<open>Program headers and the dynamic section\<close>

definition p_type :: "mem \<Rightarrow> addr \<Rightarrow> u32" where "p_type m p = load32 m p"
definition p_vaddr :: "mem \<Rightarrow> addr \<Rightarrow> u64" where "p_vaddr m p = load64 m (p + 16)"

primrec phdr_find :: "mem \<Rightarrow> nat \<Rightarrow> addr \<Rightarrow> u32 \<Rightarrow> addr option" where
  "phdr_find m 0 p type = None"
| "phdr_find m (Suc n) p type = (if p_type m p = type then Some p else phdr_find m n (p + 56) type)"

definition phdr_get_ent :: "mem \<Rightarrow> addr \<Rightarrow> u64 \<Rightarrow> u32 \<Rightarrow> addr option" where
  "phdr_get_ent m phdr phdrs type = phdr_find m (unat phdrs) phdr type"

definition phdr_get_dyn :: "mem \<Rightarrow> addr \<Rightarrow> u64 \<Rightarrow> addr \<Rightarrow> addr option" where
  "phdr_get_dyn m phdr phdrs base = (case phdr_get_ent m phdr phdrs 2 of None \<Rightarrow> None | Some ent \<Rightarrow> Some (base + p_vaddr m ent))"

primrec dyn_get_ent :: "nat \<Rightarrow> mem \<Rightarrow> addr \<Rightarrow> u64 \<Rightarrow> addr option res" where
  "dyn_get_ent 0 m dyn tag = Inl NoFuel"
| "dyn_get_ent (Suc n) m dyn tag =
     (if load64 m dyn = 0 then Inr None
      else if load64 m dyn = tag then Inr (Some dyn) else dyn_get_ent n m (dyn + 16) tag)"

text \<open>\<open>if (ent == NULL) return NULL; return base + ent->d_un.d_ptr\<close>, and the same for a number, which is 0 if there is no entry.\<close>

definition dyn_ptr :: "nat \<Rightarrow> mem \<Rightarrow> addr \<Rightarrow> addr \<Rightarrow> u64 \<Rightarrow> addr option res" where
  "dyn_ptr n m dyn base tag = rbind (dyn_get_ent n m dyn tag) (\<lambda>ent. Inr (case ent of None \<Rightarrow> None | Some e \<Rightarrow> Some (base + load64 m (e + 8))))"

definition dyn_count :: "nat \<Rightarrow> mem \<Rightarrow> addr \<Rightarrow> u64 \<Rightarrow> u64 \<Rightarrow> u64 res" where
  "dyn_count n m dyn tag sz = rbind (dyn_get_ent n m dyn tag) (\<lambda>ent. Inr (case ent of None \<Rightarrow> 0 | Some e \<Rightarrow> load64 m (e + 8) div sz))"

definition dyn_get_symtab :: "nat \<Rightarrow> mem \<Rightarrow> addr \<Rightarrow> addr \<Rightarrow> addr option res" where
  "dyn_get_symtab n m dyn base = dyn_ptr n m dyn base 6"

definition dyn_get_elf_hash :: "nat \<Rightarrow> mem \<Rightarrow> addr \<Rightarrow> addr \<Rightarrow> addr option res" where
  "dyn_get_elf_hash n m dyn base = dyn_ptr n m dyn base 4"

definition dyn_get_gnu_hash :: "nat \<Rightarrow> mem \<Rightarrow> addr \<Rightarrow> addr \<Rightarrow> addr option res" where
  "dyn_get_gnu_hash n m dyn base = dyn_ptr n m dyn base 0x6ffffef5"

definition dyn_get_strtab :: "nat \<Rightarrow> mem \<Rightarrow> addr \<Rightarrow> addr \<Rightarrow> addr option res" where
  "dyn_get_strtab n m dyn base = dyn_ptr n m dyn base 5"

definition dyn_get_soname :: "nat \<Rightarrow> mem \<Rightarrow> addr \<Rightarrow> addr \<Rightarrow> addr option res" where
  "dyn_get_soname n m dyn strtab = dyn_ptr n m dyn strtab 14"

definition dyn_get_rela :: "nat \<Rightarrow> mem \<Rightarrow> addr \<Rightarrow> addr \<Rightarrow> addr option res" where
  "dyn_get_rela n m dyn base = dyn_ptr n m dyn base 7"

definition dyn_get_rela_length :: "nat \<Rightarrow> mem \<Rightarrow> addr \<Rightarrow> u64 res" where
  "dyn_get_rela_length n m dyn = dyn_count n m dyn 8 24"

definition dyn_get_pltrel :: "nat \<Rightarrow> mem \<Rightarrow> addr \<Rightarrow> addr \<Rightarrow> addr option res" where
  "dyn_get_pltrel n m dyn base = dyn_ptr n m dyn base 23"

definition dyn_get_pltrel_length :: "nat \<Rightarrow> mem \<Rightarrow> addr \<Rightarrow> u64 res" where
  "dyn_get_pltrel_length n m dyn = dyn_count n m dyn 2 24"

definition dyn_get_pltgot :: "nat \<Rightarrow> mem \<Rightarrow> addr \<Rightarrow> addr \<Rightarrow> addr option res" where
  "dyn_get_pltgot n m dyn base = dyn_ptr n m dyn base 3"

definition dyn_get_rpath :: "nat \<Rightarrow> mem \<Rightarrow> addr \<Rightarrow> addr \<Rightarrow> addr option res" where
  "dyn_get_rpath n m dyn strtab = dyn_ptr n m dyn strtab 15"

definition dyn_get_runpath :: "nat \<Rightarrow> mem \<Rightarrow> addr \<Rightarrow> addr \<Rightarrow> addr option res" where
  "dyn_get_runpath n m dyn strtab = dyn_ptr n m dyn strtab 29"

definition dyn_get_init :: "nat \<Rightarrow> mem \<Rightarrow> addr \<Rightarrow> addr \<Rightarrow> addr option res" where
  "dyn_get_init n m dyn base = dyn_ptr n m dyn base 12"

definition dyn_get_init_array :: "nat \<Rightarrow> mem \<Rightarrow> addr \<Rightarrow> addr \<Rightarrow> addr option res" where
  "dyn_get_init_array n m dyn base = dyn_ptr n m dyn base 25"

definition dyn_get_init_array_length :: "nat \<Rightarrow> mem \<Rightarrow> addr \<Rightarrow> u64 res" where
  "dyn_get_init_array_length n m dyn = dyn_count n m dyn 27 8"

definition dyn_get_fini :: "nat \<Rightarrow> mem \<Rightarrow> addr \<Rightarrow> addr \<Rightarrow> addr option res" where
  "dyn_get_fini n m dyn base = dyn_ptr n m dyn base 13"

definition dyn_get_fini_array :: "nat \<Rightarrow> mem \<Rightarrow> addr \<Rightarrow> addr \<Rightarrow> addr option res" where
  "dyn_get_fini_array n m dyn base = dyn_ptr n m dyn base 26"

definition dyn_get_fini_array_length :: "nat \<Rightarrow> mem \<Rightarrow> addr \<Rightarrow> u64 res" where
  "dyn_get_fini_array_length n m dyn = dyn_count n m dyn 28 8"

definition dyn_verify_dynamic :: "nat \<Rightarrow> mem \<Rightarrow> addr \<Rightarrow> addr \<Rightarrow> bool res" where
  "dyn_verify_dynamic n m dyn base =
     rbind (dyn_get_symtab n m dyn base)
     (\<lambda>symtab. if symtab = None then Inr False
       else rbind (dyn_get_strtab n m dyn base)
       (\<lambda>strtab. if strtab = None then Inr False
         else rbind (dyn_get_elf_hash n m dyn base)
         (\<lambda>elf_hash. rbind (dyn_get_gnu_hash n m dyn base)
           (\<lambda>gnu_hash. Inr (\<not> (elf_hash = None \<and> gnu_hash = None))))))"

definition elf_verify_dynamic :: "nat \<Rightarrow> mem \<Rightarrow> addr \<Rightarrow> u64 \<Rightarrow> addr \<Rightarrow> bool res" where
  "elf_verify_dynamic n m phdr phdrs base =
     (if phdr = 0 then Inr False
      else case phdr_get_dyn m phdr phdrs base of None \<Rightarrow> Inr False | Some dyn \<Rightarrow> dyn_verify_dynamic n m dyn base)"

end
