(* ===== verification/Symbols.thy ===== *)
theory Symbols
  imports Elf
begin

text \<open>
  The symbol lookup of the loader, \<open>symhash.c\<close> and \<open>sym.c\<close>, and its relocations, \<open>reloc.c\<close> (\<open>src/src/secpoline_loader/loader/\<close>).
  A name is the list of its bytes. \<open>char\<close> is signed: a byte is sign-extended before it is added to a hash.
\<close>

section \<open>Hashes\<close>

definition elf_hash_step :: "u32 \<Rightarrow> u8 \<Rightarrow> u32" where
  "elf_hash_step h c =
     (let hash = push_bit 4 h + scast c;
          top_nibble = hash AND 0xf0000000;
          hash = (if top_nibble \<noteq> 0 then hash XOR drop_bit 24 top_nibble else hash)
      in hash AND NOT top_nibble)"

definition elf_hash :: "u8 list \<Rightarrow> u32" where
  "elf_hash name = foldl elf_hash_step 0 name"

definition gnu_hash :: "u8 list \<Rightarrow> u32" where
  "gnu_hash name = foldl (\<lambda>hash c. push_bit 5 hash + hash + scast c) 5381 name"

section \<open>Symbol tables\<close>

text \<open>\<open>strcmp(name, sym_name) == 0\<close> for a name without a zero byte.\<close>

primrec name_at :: "mem \<Rightarrow> addr \<Rightarrow> u8 list \<Rightarrow> bool" where
  "name_at m a [] = (m a = 0)"
| "name_at m a (c # cs) = (m a = c \<and> name_at m (a + 1) cs)"

definition sym_at :: "addr \<Rightarrow> u32 \<Rightarrow> addr" where
  "sym_at symtab i = symtab + 24 * ucast i"

definition st_name :: "mem \<Rightarrow> addr \<Rightarrow> u32" where "st_name m ent = load32 m ent"
definition st_bind :: "mem \<Rightarrow> addr \<Rightarrow> u8" where "st_bind m ent = drop_bit 4 (m (ent + 4))"
definition st_shndx :: "mem \<Rightarrow> addr \<Rightarrow> 16 word" where "st_shndx m ent = load16 m (ent + 6)"
definition st_value :: "mem \<Rightarrow> addr \<Rightarrow> u64" where "st_value m ent = load64 m (ent + 8)"

text \<open>\<open>cur = &symtab[sym_idx]\<close> if \<open>cur->st_name != 0 && strcmp(name, &strtab[cur->st_name]) == 0\<close>; a table that is null is only
  noticed here.\<close>

definition sym_match :: "mem \<Rightarrow> addr option \<Rightarrow> addr option \<Rightarrow> u32 \<Rightarrow> u8 list \<Rightarrow> addr option res" where
  "sym_match m symtab strtab sym_idx name =
     (case symtab of None \<Rightarrow> Inl NullDeref
      | Some sy \<Rightarrow>
          let cur = sym_at sy sym_idx in
          if st_name m cur = 0 then Inr None
          else (case strtab of None \<Rightarrow> Inl NullDeref
             | Some st \<Rightarrow> Inr (if name_at m (st + ucast (st_name m cur)) name then Some cur else None)))"

text \<open>The address of a found symbol, or null.\<close>

definition found_symbol :: "mem \<Rightarrow> addr \<Rightarrow> addr option \<Rightarrow> u64" where
  "found_symbol m base found = (case found of None \<Rightarrow> 0 | Some ent \<Rightarrow> if st_shndx m ent = 0 then 0 else base + st_value m ent)"

section \<open>The two hash tables\<close>

definition elf_bucket :: "mem \<Rightarrow> addr \<Rightarrow> u32 \<Rightarrow> u32" where
  "elf_bucket m htab i = load32 m (htab + 8 + 4 * ucast i)"

definition elf_chain :: "mem \<Rightarrow> addr \<Rightarrow> u32 \<Rightarrow> u32" where
  "elf_chain m htab i = load32 m (htab + 8 + 4 * ucast (load32 m htab) + 4 * ucast i)"

primrec elf_chain_find :: "nat \<Rightarrow> mem \<Rightarrow> addr \<Rightarrow> addr option \<Rightarrow> addr option \<Rightarrow> u8 list \<Rightarrow> u32 \<Rightarrow> addr option res" where
  "elf_chain_find 0 m htab symtab strtab name sym_idx = Inl NoFuel"
| "elf_chain_find (Suc n) m htab symtab strtab name sym_idx =
     (if sym_idx = 0 then Inr None
      else rbind (sym_match m symtab strtab sym_idx name)
        (\<lambda>found. if found \<noteq> None then Inr found else elf_chain_find n m htab symtab strtab name (elf_chain m htab sym_idx)))"

text \<open>The tables of an object are looked up first; they are only used if there is a hash table.\<close>

definition with_tables :: "nat \<Rightarrow> mem \<Rightarrow> addr \<Rightarrow> addr \<Rightarrow> addr option res \<Rightarrow> (addr \<Rightarrow> addr option \<Rightarrow> addr option \<Rightarrow> u64 res) \<Rightarrow> u64 res" where
  "with_tables n m dyn base get_htab k =
     rbind (dyn_get_symtab n m dyn base)
     (\<lambda>symtab. rbind (dyn_get_strtab n m dyn base)
     (\<lambda>strtab. rbind get_htab
     (\<lambda>htab. case htab of None \<Rightarrow> Inr 0 | Some h \<Rightarrow> k h symtab strtab)))"

definition elf_hash_resolve_symbol :: "nat \<Rightarrow> mem \<Rightarrow> addr \<Rightarrow> addr \<Rightarrow> u8 list \<Rightarrow> u64 res" where
  "elf_hash_resolve_symbol n m dyn base name =
     with_tables n m dyn base (dyn_get_elf_hash n m dyn base)
     (\<lambda>htab symtab strtab.
        let num_buckets = load32 m htab in
        if num_buckets = 0 then Inl DivZero
        else rbind (elf_chain_find n m htab symtab strtab name (elf_bucket m htab (elf_hash name mod num_buckets)))
          (\<lambda>found. Inr (found_symbol m base found)))"

definition gnu_bloom :: "mem \<Rightarrow> addr \<Rightarrow> u32 \<Rightarrow> u64" where
  "gnu_bloom m htab i = load64 m (htab + 16 + 8 * ucast i)"

definition gnu_bucket :: "mem \<Rightarrow> addr \<Rightarrow> u32 \<Rightarrow> u32" where
  "gnu_bucket m htab i = load32 m (htab + 16 + 8 * ucast (load32 m (htab + 8)) + 4 * ucast i)"

definition gnu_chain :: "mem \<Rightarrow> addr \<Rightarrow> u32 \<Rightarrow> u32" where
  "gnu_chain m htab i = load32 m (htab + 16 + 8 * ucast (load32 m (htab + 8)) + 4 * ucast (load32 m htab) + 4 * ucast i)"

text \<open>\<open>mask\<close>; a \<open>bloom_shift\<close> of 32 or more, undefined in C, leaves 0.\<close>

definition gnu_mask :: "u32 \<Rightarrow> u32 \<Rightarrow> u64" where
  "gnu_mask hash shift = push_bit (unat (hash mod 64)) 1 OR push_bit (unat (drop_bit (unat shift) hash mod 64)) 1"

primrec gnu_chain_find :: "nat \<Rightarrow> mem \<Rightarrow> addr \<Rightarrow> addr option \<Rightarrow> addr option \<Rightarrow> u8 list \<Rightarrow> u32 \<Rightarrow> u32 \<Rightarrow> addr option res" where
  "gnu_chain_find 0 m htab symtab strtab name hash sym_idx = Inl NoFuel"
| "gnu_chain_find (Suc n) m htab symtab strtab name hash sym_idx =
     (let chain_hash = gnu_chain m htab (sym_idx - load32 m (htab + 4)) in
      rbind (if hash OR 1 = chain_hash OR 1 then sym_match m symtab strtab sym_idx name else Inr None)
      (\<lambda>found. if found \<noteq> None then Inr found
         else if chain_hash AND 1 \<noteq> 0 then Inr None
         else gnu_chain_find n m htab symtab strtab name hash (sym_idx + 1)))"

definition gnu_hash_resolve_symbol :: "nat \<Rightarrow> mem \<Rightarrow> addr \<Rightarrow> addr \<Rightarrow> u8 list \<Rightarrow> u64 res" where
  "gnu_hash_resolve_symbol n m dyn base name =
     with_tables n m dyn base (dyn_get_gnu_hash n m dyn base)
     (\<lambda>htab symtab strtab.
        let hash = gnu_hash name; num_buckets = load32 m htab; sym_offset = load32 m (htab + 4); bloom_size = load32 m (htab + 8);
            bloom_shift = load32 m (htab + 12) in
        if bloom_size = 0 then Inl DivZero
        else
          let bloom = gnu_bloom m htab (hash div 64 mod bloom_size); bits = gnu_mask hash bloom_shift in
          if bloom AND bits \<noteq> bits then Inr 0
          else if num_buckets = 0 then Inl DivZero
          else
            let sym_idx = gnu_bucket m htab (hash mod num_buckets) in
            if sym_idx < sym_offset then Inr 0
            else rbind (gnu_chain_find n m htab symtab strtab name hash sym_idx) (\<lambda>found. Inr (found_symbol m base found)))"

section \<open>Loaded objects\<close>

definition dso_resolve_symbol :: "nat \<Rightarrow> mem \<Rightarrow> addr \<Rightarrow> addr \<Rightarrow> u8 list \<Rightarrow> u64 res" where
  "dso_resolve_symbol n m dyn base name =
     rbind (gnu_hash_resolve_symbol n m dyn base name)
     (\<lambda>ent. if ent \<noteq> 0 then Inr ent else elf_hash_resolve_symbol n m dyn base name)"

text \<open>The loaded objects, from \<open>loaded_objects\<close> on, as pairs of the address of the dynamic section and the base.\<close>

primrec resolve_symbol :: "nat \<Rightarrow> mem \<Rightarrow> (addr \<times> addr) list \<Rightarrow> u8 list \<Rightarrow> u64 res" where
  "resolve_symbol n m [] name = Inr 0"
| "resolve_symbol n m (d # ds) name =
     rbind (dso_resolve_symbol n m (fst d) (snd d) name) (\<lambda>ent. if ent \<noteq> 0 then Inr ent else resolve_symbol n m ds name)"

section \<open>Relocations\<close>

text \<open>The bytes that a relocation writes, from the value of the symbol, the addend, the base and the target; none if its type
  is not supported.\<close>

definition reloc_bytes :: "u64 \<Rightarrow> u64 \<Rightarrow> u64 \<Rightarrow> addr \<Rightarrow> addr \<Rightarrow> u8 list option" where
  "reloc_bytes type sym_val addend base target =
     (if type = 1 then Some (store64 (sym_val + addend))
      else if type = 2 then Some (take 4 (store64 (sym_val + addend - target)))
      else if type = 6 \<or> type = 7 then Some (store64 sym_val)
      else if type = 8 then Some (store64 (base + addend))
      else if type = 10 \<or> type = 11 then Some (take 4 (store64 (sym_val + addend)))
      else if type = 12 then Some (take 2 (store64 (sym_val + addend)))
      else if type = 14 then Some (take 1 (store64 (sym_val + addend)))
      else None)"

text \<open>The value of the symbol of a relocation; none is an error.\<close>

primrec c_string_at :: "nat \<Rightarrow> mem \<Rightarrow> addr \<Rightarrow> u8 list res" where
  "c_string_at 0 m a = Inl NoFuel"
| "c_string_at (Suc n) m a = (if m a = 0 then Inr [] else rbind (c_string_at n m (a + 1)) (\<lambda>cs. Inr (m a # cs)))"

definition reloc_symbol :: "nat \<Rightarrow> mem \<Rightarrow> (addr \<times> addr) list \<Rightarrow> addr option \<Rightarrow> addr option \<Rightarrow> addr \<Rightarrow> u32 \<Rightarrow> u64 option res" where
  "reloc_symbol n m objs symtab strtab base sym_idx =
     (if sym_idx = 0 then Inr (Some 0)
      else case symtab of None \<Rightarrow> Inl NullDeref
      | Some sy \<Rightarrow>
          let cur = sym_at sy sym_idx in
          if st_shndx m cur \<noteq> 0 then Inr (Some (base + st_value m cur))
          else if st_name m cur = 0 then Inr None
          else case strtab of None \<Rightarrow> Inl NullDeref
          | Some st \<Rightarrow> rbind (c_string_at n m (st + ucast (st_name m cur)))
              (\<lambda>name. rbind (resolve_symbol n m objs name)
              (\<lambda>ent. if st_bind m cur \<noteq> 2 \<and> ent = 0 then Inr None else Inr (Some ent))))"

primrec relocate_entries :: "nat \<Rightarrow> (addr \<times> addr) list \<Rightarrow> addr option \<Rightarrow> addr option \<Rightarrow> addr \<Rightarrow> nat \<Rightarrow> addr \<Rightarrow> mem \<Rightarrow> (bool \<times> mem) res" where
  "relocate_entries n objs symtab strtab base 0 cur m = Inr (True, m)"
| "relocate_entries n objs symtab strtab base (Suc k) cur m =
     (let r_info = load64 m (cur + 8); type = r_info AND 0xffffffff; sym_idx = ucast (drop_bit 32 r_info) in
      rbind (reloc_symbol n m objs symtab strtab base sym_idx)
      (\<lambda>val. case val of None \<Rightarrow> Inr (False, m)
         | Some cur_sym_val \<Rightarrow>
             let target = base + load64 m cur in
             (case reloc_bytes type cur_sym_val (load64 m (cur + 16)) base target of
                None \<Rightarrow> Inr (False, m)
              | Some bs \<Rightarrow> relocate_entries n objs symtab strtab base k (cur + 24) (put_bytes m target bs))))"

definition dso_relocate_rela :: "nat \<Rightarrow> (addr \<times> addr) list \<Rightarrow> addr \<Rightarrow> addr \<Rightarrow> addr \<Rightarrow> u64 \<Rightarrow> mem \<Rightarrow> (bool \<times> mem) res" where
  "dso_relocate_rela n objs dyn base rela rela_length m =
     rbind (dyn_get_symtab n m dyn base)
     (\<lambda>symtab. rbind (dyn_get_strtab n m dyn base)
     (\<lambda>strtab. relocate_entries n objs symtab strtab base (unat rela_length) rela m))"

text \<open>\<open>if (table != NULL) { if (!dso_relocate_rela(..)) return false; }\<close>\<close>

definition relocate_table :: "nat \<Rightarrow> (addr \<times> addr) list \<Rightarrow> addr \<Rightarrow> addr \<Rightarrow> addr option \<Rightarrow> u64 \<Rightarrow> mem \<Rightarrow> (bool \<times> mem) res" where
  "relocate_table n objs dyn base table len m =
     (case table of None \<Rightarrow> Inr (True, m) | Some rela \<Rightarrow> dso_relocate_rela n objs dyn base rela len m)"

definition dso_relocate :: "nat \<Rightarrow> (addr \<times> addr) list \<Rightarrow> addr \<Rightarrow> addr \<Rightarrow> mem \<Rightarrow> (bool \<times> mem) res" where
  "dso_relocate n objs dyn base m =
     rbind (dyn_get_rela n m dyn base)
     (\<lambda>rela. rbind (dyn_get_rela_length n m dyn)
     (\<lambda>len. rbind (relocate_table n objs dyn base rela len m)
     (\<lambda>(ok, m). if \<not> ok then Inr (False, m)
        else rbind (dyn_get_pltrel n m dyn base)
          (\<lambda>pltrel. rbind (dyn_get_pltrel_length n m dyn) (\<lambda>len. relocate_table n objs dyn base pltrel len m)))))"

end
