(* ===== verification/SymbolsProps.thy ===== *)
theory SymbolsProps
  imports Symbols
begin

text \<open>
  What the loader finds for a name, and what its relocations leave in memory.
\<close>

section \<open>Hashes\<close>

lemma elf_hash_step_top: "28 \<le> i \<Longrightarrow> \<not> bit (elf_hash_step h c) i"
proof -
  assume i: "28 \<le> i"
  let ?h = "push_bit 4 h + scast c :: u32"
  have top: "bit ((0xf0000000 :: u32)) i \<longleftrightarrow> i < 32"
  proof -
    have e: "(0xf0000000 :: u32) = push_bit 28 (mask 4)" by (simp add: mask_eq_exp_minus_1)
    show ?thesis unfolding e using i by (auto simp: bit_simps simp del: push_bit_mask_eq)
  qed
  have "\<not> bit ?h (24 + i)" using i by (simp add: impossible_bit)
  then show ?thesis unfolding elf_hash_step_def Let_def using i top
    by (auto simp: bit_simps)
qed

text \<open>
  The ELF hash never leaves its 28 bits, whatever bytes the name has.
\<close>

theorem elf_hash_bounded: "elf_hash name < 2 ^ 28"
proof -
  have "28 \<le> i \<Longrightarrow> \<not> bit (elf_hash name) i" for i
    by (cases name rule: rev_cases) (simp_all add: elf_hash_def elf_hash_step_top)
  then have "take_bit 28 (elf_hash name) = elf_hash name"
    by (intro bit_word_eqI) (auto simp: bit_simps intro: ccontr)
  then have "unat (elf_hash name) = take_bit 28 (unat (elf_hash name))" by (metis unsigned_take_bit_eq)
  then have "unat (elf_hash name) < 2 ^ 28" using take_bit_nat_less_exp [of 28 "unat (elf_hash name)"] by linarith
  then show ?thesis by (simp add: word_less_nat_alt)
qed


section \<open>Lookup\<close>

text \<open>What it means that an entry of the symbol table has a name, and that an object defines a name at an address.\<close>

definition sym_is :: "mem \<Rightarrow> addr \<Rightarrow> addr \<Rightarrow> u8 list \<Rightarrow> bool" where
  "sym_is m strtab ent name \<longleftrightarrow> st_name m ent \<noteq> 0 \<and> name_at m (strtab + ucast (st_name m ent)) name"

definition defines_symbol :: "nat \<Rightarrow> mem \<Rightarrow> addr \<times> addr \<Rightarrow> u8 list \<Rightarrow> u64 \<Rightarrow> bool" where
  "defines_symbol n m d name a \<longleftrightarrow> (\<exists>symtab strtab i. dyn_get_symtab n m (fst d) (snd d) = Inr (Some symtab) \<and>
     dyn_get_strtab n m (fst d) (snd d) = Inr (Some strtab) \<and> sym_is m strtab (sym_at symtab i) name \<and>
     st_shndx m (sym_at symtab i) \<noteq> 0 \<and> a = snd d + st_value m (sym_at symtab i))"

lemma sym_match_some [simp]: "sym_match m (Some symtab) (Some strtab) i name =
    Inr (if sym_is m strtab (sym_at symtab i) name then Some (sym_at symtab i) else None)"
  by (simp add: sym_match_def sym_is_def Let_def)

text \<open>A symbol that is found lies in the tables and has the name.\<close>

definition in_tables :: "mem \<Rightarrow> addr option \<Rightarrow> addr option \<Rightarrow> u8 list \<Rightarrow> addr \<Rightarrow> bool" where
  "in_tables m symtab strtab name ent \<longleftrightarrow> (\<exists>sy st j. symtab = Some sy \<and> strtab = Some st \<and> ent = sym_at sy j \<and> sym_is m st ent name)"

lemma sym_match_sound: "sym_match m symtab strtab i name = Inr (Some ent) \<Longrightarrow> in_tables m symtab strtab name ent"
  by (auto simp: sym_match_def in_tables_def sym_is_def Let_def split: option.splits if_splits)

lemma elf_chain_find_sound:
  "elf_chain_find k m htab symtab strtab name i = Inr (Some ent) \<Longrightarrow> in_tables m symtab strtab name ent"
  by (induction k arbitrary: i) (auto simp: rbind_eq_Inr intro: sym_match_sound split: if_splits)

lemma gnu_chain_find_sound:
  "gnu_chain_find k m htab symtab strtab name h i = Inr (Some ent) \<Longrightarrow> in_tables m symtab strtab name ent"
  by (induction k arbitrary: i) (auto simp: Let_def rbind_eq_Inr intro: sym_match_sound split: if_splits)

lemma with_tables_eq_Inr:
  "with_tables n m dyn base get_htab k = Inr a \<Longrightarrow> a \<noteq> 0 \<Longrightarrow>
     \<exists>htab symtab strtab. dyn_get_symtab n m dyn base = Inr symtab \<and> dyn_get_strtab n m dyn base = Inr strtab \<and>
       get_htab = Inr (Some htab) \<and> k htab symtab strtab = Inr a"
  by (auto simp: with_tables_def rbind_def split: sum.splits option.splits)

lemma found_symbol_nonzero: "found_symbol m base f \<noteq> 0 \<Longrightarrow>
    \<exists>ent. f = Some ent \<and> st_shndx m ent \<noteq> 0 \<and> found_symbol m base f = base + st_value m ent"
  by (auto simp: found_symbol_def split: option.splits if_splits)

lemma dso_resolve_sound:
  assumes "dso_resolve_symbol n m (fst d) (snd d) name = Inr a" "a \<noteq> 0"
  shows "defines_symbol n m d name a"
proof -
  consider (gnu) "gnu_hash_resolve_symbol n m (fst d) (snd d) name = Inr a" | (elf) "elf_hash_resolve_symbol n m (fst d) (snd d) name = Inr a"
    using assms(1) by (auto simp: dso_resolve_symbol_def rbind_eq_Inr split: if_splits)
  then obtain symtab strtab f where t: "dyn_get_symtab n m (fst d) (snd d) = Inr symtab" "dyn_get_strtab n m (fst d) (snd d) = Inr strtab"
    and f: "a = found_symbol m (snd d) f" "\<And>ent. f = Some ent \<Longrightarrow> in_tables m symtab strtab name ent"
  proof cases
    case gnu
    from with_tables_eq_Inr [OF gnu [unfolded gnu_hash_resolve_symbol_def] assms(2)] obtain htab symtab strtab f
      where w: "dyn_get_symtab n m (fst d) (snd d) = Inr symtab" "dyn_get_strtab n m (fst d) (snd d) = Inr strtab"
        and f: "gnu_chain_find n m htab symtab strtab name (gnu_hash name) (gnu_bucket m htab (gnu_hash name mod load32 m htab)) = Inr f"
        and a: "a = found_symbol m (snd d) f"
      using assms(2) by (auto simp: Let_def rbind_eq_Inr split: if_splits)
    show ?thesis by (rule that [OF w a]) (use f gnu_chain_find_sound in blast)
  next
    case elf
    from with_tables_eq_Inr [OF elf [unfolded elf_hash_resolve_symbol_def] assms(2)] obtain htab symtab strtab f
      where w: "dyn_get_symtab n m (fst d) (snd d) = Inr symtab" "dyn_get_strtab n m (fst d) (snd d) = Inr strtab"
        and f: "elf_chain_find n m htab symtab strtab name (elf_bucket m htab (elf_hash name mod load32 m htab)) = Inr f"
        and a: "a = found_symbol m (snd d) f"
      by (auto simp: Let_def rbind_eq_Inr split: if_splits)
    show ?thesis by (rule that [OF w a]) (use f elf_chain_find_sound in blast)
  qed
  from found_symbol_nonzero [of m "snd d" f] f assms(2) show ?thesis using t by (fastforce simp: defines_symbol_def in_tables_def)
qed

text \<open>
  C34. The lookup of a symbol is sound and keeps the order of the objects: an address that \<open>resolve_symbol\<close> returns is that of a symbol of
  exactly this name that one of the loaded objects defines, and no object loaded before it has given an address for the name.
\<close>

theorem resolve_symbol_first:
  assumes "resolve_symbol n m objs name = Inr a" "a \<noteq> 0"
  shows "\<exists>before d after. objs = before @ d # after \<and> defines_symbol n m d name a \<and>
    (\<forall>e \<in> set before. dso_resolve_symbol n m (fst e) (snd e) name = Inr 0)"
  using assms(1)
proof (induction objs)
  case (Cons d ds)
  then obtain b where b: "dso_resolve_symbol n m (fst d) (snd d) name = Inr b" by (auto simp: rbind_eq_Inr)
  show ?case
  proof (cases "b = 0")
    case True
    with Cons b obtain before d' after where "ds = before @ d' # after" "defines_symbol n m d' name a"
      "\<forall>e \<in> set before. dso_resolve_symbol n m (fst e) (snd e) name = Inr 0" by auto
    with b True show ?thesis by (intro exI [of _ "d # before"] exI [of _ d'] exI [of _ after]) simp
  next
    case False
    with Cons.prems b have "defines_symbol n m d name a" by (auto intro: dso_resolve_sound)
    then show ?thesis by (intro exI [of _ "[]"] exI [of _ d] exI [of _ ds]) simp
  qed
qed (use assms(2) in simp)

text \<open>
  The lookup in a GNU hash table is complete. If the bloom filter has both bits of the hash, the bucket of the hash starts at or behind the first hashed symbol, and the
  chain from there runs without an end marker up to a symbol with this hash and name, the first such, then
  its address is the result, however the rest of the memory looks.
\<close>

theorem gnu_lookup_finds:
  fixes m :: mem and htab symtab strtab :: addr and name :: "u8 list"
  defines "nb \<equiv> load32 m htab" and "off \<equiv> load32 m (htab + 4)" and "bs \<equiv> load32 m (htab + 8)" and "sh \<equiv> load32 m (htab + 12)"
    and "h \<equiv> gnu_hash name" 
  defines "b \<equiv> gnu_bucket m htab (h mod nb)"
  defines "match \<equiv> \<lambda>i. h OR 1 = gnu_chain m htab (b + of_nat i - off) OR 1 \<and> sym_is m strtab (sym_at symtab (b + of_nat i)) name"
  assumes tables: "dyn_get_symtab n m dyn base = Inr (Some symtab)" "dyn_get_strtab n m dyn base = Inr (Some strtab)"
      "dyn_get_gnu_hash n m dyn base = Inr (Some htab)" "nb \<noteq> 0" "bs \<noteq> 0"
    and bloom: "gnu_bloom m htab (h div 64 mod bs) AND gnu_mask h sh = gnu_mask h sh"
    and chain: "off \<le> b" "j < n" "\<And>i. i < j \<Longrightarrow> \<not> bit (gnu_chain m htab (b + of_nat i - off)) 0 \<and> \<not> match i" "match j"
    and defd: "st_shndx m (sym_at symtab (b + of_nat j)) \<noteq> 0"
  shows "gnu_hash_resolve_symbol n m dyn base name = Inr (base + st_value m (sym_at symtab (b + of_nat j)))"
proof -
  have "gnu_chain_find k m htab (Some symtab) (Some strtab) name h (b + of_nat i) = Inr (Some (sym_at symtab (b + of_nat j)))"
    if "i \<le> j" "j - i < k" for i k
    using that
  proof (induction k arbitrary: i)
    case (Suc k)
    show ?case
    proof (cases "i = j")
      case True
      then show ?thesis using chain(4) by (simp add: match_def off_def Let_def)
    next
      case False
      with Suc.prems have i: "i < j" by simp
      have "\<not> bit (gnu_chain m htab (b + of_nat i - off)) 0" using chain(3) [OF i] by simp
      then have "gnu_chain m htab (b + of_nat i - off) AND 1 = 0" by (simp add: and_one_eq mod2_eq_if bit_0)
      moreover have "gnu_chain_find k m htab (Some symtab) (Some strtab) name h (b + of_nat (Suc i)) = Inr (Some (sym_at symtab (b + of_nat j)))"
        using Suc.IH [of "Suc i"] Suc.prems i by simp
      ultimately show ?thesis using chain(3) [OF i] by (auto simp: match_def off_def Let_def ac_simps)
    qed
  qed simp
  from this [of 0 n] have f: "gnu_chain_find n m htab (Some symtab) (Some strtab) name h b = Inr (Some (sym_at symtab (b + of_nat j)))" using chain(2) by simp
  have "\<not> b < off" using chain(1) by (simp add: not_less)
  then show ?thesis unfolding gnu_hash_resolve_symbol_def with_tables_def
    using tables bloom f defd
    by (simp add: Let_def found_symbol_def nb_def off_def bs_def sh_def h_def b_def)
qed


text \<open>An object that defines one symbol, \<open>f\<close>, at 0x42 from its base.\<close>

definition demo_elf :: mem where
  "demo_elf =
     put_bytes (put_bytes (put_bytes (put_bytes (put_bytes (put_bytes (put_bytes (put_bytes (put_bytes (put_bytes (put_bytes (put_bytes (put_bytes (\<lambda>_. 0)
      0x1000 (store64 6)) 0x1008 (store64 0x100)) 0x1010 (store64 5)) 0x1018 (store64 0x200)) 0x1020 (store64 0x6ffffef5)) 0x1028 (store64 0x300))
      0x10118 [1, 0, 0, 0, 0, 0, 1, 0]) 0x10120 (store64 0x42)) 0x10200 [0, 102])
      0x10300 [1, 0, 0, 0, 1, 0, 0, 0]) 0x10308 [1, 0, 0, 0, 0, 0, 0, 0]) 0x10310 (store64 (- 1))) 0x10318 [1, 0, 0, 0, 0x0b, 0xb6, 0x02, 0]"

abbreviation (input) rounds :: nat where "rounds \<equiv> Suc (Suc (Suc (Suc 0)))"

lemmas demo_loads = load64_put_same load64_put_other load32_put_other load16_put_other

lemma demo_elf_tables:
  "dyn_get_symtab rounds demo_elf 0x1000 0x10000 = Inr (Some 0x10100)"
  "dyn_get_strtab rounds demo_elf 0x1000 0x10000 = Inr (Some 0x10200)"
  "dyn_get_gnu_hash rounds demo_elf 0x1000 0x10000 = Inr (Some 0x10300)"
  by (simp_all add: dyn_get_symtab_def dyn_get_strtab_def dyn_get_gnu_hash_def dyn_ptr_def demo_elf_def demo_loads)

lemmas demo_bytes = demo_elf_def put_bytes_def store64_def load32_def load16_def unat_minus_one_64

lemma demo_elf_words:
  "gnu_hash [102] = 0x2b60b"
  "load32 demo_elf 0x10300 = 1" "load32 demo_elf 0x10304 = 1" "load32 demo_elf 0x10308 = 1" "load32 demo_elf 0x1030c = 0"
  "gnu_bloom demo_elf 0x10300 0 = - 1" "gnu_bucket demo_elf 0x10300 0 = 1" "gnu_chain demo_elf 0x10300 0 = 0x2b60b"
  "sym_is demo_elf 0x10200 (sym_at 0x10100 1) [102]" "st_shndx demo_elf (sym_at 0x10100 1) = 1" "st_value demo_elf (sym_at 0x10100 1) = 0x42"
proof -
  show "gnu_hash [102] = 0x2b60b" by (simp add: gnu_hash_def)
  show nb: "load32 demo_elf 0x10300 = 1" by (simp add: demo_bytes)
  show "load32 demo_elf 0x10304 = 1" by (simp add: demo_bytes)
  show bs: "load32 demo_elf 0x10308 = 1" by (simp add: demo_bytes)
  show "load32 demo_elf 0x1030c = 0" by (simp add: demo_bytes)
  show "gnu_bloom demo_elf 0x10300 0 = - 1" by (simp add: gnu_bloom_def demo_elf_def demo_loads)
  show "gnu_bucket demo_elf 0x10300 0 = 1" by (simp add: gnu_bucket_def bs) (simp add: demo_bytes)
  show "gnu_chain demo_elf 0x10300 0 = 0x2b60b" by (simp add: gnu_chain_def nb bs) (simp add: demo_bytes)
  have nm: "st_name demo_elf (sym_at 0x10100 1) = 1" by (simp add: st_name_def sym_at_def demo_bytes)
  show "sym_is demo_elf 0x10200 (sym_at 0x10100 1) [102]" by (simp add: sym_is_def nm) (simp add: demo_bytes)
  show "st_shndx demo_elf (sym_at 0x10100 1) = 1" by (simp add: st_shndx_def sym_at_def demo_bytes)
  show "st_value demo_elf (sym_at 0x10100 1) = 0x42" by (simp add: st_value_def sym_at_def demo_elf_def demo_loads)
qed

theorem gnu_lookup_finds_witness: "gnu_hash_resolve_symbol rounds demo_elf 0x1000 0x10000 [102] = Inr 0x10042"
  using gnu_lookup_finds [OF demo_elf_tables, where name = "[102]" and j = 0]
  by (simp add: demo_elf_words)

theorem resolve_symbol_first_witness:
  "\<exists>before d after. [(0x1000, 0x10000)] = before @ d # after \<and> defines_symbol rounds demo_elf d [102] 0x10042 \<and>
    (\<forall>e \<in> set before. dso_resolve_symbol rounds demo_elf (fst e) (snd e) [102] = Inr 0)"
proof -
  have "gnu_hash_resolve_symbol rounds demo_elf 0x1000 0x10000 [102] = Inr 0x10042"
    by (simp add: gnu_hash_resolve_symbol_def with_tables_def demo_elf_tables demo_elf_words found_symbol_def)
  then have "resolve_symbol rounds demo_elf [(0x1000, 0x10000)] [102] = Inr 0x10042"
    by (simp add: dso_resolve_symbol_def)
  from resolve_symbol_first [OF this] show ?thesis by simp
qed

section \<open>Relocation\<close>

text \<open>The byte \<open>x\<close> is not one of the eight that a relocation of \<open>t\<close> writes.\<close>

definition spared :: "addr \<Rightarrow> addr \<Rightarrow> bool" where
  "spared t x \<longleftrightarrow> 8 \<le> unat (x - t)"

definition rela_target :: "mem \<Rightarrow> addr \<Rightarrow> addr \<Rightarrow> nat \<Rightarrow> addr" where
  "rela_target m base rela i = base + load64 m (rela + of_nat (24 * i))"

definition relative_table :: "mem \<Rightarrow> addr \<Rightarrow> addr \<Rightarrow> nat \<Rightarrow> bool" where
  "relative_table m base rela k \<longleftrightarrow>
     (\<forall>i<k. load64 m (rela + of_nat (24 * i + 8)) = 8 \<and>
        (\<forall>j < 24 * k. spared (rela_target m base rela i) (rela + of_nat j)) \<and>
        (\<forall>i' < k. i' \<noteq> i \<longrightarrow> (\<forall>j<8. spared (rela_target m base rela i) (rela_target m base rela i' + of_nat j))))"

lemma put_store64_spared [simp]: "spared a x \<Longrightarrow> put_bytes m a (store64 v) x = m x"
  by (simp add: spared_def put_bytes_def)

lemma relative_table_spared:
  "relative_table m base rela k \<Longrightarrow> i < k \<Longrightarrow> j < 24 * k \<Longrightarrow> spared (rela_target m base rela i) (rela + of_nat j)"
  by (simp add: relative_table_def)

lemma relative_step:
  fixes v :: u64
  assumes "relative_table m base rela (Suc k)"
  defines "m' \<equiv> put_bytes m (rela_target m base rela 0) (store64 v)"
  shows "relative_table m' base (rela + 24) k" "\<And>i. i < k \<Longrightarrow> rela_target m' base (rela + 24) i = rela_target m base rela (Suc i)"
    "\<And>i. i < k \<Longrightarrow> load64 m' (rela + 24 + of_nat (24 * i + 16)) = load64 m (rela + of_nat (24 * Suc i + 16))"
proof -
  have same: "load64 m' (rela + 24 + of_nat q) = load64 m (rela + of_nat (24 + q))" if "q + 8 \<le> 24 * k" for q
  proof -
    have "load64 m' (rela + 24 + of_nat q) = load64 m (rela + 24 + of_nat q)"
    proof (rule load64_cong)
      fix j :: nat assume "j < 8"
      with that assms(1) have "spared (rela_target m base rela 0) (rela + of_nat (24 + q + j))"
        by (intro relative_table_spared [OF assms(1)]) simp_all
      then show "m' (rela + 24 + of_nat q + of_nat j) = m (rela + 24 + of_nat q + of_nat j)"
        by (simp add: ac_simps m'_def)
    qed
    then show ?thesis by (simp add: ac_simps)
  qed
  show t: "rela_target m' base (rela + 24) i = rela_target m base rela (Suc i)" if "i < k" for i
    using same [of "24 * i"] that by (simp add: rela_target_def ac_simps)
  show "load64 m' (rela + 24 + of_nat (24 * i + 16)) = load64 m (rela + of_nat (24 * Suc i + 16))" if "i < k" for i
    using same [of "24 * i + 16"] that by (simp add: ac_simps)
  show "relative_table m' base (rela + 24) k"
    unfolding relative_table_def
  proof (intro allI impI conjI)
    fix i assume i: "i < k"
    show "load64 m' (rela + 24 + of_nat (24 * i + 8)) = 8"
      using same [of "24 * i + 8"] i assms(1) by (auto simp: relative_table_def ac_simps dest: spec [of _ "Suc i"])
    fix j assume "j < 24 * k"
    then have "spared (rela_target m base rela (Suc i)) (rela + of_nat (24 + j))"
      using i by (intro relative_table_spared [OF assms(1)]) simp_all
    then show "spared (rela_target m' base (rela + 24) i) (rela + 24 + of_nat j)" by (simp add: t i ac_simps)
  next
    fix i i' j assume "i < k" "i' < k" "i' \<noteq> i" "(j :: nat) < 8"
    then show "spared (rela_target m' base (rela + 24) i) (rela_target m' base (rela + 24) i' + of_nat j)"
      using assms(1) by (simp add: t relative_table_def)
  qed
qed

text \<open>
  C35. A table of relative relocations whose targets overlap neither each other nor the table is processed completely: every target
  holds the base plus its addend afterwards, and no byte outside the targets changes.
\<close>

theorem relocate_relative:
  assumes "relative_table m base rela k"
  shows "\<exists>m'. relocate_entries n objs symtab strtab base k rela m = Inr (True, m') \<and>
    (\<forall>i<k. load64 m' (rela_target m base rela i) = base + load64 m (rela + of_nat (24 * i + 16))) \<and>
    (\<forall>x. (\<forall>i<k. spared (rela_target m base rela i) x) \<longrightarrow> m' x = m x)"
  using assms
proof (induction k arbitrary: rela m)
  case (Suc k)
  let ?v = "base + load64 m (rela + 16)"
  let ?t = "rela_target m base rela"
  let ?m = "put_bytes m (?t 0) (store64 ?v)"
  note step = relative_step [OF Suc.prems, where v = ?v]
  obtain m' where m': "relocate_entries n objs symtab strtab base k (rela + 24) ?m = Inr (True, m')"
    "\<forall>i<k. load64 m' (rela_target ?m base (rela + 24) i) = base + load64 ?m (rela + 24 + of_nat (24 * i + 16))"
    "\<forall>x. (\<forall>i<k. spared (rela_target ?m base (rela + 24) i) x) \<longrightarrow> m' x = ?m x"
    using Suc.IH [OF step(1)] by blast
  have info: "load64 m (rela + 8) = 8" using Suc.prems by (auto simp: relative_table_def)
  have "relocate_entries n objs symtab strtab base (Suc k) rela m = Inr (True, m')"
    using m'(1) by (simp add: info reloc_symbol_def reloc_bytes_def rela_target_def)
  moreover have "load64 m' (?t i) = base + load64 m (rela + of_nat (24 * i + 16))" if "i < Suc k" for i
  proof (cases i)
    case 0
    have "load64 m' (?t 0) = load64 ?m (?t 0)"
    proof (rule load64_cong)
      fix j :: nat assume "j < 8"
      then have "\<forall>i<k. spared (?t (Suc i)) (?t 0 + of_nat j)" using Suc.prems by (simp add: relative_table_def)
      then show "m' (?t 0 + of_nat j) = ?m (?t 0 + of_nat j)" using m'(3) step(2) by simp
    qed
    then show ?thesis using 0 by (simp add: load64_put_same)
  next
    case (Suc i')
    then show ?thesis using m'(2) step(2,3) that by simp
  qed
  moreover have "m' x = m x" if "\<forall>i<Suc k. spared (?t i) x" for x
    using that m'(3) step(2) by (auto simp: All_less_Suc2)
  ultimately show ?case by blast
qed simp

definition demo_rela :: mem where
  "demo_rela = put_bytes (put_bytes (put_bytes (put_bytes (put_bytes (put_bytes (\<lambda>_. 0)
     0x1000 (store64 0x20)) 0x1008 (store64 8)) 0x1010 (store64 0x100)) 0x1018 (store64 0x28)) 0x1020 (store64 8)) 0x1028 (store64 0x200)"

lemma demo_rela_loads:
  "load64 demo_rela 0x1000 = 0x20" "load64 demo_rela 0x1008 = 8" "load64 demo_rela 0x1010 = 0x100"
  "load64 demo_rela 0x1018 = 0x28" "load64 demo_rela 0x1020 = 8" "load64 demo_rela 0x1028 = 0x200"
  by (simp_all add: demo_rela_def demo_loads)

lemma demo_rela_targets: "rela_target demo_rela 0x10000 0x1000 0 = 0x10020" "rela_target demo_rela 0x10000 0x1000 (Suc 0) = 0x10028"
  by (simp_all add: rela_target_def demo_rela_loads)

lemma all_less_list_all: "(\<forall>j<n. P j) \<longleftrightarrow> list_all P [0..<n]"
  by (auto simp: list_all_iff)

lemma demo_rela_relative: "relative_table demo_rela 0x10000 0x1000 (Suc (Suc 0))"
  unfolding relative_table_def
  by (simp add: All_less_Suc demo_rela_targets demo_rela_loads) (simp add: all_less_list_all spared_def upt_rec unat_minus_one_64)

theorem relocate_relative_witness:
  "\<exists>m'. relocate_entries rounds [] None None 0x10000 2 0x1000 demo_rela = Inr (True, m') \<and>
     load64 m' 0x10020 = 0x10100 \<and> load64 m' 0x10028 = 0x10200"
  using relocate_relative [OF demo_rela_relative, of rounds "[]" None None]
  by (auto simp: All_less_Suc demo_rela_targets demo_rela_loads numeral_2_eq_2)

end
