(* ===== verification/LdMalloc.thy ===== *)
theory LdMalloc
  imports Memory
begin

text \<open>
  The allocator of the loader, \<open>src/src/secpoline_loader/loader/ld_malloc.c\<close> and \<open>ld_malloc_internal.h\<close>. A chunk has a header of 32
  bytes (size, arena size, padding, canary), the area of the user, and a footer of 16 bytes (canary, size); the lowest bit of the
  size says that the chunk is used, the two lowest bits of the arena size that the chunk is the first or the last of its arena. The
  first 16 bytes of the area of a free chunk link it into the free list. The heap is the memory byte for byte. The bytes that
  \<open>mmap\<close> and \<open>getrandom\<close> provide are those of the environment; a use of the memory behind \<open>munmap\<close> is not noticed. \<open>ld_malloc_abort\<close>
  is \<open>Inl Exit\<close>. The mutex is a flag, and the walk of the free list has a number of rounds.
\<close>

record ldm = kern +
  heap :: mem
  ld_malloc_lock :: bool
  ld_malloc_initialized :: bool
  ld_malloc_header_canary :: u64
  ld_malloc_footer_canary :: u64
  ld_malloc_freelist_head :: addr

text \<open>The addresses of the two canaries, which \<open>getrandom\<close> is given.\<close>

record canary_addrs =
  header_canary_addr :: addr
  footer_canary_addr :: addr

definition rd :: "'z ldm_scheme \<Rightarrow> addr \<Rightarrow> u64" where
  "rd s a = load64 (heap s) a"

definition wr :: "addr \<Rightarrow> u64 \<Rightarrow> 'z ldm_scheme \<Rightarrow> 'z ldm_scheme" where
  "wr a v s = s\<lparr>heap := put_bytes (heap s) a (store64 v)\<rparr>"

section \<open>Chunks\<close>

definition chunk_size :: "'z ldm_scheme \<Rightarrow> addr \<Rightarrow> u64" where "chunk_size s c = rd s c"
definition chunk_arena :: "'z ldm_scheme \<Rightarrow> addr \<Rightarrow> u64" where "chunk_arena s c = rd s (c + 8)"
definition chunk_canary :: "'z ldm_scheme \<Rightarrow> addr \<Rightarrow> u64" where "chunk_canary s c = rd s (c + 24)"
definition foot_canary :: "'z ldm_scheme \<Rightarrow> addr \<Rightarrow> u64" where "foot_canary s f = rd s f"
definition foot_size :: "'z ldm_scheme \<Rightarrow> addr \<Rightarrow> u64" where "foot_size s f = rd s (f + 8)"
definition free_next :: "'z ldm_scheme \<Rightarrow> addr \<Rightarrow> addr" where "free_next s l = rd s l"
definition free_last :: "'z ldm_scheme \<Rightarrow> addr \<Rightarrow> addr" where "free_last s l = rd s (l + 8)"

text \<open>The bit \<open>LD_MALLOC_CHUNK_USED\<close>, and the sizes without their flags.\<close>

definition used :: "u64 \<Rightarrow> bool" where "used sz \<longleftrightarrow> sz AND 1 \<noteq> 0"

definition CHUNK_SIZE :: "u64 \<Rightarrow> u64" where "CHUNK_SIZE sz = sz AND NOT 1"
definition ARENA_SIZE :: "'z ldm_scheme \<Rightarrow> addr \<Rightarrow> u64" where "ARENA_SIZE s c = chunk_arena s c AND NOT 3"

definition ALIGN_SIZE :: "u64 \<Rightarrow> u64" where "ALIGN_SIZE n = (n + 15) AND NOT 15"
definition SIZE_FOR_USERSIZE :: "u64 \<Rightarrow> u64" where "SIZE_FOR_USERSIZE n = ALIGN_SIZE n + 32 + 16"
definition USERSIZE_FOR_SIZE :: "u64 \<Rightarrow> u64" where "USERSIZE_FOR_SIZE n = n - 32 - 16"

definition CAN_SPLIT_CHUNK :: "'z ldm_scheme \<Rightarrow> addr \<Rightarrow> u64 \<Rightarrow> bool" where
  "CAN_SPLIT_CHUNK s c sz \<longleftrightarrow> CHUNK_SIZE (chunk_size s c) > sz \<and> CHUNK_SIZE (chunk_size s c) - sz \<ge> SIZE_FOR_USERSIZE 1"

definition CHUNK_TO_USER :: "addr \<Rightarrow> addr" where "CHUNK_TO_USER c = c + 32"
definition USER_TO_CHUNK :: "addr \<Rightarrow> addr" where "USER_TO_CHUNK p = p - 32"
definition PREV_FOOTER :: "addr \<Rightarrow> addr" where "PREV_FOOTER c = c - 16"
definition CHUNK_TO_FOOTER :: "'z ldm_scheme \<Rightarrow> addr \<Rightarrow> addr" where
  "CHUNK_TO_FOOTER s c = CHUNK_TO_USER c + CHUNK_SIZE (chunk_size s c)"
definition FOOTER_TO_CHUNK :: "'z ldm_scheme \<Rightarrow> addr \<Rightarrow> addr" where
  "FOOTER_TO_CHUNK s f = USER_TO_CHUNK (f - CHUNK_SIZE (foot_size s f))"
definition FOOTER_TO_NEXT :: "addr \<Rightarrow> addr" where "FOOTER_TO_NEXT f = f + 16"

definition VERIFY_HEADER :: "'z ldm_scheme \<Rightarrow> addr \<Rightarrow> bool" where
  "VERIFY_HEADER s c \<longleftrightarrow> chunk_size s c XOR chunk_canary s c = ld_malloc_header_canary s"

definition VERIFY_FOOTER :: "'z ldm_scheme \<Rightarrow> addr \<Rightarrow> bool" where
  "VERIFY_FOOTER s f \<longleftrightarrow> foot_size s f XOR foot_canary s f = ld_malloc_footer_canary s"

text \<open>\<open>if (!(b)) ld_malloc_abort(..)\<close>\<close>

definition ld_check :: "bool \<Rightarrow> 'a res \<Rightarrow> 'a res" where
  "ld_check b k = (if b then k else Inl Exit)"

text \<open>The size of a chunk and its canary, in the header and in the footer.\<close>

definition put_header :: "addr \<Rightarrow> u64 \<Rightarrow> 'z ldm_scheme \<Rightarrow> 'z ldm_scheme" where
  "put_header c sz s = wr (c + 24) (ld_malloc_header_canary s XOR sz) (wr c sz s)"

definition put_footer :: "addr \<Rightarrow> u64 \<Rightarrow> 'z ldm_scheme \<Rightarrow> 'z ldm_scheme" where
  "put_footer f sz s = wr f (ld_malloc_footer_canary s XOR sz) (wr (f + 8) sz s)"

definition put_arena :: "addr \<Rightarrow> u64 \<Rightarrow> 'z ldm_scheme \<Rightarrow> 'z ldm_scheme" where
  "put_arena c a s = wr (c + 8) a s"

definition zero_header :: "addr \<Rightarrow> 'z ldm_scheme \<Rightarrow> 'z ldm_scheme" where
  "zero_header c s = wr (c + 24) 0 (wr c 0 s)"

definition zero_footer :: "addr \<Rightarrow> 'z ldm_scheme \<Rightarrow> 'z ldm_scheme" where
  "zero_footer f s = wr f 0 (wr (f + 8) 0 s)"

section \<open>Initialisation\<close>

definition ld_getrandom :: "env \<Rightarrow> addr \<Rightarrow> 'z ldm_scheme \<Rightarrow> (u64 \<times> 'z ldm_scheme) res" where
  "ld_getrandom E a s =
     (let (r, s) = issue E Inline 318 a 8 0 0 0 0 s in ld_check (r = 8) (Inr (load64 (mem_at E s) a, s)))"

definition ld_malloc_init :: "env \<Rightarrow> canary_addrs \<Rightarrow> 'z ldm_scheme \<Rightarrow> 'z ldm_scheme res" where
  "ld_malloc_init E A s =
     rbind (ld_getrandom E (header_canary_addr A) s)
     (\<lambda>(hc, s). rbind (ld_getrandom E (footer_canary_addr A) (s\<lparr>ld_malloc_header_canary := hc\<rparr>))
     (\<lambda>(fc, s). Inr (s\<lparr>ld_malloc_footer_canary := fc, ld_malloc_freelist_head := 0, ld_malloc_initialized := True\<rparr>)))"

definition ld_ensure_init :: "env \<Rightarrow> canary_addrs \<Rightarrow> 'z ldm_scheme \<Rightarrow> 'z ldm_scheme res" where
  "ld_ensure_init E A s = (if \<not> ld_malloc_initialized s then ld_malloc_init E A s else Inr s)"

section \<open>The free list\<close>

definition ld_malloc_freelist_link :: "addr \<Rightarrow> 'z ldm_scheme \<Rightarrow> 'z ldm_scheme res" where
  "ld_malloc_freelist_link chunk s =
     ld_check (\<not> used (chunk_size s chunk))
     (let head = ld_malloc_freelist_head s; link = (\<lambda>s.
        let s = wr (CHUNK_TO_USER chunk) head s; s = wr (CHUNK_TO_USER chunk + 8) 0 s in s\<lparr>ld_malloc_freelist_head := chunk\<rparr>) in
      if head \<noteq> 0 then ld_check (VERIFY_HEADER s head) (Inr (link (wr (CHUNK_TO_USER head + 8) chunk s)))
      else Inr (link s))"

definition ld_malloc_freelist_unlink :: "addr \<Rightarrow> 'z ldm_scheme \<Rightarrow> 'z ldm_scheme res" where
  "ld_malloc_freelist_unlink l s =
     rbind (if free_last s l = 0 then Inr (s\<lparr>ld_malloc_freelist_head := free_next s l\<rparr>)
            else ld_check (VERIFY_HEADER s (free_last s l)) (Inr (wr (CHUNK_TO_USER (free_last s l)) (free_next s l) s)))
     (\<lambda>s. rbind (if free_next s l \<noteq> 0
                 then ld_check (VERIFY_HEADER s (free_next s l)) (Inr (wr (CHUNK_TO_USER (free_next s l) + 8) (free_last s l) s))
                 else Inr s)
     (\<lambda>s. Inr (wr l 0 (wr (l + 8) 0 s))))"

section \<open>Splitting a chunk\<close>

text \<open>The second part takes the place of the whole chunk in the free list.\<close>

definition split_relink :: "addr \<Rightarrow> addr \<Rightarrow> 'z ldm_scheme \<Rightarrow> 'z ldm_scheme res" where
  "split_relink first_header second_header s =
     (let l1 = CHUNK_TO_USER first_header; l2 = CHUNK_TO_USER second_header;
          s = wr l2 (free_next s l1) s;
          s = wr (l2 + 8) (free_last s l1) s;
          s = wr l1 0 s;
          s = wr (l1 + 8) 0 s in
      rbind (if free_next s l2 \<noteq> 0
             then ld_check (VERIFY_HEADER s (free_next s l2)) (Inr (wr (CHUNK_TO_USER (free_next s l2) + 8) second_header s))
             else Inr s)
      (\<lambda>s. rbind (if free_last s l2 \<noteq> 0
             then ld_check (VERIFY_HEADER s (free_last s l2)) (Inr (wr (CHUNK_TO_USER (free_last s l2)) second_header s))
             else Inr s)
      (\<lambda>s. Inr (if ld_malloc_freelist_head s = first_header then s\<lparr>ld_malloc_freelist_head := second_header\<rparr> else s))))"

definition ld_malloc_chunk_split :: "addr \<Rightarrow> u64 \<Rightarrow> 'z ldm_scheme \<Rightarrow> (addr \<times> 'z ldm_scheme) res" where
  "ld_malloc_chunk_split first_header new_size s =
     (let orig_used = used (chunk_size s first_header);
          orig_arena_size = chunk_arena s first_header;
          second_size = CHUNK_SIZE (chunk_size s first_header) - SIZE_FOR_USERSIZE new_size;
          first_size = (if orig_used then new_size OR 1 else new_size);
          footer = CHUNK_TO_FOOTER s first_header in
      ld_check (VERIFY_HEADER s first_header)
      (ld_check (VERIFY_FOOTER s footer)
      (let s = put_header first_header first_size (put_arena first_header (orig_arena_size AND NOT 2) s);
           first_footer = CHUNK_TO_FOOTER s first_header;
           s = put_footer first_footer first_size s;
           second_header = FOOTER_TO_NEXT first_footer;
           s = put_header second_header second_size (put_arena second_header (orig_arena_size AND NOT 1) s);
           second_footer = CHUNK_TO_FOOTER s second_header in
       ld_check (footer = second_footer)
       (let s = put_footer second_footer second_size s in
        if orig_used then Inr (second_header, s)
        else rbind (split_relink first_header second_header s) (\<lambda>s. Inr (first_header, s))))))"

section \<open>Allocation\<close>

primrec find_freelist :: "nat \<Rightarrow> u64 \<Rightarrow> addr \<Rightarrow> 'z ldm_scheme \<Rightarrow> (addr \<times> 'z ldm_scheme) res" where
  "find_freelist 0 sz cur s = Inl NoFuel"
| "find_freelist (Suc n) sz cur s =
     (if cur = 0 then Inr (0, s)
      else if chunk_size s cur \<ge> sz then
        (if CAN_SPLIT_CHUNK s cur sz then ld_malloc_chunk_split cur sz s
         else rbind (ld_malloc_freelist_unlink (CHUNK_TO_USER cur) s) (\<lambda>s. Inr (cur, s)))
      else ld_check (VERIFY_HEADER s cur)
        (ld_check (VERIFY_FOOTER s (CHUNK_TO_FOOTER s cur)) (find_freelist n sz (free_next s (CHUNK_TO_USER cur)) s)))"

definition ld_malloc_find_freelist :: "nat \<Rightarrow> u64 \<Rightarrow> 'z ldm_scheme \<Rightarrow> (addr \<times> 'z ldm_scheme) res" where
  "ld_malloc_find_freelist n sz s = find_freelist n sz (ld_malloc_freelist_head s) s"

text \<open>\<open>mmap\<close> of the C library: an error of the kernel is \<open>MAP_FAILED\<close>; otherwise the pages hold what the environment puts there.\<close>

definition ld_mmap :: "env \<Rightarrow> u64 \<Rightarrow> 'z ldm_scheme \<Rightarrow> addr \<times> 'z ldm_scheme" where
  "ld_mmap E len s =
     (let (r, s) = issue E Inline NR_mmap 0 len 3 0x22 (- 1) 0 s in
      if r > - 4096 then (- 1, s)
      else (r, s\<lparr>heap := (\<lambda>x. if x - r < len then mem_at E s x else heap s x)\<rparr>))"

text \<open>A new arena: one chunk, split if there is room for another one. The result is the chunk and the size to be noted for it.\<close>

definition new_arena :: "env \<Rightarrow> u64 \<Rightarrow> 'z ldm_scheme \<Rightarrow> (addr option \<times> u64 \<times> 'z ldm_scheme) res" where
  "new_arena E sz s =
     (let mmap_size = (SIZE_FOR_USERSIZE sz + 4095) AND NOT 4095;
          (new_chunk, s) = ld_mmap E mmap_size s in
      if new_chunk = - 1 then Inr (None, sz, s)
      else
        let new_size = USERSIZE_FOR_SIZE mmap_size OR 1;
            s = put_header new_chunk new_size (put_arena new_chunk (mmap_size OR 1 OR 2) s);
            s = put_footer (CHUNK_TO_FOOTER s new_chunk) new_size s in
        if CAN_SPLIT_CHUNK s new_chunk sz
        then rbind (ld_malloc_chunk_split new_chunk sz s)
               (\<lambda>(rest, s). rbind (ld_malloc_freelist_link rest s) (\<lambda>s. Inr (Some new_chunk, sz, s)))
        else Inr (Some new_chunk, new_size, s))"

text \<open>The chunk is marked as used.\<close>

definition finish_malloc :: "addr \<Rightarrow> u64 \<Rightarrow> 'z ldm_scheme \<Rightarrow> (addr \<times> 'z ldm_scheme) res" where
  "finish_malloc allocated sz s =
     (let sz = sz OR 1;
          s = put_header allocated sz s;
          s = put_footer (CHUNK_TO_FOOTER s allocated) sz s in
      ld_check (used (chunk_size s allocated)) (Inr (CHUNK_TO_USER allocated, s)))"

definition ld_malloc_unlocked :: "env \<Rightarrow> canary_addrs \<Rightarrow> nat \<Rightarrow> u64 \<Rightarrow> 'z ldm_scheme \<Rightarrow> (addr \<times> 'z ldm_scheme) res" where
  "ld_malloc_unlocked E A n sz s =
     rbind (ld_ensure_init E A s)
     (\<lambda>s. if sz = 0 then Inr (0, s)
       else
         let sz = ALIGN_SIZE sz in
         rbind (ld_malloc_find_freelist n sz s)
         (\<lambda>(allocated, s).
            if allocated \<noteq> 0 then finish_malloc allocated (chunk_size s allocated) s
            else rbind (new_arena E sz s)
              (\<lambda>(new_chunk, sz, s). case new_chunk of None \<Rightarrow> Inr (0, s) | Some c \<Rightarrow> finish_malloc c sz s)))"

section \<open>Release\<close>

text \<open>The chunk before the freed one is joined if it is free; the result is the first header, the flags and whether the chunk goes
  into the free list.\<close>

definition free_prev :: "addr \<Rightarrow> u64 \<Rightarrow> 'z ldm_scheme \<Rightarrow> (addr \<times> u64 \<times> bool \<times> 'z ldm_scheme) res" where
  "free_prev freed arena_flags s =
     (if arena_flags AND 1 \<noteq> 0 then Inr (freed, arena_flags, True, s)
      else
        let prev_footer = PREV_FOOTER freed in
        ld_check (VERIFY_FOOTER s prev_footer)
        (if used (foot_size s prev_footer) then Inr (freed, arena_flags, True, s)
         else
           let prev_header = FOOTER_TO_CHUNK s prev_footer in
           ld_check (VERIFY_HEADER s prev_header)
           (let arena_flags = arena_flags OR (chunk_arena s prev_header AND 3);
                s = zero_footer prev_footer s;
                s = zero_header freed (put_arena freed 0 s) in
            Inr (prev_header, arena_flags, False, s))))"

text \<open>The same for the chunk behind it; the result is the last footer and the flags.\<close>

definition free_next_chunk :: "addr \<Rightarrow> u64 \<Rightarrow> 'z ldm_scheme \<Rightarrow> (addr \<times> u64 \<times> 'z ldm_scheme) res" where
  "free_next_chunk freed_footer arena_flags s =
     (if arena_flags AND 2 \<noteq> 0 then Inr (freed_footer, arena_flags, s)
      else
        let next_header = FOOTER_TO_NEXT freed_footer in
        ld_check (VERIFY_HEADER s next_header)
        (if used (chunk_size s next_header) then Inr (freed_footer, arena_flags, s)
         else
           let next_footer = CHUNK_TO_FOOTER s next_header in
           ld_check (VERIFY_FOOTER s next_footer)
           (rbind (ld_malloc_freelist_unlink (CHUNK_TO_USER next_header) s)
            (\<lambda>s. let arena_flags = arena_flags OR (chunk_arena s next_header AND 3);
                     s = zero_header next_header (put_arena next_header 0 s);
                     s = zero_footer freed_footer s in
                 Inr (next_footer, arena_flags, s)))))"

definition ld_munmap :: "env \<Rightarrow> addr \<Rightarrow> u64 \<Rightarrow> 'z ldm_scheme \<Rightarrow> 'z ldm_scheme" where
  "ld_munmap E a len s = snd (issue E Inline NR_munmap a len 0 0 0 0 s)"

definition finish_free :: "env \<Rightarrow> addr \<Rightarrow> addr \<Rightarrow> u64 \<Rightarrow> bool \<Rightarrow> 'z ldm_scheme \<Rightarrow> 'z ldm_scheme res" where
  "finish_free E first_header last_footer arena_flags into_freelist s =
     (let sz = last_footer - CHUNK_TO_USER first_header;
          s = put_arena first_header (chunk_arena s first_header OR arena_flags) s;
          s = put_footer last_footer sz (put_header first_header sz s) in
      if arena_flags AND 1 \<noteq> 0 \<and> arena_flags AND 2 \<noteq> 0
      then rbind (if \<not> into_freelist then ld_malloc_freelist_unlink (CHUNK_TO_USER first_header) s else Inr s)
             (\<lambda>s. Inr (ld_munmap E first_header (ARENA_SIZE s first_header) s))
      else if into_freelist then ld_malloc_freelist_link first_header s
      else Inr s)"

definition ld_free_unlocked :: "env \<Rightarrow> canary_addrs \<Rightarrow> addr \<Rightarrow> 'z ldm_scheme \<Rightarrow> 'z ldm_scheme res" where
  "ld_free_unlocked E A ptr s =
     rbind (ld_ensure_init E A s)
     (\<lambda>s. if ptr = 0 then Inr s
       else
         let freed = USER_TO_CHUNK ptr in
         ld_check (VERIFY_HEADER s freed)
         (ld_check (used (chunk_size s freed))
         (let arena_flags = chunk_arena s freed AND 3;
              freed_footer = CHUNK_TO_FOOTER s freed in
          ld_check (VERIFY_FOOTER s freed_footer)
          (rbind (free_prev freed arena_flags s)
           (\<lambda>(first_header, arena_flags, into_freelist, s). rbind (free_next_chunk freed_footer arena_flags s)
           (\<lambda>(last_footer, arena_flags, s). finish_free E first_header last_footer arena_flags into_freelist s))))))"

section \<open>Reallocation\<close>

text \<open>\<open>memmove\<close>, and \<open>memcpy\<close> of areas that do not overlap.\<close>

definition ld_memmove :: "addr \<Rightarrow> addr \<Rightarrow> u64 \<Rightarrow> 'z ldm_scheme \<Rightarrow> 'z ldm_scheme" where
  "ld_memmove dest src n s = s\<lparr>heap := put_bytes (heap s) dest (map (\<lambda>i. heap s (src + of_nat i)) [0..<unat n])\<rparr>"

definition realloc_shrink :: "addr \<Rightarrow> addr \<Rightarrow> u64 \<Rightarrow> 'z ldm_scheme \<Rightarrow> (addr \<times> 'z ldm_scheme) res" where
  "realloc_shrink reallocd ptr sz s =
     rbind (if CAN_SPLIT_CHUNK s reallocd sz
            then rbind (ld_malloc_chunk_split reallocd sz s) (\<lambda>(rest, s). ld_malloc_freelist_link rest s)
            else Inr s)
     (\<lambda>s. ld_check (used (chunk_size s reallocd)) (Inr (ptr, s)))"

text \<open>\<open>next_header\<close> and \<open>reallocd_footer\<close> are cleared after the next chunk has left the free list.\<close>

definition realloc_take_next :: "addr \<Rightarrow> addr \<Rightarrow> 'z ldm_scheme \<Rightarrow> 'z ldm_scheme res" where
  "realloc_take_next next_header reallocd_footer s =
     rbind (ld_malloc_freelist_unlink (CHUNK_TO_USER next_header) s)
     (\<lambda>s. Inr (zero_footer reallocd_footer (zero_header next_header s)))"

text \<open>The attempt to grow into the next chunk: the result of \<open>realloc\<close> if it succeeds, and otherwise the next header and footer if
  that chunk is free.\<close>

definition realloc_next :: "addr \<Rightarrow> addr \<Rightarrow> addr \<Rightarrow> u64 \<Rightarrow> u64 \<Rightarrow> 'z ldm_scheme \<Rightarrow> (addr option \<times> (addr \<times> addr) option \<times> 'z ldm_scheme) res" where
  "realloc_next reallocd reallocd_footer ptr arena_flags sz s =
     (if arena_flags AND 2 \<noteq> 0 then Inr (None, None, s)
      else
        let next_header = FOOTER_TO_NEXT reallocd_footer in
        ld_check (VERIFY_HEADER s next_header)
        (if used (chunk_size s next_header) then Inr (None, None, s)
         else
           let next_footer = CHUNK_TO_FOOTER s next_header in
           ld_check (VERIFY_FOOTER s next_footer)
           (let combined_size = next_footer - CHUNK_TO_USER reallocd in
            if combined_size \<ge> sz
            then rbind (realloc_take_next next_header reallocd_footer s)
                   (\<lambda>s. let combined_size = combined_size OR 1;
                            s = put_footer next_footer combined_size (put_header reallocd combined_size s) in
                        ld_check (used (chunk_size s reallocd)) (Inr (Some ptr, None, s)))
            else Inr (None, Some (next_header, next_footer), s))))"

text \<open>The attempt to grow into the previous chunk, together with the next one if that is free.\<close>

definition realloc_prev :: "addr \<Rightarrow> addr \<Rightarrow> addr \<Rightarrow> u64 \<Rightarrow> u64 \<Rightarrow> (addr \<times> addr) option \<Rightarrow> 'z ldm_scheme \<Rightarrow> (addr option \<times> 'z ldm_scheme) res" where
  "realloc_prev reallocd reallocd_footer ptr arena_flags sz next_chunk s =
     (if arena_flags AND 1 \<noteq> 0 then Inr (None, s)
      else
        let prev_footer = PREV_FOOTER reallocd in
        ld_check (VERIFY_FOOTER s prev_footer)
        (if used (foot_size s prev_footer) then Inr (None, s)
         else
           let prev_header = FOOTER_TO_CHUNK s prev_footer in
           ld_check (VERIFY_HEADER s prev_header)
           (let last_footer = (case next_chunk of None \<Rightarrow> reallocd_footer | Some (_, next_footer) \<Rightarrow> next_footer);
                combined_size = last_footer - CHUNK_TO_USER prev_header in
            if combined_size \<ge> sz
            then rbind (case next_chunk of None \<Rightarrow> Inr s | Some (next_header, _) \<Rightarrow> realloc_take_next next_header reallocd_footer s)
                   (\<lambda>s. rbind (ld_malloc_freelist_unlink (CHUNK_TO_USER prev_header) s)
                   (\<lambda>s. let old_size = chunk_size s reallocd;
                            s = zero_header reallocd (zero_footer prev_footer s);
                            combined_size = combined_size OR 1;
                            s = put_footer last_footer combined_size (put_header prev_header combined_size s);
                            new_ptr = CHUNK_TO_USER prev_header;
                            s = ld_memmove new_ptr ptr old_size s in
                        ld_check (used (chunk_size s prev_header)) (Inr (Some new_ptr, s))))
            else Inr (None, s))))"

definition realloc_move :: "env \<Rightarrow> canary_addrs \<Rightarrow> nat \<Rightarrow> addr \<Rightarrow> addr \<Rightarrow> u64 \<Rightarrow> 'z ldm_scheme \<Rightarrow> (addr \<times> 'z ldm_scheme) res" where
  "realloc_move E A n reallocd ptr new_size s =
     rbind (ld_malloc_unlocked E A n new_size s)
     (\<lambda>(new_chunk, s). if new_chunk = 0 then Inr (0, s)
        else rbind (ld_free_unlocked E A ptr (ld_memmove new_chunk ptr (chunk_size s reallocd) s))
          (\<lambda>s. ld_check (used (chunk_size s (USER_TO_CHUNK new_chunk))) (Inr (new_chunk, s))))"

definition ld_realloc_unlocked :: "env \<Rightarrow> canary_addrs \<Rightarrow> nat \<Rightarrow> addr \<Rightarrow> u64 \<Rightarrow> 'z ldm_scheme \<Rightarrow> (addr \<times> 'z ldm_scheme) res" where
  "ld_realloc_unlocked E A n ptr sz s =
     rbind (ld_ensure_init E A s)
     (\<lambda>s. if ptr = 0 then ld_malloc_unlocked E A n sz s
       else if sz = 0 then rbind (ld_free_unlocked E A ptr s) (\<lambda>s. Inr (0, s))
       else if sint sz < 0 then Inr (0, s)
       else
         let reallocd = USER_TO_CHUNK ptr in
         ld_check (VERIFY_HEADER s reallocd)
         (ld_check (used (chunk_size s reallocd))
         (let arena_flags = chunk_arena s reallocd AND 3;
              reallocd_footer = CHUNK_TO_FOOTER s reallocd in
          ld_check (VERIFY_FOOTER s reallocd_footer)
          (if CHUNK_SIZE (chunk_size s reallocd) \<ge> sz then realloc_shrink reallocd ptr sz s
           else
             let size_doubled = chunk_size s reallocd * 2;
                 new_size = (if size_doubled > sz then size_doubled else sz) in
             rbind (realloc_next reallocd reallocd_footer ptr arena_flags sz s)
             (\<lambda>(done, next_chunk, s). case done of Some p \<Rightarrow> Inr (p, s)
                | None \<Rightarrow> rbind (realloc_prev reallocd reallocd_footer ptr arena_flags sz next_chunk s)
                    (\<lambda>(done, s). case done of Some p \<Rightarrow> Inr (p, s)
                       | None \<Rightarrow> realloc_move E A n reallocd ptr new_size s))))))"

section \<open>The functions of the library\<close>

definition ld_locked :: "('z ldm_scheme \<Rightarrow> ('a \<times> 'z ldm_scheme) res) \<Rightarrow> 'z ldm_scheme \<Rightarrow> ('a \<times> 'z ldm_scheme) res" where
  "ld_locked f s =
     (if ld_malloc_lock s then Inl Deadlock
      else rbind (f (s\<lparr>ld_malloc_lock := True\<rparr>)) (\<lambda>(r, s). Inr (r, s\<lparr>ld_malloc_lock := False\<rparr>)))"

definition ld_malloc :: "env \<Rightarrow> canary_addrs \<Rightarrow> nat \<Rightarrow> u64 \<Rightarrow> 'z ldm_scheme \<Rightarrow> (addr \<times> 'z ldm_scheme) res" where
  "ld_malloc E A n sz s = ld_locked (ld_malloc_unlocked E A n sz) s"

definition ld_free :: "env \<Rightarrow> canary_addrs \<Rightarrow> addr \<Rightarrow> 'z ldm_scheme \<Rightarrow> (unit \<times> 'z ldm_scheme) res" where
  "ld_free E A ptr s = ld_locked (\<lambda>s. rbind (ld_free_unlocked E A ptr s) (\<lambda>s. Inr ((), s))) s"

definition ld_realloc :: "env \<Rightarrow> canary_addrs \<Rightarrow> nat \<Rightarrow> addr \<Rightarrow> u64 \<Rightarrow> 'z ldm_scheme \<Rightarrow> (addr \<times> 'z ldm_scheme) res" where
  "ld_realloc E A n ptr sz s = ld_locked (ld_realloc_unlocked E A n ptr sz) s"

definition ld_calloc :: "env \<Rightarrow> canary_addrs \<Rightarrow> nat \<Rightarrow> u64 \<Rightarrow> u64 \<Rightarrow> 'z ldm_scheme \<Rightarrow> (addr \<times> 'z ldm_scheme) res" where
  "ld_calloc E A n nmemb sz s =
     (if unat nmemb * unat sz \<ge> 2 ^ 64 then Inr (0, s)
      else rbind (ld_malloc E A n (nmemb * sz) s)
        (\<lambda>(ptr, s). Inr (ptr, if ptr \<noteq> 0 then s\<lparr>heap := put_bytes (heap s) ptr (replicate (unat (nmemb * sz)) 0)\<rparr> else s)))"

definition ld_malloc_reset :: "'z ldm_scheme \<Rightarrow> 'z ldm_scheme" where
  "ld_malloc_reset s = s\<lparr>ld_malloc_initialized := False\<rparr>"

end
