(* ===== verification/LdMallocWords.thy ===== *)
theory LdMallocWords
  imports LdMalloc
begin

text \<open>
  The heap of the allocator as words. At addresses that are multiples of 8, and the allocator uses no others if all sizes are
  multiples of 16, a store changes one word and no other, so the memory is a function from natural numbers to words.
\<close>

definition al :: "nat \<Rightarrow> bool" where
  "al a \<longleftrightarrow> 8 dvd a \<and> a < 2 ^ 64"

definition ad :: "nat \<Rightarrow> addr" where
  "ad a = of_nat a"

definition wds :: "'z ldm_scheme \<Rightarrow> nat \<Rightarrow> u64" where
  "wds s a = (if al a then rd s (ad a) else 0)"

lemma ad_0_iff: "a < 2 ^ 64 \<Longrightarrow> ad a = 0 \<longleftrightarrow> a = 0"
  by (simp add: ad_def word_of_nat_eq_0_iff nat_dvd_not_less) (auto simp: dvd_def)

lemma ad_eq_iff: "a < 2 ^ 64 \<Longrightarrow> b < 2 ^ 64 \<Longrightarrow> ad a = ad b \<longleftrightarrow> a = b"
  by (metis ad_def unat_of_nat_small)

lemma unat_ad [simp]: "a < 2 ^ 64 \<Longrightarrow> unat (ad a) = a"
  by (simp add: ad_def unat_of_nat_small)

lemma ad_unat [simp]: "ad (unat w) = w"
  by (simp add: ad_def)

lemma ad_plus: "ad a + ad b = ad (a + b)" "ad a + numeral k = ad (a + numeral k)" "ad a + 1 = ad (a + 1)"
  by (simp_all add: ad_def)

lemma ad_minus: "b \<le> a \<Longrightarrow> ad a - ad b = ad (a - b)" "numeral k \<le> a \<Longrightarrow> ad a - numeral k = ad (a - numeral k)"
  by (simp_all add: ad_def of_nat_diff)

lemma unat_ad_minus: "a < 2 ^ 64 \<Longrightarrow> b < 2 ^ 64 \<Longrightarrow> unat (ad a - ad b) = (if b \<le> a then a - b else a + 2 ^ 64 - b)"
  by (simp add: unat_sub_if')

lemma rd_wr_same: "rd (wr a v s) a = v"
  by (simp add: rd_def wr_def load64_put_same)

lemma rd_wr_other: "al a \<Longrightarrow> al b \<Longrightarrow> a \<noteq> b \<Longrightarrow> rd (wr (ad a) v s) (ad b) = rd s (ad b)"
proof -
  assume a: "al a" "al b" "a \<noteq> b"
  then have "8 \<le> unat (ad b - ad a)" "8 \<le> unat (ad a - ad b)"
    by (auto simp: al_def unat_ad_minus) (presburger+)
  then show ?thesis by (simp add: rd_def wr_def load64_put_other)
qed

lemma wds_wr [simp]: "al a \<Longrightarrow> wds (wr (ad a) v s) = (wds s)(a := v)"
  by (auto simp: wds_def rd_wr_same rd_wr_other)

lemma rd_wds: "al a \<Longrightarrow> rd s (ad a) = wds s a"
  by (simp add: wds_def)

lemma wr_keeps [simp]:
  "ld_malloc_freelist_head (wr a v s) = ld_malloc_freelist_head s" "ld_malloc_header_canary (wr a v s) = ld_malloc_header_canary s"
  "ld_malloc_footer_canary (wr a v s) = ld_malloc_footer_canary s" "trace (wr a v s) = trace s" "ld_malloc_initialized (wr a v s) = ld_malloc_initialized s"
  "ld_malloc_lock (wr a v s) = ld_malloc_lock s" "sud_selector (wr a v s) = sud_selector s"
  by (simp_all add: wr_def)

text \<open>A changed head of the free list leaves the words.\<close>

lemma wds_head [simp]: "wds (s\<lparr>ld_malloc_freelist_head := h\<rparr>) = wds s"
  by (simp add: wds_def rd_def fun_eq_iff)

section \<open>Flags\<close>

text \<open>The word of a size with its flag, and of an arena size with its two flags.\<close>

definition sw :: "nat \<Rightarrow> bool \<Rightarrow> u64" where
  "sw n u = ad (n + (if u then 1 else 0))"

definition aw :: "nat \<Rightarrow> bool \<Rightarrow> bool \<Rightarrow> u64" where
  "aw n b e = ad (n + (if b then 1 else 0) + (if e then 2 else 0))"

lemma bit_ad: "bit (ad n) i \<longleftrightarrow> i < 64 \<and> bit n i"
  by (simp add: ad_def bit_of_nat_iff possible_bit_word)

lemma bit_low:
  assumes "4 dvd n" "k < 4"
  shows "bit (ad (n + k)) i \<longleftrightarrow> i < 64 \<and> (if i = 0 then odd k else if i = 1 then k \<ge> 2 else bit (ad n) i)"
proof -
  obtain m where m: "n = 4 * m" using assms(1) by blast
  consider "i = 0" | "i = 1" | j where "i = Suc (Suc j)" by (metis One_nat_def not0_implies_Suc)
  then show ?thesis
  proof cases
    case 1
    then show ?thesis by (simp only: bit_ad m) (simp add: bit_0)
  next
    case 2
    have "odd ((4 * m + k) div 2) \<longleftrightarrow> k \<ge> 2" using assms(2) by presburger
    then show ?thesis using 2 by (simp only: bit_ad m) (simp add: bit_Suc bit_0)
  next
    case 3
    have "(4 * m + k) div 2 div 2 = m" "4 * m div 2 div 2 = m" using assms(2) by auto
    then show ?thesis using 3 by (simp only: bit_ad m) (simp add: bit_Suc)
  qed
qed

lemma bit_sw: "4 dvd n \<Longrightarrow> bit (sw n u) i \<longleftrightarrow> i < 64 \<and> (if i = 0 then u else i \<noteq> 1 \<and> bit (ad n) i)"
  unfolding sw_def by (subst bit_low) auto

lemma bit_aw: "4 dvd n \<Longrightarrow> bit (aw n b e) i \<longleftrightarrow> i < 64 \<and> (if i = 0 then b else if i = 1 then e else bit (ad n) i)"
  unfolding aw_def add.assoc by (subst bit_low) auto

lemma bit_ad4: "bit (ad n) i \<Longrightarrow> 4 dvd n \<Longrightarrow> i \<noteq> 0 \<and> i \<noteq> Suc 0"
  using bit_low [of n 0 i] by (auto split: if_splits)

lemma bit_small: "bit (1 :: u64) i \<longleftrightarrow> i = 0" "bit (2 :: u64) i \<longleftrightarrow> i = Suc 0" "bit (3 :: u64) i \<longleftrightarrow> i = 0 \<or> i = Suc 0"
proof -
  have e: "(1 :: u64) = ad (0 + 1)" "(2 :: u64) = ad (0 + 2)" "(3 :: u64) = ad (0 + 3)" by (simp_all add: ad_def)
  show "bit (1 :: u64) i \<longleftrightarrow> i = 0" "bit (2 :: u64) i \<longleftrightarrow> i = Suc 0" "bit (3 :: u64) i \<longleftrightarrow> i = 0 \<or> i = Suc 0"
    unfolding e by (subst bit_low; auto simp: bit_ad)+
qed

lemma bit_clear: "bit (- 2 :: u64) i \<longleftrightarrow> i < 64 \<and> i \<noteq> 0" "bit (- 3 :: u64) i \<longleftrightarrow> i < 64 \<and> i \<noteq> Suc 0"
    "bit (- 4 :: u64) i \<longleftrightarrow> i < 64 \<and> i \<noteq> 0 \<and> i \<noteq> Suc 0"
  using bit_not_iff [of "1 :: u64" i] bit_not_iff [of "2 :: u64" i] bit_not_iff [of "3 :: u64" i]
  by (auto simp: bit_small possible_bit_word simp del: bit_numeral_word_iff bit_neg_numeral_word_iff)

lemmas flag_bits = bit_sw bit_aw bit_small bit_clear bit_and_iff bit_or_iff

lemma sw_simps:
  assumes "4 dvd n"
  shows "CHUNK_SIZE (sw n u) = ad n" "used (sw n u) \<longleftrightarrow> u" "sw n u OR 1 = sw n True" "ad n OR 1 = sw n True"
proof -
  show "CHUNK_SIZE (sw n u) = ad n" "sw n u OR 1 = sw n True" "ad n OR 1 = sw n True"
    using assms by (auto intro!: bit_word_eqI simp: CHUNK_SIZE_def flag_bits simp del: bit_numeral_word_iff bit_neg_numeral_word_iff dest: bit_ad4)
  have "used (sw n u) \<longleftrightarrow> odd (sw n u)" by (simp add: used_def and_one_eq mod2_eq_if)
  then show "used (sw n u) \<longleftrightarrow> u" using bit_sw [OF assms, of u 0] by (simp add: bit_0)
qed

lemma sw_False: "sw n False = ad n"
  by (simp add: sw_def)

lemma aw_simps:
  assumes "4 dvd n"
  shows "aw n b e AND NOT 2 = aw n b False" "aw n b e AND NOT 1 = aw n False e" "aw n b e AND 3 = aw 0 b e" "aw n b e AND NOT 3 = ad n"
    "aw n b e OR aw 0 b' e' = aw n (b \<or> b') (e \<or> e')" "ad n OR 1 OR 2 = aw n True True" "ad n OR 3 = aw n True True"
  using assms by (auto intro!: bit_word_eqI simp: flag_bits ad_def [of 0] simp del: bit_numeral_word_iff bit_neg_numeral_word_iff dest: bit_ad4 split: if_splits)

lemma aw_flags: "aw 0 b e AND 1 = 0 \<longleftrightarrow> \<not> b" "aw 0 b e AND 2 = 0 \<longleftrightarrow> \<not> e"
  by (auto simp: aw_def ad_def)

end
