(* ===== verification/LdMallocGeo.thy ===== *)
theory LdMallocGeo
  imports LdMallocWords
begin

text \<open>
  The chunks of the heap as a map from the address of the header to what the chunk is: its size, whether it is used, and the
  arena it lies in. The chunks of an arena tile it without gaps.
\<close>

record cinfo =
  csz :: nat
  cused :: bool
  cbase :: nat
  casz :: nat

type_synonym chunks = "nat \<rightharpoonup> cinfo"

definition cend :: "nat \<Rightarrow> cinfo \<Rightarrow> nat" where "cend h c = h + 48 + csz c"
definition ctop :: "cinfo \<Rightarrow> nat" where "ctop c = cbase c + casz c"

definition same_arena :: "cinfo \<Rightarrow> cinfo \<Rightarrow> bool" where
  "same_arena c c' \<longleftrightarrow> cbase c' = cbase c \<and> casz c' = casz c"

definition chunk_geo :: "nat \<Rightarrow> cinfo \<Rightarrow> bool" where
  "chunk_geo h c \<longleftrightarrow> 16 dvd h \<and> 16 dvd csz c \<and> 16 \<le> csz c \<and> 0 < cbase c \<and> cbase c \<le> h \<and> cend h c \<le> ctop c \<and>
     ctop c \<le> 2 ^ 63 \<and> 4096 dvd casz c"

definition geo :: "chunks \<Rightarrow> bool" where
  "geo C \<longleftrightarrow> (\<forall>h c. C h = Some c \<longrightarrow> chunk_geo h c) \<and>
     (\<forall>h c. C h = Some c \<longrightarrow> cend h c < ctop c \<longrightarrow> (\<exists>c'. C (cend h c) = Some c' \<and> same_arena c c')) \<and>
     (\<forall>h c. C h = Some c \<longrightarrow> cbase c < h \<longrightarrow> (\<exists>h' c'. C h' = Some c' \<and> cend h' c' = h \<and> same_arena c c')) \<and>
     (\<forall>h h' c c'. C h = Some c \<longrightarrow> C h' = Some c' \<longrightarrow> h < h' \<longrightarrow> cend h c \<le> h')"

lemma geoI:
  assumes "\<And>h c. C h = Some c \<Longrightarrow> chunk_geo h c"
    and "\<And>h c. C h = Some c \<Longrightarrow> cend h c < ctop c \<Longrightarrow> \<exists>c'. C (cend h c) = Some c' \<and> same_arena c c'"
    and "\<And>h c. C h = Some c \<Longrightarrow> cbase c < h \<Longrightarrow> \<exists>h' c'. C h' = Some c' \<and> cend h' c' = h \<and> same_arena c c'"
    and "\<And>h h' c c'. C h = Some c \<Longrightarrow> C h' = Some c' \<Longrightarrow> h < h' \<Longrightarrow> cend h c \<le> h'"
  shows "geo C"
  using assms unfolding geo_def by blast

lemma geo_chunk: "geo C \<Longrightarrow> C h = Some c \<Longrightarrow> chunk_geo h c"
  by (simp add: geo_def)

lemma geo_next: "geo C \<Longrightarrow> C h = Some c \<Longrightarrow> cend h c < ctop c \<Longrightarrow> \<exists>c'. C (cend h c) = Some c' \<and> same_arena c c'"
  by (simp add: geo_def)

lemma geo_prev: "geo C \<Longrightarrow> C h = Some c \<Longrightarrow> cbase c < h \<Longrightarrow> \<exists>h' c'. C h' = Some c' \<and> cend h' c' = h \<and> same_arena c c'"
  by (simp add: geo_def)

lemma geo_disjoint: "geo C \<Longrightarrow> C h = Some c \<Longrightarrow> C h' = Some c' \<Longrightarrow> h < h' \<Longrightarrow> cend h c \<le> h'"
  by (auto simp: geo_def)

text \<open>Addresses inside of different chunks differ.\<close>

lemma geo_apart:
  assumes "geo C" "C h = Some c" "C h' = Some c'" "h \<noteq> h'" "h \<le> a" "a < cend h c" "h' \<le> b" "b < cend h' c'"
  shows "a \<noteq> b"
  using geo_disjoint [OF assms(1-3)] geo_disjoint [OF assms(1) assms(3) assms(2)] assms(4-) by force

lemma geo_used: "geo C \<Longrightarrow> C h = Some c \<Longrightarrow> geo (C(h \<mapsto> c\<lparr>cused := u\<rparr>))"
proof (rule geoI)
  assume g: "geo C" and h: "C h = Some c"
  let ?C = "C(h \<mapsto> c\<lparr>cused := u\<rparr>)"
  have e: "\<exists>d'. C k = Some d' \<and> csz d' = csz d \<and> same_arena d d'" if "?C k = Some d" for k d
    using that h by (auto simp: same_arena_def split: if_splits)
  have e': "\<exists>d'. ?C k = Some d' \<and> csz d' = csz d \<and> same_arena d d'" if "C k = Some d" for k d
    using that h by (auto simp: same_arena_def)
  fix k d assume k: "?C k = Some d"
  then obtain d' where d: "C k = Some d'" "csz d' = csz d" "same_arena d d'" using e by blast
  show "chunk_geo k d" using geo_chunk [OF g d(1)] d(2,3) by (simp add: chunk_geo_def cend_def ctop_def same_arena_def)
  show "\<exists>d'. ?C (cend k d) = Some d' \<and> same_arena d d'" if "cend k d < ctop d"
    using geo_next [OF g d(1)] e' d that by (fastforce simp: cend_def ctop_def same_arena_def)
  show "\<exists>h' c'. ?C h' = Some c' \<and> cend h' c' = k \<and> same_arena d c'" if "cbase d < k"
    using geo_prev [OF g d(1)] e' d that by (fastforce simp: cend_def same_arena_def)
  fix k' d'' assume "?C k' = Some d''" "k < k'"
  then show "cend k d \<le> k'" using e [of k' d''] geo_disjoint [OF g d(1)] d(2) by (auto simp: cend_def)
qed

lemma geo_split:
  assumes g: "geo C" and h: "C h = Some c" and n: "16 dvd n" "16 \<le> n" "n + 64 \<le> csz c"
  shows "geo (C(h \<mapsto> c\<lparr>csz := n, cused := u\<rparr>, h + 48 + n \<mapsto> c\<lparr>csz := csz c - 48 - n, cused := u'\<rparr>))" (is "geo ?C")
proof (rule geoI)
  let ?c1 = "c\<lparr>csz := n, cused := u\<rparr>" and ?c2 = "c\<lparr>csz := csz c - 48 - n, cused := u'\<rparr>" and ?k = "h + 48 + n"
  note hg = geo_chunk [OF g h]
  have new: "C ?k = None"
  proof (rule ccontr)
    assume "C ?k \<noteq> None"
    then obtain d where "C ?k = Some d" by blast
    from geo_disjoint [OF g h this] n show False by (simp add: cend_def)
  qed
  have e1: "cend h ?c1 = ?k" "cend ?k ?c2 = cend h c" "ctop ?c1 = ctop c" "ctop ?c2 = ctop c" using n by (simp_all add: cend_def ctop_def)
  have other: "C k = Some d" if "?C k = Some d" "k \<noteq> h" "k \<noteq> ?k" for k d using that by simp
  have stays: "?C k = Some d" if "C k = Some d" "k \<noteq> h" for k d using that new by auto
  have arena: "same_arena c ?c1" "same_arena c ?c2" "same_arena ?c1 ?c2" "same_arena ?c2 ?c1" by (simp_all add: same_arena_def)
  fix k d assume k: "?C k = Some d"
  consider "k = h" "d = ?c1" | "k = ?k" "d = ?c2" | "k \<noteq> h" "k \<noteq> ?k" "C k = Some d"
    using k by (auto split: if_splits)
  note cs = this
  show "chunk_geo k d" using cs
  proof cases
    case 1 then show ?thesis using hg n by (auto simp: chunk_geo_def cend_def ctop_def)
  next
    case 2 then show ?thesis using hg n by (auto simp: chunk_geo_def cend_def ctop_def dvd_diff_nat)
  next
    case 3 then show ?thesis using geo_chunk [OF g] by blast
  qed
  show "\<exists>d'. ?C (cend k d) = Some d' \<and> same_arena d d'" if top: "cend k d < ctop d" using cs
  proof cases
    case 1 then show ?thesis using e1 arena by auto
  next
    case 2
    with top e1 geo_next [OF g h] obtain d' where d': "C (cend h c) = Some d'" "same_arena c d'" by auto
    moreover have "cend h c \<noteq> h" by (simp add: cend_def)
    ultimately show ?thesis using 2 e1 stays by (auto simp: same_arena_def)
  next
    case 3
    with top geo_next [OF g] obtain d' where d': "C (cend k d) = Some d'" "same_arena d d'" by blast
    then show ?thesis using new h stays by (cases "cend k d = h") (auto simp: same_arena_def)
  qed
  show "\<exists>h' c'. ?C h' = Some c' \<and> cend h' c' = k \<and> same_arena d c'" if bot: "cbase d < k" using cs
  proof cases
    case 1
    with bot geo_prev [OF g h] obtain h' c' where p: "C h' = Some c'" "cend h' c' = h" "same_arena c c'" by auto
    moreover have "h' \<noteq> h" using p(2) by (auto simp: cend_def)
    ultimately show ?thesis using 1 stays by (intro exI [of _ h'] exI [of _ c']) (simp add: same_arena_def)
  next
    case 2
    then show ?thesis using e1 arena by (intro exI [of _ h] exI [of _ ?c1]) auto
  next
    case 3
    with bot geo_prev [OF g] obtain h' c' where p: "C h' = Some c'" "cend h' c' = k" "same_arena d c'" by blast
    show ?thesis
    proof (cases "h' = h")
      case True
      then show ?thesis using p h e1 by (intro exI [of _ ?k] exI [of _ ?c2]) (auto simp: same_arena_def)
    next
      case False
      then show ?thesis using p stays by blast
    qed
  qed
  fix k' d' assume k': "?C k' = Some d'" and less: "k < k'"
  have up: "cend h c \<le> k'" if "h < k'" "k' \<noteq> ?k"
    using that k' geo_disjoint [OF g h] by (auto split: if_splits)
  show "cend k d \<le> k'" using cs
  proof cases
    case 1 then show ?thesis using up less n e1(1) by (cases "k' = ?k") (auto simp: cend_def)
  next
    case 2 then show ?thesis using up less e1(2) by auto
  next
    case 3
    then have "k' = ?k \<Longrightarrow> k < h"
      using geo_disjoint [OF g h 3(3)] less n by (cases "h < k") (auto simp: cend_def)
    then have "k' = ?k \<Longrightarrow> cend k d \<le> k'" using geo_disjoint [OF g 3(3) h] by simp
    then show ?thesis using geo_disjoint [OF g 3(3)] h k' less by (auto split: if_splits)
  qed
qed

lemma geo_merge:
  assumes g: "geo C" and h: "C h = Some c" and k: "C (cend h c) = Some c'" and arena: "same_arena c c'"
  shows "geo (C(cend h c := None, h \<mapsto> c\<lparr>csz := csz c + 48 + csz c', cused := u\<rparr>))" (is "geo ?C")
proof (rule geoI)
  let ?c = "c\<lparr>csz := csz c + 48 + csz c', cused := u\<rparr>" and ?k = "cend h c"
  note hg = geo_chunk [OF g h] and kg = geo_chunk [OF g k]
  have ne: "h \<noteq> ?k" by (simp add: cend_def)
  have e: "cend h ?c = cend ?k c'" "ctop ?c = ctop c" "ctop c' = ctop c" using arena by (simp_all add: cend_def ctop_def same_arena_def)
  have arenas: "same_arena ?c d \<longleftrightarrow> same_arena c d" "same_arena d ?c \<longleftrightarrow> same_arena d c" "same_arena c' d \<longleftrightarrow> same_arena c d" for d
    using arena by (auto simp: same_arena_def)
  have stays: "?C j = Some d" if "C j = Some d" "j \<noteq> h" "j \<noteq> ?k" for j d using that by simp
  fix j d assume j: "?C j = Some d"
  consider "j = h" "d = ?c" | "j \<noteq> h" "j \<noteq> ?k" "C j = Some d" using j by (auto split: if_splits)
  note cs = this
  show "chunk_geo j d" using cs
  proof cases
    case 1 then show ?thesis using hg kg e arena by (auto simp: chunk_geo_def ctop_def same_arena_def)
  qed (use geo_chunk [OF g] in blast)
  show "\<exists>d'. ?C (cend j d) = Some d' \<and> same_arena d d'" if top: "cend j d < ctop d" using cs
  proof cases
    case 1
    with top e geo_next [OF g k] obtain d' where d': "C (cend ?k c') = Some d'" "same_arena c' d'" by auto
    moreover have "cend ?k c' \<noteq> h" "cend ?k c' \<noteq> ?k" by (simp_all add: cend_def)
    ultimately have "?C (cend ?k c') = Some d'" by (intro stays)
    then show ?thesis unfolding 1 e(1) arenas using d'(2) arenas(3) by blast
  next
    case 2
    with top geo_next [OF g] obtain d' where d': "C (cend j d) = Some d'" "same_arena d d'" by blast
    have "cend j d \<noteq> ?k" using geo_apart [OF g 2(3) h 2(1), of "cend j d - 1" "?k - 1"] by (auto simp: cend_def)
    then show ?thesis using d' h stays by (cases "cend j d = h") (auto simp: same_arena_def)
  qed
  show "\<exists>h' c'. ?C h' = Some c' \<and> cend h' c' = j \<and> same_arena d c'" if bot: "cbase d < j" using cs
  proof cases
    case 1
    with bot geo_prev [OF g h] obtain h' d' where p: "C h' = Some d'" "cend h' d' = h" "same_arena c d'" by auto
    moreover have "h' \<noteq> h" "h' \<noteq> ?k" using p(2) by (auto simp: cend_def)
    ultimately show ?thesis using 1 stays by (intro exI [of _ h'] exI [of _ d']) (simp add: same_arena_def)
  next
    case 2
    with bot geo_prev [OF g] obtain h' d' where p: "C h' = Some d'" "cend h' d' = j" "same_arena d d'" by blast
    show ?thesis
    proof (cases "h' = ?k")
      case True
      then have "d' = c'" using p k by simp
      then show ?thesis using p True e arenas arena by (intro exI [of _ h] exI [of _ ?c]) (auto simp: same_arena_def)
    next
      case False
      moreover have "h' \<noteq> h" using p 2 h by auto
      ultimately show ?thesis using p stays by blast
    qed
  qed
  fix j' d' assume j': "?C j' = Some d'" and less: "j < j'"
  have low: "cend ?k c' \<le> j'" if "C j' = Some d'" "h < j'" "j' \<noteq> ?k"
    using geo_disjoint [OF g h that(1,2)] geo_disjoint [OF g k that(1)] that(3) by simp
  show "cend j d \<le> j'" using cs
  proof cases
    case 1 then show ?thesis using low less j' e by (auto split: if_splits)
  next
    case 2 then show ?thesis using geo_disjoint [OF g 2(3)] j' less h by (auto split: if_splits)
  qed
qed

lemma geo_arena:
  assumes g: "geo C" and new: "chunk_geo b c" "cbase c = b" "cend b c = ctop c"
    and free: "\<And>h d. C h = Some d \<Longrightarrow> cend h d \<le> b \<or> cend b c \<le> h"
  shows "geo (C(b \<mapsto> c))" (is "geo ?C")
proof (rule geoI)
  have nb: "C b = None" using free [of b] by (cases "C b") (auto simp: cend_def)
  fix j d assume j: "?C j = Some d"
  consider "j = b" "d = c" | "j \<noteq> b" "C j = Some d" using j by (auto split: if_splits)
  note cs = this
  show "chunk_geo j d" using cs new(1) geo_chunk [OF g] by cases auto
  show "\<exists>d'. ?C (cend j d) = Some d' \<and> same_arena d d'" if top: "cend j d < ctop d" using cs
  proof cases
    case 2
    with top geo_next [OF g] obtain d' where "C (cend j d) = Some d'" "same_arena d d'" by blast
    then show ?thesis using nb by auto
  qed (use top new in simp)
  show "\<exists>h' c'. ?C h' = Some c' \<and> cend h' c' = j \<and> same_arena d c'" if bot: "cbase d < j" using cs
  proof cases
    case 2
    with bot geo_prev [OF g] obtain h' d' where "C h' = Some d'" "cend h' d' = j" "same_arena d d'" by blast
    then show ?thesis using nb by (intro exI [of _ h'] exI [of _ d']) auto
  qed (use bot new in simp)
  fix j' d' assume j': "?C j' = Some d'" and less: "j < j'"
  show "cend j d \<le> j'" using cs
  proof cases
    case 1 then show ?thesis using free [of j' d'] j' less by (auto simp: cend_def split: if_splits)
  next
    case 2 then show ?thesis using free [OF 2(2)] geo_disjoint [OF g 2(2)] j' less by (auto simp: cend_def split: if_splits)
  qed
qed

lemma geo_drop:
  assumes g: "geo C" and h: "C h = Some c" "h = cbase c" "cend h c = ctop c"
  shows "geo (C(h := None))" (is "geo ?C")
proof (rule geoI)
  fix j d assume j: "?C j = Some d"
  then have j: "j \<noteq> h" "C j = Some d" by (auto split: if_splits)
  note hg = geo_chunk [OF g h(1)] and jg = geo_chunk [OF g j(2)]
  show "chunk_geo j d" by (rule jg)
  show "\<exists>d'. ?C (cend j d) = Some d' \<and> same_arena d d'" if top: "cend j d < ctop d"
  proof -
    obtain d' where d': "C (cend j d) = Some d'" "same_arena d d'" using geo_next [OF g j(2) top] by blast
    have "cend j d \<noteq> h"
    proof
      assume "cend j d = h"
      with d' h have "cbase d = h" by (auto simp: same_arena_def)
      with jg \<open>cend j d = h\<close> show False by (simp add: chunk_geo_def cend_def)
    qed
    with d' show ?thesis by auto
  qed
  show "\<exists>h' c'. ?C h' = Some c' \<and> cend h' c' = j \<and> same_arena d c'" if bot: "cbase d < j"
  proof -
    obtain h' d' where p: "C h' = Some d'" "cend h' d' = j" "same_arena d d'" using geo_prev [OF g j(2) bot] by blast
    have "h' \<noteq> h"
    proof
      assume "h' = h"
      with p h have "ctop d = j" by (auto simp: same_arena_def ctop_def)
      with jg show False by (simp add: chunk_geo_def cend_def)
    qed
    with p show ?thesis by auto
  qed
  fix j' d' assume "?C j' = Some d'" and less: "j < j'"
  then show "cend j d \<le> j'" using geo_disjoint [OF g j(2)] by (auto split: if_splits)
qed

end
