(* ===== verification/LdMallocInv.thy ===== *)
theory LdMallocInv
  imports LdMallocGeo
begin

text \<open>
  The invariant of the heap: the words of the chunks agree with a tiling of the arenas, and the free list holds exactly the free
  chunks, apart from those an operation is about to link or to hand out.
\<close>

section \<open>The free list\<close>

primrec hdw :: "nat list \<Rightarrow> u64 \<Rightarrow> u64" where
  "hdw [] n = n"
| "hdw (x # xs) n = ad x"

definition lastw :: "u64 \<Rightarrow> nat list \<Rightarrow> u64" where
  "lastw p xs = (if xs = [] then p else ad (last xs))"

primrec dll :: "(nat \<Rightarrow> u64) \<Rightarrow> u64 \<Rightarrow> nat list \<Rightarrow> u64 \<Rightarrow> bool" where
  "dll M p [] n = True"
| "dll M p (x # xs) n = (M (x + 32) = hdw xs n \<and> M (x + 40) = p \<and> dll M (ad x) xs n)"

lemma hdw_append: "hdw (xs @ ys) n = hdw xs (hdw ys n)"
  by (cases xs) simp_all

lemma lastw_Cons [simp]: "lastw p (x # xs) = lastw (ad x) xs"
  by (simp add: lastw_def)

lemma lastw_Nil [simp]: "lastw p [] = p"
  by (simp add: lastw_def)

lemma lastw_append: "lastw p (xs @ ys) = lastw (lastw p xs) ys"
  by (simp add: lastw_def)

lemma dll_append: "dll M p (xs @ ys) n \<longleftrightarrow> dll M p xs (hdw ys n) \<and> dll M (lastw p xs) ys n"
  by (induction xs arbitrary: p) (auto simp: hdw_append)

lemma dll_cong: "(\<And>x. x \<in> set xs \<Longrightarrow> M' (x + 32) = M (x + 32) \<and> M' (x + 40) = M (x + 40)) \<Longrightarrow> dll M' p xs n = dll M p xs n"
  by (induction xs arbitrary: p) auto

text \<open>The words that lead to the neighbours of a chunk.\<close>

lemma dll_mid: "dll M p (xs @ x # ys) n \<longleftrightarrow> dll M p xs (ad x) \<and> M (x + 32) = hdw ys n \<and> M (x + 40) = lastw p xs \<and> dll M (ad x) ys n"
  by (simp add: dll_append)

text \<open>The two words of a free chunk that link it.\<close>

definition links :: "nat \<Rightarrow> nat set" where "links x = {x + 32, x + 40}"

lemma dll_upd_other: "a \<notin> (\<Union>x\<in>set xs. links x) \<Longrightarrow> dll (M(a := v)) p xs n = dll M p xs n"
  by (intro dll_cong) (auto simp: links_def)

text \<open>A new end and a new start of a list.\<close>

lemma dll_set_next: "dll M p (xs @ [x]) n \<Longrightarrow> x + 32 \<notin> (\<Union>y\<in>set xs. links y) \<Longrightarrow> dll (M(x + 32 := n')) p (xs @ [x]) n'"
  by (simp add: dll_append dll_upd_other)

lemma dll_set_last: "dll M p (x # xs) n \<Longrightarrow> x + 40 \<notin> (\<Union>y\<in>set xs. links y) \<Longrightarrow> dll (M(x + 40 := p')) p' (x # xs) n"
  by (simp add: dll_upd_other)

section \<open>The invariant\<close>

definition hdr_ok :: "(nat \<Rightarrow> u64) \<Rightarrow> u64 \<Rightarrow> u64 \<Rightarrow> nat \<Rightarrow> cinfo \<Rightarrow> bool" where
  "hdr_ok M hc fc h c \<longleftrightarrow> M h = sw (csz c) (cused c) \<and> M (h + 8) = aw (casz c) (h = cbase c) (cend h c = ctop c) \<and>
     M (h + 24) = hc XOR sw (csz c) (cused c) \<and> M (h + 32 + csz c) = fc XOR sw (csz c) (cused c) \<and> M (h + 40 + csz c) = sw (csz c) (cused c)"

definition free_set :: "chunks \<Rightarrow> nat set" where
  "free_set C = {h. \<exists>c. C h = Some c \<and> \<not> cused c}"

definition heap_inv :: "nat set \<Rightarrow> 'z ldm_scheme \<Rightarrow> chunks \<Rightarrow> nat list \<Rightarrow> bool" where
  "heap_inv X s C fl \<longleftrightarrow> geo C \<and>
     (\<forall>h c. C h = Some c \<longrightarrow> hdr_ok (wds s) (ld_malloc_header_canary s) (ld_malloc_footer_canary s) h c) \<and>
     distinct fl \<and> set fl \<inter> X = {} \<and> set fl \<union> X = free_set C \<and>
     dll (wds s) 0 fl 0 \<and> ld_malloc_freelist_head s = hdw fl 0"

text \<open>What an operation leaves alone: everything but the words and the head.\<close>

definition quiet :: "'z ldm_scheme \<Rightarrow> 'z ldm_scheme \<Rightarrow> bool" where
  "quiet s s' \<longleftrightarrow> trace s' = trace s \<and> sud_selector s' = sud_selector s \<and> ld_malloc_header_canary s' = ld_malloc_header_canary s \<and>
     ld_malloc_footer_canary s' = ld_malloc_footer_canary s \<and> ld_malloc_initialized s' = ld_malloc_initialized s \<and>
     ld_malloc_lock s' = ld_malloc_lock s"

lemma quiet_refl [simp]: "quiet s s"
  by (simp add: quiet_def)

lemma quiet_trans: "quiet s s1 \<Longrightarrow> quiet s1 s2 \<Longrightarrow> quiet s s2"
  by (simp add: quiet_def)

lemma quiet_wr [simp]: "quiet s (wr a v s') \<longleftrightarrow> quiet s s'"
  by (simp add: quiet_def)

lemma quiet_head [simp]: "quiet s (s'\<lparr>ld_malloc_freelist_head := h\<rparr>) \<longleftrightarrow> quiet s s'"
  by (simp add: quiet_def)

section \<open>Reading the fields\<close>

lemma chunk_al:
  assumes "chunk_geo h c"
  shows "al h" "al (h + 8)" "al (h + 24)" "al (h + 32)" "al (h + 40)" "al (h + 32 + csz c)" "al (h + 40 + csz c)" "al (h + 48 + csz c)"
    "0 < h" "h < 2 ^ 63" "csz c < 2 ^ 63" "4 dvd csz c" "4 dvd casz c" "16 \<le> csz c"
proof -
  have d: "8 dvd h" "8 dvd csz c" using assms by (auto simp: chunk_geo_def intro: dvd_trans [of 8 16])
  have b: "h + 48 + csz c \<le> 2 ^ 63" "0 < h" "16 \<le> csz c" using assms by (auto simp: chunk_geo_def cend_def)
  from d b show "al h" "al (h + 8)" "al (h + 24)" "al (h + 32)" "al (h + 40)" "al (h + 32 + csz c)" "al (h + 40 + csz c)" "al (h + 48 + csz c)"
    "0 < h" "h < 2 ^ 63" "csz c < 2 ^ 63" "16 \<le> csz c"
    by (auto simp: al_def intro!: dvd_add)
  show "4 dvd csz c" "4 dvd casz c" using assms by (auto simp: chunk_geo_def intro: dvd_trans [of 4 16] dvd_trans [of 4 4096])
qed

lemma field_reads:
  "al h \<Longrightarrow> chunk_size s (ad h) = wds s h" "al (h + 8) \<Longrightarrow> chunk_arena s (ad h) = wds s (h + 8)"
  "al (h + 24) \<Longrightarrow> chunk_canary s (ad h) = wds s (h + 24)" "al h \<Longrightarrow> foot_canary s (ad h) = wds s h"
  "al (h + 8) \<Longrightarrow> foot_size s (ad h) = wds s (h + 8)" "al h \<Longrightarrow> free_next s (ad h) = wds s h" "al (h + 8) \<Longrightarrow> free_last s (ad h) = wds s (h + 8)"
  by (simp_all add: chunk_size_def chunk_arena_def chunk_canary_def foot_canary_def foot_size_def free_next_def free_last_def rd_wds ad_plus)

lemma user_8 [simp]: "ad (h + 32) + 8 = ad (h + 40)"
  by (simp add: ad_def)

lemma to_user [simp]: "CHUNK_TO_USER (ad h) = ad (h + 32)"
  by (simp add: CHUNK_TO_USER_def ad_plus)

lemma inv_geo: "heap_inv X s C fl \<Longrightarrow> geo C"
  by (simp add: heap_inv_def)

lemma inv_chunk_geo: "heap_inv X s C fl \<Longrightarrow> C h = Some c \<Longrightarrow> chunk_geo h c"
  using geo_chunk inv_geo by blast

lemma inv_hdr: "heap_inv X s C fl \<Longrightarrow> C h = Some c \<Longrightarrow> hdr_ok (wds s) (ld_malloc_header_canary s) (ld_malloc_footer_canary s) h c"
  by (simp add: heap_inv_def)

lemma inv_free: "heap_inv X s C fl \<Longrightarrow> h \<in> set fl \<Longrightarrow> \<exists>c. C h = Some c \<and> \<not> cused c"
  by (auto simp: heap_inv_def free_set_def)

lemma hdr_reads:
  assumes "hdr_ok (wds s) (ld_malloc_header_canary s) (ld_malloc_footer_canary s) h c" "chunk_geo h c"
  shows "chunk_size s (ad h) = sw (csz c) (cused c)" "chunk_arena s (ad h) = aw (casz c) (h = cbase c) (cend h c = ctop c)"
    "VERIFY_HEADER s (ad h)" "CHUNK_TO_FOOTER s (ad h) = ad (h + 32 + csz c)" "VERIFY_FOOTER s (ad (h + 32 + csz c))"
    "foot_size s (ad (h + 32 + csz c)) = sw (csz c) (cused c)"
proof -
  note a = chunk_al [OF assms(2)]
  have f8: "h + 32 + csz c + 8 = h + 40 + csz c" by simp
  show sz: "chunk_size s (ad h) = sw (csz c) (cused c)" using assms(1) by (simp add: field_reads a hdr_ok_def)
  show "chunk_arena s (ad h) = aw (casz c) (h = cbase c) (cend h c = ctop c)" using assms(1) by (simp add: field_reads a hdr_ok_def)
  have x: "w XOR (k XOR w) = k" for w k :: u64 by (metis xor.assoc xor.commute xor_self_eq xor.right_neutral)
  show "VERIFY_HEADER s (ad h)" using assms(1) by (simp add: VERIFY_HEADER_def field_reads a hdr_ok_def x)
  show "CHUNK_TO_FOOTER s (ad h) = ad (h + 32 + csz c)" by (simp add: CHUNK_TO_FOOTER_def sz sw_simps a ad_plus)
  show fs: "foot_size s (ad (h + 32 + csz c)) = sw (csz c) (cused c)" using assms(1) a by (simp add: field_reads f8 hdr_ok_def)
  show "VERIFY_FOOTER s (ad (h + 32 + csz c))" using assms(1) by (simp add: VERIFY_FOOTER_def fs) (simp add: field_reads a hdr_ok_def x)
qed

lemma inv_reads:
  assumes "heap_inv X s C fl" "C h = Some c"
  shows "chunk_size s (ad h) = sw (csz c) (cused c)" "chunk_arena s (ad h) = aw (casz c) (h = cbase c) (cend h c = ctop c)"
    "VERIFY_HEADER s (ad h)" "CHUNK_TO_FOOTER s (ad h) = ad (h + 32 + csz c)" "VERIFY_FOOTER s (ad (h + 32 + csz c))"
    "foot_size s (ad (h + 32 + csz c)) = sw (csz c) (cused c)"
  using hdr_reads [OF inv_hdr [OF assms] inv_chunk_geo [OF assms]] by blast+

section \<open>Frames\<close>

text \<open>The words outside of a set are kept.\<close>

definition kept :: "nat set \<Rightarrow> (nat \<Rightarrow> u64) \<Rightarrow> (nat \<Rightarrow> u64) \<Rightarrow> bool" where
  "kept A M M' \<longleftrightarrow> (\<forall>a. a \<notin> A \<longrightarrow> M' a = M a)"

lemma kept_refl [simp]: "kept A M M"
  by (simp add: kept_def)

lemma kept_trans: "kept A M M1 \<Longrightarrow> kept B M1 M2 \<Longrightarrow> kept (A \<union> B) M M2"
  by (simp add: kept_def)

lemma kept_mono: "kept A M M' \<Longrightarrow> A \<subseteq> B \<Longrightarrow> kept B M M'"
  by (auto simp: kept_def)

lemma kept_upd: "kept A M M' \<Longrightarrow> a \<in> A \<Longrightarrow> kept A M (M'(a := v))"
  by (simp add: kept_def)

lemma hdr_ok_kept:
  assumes "hdr_ok M hc fc h c" "kept A M M'" "h \<notin> A" "h + 8 \<notin> A" "h + 24 \<notin> A" "h + 32 + csz c \<notin> A" "h + 40 + csz c \<notin> A"
  shows "hdr_ok M' hc fc h c"
  using assms by (simp add: hdr_ok_def kept_def)

lemma links_spare_headers:
  assumes "geo C" "C h = Some c" "X \<subseteq> dom C"
  shows "h \<notin> (\<Union>x\<in>X. links x)" "h + 8 \<notin> (\<Union>x\<in>X. links x)" "h + 24 \<notin> (\<Union>x\<in>X. links x)" "h + 32 + csz c \<notin> (\<Union>x\<in>X. links x)"
    "h + 40 + csz c \<notin> (\<Union>x\<in>X. links x)"
proof -
  have "a \<notin> links x" if "x \<in> X" "a \<in> {h, h + 8, h + 24, h + 32 + csz c, h + 40 + csz c}" for a x
  proof -
    obtain d where d: "C x = Some d" using assms(3) \<open>x \<in> X\<close> by blast
    have g: "16 \<le> csz d" "16 \<le> csz c" using geo_chunk [OF assms(1)] d assms(2) by (auto simp: chunk_geo_def)
    show ?thesis
    proof (cases "x = h")
      case True
      then show ?thesis using that(2) g by (auto simp: links_def)
    next
      case False
      have "h \<le> a" "a < cend h c" using that(2) g by (auto simp: cend_def)
      then have "a \<noteq> x + 32" "a \<noteq> x + 40"
        using geo_apart [OF assms(1,2) d, of a "x + 32"] geo_apart [OF assms(1,2) d, of a "x + 40"] False g by (auto simp: cend_def)
      then show ?thesis by (simp add: links_def)
    qed
  qed
  then show "h \<notin> (\<Union>x\<in>X. links x)" "h + 8 \<notin> (\<Union>x\<in>X. links x)" "h + 24 \<notin> (\<Union>x\<in>X. links x)" "h + 32 + csz c \<notin> (\<Union>x\<in>X. links x)"
    "h + 40 + csz c \<notin> (\<Union>x\<in>X. links x)" by blast+
qed

lemma links_apart:
  assumes "geo C" "x \<in> dom C" "y \<in> dom C" "x \<noteq> y"
  shows "x + 32 \<noteq> y + 32" "x + 32 \<noteq> y + 40" "x + 40 \<noteq> y + 32" "x + 40 \<noteq> y + 40"
proof -
  obtain c d where c: "C x = Some c" "C y = Some d" using assms by blast
  have g: "16 \<le> csz d" "16 \<le> csz c" using geo_chunk [OF assms(1)] c by (auto simp: chunk_geo_def)
  have "a \<noteq> b" if "a \<in> {x + 32, x + 40}" "b \<in> {y + 32, y + 40}" for a b
    using geo_apart [OF assms(1) c assms(4), of a b] that g by (auto simp: cend_def)
  then show "x + 32 \<noteq> y + 32" "x + 32 \<noteq> y + 40" "x + 40 \<noteq> y + 32" "x + 40 \<noteq> y + 40" by blast+
qed

lemma links_off:
  assumes "geo C" "insert k K \<subseteq> dom C" "k \<notin> K"
  shows "k + 32 \<notin> (\<Union>x\<in>K. links x)" "k + 40 \<notin> (\<Union>x\<in>K. links x)"
proof -
  have "k + 32 \<notin> links x \<and> k + 40 \<notin> links x" if "x \<in> K" for x
  proof -
    have "k \<in> dom C" "x \<in> dom C" "k \<noteq> x" using assms(2,3) that by blast+
    from links_apart [OF assms(1) this] show ?thesis by (simp add: links_def)
  qed
  then show "k + 32 \<notin> (\<Union>x\<in>K. links x)" "k + 40 \<notin> (\<Union>x\<in>K. links x)" by blast+
qed

section \<open>Linking and unlinking\<close>

text \<open>Changes of links of free chunks keep the invariant of the headers.\<close>

lemma inv_relink:
  assumes i: "heap_inv X s C fl" and q: "quiet s s'" and k: "kept (\<Union>x\<in>F. links x) (wds s) (wds s')" and F: "F \<subseteq> dom C"
    and l: "distinct fl'" "set fl' \<inter> X' = {}" "set fl' \<union> X' = set fl \<union> X" "dll (wds s') 0 fl' 0" "ld_malloc_freelist_head s' = hdw fl' 0"
  shows "heap_inv X' s' C fl'"
  unfolding heap_inv_def
proof (intro conjI allI impI)
  fix h c assume h: "C h = Some c"
  note g = inv_geo [OF i]
  have "hdr_ok (wds s') (ld_malloc_header_canary s) (ld_malloc_footer_canary s) h c"
    by (rule hdr_ok_kept [OF inv_hdr [OF i h] k]) (rule links_spare_headers [OF g h F])+
  then show "hdr_ok (wds s') (ld_malloc_header_canary s') (ld_malloc_footer_canary s') h c" using q by (simp add: quiet_def)
qed (use i l in \<open>simp_all add: heap_inv_def\<close>)

lemma inv_dom: "heap_inv X s C fl \<Longrightarrow> set fl \<union> X \<subseteq> dom C"
  by (auto simp: heap_inv_def free_set_def)

lemma lastw_0: "lastw 0 xs = 0 \<longleftrightarrow> xs = []" if "\<And>x. x \<in> set xs \<Longrightarrow> 0 < x \<and> x < 2 ^ 63"
proof (cases xs rule: rev_cases)
  case (snoc ys y)
  with that [of y] show ?thesis by (simp add: lastw_def ad_0_iff)
qed simp

lemma hdw_0: "hdw ys 0 = 0 \<longleftrightarrow> ys = []" if "\<And>x. x \<in> set ys \<Longrightarrow> 0 < x \<and> x < 2 ^ 63"
proof (cases ys)
  case (Cons y zs)
  with that [of y] show ?thesis by (simp add: ad_0_iff)
qed simp

text \<open>What the proofs about the list use of the free chunks: their links are words of their own, and their headers verify as
  long as only links have changed.\<close>

lemma inv_al:
  assumes "heap_inv X s C fl" "k \<in> set fl \<union> X"
  shows "al (k + 32)" "al (k + 40)" "0 < k" "k < 2 ^ 63"
proof -
  obtain c where "C k = Some c" using assms inv_dom by blast
  from chunk_al [OF inv_chunk_geo [OF assms(1) this]] show "al (k + 32)" "al (k + 40)" "0 < k" "k < 2 ^ 63" by auto
qed

lemma inv_off:
  assumes "heap_inv X s C fl" "k \<in> set fl \<union> X" "k \<notin> K" "\<forall>y\<in>K. y \<in> set fl \<union> X"
  shows "k + 32 \<notin> (\<Union>x\<in>K. links x)" "k + 40 \<notin> (\<Union>x\<in>K. links x)"
proof -
  have "insert k K \<subseteq> dom C" using assms(2,4) inv_dom [OF assms(1)] by blast
  from links_off [OF inv_geo [OF assms(1)] this assms(3)] show "k + 32 \<notin> (\<Union>x\<in>K. links x)" "k + 40 \<notin> (\<Union>x\<in>K. links x)" by blast+
qed

lemma inv_ver:
  assumes i: "heap_inv X s C fl" and k: "kept (\<Union>k\<in>F. links k) (wds s) (wds t)" "quiet s t" "F \<subseteq> dom C" "k \<in> set fl \<union> X"
  shows "VERIFY_HEADER t (ad k)"
proof -
  obtain c where c: "C k = Some c" using k(4) inv_dom [OF i] by blast
  have "hdr_ok (wds t) (ld_malloc_header_canary t) (ld_malloc_footer_canary t) k c"
    using hdr_ok_kept [OF inv_hdr [OF i c] k(1) links_spare_headers [OF inv_geo [OF i] c k(3)]] k(2) by (simp add: quiet_def)
  then show ?thesis by (rule hdr_reads(3) [OF _ inv_chunk_geo [OF i c]])
qed

text \<open>The part of the invariant that the list itself needs; it also holds while a chunk of the heap is being joined with its
  neighbours.\<close>

definition flist :: "'z ldm_scheme \<Rightarrow> chunks \<Rightarrow> nat list \<Rightarrow> bool" where
  "flist s C fl \<longleftrightarrow> geo C \<and> set fl \<subseteq> dom C \<and> distinct fl \<and> (\<forall>k\<in>set fl. wds s k XOR wds s (k + 24) = ld_malloc_header_canary s) \<and>
     dll (wds s) 0 fl 0 \<and> ld_malloc_freelist_head s = hdw fl 0"

lemma inv_flist: "heap_inv X s C fl \<Longrightarrow> flist s C fl"
proof -
  assume i: "heap_inv X s C fl"
  have "wds s k XOR wds s (k + 24) = ld_malloc_header_canary s" if k: "k \<in> set fl" for k
  proof -
    obtain c where c: "C k = Some c" using inv_free [OF i k] by blast
    from inv_reads(3) [OF i c] chunk_al [OF inv_chunk_geo [OF i c]] show ?thesis by (simp add: VERIFY_HEADER_def field_reads)
  qed
  then show ?thesis using i inv_dom [OF i] by (auto simp: flist_def heap_inv_def)
qed

lemma unlink_flist:
  assumes i: "flist s C (xs @ x # ys)"
  shows "\<exists>s'. ld_malloc_freelist_unlink (ad (x + 32)) s = Inr s' \<and> flist s' C (xs @ ys) \<and> quiet s s' \<and>
    kept (\<Union>k\<in>set (xs @ x # ys). links k) (wds s) (wds s')"
proof -
  have g: "geo C" and dom: "set (xs @ x # ys) \<subseteq> dom C" and dist: "distinct (xs @ x # ys)" using i by (simp_all add: flist_def)
  have al: "al (k + 32)" "al (k + 40)" "0 < k" "k < 2 ^ 63" "al k" "al (k + 24)" if k: "k \<in> set (xs @ x # ys)" for k
  proof -
    obtain c where "C k = Some c" using k dom by blast
    from chunk_al [OF geo_chunk [OF g this]] show "al (k + 32)" "al (k + 40)" "0 < k" "k < 2 ^ 63" "al k" "al (k + 24)" by auto
  qed
  have ap: "a + 32 \<noteq> b + 32" "a + 32 \<noteq> b + 40" "a + 40 \<noteq> b + 32" "a + 40 \<noteq> b + 40" if "a \<in> set (xs @ x # ys)" "b \<in> set (xs @ x # ys)" "a \<noteq> b" for a b
    using links_apart [OF g _ _ that(3)] that(1,2) dom by (meson subsetD)+
  have d: "dll (wds s) 0 (xs @ x # ys) 0" using i by (simp add: flist_def)
  have off: "k + 32 \<notin> (\<Union>x\<in>K. links x)" "k + 40 \<notin> (\<Union>x\<in>K. links x)" if "k \<in> set (xs @ x # ys)" "k \<notin> K" "\<forall>y\<in>K. y \<in> set (xs @ x # ys)" for k K
  proof -
    have "insert k K \<subseteq> dom C" using that(1,3) dom by blast
    from links_off [OF g this that(2)] show "k + 32 \<notin> (\<Union>x\<in>K. links x)" "k + 40 \<notin> (\<Union>x\<in>K. links x)" by blast+
  qed
  have x: "wds s (x + 32) = hdw ys 0" "wds s (x + 40) = lastw 0 xs" using d by (simp_all add: dll_append)
  have x8: "x + 32 + 8 = x + 40" for x :: nat by simp
  have rx: "free_next t (ad (x + 32)) = wds t (x + 32)" "free_last t (ad (x + 32)) = wds t (x + 40)" for t :: "'a ldm_scheme"
    using al(1,2) [of x] by (simp_all add: field_reads x8)
  define s1 where "s1 = (if xs = [] then s\<lparr>ld_malloc_freelist_head := hdw ys 0\<rparr> else wr (ad (last xs + 32)) (hdw ys 0) s)"
  define s2 where "s2 = (if ys = [] then s1 else wr (ad (hd ys + 40)) (lastw 0 xs) s1)"
  define s3 where "s3 = wr (ad (x + 32)) 0 (wr (ad (x + 40)) 0 s2)"
  have m1: "wds s1 = (if xs = [] then wds s else (wds s)(last xs + 32 := hdw ys 0))" using al(1) [of "last xs"] by (simp add: s1_def)
  have m2: "wds s2 = (if ys = [] then wds s1 else (wds s1)(hd ys + 40 := lastw 0 xs))" using al(2) [of "hd ys"] by (simp add: s2_def)
  have m3: "wds s3 = (wds s2)(x + 40 := 0, x + 32 := 0)" using al(1,2) [of x] by (simp add: s3_def)
  have xl: "x \<noteq> last xs" if "xs \<noteq> []" using that dist by (metis distinct_append last_in_set list.set_intros(1) disjoint_iff)
  have xh: "x \<noteq> hd ys" if "ys \<noteq> []" using that dist by (metis distinct.simps(2) distinct_append hd_in_set)
  have x1: "wds s1 (x + 32) = hdw ys 0" "wds s1 (x + 40) = lastw 0 xs"
    using x ap(1,2) [of "last xs" x] xl by (auto simp: m1)
  have lx: "links k \<subseteq> (\<Union>k\<in>set (xs @ x # ys). links k)" if "k \<in> set (xs @ x # ys)" for k using that by blast
  let ?F = "\<Union>k\<in>set (xs @ x # ys). links k"
  have k1: "kept ?F (wds s) (wds s1)" using lx [of "last xs"] by (auto simp: m1 links_def intro!: kept_upd)
  have k2: "kept ?F (wds s) (wds s2)" using k1 lx [of "hd ys"] by (auto simp: m2 links_def intro!: kept_upd)
  have k3: "kept ?F (wds s) (wds s3)" using k2 lx [of x] by (auto simp: m3 links_def intro!: kept_upd)
  have q: "quiet s s1" "quiet s s2" "quiet s s3" by (simp_all add: s1_def s2_def s3_def)
  have words: "wds t k = wds s k" "wds t (k + 24) = wds s (k + 24)" if "kept ?F (wds s) (wds t)" and k: "k \<in> set (xs @ x # ys)" for t :: "'a ldm_scheme" and k
  proof -
    obtain c where c: "C k = Some c" using k dom by blast
    show "wds t k = wds s k" "wds t (k + 24) = wds s (k + 24)" using that(1) links_spare_headers [OF g c dom] by (simp_all add: kept_def)
  qed
  have ver: "VERIFY_HEADER t (ad k)" if "kept ?F (wds s) (wds t)" "quiet s t" "k \<in> set (xs @ x # ys)" for t k
    using that(2,3) i al(5,6) [OF that(3)] words [OF that(1,3)] by (auto simp: VERIFY_HEADER_def field_reads flist_def quiet_def)
  have z: "lastw 0 xs = 0 \<longleftrightarrow> xs = []" "hdw ys 0 = 0 \<longleftrightarrow> ys = []" using al(3,4) by (intro lastw_0 hdw_0; simp)+
  have e1: "(if free_last s (ad (x + 32)) = 0 then Inr (s\<lparr>ld_malloc_freelist_head := free_next s (ad (x + 32))\<rparr>)
      else ld_check (VERIFY_HEADER s (free_last s (ad (x + 32)))) (Inr (wr (CHUNK_TO_USER (free_last s (ad (x + 32)))) (free_next s (ad (x + 32))) s)))
    = Inr s1"
    unfolding rx x z using ver [OF kept_refl quiet_refl, of "last xs"] by (auto simp: s1_def lastw_def ld_check_def)
  have e2: "(if free_next s1 (ad (x + 32)) \<noteq> 0
      then ld_check (VERIFY_HEADER s1 (free_next s1 (ad (x + 32)))) (Inr (wr (CHUNK_TO_USER (free_next s1 (ad (x + 32))) + 8) (free_last s1 (ad (x + 32))) s1))
      else Inr s1) = Inr s2"
    unfolding rx x1 z using ver [OF k1 q(1), of "hd ys"] by (cases ys) (auto simp: s2_def ld_check_def)
  have "ld_malloc_freelist_unlink (ad (x + 32)) s = Inr s3"
    unfolding ld_malloc_freelist_unlink_def e1 rbind_Inr e2 by (simp add: s3_def)
  moreover have "flist s3 C (xs @ ys)"
  proof -
    have "dll (wds s3) 0 xs (hdw ys 0)"
    proof (cases xs rule: rev_cases)
      case (snoc zs l)
      have "dll ((wds s)(l + 32 := hdw ys 0)) 0 (zs @ [l]) (hdw ys 0)"
        using d dist off [of l "set zs"] by (intro dll_set_next [where n = "ad x"]) (auto simp: dll_append snoc)
      moreover have "dll (wds s3) 0 xs (hdw ys 0) = dll (wds s1) 0 xs (hdw ys 0)"
        unfolding m3 m2 using dist off [of x "set xs"] off [of "hd ys" "set xs"] by (cases ys) (auto simp: dll_upd_other)
      ultimately show ?thesis by (simp add: m1 snoc)
    qed simp
    moreover have "dll (wds s3) (lastw 0 xs) ys 0"
    proof (cases ys)
      case (Cons y zs)
      have "dll (wds s) (ad x) ys 0" using d by (simp add: dll_append)
      then have "dll (wds s1) (ad x) ys 0"
        unfolding m1 using dist off [of "last xs" "set ys"] by (cases xs rule: rev_cases) (auto simp: dll_upd_other)
      then have "dll ((wds s1)(y + 40 := lastw 0 xs)) (lastw 0 xs) (y # zs) 0"
        using dist off [of y "set zs"] by (intro dll_set_last [where p = "ad x"]) (auto simp: Cons)
      moreover have "dll (wds s3) (lastw 0 xs) ys 0 = dll (wds s2) (lastw 0 xs) ys 0"
        unfolding m3 using dist off [of x "set ys"] by (auto simp: dll_upd_other)
      ultimately show ?thesis by (simp add: Cons m2)
    qed simp
    ultimately have "dll (wds s3) 0 (xs @ ys) 0" by (simp add: dll_append)
    moreover have "ld_malloc_freelist_head s = hdw (xs @ x # ys) 0" using i by (simp add: flist_def)
    then have "ld_malloc_freelist_head s3 = hdw (xs @ ys) 0" by (cases xs) (simp_all add: s3_def s2_def s1_def)
    moreover have "\<forall>k\<in>set (xs @ ys). wds s3 k XOR wds s3 (k + 24) = ld_malloc_header_canary s3"
      using i q(3) words [OF k3] by (auto simp: flist_def quiet_def)
    ultimately show ?thesis using g dom dist by (simp add: flist_def)
  qed
  ultimately show ?thesis using q(3) k3 by blast
qed

lemma unlink_inv:
  assumes i: "heap_inv X s C (xs @ x # ys)"
  shows "\<exists>s'. ld_malloc_freelist_unlink (ad (x + 32)) s = Inr s' \<and> heap_inv (insert x X) s' C (xs @ ys) \<and> quiet s s' \<and>
    kept (\<Union>k\<in>set (xs @ x # ys). links k) (wds s) (wds s')"
proof -
  obtain s' where s': "ld_malloc_freelist_unlink (ad (x + 32)) s = Inr s'" "flist s' C (xs @ ys)" "quiet s s'"
    "kept (\<Union>k\<in>set (xs @ x # ys). links k) (wds s) (wds s')" using unlink_flist [OF inv_flist [OF i]] by blast
  have "heap_inv (insert x X) s' C (xs @ ys)"
  proof (rule inv_relink [OF i s'(3,4)])
    show "set (xs @ x # ys) \<subseteq> dom C" using inv_dom [OF i] by blast
  qed (use i s'(2) in \<open>auto simp: heap_inv_def flist_def\<close>)
  with s' show ?thesis by blast
qed

lemma link_inv:
  assumes i: "heap_inv (insert x X) s C fl" and x: "x \<notin> X"
  shows "\<exists>s'. ld_malloc_freelist_link (ad x) s = Inr s' \<and> heap_inv X s' C (x # fl) \<and> quiet s s' \<and>
    kept (\<Union>k\<in>set (x # fl). links k) (wds s) (wds s')"
proof -
  note g = inv_geo [OF i]
  have dom: "set (x # fl) \<subseteq> dom C" using inv_dom [OF i] by auto
  have xfl: "x \<notin> set fl" "distinct fl" "set fl \<inter> X = {}" using i by (auto simp: heap_inv_def)
  have "x \<in> free_set C" using i by (auto simp: heap_inv_def)
  then obtain c where c: "C x = Some c" "\<not> cused c" by (auto simp: free_set_def)
  have al: "al (k + 32)" "al (k + 40)" "0 < k" "k < 2 ^ 63" if "k \<in> set (x # fl)" for k
    using inv_al [OF i, of k] that by auto
  have h: "ld_malloc_freelist_head s = hdw fl 0" and d: "dll (wds s) 0 fl 0" using i by (simp_all add: heap_inv_def)
  have z: "hdw fl 0 = 0 \<longleftrightarrow> fl = []" using al(3,4) by (intro hdw_0) simp
  define s1 where "s1 = (if fl = [] then s else wr (ad (hd fl + 40)) (ad x) s)"
  define s2 where "s2 = (wr (ad (x + 40)) 0 (wr (ad (x + 32)) (hdw fl 0) s1))\<lparr>ld_malloc_freelist_head := ad x\<rparr>"
  have m1: "wds s1 = (if fl = [] then wds s else (wds s)(hd fl + 40 := ad x))" using al(2) [of "hd fl"] by (simp add: s1_def)
  have m2: "wds s2 = (wds s1)(x + 32 := hdw fl 0, x + 40 := 0)" using al(1,2) [of x] by (simp add: s2_def)
  have q: "quiet s s2" by (simp add: s1_def s2_def)
  have k: "kept (\<Union>k\<in>set (x # fl). links k) (wds s) (wds s2)" by (cases fl) (auto simp: m2 m1 links_def intro!: kept_upd)
  have "VERIFY_HEADER s (ad (hd fl))" if "fl \<noteq> []"
  proof -
    have "hd fl \<in> dom C" using that dom by (cases fl) auto
    then obtain d where d: "C (hd fl) = Some d" by blast
    show ?thesis by (rule inv_reads(3) [OF i d])
  qed
  moreover have "\<not> used (chunk_size s (ad x))" using inv_reads(1) [OF i c(1)] c chunk_al(12) [OF inv_chunk_geo [OF i c(1)]] by (simp add: sw_simps)
  ultimately have "ld_malloc_freelist_link (ad x) s = Inr s2"
    unfolding ld_malloc_freelist_link_def h using z by (cases fl) (auto simp: s1_def s2_def ld_check_def Let_def)
  moreover have "heap_inv X s2 C (x # fl)"
  proof (rule inv_relink [OF i q k dom])
    have "dll (wds s1) (ad x) fl 0"
    proof (cases fl)
      case (Cons y zs)
      have "y + 40 \<notin> (\<Union>k\<in>set zs. links k)" using links_off [OF g, of y "set zs"] dom xfl by (simp add: Cons)
      then have "dll ((wds s)(y + 40 := ad x)) (ad x) (y # zs) 0" using d by (intro dll_set_last [where p = 0]) (simp_all add: Cons)
      then show ?thesis by (simp add: m1 Cons)
    qed simp
    moreover have "dll (wds s2) (ad x) fl 0 = dll (wds s1) (ad x) fl 0"
      unfolding m2 using links_off [OF g, of x "set fl"] dom xfl by (simp add: dll_upd_other)
    ultimately have "dll (wds s2) (ad x) fl 0" by simp
    then show "dll (wds s2) 0 (x # fl) 0" by (simp add: m2)
  qed (use x xfl in \<open>auto simp: s2_def\<close>)
  ultimately show ?thesis using q k by blast
qed

end
