(* ===== verification/LdMallocSplit.thy ===== *)
theory LdMallocSplit
  imports LdMallocInv
begin

text \<open>
  Splitting a chunk keeps the invariant of the heap.
\<close>

section \<open>Sizes\<close>

lemma and_not_15: "(a :: u64) AND NOT 15 = a - a mod 16"
proof -
  have m: "(15 :: u64) = mask 4" by (simp add: mask_eq_exp_minus_1)
  have "a AND NOT (mask 4) = push_bit 4 (drop_bit 4 a)"
    by (rule bit_word_eqI) (auto simp: bit_simps)
  also have "\<dots> = a - take_bit 4 a" by (metis add_diff_cancel_right' bits_ident)
  finally show ?thesis by (simp add: m take_bit_eq_mod)
qed

lemma align_ad: "n + 15 < 2 ^ 64 \<Longrightarrow> ALIGN_SIZE (ad n) = ad (16 * ((n + 15) div 16))"
proof -
  assume n: "n + 15 < 2 ^ 64"
  have "ad (n + 15) mod 16 = ad ((n + 15) mod 16)"
    by (rule word_unat_eq_iff [THEN iffD2]) (use n in \<open>simp add: unat_mod\<close>)
  then show ?thesis unfolding ALIGN_SIZE_def and_not_15 ad_plus
    by (simp add: ad_minus minus_mod_eq_mult_div)
qed

lemma align_16: "16 dvd n \<Longrightarrow> n < 2 ^ 63 \<Longrightarrow> ALIGN_SIZE (ad n) = ad n"
  by (subst align_ad) auto

lemma size_for_16: "16 dvd n \<Longrightarrow> n < 2 ^ 63 \<Longrightarrow> SIZE_FOR_USERSIZE (ad n) = ad (n + 48)"
  by (simp add: SIZE_FOR_USERSIZE_def align_16) (simp add: ad_def)

lemma size_for_1: "SIZE_FOR_USERSIZE 1 = 64"
  by (simp add: SIZE_FOR_USERSIZE_def ALIGN_SIZE_def)

section \<open>Stores\<close>

lemma put_words:
  "al h \<Longrightarrow> al (h + 24) \<Longrightarrow> wds (put_header (ad h) w s) = (wds s)(h := w, h + 24 := ld_malloc_header_canary s XOR w)"
  "al f \<Longrightarrow> al (f + 8) \<Longrightarrow> wds (put_footer (ad f) w s) = (wds s)(f + 8 := w, f := ld_malloc_footer_canary s XOR w)"
  "al (h + 8) \<Longrightarrow> wds (put_arena (ad h) a s) = (wds s)(h + 8 := a)"
  "al h \<Longrightarrow> al (h + 24) \<Longrightarrow> wds (zero_header (ad h) s) = (wds s)(h := 0, h + 24 := 0)"
  "al f \<Longrightarrow> al (f + 8) \<Longrightarrow> wds (zero_footer (ad f) s) = (wds s)(f + 8 := 0, f := 0)"
  by (simp_all add: put_header_def put_footer_def put_arena_def zero_header_def zero_footer_def ad_plus)

lemma put_keeps [simp]:
  "ld_malloc_freelist_head (put_header a v s) = ld_malloc_freelist_head s" "ld_malloc_freelist_head (put_footer a v s) = ld_malloc_freelist_head s"
  "ld_malloc_freelist_head (put_arena a v s) = ld_malloc_freelist_head s" "ld_malloc_freelist_head (zero_header a s) = ld_malloc_freelist_head s"
  "ld_malloc_freelist_head (zero_footer a s) = ld_malloc_freelist_head s"
  "ld_malloc_header_canary (put_header a v s) = ld_malloc_header_canary s" "ld_malloc_header_canary (put_footer a v s) = ld_malloc_header_canary s"
  "ld_malloc_header_canary (put_arena a v s) = ld_malloc_header_canary s" "ld_malloc_header_canary (zero_header a s) = ld_malloc_header_canary s"
  "ld_malloc_header_canary (zero_footer a s) = ld_malloc_header_canary s"
  "ld_malloc_footer_canary (put_header a v s) = ld_malloc_footer_canary s" "ld_malloc_footer_canary (put_footer a v s) = ld_malloc_footer_canary s"
  "ld_malloc_footer_canary (put_arena a v s) = ld_malloc_footer_canary s" "ld_malloc_footer_canary (zero_header a s) = ld_malloc_footer_canary s"
  "ld_malloc_footer_canary (zero_footer a s) = ld_malloc_footer_canary s"
  by (simp_all add: put_header_def put_footer_def put_arena_def zero_header_def zero_footer_def)

lemma quiet_put [simp]:
  "quiet s (put_header a v s') \<longleftrightarrow> quiet s s'" "quiet s (put_footer a v s') \<longleftrightarrow> quiet s s'" "quiet s (put_arena a v s') \<longleftrightarrow> quiet s s'"
  "quiet s (zero_header a s') \<longleftrightarrow> quiet s s'" "quiet s (zero_footer a s') \<longleftrightarrow> quiet s s'"
  by (simp_all add: put_header_def put_footer_def put_arena_def zero_header_def zero_footer_def)

section \<open>The two parts\<close>

definition split_put :: "nat \<Rightarrow> nat \<Rightarrow> cinfo \<Rightarrow> 'z ldm_scheme \<Rightarrow> 'z ldm_scheme" where
  "split_put x n c s =
     put_footer (ad (x + 32 + csz c)) (sw (csz c - 48 - n) False)
     (put_header (ad (x + 48 + n)) (sw (csz c - 48 - n) False)
     (put_arena (ad (x + 48 + n)) (aw (casz c) False (cend x c = ctop c))
     (put_footer (ad (x + 32 + n)) (sw n (cused c))
     (put_header (ad x) (sw n (cused c))
     (put_arena (ad x) (aw (casz c) (x = cbase c) False) s)))))"

lemma split_al:
  assumes "chunk_geo x c" "16 dvd n" "16 \<le> n" "n + 64 \<le> csz c"
  shows "al (x + 32 + n)" "al (x + 40 + n)" "al (x + 48 + n)" "al (x + 56 + n)" "al (x + 72 + n)" "al (x + 80 + n)" "al (x + 88 + n)"
    "n < 2 ^ 63" "4 dvd n" "4 dvd csz c - 48 - n" "16 \<le> csz c - 48 - n" "csz c < 2 ^ 63" "x < 2 ^ 63"
proof -
  have d: "8 dvd x" "8 dvd n" "16 dvd csz c" using assms by (auto simp: chunk_geo_def intro: dvd_trans [of 8 16])
  have b: "x + 48 + csz c \<le> 2 ^ 63" using assms by (auto simp: chunk_geo_def cend_def)
  from d b assms(3,4) show "al (x + 32 + n)" "al (x + 40 + n)" "al (x + 48 + n)" "al (x + 56 + n)" "al (x + 72 + n)" "al (x + 80 + n)" "al (x + 88 + n)"
    "n < 2 ^ 63" "csz c < 2 ^ 63" "x < 2 ^ 63" by (auto simp: al_def intro!: dvd_add)
  have "16 dvd csz c - 48 - n" using d assms(2) by (auto intro!: dvd_diff_nat)
  then show "4 dvd csz c - 48 - n" by (rule dvd_trans [rotated]) simp
  show "4 dvd n" using assms(2) by (rule dvd_trans [rotated]) simp
  show "16 \<le> csz c - 48 - n" using assms(4) by simp
qed

lemma split_put_words:
  assumes "chunk_geo x c" "16 dvd n" "16 \<le> n" "n + 64 \<le> csz c"
  defines "w1 \<equiv> sw n (cused c)" and "w2 \<equiv> sw (csz c - 48 - n) False"
  shows "wds (split_put x n c s) = (wds s)(x + 8 := aw (casz c) (x = cbase c) False, x := w1, x + 24 := ld_malloc_header_canary s XOR w1,
    x + 40 + n := w1, x + 32 + n := ld_malloc_footer_canary s XOR w1, x + 56 + n := aw (casz c) False (cend x c = ctop c),
    x + 48 + n := w2, x + 72 + n := ld_malloc_header_canary s XOR w2, x + 40 + csz c := w2, x + 32 + csz c := ld_malloc_footer_canary s XOR w2)"
proof -
  note a = chunk_al [OF assms(1)] split_al [OF assms(1-4)]
  have e: "x + 32 + csz c + 8 = x + 40 + csz c" "x + 48 + n + 8 = x + 56 + n" "x + 48 + n + 24 = x + 72 + n" "x + 32 + n + 8 = x + 40 + n" by simp_all
  show ?thesis unfolding split_put_def w1_def w2_def by (simp add: put_words e a)
qed

lemma split_put_ok:
  fixes s :: "'z ldm_scheme"
  assumes "chunk_geo x c" "16 dvd n" "16 \<le> n" "n + 64 \<le> csz c"
  defines "M \<equiv> wds (split_put x n c s)" and "hc \<equiv> ld_malloc_header_canary s" and "fc \<equiv> ld_malloc_footer_canary s"
  shows "hdr_ok M hc fc x (c\<lparr>csz := n, cused := cused c\<rparr>)" "hdr_ok M hc fc (x + 48 + n) (c\<lparr>csz := csz c - 48 - n, cused := False\<rparr>)"
    "kept {x..<cend x c} (wds s) M" "\<And>a. x + 32 \<le> a \<Longrightarrow> a < x + 32 + n \<Longrightarrow> M a = wds s a"
proof -
  note b = assms(3,4) split_al(11) [OF assms(1-4)]
  have low: "cbase c \<le> x" and top: "cend x c \<le> ctop c" using assms(1) by (simp_all add: chunk_geo_def)
  have ends: "cend x (c\<lparr>csz := n, cused := cused c\<rparr>) \<noteq> ctop c" "x + 48 + n \<noteq> cbase c"
    "cend (x + 48 + n) (c\<lparr>csz := csz c - 48 - n, cused := False\<rparr>) = cend x c" using b low top by (auto simp: cend_def)
  have t: "ctop (c\<lparr>csz := k, cused := u\<rparr>) = ctop c" for k u by (simp add: ctop_def)
  have M: "M = (wds s)(x + 8 := aw (casz c) (x = cbase c) False, x := sw n (cused c), x + 24 := hc XOR sw n (cused c),
    x + 40 + n := sw n (cused c), x + 32 + n := fc XOR sw n (cused c), x + 56 + n := aw (casz c) False (cend x c = ctop c),
    x + 48 + n := sw (csz c - 48 - n) False, x + 72 + n := hc XOR sw (csz c - 48 - n) False, x + 40 + csz c := sw (csz c - 48 - n) False,
    x + 32 + csz c := fc XOR sw (csz c - 48 - n) False)"
    unfolding M_def hc_def fc_def by (rule split_put_words [OF assms(1-4)])
  show "hdr_ok M hc fc x (c\<lparr>csz := n, cused := cused c\<rparr>)" unfolding hdr_ok_def t using b ends(1) by (simp add: M)
  have e: "x + 48 + n + 32 + (csz c - 48 - n) = x + 32 + csz c" "x + 48 + n + 40 + (csz c - 48 - n) = x + 40 + csz c" using b by simp_all
  show "hdr_ok M hc fc (x + 48 + n) (c\<lparr>csz := csz c - 48 - n, cused := False\<rparr>)"
    unfolding hdr_ok_def t ends(3) using b ends(2) by (simp add: e) (simp add: M)
  show "kept {x..<cend x c} (wds s) M" unfolding M using b by (intro kept_upd kept_refl) (simp_all add: cend_def)
  show "M a = wds s a" if "x + 32 \<le> a" "a < x + 32 + n" for a unfolding M using that b by simp
qed

lemma put_header_reads:
  assumes "al h" "al (h + 24)" "4 dvd k"
  shows "chunk_size (put_header (ad h) (sw k u) s) (ad h) = sw k u" "CHUNK_TO_FOOTER (put_header (ad h) (sw k u) s) (ad h) = ad (h + 32 + k)"
proof -
  show "chunk_size (put_header (ad h) (sw k u) s) (ad h) = sw k u" using assms by (simp add: field_reads put_words)
  then show "CHUNK_TO_FOOTER (put_header (ad h) (sw k u) s) (ad h) = ad (h + 32 + k)" using assms by (simp add: CHUNK_TO_FOOTER_def sw_simps ad_plus)
qed

lemma chunk_split_code:
  assumes i: "heap_inv X s C fl" and x: "C x = Some c" and n: "16 dvd n" "16 \<le> n" "n + 64 \<le> csz c"
  shows "ld_malloc_chunk_split (ad x) (ad n) s =
    (if cused c then Inr (ad (x + 48 + n), split_put x n c s)
     else rbind (split_relink (ad x) (ad (x + 48 + n)) (split_put x n c s)) (\<lambda>s. Inr (ad x, s)))"
proof -
  note r = inv_reads [OF i x] and a = chunk_al [OF inv_chunk_geo [OF i x]] split_al [OF inv_chunk_geo [OF i x] n]
  have w2: "CHUNK_SIZE (sw (csz c) (cused c)) - SIZE_FOR_USERSIZE (ad n) = sw (csz c - 48 - n) False"
    using n a by (simp add: sw_simps size_for_16 sw_False ad_minus add.commute)
  have w1: "(if cused c then ad n OR 1 else ad n) = sw n (cused c)" using a by (simp add: sw_simps sw_False)
  have e: "FOOTER_TO_NEXT (ad (x + 32 + n)) = ad (x + 48 + n)" by (simp add: FOOTER_TO_NEXT_def ad_def)
  have al: "al (x + 48 + n + 24)" using a(19) by (simp add: ac_simps)
  have f: "x + 48 + n + 32 + (csz c - 48 - n) = x + 32 + csz c" using n by simp
  have u: "used (sw (csz c) (cused c)) \<longleftrightarrow> cused c" using a by (simp add: sw_simps)
  show ?thesis unfolding ld_malloc_chunk_split_def Let_def r(1,2,4) w2 u w1
    unfolding aw_simps(1,2) [OF a(13)] put_header_reads(2) [OF a(1,3) split_al(9) [OF inv_chunk_geo [OF i x] n]] e
    unfolding put_header_reads(2) [OF split_al(3) [OF inv_chunk_geo [OF i x] n] al split_al(10) [OF inv_chunk_geo [OF i x] n]] f
    by (simp add: ld_check_def r split_put_def)
qed

section \<open>Chunks beside a changed region\<close>

lemma inv_beside:
  assumes i: "heap_inv X s C fl" and q: "quiet s s'" and k: "kept {lo..<hi} (wds s) (wds s')"
  shows "C j = Some d \<Longrightarrow> cend j d \<le> lo \<or> hi \<le> j \<Longrightarrow> hdr_ok (wds s') (ld_malloc_header_canary s') (ld_malloc_footer_canary s') j d"
    and "(\<And>j. j \<in> set ys \<Longrightarrow> \<exists>d. C j = Some d \<and> (cend j d \<le> lo \<or> hi \<le> j)) \<Longrightarrow> dll (wds s') p ys m = dll (wds s) p ys m"
proof -
  have out: "wds s' a = wds s a" if "C j = Some d" "cend j d \<le> lo \<or> hi \<le> j" "j \<le> a" "a < cend j d" for j d a
    using k that by (auto simp: kept_def)
  have sz: "16 \<le> csz d" if "C j = Some d" for j d using inv_chunk_geo [OF i that] by (simp add: chunk_geo_def)
  show "hdr_ok (wds s') (ld_malloc_header_canary s') (ld_malloc_footer_canary s') j d" if "C j = Some d" "cend j d \<le> lo \<or> hi \<le> j" for j d
    using inv_hdr [OF i that(1)] q out [OF that] sz [OF that(1)] by (simp add: hdr_ok_def quiet_def cend_def)
  show "dll (wds s') p ys m = dll (wds s) p ys m" if l: "\<And>j. j \<in> set ys \<Longrightarrow> \<exists>d. C j = Some d \<and> (cend j d \<le> lo \<or> hi \<le> j)" for ys p m
  proof (rule dll_cong)
    fix j assume "j \<in> set ys"
    then obtain d where d: "C j = Some d" "cend j d \<le> lo \<or> hi \<le> j" using l by blast
    show "wds s' (j + 32) = wds s (j + 32) \<and> wds s' (j + 40) = wds s (j + 40)" using out [OF d] sz [OF d(1)] by (simp add: cend_def)
  qed
qed

lemma geo_beside: "geo C \<Longrightarrow> C x = Some c \<Longrightarrow> C j = Some d \<Longrightarrow> j \<noteq> x \<Longrightarrow> cend j d \<le> x \<or> cend x c \<le> j"
  using geo_disjoint [of C x c j d] geo_disjoint [of C j d x c] by (metis nat_neq_iff)

section \<open>Splitting keeps the invariant\<close>

lemma split_new:
  assumes "geo C" "C x = Some c" "n + 64 \<le> csz c"
  shows "C (x + 48 + n) = None"
proof (rule ccontr)
  assume "C (x + 48 + n) \<noteq> None"
  then obtain d where "C (x + 48 + n) = Some d" by blast
  from geo_disjoint [OF assms(1,2) this] assms(3) show False by (simp add: cend_def)
qed

abbreviation (input) split_chunks :: "chunks \<Rightarrow> nat \<Rightarrow> nat \<Rightarrow> cinfo \<Rightarrow> chunks" where
  "split_chunks C x n c \<equiv> C(x \<mapsto> c\<lparr>csz := n, cused := cused c\<rparr>, x + 48 + n \<mapsto> c\<lparr>csz := csz c - 48 - n, cused := False\<rparr>)"

lemma split_hdrs:
  assumes i: "heap_inv X s C fl" and x: "C x = Some c" and n: "16 dvd n" "16 \<le> n" "n + 64 \<le> csz c"
    and k: "split_chunks C x n c j = Some d"
  defines "s' \<equiv> split_put x n c s"
  shows "hdr_ok (wds s') (ld_malloc_header_canary s') (ld_malloc_footer_canary s') j d"
proof -
  note ok = split_put_ok [OF inv_chunk_geo [OF i x] n, where s = s]
  have q: "quiet s s'" by (simp add: s'_def split_put_def)
  consider "j = x + 48 + n" "d = c\<lparr>csz := csz c - 48 - n, cused := False\<rparr>" | "j = x" "d = c\<lparr>csz := n, cused := cused c\<rparr>" | "j \<noteq> x" "C j = Some d"
    using k by (cases "j = x + 48 + n"; cases "j = x") simp_all
  then show ?thesis
  proof cases
    case 3
    then show ?thesis using inv_beside(1) [OF i q ok(3) [folded s'_def]] geo_beside [OF inv_geo [OF i] x] by blast
  qed (use ok(1,2) q in \<open>simp_all add: s'_def quiet_def\<close>)
qed

lemma split_put_inv:
  assumes i: "heap_inv X s C fl" and x: "C x = Some c" and n: "16 dvd n" "16 \<le> n" "n + 64 \<le> csz c"
  shows "heap_inv (insert (x + 48 + n) X) (split_put x n c s) (split_chunks C x n c) fl" "x + 48 + n \<notin> set fl \<union> X"
proof -
  let ?s = "split_put x n c s" and ?C = "split_chunks C x n c" and ?y = "x + 48 + n"
  note g = inv_geo [OF i] and new = split_new [OF inv_geo [OF i] x n(3)] and ok = split_put_ok [OF inv_chunk_geo [OF i x] n, where s = s]
  show yfree: "?y \<notin> set fl \<union> X" using i new by (auto simp: heap_inv_def free_set_def)
  have "dll (wds ?s) 0 fl 0 = dll (wds s) 0 fl 0"
  proof (rule dll_cong)
    fix j assume j: "j \<in> set fl"
    show "wds ?s (j + 32) = wds s (j + 32) \<and> wds ?s (j + 40) = wds s (j + 40)"
    proof (cases "j = x")
      case True
      then show ?thesis using ok(4) n(2) by simp
    next
      case False
      obtain d where d: "C j = Some d" using j inv_dom [OF i] by blast
      have "16 \<le> csz d" using inv_chunk_geo [OF i d] by (simp add: chunk_geo_def)
      then have "j + 32 \<notin> {x..<cend x c}" "j + 40 \<notin> {x..<cend x c}" using geo_beside [OF g x d False] by (auto simp: cend_def)
      then show ?thesis using ok(3) by (simp add: kept_def)
    qed
  qed
  moreover have "free_set ?C = insert ?y (free_set C)" using x new by (auto simp: free_set_def)
  moreover have "geo ?C" by (rule geo_split [OF g x n])
  ultimately show "heap_inv (insert ?y X) ?s ?C fl" unfolding heap_inv_def
    using i yfree split_hdrs [OF i x n] by (auto simp: heap_inv_def split_put_def)
qed

lemma split_relink_inv:
  assumes i: "heap_inv (insert y X) s C (xs @ x # ys)" and y: "y \<notin> X"
  shows "\<exists>s'. split_relink (ad x) (ad y) s = Inr s' \<and> heap_inv (insert x X) s' C (xs @ y # ys) \<and> quiet s s' \<and>
    kept (\<Union>k\<in>set (y # xs @ x # ys). links k) (wds s) (wds s')"
proof -
  let ?K = "set (y # xs @ x # ys)"
  have K: "k \<in> set (xs @ x # ys) \<union> insert y X" if "k \<in> ?K" for k using that by auto
  have dom: "?K \<subseteq> dom C" using inv_dom [OF i] by auto
  have dist: "distinct (y # xs @ x # ys)" "set (xs @ x # ys) \<inter> X = {}" using i by (auto simp: heap_inv_def)
  note al = inv_al [OF i K] and off = inv_off [OF i K] and ver = inv_ver [OF i _ _ dom K]
  have d: "dll (wds s) 0 (xs @ x # ys) 0" using i by (simp add: heap_inv_def)
  have x: "wds s (x + 32) = hdw ys 0" "wds s (x + 40) = lastw 0 xs" using d by (simp_all add: dll_append)
  have z: "lastw 0 xs = 0 \<longleftrightarrow> xs = []" "hdw ys 0 = 0 \<longleftrightarrow> ys = []" using al(3,4) by (intro lastw_0 hdw_0; simp)+
  have x8: "k + 32 + 8 = k + 40" for k :: nat by simp
  have r: "free_next t (ad (k + 32)) = wds t (k + 32)" "free_last t (ad (k + 32)) = wds t (k + 40)" if "k \<in> ?K" for t :: "'a ldm_scheme" and k
    using al(1,2) [OF that] by (simp_all add: field_reads x8)
  define s1 where "s1 = wr (ad (x + 40)) 0 (wr (ad (x + 32)) 0 (wr (ad (y + 40)) (lastw 0 xs) (wr (ad (y + 32)) (hdw ys 0) s)))"
  define s2 where "s2 = (if ys = [] then s1 else wr (ad (hd ys + 40)) (ad y) s1)"
  define s3 where "s3 = (if xs = [] then s2 else wr (ad (last xs + 32)) (ad y) s2)"
  define s4 where "s4 = (if xs = [] then s3\<lparr>ld_malloc_freelist_head := ad y\<rparr> else s3)"
  have m1: "wds s1 = (wds s)(y + 32 := hdw ys 0, y + 40 := lastw 0 xs, x + 32 := 0, x + 40 := 0)"
    using al(1,2) [of x] al(1,2) [of y] by (simp add: s1_def)
  have m2: "wds s2 = (if ys = [] then wds s1 else (wds s1)(hd ys + 40 := ad y))" using al(2) [of "hd ys"] by (simp add: s2_def)
  have m3: "wds s3 = (if xs = [] then wds s2 else (wds s2)(last xs + 32 := ad y))" using al(1) [of "last xs"] by (simp add: s3_def)
  have m4: "wds s4 = wds s3" by (simp add: s4_def)
  have lx: "links k \<subseteq> (\<Union>k\<in>?K. links k)" if "k \<in> ?K" for k using that by blast
  have k1: "kept (\<Union>k\<in>?K. links k) (wds s) (wds s1)" using lx [of x] lx [of y] unfolding m1 by (intro kept_upd kept_refl) (auto simp: links_def)
  have k2: "kept (\<Union>k\<in>?K. links k) (wds s) (wds s2)" using k1 lx [of "hd ys"] by (auto simp: m2 links_def intro!: kept_upd)
  have k3: "kept (\<Union>k\<in>?K. links k) (wds s) (wds s3)" using k2 lx [of "last xs"] by (auto simp: m3 links_def intro!: kept_upd)
  have q: "quiet s s1" "quiet s s2" "quiet s s4" by (simp_all add: s1_def s2_def s3_def s4_def)
  have xy: "x \<noteq> y" using dist by auto
  have ap: "x + 40 \<noteq> y + 32" "x + 32 \<noteq> y + 40" using off [of x "{y}"] xy by (auto simp: links_def)
  have y1: "wds s1 (y + 32) = hdw ys 0" "wds s1 (y + 40) = lastw 0 xs" using xy ap by (simp_all add: m1)
  have hy: "hd ys + 40 \<noteq> y + 32" "hd ys + 40 \<noteq> y + 40" if "ys \<noteq> []" using off(2) [of "hd ys" "{y}"] dist that by (cases ys; auto simp: links_def)+
  have ly: "last xs + 32 \<noteq> y + 32" "last xs + 32 \<noteq> y + 40" if "xs \<noteq> []"
    using off(1) [of "last xs" "{y}"] dist that by (cases xs rule: rev_cases; auto simp: links_def)+
  have y2: "wds s2 (y + 40) = lastw 0 xs" "wds s2 (y + 32) = hdw ys 0" using y1 hy by (auto simp: m2)
  have y3: "wds s3 (y + 40) = lastw 0 xs" "wds s3 (y + 32) = hdw ys 0" using y2 ly by (auto simp: m3)
  have start: "wr (ad (x + 40)) 0 (wr (ad (x + 32)) 0 (wr (ad (y + 40)) (free_last (wr (ad (y + 32)) (free_next s (ad (x + 32))) s) (ad (x + 32)))
      (wr (ad (y + 32)) (free_next s (ad (x + 32))) s))) = s1"
    using r [of x] x ap al(1) [of y] by (simp add: s1_def)
  have e2: "(if free_next s1 (ad (y + 32)) \<noteq> 0
      then ld_check (VERIFY_HEADER s1 (free_next s1 (ad (y + 32)))) (Inr (wr (CHUNK_TO_USER (free_next s1 (ad (y + 32))) + 8) (ad y) s1))
      else Inr s1) = Inr s2"
    using r [of y s1] y1 z ver [OF k1 q(1), of "hd ys"] by (cases ys) (auto simp: s2_def ld_check_def)
  have e3: "(if free_last s2 (ad (y + 32)) \<noteq> 0
      then ld_check (VERIFY_HEADER s2 (free_last s2 (ad (y + 32)))) (Inr (wr (CHUNK_TO_USER (free_last s2 (ad (y + 32)))) (ad y) s2))
      else Inr s2) = Inr s3"
    using r [of y s2] y2 z ver [OF k2 q(2), of "last xs"] by (auto simp: s3_def ld_check_def lastw_def)
  have head: "ld_malloc_freelist_head s3 = hdw (xs @ x # ys) 0" using i by (simp add: s3_def s2_def s1_def heap_inv_def)
  have e4: "(if ld_malloc_freelist_head s3 = ad x then s3\<lparr>ld_malloc_freelist_head := ad y\<rparr> else s3) = s4"
    unfolding head using dist al(4) [of x] al(4) [of "hd xs"] by (cases xs) (auto simp: s4_def ad_eq_iff)
  have "split_relink (ad x) (ad y) s = Inr s4"
    unfolding split_relink_def Let_def to_user user_8 start e2 rbind_Inr e3 e4 by (rule refl)
  moreover have "heap_inv (insert x X) s4 C (xs @ y # ys)"
  proof (rule inv_relink [OF i q(3)])
    show "kept (\<Union>k\<in>?K. links k) (wds s) (wds s4)" using k3 by (simp add: m4)
    have "dll (wds s) (ad x) ys 0" using d by (simp add: dll_append)
    then have "dll (wds s1) (ad x) ys 0" using dist off [of x "set ys"] off [of y "set ys"] by (auto simp: m1 dll_upd_other)
    then have "dll (wds s2) (ad y) ys 0"
      using dist off(2) [of "hd ys" "set (tl ys)"] by (cases ys) (auto simp: m2 dll_upd_other)
    then have b: "dll (wds s3) (ad y) ys 0" using dist off(1) [of "last xs" "set ys"] by (cases xs rule: rev_cases) (auto simp: m3 dll_upd_other)
    have "dll (wds s) 0 xs (ad x)" using d by (simp add: dll_append)
    then have "dll (wds s1) 0 xs (ad x)" using dist off [of x "set xs"] off [of y "set xs"] by (auto simp: m1 dll_upd_other)
    then have "dll (wds s2) 0 xs (ad x)" using dist off(2) [of "hd ys" "set xs"] by (cases ys) (auto simp: m2 dll_upd_other)
    then have a: "dll (wds s3) 0 xs (ad y)"
    proof (cases xs rule: rev_cases)
      case (snoc zs l)
      assume "dll (wds s2) 0 xs (ad x)"
      then show ?thesis unfolding m3 snoc using dist off(1) [of l "set zs"] by (auto simp: snoc intro!: dll_set_next [where n = "ad x"])
    qed simp
    show "dll (wds s4) 0 (xs @ y # ys) 0" using a b y3 by (simp add: m4 dll_append)
    show "ld_malloc_freelist_head s4 = hdw (xs @ y # ys) 0" using head by (cases xs) (simp_all add: s4_def)
  qed (use dom dist y in auto)
  ultimately show ?thesis using q(3) k3 by (auto simp: m4)
qed

end
