(* ===== verification/LdMallocAlloc.thy ===== *)
theory LdMallocAlloc
  imports LdMallocSplit
begin

text \<open>
  Allocation keeps the invariant of the heap and the contents of the blocks in use.
\<close>

section \<open>Blocks in use\<close>

text \<open>What a client knows of the heap: the sizes of the blocks it holds.\<close>

definition blocks :: "chunks \<Rightarrow> nat \<rightharpoonup> nat" where
  "blocks C h = (case C h of None \<Rightarrow> None | Some c \<Rightarrow> if cused c then Some (csz c) else None)"

lemma blocks_simps [simp]: "C h = Some c \<Longrightarrow> cused c \<Longrightarrow> blocks C h = Some (csz c)" "C h = Some c \<Longrightarrow> \<not> cused c \<Longrightarrow> blocks C h = None"
  "C h = None \<Longrightarrow> blocks C h = None"
  by (simp_all add: blocks_def)

lemma blocks_Some: "blocks C h = Some k \<longleftrightarrow> (\<exists>c. C h = Some c \<and> cused c \<and> csz c = k)"
  by (auto simp: blocks_def split: option.splits if_splits)

lemma blocks_upd: "blocks (C(h \<mapsto> c)) = (blocks C)(h := if cused c then Some (csz c) else None)" "blocks (C(h := None)) = (blocks C)(h := None)"
  by (simp_all add: blocks_def fun_eq_iff)

definition data_kept :: "(nat \<rightharpoonup> nat) \<Rightarrow> (nat \<Rightarrow> u64) \<Rightarrow> (nat \<Rightarrow> u64) \<Rightarrow> bool" where
  "data_kept B M M' \<longleftrightarrow> (\<forall>h k a. B h = Some k \<longrightarrow> h + 32 \<le> a \<longrightarrow> a < h + 32 + k \<longrightarrow> M' a = M a)"

lemma data_kept_refl [simp]: "data_kept B M M"
  by (simp add: data_kept_def)

lemma data_kept_trans: "data_kept B M M1 \<Longrightarrow> data_kept B M1 M2 \<Longrightarrow> data_kept B M M2"
  by (simp add: data_kept_def)

lemma data_kept_mono: "data_kept B M M' \<Longrightarrow> B' \<subseteq>\<^sub>m B \<Longrightarrow> data_kept B' M M'"
  by (auto simp: data_kept_def map_le_def) (metis domI)

lemma data_kept_kept: "kept A M M' \<Longrightarrow> (\<And>h k a. B h = Some k \<Longrightarrow> h + 32 \<le> a \<Longrightarrow> a < h + 32 + k \<Longrightarrow> a \<notin> A) \<Longrightarrow> data_kept B M M'"
  by (auto simp: data_kept_def kept_def)

text \<open>The links of free chunks are not data of a block, and neither is any word of another chunk.\<close>

lemma links_data:
  assumes "geo C" "kept (\<Union>k\<in>F. links k) M M'" "F \<subseteq> free_set C"
  shows "data_kept (blocks C) M M'"
proof (rule data_kept_kept [OF assms(2)])
  fix h k a assume h: "blocks C h = Some k" "h + 32 \<le> a" "a < h + 32 + k"
  then obtain c where c: "C h = Some c" "cused c" "csz c = k" by (auto simp: blocks_Some)
  have "a \<notin> links x" if x: "x \<in> F" for x
  proof -
    have "x \<in> free_set C" using x assms(3) by blast
    then obtain d where d: "C x = Some d" "\<not> cused d" by (auto simp: free_set_def)
    have "16 \<le> csz d" using geo_chunk [OF assms(1) d(1)] by (simp add: chunk_geo_def)
    moreover have "h \<noteq> x" using c d by auto
    then have "cend h c \<le> x \<or> cend x d \<le> h" by (rule geo_beside [OF assms(1) d(1) c(1)])
    ultimately show ?thesis using h c by (auto simp: links_def cend_def)
  qed
  then show "a \<notin> (\<Union>k\<in>F. links k)" by blast
qed

lemma chunk_data:
  assumes "geo C" "C x = Some c" "kept {x..<cend x c} M M'"
  shows "data_kept ((blocks C)(x := None)) M M'"
proof (rule data_kept_kept [OF assms(3)])
  fix h k a assume h: "((blocks C)(x := None)) h = Some k" "h + 32 \<le> a" "a < h + 32 + k"
  then obtain d where d: "C h = Some d" "csz d = k" "h \<noteq> x" by (auto simp: blocks_Some split: if_splits)
  with h geo_beside [OF assms(1,2) d(1,3)] show "a \<notin> {x..<cend x c}" by (auto simp: cend_def)
qed

section \<open>Marking a chunk\<close>

text \<open>A header and a footer with a new flag.\<close>

definition mark :: "nat \<Rightarrow> nat \<Rightarrow> bool \<Rightarrow> 'z ldm_scheme \<Rightarrow> 'z ldm_scheme" where
  "mark x k u s = put_footer (ad (x + 32 + k)) (sw k u) (put_header (ad x) (sw k u) s)"

lemma mark_words:
  assumes "chunk_geo x c"
  shows "wds (mark x (csz c) u s) = (wds s)(x := sw (csz c) u, x + 24 := ld_malloc_header_canary s XOR sw (csz c) u,
    x + 40 + csz c := sw (csz c) u, x + 32 + csz c := ld_malloc_footer_canary s XOR sw (csz c) u)"
proof -
  have e: "x + 32 + csz c + 8 = x + 40 + csz c" by simp
  show ?thesis unfolding mark_def by (simp add: put_words e chunk_al [OF assms])
qed

lemma mark_inv:
  assumes i: "heap_inv X s C fl" and x: "C x = Some c" "x \<notin> set fl" and X': "X' - {x} = X - {x}" "x \<in> X' \<longleftrightarrow> \<not> u"
  shows "heap_inv X' (mark x (csz c) u s) (C(x \<mapsto> c\<lparr>cused := u\<rparr>)) fl" "quiet s (mark x (csz c) u s)" "data_kept (blocks C) (wds s) (wds (mark x (csz c) u s))"
proof -
  let ?s = "mark x (csz c) u s" and ?C = "C(x \<mapsto> c\<lparr>cused := u\<rparr>)"
  note g = inv_geo [OF i] and cg = inv_chunk_geo [OF i x(1)]
  have sz: "16 \<le> csz c" using cg by (simp add: chunk_geo_def)
  show q: "quiet s ?s" by (simp add: mark_def)
  have k: "kept {x..<cend x c} (wds s) (wds ?s)" unfolding mark_words [OF cg] by (intro kept_upd kept_refl) (auto simp: cend_def)
  have hdrs: "hdr_ok (wds ?s) (ld_malloc_header_canary ?s) (ld_malloc_footer_canary ?s) j d" if j: "?C j = Some d" for j d
  proof (cases "j = x")
    case True
    with j have d: "d = c\<lparr>cused := u\<rparr>" by simp
    have "wds s (x + 8) = aw (casz c) (x = cbase c) (cend x c = ctop c)" using inv_hdr [OF i x(1)] by (simp add: hdr_ok_def)
    then show ?thesis using sz unfolding hdr_ok_def mark_words [OF cg] True d by (simp add: mark_def cend_def ctop_def)
  next
    case False
    then show ?thesis using j inv_beside(1) [OF i q k] geo_beside [OF g x(1)] by auto
  qed
  have "dll (wds ?s) 0 fl 0 = dll (wds s) 0 fl 0"
  proof (rule inv_beside(2) [OF i q k])
    fix j assume j: "j \<in> set fl"
    then obtain d where "C j = Some d" using inv_dom [OF i] by blast
    then show "\<exists>d. C j = Some d \<and> (cend j d \<le> x \<or> cend x c \<le> j)" using geo_beside [OF g x(1)] x(2) j by blast
  qed
  moreover have "free_set ?C = (free_set C - {x}) \<union> (if u then {} else {x})" by (auto simp: free_set_def)
  moreover have "set fl \<union> X = free_set C" "set fl \<inter> X = {}" using i by (simp_all add: heap_inv_def)
  then have "set fl \<union> X' = (free_set C - {x}) \<union> (if u then {} else {x})" "set fl \<inter> X' = {}" using X' x(2) by (auto split: if_splits)
  moreover have "ld_malloc_freelist_head ?s = ld_malloc_freelist_head s" by (simp add: mark_def)
  ultimately show "heap_inv X' ?s ?C fl" unfolding heap_inv_def using i hdrs geo_used [OF g x(1)] by (simp add: heap_inv_def)
  show "data_kept (blocks C) (wds s) (wds ?s)" unfolding data_kept_def
  proof (intro allI impI)
    fix h k a assume h: "blocks C h = Some k" "h + 32 \<le> a" "a < h + 32 + k"
    show "wds ?s a = wds s a"
    proof (cases "h = x")
      case True
      with h x(1) show ?thesis unfolding mark_words [OF cg] using sz by (auto simp: blocks_Some)
    next
      case False
      with h chunk_data [OF g x(1) k] show ?thesis unfolding data_kept_def by (metis fun_upd_other)
    qed
  qed
qed

lemma finish_code:
  assumes "chunk_geo x c"
  shows "finish_malloc (ad x) (sw (csz c) u) s = Inr (ad (x + 32), mark x (csz c) True s)"
proof -
  note a = chunk_al [OF assms]
  have e: "x + 32 + csz c + 8 = x + 40 + csz c" by simp
  have "chunk_size (mark x (csz c) True s) (ad x) = sw (csz c) True" using a by (simp add: field_reads mark_words [OF assms])
  then show ?thesis using a by (simp add: finish_malloc_def Let_def sw_simps put_header_reads ld_check_def flip: mark_def)
qed

section \<open>The search in the free list\<close>

lemma ad_le: "a < 2 ^ 64 \<Longrightarrow> b < 2 ^ 64 \<Longrightarrow> ad a \<le> ad b \<longleftrightarrow> a \<le> b" "a < 2 ^ 64 \<Longrightarrow> b < 2 ^ 64 \<Longrightarrow> ad a < ad b \<longleftrightarrow> a < b"
  by (simp_all add: word_le_nat_alt word_less_nat_alt)

lemma can_split_iff:
  assumes "chunk_size s (ad x) = sw (csz c) u" "chunk_geo x c" "k < 2 ^ 63"
  shows "CAN_SPLIT_CHUNK s (ad x) (ad k) \<longleftrightarrow> k + 64 \<le> csz c"
proof -
  note a = chunk_al [OF assms(2)]
  have "64 \<le> ad (csz c) - ad k \<longleftrightarrow> 64 \<le> csz c - k" if "k < csz c"
    using that a(11) ad_le(1) [of 64 "csz c - k"] by (simp add: ad_minus) (simp add: ad_def)
  then show ?thesis using assms a by (auto simp: CAN_SPLIT_CHUNK_def sw_simps size_for_1 ad_le)
qed

text \<open>The result of a search: a free chunk that has left the list.\<close>

definition found :: "nat \<Rightarrow> nat \<Rightarrow> 'z ldm_scheme \<Rightarrow> chunks \<Rightarrow> nat list \<Rightarrow> 'z ldm_scheme \<Rightarrow> chunks \<Rightarrow> nat list \<Rightarrow> bool" where
  "found k x s C fl s' C' fl' \<longleftrightarrow> heap_inv {x} s' C' fl' \<and> (\<exists>c. C' x = Some c \<and> \<not> cused c \<and> k \<le> csz c) \<and> blocks C' = blocks C \<and> quiet s s' \<and>
     data_kept (blocks C) (wds s) (wds s') \<and> length fl' \<le> length fl"

lemma take_found:
  assumes i: "heap_inv {} s C (xs @ x # ys)" and c: "C x = Some c" "\<not> cused c" and k: "16 dvd k" "16 \<le> k" "k \<le> csz c"
  shows "\<exists>s' C' fl'. (if CAN_SPLIT_CHUNK s (ad x) (ad k) then ld_malloc_chunk_split (ad x) (ad k) s
      else rbind (ld_malloc_freelist_unlink (CHUNK_TO_USER (ad x)) s) (\<lambda>s. Inr (ad x, s))) = Inr (ad x, s') \<and> found k x s C (xs @ x # ys) s' C' fl'"
proof -
  note g = inv_geo [OF i] and cg = inv_chunk_geo [OF i c(1)]
  have kk: "k < 2 ^ 63" using chunk_al(11) [OF cg] k by simp
  have fs: "set (xs @ x # ys) = free_set C" using i by (simp add: heap_inv_def)
  show ?thesis
  proof (cases "k + 64 \<le> csz c")
    case True
    let ?y = "x + 48 + k" and ?C = "split_chunks C x k c" and ?s = "split_put x k c s"
    note p = split_put_inv [OF i c(1) k(1,2) True]
    obtain s' where s': "split_relink (ad x) (ad ?y) ?s = Inr s'" "heap_inv {x} s' ?C (xs @ ?y # ys)" "quiet ?s s'"
      "kept (\<Union>k\<in>set (?y # xs @ x # ys). links k) (wds ?s) (wds s')" using split_relink_inv [OF p(1)] by auto
    have "C ?y = None" by (rule split_new [OF g c(1) True])
    then have b: "blocks ?C = blocks C" using c by (simp add: blocks_upd fun_eq_iff)
    have "set (?y # xs @ x # ys) \<subseteq> free_set ?C" using p(1) by (auto simp: heap_inv_def)
    from links_data [OF inv_geo [OF p(1)] s'(4) this] have "data_kept (blocks C) (wds ?s) (wds s')" by (simp only: b)
    moreover have "data_kept (blocks C) (wds s) (wds ?s)"
      using chunk_data [OF g c(1) split_put_ok(3) [OF cg k(1,2) True]] c by (simp add: fun_upd_idem)
    ultimately have "data_kept (blocks C) (wds s) (wds s')" by (rule data_kept_trans [rotated])
    moreover have "quiet s ?s" by (simp add: split_put_def)
    ultimately have "found k x s C (xs @ x # ys) s' ?C (xs @ ?y # ys)"
      unfolding found_def using s' b c k by (auto intro: quiet_trans)
    moreover have "ld_malloc_chunk_split (ad x) (ad k) s = Inr (ad x, s')" using chunk_split_code [OF i c(1) k(1,2) True] c(2) s'(1) by simp
    ultimately show ?thesis using can_split_iff [OF inv_reads(1) [OF i c(1)] cg kk] True by auto
  next
    case False
    obtain s' where s': "ld_malloc_freelist_unlink (ad (x + 32)) s = Inr s'" "heap_inv {x} s' C (xs @ ys)" "quiet s s'"
      "kept (\<Union>k\<in>set (xs @ x # ys). links k) (wds s) (wds s')" using unlink_inv [OF i] by auto
    have "data_kept (blocks C) (wds s) (wds s')" by (rule links_data [OF g s'(4)]) (simp only: fs order_refl)
    then have "found k x s C (xs @ x # ys) s' C (xs @ ys)" unfolding found_def using s' c k by auto
    then show ?thesis using can_split_iff [OF inv_reads(1) [OF i c(1)] cg kk] False s'(1) by auto
  qed
qed

lemma find_inv:
  assumes "heap_inv {} s C (xs @ zs)" "length zs < n" "16 dvd k" "16 \<le> k" "k < 2 ^ 63"
  shows "find_freelist n (ad k) (hdw zs 0) s = Inr (0, s) \<or>
    (\<exists>x s' C' fl'. 0 < x \<and> x < 2 ^ 63 \<and> find_freelist n (ad k) (hdw zs 0) s = Inr (ad x, s') \<and> found k x s C (xs @ zs) s' C' fl')"
  using assms(1,2)
proof (induction n arbitrary: xs zs)
  case (Suc n)
  show ?case
  proof (cases zs)
    case (Cons x ys)
    note i = Suc.prems(1) [unfolded Cons]
    obtain c where c: "C x = Some c" "\<not> cused c" using inv_free [OF i, of x] by auto
    note cg = inv_chunk_geo [OF i c(1)] and r = inv_reads [OF i c(1)]
    have x: "0 < x" "x < 2 ^ 63" "ad x \<noteq> 0" using chunk_al [OF cg] by (simp_all add: ad_0_iff)
    have sz: "ad k \<le> chunk_size s (ad x) \<longleftrightarrow> k \<le> csz c" using r(1) c(2) chunk_al(11) [OF cg] assms(5) by (simp add: sw_False ad_le)
    show ?thesis
    proof (cases "k \<le> csz c")
      case True
      obtain s' C' fl' where f: "(if CAN_SPLIT_CHUNK s (ad x) (ad k) then ld_malloc_chunk_split (ad x) (ad k) s
        else rbind (ld_malloc_freelist_unlink (CHUNK_TO_USER (ad x)) s) (\<lambda>s. Inr (ad x, s))) = Inr (ad x, s')" "found k x s C (xs @ zs) s' C' fl'"
        using take_found [OF i c assms(3,4) True] Cons by blast
      have "find_freelist (Suc n) (ad k) (hdw zs 0) s = Inr (ad x, s')" using f(1) x sz True by (simp add: Cons)
      then show ?thesis using x f(2) by blast
    next
      case False
      have "dll (wds s) 0 (xs @ x # ys) 0" using i by (simp add: heap_inv_def)
      then have nx: "free_next s (ad (x + 32)) = hdw ys 0" using chunk_al [OF cg] by (simp add: dll_append field_reads)
      have "find_freelist (Suc n) (ad k) (hdw zs 0) s = find_freelist n (ad k) (hdw ys 0) s"
        using x sz False r by (simp add: Cons ld_check_def nx)
      then show ?thesis using Suc.IH [of "xs @ [x]" ys] Suc.prems by (simp add: Cons)
    qed
  qed simp
qed simp

section \<open>A new arena\<close>

text \<open>What stays apart from the words, the free list and the history.\<close>

definition calm :: "'z ldm_scheme \<Rightarrow> 'z ldm_scheme \<Rightarrow> bool" where
  "calm s s' \<longleftrightarrow> ld_malloc_header_canary s' = ld_malloc_header_canary s \<and> ld_malloc_footer_canary s' = ld_malloc_footer_canary s \<and>
     ld_malloc_initialized s' = ld_malloc_initialized s \<and> ld_malloc_lock s' = ld_malloc_lock s \<and> sud_selector s' = sud_selector s"

lemma quiet_calm: "quiet s s' \<Longrightarrow> calm s s'"
  by (simp add: quiet_def calm_def)

lemma calm_trans: "calm s s1 \<Longrightarrow> calm s1 s2 \<Longrightarrow> calm s s2"
  by (simp add: calm_def)

lemma inv_cong:
  assumes i: "heap_inv X s C fl" and c: "calm s s'" "ld_malloc_freelist_head s' = ld_malloc_freelist_head s"
    and w: "\<And>h c a. C h = Some c \<Longrightarrow> h \<le> a \<Longrightarrow> a < cend h c \<Longrightarrow> wds s' a = wds s a"
  shows "heap_inv X s' C fl"
proof -
  have sz: "16 \<le> csz d" if "C j = Some d" for j d using inv_chunk_geo [OF i that] by (simp add: chunk_geo_def)
  have "hdr_ok (wds s') (ld_malloc_header_canary s') (ld_malloc_footer_canary s') j d" if "C j = Some d" for j d
    using inv_hdr [OF i that] c w [OF that] sz [OF that] by (simp add: hdr_ok_def calm_def cend_def)
  moreover have "dll (wds s') 0 fl 0 = dll (wds s) 0 fl 0"
  proof (rule dll_cong)
    fix j assume "j \<in> set fl"
    then obtain d where d: "C j = Some d" using inv_free [OF i] by blast
    show "wds s' (j + 32) = wds s (j + 32) \<and> wds s' (j + 40) = wds s (j + 40)" using w [OF d] sz [OF d] by (simp add: cend_def)
  qed
  ultimately show ?thesis using i c(2) by (simp add: heap_inv_def)
qed

definition arena_len :: "nat \<Rightarrow> nat" where
  "arena_len k = 4096 * ((k + 48 + 4095) div 4096)"

text \<open>The kernel answers a request for a new arena with an error or with pages that overlap no chunk.\<close>

definition fresh :: "chunks \<Rightarrow> nat \<Rightarrow> nat \<Rightarrow> bool" where
  "fresh C b len \<longleftrightarrow> 0 < b \<and> 4096 dvd b \<and> b + len \<le> 2 ^ 63 \<and> (\<forall>h c. C h = Some c \<longrightarrow> cend h c \<le> b \<or> b + len \<le> h)"

definition mmap_answer :: "env \<Rightarrow> 'z ldm_scheme \<Rightarrow> nat \<Rightarrow> u64" where
  "mmap_answer E s len = kernel E (SCall Inline (sud_selector s) NR_mmap 0 (ad len) 3 0x22 (- 1) 0 # trace s)"

definition mmap_ok :: "env \<Rightarrow> 'z ldm_scheme \<Rightarrow> chunks \<Rightarrow> nat \<Rightarrow> bool" where
  "mmap_ok E s C len \<longleftrightarrow> mmap_answer E s len > - 4096 \<or> (\<exists>b. mmap_answer E s len = ad b \<and> fresh C b len)"

lemma mmap_size_ad: "16 dvd k \<Longrightarrow> k \<le> 2 ^ 62 \<Longrightarrow> (SIZE_FOR_USERSIZE (ad k) + 4095) AND NOT 4095 = ad (arena_len k)"
proof -
  assume k: "16 dvd k" "k \<le> 2 ^ 62"
  have "ad (k + 48 + 4095) mod 4096 = ad ((k + 48 + 4095) mod 4096)"
    by (rule word_unat_eq_iff [THEN iffD2]) (use k in \<open>simp add: unat_mod\<close>)
  then have "ad (k + 48 + 4095) AND NOT 4095 = ad (arena_len k)"
    unfolding and_not_4095 arena_len_def by (simp only: ad_minus mod_less_eq_dividend minus_mod_eq_mult_div)
  then show ?thesis using k by (simp add: size_for_16) (simp add: ad_def ac_simps)
qed

lemma arena_len_bounds: "k + 48 \<le> arena_len k" "arena_len k < k + 48 + 4096" "4096 dvd arena_len k"
  using mult_div_mod_eq [of 4096 "k + 48 + 4095"] mod_less_divisor [of 4096 "k + 48 + 4095"] unfolding arena_len_def by linarith+ simp

lemma ld_mmap_cases:
  assumes "mmap_ok E s C len" "8 dvd len" "len < 2 ^ 63"
  obtains (failed) s' where "ld_mmap E (ad len) s = (- 1, s')" "wds s' = wds s" "calm s s'" "ld_malloc_freelist_head s' = ld_malloc_freelist_head s"
  | (mapped) b s' where "ld_mmap E (ad len) s = (ad b, s')" "fresh C b len" "ad b \<noteq> - 1" "calm s s'" "ld_malloc_freelist_head s' = ld_malloc_freelist_head s"
    "\<And>a. a < b \<or> b + len \<le> a \<Longrightarrow> wds s' a = wds s a"
proof (cases "mmap_answer E s len > - 4096")
  case True
  define t where "t = SCall Inline (sud_selector s) NR_mmap 0 (ad len) 3 0x22 (- 1) 0 # trace s"
  have "ld_mmap E (ad len) s = (- 1, s\<lparr>trace := t\<rparr>)" using True by (simp add: ld_mmap_def issue_def mmap_answer_def t_def Let_def)
  then show ?thesis by (rule failed) (simp_all add: wds_def rd_def calm_def fun_eq_iff)
next
  case False
  then obtain b where b: "mmap_answer E s len = ad b" "fresh C b len" using assms(1) by (auto simp: mmap_ok_def)
  define t where "t = SCall Inline (sud_selector s) NR_mmap 0 (ad len) 3 0x22 (- 1) 0 # trace s"
  define s' where "s' = s\<lparr>trace := t, heap := (\<lambda>x. if x - ad b < ad len then memory E t x else heap s x)\<rparr>"
  have bb: "b + len \<le> 2 ^ 63" "8 dvd b" using b(2) by (auto simp: fresh_def intro: dvd_trans [of 8 4096])
  have "ld_mmap E (ad len) s = (ad b, s')" using False b
    unfolding s'_def t_def by (simp add: ld_mmap_def issue_def mmap_answer_def Let_def mem_at_def cong: if_cong)
  moreover have "ad b \<noteq> - 1"
  proof
    assume "ad b = - 1"
    then have "unat (ad b) = 2 ^ 64 - 1" by (simp add: unat_minus_one_64)
    with bb(1) show False by simp
  qed
  moreover have "wds s' a = wds s a" if a: "a < b \<or> b + len \<le> a" for a
  proof (cases "al a")
    case True
    have "heap s' (ad a + of_nat i) = heap s (ad a + of_nat i)" if "i < 8" for i
    proof -
      have "a + i < b \<or> b + len \<le> a + i" using a True bb(2) \<open>i < 8\<close> unfolding al_def by presburger
      moreover obtain q where "a = 8 * q" "8 * q < 2 ^ 64" using True by (auto simp: al_def)
      then have "a + i < 2 ^ 64" using \<open>i < 8\<close> by simp
      ultimately have "\<not> ad (a + i) - ad b < ad len" using bb assms(3) by (auto simp: word_less_nat_alt unat_ad_minus)
      then show ?thesis by (simp add: s'_def ad_def)
    qed
    then have "load64 (heap s') (ad a) = load64 (heap s) (ad a)" by (rule load64_cong)
    then show ?thesis by (simp add: wds_def rd_def)
  qed (simp add: wds_def)
  ultimately show ?thesis using b(2) by (intro mapped [of b s']) (simp_all add: s'_def calm_def)
qed

text \<open>The one chunk of a new arena.\<close>

definition arena_chunk :: "nat \<Rightarrow> nat \<Rightarrow> cinfo" where
  "arena_chunk b len = \<lparr>csz = len - 48, cused = True, cbase = b, casz = len\<rparr>"

definition arena_put :: "nat \<Rightarrow> nat \<Rightarrow> 'z ldm_scheme \<Rightarrow> 'z ldm_scheme" where
  "arena_put b len s = mark b (len - 48) True (put_arena (ad b) (aw len True True) s)"

lemma arena_geo: "fresh C b len \<Longrightarrow> 4096 dvd len \<Longrightarrow> 64 \<le> len \<Longrightarrow> chunk_geo b (arena_chunk b len)"
  by (auto simp: fresh_def chunk_geo_def arena_chunk_def cend_def ctop_def intro!: dvd_diff_nat intro: dvd_trans [of 16 4096])

lemma arena_put_inv:
  assumes i: "heap_inv {} s C fl" and f: "fresh C b len" "4096 dvd len" "64 \<le> len"
  shows "heap_inv {} (arena_put b len s) (C(b \<mapsto> arena_chunk b len)) fl" "quiet s (arena_put b len s)"
    "data_kept (blocks C) (wds s) (wds (arena_put b len s))" "C b = None"
proof -
  let ?c = "arena_chunk b len" and ?s = "arena_put b len s"
  note cg = arena_geo [OF f]
  have c: "csz ?c = len - 48" "cused ?c" "cbase ?c = b" "casz ?c = len" "cend b ?c = b + len" "ctop ?c = b + len"
    using f(3) by (simp_all add: arena_chunk_def cend_def ctop_def)
  have out: "cend j d \<le> b \<or> b + len \<le> j" if "C j = Some d" for j d using f(1) that by (simp add: fresh_def)
  show nb: "C b = None" using out [of b] f(3) by (cases "C b") (auto simp: cend_def)
  show q: "quiet s ?s" by (simp add: arena_put_def mark_def)
  have M: "wds ?s = (wds s)(b + 8 := aw len True True, b := sw (len - 48) True, b + 24 := ld_malloc_header_canary s XOR sw (len - 48) True,
      b + 40 + (len - 48) := sw (len - 48) True, b + 32 + (len - 48) := ld_malloc_footer_canary s XOR sw (len - 48) True)"
    using chunk_al(2) [OF cg] by (simp add: arena_put_def mark_words [OF cg, unfolded c(1)] put_words)
  have k: "kept {b..<b + len} (wds s) (wds ?s)" unfolding M using f(3) by (intro kept_upd kept_refl) auto
  have "hdr_ok (wds ?s) (ld_malloc_header_canary ?s) (ld_malloc_footer_canary ?s) j d" if j: "(C(b \<mapsto> ?c)) j = Some d" for j d
  proof (cases "j = b")
    case True
    then have d: "d = ?c" using j by simp
    show ?thesis unfolding True d hdr_ok_def M using q by (simp add: c quiet_def)
  next
    case False
    then show ?thesis using j out [of j d] by (intro inv_beside(1) [OF i q k]) auto
  qed
  moreover have "dll (wds ?s) 0 fl 0 = dll (wds s) 0 fl 0" by (rule inv_beside(2) [OF i q k]) (metis inv_free [OF i] out)
  moreover have "geo (C(b \<mapsto> ?c))" by (rule geo_arena [OF inv_geo [OF i] cg]) (simp_all add: c out)
  moreover have "free_set (C(b \<mapsto> ?c)) = free_set C" using nb by (auto simp: free_set_def c)
  moreover have "ld_malloc_freelist_head ?s = ld_malloc_freelist_head s" by (simp add: arena_put_def mark_def)
  ultimately show "heap_inv {} ?s (C(b \<mapsto> ?c)) fl" using i by (simp add: heap_inv_def)
  show "data_kept (blocks C) (wds s) (wds ?s)"
  proof (rule data_kept_kept [OF k])
    fix h k a assume h: "blocks C h = Some k" "h + 32 \<le> a" "a < h + 32 + k"
    then obtain d where "C h = Some d" "csz d = k" by (auto simp: blocks_Some)
    with h out [of h d] show "a \<notin> {b..<b + len}" by (auto simp: cend_def)
  qed
qed

text \<open>The outcome of \<open>new_arena\<close> when the kernel has given memory.\<close>

definition arena_made :: "nat \<Rightarrow> nat \<Rightarrow> u64 \<Rightarrow> 'z ldm_scheme \<Rightarrow> chunks \<Rightarrow> nat list \<Rightarrow> 'z ldm_scheme \<Rightarrow> chunks \<Rightarrow> nat list \<Rightarrow> bool" where
  "arena_made k b w s C fl s' C' fl' \<longleftrightarrow> heap_inv {} s' C' fl' \<and> (\<exists>c u. C' b = Some c \<and> cused c \<and> k \<le> csz c \<and> w = sw (csz c) u \<and>
     blocks C' = (blocks C)(b \<mapsto> csz c)) \<and> blocks C b = None \<and> calm s s' \<and> data_kept (blocks C) (wds s) (wds s') \<and> length fl' \<le> Suc (length fl)"

lemma arena_split_made:
  assumes i: "heap_inv {} s C fl" and f: "fresh C b len" "4096 dvd len" and k: "16 dvd k" "16 \<le> k" "k + 48 \<le> len"
  defines "s1 \<equiv> arena_put b len s"
  shows "\<exists>w s' C' fl'. (if CAN_SPLIT_CHUNK s1 (ad b) (ad k)
      then rbind (ld_malloc_chunk_split (ad b) (ad k) s1) (\<lambda>(rest, s). rbind (ld_malloc_freelist_link rest s) (\<lambda>s. Inr (Some (ad b), ad k, s)))
      else Inr (Some (ad b), sw (len - 48) True, s1)) = Inr (Some (ad b), w, s') \<and> arena_made k b w s C fl s' C' fl'"
proof -
  have l: "64 \<le> len" using k by simp
  let ?c = "arena_chunk b len" and ?C = "C(b \<mapsto> arena_chunk b len)"
  note p = arena_put_inv [OF i f l, folded s1_def] and cg = arena_geo [OF f l]
  have c: "?C b = Some ?c" "csz ?c = len - 48" "cused ?c" by (simp_all add: arena_chunk_def)
  have kk: "k < 2 ^ 63" using f(1) k(3) by (simp add: fresh_def)
  have b1: "blocks C b = None" "blocks ?C = (blocks C)(b \<mapsto> len - 48)" using p(4) c by (simp_all add: blocks_upd)
  show ?thesis
  proof (cases "k + 64 \<le> csz ?c")
    case True
    let ?y = "b + 48 + k" and ?s = "split_put b k ?c s1" and ?C2 = "split_chunks ?C b k ?c"
    note q = split_put_inv [OF p(1) c(1) k(1,2) True]
    have ne: "?y \<notin> {}" by simp
    obtain s' where s': "ld_malloc_freelist_link (ad ?y) ?s = Inr s'" "heap_inv {} s' ?C2 (?y # fl)" "quiet ?s s'"
      "kept (\<Union>k\<in>set (?y # fl). links k) (wds ?s) (wds s')" using link_inv [OF q(1) ne] by (elim exE conjE) (rule that)
    have ny: "?C ?y = None" by (rule split_new [OF inv_geo [OF p(1)] c(1) True])
    then have b2: "blocks ?C2 = (blocks C)(b \<mapsto> k)" using c b1(1) by (auto simp: blocks_upd fun_eq_iff)
    have "set (?y # fl) \<subseteq> free_set ?C2" using s'(2) by (auto simp: heap_inv_def)
    from links_data [OF inv_geo [OF q(1)] s'(4) this] have "data_kept (blocks C) (wds ?s) (wds s')"
      unfolding b2 by (rule data_kept_mono) (use b1(1) in \<open>auto simp: map_le_def\<close>)
    moreover have "data_kept (blocks C) (wds s1) (wds ?s)"
      using chunk_data [OF inv_geo [OF p(1)] c(1) split_put_ok(3) [OF cg k(1,2) True], unfolded b1(2)] b1(1) by (simp add: fun_upd_idem)
    ultimately have "data_kept (blocks C) (wds s) (wds s')" using p(3) data_kept_trans by blast
    moreover have "quiet s1 ?s" by (simp add: split_put_def)
    then have "calm s s'" using p(2) s'(3) by (intro quiet_calm) (blast intro: quiet_trans)
    moreover have "?C2 b = Some (?c\<lparr>csz := k, cused := cused ?c\<rparr>)" by simp
    ultimately have "arena_made k b (ad k) s C fl s' ?C2 (?y # fl)"
      unfolding arena_made_def using s'(2) b1 b2 c by (auto intro!: exI [of _ False] simp: sw_False)
    moreover have "ld_malloc_chunk_split (ad b) (ad k) s1 = Inr (ad ?y, ?s)" using chunk_split_code [OF p(1) c(1) k(1,2) True] c(3) by simp
    ultimately show ?thesis using can_split_iff [OF inv_reads(1) [OF p(1) c(1)] cg kk] True s'(1) by auto
  next
    case False
    have "arena_made k b (sw (len - 48) True) s C fl s1 ?C fl"
      unfolding arena_made_def using p b1 c k(3) quiet_calm by auto
    then show ?thesis using can_split_iff [OF inv_reads(1) [OF p(1) c(1)] cg kk] False by auto
  qed
qed

lemma new_arena_inv:
  assumes i: "heap_inv {} s C fl" and k: "16 dvd k" "16 \<le> k" "k \<le> 2 ^ 62" and m: "mmap_ok E s C (arena_len k)"
  shows "(\<exists>s'. new_arena E (ad k) s = Inr (None, ad k, s') \<and> heap_inv {} s' C fl \<and> wds s' = wds s \<and> calm s s') \<or>
    (\<exists>b w s' C' fl'. new_arena E (ad k) s = Inr (Some (ad b), w, s') \<and> arena_made k b w s C fl s' C' fl')"
proof -
  let ?len = "arena_len k"
  note code = new_arena_def mmap_size_ad [OF k(1,3)] Let_def
  note l = arena_len_bounds [of k]
  have len: "8 dvd ?len" "?len < 2 ^ 63" using l k by (auto intro: dvd_trans [of 8 4096])
  from m len show ?thesis
  proof (cases rule: ld_mmap_cases)
    case (failed s')
    have "heap_inv {} s' C fl" by (rule inv_cong [OF i failed(3,4)]) (simp add: failed(2))
    then show ?thesis unfolding code using failed by auto
  next
    case (mapped b s1)
    have out: "wds s1 a = wds s a" if "C h = Some c" "h \<le> a" "a < cend h c" for h c a
      using mapped(2,6) that by (force simp: fresh_def)
    have i1: "heap_inv {} s1 C fl" by (rule inv_cong [OF i mapped(4,5) out])
    have d1: "data_kept (blocks C) (wds s) (wds s1)" using out by (auto simp: data_kept_def blocks_Some cend_def)
    have l48: "64 \<le> ?len" "4 dvd ?len - 48" "4 dvd ?len" using l k by (auto intro!: dvd_diff_nat intro: dvd_trans [of 4 4096])
    have al: "al b" "al (b + 24)" "al (b + 8)" using chunk_al [OF arena_geo [OF mapped(2) l(3) l48(1)]] by simp_all
    have new_size: "USERSIZE_FOR_SIZE (ad ?len) OR 1 = sw (?len - 48) True" using l48 by (simp add: USERSIZE_FOR_SIZE_def ad_minus sw_simps)
    have put: "put_footer (CHUNK_TO_FOOTER (put_header (ad b) (sw (?len - 48) True) t) (ad b)) (sw (?len - 48) True)
        (put_header (ad b) (sw (?len - 48) True) t) = mark b (?len - 48) True t" for t
      using al l48 by (simp add: put_header_reads mark_def)
    have "new_arena E (ad k) s = (if CAN_SPLIT_CHUNK (arena_put b ?len s1) (ad b) (ad k)
      then rbind (ld_malloc_chunk_split (ad b) (ad k) (arena_put b ?len s1))
             (\<lambda>(rest, s). rbind (ld_malloc_freelist_link rest s) (\<lambda>s. Inr (Some (ad b), ad k, s)))
      else Inr (Some (ad b), sw (?len - 48) True, arena_put b ?len s1))"
      unfolding code mapped(1) prod.case new_size aw_simps(6) [OF l48(3)] put arena_put_def using mapped(3) by (simp only: if_False)
    with arena_split_made [OF i1 mapped(2) l(3) k(1,2) l(1)] obtain w s' C' fl' where
      s': "new_arena E (ad k) s = Inr (Some (ad b), w, s')" "arena_made k b w s1 C fl s' C' fl'" by (elim exE conjE) simp
    then have "arena_made k b w s C fl s' C' fl'" using d1 mapped(4) unfolding arena_made_def by (blast intro: data_kept_trans calm_trans)
    then show ?thesis using s'(1) by blast
  qed
qed

section \<open>Allocation\<close>

definition malloc_result :: "nat \<Rightarrow> addr \<Rightarrow> (nat \<rightharpoonup> nat) \<Rightarrow> (nat \<rightharpoonup> nat) \<Rightarrow> bool" where
  "malloc_result k p B B' \<longleftrightarrow> (p = 0 \<and> B' = B) \<or> (\<exists>h sz. p = ad (h + 32) \<and> k \<le> sz \<and> B h = None \<and> B' = B(h \<mapsto> sz))"

lemma malloc_inv:
  assumes i: "heap_inv {} s C fl" "ld_malloc_initialized s" "length fl < n" and k: "0 < k" "k \<le> 2 ^ 61"
    and m: "mmap_ok E s C (arena_len (16 * ((k + 15) div 16)))"
  shows "\<exists>p s' C' fl'. ld_malloc_unlocked E A n (ad k) s = Inr (p, s') \<and> heap_inv {} s' C' fl' \<and> malloc_result k p (blocks C) (blocks C') \<and>
    calm s s' \<and> data_kept (blocks C) (wds s) (wds s') \<and> length fl' \<le> Suc (length fl)"
proof -
  define r where "r = 16 * ((k + 15) div 16)"
  have r: "16 dvd r" "16 \<le> r" "k \<le> r" "r \<le> 2 ^ 62" unfolding r_def using k by auto
  have al: "ALIGN_SIZE (ad k) = ad r" unfolding r_def using k by (intro align_ad) simp
  have k0: "ad k \<noteq> 0" using k by (simp add: ad_0_iff)
  have hd: "ld_malloc_freelist_head s = hdw fl 0" using i(1) by (simp add: heap_inv_def)
  note code = ld_malloc_unlocked_def ld_ensure_init_def ld_malloc_find_freelist_def
  have r63: "r < 2 ^ 63" using r by simp
  consider (none) "find_freelist n (ad r) (hdw fl 0) s = Inr (0, s)"
    | (some) x s1 C1 fl1 where "0 < x" "x < 2 ^ 63" "find_freelist n (ad r) (hdw fl 0) s = Inr (ad x, s1)" "found r x s C fl s1 C1 fl1"
    using find_inv [of s C "[]" fl n r] i(1,3) r r63 by auto
  then show ?thesis
  proof cases
    case none
    have e: "ld_malloc_unlocked E A n (ad k) s = rbind (new_arena E (ad r) s)
      (\<lambda>(new_chunk, sz, s). case new_chunk of None \<Rightarrow> Inr (0, s) | Some c \<Rightarrow> finish_malloc c sz s)"
      using none i(2) k0 by (simp add: code al hd)
    from new_arena_inv [OF i(1) r(1,2,4) m [folded r_def]] show ?thesis
    proof (elim disjE exE conjE)
      fix s' assume "new_arena E (ad r) s = Inr (None, ad r, s')" "heap_inv {} s' C fl" "wds s' = wds s" "calm s s'"
      then show ?thesis by (intro exI [of _ 0] exI [of _ s'] exI [of _ C] exI [of _ fl]) (simp add: e malloc_result_def)
    next
      fix b w s1 C1 fl1 assume s1: "new_arena E (ad r) s = Inr (Some (ad b), w, s1)" "arena_made r b w s C fl s1 C1 fl1"
      then obtain c u where c: "C1 b = Some c" "cused c" "r \<le> csz c" "w = sw (csz c) u" "blocks C1 = (blocks C)(b \<mapsto> csz c)"
        and a: "heap_inv {} s1 C1 fl1" "blocks C b = None" "calm s s1" "data_kept (blocks C) (wds s) (wds s1)" "length fl1 \<le> Suc (length fl)"
        unfolding arena_made_def by blast
      have nb: "b \<notin> set fl1" using inv_free [OF a(1)] c(1,2) by force
      note mk = mark_inv [OF a(1) c(1) nb, where X' = "{}" and u = True, simplified]
      have "data_kept (blocks C) (wds s1) (wds (mark b (csz c) True s1))"
        by (rule data_kept_mono [OF mk(3)]) (use a(2) c(5) in \<open>auto simp: map_le_def\<close>)
      moreover have "ld_malloc_unlocked E A n (ad k) s = Inr (ad (b + 32), mark b (csz c) True s1)"
        using s1(1) c(4) finish_code [OF inv_chunk_geo [OF a(1) c(1)]] by (simp add: e)
      moreover have "malloc_result k (ad (b + 32)) (blocks C) (blocks (C1(b \<mapsto> c\<lparr>cused := True\<rparr>)))"
        unfolding malloc_result_def using c a(2) r(3) by (intro disjI2 exI [of _ b] exI [of _ "csz c"]) (simp add: blocks_upd)
      ultimately show ?thesis using mk(1) a mk(2) by (blast intro: data_kept_trans calm_trans quiet_calm)
    qed
  next
    case some
    then obtain c where c: "C1 x = Some c" "\<not> cused c" "r \<le> csz c"
      and f: "heap_inv {x} s1 C1 fl1" "blocks C1 = blocks C" "quiet s s1" "data_kept (blocks C) (wds s) (wds s1)" "length fl1 \<le> length fl"
      unfolding found_def by blast
    have nx: "x \<notin> set fl1" using f(1) by (auto simp: heap_inv_def)
    note mk = mark_inv [OF f(1) c(1) nx, where X' = "{}" and u = True, simplified]
    have "chunk_size s1 (ad x) = sw (csz c) (cused c)" by (rule inv_reads(1) [OF f(1) c(1)])
    then have "ld_malloc_unlocked E A n (ad k) s = Inr (ad (x + 32), mark x (csz c) True s1)"
      using some(1-3) i(2) k0 finish_code [OF inv_chunk_geo [OF f(1) c(1)]] by (simp add: code al hd ad_0_iff)
    moreover have "malloc_result k (ad (x + 32)) (blocks C) (blocks (C1(x \<mapsto> c\<lparr>cused := True\<rparr>)))"
      unfolding malloc_result_def using c f(2) r(3) blocks_simps(2) [of C1 x c] by (intro disjI2 exI [of _ x] exI [of _ "csz c"]) (simp add: blocks_upd)
    moreover have "calm s (mark x (csz c) True s1)" using f(3) mk(2) by (intro quiet_calm) (rule quiet_trans)
    moreover have "data_kept (blocks C) (wds s) (wds (mark x (csz c) True s1))" using f(2,4) mk(3) by (metis data_kept_trans)
    ultimately show ?thesis using mk(1) f(5) by (meson le_SucI)
  qed
qed

end
