(* ===== verification/LdMallocFree.thy ===== *)
theory LdMallocFree
  imports LdMallocAlloc
begin

text \<open>
  Releasing a block keeps the invariant of the heap. While the freed chunk is joined with its neighbours the header of the first of
  them is not right yet; everything else is.
\<close>

definition almost :: "nat \<Rightarrow> nat set \<Rightarrow> 'z ldm_scheme \<Rightarrow> chunks \<Rightarrow> nat list \<Rightarrow> bool" where
  "almost lo X s C fl \<longleftrightarrow> flist s C fl \<and> set fl \<inter> X = {} \<and> set fl \<union> X = free_set C \<and>
     (\<forall>j d. C j = Some d \<longrightarrow> j \<noteq> lo \<longrightarrow> hdr_ok (wds s) (ld_malloc_header_canary s) (ld_malloc_footer_canary s) j d) \<and>
     (\<forall>c. C lo = Some c \<longrightarrow> (\<exists>e. wds s (lo + 8) = aw (casz c) (lo = cbase c) e \<and> (e \<longrightarrow> cend lo c = ctop c)))"

text \<open>The words of a chunk that its header, its footer and its links are made of.\<close>

definition meta_words :: "nat \<Rightarrow> cinfo \<Rightarrow> nat set" where
  "meta_words k c = {k, k + 8, k + 24, k + 32, k + 40, k + 32 + csz c, k + 40 + csz c}"

lemma meta_beside: "16 \<le> csz d \<Longrightarrow> cend j d \<le> lo \<or> hi \<le> j \<Longrightarrow> meta_words j d \<inter> {lo..<hi} = {}"
  by (auto simp: meta_words_def cend_def)

lemma flist_kept:
  assumes f: "flist s C fl" and k: "kept A (wds s) (wds s')" "quiet s s'" "ld_malloc_freelist_head s' = ld_malloc_freelist_head s"
    and g: "geo C'" "set fl \<subseteq> dom C'" and a: "\<And>k. k \<in> set fl \<Longrightarrow> k \<notin> A \<and> k + 24 \<notin> A \<and> k + 32 \<notin> A \<and> k + 40 \<notin> A"
  shows "flist s' C' fl"
proof -
  have w: "wds s' k = wds s k" "wds s' (k + 24) = wds s (k + 24)" "wds s' (k + 32) = wds s (k + 32)" "wds s' (k + 40) = wds s (k + 40)" if "k \<in> set fl" for k
    using a [OF that] k(1) by (simp_all add: kept_def)
  have "dll (wds s') 0 fl 0 = dll (wds s) 0 fl 0" using w by (intro dll_cong) simp
  then show ?thesis using f k(2,3) g w by (simp add: flist_def quiet_def)
qed

lemma hdr_ok_meta: "hdr_ok M hc fc h c \<Longrightarrow> kept A M M' \<Longrightarrow> meta_words h c \<inter> A = {} \<Longrightarrow> hdr_ok M' hc fc h c"
  by (erule (1) hdr_ok_kept) (auto simp: meta_words_def)

lemma foot_words:
  assumes "al (x + 32 + k)" "al (x + 40 + k)"
  shows "wds (zero_footer (ad (x + 32 + k)) s) = (wds s)(x + 40 + k := 0, x + 32 + k := 0)"
    "wds (put_footer (ad (x + 32 + k)) w s) = (wds s)(x + 40 + k := w, x + 32 + k := ld_malloc_footer_canary s XOR w)"
proof -
  have e: "x + 32 + k + 8 = x + 40 + k" by simp
  show "wds (zero_footer (ad (x + 32 + k)) s) = (wds s)(x + 40 + k := 0, x + 32 + k := 0)"
    "wds (put_footer (ad (x + 32 + k)) w s) = (wds s)(x + 40 + k := w, x + 32 + k := ld_malloc_footer_canary s XOR w)"
    using put_words(2,5) [of "x + 32 + k"] assms unfolding e by simp_all
qed

section \<open>The chunk before\<close>

lemma free_alone:
  assumes i: "heap_inv {} s C fl" and h: "C h = Some c" "cused c"
  shows "almost h {h} s (C(h \<mapsto> c\<lparr>cused := False\<rparr>)) fl"
proof -
  have nh: "h \<notin> set fl" using inv_free [OF i] h by force
  have dom: "set fl \<subseteq> dom C" using inv_dom [OF i] by simp
  have "flist s (C(h \<mapsto> c\<lparr>cused := False\<rparr>)) fl"
    by (rule flist_kept [OF inv_flist [OF i] kept_refl [of "{}"]]) (use geo_used [OF inv_geo [OF i] h(1)] dom in auto)
  moreover have "free_set (C(h \<mapsto> c\<lparr>cused := False\<rparr>)) = insert h (free_set C)" by (auto simp: free_set_def)
  moreover have "set fl = free_set C" using i by (simp add: heap_inv_def)
  ultimately show ?thesis using nh i inv_hdr [OF i h(1)] unfolding almost_def by (auto simp: heap_inv_def hdr_ok_def cend_def ctop_def)
qed

definition join_prev :: "nat \<Rightarrow> nat \<Rightarrow> 'z ldm_scheme \<Rightarrow> 'z ldm_scheme" where
  "join_prev pf h s = zero_header (ad h) (put_arena (ad h) 0 (zero_footer (ad pf) s))"

lemma free_join_prev:
  assumes i: "heap_inv {} s C fl" and h: "C h = Some c" "cused c" and p: "C p = Some d" "\<not> cused d" "cend p d = h" "same_arena c d"
  defines "s' \<equiv> join_prev (p + 32 + csz d) h s" and "d' \<equiv> d\<lparr>csz := csz d + 48 + csz c, cused := False\<rparr>"
  shows "almost p {} s' (C(h := None, p \<mapsto> d')) fl" "quiet s s'" "data_kept ((blocks C)(h := None)) (wds s) (wds s')"
    "blocks (C(h := None, p \<mapsto> d')) = (blocks C)(h := None)"
proof -
  let ?C = "C(h := None, p \<mapsto> d')" and ?A = "{p + 32 + csz d..<h + 32}"
  note g = inv_geo [OF i] and ag = chunk_al [OF inv_chunk_geo [OF i h(1)]] and pg = chunk_al [OF inv_chunk_geo [OF i p(1)]]
  have ph: "h = p + 48 + csz d" using p(3) by (simp add: cend_def)
  show q: "quiet s s'" by (simp add: s'_def join_prev_def)
  have M: "wds s' = (wds s)(p + 40 + csz d := 0, p + 32 + csz d := 0, h + 8 := 0, h := 0, h + 24 := 0)"
    using ag(1,2,3) pg(6,7) by (simp add: s'_def join_prev_def put_words foot_words)
  have k: "kept ?A (wds s) (wds s')" unfolding M using ph by (intro kept_upd kept_refl) auto
  have beside: "meta_words j e \<inter> ?A = {}" if "C j = Some e" "j \<noteq> p" "j \<noteq> h" for j e
    using geo_beside [OF g p(1) that(1,2)] geo_beside [OF g h(1) that(1,3)] inv_chunk_geo [OF i that(1)] ph
    by (intro meta_beside) (auto simp: chunk_geo_def cend_def)
  have nh: "h \<notin> set fl" using inv_free [OF i] h by force
  have geo': "geo ?C" using geo_merge [OF g p(1), of c False] h(1) p(3,4) by (simp add: d'_def same_arena_def)
  have "flist s' ?C fl"
  proof (rule flist_kept [OF inv_flist [OF i] k q _ geo'])
    show "set fl \<subseteq> dom ?C" using inv_dom [OF i] nh by auto
    show "j \<notin> ?A \<and> j + 24 \<notin> ?A \<and> j + 32 \<notin> ?A \<and> j + 40 \<notin> ?A" if j: "j \<in> set fl" for j
    proof (cases "j = p")
      case True
      then show ?thesis using pg(14) by simp
    next
      case False
      obtain e where e: "C j = Some e" using inv_free [OF i j] by blast
      then show ?thesis using beside [OF e False] j nh by (auto simp: meta_words_def)
    qed
  qed (simp add: s'_def join_prev_def)
  moreover have "free_set ?C = free_set C" using h p ph by (auto simp: free_set_def d'_def)
  moreover have "hdr_ok (wds s') (ld_malloc_header_canary s') (ld_malloc_footer_canary s') j e" if "?C j = Some e" "j \<noteq> p" for j e
  proof -
    have j: "C j = Some e" "j \<noteq> h" using that by (auto split: if_splits)
    have "hdr_ok (wds s') (ld_malloc_header_canary s) (ld_malloc_footer_canary s) j e"
      by (rule hdr_ok_meta [OF inv_hdr [OF i j(1)] k beside [OF j(1) that(2) j(2)]])
    then show ?thesis using q by (simp add: quiet_def)
  qed
  moreover have "wds s' (p + 8) = aw (casz d') (p = cbase d') False"
  proof -
    have "cend p d \<noteq> ctop d" using inv_chunk_geo [OF i h(1)] p(3,4) by (auto simp: chunk_geo_def cend_def ctop_def same_arena_def)
    then have "wds s (p + 8) = aw (casz d) (p = cbase d) False" using inv_hdr [OF i p(1)] by (simp add: hdr_ok_def)
    then show ?thesis using k pg(14) by (simp add: kept_def d'_def)
  qed
  ultimately show "almost p {} s' ?C fl" using i unfolding almost_def by (auto simp: heap_inv_def)
  show b: "blocks ?C = (blocks C)(h := None)" using p ph by (auto simp: blocks_upd fun_eq_iff d'_def)
  show "data_kept ((blocks C)(h := None)) (wds s) (wds s')"
  proof (rule data_kept_kept [OF k])
    fix j m a assume j: "((blocks C)(h := None)) j = Some m" "j + 32 \<le> a" "a < j + 32 + m"
    then obtain e where e: "C j = Some e" "cused e" "csz e = m" "j \<noteq> h" by (auto simp: blocks_Some split: if_splits)
    then have "j \<noteq> p" using p by auto
    then show "a \<notin> ?A" using geo_beside [OF g p(1) e(1)] geo_beside [OF g h(1) e(1,4)] j e ph by (auto simp: cend_def)
  qed
qed

lemma free_prev_almost:
  assumes i: "heap_inv {} s C fl" and h: "C h = Some c" "cused c"
  shows "\<exists>lo into c1 C1 s1. free_prev (ad h) (aw 0 (h = cbase c) (cend h c = ctop c)) s =
      Inr (ad lo, aw 0 (lo = cbase c1) (cend lo c1 = ctop c1), into, s1) \<and> almost lo (if into then {lo} else {}) s1 C1 fl \<and>
      C1 lo = Some c1 \<and> \<not> cused c1 \<and> cend lo c1 = cend h c \<and> blocks C1 = (blocks C)(h := None) \<and> quiet s s1 \<and> data_kept (blocks C1) (wds s) (wds s1)"
    (is "\<exists>lo into c1 C1 s1. ?P lo into c1 C1 s1")
proof -
  note g = inv_geo [OF i] and ag = chunk_al [OF inv_chunk_geo [OF i h(1)]]
  let ?fl = "aw 0 (h = cbase c) (cend h c = ctop c)"
  have alone: "?P h True (c\<lparr>cused := False\<rparr>) (C(h \<mapsto> c\<lparr>cused := False\<rparr>)) s" if "free_prev (ad h) ?fl s = Inr (ad h, ?fl, True, s)"
    using that free_alone [OF i h] by (simp add: blocks_upd cend_def ctop_def)
  show ?thesis
  proof (cases "h = cbase c")
    case True
    then have "free_prev (ad h) ?fl s = Inr (ad h, ?fl, True, s)" by (simp add: free_prev_def aw_flags)
    from alone [OF this] show ?thesis by blast
  next
    case False
    then have "cbase c < h" using inv_chunk_geo [OF i h(1)] by (simp add: chunk_geo_def)
    then obtain p d where p: "C p = Some d" "cend p d = h" "same_arena c d" using geo_prev [OF g h(1)] by blast
    note r = inv_reads [OF i p(1)] and pg = chunk_al [OF inv_chunk_geo [OF i p(1)]]
    have ph: "h = p + 48 + csz d" using p(2) by (simp add: cend_def)
    have pf: "PREV_FOOTER (ad h) = ad (p + 32 + csz d)" using ph by (simp add: PREV_FOOTER_def ad_def)
    have head: "FOOTER_TO_CHUNK s (ad (p + 32 + csz d)) = ad p"
      using pg by (simp add: FOOTER_TO_CHUNK_def USER_TO_CHUNK_def r sw_simps ad_minus)
    show ?thesis
    proof (cases "cused d")
      case True
      then have "free_prev (ad h) ?fl s = Inr (ad h, ?fl, True, s)" using False pg by (simp add: free_prev_def aw_flags pf r ld_check_def sw_simps Let_def)
      from alone [OF this] show ?thesis by blast
    next
      case prev: False
      let ?s = "join_prev (p + 32 + csz d) h s" and ?d = "d\<lparr>csz := csz d + 48 + csz c, cused := False\<rparr>"
      note j = free_join_prev [OF i h p(1) prev p(2,3)]
      have ends: "cend p ?d = cend h c" "ctop ?d = ctop c" "cbase ?d = cbase c" "cend p d \<noteq> ctop d"
        using ph p(3) inv_chunk_geo [OF i h(1)] p(2) by (auto simp: cend_def ctop_def same_arena_def chunk_geo_def)
      have "?fl OR (chunk_arena s (ad p) AND 3) = aw 0 (p = cbase c) (cend h c = ctop c)"
        using ends pg(13) False p(3) by (simp add: r aw_simps same_arena_def)
      then have "free_prev (ad h) ?fl s = Inr (ad p, aw 0 (p = cbase ?d) (cend p ?d = ctop ?d), False, ?s)"
        unfolding ends using False prev pg by (simp add: free_prev_def aw_flags pf r ld_check_def sw_simps Let_def head join_prev_def)
      then have "?P p False ?d (C(h := None, p \<mapsto> ?d)) ?s" using j ends(1) by simp
      then show ?thesis by blast
    qed
  qed
qed

section \<open>The chunk behind\<close>

lemma almost_facts:
  assumes "almost lo X s C fl"
  shows "geo C" "flist s C fl" "\<And>j d. C j = Some d \<Longrightarrow> j \<noteq> lo \<Longrightarrow> hdr_ok (wds s) (ld_malloc_header_canary s) (ld_malloc_footer_canary s) j d"
    "set fl \<inter> X = {}" "set fl \<union> X = free_set C" "\<And>j d. C j = Some d \<Longrightarrow> chunk_geo j d"
  using assms by (auto simp: almost_def flist_def geo_chunk)

definition join_next :: "nat \<Rightarrow> nat \<Rightarrow> 'z ldm_scheme \<Rightarrow> 'z ldm_scheme" where
  "join_next k f s = zero_footer (ad f) (zero_header (ad k) (put_arena (ad k) 0 s))"

lemma free_join_next:
  assumes f: "flist s C fl" and hd: "\<And>j e. C j = Some e \<Longrightarrow> j \<noteq> lo \<Longrightarrow> hdr_ok (wds s) (ld_malloc_header_canary s) (ld_malloc_footer_canary s) j e"
    and k: "k \<notin> set fl" "C k = Some d" "\<not> cused d" and lo: "C lo = Some c" "\<not> cused c" "cend lo c = k" "same_arena c d"
    and X: "set fl \<inter> X = {}" "set fl \<union> insert k X = free_set C" "k \<notin> X"
    and ar: "wds s (lo + 8) = aw (casz c) (lo = cbase c) e0" "e0 \<longrightarrow> cend lo c = ctop c"
  defines "s' \<equiv> join_next k (lo + 32 + csz c) s" and "c' \<equiv> c\<lparr>csz := csz c + 48 + csz d, cused := False\<rparr>"
  shows "almost lo X s' (C(k := None, lo \<mapsto> c')) fl" "quiet s s'" "data_kept (blocks C) (wds s) (wds s')" "blocks (C(k := None, lo \<mapsto> c')) = blocks C"
proof -
  let ?C = "C(k := None, lo \<mapsto> c')" and ?A = "{lo + 32 + csz c..<k + 32}"
  have g: "geo C" using f by (simp add: flist_def)
  note ag = chunk_al [OF geo_chunk [OF g k(2)]] and lg = chunk_al [OF geo_chunk [OF g lo(1)]]
  have kl: "k = lo + 48 + csz c" using lo(3) by (simp add: cend_def)
  show q: "quiet s s'" by (simp add: s'_def join_next_def)
  have M: "wds s' = (wds s)(k + 8 := 0, k := 0, k + 24 := 0, lo + 40 + csz c := 0, lo + 32 + csz c := 0)"
    using ag(1,2,3) lg(6,7) by (simp add: s'_def join_next_def put_words foot_words)
  have kp: "kept ?A (wds s) (wds s')" unfolding M using kl by (intro kept_upd kept_refl) auto
  have beside: "meta_words j e \<inter> ?A = {}" if "C j = Some e" "j \<noteq> lo" "j \<noteq> k" for j e
    using geo_beside [OF g lo(1) that(1,2)] geo_beside [OF g k(2) that(1,3)] geo_chunk [OF g that(1)] kl
    by (intro meta_beside) (auto simp: chunk_geo_def cend_def)
  have geo': "geo ?C" using geo_merge [OF g lo(1), of d False] k(2) lo(3,4) by (simp add: c'_def)
  have "flist s' ?C fl"
  proof (rule flist_kept [OF f kp q _ geo'])
    show "set fl \<subseteq> dom ?C" using f k(1) by (auto simp: flist_def)
    show "j \<notin> ?A \<and> j + 24 \<notin> ?A \<and> j + 32 \<notin> ?A \<and> j + 40 \<notin> ?A" if j: "j \<in> set fl" for j
    proof (cases "j = lo")
      case True
      then show ?thesis using lg(14) by simp
    next
      case False
      obtain e where e: "C j = Some e" using f j by (auto simp: flist_def)
      then show ?thesis using beside [OF e False] j k(1) by (auto simp: meta_words_def)
    qed
  qed (simp add: s'_def join_next_def)
  moreover have "free_set ?C = free_set C - {k}" using k lo kl by (auto simp: free_set_def c'_def)
  then have "set fl \<union> X = free_set ?C" using X k(1) by auto
  moreover have "hdr_ok (wds s') (ld_malloc_header_canary s') (ld_malloc_footer_canary s') j e" if "?C j = Some e" "j \<noteq> lo" for j e
  proof -
    have j: "C j = Some e" "j \<noteq> k" using that by (auto split: if_splits)
    have "hdr_ok (wds s') (ld_malloc_header_canary s) (ld_malloc_footer_canary s) j e"
      by (rule hdr_ok_meta [OF hd [OF j(1) that(2)] kp beside [OF j(1) that(2) j(2)]])
    then show ?thesis using q by (simp add: quiet_def)
  qed
  moreover have "\<not> e0" using ar(2) geo_chunk [OF g k(2)] lo(3,4) by (auto simp: chunk_geo_def cend_def ctop_def same_arena_def)
  then have "wds s' (lo + 8) = aw (casz c') (lo = cbase c') False" using kp ar(1) lg(14) by (simp add: kept_def c'_def)
  ultimately show "almost lo X s' ?C fl" using X(1) unfolding almost_def by auto
  show b: "blocks ?C = blocks C" using k lo kl by (auto simp: blocks_upd fun_eq_iff c'_def)
  show "data_kept (blocks C) (wds s) (wds s')"
  proof (rule data_kept_kept [OF kp])
    fix j m a assume j: "blocks C j = Some m" "j + 32 \<le> a" "a < j + 32 + m"
    then obtain e where e: "C j = Some e" "cused e" "csz e = m" by (auto simp: blocks_Some)
    then have "j \<noteq> lo" "j \<noteq> k" using k lo by auto
    then show "a \<notin> ?A" using geo_beside [OF g lo(1) e(1)] geo_beside [OF g k(2) e(1)] j e kl by (auto simp: cend_def)
  qed
qed

lemma free_next_almost:
  assumes i: "almost lo X s C fl" "X \<subseteq> {lo}" and lo: "C lo = Some c" "\<not> cused c"
  shows "\<exists>c2 C2 s2 fl2. free_next_chunk (ad (lo + 32 + csz c)) (aw 0 (lo = cbase c) (cend lo c = ctop c)) s =
      Inr (ad (lo + 32 + csz c2), aw 0 (lo = cbase c2) (cend lo c2 = ctop c2), s2) \<and> almost lo X s2 C2 fl2 \<and>
      C2 lo = Some c2 \<and> \<not> cused c2 \<and> blocks C2 = blocks C \<and> quiet s s2 \<and> data_kept (blocks C) (wds s) (wds s2) \<and> length fl2 \<le> length fl"
    (is "\<exists>c2 C2 s2 fl2. ?P c2 C2 s2 fl2")
proof -
  let ?fl = "aw 0 (lo = cbase c) (cend lo c = ctop c)" and ?f = "ad (lo + 32 + csz c)"
  note a = almost_facts [OF i(1)]
  have stop: "?P c C s fl" if "free_next_chunk ?f ?fl s = Inr (?f, ?fl, s)" using that i lo by simp
  show ?thesis
  proof (cases "cend lo c = ctop c")
    case True
    then have "free_next_chunk ?f ?fl s = Inr (?f, ?fl, s)" by (simp add: free_next_chunk_def aw_flags)
    from stop [OF this] show ?thesis by blast
  next
    case False
    then have "cend lo c < ctop c" using a(6) [OF lo(1)] by (simp add: chunk_geo_def)
    then obtain d where d: "C (cend lo c) = Some d" "same_arena c d" using geo_next [OF a(1) lo(1)] by blast
    let ?k = "cend lo c"
    have kl: "?k \<noteq> lo" by (simp add: cend_def)
    note hk = a(3) [OF d(1) kl] and r = hdr_reads [OF a(3) [OF d(1) kl] a(6) [OF d(1)]] and dg = chunk_al [OF a(6) [OF d(1)]]
    have nx: "FOOTER_TO_NEXT ?f = ad ?k" by (simp add: FOOTER_TO_NEXT_def cend_def ad_def)
    show ?thesis
    proof (cases "cused d")
      case True
      then have "free_next_chunk ?f ?fl s = Inr (?f, ?fl, s)" using False dg by (simp add: free_next_chunk_def aw_flags nx r ld_check_def sw_simps Let_def)
      from stop [OF this] show ?thesis by blast
    next
      case nextf: False
      then have "?k \<in> free_set C" using d(1) by (auto simp: free_set_def)
      then have kX: "?k \<in> set fl" "?k \<notin> X" using a(5) i(2) kl by auto
      then obtain xs ys where fl: "fl = xs @ ?k # ys" by (meson split_list)
      have dom: "set fl \<subseteq> dom C" using a(2) by (simp add: flist_def)
      obtain s1 where s1: "ld_malloc_freelist_unlink (ad (?k + 32)) s = Inr s1" "flist s1 C (xs @ ys)" "quiet s s1"
        "kept (\<Union>k\<in>set fl. links k) (wds s) (wds s1)" using unlink_flist [OF a(2) [unfolded fl]] fl by auto
      have h1: "hdr_ok (wds s1) (ld_malloc_header_canary s1) (ld_malloc_footer_canary s1) j e" if "C j = Some e" "j \<noteq> lo" for j e
        using hdr_ok_kept [OF a(3) [OF that] s1(4) links_spare_headers [OF a(1) that(1) dom]] s1(3) by (simp add: quiet_def)
      obtain e0 where e0: "wds s (lo + 8) = aw (casz c) (lo = cbase c) e0" "e0 \<longrightarrow> cend lo c = ctop c" using i(1) lo(1) by (auto simp: almost_def)
      have e1: "wds s1 (lo + 8) = aw (casz c) (lo = cbase c) e0" using e0(1) s1(4) links_spare_headers(2) [OF a(1) lo(1) dom] by (simp add: kept_def)
      have dist: "distinct fl" using a(2) by (simp add: flist_def)
      let ?c = "c\<lparr>csz := csz c + 48 + csz d, cused := False\<rparr>" and ?s = "join_next ?k (lo + 32 + csz c) s1"
      have j: "almost lo X ?s (C(?k := None, lo \<mapsto> ?c)) (xs @ ys)" "quiet s1 ?s" "data_kept (blocks C) (wds s1) (wds ?s)"
        "blocks (C(?k := None, lo \<mapsto> ?c)) = blocks C"
        using free_join_next [OF s1(2) h1 _ d(1) nextf lo refl d(2) _ _ kX(2) e1 e0(2)] a(4,5) dist unfolding fl by auto
      have ends: "lo + 32 + csz ?c = ?k + 32 + csz d" "cend lo ?c = cend ?k d" "ctop ?c = ctop c" "cbase ?c = cbase c" "ctop d = ctop c" "?k \<noteq> cbase d"
        using d(2) a(6) [OF lo(1)] by (auto simp: cend_def ctop_def same_arena_def chunk_geo_def)
      have "?fl OR (chunk_arena s1 (ad ?k) AND 3) = aw 0 (lo = cbase c) (cend ?k d = ctop c)"
        using hdr_reads(2) [OF h1 [OF d(1) kl] a(6) [OF d(1)]] ends dg(13) False by (simp add: aw_simps)
      then have "free_next_chunk ?f ?fl s = Inr (ad (lo + 32 + csz ?c), aw 0 (lo = cbase ?c) (cend lo ?c = ctop ?c), ?s)"
        unfolding ends using False nextf dg s1(1) by (simp add: free_next_chunk_def aw_flags nx r ld_check_def sw_simps Let_def join_next_def)
      moreover have "data_kept (blocks C) (wds s) (wds s1)" by (rule links_data [OF a(1) s1(4)]) (use a(5) in auto)
      ultimately have "?P ?c (C(?k := None, lo \<mapsto> ?c)) ?s (xs @ ys)" using j s1(3) fl by (auto intro: quiet_trans data_kept_trans)
      then show ?thesis by blast
    qed
  qed
qed

section \<open>The joined chunk\<close>

lemma finish_put_inv:
  assumes i: "almost lo X s C fl" and lo: "C lo = Some c" "\<not> cused c"
  defines "s' \<equiv> mark lo (csz c) False (put_arena (ad lo) (aw (casz c) (lo = cbase c) (cend lo c = ctop c)) s)"
  shows "heap_inv X s' C fl" "quiet s s'" "data_kept (blocks C) (wds s) (wds s')"
proof -
  note a = almost_facts [OF i] and cg = almost_facts(6) [OF i lo(1)]
  note al = chunk_al [OF cg]
  have sz: "16 \<le> csz c" using cg by (simp add: chunk_geo_def)
  show q: "quiet s s'" by (simp add: s'_def mark_def)
  have M: "wds s' = (wds s)(lo + 8 := aw (casz c) (lo = cbase c) (cend lo c = ctop c), lo := sw (csz c) False, lo + 24 := ld_malloc_header_canary s XOR sw (csz c) False,
      lo + 40 + csz c := sw (csz c) False, lo + 32 + csz c := ld_malloc_footer_canary s XOR sw (csz c) False)"
    using al by (simp add: s'_def mark_words [OF cg] put_words)
  have k: "kept {lo..<cend lo c} (wds s) (wds s')" unfolding M by (intro kept_upd kept_refl) (auto simp: cend_def)
  have hdr: "hdr_ok (wds s') (ld_malloc_header_canary s') (ld_malloc_footer_canary s') j d" if "C j = Some d" for j d
  proof (cases "j = lo")
    case True
    then have "d = c" using that lo by simp
    then show ?thesis unfolding True hdr_ok_def M using lo(2) sz q by (simp add: quiet_def)
  next
    case False
    have "meta_words j d \<inter> {lo..<cend lo c} = {}"
      using a(6) [OF that] geo_beside [OF a(1) lo(1) that False] by (intro meta_beside) (auto simp: chunk_geo_def)
    from hdr_ok_meta [OF a(3) [OF that False] k this] show ?thesis using q by (simp add: quiet_def)
  qed
  have "dll (wds s') 0 fl 0 = dll (wds s) 0 fl 0"
  proof (rule dll_cong)
    fix j assume j: "j \<in> set fl"
    show "wds s' (j + 32) = wds s (j + 32) \<and> wds s' (j + 40) = wds s (j + 40)"
    proof (cases "j = lo")
      case True
      then show ?thesis unfolding M using sz by simp
    next
      case False
      obtain d where d: "C j = Some d" using a(2) j by (auto simp: flist_def)
      have "meta_words j d \<inter> {lo..<cend lo c} = {}"
        using a(6) [OF d] geo_beside [OF a(1) lo(1) d False] by (intro meta_beside) (auto simp: chunk_geo_def)
      then show ?thesis using k by (auto simp: kept_def meta_words_def)
    qed
  qed
  then show "heap_inv X s' C fl" using i hdr unfolding heap_inv_def almost_def flist_def by (auto simp: s'_def mark_def)
  show "data_kept (blocks C) (wds s) (wds s')" using chunk_data [OF a(1) lo(1) k] lo by (simp add: fun_upd_idem)
qed

lemma inv_drop:
  assumes i: "heap_inv {lo} s C fl" and lo: "C lo = Some c" "\<not> cused c" "lo = cbase c" "cend lo c = ctop c"
  shows "heap_inv {} (ld_munmap E a len s) (C(lo := None)) fl"
proof -
  have w: "wds (ld_munmap E a len s) = wds s" by (simp add: ld_munmap_def issue_def wds_def rd_def fun_eq_iff Let_def)
  have "free_set (C(lo := None)) = free_set C - {lo}" by (auto simp: free_set_def)
  moreover have "lo \<notin> set fl" using i by (auto simp: heap_inv_def)
  ultimately show ?thesis using i geo_drop [OF inv_geo [OF i] lo(1,3,4)] unfolding heap_inv_def w
    by (auto simp: ld_munmap_def issue_def Let_def)
qed

text \<open>What a release adds to the history: nothing, or the release of pages that hold no block.\<close>

definition unmaps_unused :: "'z ldm_scheme \<Rightarrow> 'z ldm_scheme \<Rightarrow> (nat \<rightharpoonup> nat) \<Rightarrow> bool" where
  "unmaps_unused s s' B \<longleftrightarrow> trace s' = trace s \<or>
     (\<exists>b len. trace s' = SCall Inline (sud_selector s) NR_munmap (ad b) (ad len) 0 0 0 0 # trace s \<and>
        (\<forall>j m. B j = Some m \<longrightarrow> j + 48 + m \<le> b \<or> b + len \<le> j))"

lemma finish_free_inv:
  assumes i: "almost lo (if into then {lo} else {}) s C fl" and lo: "C lo = Some c" "\<not> cused c"
  shows "\<exists>s' C' fl'. finish_free E (ad lo) (ad (lo + 32 + csz c)) (aw 0 (lo = cbase c) (cend lo c = ctop c)) into s = Inr s' \<and>
    heap_inv {} s' C' fl' \<and> blocks C' = blocks C \<and> calm s s' \<and> data_kept (blocks C) (wds s) (wds s') \<and> length fl' \<le> Suc (length fl) \<and>
    unmaps_unused s s' (blocks C)"
proof -
  let ?F = "aw 0 (lo = cbase c) (cend lo c = ctop c)"
  note a = almost_facts [OF i] and cg = almost_facts(6) [OF i lo(1)]
  note al = chunk_al [OF cg]
  define s1 where "s1 = mark lo (csz c) False (put_arena (ad lo) (aw (casz c) (lo = cbase c) (cend lo c = ctop c)) s)"
  note p = finish_put_inv [OF i lo, folded s1_def]
  obtain e where e: "wds s (lo + 8) = aw (casz c) (lo = cbase c) e" "e \<longrightarrow> cend lo c = ctop c" using i lo(1) by (auto simp: almost_def)
  have sz: "ad (lo + 32 + csz c) - CHUNK_TO_USER (ad lo) = sw (csz c) False" by (simp add: ad_minus sw_False)
  have ar: "chunk_arena s (ad lo) OR ?F = aw (casz c) (lo = cbase c) (cend lo c = ctop c)" using e al by (auto simp: field_reads aw_simps)
  have code: "finish_free E (ad lo) (ad (lo + 32 + csz c)) ?F into s =
    (if lo = cbase c \<and> cend lo c = ctop c
     then rbind (if \<not> into then ld_malloc_freelist_unlink (ad (lo + 32)) s1 else Inr s1) (\<lambda>s. Inr (ld_munmap E (ad lo) (ARENA_SIZE s (ad lo)) s))
     else if into then ld_malloc_freelist_link (ad lo) s1 else Inr s1)"
    unfolding finish_free_def Let_def sz ar by (simp only: aw_flags not_not to_user s1_def mark_def)
  have free: "lo \<in> free_set C" using lo by (auto simp: free_set_def)
  show ?thesis
  proof (cases "lo = cbase c \<and> cend lo c = ctop c")
    case True
    obtain s2 fl2 where s2: "(if \<not> into then ld_malloc_freelist_unlink (ad (lo + 32)) s1 else Inr s1) = Inr s2" "heap_inv {lo} s2 C fl2" "quiet s1 s2"
      "data_kept (blocks C) (wds s1) (wds s2)" "length fl2 \<le> length fl"
    proof (cases into)
      case True
      with p(1) show ?thesis by (intro that [of s1 fl]) auto
    next
      case False
      have "lo \<in> set fl" using free a(5) False by auto
      then obtain xs ys where fl: "fl = xs @ lo # ys" by (meson split_list)
      obtain s2 where s2: "ld_malloc_freelist_unlink (ad (lo + 32)) s1 = Inr s2" "heap_inv {lo} s2 C (xs @ ys)" "quiet s1 s2"
        "kept (\<Union>k\<in>set fl. links k) (wds s1) (wds s2)" using unlink_inv [OF p(1) [unfolded fl]] False fl by auto
      have "data_kept (blocks C) (wds s1) (wds s2)" by (rule links_data [OF a(1) s2(4)]) (use a(5) in auto)
      with s2 show ?thesis using False fl by (intro that [of s2 "xs @ ys"]) auto
    qed
    let ?s = "ld_munmap E (ad lo) (ad (casz c)) s2"
    have as: "ARENA_SIZE s2 (ad lo) = ad (casz c)" unfolding ARENA_SIZE_def inv_reads(2) [OF s2(2) lo(1)] by (rule aw_simps(4) [OF al(13)])
    have fin: "finish_free E (ad lo) (ad (lo + 32 + csz c)) ?F into s = Inr ?s" unfolding code if_P [OF True] s2(1) rbind_Inr as by (rule refl)
    have w: "wds ?s = wds s2" by (simp add: ld_munmap_def issue_def wds_def rd_def fun_eq_iff Let_def)
    have "calm s ?s" using p(2) s2(3) by (simp add: calm_def quiet_def ld_munmap_def issue_def Let_def)
    moreover have "blocks (C(lo := None)) = blocks C" using lo by (simp add: blocks_upd fun_upd_idem)
    moreover have "unmaps_unused s ?s (blocks C)"
    proof -
      have "trace ?s = SCall Inline (sud_selector s) NR_munmap (ad lo) (ad (casz c)) 0 0 0 0 # trace s"
        using p(2) s2(3) by (simp add: ld_munmap_def issue_def Let_def quiet_def)
      moreover have "j + 48 + m \<le> lo \<or> lo + casz c \<le> j" if j: "blocks C j = Some m" for j m
      proof -
        obtain d where d: "C j = Some d" "cused d" "csz d = m" using j by (auto simp: blocks_Some)
        then have "j \<noteq> lo" using lo by auto
        from geo_beside [OF a(1) lo(1) d(1) this] show ?thesis using True d by (auto simp: cend_def ctop_def)
      qed
      ultimately show ?thesis unfolding unmaps_unused_def by blast
    qed
    moreover have "heap_inv {} ?s (C(lo := None)) fl2" using inv_drop [OF s2(2) lo] True by blast
    moreover have "data_kept (blocks C) (wds s) (wds ?s)" unfolding w using p(3) s2(4) by (rule data_kept_trans)
    ultimately show ?thesis using fin s2(5) by (meson le_SucI)
  next
    case False
    show ?thesis
    proof (cases into)
      case True
      have ne: "lo \<notin> {}" and p1: "heap_inv {lo} s1 C fl" using p(1) True by simp_all
      obtain s2 where s2: "ld_malloc_freelist_link (ad lo) s1 = Inr s2" "heap_inv {} s2 C (lo # fl)" "quiet s1 s2"
        "kept (\<Union>k\<in>set (lo # fl). links k) (wds s1) (wds s2)" using link_inv [OF p1 ne] by blast
      have "data_kept (blocks C) (wds s1) (wds s2)" by (rule links_data [OF a(1) s2(4)]) (use free a(5) in auto)
      then show ?thesis using code False True s2 p(2,3)
        by (intro exI [of _ s2] exI [of _ C] exI [of _ "lo # fl"]) (auto simp: unmaps_unused_def quiet_def intro: data_kept_trans quiet_calm quiet_trans)
    next
      case into: False
      then show ?thesis using code False p quiet_calm [OF p(2)]
        by (intro exI [of _ s1] exI [of _ C] exI [of _ fl]) (auto simp: unmaps_unused_def quiet_def)
    qed
  qed
qed

section \<open>Release\<close>

lemma free_inv:
  assumes i: "heap_inv {} s C fl" "ld_malloc_initialized s" and h: "blocks C h = Some k"
  shows "\<exists>s' C' fl'. ld_free_unlocked E A (ad (h + 32)) s = Inr s' \<and> heap_inv {} s' C' fl' \<and> blocks C' = (blocks C)(h := None) \<and> calm s s' \<and>
    data_kept (blocks C') (wds s) (wds s') \<and> length fl' \<le> Suc (length fl) \<and> unmaps_unused s s' (blocks C')"
proof -
  obtain c where c: "C h = Some c" "cused c" using h by (auto simp: blocks_Some)
  note r = inv_reads [OF i(1) c(1)] and al = chunk_al [OF inv_chunk_geo [OF i(1) c(1)]]
  obtain lo into c1 C1 s1 where 1: "free_prev (ad h) (aw 0 (h = cbase c) (cend h c = ctop c)) s = Inr (ad lo, aw 0 (lo = cbase c1) (cend lo c1 = ctop c1), into, s1)"
    "almost lo (if into then {lo} else {}) s1 C1 fl" "C1 lo = Some c1" "\<not> cused c1" "cend lo c1 = cend h c" "blocks C1 = (blocks C)(h := None)" "quiet s s1"
    "data_kept (blocks C1) (wds s) (wds s1)" using free_prev_almost [OF i(1) c] by (elim exE conjE) (rule that)
  have sub: "(if into then {lo} else {}) \<subseteq> {lo}" by simp
  obtain c2 C2 s2 fl2 where 2: "free_next_chunk (ad (lo + 32 + csz c1)) (aw 0 (lo = cbase c1) (cend lo c1 = ctop c1)) s1 =
      Inr (ad (lo + 32 + csz c2), aw 0 (lo = cbase c2) (cend lo c2 = ctop c2), s2)" "almost lo (if into then {lo} else {}) s2 C2 fl2"
      "C2 lo = Some c2" "\<not> cused c2" "blocks C2 = blocks C1" "quiet s1 s2" "data_kept (blocks C1) (wds s1) (wds s2)" "length fl2 \<le> length fl"
    using free_next_almost [OF 1(2) sub 1(3,4)] by (elim exE conjE) (rule that)
  obtain s3 C3 fl3 where 3: "finish_free E (ad lo) (ad (lo + 32 + csz c2)) (aw 0 (lo = cbase c2) (cend lo c2 = ctop c2)) into s2 = Inr s3"
    "heap_inv {} s3 C3 fl3" "blocks C3 = blocks C2" "calm s2 s3" "data_kept (blocks C2) (wds s2) (wds s3)" "length fl3 \<le> Suc (length fl2)"
    "unmaps_unused s2 s3 (blocks C2)" using finish_free_inv [OF 2(2-4), of E] by (elim exE conjE) (rule that)
  have f: "h + 32 + csz c = lo + 32 + csz c1" using 1(5) by (simp add: cend_def)
  have h0: "ad (h + 32) \<noteq> 0" using al(4) ad_0_iff [of "h + 32"] by (simp add: al_def)
  have user: "USER_TO_CHUNK (ad (h + 32)) = ad h" by (simp add: USER_TO_CHUNK_def ad_minus)
  have "ld_free_unlocked E A (ad (h + 32)) s = Inr s3"
    unfolding ld_free_unlocked_def ld_ensure_init_def user Let_def
    using i(2) h0 r c(2) al 1(1) 2(1) 3(1) by (simp add: ld_check_def sw_simps f aw_simps)
  moreover have "calm s s3" using 1(7) 2(6) 3(4) by (meson calm_trans quiet_calm)
  moreover have "data_kept (blocks C3) (wds s) (wds s3)" using 1(8) 2(5,7) 3(3,5) by (metis data_kept_trans)
  moreover have "unmaps_unused s s3 (blocks C3)" using 3(3,7) 1(7) 2(6) by (simp add: unmaps_unused_def quiet_def)
  ultimately show ?thesis using 3(2,3,6) 1(6) 2(5,8) by (intro exI [of _ s3] exI [of _ C3] exI [of _ fl3]) simp
qed

end
