(* ===== verification/LdMallocProps.thy ===== *)
theory LdMallocProps
  imports LdMallocFree
begin

text \<open>
  What the allocator promises its clients, as an interface, and that \<open>ld_malloc.c\<close> keeps it; what it does with wrong arguments.
\<close>

section \<open>The interface\<close>

text \<open>A store of blocks. The state has a ghost part that says how the memory is divided. A block is known by the address of its
  header and its size; \<open>room\<close> is what an allocation relies on.\<close>

locale block_store =
  fixes ok :: "'s \<Rightarrow> 'c \<Rightarrow> bool" and view :: "'c \<Rightarrow> nat \<rightharpoonup> nat" and cells :: "'s \<Rightarrow> nat \<Rightarrow> u64"
    and alloc :: "nat \<Rightarrow> 's \<Rightarrow> (addr \<times> 's) res" and release :: "addr \<Rightarrow> 's \<Rightarrow> (unit \<times> 's) res" and room :: "'s \<Rightarrow> 'c \<Rightarrow> nat \<Rightarrow> bool"
  assumes apart: "ok s c \<Longrightarrow> view c h = Some k \<Longrightarrow> view c h' = Some k' \<Longrightarrow> h \<noteq> h' \<Longrightarrow> h + 48 + k \<le> h' \<or> h' + 48 + k' \<le> h"
    and alloc_ok: "ok s c \<Longrightarrow> room s c k \<Longrightarrow> 0 < k \<Longrightarrow> k \<le> 2 ^ 61 \<Longrightarrow>
      \<exists>p s' c'. alloc k s = Inr (p, s') \<and> ok s' c' \<and> malloc_result k p (view c) (view c') \<and> data_kept (view c) (cells s) (cells s')"
    and release_ok: "ok s c \<Longrightarrow> view c h = Some k \<Longrightarrow>
      \<exists>s' c'. release (ad (h + 32)) s = Inr ((), s') \<and> ok s' c' \<and> view c' = (view c)(h := None) \<and> data_kept (view c') (cells s) (cells s')"
begin

text \<open>A new block overlaps none of those in use.\<close>

lemma alloc_apart:
  assumes "ok s c" "room s c k" "0 < k" "k \<le> 2 ^ 61"
  shows "\<exists>p s' c'. alloc k s = Inr (p, s') \<and> ok s' c' \<and> data_kept (view c) (cells s) (cells s') \<and>
    (p = 0 \<and> view c' = view c \<or>
     (\<exists>h sz. p = ad (h + 32) \<and> k \<le> sz \<and> view c' = (view c)(h \<mapsto> sz) \<and>
        (\<forall>h' k'. view c h' = Some k' \<longrightarrow> h + 48 + sz \<le> h' \<or> h' + 48 + k' \<le> h)))"
proof -
  obtain p s' c' where a: "alloc k s = Inr (p, s')" "ok s' c'" "malloc_result k p (view c) (view c')" "data_kept (view c) (cells s) (cells s')"
    using alloc_ok [OF assms] by blast
  have "h + 48 + sz \<le> h' \<or> h' + 48 + k' \<le> h" if "view c h = None" "view c' = (view c)(h \<mapsto> sz)" "view c h' = Some k'" for h sz h' k'
    using apart [OF a(2), of h sz h' k'] that by force
  with a show ?thesis unfolding malloc_result_def by blast
qed

text \<open>Allocation followed by release leaves the blocks as they were.\<close>

lemma alloc_release:
  assumes "ok s c" "room s c k" "0 < k" "k \<le> 2 ^ 61"
  shows "\<exists>p s' c'. alloc k s = Inr (p, s') \<and> ok s' c' \<and> (p \<noteq> 0 \<longrightarrow>
    (\<exists>s'' c''. release p s' = Inr ((), s'') \<and> ok s'' c'' \<and> view c'' = view c \<and> data_kept (view c) (cells s) (cells s'')))"
proof -
  obtain p s' c' where a: "alloc k s = Inr (p, s')" "ok s' c'" "malloc_result k p (view c) (view c')" "data_kept (view c) (cells s) (cells s')"
    using alloc_ok [OF assms] by blast
  have "\<exists>s'' c''. release p s' = Inr ((), s'') \<and> ok s'' c'' \<and> view c'' = view c \<and> data_kept (view c) (cells s) (cells s'')" if "p \<noteq> 0"
  proof -
    obtain h sz where h: "p = ad (h + 32)" "view c h = None" "view c' = (view c)(h \<mapsto> sz)" using a(3) \<open>p \<noteq> 0\<close> by (auto simp: malloc_result_def)
    obtain s'' c'' where r: "release p s' = Inr ((), s'')" "ok s'' c''" "view c'' = (view c')(h := None)" "data_kept (view c'') (cells s') (cells s'')"
      using release_ok [OF a(2), of h sz] h by auto
    have v: "view c'' = view c" using r(3) h by (simp add: fun_upd_idem)
    then show ?thesis using r a(4) data_kept_trans by auto
  qed
  then show ?thesis using a by blast
qed

end

section \<open>The allocator implements it\<close>

lemma lock_irrelevant:
  "heap_inv X (s\<lparr>ld_malloc_lock := b\<rparr>) C fl \<longleftrightarrow> heap_inv X s C fl" "wds (s\<lparr>ld_malloc_lock := b\<rparr>) = wds s"
  "mmap_ok E (s\<lparr>ld_malloc_lock := b\<rparr>) C len \<longleftrightarrow> mmap_ok E s C len"
proof -
  show w: "wds (s\<lparr>ld_malloc_lock := b\<rparr>) = wds s" by (simp add: wds_def rd_def fun_eq_iff)
  show "heap_inv X (s\<lparr>ld_malloc_lock := b\<rparr>) C fl \<longleftrightarrow> heap_inv X s C fl" by (simp add: heap_inv_def w)
  show "mmap_ok E (s\<lparr>ld_malloc_lock := b\<rparr>) C len \<longleftrightarrow> mmap_ok E s C len" by (simp add: mmap_ok_def mmap_answer_def)
qed

definition heap_ok :: "'z ldm_scheme \<Rightarrow> chunks \<times> nat list \<Rightarrow> bool" where
  "heap_ok s g \<longleftrightarrow> heap_inv {} s (fst g) (snd g) \<and> ld_malloc_initialized s \<and> \<not> ld_malloc_lock s"

definition heap_room :: "env \<Rightarrow> nat \<Rightarrow> 'z ldm_scheme \<Rightarrow> chunks \<times> nat list \<Rightarrow> nat \<Rightarrow> bool" where
  "heap_room E n s g k \<longleftrightarrow> length (snd g) < n \<and> mmap_ok E s (fst g) (arena_len (16 * ((k + 15) div 16)))"

lemma ld_malloc_ok:
  assumes "heap_ok s g" "heap_room E n s g k" "0 < k" "k \<le> 2 ^ 61"
  shows "\<exists>p s' g'. ld_malloc E A n (ad k) s = Inr (p, s') \<and> heap_ok s' g' \<and> malloc_result k p (blocks (fst g)) (blocks (fst g')) \<and>
    data_kept (blocks (fst g)) (wds s) (wds s')"
proof -
  let ?s = "s\<lparr>ld_malloc_lock := True\<rparr>"
  obtain p s' C' fl' where m: "ld_malloc_unlocked E A n (ad k) ?s = Inr (p, s')" "heap_inv {} s' C' fl'" "malloc_result k p (blocks (fst g)) (blocks C')"
    "calm ?s s'" "data_kept (blocks (fst g)) (wds ?s) (wds s')"
    using malloc_inv [of ?s "fst g" "snd g" n k E A] assms by (auto simp: heap_ok_def heap_room_def lock_irrelevant)
  have "ld_malloc E A n (ad k) s = Inr (p, s'\<lparr>ld_malloc_lock := False\<rparr>)"
    using m(1) assms(1) by (simp add: ld_malloc_def ld_locked_def heap_ok_def)
  moreover have "heap_ok (s'\<lparr>ld_malloc_lock := False\<rparr>) (C', fl')"
    using m(2,4) assms(1) by (simp add: heap_ok_def lock_irrelevant calm_def)
  ultimately show ?thesis using m(3,5) by (intro exI [of _ p] exI [of _ "s'\<lparr>ld_malloc_lock := False\<rparr>"] exI [of _ "(C', fl')"]) (simp add: lock_irrelevant)
qed

lemma ld_free_ok:
  assumes "heap_ok s g" "blocks (fst g) h = Some k"
  shows "\<exists>s' g'. ld_free E A (ad (h + 32)) s = Inr ((), s') \<and> heap_ok s' g' \<and> blocks (fst g') = (blocks (fst g))(h := None) \<and>
    data_kept (blocks (fst g')) (wds s) (wds s') \<and> unmaps_unused s s' (blocks (fst g'))"
proof -
  let ?s = "s\<lparr>ld_malloc_lock := True\<rparr>"
  obtain s' C' fl' where m: "ld_free_unlocked E A (ad (h + 32)) ?s = Inr s'" "heap_inv {} s' C' fl'" "blocks C' = (blocks (fst g))(h := None)"
    "calm ?s s'" "data_kept (blocks C') (wds ?s) (wds s')" "unmaps_unused ?s s' (blocks C')"
    using free_inv [of ?s "fst g" "snd g" h k E A] assms by (auto simp: heap_ok_def lock_irrelevant)
  have "ld_free E A (ad (h + 32)) s = Inr ((), s'\<lparr>ld_malloc_lock := False\<rparr>)"
    using m(1) assms(1) by (simp add: ld_free_def ld_locked_def heap_ok_def)
  moreover have "heap_ok (s'\<lparr>ld_malloc_lock := False\<rparr>) (C', fl')"
    using m(2,4) assms(1) by (simp add: heap_ok_def lock_irrelevant calm_def)
  moreover have "unmaps_unused s (s'\<lparr>ld_malloc_lock := False\<rparr>) (blocks C')" using m(6) by (simp add: unmaps_unused_def)
  ultimately show ?thesis using m(3,5) by (intro exI [of _ "s'\<lparr>ld_malloc_lock := False\<rparr>"] exI [of _ "(C', fl')"]) (simp add: lock_irrelevant)
qed

lemma blocks_apart:
  assumes "heap_ok s g" "blocks (fst g) h = Some k" "blocks (fst g) h' = Some k'" "h \<noteq> h'"
  shows "h + 48 + k \<le> h' \<or> h' + 48 + k' \<le> h"
proof -
  obtain c c' where c: "fst g h = Some c" "csz c = k" "fst g h' = Some c'" "csz c' = k'" using assms(2,3) by (auto simp: blocks_Some)
  have "geo (fst g)" using assms(1) inv_geo by (auto simp: heap_ok_def)
  from geo_beside [OF this c(3,1) assms(4)] c show ?thesis by (auto simp: cend_def)
qed

interpretation ldm: block_store heap_ok "\<lambda>g. blocks (fst g)" wds "\<lambda>k. ld_malloc E A n (ad k)" "ld_free E A" "heap_room E n"
proof (unfold_locales, goal_cases)
  case 1 then show ?case by (rule blocks_apart)
next
  case 2 then show ?case by (rule ld_malloc_ok)
next
  case 3 then show ?case using ld_free_ok by blast
qed

text \<open>
  C19. \<open>malloc\<close> hands out memory that nobody holds: from every heap that is well formed, a request for \<open>k\<close> bytes
  either fails with a null pointer or returns the user area of a new block of at least \<open>k\<close> bytes that overlaps no block in use; no
  block in use changes its size or its contents, and the heap stays well formed.
\<close>

theorem ld_malloc_allocates:
  assumes "heap_ok s g" "heap_room E n s g k" "0 < k" "k \<le> 2 ^ 61"
  shows "\<exists>p s' g'. ld_malloc E A n (ad k) s = Inr (p, s') \<and> heap_ok s' g' \<and> data_kept (blocks (fst g)) (wds s) (wds s') \<and>
    (p = 0 \<and> blocks (fst g') = blocks (fst g) \<or>
     (\<exists>h sz. p = ad (h + 32) \<and> k \<le> sz \<and> blocks (fst g') = (blocks (fst g))(h \<mapsto> sz) \<and>
        (\<forall>h' k'. blocks (fst g) h' = Some k' \<longrightarrow> h + 48 + sz \<le> h' \<or> h' + 48 + k' \<le> h)))"
  by (rule ldm.alloc_apart [OF assms])

text \<open>
  C20. \<open>free\<close> of a block in use succeeds, removes exactly this block, keeps the contents of all others and the heap
  well formed, and gives back to the kernel only pages that hold no block, if any.
\<close>

theorem ld_free_releases:
  assumes "heap_ok s g" "blocks (fst g) h = Some k"
  shows "\<exists>s' g'. ld_free E A (ad (h + 32)) s = Inr ((), s') \<and> heap_ok s' g' \<and> blocks (fst g') = (blocks (fst g))(h := None) \<and>
    data_kept (blocks (fst g')) (wds s) (wds s') \<and> unmaps_unused s s' (blocks (fst g'))"
  by (rule ld_free_ok [OF assms])

text \<open>
  A block that is allocated and released again leaves the blocks in use and their contents as they were.
\<close>

theorem ld_malloc_free_roundtrip:
  assumes "heap_ok s g" "heap_room E n s g k" "0 < k" "k \<le> 2 ^ 61"
  shows "\<exists>p s' g'. ld_malloc E A n (ad k) s = Inr (p, s') \<and> heap_ok s' g' \<and> (p \<noteq> 0 \<longrightarrow>
    (\<exists>s'' g''. ld_free E A p s' = Inr ((), s'') \<and> heap_ok s'' g'' \<and> blocks (fst g'') = blocks (fst g) \<and>
       data_kept (blocks (fst g)) (wds s) (wds s'')))"
  by (rule ldm.alloc_release [OF assms])

section \<open>Wrong arguments\<close>

text \<open>
  C33. A chunk that is free already is not freed again: the program ends with a message instead of corrupting the free list.
\<close>

theorem ld_free_twice_aborts:
  assumes "heap_ok s g" "fst g h = Some c" "\<not> cused c"
  shows "ld_free E A (ad (h + 32)) s = Inl Exit"
proof -
  let ?s = "s\<lparr>ld_malloc_lock := True\<rparr>"
  have i: "heap_inv {} ?s (fst g) (snd g)" "ld_malloc_initialized ?s" "\<not> ld_malloc_lock s" using assms(1) by (auto simp: heap_ok_def lock_irrelevant)
  note r = inv_reads [OF i(1) assms(2)] and al = chunk_al [OF inv_chunk_geo [OF i(1) assms(2)]]
  have "ad (h + 32) \<noteq> 0" using al(4) ad_0_iff [of "h + 32"] by (simp add: al_def)
  moreover have "USER_TO_CHUNK (ad (h + 32)) = ad h" by (simp add: USER_TO_CHUNK_def ad_minus)
  ultimately show ?thesis using i(2,3) r assms(3) al
    by (simp add: ld_free_def ld_locked_def ld_free_unlocked_def ld_ensure_init_def ld_check_def sw_simps)
qed

text \<open>The word that was stored last is read back, also at an address that is no multiple of 8.\<close>

lemma put_header_size: "chunk_size (put_header y w s) y = w"
proof -
  have "load64 (put_bytes m (y + 24) (store64 v)) y = load64 m y" for m v
    by (rule load64_put_other) simp_all
  then show ?thesis by (simp add: chunk_size_def put_header_def rd_def wr_def load64_put_same)
qed

lemma sint_ad: "n < 2 ^ 63 \<Longrightarrow> sint (ad n) = int n"
proof -
  assume n: "n < 2 ^ 63"
  have u: "uint (ad n) = int n" using n by (simp add: uint_nat)
  have "signed_take_bit 63 (int n) = int n" using n by (intro signed_take_bit_int_eq_self) simp_all
  then show ?thesis using u by (simp add: sint_uint)
qed

lemma chunk_size_odd: "CHUNK_SIZE (ad n OR 1) = ad (n - n mod 2)"
proof (rule bit_word_eqI)
  fix i assume "i < LENGTH(64)"
  moreover have "bit (n - n mod 2) i \<longleftrightarrow> i \<noteq> 0 \<and> bit n i"
  proof (cases i)
    case (Suc j)
    have "(n - n mod 2) div 2 = n div 2" by presburger
    then show ?thesis by (simp add: Suc bit_Suc)
  qed (simp add: bit_0)
  ultimately show "bit (CHUNK_SIZE (ad n OR 1)) i \<longleftrightarrow> bit (ad (n - n mod 2)) i"
    by (auto simp: CHUNK_SIZE_def flag_bits bit_ad simp del: bit_numeral_word_iff bit_neg_numeral_word_iff)
qed

text \<open>
  Shrinking a block to a size that is not a multiple of 16 ends the program whenever enough room would be left for another
  chunk: the size is not rounded up as in \<open>malloc\<close>, so the two parts do not fill the chunk and the check of the split fails.
\<close>

theorem realloc_unaligned_aborts:
  assumes "heap_ok s g" "fst g h = Some c" "cused c" and k: "\<not> 16 dvd k" "k + 64 \<le> csz c"
  shows "ld_realloc E A n (ad (h + 32)) (ad k) s = Inl Exit"
proof -
  let ?s = "s\<lparr>ld_malloc_lock := True\<rparr>"
  have i: "heap_inv {} ?s (fst g) (snd g)" "ld_malloc_initialized ?s" "\<not> ld_malloc_lock s" using assms(1) by (auto simp: heap_ok_def lock_irrelevant)
  note r = inv_reads [OF i(1) assms(2)] and cg = inv_chunk_geo [OF i(1) assms(2)]
  note al = chunk_al [OF cg]
  have h0: "ad (h + 32) \<noteq> 0" using al(4) ad_0_iff [of "h + 32"] by (simp add: al_def)
  have user: "USER_TO_CHUNK (ad (h + 32)) = ad h" by (simp add: USER_TO_CHUNK_def ad_minus)
  have k0: "0 < k" "k < 2 ^ 63" using k al(11) by (auto intro: Nat.gr0I)
  have ks: "ad k \<noteq> 0" "\<not> sint (ad k) < 0" using k0 by (simp_all add: ad_0_iff sint_ad)
  define r16 where "r16 = 16 * ((k + 15) div 16)"
  have r16: "k < r16" "r16 \<le> k + 15" "16 dvd r16" unfolding r16_def using k(1) by presburger+
  have "ALIGN_SIZE (ad k) = ad r16" unfolding r16_def using k0 by (intro align_ad) simp
  then have second: "CHUNK_SIZE (sw (csz c) True) - SIZE_FOR_USERSIZE (ad k) = sw (csz c - r16 - 48) False"
    using al k r16 by (simp add: SIZE_FOR_USERSIZE_def sw_simps sw_False) (simp add: ad_def of_nat_diff)
  have r4: "4 dvd csz c - r16 - 48" using r16(3) cg by (auto simp: chunk_geo_def intro!: dvd_diff_nat intro: dvd_trans [of 4 16])
  have foot: "CHUNK_TO_FOOTER (put_header y w t) y = y + 32 + CHUNK_SIZE w" for y w and t :: "'a ldm_scheme"
    by (simp add: CHUNK_TO_FOOTER_def put_header_size CHUNK_TO_USER_def)
  have ne: "ad (h + 32 + csz c) \<noteq> ad h + 32 + CHUNK_SIZE (ad k OR 1) + 16 + 32 + CHUNK_SIZE (sw (csz c - r16 - 48) False)"
  proof -
    have "ad h + 32 + CHUNK_SIZE (ad k OR 1) + 16 + 32 + CHUNK_SIZE (sw (csz c - r16 - 48) False) = ad (h + 32 + (k - k mod 2) + (csz c - r16))"
      using k r16 r4 by (simp add: chunk_size_odd sw_simps) (simp add: ad_def of_nat_diff)
    moreover have "h + 32 + (k - k mod 2) + (csz c - r16) < h + 32 + csz c" using k r16 by linarith
    moreover have "h + 32 + csz c < 2 ^ 64" using al(6) by (simp add: al_def)
    ultimately show ?thesis using ad_eq_iff [of "h + 32 + csz c" "h + 32 + (k - k mod 2) + (csz c - r16)"] by simp
  qed
  have split: "ld_malloc_chunk_split (ad h) (ad k) ?s = Inl Exit"
    unfolding ld_malloc_chunk_split_def Let_def r(1,2,4) using r ne assms(3) al second by (simp add: ld_check_def sw_simps foot FOOTER_TO_NEXT_def)
  have "CAN_SPLIT_CHUNK ?s (ad h) (ad k)" using can_split_iff [OF r(1) cg k0(2)] k(2) by simp
  then have "realloc_shrink (ad h) (ad (h + 32)) (ad k) ?s = Inl Exit" by (simp add: realloc_shrink_def split)
  moreover have "ad k \<le> CHUNK_SIZE (chunk_size ?s (ad h))" using r(1) al k k0 by (simp add: sw_simps ad_le)
  ultimately show ?thesis using i(2,3) h0 ks r assms(3) al
    by (simp add: ld_realloc_def ld_locked_def ld_realloc_unlocked_def ld_ensure_init_def user ld_check_def sw_simps)
qed

text \<open>
  A request near the end of the address space is not refused: for 2^64 - 16 bytes the size of the chunk overflows, and with an
  empty free list a block of 4048 bytes is returned.
\<close>

theorem malloc_overflow:
  assumes "heap_ok s (C, [])" "mmap_answer E s 4096 = ad b" "fresh C b 4096"
  shows "\<exists>s' g'. ld_malloc E A (Suc n) (- 16) s = Inr (ad (b + 32), s') \<and> heap_ok s' g' \<and> blocks (fst g') = (blocks C)(b \<mapsto> 4048)"
proof -
  let ?s = "s\<lparr>ld_malloc_lock := True\<rparr>"
  have i: "heap_inv {} ?s C []" "ld_malloc_initialized ?s" "\<not> ld_malloc_lock s" using assms(1) by (auto simp: heap_ok_def lock_irrelevant)
  have hd: "ld_malloc_freelist_head ?s = 0" using i(1) by (simp add: heap_inv_def)
  have sz: "ALIGN_SIZE (- 16) = - 16" "(SIZE_FOR_USERSIZE (- 16) + 4095) AND NOT 4095 = ad 4096"
    "USERSIZE_FOR_SIZE (ad 4096) OR 1 = sw 4048 True" "ad 4096 OR 1 OR 2 = aw 4096 True True"
    by (simp_all add: ALIGN_SIZE_def SIZE_FOR_USERSIZE_def USERSIZE_FOR_SIZE_def sw_def aw_def ad_def)
  have m: "mmap_ok E ?s C 4096" using assms(2,3) by (auto simp: mmap_ok_def mmap_answer_def)
  have e8: "8 dvd (4096 :: nat)" "(4096 :: nat) < 2 ^ 63" by simp_all
  have na: "\<not> mmap_answer E s 4096 > - 4096" using assms(2,3) by (simp add: fresh_def word_less_nat_alt)
  then have b: "fst (ld_mmap E (ad 4096) ?s) = ad b" "ad b \<noteq> - 1"
    using assms(2) by (auto simp: ld_mmap_def issue_def Let_def mmap_answer_def)
  obtain s1 where s1: "ld_mmap E (ad 4096) ?s = (ad b, s1)" "calm ?s s1" "ld_malloc_freelist_head s1 = ld_malloc_freelist_head ?s"
    "\<And>a. a < b \<or> b + 4096 \<le> a \<Longrightarrow> wds s1 a = wds ?s a"
    using m e8
  proof (cases rule: ld_mmap_cases)
    case (mapped b' s1)
    then have "b' = b" using b(1) assms(3) ad_eq_iff [of b' b] by (simp add: fresh_def)
    with mapped show ?thesis by (intro that [of s1]) auto
  qed (use b in auto)
  have i1: "heap_inv {} s1 C []" using assms(3) by (intro inv_cong [OF i(1) s1(2,3)] s1(4)) (force simp: fresh_def)
  let ?c = "arena_chunk b 4096" and ?s2 = "arena_put b 4096 s1"
  have d: "4096 dvd (4096 :: nat)" "64 \<le> (4096 :: nat)" by simp_all
  note p = arena_put_inv [OF i1 assms(3) d] and cg = arena_geo [OF assms(3) d]
  have c: "(C(b \<mapsto> ?c)) b = Some ?c" "csz ?c = 4048" "cused ?c" by (simp_all add: arena_chunk_def)
  have put: "put_footer (CHUNK_TO_FOOTER (put_header (ad b) (sw 4048 True) t) (ad b)) (sw 4048 True) (put_header (ad b) (sw 4048 True) t) = mark b 4048 True t"
    for t :: "'a ldm_scheme" using chunk_al [OF cg] by (simp add: put_header_reads mark_def)
  have "\<not> CAN_SPLIT_CHUNK ?s2 (ad b) (- 16)"
    using inv_reads(1) [OF p(1) c(1)] by (simp add: CAN_SPLIT_CHUNK_def c sw_simps) (simp add: ad_def)
  then have "new_arena E (- 16) ?s = Inr (Some (ad b), sw 4048 True, ?s2)"
    unfolding new_arena_def sz Let_def s1(1) prod.case put using b(2) by (simp add: arena_put_def)
  moreover have "ld_malloc_find_freelist (Suc n) (- 16) ?s = Inr (0, ?s)" using hd by (simp add: ld_malloc_find_freelist_def)
  moreover have "finish_malloc (ad b) (sw 4048 True) ?s2 = Inr (ad (b + 32), mark b 4048 True ?s2)" using finish_code [OF cg] c(2) by simp
  ultimately have "ld_malloc E A (Suc n) (- 16) s = Inr (ad (b + 32), (mark b 4048 True ?s2)\<lparr>ld_malloc_lock := False\<rparr>)"
    using i(2,3) sz(1) by (simp add: ld_malloc_def ld_locked_def ld_malloc_unlocked_def ld_ensure_init_def)
  moreover have "heap_ok ((mark b 4048 True ?s2)\<lparr>ld_malloc_lock := False\<rparr>) (C(b \<mapsto> ?c), [])"
  proof -
    have "heap_inv {} (mark b (csz ?c) True ?s2) ((C(b \<mapsto> ?c))(b \<mapsto> ?c\<lparr>cused := True\<rparr>)) []" by (rule mark_inv(1) [OF p(1) c(1)]) simp_all
    moreover have "?c\<lparr>cused := True\<rparr> = ?c" by (simp add: arena_chunk_def)
    ultimately show ?thesis using c(2) i(2) s1(2) p(2) by (simp add: heap_ok_def lock_irrelevant mark_def calm_def quiet_def put_header_def put_footer_def)
  qed
  ultimately show ?thesis using c by (intro exI [of _ "(mark b 4048 True ?s2)\<lparr>ld_malloc_lock := False\<rparr>"] exI [of _ "(C(b \<mapsto> ?c), [])"]) (simp add: blocks_upd)
qed

section \<open>A heap\<close>

definition demo_heap :: ldm where
  "demo_heap = \<lparr>trace = [], sud_selector = 0, heap = (\<lambda>_. 0), ld_malloc_lock = False, ld_malloc_initialized = True,
     ld_malloc_header_canary = 0x1234, ld_malloc_footer_canary = 0x5678, ld_malloc_freelist_head = 0\<rparr>"

definition demo_heap_env :: env where
  "demo_heap_env = \<lparr>kernel = (\<lambda>_. 0x10000), memory = (\<lambda>_ _. 0), page_perm = (\<lambda>_ _. 3), page_key = (\<lambda>_ _. 0)\<rparr>"

definition demo_canaries :: canary_addrs where
  "demo_canaries = \<lparr>header_canary_addr = 0x8000, footer_canary_addr = 0x8008\<rparr>"

lemma demo_heap_ok: "heap_ok demo_heap (Map.empty, [])"
  by (simp add: heap_ok_def heap_inv_def geo_def free_set_def demo_heap_def)

lemma demo_heap_fresh: "len \<le> 2 ^ 62 \<Longrightarrow> fresh Map.empty 0x10000 len" "mmap_answer demo_heap_env demo_heap len = ad 0x10000"
  by (simp_all add: fresh_def mmap_answer_def demo_heap_env_def ad_def)

lemma demo_room: "heap_room demo_heap_env 1 demo_heap (Map.empty, []) 100"
proof -
  have "fresh Map.empty 0x10000 (arena_len (16 * ((100 + 15) div 16)))" by (rule demo_heap_fresh(1)) (simp add: arena_len_def)
  then show ?thesis unfolding heap_room_def mmap_ok_def demo_heap_fresh(2) by (metis One_nat_def fst_conv length_0_conv lessI snd_conv list.size(3))
qed

text \<open>The heap with one block in use, and with one free chunk behind a block in use.\<close>

lemma demo_block: "heap_ok (arena_put 0x10000 4096 demo_heap) (Map.empty(0x10000 \<mapsto> arena_chunk 0x10000 4096), [])"
proof -
  have i: "heap_inv {} demo_heap Map.empty []" using demo_heap_ok by (simp add: heap_ok_def)
  have f: "fresh Map.empty 0x10000 4096" by (rule demo_heap_fresh(1)) simp
  show ?thesis using arena_put_inv(1,2) [OF i f] by (simp add: heap_ok_def demo_heap_def quiet_def)
qed

lemma demo_two: "\<exists>(s :: ldm) g c. heap_ok s g \<and> fst g (0x10000 + 48 + 112) = Some c \<and> \<not> cused c"
proof -
  let ?b = "0x10000 :: nat" and ?c = "arena_chunk 0x10000 4096" and ?s = "arena_put 0x10000 4096 demo_heap"
  have i: "heap_inv {} ?s (Map.empty(?b \<mapsto> ?c)) []" "ld_malloc_initialized ?s" "\<not> ld_malloc_lock ?s" using demo_block by (auto simp: heap_ok_def)
  have n: "16 dvd (112 :: nat)" "16 \<le> (112 :: nat)" "112 + 64 \<le> csz ?c" "(Map.empty(?b \<mapsto> ?c)) ?b = Some ?c" by (simp_all add: arena_chunk_def)
  note p = split_put_inv(1) [OF i(1) n(4,1-3)]
  have ne: "?b + 48 + 112 \<notin> {}" by simp
  obtain s' where s': "heap_inv {} s' (split_chunks (Map.empty(?b \<mapsto> ?c)) ?b 112 ?c) [?b + 48 + 112]" "quiet (split_put ?b 112 ?c ?s) s'"
    using link_inv [OF p ne] by blast
  moreover have "quiet ?s (split_put ?b 112 ?c ?s)" by (simp add: split_put_def)
  ultimately have "heap_ok s' (split_chunks (Map.empty(?b \<mapsto> ?c)) ?b 112 ?c, [?b + 48 + 112])" using i(2,3) by (simp add: heap_ok_def quiet_def)
  then show ?thesis by (intro exI [of _ s'] exI [of _ "(split_chunks (Map.empty(?b \<mapsto> ?c)) ?b 112 ?c, [?b + 48 + 112])"]) simp
qed

theorem ld_malloc_allocates_witness:
  "\<exists>p s' g'. ld_malloc demo_heap_env demo_canaries 1 (ad 100) demo_heap = Inr (p, s') \<and> heap_ok s' (g' :: chunks \<times> nat list)"
  using ld_malloc_allocates [OF demo_heap_ok demo_room, of demo_canaries] by auto

theorem ld_free_releases_witness:
  "\<exists>s' g'. ld_free demo_heap_env demo_canaries (ad (0x10000 + 32)) (arena_put 0x10000 4096 demo_heap) = Inr ((), s') \<and>
     heap_ok s' g' \<and> blocks (fst g') 0x10000 = None"
proof -
  have "blocks (fst (Map.empty(0x10000 \<mapsto> arena_chunk 0x10000 4096), [])) 0x10000 = Some 4048" by (simp add: arena_chunk_def blocks_def)
  from ld_free_releases [OF demo_block this, of demo_heap_env demo_canaries] show ?thesis by (metis fun_upd_same)
qed

theorem ld_malloc_free_roundtrip_witness:
  "\<exists>p s' g'. ld_malloc demo_heap_env demo_canaries 1 (ad 100) demo_heap = Inr (p, s') \<and> heap_ok s' g' \<and>
     (p \<noteq> 0 \<longrightarrow> (\<exists>s'' g''. ld_free demo_heap_env demo_canaries p s' = Inr ((), s'') \<and> heap_ok s'' g'' \<and> blocks (fst g'') = blocks Map.empty))"
proof -
  have k: "0 < (100 :: nat)" "(100 :: nat) \<le> 2 ^ 61" by simp_all
  from ld_malloc_free_roundtrip [OF demo_heap_ok demo_room k, of demo_canaries] show ?thesis unfolding fst_conv by blast
qed

theorem ld_free_twice_aborts_witness:
  "\<exists>s. ld_free demo_heap_env demo_canaries (ad (0x10000 + 48 + 112 + 32)) (s :: ldm) = Inl Exit"
  using demo_two ld_free_twice_aborts [where h = "0x10000 + 48 + 112" and E = demo_heap_env and A = demo_canaries] by blast

theorem realloc_unaligned_aborts_witness:
  "ld_realloc demo_heap_env demo_canaries 1 (ad (0x10000 + 32)) (ad 100) (arena_put 0x10000 4096 demo_heap) = Inl Exit"
proof -
  have "fst (Map.empty(0x10000 \<mapsto> arena_chunk 0x10000 4096), [] :: nat list) 0x10000 = Some (arena_chunk 0x10000 4096)" by simp
  from realloc_unaligned_aborts [OF demo_block this] show ?thesis by (simp add: arena_chunk_def)
qed

theorem malloc_overflow_witness:
  "\<exists>s' g'. ld_malloc demo_heap_env demo_canaries 1 (- 16) demo_heap = Inr (ad (0x10000 + 32), s') \<and> heap_ok s' g' \<and> blocks (fst g') 0x10000 = Some 4048"
proof -
  have f: "fresh Map.empty 0x10000 4096" by (rule demo_heap_fresh(1)) simp
  from malloc_overflow [OF demo_heap_ok demo_heap_fresh(2) f, of demo_canaries 0] show ?thesis unfolding One_nat_def by (metis fun_upd_same)
qed

end
