(* ===== verification/Segments.thy ===== *)
theory Segments
  imports Elf LdMalloc
begin

text \<open>
  The segments of an ELF file in memory: the first part of \<open>src/src/secpoline_loader/loader/loader.c\<close>. The loader works on the memory
  of the process byte for byte. What a mapping holds, which pages may be written and whether the kernel grants a request are those of
  the environment; a store to a page that may not be written is \<open>Inl Segv\<close>. A field of a program header is read when the loop reaches
  the header. The messages of \<open>ERROR\<close> and \<open>DEBUG\<close> only go to the standard error stream and are left out.
\<close>

section \<open>System calls through the C library\<close>

text \<open>\<open>mmap\<close>: \<open>MAP_FAILED\<close> is all ones.\<close>

definition c_mmap :: "env \<Rightarrow> addr \<Rightarrow> u64 \<Rightarrow> c_int \<Rightarrow> c_int \<Rightarrow> u64 \<Rightarrow> u64 \<Rightarrow> 'z ldm_scheme \<Rightarrow> addr \<times> 'z ldm_scheme" where
  "c_mmap E a len prot flags fd off s =
     (let (r, s) = issue E Inline NR_mmap a len (ucast prot) (ucast flags) fd off s in
      if r > - 4096 then (- 1, s)
      else (r, s\<lparr>heap := (\<lambda>x. if x - r < len then mem_at E s x else heap s x)\<rparr>))"

text \<open>\<open>mprotect\<close> and \<open>munmap\<close>: 0 for success.\<close>

definition c_mprotect :: "env \<Rightarrow> addr \<Rightarrow> u64 \<Rightarrow> c_int \<Rightarrow> 'z ldm_scheme \<Rightarrow> bool \<times> 'z ldm_scheme" where
  "c_mprotect E a len prot s = (let (r, s) = issue E Inline NR_mprotect a len (ucast prot) 0 0 0 s in (r = 0, s))"

definition c_munmap :: "env \<Rightarrow> addr \<Rightarrow> u64 \<Rightarrow> 'z ldm_scheme \<Rightarrow> bool \<times> 'z ldm_scheme" where
  "c_munmap E a len s = (let (r, s) = issue E Inline NR_munmap a len 0 0 0 0 s in (r = 0, s))"

definition c_close :: "env \<Rightarrow> u64 \<Rightarrow> 'z ldm_scheme \<Rightarrow> 'z ldm_scheme" where
  "c_close E fd s = snd (issue E Inline NR_close fd 0 0 0 0 0 s)"

text \<open>\<open>memset(a, 0, n)\<close>\<close>

definition may_write :: "env \<Rightarrow> 'z kern_scheme \<Rightarrow> addr \<Rightarrow> bool" where
  "may_write E s x \<longleftrightarrow> page_perm E (trace s) x AND PROT_WRITE \<noteq> 0"

definition memset0 :: "env \<Rightarrow> addr \<Rightarrow> u64 \<Rightarrow> 'z ldm_scheme \<Rightarrow> 'z ldm_scheme res" where
  "memset0 E a n s =
     (if list_all (\<lambda>i. may_write E s (a + of_nat i)) [0..<unat n]
      then Inr (s\<lparr>heap := put_bytes (heap s) a (replicate (unat n) 0)\<rparr>)
      else Inl Segv)"

section \<open>Program headers\<close>

record phdr =
  ph_type :: u32
  ph_flags :: u32
  ph_offset :: u64
  ph_vaddr :: u64
  ph_filesz :: u64
  ph_memsz :: u64

definition phdr_at :: "mem \<Rightarrow> addr \<Rightarrow> phdr" where
  "phdr_at m p = \<lparr>ph_type = p_type m p, ph_flags = load32 m (p + 4), ph_offset = load64 m (p + 8), ph_vaddr = p_vaddr m p,
     ph_filesz = load64 m (p + 32), ph_memsz = load64 m (p + 40)\<rparr>"

text \<open>\<open>FLOOR2(v, PAGE_SIZE)\<close> is \<open>page_of\<close> and \<open>CEIL2(v, PAGE_SIZE)\<close> is \<open>page_round\<close>.\<close>

definition seg_prot :: "phdr \<Rightarrow> c_int" where
  "seg_prot ph =
     (if ph_flags ph AND 4 \<noteq> 0 then PROT_READ else 0) OR
     (if ph_flags ph AND 2 \<noteq> 0 then PROT_WRITE else 0) OR
     (if ph_flags ph AND 1 \<noteq> 0 then PROT_EXEC else 0)"

definition vaddr_page :: "phdr \<Rightarrow> u64" where "vaddr_page ph = page_of (ph_vaddr ph)"
definition offset_page :: "phdr \<Rightarrow> u64" where "offset_page ph = page_of (ph_offset ph)"
definition align_diff :: "phdr \<Rightarrow> u64" where "align_diff ph = ph_vaddr ph - vaddr_page ph"
definition real_filesz :: "phdr \<Rightarrow> u64" where "real_filesz ph = align_diff ph + ph_filesz ph"
definition filesz_page :: "phdr \<Rightarrow> u64" where "filesz_page ph = page_round (real_filesz ph)"
definition memsz_page :: "phdr \<Rightarrow> u64" where "memsz_page ph = page_round (align_diff ph + ph_memsz ph)"

definition seg_mmap_prot :: "phdr \<Rightarrow> c_int" where
  "seg_mmap_prot ph = (if align_diff ph > 0 \<or> real_filesz ph < filesz_page ph then PROT_READ OR PROT_WRITE else seg_prot ph)"

section \<open>Unmapping\<close>

primrec unmap_load_segments :: "env \<Rightarrow> addr \<Rightarrow> nat \<Rightarrow> addr \<Rightarrow> 'z ldm_scheme \<Rightarrow> bool \<times> 'z ldm_scheme" where
  "unmap_load_segments E base 0 p s = (True, s)"
| "unmap_load_segments E base (Suc n) p s =
     (let ph = phdr_at (heap s) p in
      if ph_type ph = 1
      then (let (ok, s) = c_munmap E (base + vaddr_page ph) (memsz_page ph) s in
            if ok then unmap_load_segments E base n (p + 56) s else (False, s))
      else unmap_load_segments E base n (p + 56) s)"

section \<open>Mapping\<close>

text \<open>The steps of the loop; the flag is false after \<open>goto fail\<close>.\<close>

definition and_then :: "(bool \<times> 's) res \<Rightarrow> ('s \<Rightarrow> (bool \<times> 's) res) \<Rightarrow> (bool \<times> 's) res" where
  "and_then m k = rbind m (\<lambda>(ok, s). if ok then k s else Inr (False, s))"

definition map_from_file :: "env \<Rightarrow> u64 \<Rightarrow> addr \<Rightarrow> phdr \<Rightarrow> 'z ldm_scheme \<Rightarrow> addr \<times> 'z ldm_scheme" where
  "map_from_file E fd base ph s =
     c_mmap E (base + vaddr_page ph) (filesz_page ph) (seg_mmap_prot ph) (MAP_FIXED OR MAP_PRIVATE) fd (offset_page ph) s"

definition reprotect :: "env \<Rightarrow> addr \<Rightarrow> u64 \<Rightarrow> phdr \<Rightarrow> 'z ldm_scheme \<Rightarrow> bool \<times> 'z ldm_scheme" where
  "reprotect E mp len ph s = (if seg_prot ph \<noteq> seg_mmap_prot ph then c_mprotect E mp len (seg_prot ph) s else (True, s))"

definition clear_tail :: "env \<Rightarrow> addr \<Rightarrow> phdr \<Rightarrow> 'z ldm_scheme \<Rightarrow> (bool \<times> 'z ldm_scheme) res" where
  "clear_tail E mp ph s =
     (if real_filesz ph < filesz_page ph
      then rbind (memset0 E (mp + real_filesz ph) (filesz_page ph - real_filesz ph) s) (\<lambda>s. Inr (reprotect E mp (filesz_page ph) ph s))
      else Inr (True, s))"

definition clear_head :: "env \<Rightarrow> addr \<Rightarrow> phdr \<Rightarrow> 'z ldm_scheme \<Rightarrow> (bool \<times> 'z ldm_scheme) res" where
  "clear_head E mp ph s =
     (if align_diff ph > 0
      then rbind (memset0 E mp (align_diff ph) s) (\<lambda>s. Inr (reprotect E mp (align_diff ph + ph_memsz ph) ph s))
      else Inr (True, s))"

definition map_anonymous :: "env \<Rightarrow> addr \<Rightarrow> phdr \<Rightarrow> 'z ldm_scheme \<Rightarrow> (bool \<times> 'z ldm_scheme) res" where
  "map_anonymous E base ph s =
     (if memsz_page ph > filesz_page ph
      then (let (mp, s) = c_mmap E (base + vaddr_page ph + filesz_page ph) (memsz_page ph - filesz_page ph) (seg_prot ph)
                             (MAP_FIXED OR MAP_PRIVATE OR MAP_ANONYMOUS) (- 1) 0 s in
            Inr (mp \<noteq> - 1, s))
      else Inr (True, s))"

definition map_segment :: "env \<Rightarrow> u64 \<Rightarrow> addr \<Rightarrow> phdr \<Rightarrow> 'z ldm_scheme \<Rightarrow> (bool \<times> 'z ldm_scheme) res" where
  "map_segment E fd base ph s =
     (if ph_type ph \<noteq> 1 then Inr (True, s)
      else
        let (mp, s) = map_from_file E fd base ph s in
        if mp = - 1 then Inr (False, s)
        else and_then (clear_tail E mp ph s) (\<lambda>s. and_then (clear_head E mp ph s) (map_anonymous E base ph)))"

primrec map_segments :: "env \<Rightarrow> u64 \<Rightarrow> addr \<Rightarrow> nat \<Rightarrow> addr \<Rightarrow> 'z ldm_scheme \<Rightarrow> (bool \<times> 'z ldm_scheme) res" where
  "map_segments E fd base 0 p s = Inr (True, s)"
| "map_segments E fd base (Suc n) p s =
     and_then (map_segment E fd base (phdr_at (heap s) p) s) (map_segments E fd base n (p + 56))"

text \<open>The base of a position independent file. The answer of \<open>getrandom\<close> is not looked at; \<open>a\<close> is the address of the variable.\<close>

definition random_base :: "u64 \<Rightarrow> addr" where
  "random_base r = (r AND page_of 0x00000fffffffffff) OR 0x0000600000000000"

definition choose_base :: "env \<Rightarrow> addr \<Rightarrow> 16 word \<Rightarrow> 'z ldm_scheme \<Rightarrow> addr \<times> 'z ldm_scheme" where
  "choose_base E a type s =
     (if type = 3 then (let (r, s) = issue E Inline 318 a 8 0 0 0 0 s in (random_base (load64 (mem_at E s) a), s)) else (0, s))"

record elf_file =
  ef_size :: u64
  ef_fd :: u64
  ef_header :: addr

definition map_load_segments :: "env \<Rightarrow> addr \<Rightarrow> elf_file \<Rightarrow> 'z ldm_scheme \<Rightarrow> (addr option \<times> 'z ldm_scheme) res" where
  "map_load_segments E base_addr info s =
     (let h = ef_header info;
          (base, s) = choose_base E base_addr (e_type (heap s) h) s;
          phdrs = h + e_phoff (heap s) h; n = unat (e_phnum (heap s) h) in
      rbind (map_segments E (ef_fd info) base n phdrs s)
      (\<lambda>(ok, s). if ok then Inr (Some base, s)
         else (let (ok, s) = unmap_load_segments E base n phdrs s in if ok then Inr (None, s) else Inl Exit)))"

section \<open>The file\<close>

text \<open>\<open>open\<close> and \<open>lseek\<close> of the C library give -1 for an error.\<close>

definition open_elf :: "env \<Rightarrow> addr \<Rightarrow> 'z ldm_scheme \<Rightarrow> elf_file option \<times> 'z ldm_scheme" where
  "open_elf E path s =
     (let (fd, s) = issue E Inline NR_open path 0 0 0 0 0 s in
      if fd > - 4096 then (None, s)
      else
        let (sz, s) = issue E Inline NR_lseek fd 0 2 0 0 0 s in
        if sz > - 4096 then (None, c_close E fd s)
        else
          let (header, s) = c_mmap E 0 sz PROT_READ MAP_PRIVATE fd 0 s in
          if header = - 1 then (None, c_close E fd s)
          else (Some \<lparr>ef_size = sz, ef_fd = fd, ef_header = header\<rparr>, s))"

definition close_elf :: "env \<Rightarrow> elf_file \<Rightarrow> 'z ldm_scheme \<Rightarrow> 'z ldm_scheme" where
  "close_elf E info s = snd (c_munmap E (ef_header info) (ef_size info) (c_close E (ef_fd info) s))"

end
