(* ===== verification/SegmentsProps.thy ===== *)
theory SegmentsProps
  imports Segments LdMallocWords
begin

text \<open>
  What \<open>map_load_segments\<close> puts into memory: every page of a segment with the protection of its flags, the bytes of the file at their
  addresses and zeros around them, and nothing outside of the segments.
\<close>

section \<open>The kernel\<close>

text \<open>
  The documented behaviour of \<open>mmap\<close> with \<open>MAP_FIXED\<close>, of \<open>mprotect\<close> on the range just mapped and of calls that are not about memory.
  \<open>fdata fd k\<close> is byte \<open>k\<close> of the file \<open>fd\<close>.
\<close>

definition mmap_grants :: "env \<Rightarrow> (u64 \<Rightarrow> nat \<Rightarrow> u8) \<Rightarrow> bool" where
  "mmap_grants E fdata \<longleftrightarrow>
     (\<forall>t sel a len prot flags fd off. len \<noteq> 0 \<and> flags AND 16 \<noteq> 0 \<and> a \<le> - 4096 \<longrightarrow>
        (let t' = SCall Inline sel NR_mmap a len prot flags fd off # t in
         kernel E t' = a \<and>
         (\<forall>x. x - a < len \<longrightarrow> memory E t' x = (if flags AND 32 \<noteq> 0 then 0 else fdata fd (unat off + unat (x - a)))) \<and>
         (\<forall>x. page_perm E t' x = (if x - a < len then ucast prot else page_perm E t x))))"

definition mprotect_grants :: "env \<Rightarrow> bool" where
  "mprotect_grants E \<longleftrightarrow>
     (\<forall>t sel sel' a len prot prot' flags fd off.
        (let t' = SCall Inline sel NR_mmap a len prot flags fd off # t; t'' = SCall Inline sel' NR_mprotect a len prot' 0 0 0 # t' in
         kernel E t' = a \<longrightarrow> kernel E t'' = 0 \<and> (\<forall>x. page_perm E t'' x = (if x - a < len then ucast prot' else page_perm E t' x))))"

definition getrandom_quiet :: "env \<Rightarrow> bool" where
  "getrandom_quiet E \<longleftrightarrow> (\<forall>t sel a b c d e f x. page_perm E (SCall Inline sel 318 a b c d e f # t) x = page_perm E t x)"

definition kernel_maps :: "env \<Rightarrow> (u64 \<Rightarrow> nat \<Rightarrow> u8) \<Rightarrow> bool" where
  "kernel_maps E fdata \<longleftrightarrow> mmap_grants E fdata \<and> mprotect_grants E \<and> getrandom_quiet E"

section \<open>Segments\<close>

definition in_seg :: "addr \<Rightarrow> phdr \<Rightarrow> addr \<Rightarrow> bool" where
  "in_seg base ph x \<longleftrightarrow> ph_type ph = 1 \<and> x - (base + vaddr_page ph) < memsz_page ph"

text \<open>
  A segment the loader handles: file and memory have the same offset in the page, there is something to map from the file, the sizes
  do not wrap, and a segment that does not start on a page is readable, writable and not executable.
\<close>

definition seg_fits :: "addr \<Rightarrow> phdr \<Rightarrow> bool" where
  "seg_fits base ph \<longleftrightarrow>
     ph_offset ph mod 4096 = ph_vaddr ph mod 4096 \<and> ph_filesz ph \<le> ph_memsz ph \<and> 0 < real_filesz ph \<and>
     unat (ph_memsz ph) < 2 ^ 61 \<and> unat (base + vaddr_page ph) < 2 ^ 61"

definition seg_ok :: "addr \<Rightarrow> phdr \<Rightarrow> bool" where
  "seg_ok base ph \<longleftrightarrow> (ph_type ph = 1 \<longrightarrow> seg_fits base ph \<and> (align_diff ph = 0 \<or> seg_prot ph = PROT_READ OR PROT_WRITE))"

definition seg_loaded :: "env \<Rightarrow> (u64 \<Rightarrow> nat \<Rightarrow> u8) \<Rightarrow> u64 \<Rightarrow> addr \<Rightarrow> phdr \<Rightarrow> 'z ldm_scheme \<Rightarrow> bool" where
  "seg_loaded E fdata fd base ph s \<longleftrightarrow>
     (\<forall>x. in_seg base ph x \<longrightarrow>
        (let d = unat (x - (base + ph_vaddr ph)) in
         page_perm E (trace s) x = seg_prot ph \<and>
         heap s x = (if d < unat (ph_filesz ph) then fdata fd (unat (ph_offset ph) + d) else 0)))"

text \<open>Outside of the segment nothing changes.\<close>

definition seg_frame :: "env \<Rightarrow> addr \<Rightarrow> phdr \<Rightarrow> 'z ldm_scheme \<Rightarrow> 'z ldm_scheme \<Rightarrow> bool" where
  "seg_frame E base ph s s' \<longleftrightarrow>
     (\<forall>x. \<not> in_seg base ph x \<longrightarrow> heap s' x = heap s x \<and> page_perm E (trace s') x = page_perm E (trace s) x)"

section \<open>Sizes\<close>

lemma align_diff_mod: "align_diff ph = ph_vaddr ph mod 4096"
  by (simp add: align_diff_def vaddr_page_def page_of_minus)

lemma align_diff_less: "unat (align_diff ph) < 4096"
  by (simp add: align_diff_mod unat_mod_4096)

text \<open>The sizes of a segment as numbers.\<close>

lemma seg_sizes:
  assumes ok: "seg_fits base ph"
  shows "unat (real_filesz ph) = unat (align_diff ph) + unat (ph_filesz ph)"
    and "unat (real_filesz ph) \<le> unat (filesz_page ph)"
    and "unat (filesz_page ph) \<le> unat (memsz_page ph)"
    and "0 < unat (filesz_page ph)"
    and "unat (offset_page ph) + unat (align_diff ph) = unat (ph_offset ph)"
    and "unat (memsz_page ph) < 2 ^ 61 + 8192"
proof -
  let ?d = "unat (align_diff ph)" and ?f = "unat (ph_filesz ph)" and ?m = "unat (ph_memsz ph)"
  from ok have h: "ph_offset ph mod 4096 = ph_vaddr ph mod 4096" "?f \<le> ?m" "0 < real_filesz ph" "?m < 2 ^ 61"
    by (auto simp: seg_fits_def word_le_nat_alt)
  have d: "?d < 4096" by (rule align_diff_less)
  show rf: "unat (real_filesz ph) = ?d + ?f" unfolding real_filesz_def by (rule unat_plus_nowrap) (use d h in simp)
  have dm: "unat (align_diff ph + ph_memsz ph) = ?d + ?m" by (rule unat_plus_nowrap) (use d h in simp)
  have F: "unat (filesz_page ph) = (?d + ?f + 4095) div 4096 * 4096"
    unfolding filesz_page_def using d h by (subst unat_page_round) (simp_all add: rf)
  have M: "unat (memsz_page ph) = (?d + ?m + 4095) div 4096 * 4096"
    unfolding memsz_page_def using d h by (subst unat_page_round) (simp_all add: dm)
  show "unat (real_filesz ph) \<le> unat (filesz_page ph)" unfolding rf F by simp
  show "unat (filesz_page ph) \<le> unat (memsz_page ph)" unfolding F M using h(2) by (simp add: div_le_mono)
  have "0 < ?d + ?f" using h(3) rf by (simp add: word_less_nat_alt)
  then show "0 < unat (filesz_page ph)" unfolding F by (auto simp: div_greater_zero_iff)
  show "unat (memsz_page ph) < 2 ^ 61 + 8192" unfolding M using h(4) d by simp
  have "?d = unat (ph_offset ph) mod 4096"
    using h(1) by (metis align_diff_mod unat_mod_4096)
  then show "unat (offset_page ph) + ?d = unat (ph_offset ph)"
    by (simp add: offset_page_def unat_page_of)
qed

lemma seg_ok_fits: "seg_ok base ph \<Longrightarrow> ph_type ph = 1 \<Longrightarrow> seg_fits base ph"
  by (simp add: seg_ok_def)

lemma sub_range:
  fixes x a r len :: u64
  assumes "unat r \<le> unat len"
  shows "unat (x - (a + r)) < unat (len - r) \<longleftrightarrow> unat r \<le> unat (x - a) \<and> unat (x - a) < unat len"
proof -
  have e: "x - (a + r) = (x - a) - r" by simp
  have l: "unat (len - r) = unat len - unat r" using assms by (simp add: unat_minus_le)
  show ?thesis
  proof (cases "unat r \<le> unat (x - a)")
    case True
    then show ?thesis using assms unfolding e l by (simp add: unat_minus_le) arith
  next
    case False
    then have "r \<noteq> 0" "unat (x - a - r) = 2 ^ 64 + unat (x - a) - unat r"
      using unat_sub_if' [of "x - a" r] unat_lt_2p64 [of r] by (auto simp: word_le_nat_alt)
    then show ?thesis using False assms unat_lt_2p64 [of len] unat_lt_2p64 [of r] unfolding e l by simp
  qed
qed

section \<open>The steps of a segment\<close>

lemma ucast_prot [simp]: "(ucast (ucast (p :: c_int) :: u64) :: c_int) = p"
  by (rule bit_word_eqI) (auto simp: bit_simps)

lemma prot_masks [simp]: "(MAP_FIXED OR MAP_PRIVATE :: c_int) = 18" "(MAP_FIXED OR MAP_PRIVATE OR MAP_ANONYMOUS :: c_int) = 50"
  "(PROT_READ OR PROT_WRITE :: c_int) = 3"
  by (simp_all add: numeral_eq_Suc)

lemma high_addr: "unat (a :: u64) < 2 ^ 63 \<Longrightarrow> a \<le> - 4096" "unat (a :: u64) < 2 ^ 63 \<Longrightarrow> a \<noteq> - 1"
  by (auto simp: word_le_nat_alt unat_minus_one_64)

text \<open>A fixed mapping that the kernel grants.\<close>

lemma c_mmap_fixed:
  assumes k: "kernel_maps E fdata" and l: "len \<noteq> 0" and a: "unat a < 2 ^ 63" and f: "(ucast flags :: u64) AND 16 \<noteq> 0"
  obtains s' where "c_mmap E a len prot flags fd off s = (a, s')"
    and "\<And>x. heap s' x = (if x - a < len then if (ucast flags :: u64) AND 32 \<noteq> 0 then 0 else fdata fd (unat off + unat (x - a)) else heap s x)"
    and "\<And>x. page_perm E (trace s') x = (if x - a < len then prot else page_perm E (trace s) x)"
    and "\<exists>sel t fl off fd prot'. trace s' = SCall Inline sel NR_mmap a len prot' fl fd off # t" and "kernel E (trace s') = a"
proof -
  let ?t = "SCall Inline (sud_selector s) NR_mmap a len (ucast prot) (ucast flags) fd off # trace s"
  have g: "kernel E ?t = a" "\<And>x. x - a < len \<Longrightarrow> memory E ?t x = (if (ucast flags :: u64) AND 32 \<noteq> 0 then 0 else fdata fd (unat off + unat (x - a)))"
    "\<And>x. page_perm E ?t x = (if x - a < len then prot else page_perm E (trace s) x)"
    using k l f high_addr(1) [OF a] by (simp_all add: kernel_maps_def mmap_grants_def Let_def)
  show thesis
    by (rule that [of "s\<lparr>trace := ?t, heap := (\<lambda>x. if x - a < len then memory E ?t x else heap s x)\<rparr>"])
      (use high_addr(1) [OF a] g in \<open>auto simp: c_mmap_def issue_def Let_def mem_at_def not_less cong: if_cong\<close>)
qed

lemma c_mprotect_after:
  assumes k: "kernel_maps E fdata" and t: "\<exists>sel t fl off fd prot'. trace s = SCall Inline sel NR_mmap a len prot' fl fd off # t" "kernel E (trace s) = a"
  obtains s' where "c_mprotect E a len prot s = (True, s')" "heap s' = heap s"
    "\<And>x. page_perm E (trace s') x = (if x - a < len then prot else page_perm E (trace s) x)"
proof -
  obtain sel t fl off fd prot' where e: "trace s = SCall Inline sel NR_mmap a len prot' fl fd off # t" using t(1) by blast
  let ?t = "SCall Inline (sud_selector s) NR_mprotect a len (ucast prot) 0 0 0 # trace s"
  have "kernel E ?t = 0" "\<And>x. page_perm E ?t x = (if x - a < len then prot else page_perm E (trace s) x)"
    using k t(2) unfolding e by (simp_all add: kernel_maps_def mprotect_grants_def Let_def)
  then show thesis by (intro that [of "s\<lparr>trace := ?t\<rparr>"]) (auto simp: c_mprotect_def issue_def Let_def)
qed

lemma memset0_ok:
  assumes "\<And>x. unat (x - a) < unat n \<Longrightarrow> may_write E s x"
  shows "memset0 E a n s = Inr (s\<lparr>heap := \<lambda>x. if unat (x - a) < unat n then 0 else heap s x\<rparr>)"
proof -
  have "may_write E s (a + of_nat i)" if "i < unat n" for i
    using that assms [of "a + of_nat i"] unat_lt_2p64 [of n] by (simp add: unat_of_nat_small)
  then show ?thesis by (simp add: memset0_def list_all_iff put_bytes_def fun_eq_iff)
qed

lemma clear_tail_partial:
  assumes k: "kernel_maps E fdata" and part: "real_filesz ph < filesz_page ph"
    and t: "\<exists>sel t fl off fd prot'. trace s = SCall Inline sel NR_mmap a (filesz_page ph) prot' fl fd off # t" "kernel E (trace s) = a"
    and p: "\<And>x. page_perm E (trace s) x = (if x - a < filesz_page ph then seg_mmap_prot ph else P x)"
  obtains s' where "clear_tail E a ph s = Inr (True, s')"
    "\<And>x. heap s' x = (if unat (real_filesz ph) \<le> unat (x - a) \<and> unat (x - a) < unat (filesz_page ph) then 0 else heap s x)"
    "\<And>x. page_perm E (trace s') x = (if x - a < filesz_page ph then seg_prot ph else P x)"
proof -
  let ?F = "filesz_page ph" and ?R = "real_filesz ph"
  let ?s = "s\<lparr>heap := \<lambda>x. if unat ?R \<le> unat (x - a) \<and> unat (x - a) < unat ?F then 0 else heap s x\<rparr>"
  have m: "seg_mmap_prot ph = 3" using part by (simp add: seg_mmap_prot_def)
  have r: "unat (x - (a + ?R)) < unat (?F - ?R) \<longleftrightarrow> unat ?R \<le> unat (x - a) \<and> unat (x - a) < unat ?F" for x
    using part by (intro sub_range) (simp add: word_less_nat_alt)
  have "memset0 E (a + ?R) (?F - ?R) s = Inr ?s"
    by (subst memset0_ok) (auto simp: r may_write_def p m word_less_nat_alt)
  then have c: "clear_tail E a ph s = Inr (reprotect E a ?F ph ?s)" using part by (simp add: clear_tail_def)
  obtain s' where s': "c_mprotect E a ?F (seg_prot ph) ?s = (True, s')" "heap s' = heap ?s"
    "\<And>x. page_perm E (trace s') x = (if x - a < ?F then seg_prot ph else page_perm E (trace ?s) x)"
    by (rule c_mprotect_after [OF k, of ?s a ?F "seg_prot ph"]) (use t in auto)
  show thesis
  proof (cases "seg_prot ph = 3")
    case True
    then show thesis using c p m by (intro that [of ?s]) (auto simp: reprotect_def)
  next
    case False
    then show thesis using c s' p m by (intro that [of s']) (auto simp: reprotect_def)
  qed
qed

lemma clear_tail_ok:
  assumes k: "kernel_maps E fdata" and ok: "seg_ok base ph" "ph_type ph = 1"
    and t: "\<exists>sel t fl off fd prot'. trace s = SCall Inline sel NR_mmap a (filesz_page ph) prot' fl fd off # t" "kernel E (trace s) = a"
    and p: "\<And>x. page_perm E (trace s) x = (if x - a < filesz_page ph then seg_mmap_prot ph else P x)"
  obtains s' where "clear_tail E a ph s = Inr (True, s')"
    "\<And>x. heap s' x = (if unat (real_filesz ph) \<le> unat (x - a) \<and> unat (x - a) < unat (filesz_page ph) then 0 else heap s x)"
    "\<And>x. page_perm E (trace s') x = (if x - a < filesz_page ph then seg_prot ph else P x)"
proof (cases "real_filesz ph < filesz_page ph")
  case False
  then have "align_diff ph = 0 \<or> seg_prot ph = 3" "seg_mmap_prot ph = (if align_diff ph = 0 then seg_prot ph else 3)"
    using ok by (auto simp: seg_ok_def seg_mmap_prot_def word_neq_0_conv)
  then have "seg_mmap_prot ph = seg_prot ph" by auto
  then show thesis using False p by (intro that [of s]) (auto simp: clear_tail_def word_less_nat_alt)
next
  case True
  show thesis by (rule clear_tail_partial [OF k True t p that])
qed

lemma clear_head_ok:
  assumes ok: "seg_ok base ph" "ph_type ph = 1"
    and p: "\<And>x. page_perm E (trace s) x = (if x - a < filesz_page ph then seg_prot ph else P x)"
  shows "clear_head E a ph s = Inr (True, s\<lparr>heap := \<lambda>x. if unat (x - a) < unat (align_diff ph) then 0 else heap s x\<rparr>)"
proof (cases "align_diff ph = 0")
  case True
  then show ?thesis by (simp add: clear_head_def)
next
  case False
  then have w: "seg_prot ph = 3" and m: "seg_mmap_prot ph = 3" and g: "align_diff ph > 0"
    using ok by (auto simp: seg_ok_def seg_mmap_prot_def word_neq_0_conv)
  have "x - a < filesz_page ph" if "unat (x - a) < unat (align_diff ph)" for x
    using that seg_sizes(1,2) [OF seg_ok_fits [OF ok]] by (simp add: word_less_nat_alt)
  then show ?thesis using g
    by (simp add: clear_head_def reprotect_def w m memset0_ok may_write_def p)
qed

lemma map_anonymous_ok:
  assumes k: "kernel_maps E fdata" and ok: "seg_ok base ph" "ph_type ph = 1"
    and p: "\<And>x. page_perm E (trace s) x = (if x - (base + vaddr_page ph) < filesz_page ph then seg_prot ph else P x)"
  obtains s' where "map_anonymous E base ph s = Inr (True, s')"
    "\<And>x. heap s' x = (let d = unat (x - (base + vaddr_page ph)) in
       if unat (filesz_page ph) \<le> d \<and> d < unat (memsz_page ph) then 0 else heap s x)"
    "\<And>x. page_perm E (trace s') x = (if x - (base + vaddr_page ph) < memsz_page ph then seg_prot ph else P x)"
proof (cases "filesz_page ph < memsz_page ph")
  case False
  then have "memsz_page ph = filesz_page ph" using seg_sizes(3) [OF seg_ok_fits [OF ok]] by (simp add: word_less_nat_alt word_unat_eq_iff)
  then show thesis using False p by (intro that [of s]) (auto simp: map_anonymous_def Let_def)
next
  case True
  let ?a = "base + vaddr_page ph" and ?F = "filesz_page ph" and ?M = "memsz_page ph"
  have le: "unat ?F \<le> unat ?M" by (rule seg_sizes(3) [OF seg_ok_fits [OF ok]])
  have b: "unat ?a < 2 ^ 61" "unat ?F < 2 ^ 61 + 8192"
    using ok seg_sizes(3,6) [OF seg_ok_fits [OF ok]] by (simp_all add: seg_ok_def seg_fits_def)
  have r: "x - (?a + ?F) < ?M - ?F \<longleftrightarrow> unat ?F \<le> unat (x - ?a) \<and> unat (x - ?a) < unat ?M" for x
    using sub_range [OF le, of x ?a] by (simp add: word_less_nat_alt)
  obtain s' where s': "c_mmap E (?a + ?F) (?M - ?F) (seg_prot ph) (MAP_FIXED OR MAP_PRIVATE OR MAP_ANONYMOUS) (- 1) 0 s = (?a + ?F, s')"
    "\<And>x. heap s' x = (if x - (?a + ?F) < ?M - ?F then if (ucast (50 :: c_int) :: u64) AND 32 \<noteq> 0 then 0 else fdata (- 1) (unat (0 :: u64) + unat (x - (?a + ?F))) else heap s x)"
    "\<And>x. page_perm E (trace s') x = (if x - (?a + ?F) < ?M - ?F then seg_prot ph else page_perm E (trace s) x)"
    by (rule c_mmap_fixed [OF k, of "?M - ?F" "?a + ?F" "MAP_FIXED OR MAP_PRIVATE OR MAP_ANONYMOUS" "seg_prot ph" "- 1" 0 s])
      (use True b in \<open>auto simp: word_less_nat_alt unat_plus_nowrap\<close>)
  have ne: "?a + ?F \<noteq> - 1" by (rule high_addr) (use b in \<open>simp add: unat_plus_nowrap\<close>)
  show thesis
  proof (rule that [of s'])
    show "map_anonymous E base ph s = Inr (True, s')" using True s'(1) ne by (simp add: map_anonymous_def)
    show "heap s' x = (let d = unat (x - ?a) in if unat ?F \<le> d \<and> d < unat ?M then 0 else heap s x)" for x
      by (simp add: s'(2) r Let_def)
    show "page_perm E (trace s') x = (if x - ?a < ?M then seg_prot ph else P x)" for x
      using le by (auto simp: s'(3) r p) (simp_all add: word_less_nat_alt)
  qed
qed

lemma in_seg_page: "in_seg base ph x \<Longrightarrow> ph_type ph = 1 \<and> unat (x - (base + vaddr_page ph)) < unat (memsz_page ph)"
  by (simp add: in_seg_def word_less_nat_alt)

text \<open>The distance from the start of the segment, and from the start of its first page.\<close>

lemma seg_distance:
  assumes ok: "seg_ok base ph" "ph_type ph = 1" and d: "unat (x - (base + vaddr_page ph)) < unat (memsz_page ph)"
  shows "unat (x - (base + ph_vaddr ph)) < unat (ph_filesz ph) \<longleftrightarrow>
      unat (align_diff ph) \<le> unat (x - (base + vaddr_page ph)) \<and> unat (x - (base + vaddr_page ph)) < unat (real_filesz ph)"
    and "unat (align_diff ph) \<le> unat (x - (base + vaddr_page ph)) \<Longrightarrow>
      unat (offset_page ph) + unat (x - (base + vaddr_page ph)) = unat (ph_offset ph) + unat (x - (base + ph_vaddr ph))"
proof -
  have e: "base + ph_vaddr ph = (base + vaddr_page ph) + align_diff ph" by (simp add: align_diff_def)
  have f: "ph_filesz ph = real_filesz ph - align_diff ph" by (simp add: real_filesz_def)
  show "unat (x - (base + ph_vaddr ph)) < unat (ph_filesz ph) \<longleftrightarrow>
      unat (align_diff ph) \<le> unat (x - (base + vaddr_page ph)) \<and> unat (x - (base + vaddr_page ph)) < unat (real_filesz ph)"
    unfolding e by (subst f, rule sub_range) (simp add: seg_sizes(1) [OF seg_ok_fits [OF ok]])
  assume "unat (align_diff ph) \<le> unat (x - (base + vaddr_page ph))"
  then have "unat (x - (base + ph_vaddr ph)) = unat (x - (base + vaddr_page ph)) - unat (align_diff ph)"
    unfolding e diff_diff_eq [symmetric] by (rule unat_minus_le)
  then show "unat (offset_page ph) + unat (x - (base + vaddr_page ph)) = unat (ph_offset ph) + unat (x - (base + ph_vaddr ph))"
    using \<open>unat (align_diff ph) \<le> _\<close> seg_sizes(5) [OF seg_ok_fits [OF ok]] by simp
qed

lemma map_segment_loads:
  assumes k: "kernel_maps E fdata" and ok: "seg_ok base ph"
  obtains s' where "map_segment E fd base ph s = Inr (True, s')" "seg_loaded E fdata fd base ph s'" "seg_frame E base ph s s'"
proof (cases "ph_type ph = 1")
  case False
  then show thesis by (intro that [of s]) (auto simp: map_segment_def seg_loaded_def seg_frame_def in_seg_def)
next
  case t: True
  let ?a = "base + vaddr_page ph" and ?F = "filesz_page ph" and ?R = "real_filesz ph" and ?M = "memsz_page ph" and ?D = "align_diff ph"
  note sz = seg_sizes [OF seg_ok_fits [OF ok t]]
  obtain s1 where s1: "c_mmap E ?a ?F (seg_mmap_prot ph) (MAP_FIXED OR MAP_PRIVATE) fd (offset_page ph) s = (?a, s1)"
    "\<And>x. heap s1 x = (if x - ?a < ?F then if (ucast (18 :: c_int) :: u64) AND 32 \<noteq> 0 then 0 else fdata fd (unat (offset_page ph) + unat (x - ?a)) else heap s x)"
    "\<And>x. page_perm E (trace s1) x = (if x - ?a < ?F then seg_mmap_prot ph else page_perm E (trace s) x)"
    "\<exists>sel t fl off fd prot'. trace s1 = SCall Inline sel NR_mmap ?a ?F prot' fl fd off # t" "kernel E (trace s1) = ?a"
    by (rule c_mmap_fixed [OF k, of ?F ?a "MAP_FIXED OR MAP_PRIVATE" "seg_mmap_prot ph" fd "offset_page ph" s])
      (use ok t sz(4) in \<open>auto simp: seg_ok_def seg_fits_def\<close>)
  obtain s2 where s2: "clear_tail E ?a ph s1 = Inr (True, s2)"
    "\<And>x. heap s2 x = (if unat ?R \<le> unat (x - ?a) \<and> unat (x - ?a) < unat ?F then 0 else heap s1 x)"
    "\<And>x. page_perm E (trace s2) x = (if x - ?a < ?F then seg_prot ph else page_perm E (trace s) x)"
    using clear_tail_ok [OF k ok t s1(4,5,3)] by blast
  define s3 where "s3 = s2\<lparr>heap := \<lambda>x. if unat (x - ?a) < unat ?D then 0 else heap s2 x\<rparr>"
  have s3: "clear_head E ?a ph s2 = Inr (True, s3)"
    "\<And>x. page_perm E (trace s3) x = (if x - ?a < ?F then seg_prot ph else page_perm E (trace s) x)"
    using clear_head_ok [OF ok t s2(3)] by (simp_all add: s3_def s2(3))
  obtain s4 where s4: "map_anonymous E base ph s3 = Inr (True, s4)"
    "\<And>x. heap s4 x = (let d = unat (x - ?a) in if unat ?F \<le> d \<and> d < unat ?M then 0 else heap s3 x)"
    "\<And>x. page_perm E (trace s4) x = (if x - ?a < ?M then seg_prot ph else page_perm E (trace s) x)"
    using map_anonymous_ok [OF k ok t s3(2)] by blast
  have ne: "?a \<noteq> - 1" using ok t high_addr(2) [of ?a] by (simp add: seg_ok_def seg_fits_def)
  have h: "heap s4 x = (if unat (x - ?a) < unat ?M
      then if unat ?D \<le> unat (x - ?a) \<and> unat (x - ?a) < unat ?R then fdata fd (unat (offset_page ph) + unat (x - ?a)) else 0
      else heap s x)" for x
    using sz(1-3) by (auto simp: s4(2) s3_def s2(2) s1(2) Let_def word_less_nat_alt)
  have "map_segment E fd base ph s = Inr (True, s4)"
    using t ne s1(1) s2(1) s3(1) s4(1) by (simp add: map_segment_def map_from_file_def and_then_def)
  moreover have "seg_loaded E fdata fd base ph s4"
    using seg_distance [OF ok t] by (auto simp: seg_loaded_def in_seg_page h s4(3) Let_def word_less_nat_alt)
  moreover have "seg_frame E base ph s s4"
    using t by (auto simp: seg_frame_def in_seg_def h s4(3) word_less_nat_alt)
  ultimately show thesis by (rule that)
qed

section \<open>The table of program headers\<close>

definition phdrs_of :: "mem \<Rightarrow> addr \<Rightarrow> nat \<Rightarrow> phdr list" where
  "phdrs_of m p n = map (\<lambda>i. phdr_at m (p + of_nat (56 * i))) [0..<n]"

lemma phdrs_of_Suc: "phdrs_of m p (Suc n) = phdr_at m p # phdrs_of m (p + 56) n"
  by (simp add: phdrs_of_def upt_rec [of 0] map_Suc_upt [symmetric] algebra_simps del: upt_Suc)

lemma phdr_at_cong:
  assumes "\<And>k. k < 56 \<Longrightarrow> m (p + of_nat k) = m' (p + of_nat k)"
  shows "phdr_at m p = phdr_at m' p"
proof -
  have o: "load64 m (p + of_nat j) = load64 m' (p + of_nat j)" if "j + 8 \<le> 56" for j
    using that by (intro load64_cong) (use assms [of "j + k" for k] in \<open>simp add: algebra_simps\<close>)
  have w: "load32 m (p + of_nat j) = load32 m' (p + of_nat j)" if "j + 4 \<le> 56" for j
    using that assms [of j] assms [of "j + 1"] assms [of "j + 2"] assms [of "j + 3"] by (simp add: load32_def algebra_simps)
  show ?thesis using o [of 8] o [of 16] o [of 32] o [of 40] w [of 0] w [of 4] by (simp add: phdr_at_def p_type_def p_vaddr_def)
qed

lemma phdrs_of_cong:
  assumes "\<And>k. k < 56 * n \<Longrightarrow> m (p + of_nat k) = m' (p + of_nat k)"
  shows "phdrs_of m p n = phdrs_of m' p n"
proof -
  have "phdr_at m (p + of_nat (56 * i)) = phdr_at m' (p + of_nat (56 * i))" if "i < n" for i
    using that by (intro phdr_at_cong) (use assms [of "56 * i + k" for k] in \<open>simp add: algebra_simps\<close>)
  then show ?thesis by (simp add: phdrs_of_def)
qed

text \<open>The segments do not overlap each other and leave the table itself alone.\<close>

definition segs_apart :: "addr \<Rightarrow> phdr list \<Rightarrow> bool" where
  "segs_apart base phs \<longleftrightarrow> sorted_wrt (\<lambda>ph ph'. \<forall>x. \<not> (in_seg base ph x \<and> in_seg base ph' x)) phs"

definition table_apart :: "addr \<Rightarrow> addr \<Rightarrow> phdr list \<Rightarrow> bool" where
  "table_apart base p phs \<longleftrightarrow> (\<forall>ph\<in>set phs. \<forall>k<56 * length phs. \<not> in_seg base ph (p + of_nat k))"

lemma seg_loaded_frame:
  assumes "seg_loaded E fdata fd base ph s" "\<And>x. in_seg base ph x \<Longrightarrow> heap s' x = heap s x \<and> page_perm E (trace s') x = page_perm E (trace s) x"
  shows "seg_loaded E fdata fd base ph s'"
  using assms by (auto simp: seg_loaded_def Let_def)

lemma map_segments_loads:
  assumes k: "kernel_maps E fdata" and "phs = phdrs_of (heap s) p n" and "\<forall>ph\<in>set phs. seg_ok base ph" "segs_apart base phs" "table_apart base p phs"
  shows "\<exists>s'. map_segments E fd base n p s = Inr (True, s') \<and> (\<forall>ph\<in>set phs. seg_loaded E fdata fd base ph s') \<and>
    (\<forall>x. (\<forall>ph\<in>set phs. \<not> in_seg base ph x) \<longrightarrow> heap s' x = heap s x \<and> page_perm E (trace s') x = page_perm E (trace s) x)"
  using assms(2-)
proof (induction n arbitrary: p s phs)
  case 0
  then show ?case by (simp add: phdrs_of_def)
next
  case (Suc n)
  let ?ph = "phdr_at (heap s) p" and ?r = "phdrs_of (heap s) (p + 56) n"
  have l: "length ?r = n" by (simp add: phdrs_of_def)
  have phs: "phs = ?ph # ?r" using Suc.prems(1) by (simp add: phdrs_of_Suc)
  have ok: "seg_ok base ?ph" using Suc.prems(2) by (simp add: phs)
  obtain s1 where s1: "map_segment E fd base ?ph s = Inr (True, s1)" "seg_loaded E fdata fd base ?ph s1" "seg_frame E base ?ph s s1"
    by (rule map_segment_loads [OF k ok, of fd s])
  have tab: "\<not> in_seg base ph (p + 56 + of_nat j)" if "ph \<in> set phs" "j < 56 * n" for ph j
    using Suc.prems(4) that l unfolding table_apart_def phs by (auto dest!: spec [of _ "56 + j"] simp: add.assoc)
  have r: "?r = phdrs_of (heap s1) (p + 56) n"
    by (rule phdrs_of_cong) (use s1(3) tab phs in \<open>simp add: seg_frame_def\<close>)
  have a: "segs_apart base ?r" "\<forall>ph\<in>set ?r. \<forall>x. \<not> (in_seg base ?ph x \<and> in_seg base ph x)"
    using Suc.prems(3) by (auto simp: segs_apart_def phs)
  have "table_apart base (p + 56) ?r" using tab by (auto simp: table_apart_def l phs)
  from Suc.IH [OF r _ a(1) this] Suc.prems(2) obtain s2 where s2: "map_segments E fd base n (p + 56) s1 = Inr (True, s2)"
    "\<forall>ph\<in>set ?r. seg_loaded E fdata fd base ph s2"
    "\<And>x. \<forall>ph\<in>set ?r. \<not> in_seg base ph x \<Longrightarrow> heap s2 x = heap s1 x \<and> page_perm E (trace s2) x = page_perm E (trace s1) x"
    unfolding phs by auto
  have "seg_loaded E fdata fd base ?ph s2" by (rule seg_loaded_frame [OF s1(2)]) (use a(2) s2(3) in blast)
  then show ?case using s1(1,3) s2 by (auto simp: phs and_then_def seg_frame_def)
qed

section \<open>Loading\<close>


text \<open>An example: one readable and executable segment of 256 bytes at 0x400000, with its headers at 0x10000.\<close>

fun demo_perm :: "scall list \<Rightarrow> addr \<Rightarrow> c_int" where
  "demo_perm [] x = 0"
| "demo_perm (c # t) x =
     (if (sc_nr c = NR_mmap \<or> sc_nr c = NR_mprotect) \<and> x - sc_a1 c < sc_a2 c then ucast (sc_a3 c) else demo_perm t x)"

definition demo_kernel :: "(u64 \<Rightarrow> nat \<Rightarrow> u8) \<Rightarrow> env" where
  "demo_kernel fdata = \<lparr>kernel = (\<lambda>t. case t of [] \<Rightarrow> 0 | c # _ \<Rightarrow> if sc_nr c = NR_mmap then sc_a1 c else 0),
     memory = (\<lambda>t x. case t of [] \<Rightarrow> 0 | c # _ \<Rightarrow> if sc_a4 c AND 32 \<noteq> 0 then 0 else fdata (sc_a5 c) (unat (sc_a6 c) + unat (x - sc_a1 c))),
     page_perm = demo_perm, page_key = (\<lambda>_ _. 0)\<rparr>"

lemma demo_kernel_maps: "kernel_maps (demo_kernel fdata) fdata"
  by (simp add: kernel_maps_def mmap_grants_def mprotect_grants_def getrandom_quiet_def demo_kernel_def Let_def)

definition demo_image :: mem where
  "demo_image x = (if x = 0x10010 then 2 else if x = 0x10020 then 64 else if x = 0x10038 then 1 else if x = 0x10040 then 1
     else if x = 0x10044 then 5 else if x = 0x10052 then 0x40 else if x = 0x10061 then 1 else if x = 0x10069 then 1 else 0)"

definition demo_seg :: phdr where
  "demo_seg = \<lparr>ph_type = 1, ph_flags = 5, ph_offset = 0, ph_vaddr = 0x400000, ph_filesz = 0x100, ph_memsz = 0x100\<rparr>"

definition demo_lds :: "mem \<Rightarrow> ldm" where
  "demo_lds m = \<lparr>trace = [], sud_selector = 0, heap = m, ld_malloc_lock = False, ld_malloc_initialized = False,
     ld_malloc_header_canary = 0, ld_malloc_footer_canary = 0, ld_malloc_freelist_head = 0\<rparr>"

definition demo_elf_file :: elf_file where
  "demo_elf_file = \<lparr>ef_size = 0x1000, ef_fd = 3, ef_header = 0x10000\<rparr>"

lemma demo_image_reads:
  "e_type demo_image 0x10000 = 2" "e_phoff demo_image 0x10000 = 64" "unat (e_phnum demo_image 0x10000) = 1" "phdrs_of demo_image 0x10040 1 = [demo_seg]"
  by (simp_all add: e_type_def e_phoff_def e_phnum_def phdrs_of_def phdr_at_def p_type_def p_vaddr_def load16_def load32_def load64_def
      demo_image_def demo_seg_def upt_rec)

lemmas seg_calc = vaddr_page_def memsz_page_def align_diff_def real_filesz_def filesz_page_def page_of_minus page_round_page_of

lemma demo_seg_sizes: "vaddr_page demo_seg = 0x400000" "memsz_page demo_seg = 4096" "align_diff demo_seg = 0" "real_filesz demo_seg = 0x100"
  by (simp_all add: seg_calc demo_seg_def)

lemma demo_seg_ok: "seg_ok 0 demo_seg"
  unfolding seg_ok_def seg_fits_def demo_seg_sizes by (simp add: demo_seg_def)

lemma demo_table: "table_apart 0 0x10040 [demo_seg]"
proof -
  have "\<not> (0x10040 + of_nat k - 0x400000 :: u64) < 4096" if "k < 56" for k
  proof -
    have "(0x10040 + of_nat k - 0x400000 :: u64) = of_nat (18446744073705422912 + k)" by simp
    also have "unat \<dots> = 18446744073705422912 + k" by (rule unat_of_nat_small) (use that in simp)
    finally show ?thesis using that by (simp add: word_less_nat_alt)
  qed
  then show ?thesis by (simp add: table_apart_def in_seg_def demo_seg_sizes)
qed


section \<open>A segment that does not load\<close>

text \<open>
  A segment that may not be written, does not start on a page and does not end on one: the loader clears the end of the last page,
  takes the right to write away and then faults when it clears the start of the first page.
\<close>

theorem map_segment_faults:
  assumes k: "kernel_maps E fdata" and ok: "seg_fits base ph" "ph_type ph = 1" and part: "real_filesz ph < filesz_page ph" "align_diff ph \<noteq> 0"
    and ro: "seg_prot ph AND PROT_WRITE = 0"
  shows "map_segment E fd base ph s = Inl Segv"
proof -
  let ?a = "base + vaddr_page ph" and ?F = "filesz_page ph"
  note sz = seg_sizes [OF ok(1)]
  obtain s1 where s1: "c_mmap E ?a ?F (seg_mmap_prot ph) (MAP_FIXED OR MAP_PRIVATE) fd (offset_page ph) s = (?a, s1)"
    "\<And>x. heap s1 x = (if x - ?a < ?F then if (ucast (18 :: c_int) :: u64) AND 32 \<noteq> 0 then 0 else fdata fd (unat (offset_page ph) + unat (x - ?a)) else heap s x)"
    "\<And>x. page_perm E (trace s1) x = (if x - ?a < ?F then seg_mmap_prot ph else page_perm E (trace s) x)"
    "\<exists>sel t fl off fd prot'. trace s1 = SCall Inline sel NR_mmap ?a ?F prot' fl fd off # t" "kernel E (trace s1) = ?a"
    by (rule c_mmap_fixed [OF k, of ?F ?a "MAP_FIXED OR MAP_PRIVATE" "seg_mmap_prot ph" fd "offset_page ph" s])
      (use ok sz(4) in \<open>auto simp: seg_fits_def\<close>)
  obtain s2 where s2: "clear_tail E ?a ph s1 = Inr (True, s2)"
    "\<And>x. heap s2 x = (if unat (real_filesz ph) \<le> unat (x - ?a) \<and> unat (x - ?a) < unat ?F then 0 else heap s1 x)"
    "\<And>x. page_perm E (trace s2) x = (if x - ?a < ?F then seg_prot ph else page_perm E (trace s) x)"
    using clear_tail_partial [OF k part(1) s1(4,5,3)] by blast
  have ne: "?a \<noteq> - 1" using ok high_addr(2) [of ?a] by (simp add: seg_fits_def)
  have "page_perm E (trace s2) ?a = seg_prot ph" using part(1) s2(3) by (simp add: word_less_nat_alt)
  then have "\<not> may_write E s2 (?a + of_nat 0)" using ro by (simp add: may_write_def)
  moreover have "0 < unat (align_diff ph)" using part(2) by (simp add: unat_gt_0)
  ultimately have "\<not> list_all (\<lambda>i. may_write E s2 (?a + of_nat i)) [0..<unat (align_diff ph)]"
    unfolding list_all_iff by (auto intro!: bexI [of _ 0])
  then have "memset0 E ?a (align_diff ph) s2 = Inl Segv" by (simp add: memset0_def)
  then have "clear_head E ?a ph s2 = Inl Segv" using part(2) by (simp add: clear_head_def word_neq_0_conv)
  then show ?thesis using ok(2) ne s1(1) s2(1) by (simp add: map_segment_def map_from_file_def and_then_def)
qed

theorem map_segment_faults_witness:
  "map_segment (demo_kernel (\<lambda>_ _. 0)) 3 0 (demo_seg\<lparr>ph_offset := 0x10, ph_vaddr := 0x400010\<rparr>) (demo_lds demo_image) = Inl Segv"
proof -
  let ?ph = "demo_seg\<lparr>ph_offset := 0x10, ph_vaddr := 0x400010\<rparr>"
  have sz: "vaddr_page ?ph = 0x400000" "align_diff ?ph = 0x10" "real_filesz ?ph = 0x110" "filesz_page ?ph = 4096" "seg_prot ?ph = 5"
    by (simp_all add: seg_calc seg_prot_def demo_seg_def)
  show ?thesis
  proof (rule map_segment_faults [OF demo_kernel_maps])
    show "seg_fits 0 ?ph" unfolding seg_fits_def sz by (simp add: demo_seg_def)
    show "ph_type ?ph = 1" by (simp add: demo_seg_def)
  qed (unfold sz, simp_all)
qed

section \<open>The base and the way back\<close>

lemma random_base_parts:
  "take_bit 12 (random_base r) = 0" "drop_bit 44 (random_base r) = 6"
proof -
  have e: "random_base r = (r AND push_bit 12 (mask 32)) OR push_bit 44 6"
  by (simp add: random_base_def page_of_minus push_bit_eq_mult mask_eq_exp_minus_1)
  have "(6 :: u64) = take_bit 3 6" by simp
  then have s: "bit (6 :: u64) i \<Longrightarrow> i < 3" for i by (metis bit_take_bit_iff)
  show "take_bit 12 (random_base r) = 0" unfolding e by (rule bit_word_eqI) (auto simp: bit_simps simp del: bit_numeral_word_iff)
  show "drop_bit 44 (random_base r) = 6" unfolding e 
    by (rule bit_word_eqI) (auto simp: bit_simps simp del: bit_numeral_word_iff dest: s)
qed

text \<open>
  The random base of a position independent file is the start of a page between 0x600000000000 and 0x6fffffffffff.
\<close>

theorem random_base_bounds:
  "page_aligned (random_base r) \<and> 0x600000000000 \<le> random_base r \<and> random_base r < 0x700000000000"
proof -
  have "page_aligned (random_base r)" using random_base_parts(1) [of r] by (simp add: page_aligned_def take_bit_eq_mod)
  moreover have "unat (random_base r) div 2 ^ 44 = 6" 
    using arg_cong [OF random_base_parts(2) [of r], of unat] by (simp add: drop_bit_eq_div unat_div)
  then have "6 * 2 ^ 44 \<le> unat (random_base r)" "unat (random_base r) < 7 * 2 ^ 44" by auto
  ultimately show ?thesis by (simp add: word_le_nat_alt word_less_nat_alt)
qed
text \<open>The requests that take the segments away again.\<close>

definition seg_unmap :: "u8 \<Rightarrow> addr \<Rightarrow> phdr \<Rightarrow> scall" where
  "seg_unmap sel base ph = SCall Inline sel NR_munmap (base + vaddr_page ph) (memsz_page ph) 0 0 0 0"

lemma unmap_load_segments_all:
  "unmap_load_segments E base n p s = (True, s') \<Longrightarrow> heap s' = heap s \<and>
     trace s' = rev (map (seg_unmap (sud_selector s) base) (filter (\<lambda>ph. ph_type ph = 1) (phdrs_of (heap s) p n))) @ trace s"
proof (induction n arbitrary: p s)
  case 0
  then show ?case by (simp add: phdrs_of_def)
next
  case (Suc n)
  show ?case
  proof (cases "ph_type (phdr_at (heap s) p) = 1")
    case False
    then show ?thesis using Suc.IH [of "p + 56" s] Suc.prems by (simp add: phdrs_of_Suc)
  next
    case True
    let ?s = "s\<lparr>trace := seg_unmap (sud_selector s) base (phdr_at (heap s) p) # trace s\<rparr>"
    have "unmap_load_segments E base n (p + 56) ?s = (True, s')"
      using Suc.prems True by (auto simp: c_munmap_def issue_def Let_def seg_unmap_def split: if_splits)
    from Suc.IH [OF this] show ?thesis using True by (simp add: phdrs_of_Suc)
  qed
qed

text \<open>
  If \<open>map_load_segments\<close> gives up, its last requests ask the kernel to unmap all pages of every load segment, also of those that
  were not mapped yet, and all of these were granted; otherwise the process ends.
\<close>

theorem map_load_segments_fails:
  assumes "map_load_segments E a info s = Inr (None, s')"
  defines "h \<equiv> ef_header info"
  shows "\<exists>base sel t. trace s' = rev (map (seg_unmap sel base) (filter (\<lambda>ph. ph_type ph = 1)
      (phdrs_of (heap s') (h + e_phoff (heap s) h) (unat (e_phnum (heap s) h))))) @ t"
proof -
  obtain base s1 where c: "choose_base E a (e_type (heap s) h) s = (base, s1)" by (cases "choose_base E a (e_type (heap s) h) s") blast
  have hp: "heap s1 = heap s" using c by (auto simp: choose_base_def issue_def Let_def split: if_splits)
  from assms(1) obtain s2 where "unmap_load_segments E base (unat (e_phnum (heap s) h)) (h + e_phoff (heap s) h) s2 = (True, s')"
    by (auto simp: map_load_segments_def Let_def c hp res_simps simp flip: h_def split: if_splits prod.splits)
  from unmap_load_segments_all [OF this] show ?thesis by auto
qed

text \<open>The same file, when the kernel has no memory: the segment is asked for, refused and unmapped.\<close>

definition poor_kernel :: env where
  "poor_kernel = \<lparr>kernel = (\<lambda>t. case t of [] \<Rightarrow> 0 | c # _ \<Rightarrow> if sc_nr c = NR_mmap then - 12 else 0), memory = (\<lambda>_ _. 0),
     page_perm = (\<lambda>_ _. 0), page_key = (\<lambda>_ _. 0)\<rparr>"

theorem map_load_segments_fails_witness:
  "\<exists>s' base sel t. map_load_segments poor_kernel 8 demo_elf_file (demo_lds demo_image) = Inr (None, s') \<and>
     trace s' = seg_unmap sel base demo_seg # t"
proof -
  have p: "phdr_at demo_image 0x10040 = demo_seg" using demo_image_reads(4) by (simp add: phdrs_of_def)
  have q: "ph_type demo_seg = 1" by (simp add: demo_seg_def)
  have "\<exists>s'. map_load_segments poor_kernel 8 demo_elf_file (demo_lds demo_image) = Inr (None, s') \<and> heap s' = demo_image"
    by (simp add: map_load_segments_def Let_def demo_elf_file_def demo_lds_def demo_image_reads(1-3) choose_base_def p q map_segment_def
        map_from_file_def c_mmap_def issue_def poor_kernel_def and_then_def c_munmap_def)
  then obtain s' where s': "map_load_segments poor_kernel 8 demo_elf_file (demo_lds demo_image) = Inr (None, s')" "heap s' = demo_image" by blast
  from map_load_segments_fails [OF s'(1)] show ?thesis
    using s' q by (auto simp: demo_elf_file_def demo_lds_def demo_image_reads(1-3) demo_image_reads(4) [unfolded One_nat_def])
qed

end
