(* ===== verification/Dso.thy ===== *)
theory Dso
  imports Segments Symbols
begin

text \<open>
  The objects that the loader has loaded: \<open>dso.c\<close>, the rest of \<open>loader.c\<close>, \<open>libpath.c\<close>, \<open>dynlink.c\<close>, \<open>deps.c\<close>, \<open>init.c\<close>, \<open>util.c\<close> and
  \<open>dlfcn.c\<close> (\<open>src/src/secpoline_loader/loader/\<close>). A \<open>dso_t\<close> has 104 bytes of the heap and is read and written field by field; a
  \<open>libpath_t\<close> or \<open>libpath_list_t\<close>, which only lives on the stack or in a global variable, is a record. Strings are zero-terminated bytes.
  What the C library allocates, the environment variables and the functions of loaded libraries are parameters. A walk of a list or a
  string has a number of rounds.
\<close>

section \<open>State and environment\<close>

record libpath =
  lp_paths :: addr
  lp_length :: u64

record libpath_context =
  cx_rpath :: "libpath list"
  cx_envpath :: libpath
  cx_runpath :: "libpath list"
  cx_defpath :: libpath

record lds = ldm +
  loaded_objects :: addr
  last_loaded :: addr
  self_dso :: addr
  dso_lock :: bool
  libc_allocs :: nat
  base_search_path :: libpath_context
  preload_list :: libpath

text \<open>
  \<open>l_strdup k\<close> is the address of the \<open>k\<close>-th allocation of the C library, 0 if it is refused; \<open>l_call f\<close> what the function at \<open>f\<close> of a
  loaded library does; \<open>l_noexec\<close> is \<open>env_noexec\<close>.
\<close>

record lenv =
  l_host :: env
  l_canaries :: canary_addrs
  l_rounds :: nat
  l_base_var :: addr
  l_strdup :: "nat \<Rightarrow> addr"
  l_getenv :: "string \<Rightarrow> addr"
  l_call :: "addr \<Rightarrow> lds \<Rightarrow> lds"
  l_noexec :: bool
  l_loader_base :: addr
  l_dynamic :: addr

definition ptr_of :: "addr option \<Rightarrow> addr" where "ptr_of a = (case a of None \<Rightarrow> 0 | Some x \<Rightarrow> x)"

definition wrb :: "addr \<Rightarrow> bool \<Rightarrow> lds \<Rightarrow> lds" where
  "wrb a v s = s\<lparr>heap := (heap s)(a := (if v then 1 else 0))\<rparr>"

definition put_string :: "addr \<Rightarrow> u8 list \<Rightarrow> lds \<Rightarrow> lds" where
  "put_string a str s = s\<lparr>heap := put_bytes (heap s) a (str @ [0])\<rparr>"

definition string_at :: "lenv \<Rightarrow> addr \<Rightarrow> lds \<Rightarrow> u8 list res" where
  "string_at L a s = c_string_at (l_rounds L) (heap s) a"

definition c_strdup :: "lenv \<Rightarrow> addr \<Rightarrow> lds \<Rightarrow> (addr \<times> lds) res" where
  "c_strdup L a s =
     rbind (string_at L a s)
     (\<lambda>str. let p = l_strdup L (libc_allocs s); s = s\<lparr>libc_allocs := Suc (libc_allocs s)\<rparr> in
            Inr (p, if p = 0 then s else put_string p str s))"

definition l_malloc :: "lenv \<Rightarrow> u64 \<Rightarrow> lds \<Rightarrow> (addr \<times> lds) res" where
  "l_malloc L = ld_malloc (l_host L) (l_canaries L) (l_rounds L)"

definition l_realloc :: "lenv \<Rightarrow> addr \<Rightarrow> u64 \<Rightarrow> lds \<Rightarrow> (addr \<times> lds) res" where
  "l_realloc L = ld_realloc (l_host L) (l_canaries L) (l_rounds L)"

definition l_free :: "lenv \<Rightarrow> addr \<Rightarrow> lds \<Rightarrow> lds res" where
  "l_free L p s = rbind (ld_free (l_host L) (l_canaries L) p s) (\<lambda>(_, s). Inr s)"

section \<open>The fields of an object\<close>

definition dso_path :: "lds \<Rightarrow> addr \<Rightarrow> addr" where "dso_path s d = rd s d"
definition dso_base :: "lds \<Rightarrow> addr \<Rightarrow> addr" where "dso_base s d = rd s (d + 8)"
definition dso_phdr :: "lds \<Rightarrow> addr \<Rightarrow> addr" where "dso_phdr s d = rd s (d + 16)"
definition dso_phdr_length :: "lds \<Rightarrow> addr \<Rightarrow> u64" where "dso_phdr_length s d = rd s (d + 32)"
definition dso_dyn :: "lds \<Rightarrow> addr \<Rightarrow> addr" where "dso_dyn s d = rd s (d + 40)"
definition dso_entry :: "lds \<Rightarrow> addr \<Rightarrow> addr" where "dso_entry s d = rd s (d + 48)"
definition dso_unloadable :: "lds \<Rightarrow> addr \<Rightarrow> bool" where "dso_unloadable s d = (heap s (d + 56) \<noteq> 0)"
definition dso_initialized :: "lds \<Rightarrow> addr \<Rightarrow> bool" where "dso_initialized s d = (heap s (d + 57) \<noteq> 0)"
definition dso_refcount :: "lds \<Rightarrow> addr \<Rightarrow> u64" where "dso_refcount s d = rd s (d + 64)"
definition dso_deps_elements :: "lds \<Rightarrow> addr \<Rightarrow> addr" where "dso_deps_elements s d = rd s (d + 72)"
definition dso_deps_length :: "lds \<Rightarrow> addr \<Rightarrow> u64" where "dso_deps_length s d = rd s (d + 80)"
definition dso_next :: "lds \<Rightarrow> addr \<Rightarrow> addr" where "dso_next s d = rd s (d + 88)"
definition dso_last :: "lds \<Rightarrow> addr \<Rightarrow> addr" where "dso_last s d = rd s (d + 96)"

section \<open>Paths\<close>

primrec basename_from :: "u8 list \<Rightarrow> u8 list \<Rightarrow> u8 list" where
  "basename_from base [] = base"
| "basename_from base (c # str) = basename_from (if c = 47 then str else base) str"

definition basename :: "u8 list \<Rightarrow> u8 list" where "basename str = basename_from str str"

definition pathmatch :: "u8 list \<Rightarrow> u8 list \<Rightarrow> bool" where
  "pathmatch name path = (if name \<noteq> [] \<and> hd name = 47 then name = path else name = basename path)"

section \<open>The list of objects\<close>

definition reset_dso :: "lds \<Rightarrow> lds" where
  "reset_dso s = s\<lparr>loaded_objects := 0, last_loaded := 0\<rparr>"

primrec dso_linked_from :: "nat \<Rightarrow> addr \<Rightarrow> addr \<Rightarrow> lds \<Rightarrow> bool res" where
  "dso_linked_from 0 cur d s = Inl NoFuel"
| "dso_linked_from (Suc n) cur d s =
     (if cur = 0 then Inr False else if cur = d then Inr True else dso_linked_from n (dso_next s cur) d s)"

definition dso_linked :: "lenv \<Rightarrow> addr \<Rightarrow> lds \<Rightarrow> bool res" where
  "dso_linked L d s = dso_linked_from (l_rounds L) (loaded_objects s) d s"

definition dso_link :: "addr \<Rightarrow> lds \<Rightarrow> lds" where
  "dso_link d s =
     (if last_loaded s = 0 then s\<lparr>loaded_objects := d, last_loaded := d\<rparr>
      else (wr (d + 96) (last_loaded s) (wr (last_loaded s + 88) d s))\<lparr>last_loaded := d\<rparr>)"

definition dso_ref :: "lenv \<Rightarrow> addr \<Rightarrow> lds \<Rightarrow> lds res" where
  "dso_ref L d s =
     (let s = wr (d + 64) (dso_refcount s d + 1) s in
      rbind (dso_linked L d s) (\<lambda>linked. Inr (if linked then s else dso_link d s)))"

primrec dso_find_from :: "nat \<Rightarrow> lenv \<Rightarrow> u8 list \<Rightarrow> addr \<Rightarrow> lds \<Rightarrow> addr res" where
  "dso_find_from 0 L name cur s = Inl NoFuel"
| "dso_find_from (Suc n) L name cur s =
     (if cur = 0 then Inr 0
      else rbind (string_at L (dso_path s cur) s)
        (\<lambda>path. if pathmatch name path then Inr cur else dso_find_from n L name (dso_next s cur) s))"

definition dso_find :: "lenv \<Rightarrow> u8 list \<Rightarrow> lds \<Rightarrow> addr res" where
  "dso_find L name s = dso_find_from (l_rounds L) L name (loaded_objects s) s"

section \<open>Initialisers and finalisers\<close>

text \<open>\<open>pthread_mutex_unlock(&dso_lock); f(); pthread_mutex_lock(&dso_lock)\<close>, unless \<open>env_noexec\<close>.\<close>

definition run_function :: "lenv \<Rightarrow> addr \<Rightarrow> lds \<Rightarrow> lds res" where
  "run_function L f s =
     (if l_noexec L then Inr s
      else let s = l_call L f (s\<lparr>dso_lock := False\<rparr>) in if dso_lock s then Inl Deadlock else Inr (s\<lparr>dso_lock := True\<rparr>))"

primrec run_array :: "lenv \<Rightarrow> addr \<Rightarrow> nat \<Rightarrow> lds \<Rightarrow> lds res" where
  "run_array L a 0 s = Inr s"
| "run_array L a (Suc n) s = rbind (run_function L (rd s a) s) (run_array L (a + 8) n)"

definition run_all :: "lenv \<Rightarrow> addr option \<Rightarrow> (lds \<Rightarrow> addr option res) \<Rightarrow> (lds \<Rightarrow> u64 res) \<Rightarrow> lds \<Rightarrow> lds res" where
  "run_all L f get_array get_length s =
     rbind (case f of None \<Rightarrow> Inr s | Some a \<Rightarrow> run_function L a s)
     (\<lambda>s. rbind (get_array s) (\<lambda>arr. rbind (get_length s)
     (\<lambda>len. case arr of None \<Rightarrow> Inr s | Some a \<Rightarrow> run_array L a (unat len) s)))"

text \<open>\<open>dso_ref\<close>, the functions, \<open>dso_unref\<close>; the latter is the argument \<open>unref\<close> because it leads back here.\<close>

definition dso_initialize :: "lenv \<Rightarrow> (addr \<Rightarrow> lds \<Rightarrow> lds res) \<Rightarrow> addr \<Rightarrow> lds \<Rightarrow> lds res" where
  "dso_initialize L unref d s =
     rbind (dso_ref L d s)
     (\<lambda>s. rbind (dyn_get_init (l_rounds L) (heap s) (dso_dyn s d) (dso_base s d))
     (\<lambda>init. rbind (run_all L init (\<lambda>s. dyn_get_init_array (l_rounds L) (heap s) (dso_dyn s d) (dso_base s d))
                      (\<lambda>s. dyn_get_init_array_length (l_rounds L) (heap s) (dso_dyn s d)) s)
     (\<lambda>s. rbind (unref d s) (\<lambda>s. Inr (wrb (d + 57) True s)))))"

definition dso_finalize :: "lenv \<Rightarrow> (addr \<Rightarrow> lds \<Rightarrow> lds res) \<Rightarrow> addr \<Rightarrow> lds \<Rightarrow> lds res" where
  "dso_finalize L unref d s =
     rbind (dso_ref L d s)
     (\<lambda>s. rbind (dyn_get_fini (l_rounds L) (heap s) (dso_dyn s d) (dso_base s d))
     (\<lambda>fini. rbind (run_all L fini (\<lambda>s. dyn_get_fini_array (l_rounds L) (heap s) (dso_dyn s d) (dso_base s d))
                      (\<lambda>s. dyn_get_fini_array_length (l_rounds L) (heap s) (dso_dyn s d)) s)
     (unref d)))"

section \<open>Unloading\<close>

primrec unref_deps :: "nat \<Rightarrow> (addr \<Rightarrow> lds \<Rightarrow> lds res) \<Rightarrow> addr \<Rightarrow> u64 \<Rightarrow> lds \<Rightarrow> lds res" where
  "unref_deps 0 unref d i s = Inl NoFuel"
| "unref_deps (Suc n) unref d i s =
     (if i < dso_deps_length s d
      then rbind (unref (rd s (dso_deps_elements s d + 8 * i)) s) (unref_deps n unref d (i + 1))
      else Inr s)"

definition dso_unload_deps :: "lenv \<Rightarrow> (addr \<Rightarrow> lds \<Rightarrow> lds res) \<Rightarrow> addr \<Rightarrow> lds \<Rightarrow> lds res" where
  "dso_unload_deps L unref d s =
     rbind (unref_deps (l_rounds L) unref d 0 s)
     (\<lambda>s. rbind (l_free L (dso_deps_elements s d) s) (\<lambda>s. Inr (wr (d + 80) 0 (wr (d + 72) 0 s))))"

definition dso_unload :: "lenv \<Rightarrow> addr \<Rightarrow> lds \<Rightarrow> (bool \<times> lds) res" where
  "dso_unload L d s =
     (let (ok, s) = (if dso_unloadable s d
                     then unmap_load_segments (l_host L) (dso_base s d) (unat (dso_phdr_length s d)) (dso_phdr s d) s else (True, s)) in
      rbind (l_free L (dso_deps_elements s d) s)
      (\<lambda>s. rbind (l_free L (dso_phdr s d) s)
      (\<lambda>s. rbind (l_free L (dso_path s d) s)
      (\<lambda>s. rbind (l_free L d s) (\<lambda>s. Inr (ok, s))))))"

definition dso_dynunload :: "lenv \<Rightarrow> (addr \<Rightarrow> lds \<Rightarrow> lds res) \<Rightarrow> addr \<Rightarrow> lds \<Rightarrow> lds res" where
  "dso_dynunload L unref d s =
     rbind (dso_unload_deps L unref d s) (\<lambda>s. rbind (dso_unload L d s) (\<lambda>(_, s). Inr s))"

text \<open>The pointers around an object that leaves the list.\<close>

definition dso_cut :: "addr \<Rightarrow> lds \<Rightarrow> lds" where
  "dso_cut d s =
     (let s = (if dso_last s d \<noteq> 0 then wr (dso_last s d + 88) (dso_next s d) s else s);
          s = (if dso_next s d \<noteq> 0 then wr (dso_next s d + 96) (dso_last s d) s else s);
          s = (if loaded_objects s = d then s\<lparr>loaded_objects := dso_next s d\<rparr> else s) in
      if last_loaded s = d then s\<lparr>last_loaded := dso_last s d\<rparr> else s)"

definition dso_unlink :: "lenv \<Rightarrow> (addr \<Rightarrow> lds \<Rightarrow> lds res) \<Rightarrow> addr \<Rightarrow> lds \<Rightarrow> lds res" where
  "dso_unlink L unref d s =
     rbind (if dso_initialized s d then dso_finalize L unref d s else Inr s)
     (\<lambda>s. if dso_refcount s d > 1 then Inr s else dso_dynunload L unref d (dso_cut d s))"

primrec dso_unref :: "nat \<Rightarrow> lenv \<Rightarrow> addr \<Rightarrow> lds \<Rightarrow> lds res" where
  "dso_unref 0 L d s = Inl NoFuel"
| "dso_unref (Suc n) L d s =
     (if dso_refcount s d = 1 then dso_unlink L (dso_unref n L) d s else Inr (wr (d + 64) (dso_refcount s d - 1) s))"

section \<open>Loading\<close>

definition copy_phdrs :: "lenv \<Rightarrow> addr \<Rightarrow> u64 \<Rightarrow> lds \<Rightarrow> (addr \<times> lds) res" where
  "copy_phdrs L phdr phdr_length s =
     rbind (l_malloc L (phdr_length * 56) s)
     (\<lambda>(copy, s). Inr (copy, if copy = 0 then s else ld_memmove copy phdr (phdr_length * 56) s))"

text \<open>The fields of a new object, with \<open>refcount\<close>, \<open>deps\<close>, \<open>next\<close> and \<open>last\<close> cleared.\<close>

definition fill_dso :: "addr \<Rightarrow> addr \<Rightarrow> addr \<Rightarrow> addr \<Rightarrow> u64 \<Rightarrow> addr \<Rightarrow> addr \<Rightarrow> bool \<Rightarrow> lds \<Rightarrow> lds" where
  "fill_dso d path base phdr phdr_length dyn entry unloadable s =
     wr (d + 96) 0 (wr (d + 88) 0 (wr (d + 80) 0 (wr (d + 72) 0 (wr (d + 64) 0 (wrb (d + 57) False (wrb (d + 56) unloadable
     (wr (d + 48) entry (wr (d + 40) dyn (wr (d + 32) phdr_length (wr (d + 16) phdr (wr (d + 8) base (wr d path s))))))))))))"

definition dso_load :: "lenv \<Rightarrow> addr \<Rightarrow> lds \<Rightarrow> (addr \<times> lds) res" where
  "dso_load L path s =
     (let E = l_host L; (opened, s) = open_elf E path s in
      case opened of None \<Rightarrow> Inr (0, s)
      | Some info \<Rightarrow>
        let h = ef_header info; phdr = h + e_phoff (heap s) h; phdr_length = ucast (e_phnum (heap s) h);
            close_fail = (\<lambda>s. Inr (0, close_elf E info s));
            free_fail = (\<lambda>copy s. rbind (l_free L copy s) close_fail);
            unmap_fail = (\<lambda>base copy s. free_fail copy (snd (unmap_load_segments E base (unat (phdr_length :: u64)) copy s))) in
        if \<not> elf_verify_header (heap s) h then close_fail s
        else rbind (copy_phdrs L phdr phdr_length s)
        (\<lambda>(copy, s). if copy = 0 then close_fail s
          else rbind (map_load_segments E (l_base_var L) info s)
          (\<lambda>(mapped, s). case mapped of None \<Rightarrow> free_fail copy s
           | Some base \<Rightarrow>
             rbind (elf_verify_dynamic (l_rounds L) (heap s) phdr phdr_length base)
             (\<lambda>ok. if \<not> ok then unmap_fail base copy s
               else rbind (l_malloc L 104 s)
               (\<lambda>(d, s). if d = 0 then unmap_fail base copy s
                 else
                   let s = fill_dso d path base copy phdr_length (ptr_of (phdr_get_dyn (heap s) copy phdr_length base))
                             (base + e_entry (heap s) h) True (wr (d + 24) h s) in
                   rbind (dso_ref L d (close_elf E info s)) (\<lambda>s. Inr (d, s)))))))"

definition dso_load_initial :: "lenv \<Rightarrow> addr \<Rightarrow> addr \<Rightarrow> u64 \<Rightarrow> addr \<Rightarrow> lds \<Rightarrow> (addr \<times> lds) res" where
  "dso_load_initial L name phdr phdr_length entry s =
     rbind (l_malloc L 104 s)
     (\<lambda>(d, s). if d = 0 then Inr (0, s)
       else case phdr_get_ent (heap s) phdr phdr_length 6 of None \<Rightarrow> Inr (0, s)
       | Some ent \<Rightarrow>
         let base = phdr - p_vaddr (heap s) ent; s = wr (d + 8) base s in
         rbind (elf_verify_dynamic (l_rounds L) (heap s) phdr phdr_length base)
         (\<lambda>ok. if \<not> ok then Inr (0, s)
           else rbind (copy_phdrs L phdr phdr_length s)
           (\<lambda>(copy, s). if copy = 0 then Inr (0, s)
             else
               let s = fill_dso d name base copy phdr_length (ptr_of (phdr_get_dyn (heap s) copy phdr_length base)) entry False s in
               rbind (dso_ref L d s) (\<lambda>s. Inr (d, s)))))"

definition dso_load_self :: "lenv \<Rightarrow> lds \<Rightarrow> (addr \<times> lds) res" where
  "dso_load_self L s =
     (let dyn = l_dynamic L; base = l_loader_base L; n = l_rounds L in
      if self_dso s \<noteq> 0 then Inr (self_dso s, s)
      else rbind (dyn_verify_dynamic n (heap s) dyn base)
      (\<lambda>ok. if \<not> ok then Inr (0, s)
        else rbind (dyn_get_strtab n (heap s) dyn base)
        (\<lambda>strtab. rbind (dyn_get_soname n (heap s) dyn (ptr_of strtab))
        (\<lambda>soname. case soname of None \<Rightarrow> Inr (0, s)
          | Some name \<Rightarrow>
            rbind (c_strdup L name s)
            (\<lambda>(path, s). if path = 0 then Inr (0, s)
              else rbind (l_malloc L 104 s)
              (\<lambda>(d, s). if d = 0 then rbind (l_free L path s) (\<lambda>s. Inr (0, s))
                else rbind (dso_ref L d (fill_dso d path base 0 0 dyn 0 False s)) (\<lambda>s. Inr (d, s\<lparr>self_dso := d\<rparr>))))))))"

definition dso_unload_self :: "lenv \<Rightarrow> lds \<Rightarrow> lds res" where
  "dso_unload_self L s =
     rbind (if self_dso s \<noteq> 0 then dso_unref (l_rounds L) L (self_dso s) s else Inr s) (\<lambda>s. Inr (s\<lparr>self_dso := 0\<rparr>))"

end
