(* ===== verification/Dynlink.thy ===== *)
theory Dynlink
  imports Dso
begin

text \<open>
  Search paths (\<open>libpath.c\<close>), loading by name (\<open>dynlink.c\<close>), dependencies (\<open>deps.c\<close>) and the functions for applications
  (\<open>dlfcn.c\<close>), all of \<open>src/src/secpoline_loader/loader/\<close>.
\<close>

section \<open>Search paths\<close>

abbreviation (input) no_path :: libpath where "no_path \<equiv> \<lparr>lp_paths = 0, lp_length = 0\<rparr>"

primrec free_paths :: "lenv \<Rightarrow> addr \<Rightarrow> nat \<Rightarrow> lds \<Rightarrow> lds res" where
  "free_paths L a 0 s = Inr s"
| "free_paths L a (Suc n) s = rbind (l_free L (rd s a) s) (free_paths L (a + 8) n)"

definition free_libpath :: "lenv \<Rightarrow> libpath \<Rightarrow> lds \<Rightarrow> (libpath \<times> lds) res" where
  "free_libpath L lp s =
     rbind (free_paths L (lp_paths lp) (unat (lp_length lp)) s)
     (\<lambda>s. rbind (l_free L (lp_paths lp) s) (\<lambda>s. Inr (no_path, s)))"

text \<open>The loop of \<open>parse_libpath\<close> from \<open>cur\<close> on.\<close>

primrec parse_from :: "nat \<Rightarrow> lenv \<Rightarrow> addr \<Rightarrow> libpath \<Rightarrow> lds \<Rightarrow> (bool \<times> libpath \<times> lds) res" where
  "parse_from 0 L cur lp s = Inl NoFuel"
| "parse_from (Suc n) L cur lp s =
     (if heap s cur = 0 then Inr (True, lp, s)
      else rbind (string_at L cur s)
      (\<lambda>str. let piece = takeWhile (\<lambda>c. c \<noteq> 58) str; len = of_nat (length piece); next = cur + len in
        rbind (l_malloc L (len + 1) s)
        (\<lambda>(new_path, s). if new_path = 0 then rbind (free_libpath L lp s) (\<lambda>(lp, s). Inr (False, lp, s))
          else
            let s = put_string new_path piece s in
            rbind (l_realloc L (lp_paths lp) ((lp_length lp + 1) * 8) s)
            (\<lambda>(new_paths, s). if new_paths = 0
               then rbind (l_free L new_path s) (\<lambda>s. rbind (free_libpath L lp s) (\<lambda>(lp, s). Inr (False, lp, s)))
               else
                 let s = wr (new_paths + 8 * lp_length lp) new_path s in
                 parse_from n L (next + (if heap s next \<noteq> 0 then 1 else 0)) \<lparr>lp_paths = new_paths, lp_length = lp_length lp + 1\<rparr> s))))"

definition parse_libpath :: "lenv \<Rightarrow> addr \<Rightarrow> lds \<Rightarrow> (bool \<times> libpath \<times> lds) res" where
  "parse_libpath L path s = parse_from (l_rounds L) L path no_path s"

text \<open>\<open>load_libpath\<close> and \<open>unload_libpath\<close>; \<open>rpath\<close> and \<open>runpath\<close> point to one list element each.\<close>

definition load_var :: "lenv \<Rightarrow> string \<Rightarrow> (libpath \<Rightarrow> lds \<Rightarrow> lds) \<Rightarrow> lds \<Rightarrow> lds res" where
  "load_var L var set_path s =
     (if l_getenv L var = 0 then Inr s else rbind (parse_libpath L (l_getenv L var) s) (\<lambda>(_, lp, s). Inr (set_path lp s)))"

definition load_libpath :: "lenv \<Rightarrow> lds \<Rightarrow> lds res" where
  "load_libpath L s =
     rbind (load_var L ''LD_LIBRARY_PATH'' (\<lambda>lp s. s\<lparr>base_search_path := (base_search_path s)\<lparr>cx_envpath := lp\<rparr>\<rparr>) s)
     (\<lambda>s. rbind (load_var L ''LD_RPATH'' (\<lambda>lp s. s\<lparr>base_search_path := (base_search_path s)\<lparr>cx_rpath := [lp]\<rparr>\<rparr>) s)
     (\<lambda>s. rbind (load_var L ''LD_RUNPATH'' (\<lambda>lp s. s\<lparr>base_search_path := (base_search_path s)\<lparr>cx_runpath := [lp]\<rparr>\<rparr>) s)
     (load_var L ''LD_PRELOAD'' (\<lambda>lp s. s\<lparr>preload_list := lp\<rparr>))))"

primrec free_list :: "lenv \<Rightarrow> libpath list \<Rightarrow> lds \<Rightarrow> (libpath list \<times> lds) res" where
  "free_list L [] s = Inr ([], s)"
| "free_list L (lp # lps) s = rbind (free_libpath L lp s) (\<lambda>(lp, s). rbind (free_list L lps s) (\<lambda>(lps, s). Inr (lp # lps, s)))"

definition unload_libpath :: "lenv \<Rightarrow> lds \<Rightarrow> lds res" where
  "unload_libpath L s =
     (let cx = base_search_path s in
      rbind (free_libpath L (cx_envpath cx) s)
      (\<lambda>(ep, s). rbind (free_list L (cx_rpath cx) s)
      (\<lambda>(rp, s). rbind (free_list L (cx_runpath cx) s)
      (\<lambda>(np, s). rbind (free_libpath L (preload_list s) s)
      (\<lambda>(pl, s). Inr (s\<lparr>base_search_path := cx\<lparr>cx_envpath := ep, cx_rpath := rp, cx_runpath := np\<rparr>, preload_list := pl\<rparr>))))))"

text \<open>
  The loop of \<open>libpath_resolve\<close>. The size of the buffer is never noted, so that it is resized in every round. 4 is \<open>R_OK\<close>.
\<close>

primrec resolve_from :: "nat \<Rightarrow> lenv \<Rightarrow> u8 list \<Rightarrow> addr \<Rightarrow> addr \<Rightarrow> lds \<Rightarrow> (addr \<times> lds) res" where
  "resolve_from 0 L name a path s = rbind (l_free L path s) (\<lambda>s. Inr (0, s))"
| "resolve_from (Suc n) L name a path s =
     rbind (string_at L (rd s a) s)
     (\<lambda>dir. rbind (l_realloc L path (of_nat (length name + 1 + length dir + 1)) s)
     (\<lambda>(new_path, s). if new_path = 0 then rbind (l_free L path s) (\<lambda>s. Inr (0, s))
       else
         let s = put_string new_path (dir @ [47] @ name) s;
             (r, s) = issue (l_host L) Inline 21 new_path 4 0 0 0 0 s in
         if r = 0
         then rbind (l_realloc L new_path (of_nat (length (dir @ [47] @ name) + 1)) s)
           (\<lambda>(shrunk, s). if shrunk = 0 then rbind (l_free L new_path s) (\<lambda>s. Inr (0, s)) else Inr (shrunk, s))
         else resolve_from n L name (a + 8) new_path s))"

definition libpath_resolve :: "lenv \<Rightarrow> addr \<Rightarrow> libpath \<Rightarrow> lds \<Rightarrow> (addr \<times> lds) res" where
  "libpath_resolve L name lp s =
     (if heap s name = 47 then c_strdup L name s
      else rbind (string_at L name s) (\<lambda>nm. resolve_from (unat (lp_length lp)) L nm (lp_paths lp) 0 s))"

primrec libpath_list_resolve :: "lenv \<Rightarrow> addr \<Rightarrow> libpath list \<Rightarrow> lds \<Rightarrow> (addr \<times> lds) res" where
  "libpath_list_resolve L name [] s = Inr (0, s)"
| "libpath_list_resolve L name (lp # lps) s =
     rbind (libpath_resolve L name lp s) (\<lambda>(path, s). if path \<noteq> 0 then Inr (path, s) else libpath_list_resolve L name lps s)"

definition or_else :: "(addr \<times> lds) res \<Rightarrow> (lds \<Rightarrow> (addr \<times> lds) res) \<Rightarrow> (addr \<times> lds) res" where
  "or_else m k = rbind m (\<lambda>(path, s). if path \<noteq> 0 then Inr (path, s) else k s)"

definition libpath_context_resolve :: "lenv \<Rightarrow> addr \<Rightarrow> libpath_context \<Rightarrow> lds \<Rightarrow> (addr \<times> lds) res" where
  "libpath_context_resolve L name cx s =
     or_else (libpath_list_resolve L name (cx_rpath cx) s)
     (\<lambda>s. or_else (libpath_resolve L name (cx_envpath cx) s)
     (\<lambda>s. or_else (libpath_list_resolve L name (cx_runpath cx) s)
     (libpath_resolve L name (cx_defpath cx))))"

section \<open>Loading by name\<close>

definition dso_dynload :: "lenv \<Rightarrow> addr \<Rightarrow> lds \<Rightarrow> (addr \<times> lds) res" where
  "dso_dynload L path s =
     rbind (dso_load L path s) (\<lambda>(d, s). if d = 0 then rbind (l_free L path s) (\<lambda>s. Inr (0, s)) else Inr (d, s))"

definition dso_resolve_dynload :: "lenv \<Rightarrow> addr \<Rightarrow> libpath_context \<Rightarrow> lds \<Rightarrow> (addr \<times> lds) res" where
  "dso_resolve_dynload L name cx s =
     rbind (string_at L name s)
     (\<lambda>nm. rbind (dso_find L nm s)
     (\<lambda>d. if d = 0
        then rbind (libpath_context_resolve L name cx s)
          (\<lambda>(path, s). if path = 0 then Inr (0, s) else dso_dynload L path s)
        else rbind (dso_ref L d s) (\<lambda>s. Inr (d, s))))"

section \<open>Dependencies\<close>

text \<open>A path of the object itself goes in front of those of the context. The result has the element that is released at the end.\<close>

definition own_path :: "lenv \<Rightarrow> addr option \<Rightarrow> libpath list \<Rightarrow> lds \<Rightarrow> (libpath list \<times> libpath \<times> lds) res" where
  "own_path L str lps s =
     (case str of None \<Rightarrow> Inr (lps, no_path, s)
      | Some a \<Rightarrow> rbind (parse_libpath L a s) (\<lambda>(ok, lp, s). Inr (if ok then lp # lps else lps, lp, s)))"

definition deps_fail :: "lenv \<Rightarrow> libpath \<Rightarrow> libpath \<Rightarrow> addr \<Rightarrow> lds \<Rightarrow> (bool \<times> lds) res" where
  "deps_fail L rp np d s =
     rbind (free_libpath L rp s) (\<lambda>(_, s). rbind (free_libpath L np s)
     (\<lambda>(_, s). rbind (dso_unload_deps L (dso_unref (l_rounds L) L) d s)
     (\<lambda>s. rbind (dso_unref (l_rounds L) L d s) (\<lambda>s. Inr (False, s)))))"

primrec load_needed :: "nat \<Rightarrow> lenv \<Rightarrow> addr \<Rightarrow> addr \<Rightarrow> libpath_context \<Rightarrow> libpath \<Rightarrow> libpath \<Rightarrow> addr \<Rightarrow> lds \<Rightarrow> (bool \<times> lds) res" where
  "load_needed 0 L strtab ent cx rp np d s = Inl NoFuel"
| "load_needed (Suc n) L strtab ent cx rp np d s =
     (if rd s ent = 0
      then rbind (free_libpath L rp s) (\<lambda>(_, s). rbind (free_libpath L np s)
           (\<lambda>(_, s). rbind (dso_unref (l_rounds L) L d s) (\<lambda>s. Inr (True, s))))
      else if rd s ent = 1
      then rbind (l_realloc L (dso_deps_elements s d) ((dso_deps_length s d + 1) * 8) s)
        (\<lambda>(new_deps, s). if new_deps = 0 then deps_fail L rp np d s
          else
            let s = wr (d + 72) new_deps s in
            rbind (dso_resolve_dynload L (strtab + rd s (ent + 8)) cx s)
            (\<lambda>(dep, s). if dep = 0 then deps_fail L rp np d s
              else
                let len = dso_deps_length s d; s = wr (dso_deps_elements s d + 8 * len) dep (wr (d + 80) (len + 1) s) in
                load_needed n L strtab (ent + 16) cx rp np d s))
      else load_needed n L strtab (ent + 16) cx rp np d s)"

definition dso_load_deps :: "lenv \<Rightarrow> libpath_context \<Rightarrow> addr \<Rightarrow> lds \<Rightarrow> (bool \<times> lds) res" where
  "dso_load_deps L cx d s =
     rbind (dso_ref L d s)
     (\<lambda>s. rbind (dyn_get_strtab (l_rounds L) (heap s) (dso_dyn s d) (dso_base s d))
     (\<lambda>tab. let strtab = ptr_of tab in
        rbind (dyn_get_rpath (l_rounds L) (heap s) (dso_dyn s d) strtab)
        (\<lambda>rpath_str. rbind (own_path L rpath_str (cx_rpath cx) s)
        (\<lambda>(rps, rp, s). rbind (dyn_get_runpath (l_rounds L) (heap s) (dso_dyn s d) strtab)
        (\<lambda>runpath_str. rbind (own_path L runpath_str (cx_runpath cx) s)
        (\<lambda>(nps, np, s). load_needed (l_rounds L) L strtab (dso_dyn s d) (cx\<lparr>cx_rpath := rps, cx_runpath := nps\<rparr>) rp np d s))))))"

section \<open>Linking\<close>

text \<open>The loaded objects as the relocation sees them: their dynamic sections and bases.\<close>

primrec objects_from :: "nat \<Rightarrow> addr \<Rightarrow> lds \<Rightarrow> (addr \<times> addr) list res" where
  "objects_from 0 cur s = Inl NoFuel"
| "objects_from (Suc n) cur s =
     (if cur = 0 then Inr [] else rbind (objects_from n (dso_next s cur) s) (\<lambda>ds. Inr ((dso_dyn s cur, dso_base s cur) # ds)))"

definition dso_dynlink :: "lenv \<Rightarrow> addr \<Rightarrow> bool \<Rightarrow> libpath_context \<Rightarrow> lds \<Rightarrow> (bool \<times> lds) res" where
  "dso_dynlink L d exec cx s =
     (let fail = (\<lambda>s. rbind (dso_unref (l_rounds L) L d s) (\<lambda>s. Inr (False, s))) in
      rbind (dso_load_deps L cx d s)
      (\<lambda>(ok, s). if \<not> ok then fail s
        else rbind (objects_from (l_rounds L) (loaded_objects s) s)
        (\<lambda>objs. rbind (dso_relocate (l_rounds L) objs (dso_dyn s d) (dso_base s d) (heap s))
        (\<lambda>(ok, m). let s = s\<lparr>heap := m\<rparr> in
           if \<not> ok then fail s
           else rbind (if \<not> exec then dso_initialize L (dso_unref (l_rounds L) L) d s else Inr s) (\<lambda>s. Inr (True, s))))))"

section \<open>The functions for applications\<close>

definition with_dso_lock :: "(lds \<Rightarrow> ('a \<times> lds) res) \<Rightarrow> lds \<Rightarrow> ('a \<times> lds) res" where
  "with_dso_lock f s =
     (if dso_lock s then Inl Deadlock else rbind (f (s\<lparr>dso_lock := True\<rparr>)) (\<lambda>(r, s). Inr (r, s\<lparr>dso_lock := False\<rparr>)))"

definition dlopen :: "lenv \<Rightarrow> addr \<Rightarrow> lds \<Rightarrow> (addr \<times> lds) res" where
  "dlopen L name = with_dso_lock (\<lambda>s. dso_resolve_dynload L name (base_search_path s) s)"

definition dlclose :: "lenv \<Rightarrow> addr \<Rightarrow> lds \<Rightarrow> (c_int \<times> lds) res" where
  "dlclose L d = with_dso_lock (\<lambda>s. rbind (dso_unref (l_rounds L) L d s) (\<lambda>s. Inr (0, s)))"

definition dlsym :: "lenv \<Rightarrow> addr \<Rightarrow> addr \<Rightarrow> lds \<Rightarrow> (u64 \<times> lds) res" where
  "dlsym L d symbol = with_dso_lock
     (\<lambda>s. rbind (string_at L symbol s)
     (\<lambda>name. rbind (if d = 0 then rbind (objects_from (l_rounds L) (loaded_objects s) s) (\<lambda>objs. resolve_symbol (l_rounds L) (heap s) objs name)
                    else dso_resolve_symbol (l_rounds L) (heap s) (dso_dyn s d) (dso_base s d) name)
     (\<lambda>r. Inr (r, s))))"

end
