(* ===== verification/DsoProps.thy ===== *)
theory DsoProps
  imports Dynlink LdMallocInv
begin

text \<open>
  The list of loaded objects. The pointers \<open>next\<close> and \<open>last\<close> of the objects, \<open>loaded_objects\<close> and \<open>last_loaded\<close> form a doubly linked
  list; the operations of \<open>dso.c\<close> are those of a list of addresses. The layout of the link words is that of the free list of the
  allocator, 56 bytes further on.
\<close>

section \<open>Words and bytes\<close>

lemma bytes_of_word:
  "k < length bs \<Longrightarrow> k < 8 \<Longrightarrow> (ucast (drop_bit (8 * k) (word_of_bytes bs)) :: u8) = bs ! k"
proof (induction bs arbitrary: k)
  case (Cons b bs)
  show ?case
  proof (cases k)
    case 0
    then show ?thesis by (simp add: word_of_bytes_Cons) (rule bit_word_eqI, simp add: bit_simps)
  next
    case (Suc j)
    have "(ucast (drop_bit (8 * k) (word_of_bytes (b # bs))) :: u8) = ucast (drop_bit (8 * j) (word_of_bytes bs))"
      using Cons.prems Suc by (intro bit_word_eqI) (auto simp: word_of_bytes_Cons bit_simps dest: bit_imp_le_length)
    then show ?thesis using Cons Suc by simp
  qed
qed simp

lemma store64_load64: "store64 (load64 m a) = map (\<lambda>i. m (a + of_nat i)) [0..<8]"
  by (rule nth_equalityI) (simp_all add: store64_def load64_bytes bytes_of_word)

lemma put_store_load: "put_bytes m a (store64 (load64 m a)) = m"
proof
  fix x
  show "put_bytes m a (store64 (load64 m a)) x = m x"
    unfolding put_bytes_def store64_load64 by simp
qed

lemma put_store_twice: "put_bytes (put_bytes m a (store64 v)) a (store64 w) = put_bytes m a (store64 w)"
  by (simp add: put_bytes_def fun_eq_iff)

section \<open>The list\<close>

definition node :: "nat \<Rightarrow> bool" where
  "node x \<longleftrightarrow> 8 dvd x \<and> 0 < x \<and> x + 104 \<le> 2 ^ 63"

definition nodes_apart :: "nat list \<Rightarrow> bool" where
  "nodes_apart xs \<longleftrightarrow> distinct xs \<and> (\<forall>x\<in>set xs. node x) \<and> (\<forall>x\<in>set xs. \<forall>y\<in>set xs. x < y \<longrightarrow> x + 104 \<le> y)"

definition dso_links :: "lds \<Rightarrow> nat \<Rightarrow> u64" where
  "dso_links s a = wds s (a + 56)"

definition dso_list :: "lds \<Rightarrow> nat list \<Rightarrow> bool" where
  "dso_list s xs \<longleftrightarrow> loaded_objects s = hdw xs 0 \<and> last_loaded s = lastw 0 xs \<and> dll (dso_links s) 0 xs 0 \<and> nodes_apart xs"

text \<open>An object that can be linked: apart from the linked ones and with null pointers.\<close>

definition dso_ready :: "lds \<Rightarrow> nat list \<Rightarrow> nat \<Rightarrow> bool" where
  "dso_ready s xs d \<longleftrightarrow> d \<notin> set xs \<and> nodes_apart (xs @ [d]) \<and> dso_next s (ad d) = 0 \<and> dso_last s (ad d) = 0"

lemma node_al: "node x \<Longrightarrow> k \<le> 96 \<Longrightarrow> 8 dvd k \<Longrightarrow> al (x + k)"
  by (auto simp: node_def al_def)

lemma node_ad: "node x \<Longrightarrow> ad x \<noteq> 0" "node x \<Longrightarrow> node y \<Longrightarrow> ad x = ad y \<longleftrightarrow> x = y"
  by (auto simp: node_def ad_0_iff ad_eq_iff)

lemma links_wr: "node x \<Longrightarrow> k \<le> 96 \<Longrightarrow> 56 \<le> k \<Longrightarrow> 8 dvd k \<Longrightarrow> dso_links (wr (ad x + ad k) v s) = (dso_links s)(x + k - 56 := v)"
  using node_al [of x k] by (auto simp: ad_plus dso_links_def fun_eq_iff)

lemma ad_numeral: "(numeral k :: addr) = ad (numeral k)"
  by (simp add: ad_def)

lemma links_next: "node x \<Longrightarrow> dso_links (wr (ad x + 88) v s) = (dso_links s)(x + 32 := v)"
  using links_wr [of x 88 v s] by (simp add: ad_def add.commute)

lemma links_last: "node x \<Longrightarrow> dso_links (wr (ad x + 96) v s) = (dso_links s)(x + 40 := v)"
  using links_wr [of x 96 v s] by (simp add: ad_def add.commute)

lemma links_refcount: "node x \<Longrightarrow> dso_links (wr (ad x + 64) v s) = (dso_links s)(x + 8 := v)"
  using links_wr [of x 64 v s] by (simp add: ad_def add.commute)

lemma next_links: "node x \<Longrightarrow> dso_next s (ad x) = dso_links s (x + 32)"
  using node_al [of x 88] by (simp add: dso_next_def dso_links_def ad_plus rd_wds add.commute)

lemma last_links: "node x \<Longrightarrow> dso_last s (ad x) = dso_links s (x + 40)"
  using node_al [of x 96] by (simp add: dso_last_def dso_links_def ad_plus rd_wds add.commute)

lemma wr_lds [simp]:
  "loaded_objects (wr a v s) = loaded_objects s" "last_loaded (wr a v s) = last_loaded s" "dso_lock (wr a v s) = dso_lock s"
  by (simp_all add: wr_def)

lemma links_upd [simp]:
  "dso_links (s\<lparr>loaded_objects := a\<rparr>) = dso_links s" "dso_links (s\<lparr>last_loaded := a\<rparr>) = dso_links s" "dso_links (s\<lparr>dso_lock := b\<rparr>) = dso_links s"
  by (simp_all add: dso_links_def wds_def rd_def fun_eq_iff)

text \<open>The words of different objects differ.\<close>

lemma node_word:
  assumes "nodes_apart xs" "x \<in> set xs" "y \<in> set xs" "x + j = y + k" "j \<le> 96" "k \<le> 96"
  shows "x = y"
  using assms by (cases x y rule: linorder_cases) (fastforce simp: nodes_apart_def)+

lemma links_fresh: "nodes_apart (xs @ [d]) \<Longrightarrow> k \<le> 40 \<Longrightarrow> d + k \<notin> (\<Union>y\<in>set xs. links y)"
  using node_word [of "xs @ [d]" d _ k 32] node_word [of "xs @ [d]" d _ k 40] by (fastforce simp: links_def nodes_apart_def)

lemma node_of: "nodes_apart xs \<Longrightarrow> x \<in> set xs \<Longrightarrow> node x"
  by (simp add: nodes_apart_def)

section \<open>Linking and unlinking\<close>

lemma lastw_snoc [simp]: "lastw p (xs @ [x]) = ad x"
  by (simp add: lastw_def)

lemma dso_link_list:
  assumes l: "dso_list s xs" and r: "dso_ready s xs d"
  shows "dso_list (dso_link (ad d) s) (xs @ [d])"
proof -
  from r have d: "node d" "nodes_apart (xs @ [d])" and z: "dso_links s (d + 32) = 0" "dso_links s (d + 40) = 0"
    using next_links last_links by (auto simp: dso_ready_def nodes_apart_def)
  show ?thesis
  proof (cases xs rule: rev_cases)
    case Nil
    then show ?thesis using l d z by (auto simp: dso_list_def dso_link_def)
  next
    case (snoc ys y)
    from d(2) snoc have y: "node y" "nodes_apart (ys @ [y])" and ne: "y \<noteq> d" by (auto simp: nodes_apart_def)
    have last: "last_loaded s = ad y" "ad y \<noteq> 0" using l snoc node_ad(1) [OF y(1)] by (auto simp: dso_list_def)
    let ?M = "(dso_links s)(y + 32 := ad d, d + 40 := ad y)"
    have M: "dso_links (dso_link (ad d) s) = ?M"
      using last y(1) d(1) by (simp add: dso_link_def links_next links_last)
    have "y + 32 \<noteq> d + 32" "y + 32 \<noteq> d + 40" "y + 40 \<noteq> d + 32"
      using node_word [OF d(2), of y d] ne snoc by fastforce+
    moreover have "dll ((dso_links s)(y + 32 := ad d)) 0 (ys @ [y]) (ad d)"
      using l snoc links_fresh [OF y(2), of 32] by (intro dll_set_next) (auto simp: dso_list_def)
    then have "dll ?M 0 (ys @ [y]) (ad d)" using links_fresh [OF d(2), of 40] snoc by (subst dll_upd_other) auto
    ultimately have "dll ?M 0 (xs @ [d]) 0" using z snoc by (simp add: dll_append)
    moreover have "loaded_objects (dso_link (ad d) s) = hdw (xs @ [d]) 0" "last_loaded (dso_link (ad d) s) = ad d"
      using l last snoc by (simp_all add: dso_link_def dso_list_def hdw_append)
    ultimately show ?thesis using d(2) by (simp add: dso_list_def M)
  qed
qed

lemma nodes_sub: "nodes_apart xs \<Longrightarrow> distinct ys \<Longrightarrow> set ys \<subseteq> set xs \<Longrightarrow> nodes_apart ys"
  unfolding nodes_apart_def by blast

lemma links_off_list: "nodes_apart xs \<Longrightarrow> x \<in> set xs \<Longrightarrow> x \<notin> set ys \<Longrightarrow> set ys \<subseteq> set xs \<Longrightarrow> k \<le> 40 \<Longrightarrow> x + k \<notin> (\<Union>y\<in>set ys. links y)"
  using node_word [of xs x _ k 32] node_word [of xs x _ k 40] by (fastforce simp: links_def)

text \<open>The two pointers that lead past an object.\<close>

lemma dll_bypass:
  assumes a: "nodes_apart (ys @ d # zs)" and l: "dll M 0 (ys @ d # zs) 0"
  defines "M1 \<equiv> (if ys = [] then M else M(last ys + 32 := hdw zs 0))"
  shows "dll (if zs = [] then M1 else M1(hd zs + 40 := lastw 0 ys)) 0 (ys @ zs) 0"
proof -
  let ?M2 = "if zs = [] then M1 else M1(hd zs + 40 := lastw 0 ys)"
  have M: "dll M 0 ys (ad d)" "dll M (ad d) zs 0" using l by (simp_all add: dll_mid)
  have dis: "distinct ys" "distinct zs" "set ys \<inter> set zs = {}" "distinct (ys @ d # zs)" using a by (auto simp: nodes_apart_def)
  have y1: "dll M1 0 ys (hdw zs 0)"
  proof (cases ys rule: rev_cases)
    case (snoc us u)
    have "u + 32 \<notin> (\<Union>y\<in>set us. links y)" by (rule links_off_list [OF a]) (use snoc dis in auto)
    then show ?thesis using M(1) snoc by (simp add: M1_def dll_set_next)
  qed (simp add: M1_def)
  have z1: "dll M1 (ad d) zs 0"
  proof (cases ys rule: rev_cases)
    case (snoc us u)
    have "u + 32 \<notin> (\<Union>y\<in>set zs. links y)" by (rule links_off_list [OF a]) (use snoc dis in auto)
    then show ?thesis using M(2) snoc by (simp add: M1_def dll_upd_other)
  qed (use M in \<open>simp add: M1_def\<close>)
  show ?thesis
  proof (cases zs)
    case Nil
    then show ?thesis using y1 by simp
  next
    case (Cons w ws)
    have "w + 40 \<notin> (\<Union>y\<in>set ws. links y)" "w + 40 \<notin> (\<Union>y\<in>set ys. links y)"
      by (rule links_off_list [OF a]; use Cons dis in auto)+
    then have "dll ?M2 (lastw 0 ys) zs 0" "dll ?M2 0 ys (hdw zs 0)"
      using dll_set_last [of M1 "ad d" w ws 0 "lastw 0 ys"] dll_upd_other [of "w + 40" ys M1 "lastw 0 ys" 0 "hdw zs 0"] z1 y1 Cons by simp_all
    then show ?thesis by (simp add: dll_append)
  qed
qed

lemma dso_cut_list:
  assumes l: "dso_list s xs" and d: "d \<in> set xs"
  shows "dso_list (dso_cut (ad d) s) (remove1 d xs)"
proof -
  from l have a: "nodes_apart xs" by (simp add: dso_list_def)
  obtain ys zs where xs: "xs = ys @ d # zs" "d \<notin> set ys" using d by (meson split_list_first)
  have nd: "node x" if "x \<in> set xs" for x using that a by (simp add: nodes_apart_def)
  have dz: "d \<notin> set zs" using a xs by (simp add: nodes_apart_def)
  have p: "dso_last s (ad d) = lastw 0 ys" "dso_next s (ad d) = hdw zs 0"
    using l xs nd by (simp_all add: dso_list_def dll_mid next_links last_links)
  have l0: "lastw 0 ys = 0 \<longleftrightarrow> ys = []" using nd xs node_ad(1) by (auto simp: lastw_def)
  have z0: "hdw zs 0 = 0 \<longleftrightarrow> zs = []" using nd xs node_ad(1) by (cases zs) auto
  define s1 where "s1 = (if ys = [] then s else wr (lastw 0 ys + 88) (hdw zs 0) s)"
  define s2 where "s2 = (if zs = [] then s1 else wr (hdw zs 0 + 96) (lastw 0 ys) s1)"
  define s3 where "s3 = (if ys = [] then s2\<lparr>loaded_objects := hdw zs 0\<rparr> else s2)"
  let ?M1 = "if ys = [] then dso_links s else (dso_links s)(last ys + 32 := hdw zs 0)"
  let ?M2 = "if zs = [] then ?M1 else ?M1(hd zs + 40 := lastw 0 ys)"
  have m1: "dso_links s1 = ?M1" using nd xs by (auto simp: s1_def lastw_def links_next)
  have m2: "dso_links s2 = ?M2"
  proof (cases zs)
    case (Cons w ws)
    then have "node w" using nd xs by simp
    then show ?thesis using Cons m1 by (simp add: s2_def links_last)
  qed (simp add: s2_def m1)
  have u: "last ys + 32 \<noteq> d + k" if k: "ys \<noteq> []" "k \<le> 40" for k
  proof
    assume e: "last ys + 32 = d + k"
    have "last ys = d" by (rule node_word [OF a _ d e]) (use k xs in auto)
    then show False using k xs last_in_set by metis
  qed
  have w: "hd zs + 40 \<noteq> d + k" if k: "zs \<noteq> []" "k \<le> 40" for k
  proof
    assume e: "hd zs + 40 = d + k"
    have "hd zs = d" by (rule node_word [OF a _ d e]) (use k xs in auto)
    then show False using k dz hd_in_set by metis
  qed
  have p1: "dso_last s1 (ad d) = lastw 0 ys" "dso_next s1 (ad d) = hdw zs 0"
    using p u [of 32] u [of 40] unfolding next_links [OF nd [OF d]] last_links [OF nd [OF d]] m1 by auto
  have p2: "dso_last s2 (ad d) = lastw 0 ys" "dso_next s2 (ad d) = hdw zs 0"
    using p1 w [of 32] w [of 40] unfolding next_links [OF nd [OF d]] last_links [OF nd [OF d]] m1 m2 by auto
  have p3: "dso_last s3 (ad d) = lastw 0 ys" "last_loaded s3 = lastw 0 xs"
    using p2 l unfolding last_links [OF nd [OF d]] by (auto simp: s3_def s2_def s1_def dso_list_def)
  have l2: "loaded_objects s2 = hdw xs 0" using l by (simp add: s2_def s1_def dso_list_def)
  have heads: "hdw xs 0 = ad d \<longleftrightarrow> ys = []" using xs nd node_ad(2) by (cases ys) auto
  have lasts: "lastw 0 xs = ad d \<longleftrightarrow> zs = []"
  proof -
    have "last zs \<in> set zs" if "zs \<noteq> []" using that by simp
    then show ?thesis using xs(1) dz nd [OF d] nd [of "last zs"] node_ad(2) [of "last zs" d] by (auto simp: lastw_def)
  qed
  have c1: "(if dso_last s (ad d) \<noteq> 0 then wr (dso_last s (ad d) + 88) (dso_next s (ad d)) s else s) = s1"
    by (simp add: p l0 s1_def)
  have c2: "(if dso_next s1 (ad d) \<noteq> 0 then wr (dso_next s1 (ad d) + 96) (dso_last s1 (ad d)) s1 else s1) = s2"
    by (simp add: p1 z0 s2_def)
  have c3: "(if loaded_objects s2 = ad d then s2\<lparr>loaded_objects := dso_next s2 (ad d)\<rparr> else s2) = s3"
    by (simp add: l2 heads p2 s3_def)
  have cut: "dso_cut (ad d) s = (if zs = [] then s3\<lparr>last_loaded := lastw 0 ys\<rparr> else s3)"
    unfolding dso_cut_def Let_def c1 c2 c3 by (simp add: p3 lasts)
  have "dll ?M2 0 (ys @ zs) 0" using l xs by (intro dll_bypass [of ys d zs]) (auto simp: dso_list_def)
  moreover have "dso_links (dso_cut (ad d) s) = ?M2" unfolding cut using m2 by (auto simp: s3_def)
  moreover have "loaded_objects s3 = hdw (ys @ zs) 0" using l2 xs(1) by (cases ys) (simp_all add: s3_def)
  then have "loaded_objects (dso_cut (ad d) s) = hdw (ys @ zs) 0" by (simp add: cut)
  moreover have "last_loaded (dso_cut (ad d) s) = lastw 0 (ys @ zs)" using p3(2) xs(1) by (simp add: cut lastw_def)
  moreover have "nodes_apart (ys @ zs)" by (rule nodes_sub [OF a]) (use a xs in \<open>auto simp: nodes_apart_def\<close>)
  ultimately show ?thesis using xs by (simp add: dso_list_def remove1_append)
qed

section \<open>The interface\<close>

text \<open>
  What the users of \<open>dso.c\<close> rely on: an object that is ready goes to the end of the list, and an object of the list leaves it.
\<close>

datatype 'k list_op = Link 'k | Cut 'k

locale object_list =
  fixes rep :: "'s \<Rightarrow> 'k list \<Rightarrow> bool" and ready :: "'s \<Rightarrow> 'k list \<Rightarrow> 'k \<Rightarrow> bool" and link cut :: "'k \<Rightarrow> 's \<Rightarrow> 's"
  assumes link_rep: "rep s xs \<Longrightarrow> ready s xs d \<Longrightarrow> rep (link d s) (xs @ [d])"
    and cut_rep: "rep s xs \<Longrightarrow> d \<in> set xs \<Longrightarrow> rep (cut d s) (remove1 d xs)"
    and ready_new: "ready s xs d \<Longrightarrow> d \<notin> set xs"
begin

primrec list_run :: "'k list_op list \<Rightarrow> 's \<Rightarrow> 's" where
  "list_run [] s = s"
| "list_run (p # ps) s = list_run ps (case p of Link d \<Rightarrow> link d s | Cut d \<Rightarrow> cut d s)"

primrec allowed :: "'k list_op list \<Rightarrow> 's \<Rightarrow> 'k list \<Rightarrow> bool" where
  "allowed [] s xs = True"
| "allowed (p # ps) s xs =
     (case p of Link d \<Rightarrow> ready s xs d \<and> allowed ps (link d s) (xs @ [d]) | Cut d \<Rightarrow> d \<in> set xs \<and> allowed ps (cut d s) (remove1 d xs))"

lemma list_run_rep:
  "rep s xs \<Longrightarrow> allowed ps s xs \<Longrightarrow>
   rep (list_run ps s) (foldl (\<lambda>xs p. case p of Link d \<Rightarrow> xs @ [d] | Cut d \<Rightarrow> remove1 d xs) xs ps)"
  by (induction ps arbitrary: s xs) (auto simp: link_rep cut_rep split: list_op.splits)

lemma link_cut_rep: "rep s xs \<Longrightarrow> ready s xs d \<Longrightarrow> rep (cut d (link d s)) xs"
  using cut_rep [OF link_rep, of s xs d d] ready_new by (fastforce simp: remove1_append)

end

interpretation dsol: object_list dso_list dso_ready "\<lambda>d. dso_link (ad d)" "\<lambda>d. dso_cut (ad d)"
  by unfold_locales (auto intro: dso_link_list dso_cut_list simp: dso_ready_def)

section \<open>Walks\<close>

text \<open>\<open>dso_linked\<close> and \<open>dso_find\<close> over the list from any object on.\<close>

lemma dso_linked_walk:
  "dll (dso_links s) p xs 0 \<Longrightarrow> \<forall>x\<in>set xs. node x \<Longrightarrow> node d \<Longrightarrow> length xs < n \<Longrightarrow> dso_linked_from n (hdw xs 0) (ad d) s = Inr (d \<in> set xs)"
proof (induction xs arbitrary: p n)
  case Nil
  then show ?case by (cases n) auto
next
  case (Cons x xs)
  then obtain k where n: "n = Suc k" "length xs < k" by (cases n) auto
  have "dso_next s (ad x) = hdw xs 0" using Cons.prems by (simp add: next_links)
  with n Cons.IH [of "ad x" k] Cons.prems node_ad show ?case by auto
qed

lemma dso_linked_list: "dso_list s xs \<Longrightarrow> node d \<Longrightarrow> length xs < l_rounds L \<Longrightarrow> dso_linked L (ad d) s = Inr (d \<in> set xs)"
  using dso_linked_walk [of s 0 xs d "l_rounds L"] by (simp add: dso_linked_def dso_list_def nodes_apart_def)

text \<open>A new reference count leaves the list.\<close>

lemma refcount_off: "nodes_apart xs \<Longrightarrow> d \<in> set xs \<or> nodes_apart (xs @ [d]) \<Longrightarrow> d + 8 \<notin> (\<Union>y\<in>set xs. links y)"
  using node_word [of xs d _ 8 32] node_word [of xs d _ 8 40] links_fresh [of xs d 8] by (fastforce simp: links_def)

lemma refcount_list:
  assumes "dso_list s xs" "node d" "d \<in> set xs \<or> nodes_apart (xs @ [d])"
  shows "dso_list (wr (ad d + 64) v s) xs"
  using assms refcount_off [OF _ assms(3)] by (simp add: dso_list_def links_refcount dll_upd_other)

lemma refcount_links: "node x \<Longrightarrow> dso_refcount s (ad x) = dso_links s (x + 8)"
  using node_al [of x 64] by (simp add: dso_refcount_def dso_links_def ad_plus rd_wds add.commute)

lemma dso_link_refcount:
  assumes l: "dso_list s xs" and d: "nodes_apart (xs @ [d])" "d \<notin> set xs"
  shows "dso_refcount (dso_link (ad d) s) (ad d) = dso_refcount s (ad d)"
proof (cases xs rule: rev_cases)
  case Nil
  then show ?thesis using l by (simp add: dso_link_def dso_list_def dso_refcount_def rd_def)
next
  case (snoc ys y)
  have n: "node y" "node d" using d(1) snoc by (simp_all add: nodes_apart_def)
  have "last_loaded s = ad y" using l snoc by (simp add: dso_list_def)
  moreover have "y + 32 \<noteq> d + 8" using node_word [OF d(1), of y d 32 8] snoc d(2) by auto
  ultimately show ?thesis
    unfolding refcount_links [OF n(2)] using n node_ad(1) by (simp add: dso_link_def links_next links_last)
qed

text \<open>
  C36. \<open>dso_ref\<close> counts one more reference and appends the object to the list if it is not linked yet; nothing else of the list changes.
\<close>

theorem dso_ref_refines:
  assumes l: "dso_list s xs" "length xs < l_rounds L" and d: "d \<in> set xs \<or> dso_ready s xs d"
  shows "\<exists>s'. dso_ref L (ad d) s = Inr s' \<and> dso_list s' (if d \<in> set xs then xs else xs @ [d]) \<and>
    dso_refcount s' (ad d) = dso_refcount s (ad d) + 1"
proof -
  have nd: "node d" using d l(1) by (auto simp: dso_ready_def dso_list_def nodes_apart_def)
  let ?s = "wr (ad d + 64) (dso_refcount s (ad d) + 1) s"
  have l1: "dso_list ?s xs" by (rule refcount_list [OF l(1) nd]) (use d in \<open>auto simp: dso_ready_def\<close>)
  have ref: "dso_refcount ?s (ad d) = dso_refcount s (ad d) + 1" by (simp add: dso_refcount_def rd_wr_same)
  have r: "dso_ref L (ad d) s = Inr (if d \<in> set xs then ?s else dso_link (ad d) ?s)"
    by (simp add: dso_ref_def Let_def dso_linked_list [OF l1 nd l(2)])
  show ?thesis
  proof (cases "d \<in> set xs")
    case True
    then show ?thesis using r l1 ref by simp
  next
    case False
    then have "dso_ready ?s xs d" using d nd by (simp add: dso_ready_def next_links last_links links_refcount)
    then have "dso_list (dso_link (ad d) ?s) (xs @ [d])" by (rule dso_link_list [OF l1])
    moreover have "dso_refcount (dso_link (ad d) ?s) (ad d) = dso_refcount ?s (ad d)"
      by (rule dso_link_refcount [OF l1]) (use d False in \<open>auto simp: dso_ready_def\<close>)
    ultimately show ?thesis using r ref False by simp
  qed
qed

section \<open>Names\<close>

lemma basename_from_plain: "47 \<notin> set str \<Longrightarrow> basename_from b str = b"
  by (induction str arbitrary: b) auto

text \<open>The base name is what follows the last slash.\<close>

lemma basename_app: "47 \<notin> set nm \<Longrightarrow> basename (dir @ 47 # nm) = nm"
proof -
  assume "47 \<notin> set nm"
  then have "basename_from b (dir @ 47 # nm) = nm" for b
    by (induction dir arbitrary: b) (simp_all add: basename_from_plain)
  then show ?thesis by (simp add: basename_def)
qed

lemma basename_whole: "47 \<notin> set nm \<Longrightarrow> basename nm = nm"
  by (simp add: basename_def basename_from_plain)

lemma basename_no_slash: "47 \<notin> set (basename str)"
proof (cases "47 \<in> set str")
  case True
  then obtain dir nm where "str = dir @ 47 # nm" "47 \<notin> set nm" by (meson split_list_last)
  then show ?thesis by (simp add: basename_app)
qed (simp add: basename_whole)

lemma find_walk:
  assumes "dll (dso_links s) p xs 0" "\<forall>x\<in>set xs. node x" "length xs < n"
    and "\<forall>x\<in>set xs. string_at L (dso_path s (ad x)) s = Inr (path x)"
  shows "dso_find_from n L name (hdw xs 0) s = Inr (case find (\<lambda>x. pathmatch name (path x)) xs of None \<Rightarrow> 0 | Some x \<Rightarrow> ad x)"
  using assms
proof (induction xs arbitrary: p n)
  case Nil
  then show ?case by (cases n) auto
next
  case (Cons x xs)
  then obtain k where n: "n = Suc k" "length xs < k" by (cases n) auto
  have "dso_next s (ad x) = hdw xs 0" using Cons.prems by (simp add: next_links)
  with n Cons.IH [of "ad x" k] Cons.prems node_ad(1) [of x] show ?case by simp
qed

text \<open>
  \<open>dso_find\<close> returns the first object of the list whose path is the name, or, for a name without a slash, whose file name is the
  name; there is none if the name is relative and has a slash.
\<close>

theorem dso_find_first:
  assumes "dso_list s xs" "length xs < l_rounds L" "\<forall>x\<in>set xs. string_at L (dso_path s (ad x)) s = Inr (path x)"
  shows "dso_find L name s =
    Inr (case find (\<lambda>x. if 47 \<in> set name then path x = name \<and> hd name = 47
                        else path x = name \<or> (\<exists>dir. path x = dir @ 47 # name)) xs of None \<Rightarrow> 0 | Some x \<Rightarrow> ad x)"
proof -
  have "pathmatch name p = (if 47 \<in> set name then p = name \<and> hd name = 47 else p = name \<or> (\<exists>dir. p = dir @ 47 # name))" for p
  proof (cases "47 \<in> set name")
    case True
    then have "name \<noteq> basename p" using basename_no_slash by metis
    then show ?thesis using True by (cases name) (auto simp: pathmatch_def)
  next
    case False
    have "basename p = name \<longleftrightarrow> p = name \<or> (\<exists>dir. p = dir @ 47 # name)"
    proof
      assume b: "basename p = name"
      show "p = name \<or> (\<exists>dir. p = dir @ 47 # name)"
      proof (cases "47 \<in> set p")
        case True
        then obtain dir nm where "p = dir @ 47 # nm" "47 \<notin> set nm" by (meson split_list_last)
        then show ?thesis using b by (auto simp: basename_app)
      qed (use b in \<open>simp add: basename_whole\<close>)
    qed (use False in \<open>auto simp: basename_app basename_whole\<close>)
    then show ?thesis using False by (cases name) (auto simp: pathmatch_def)
  qed
  then show ?thesis
    using find_walk [of s 0 xs "l_rounds L" L path name] assms by (simp add: dso_find_def dso_list_def nodes_apart_def)
qed

section \<open>Opening twice\<close>

lemma string_at_lock [simp]: "string_at L a (s\<lparr>dso_lock := b\<rparr>) = string_at L a s"
  by (simp add: string_at_def)

lemma find_lock [simp]: "dso_find_from n L nm c (s\<lparr>dso_lock := b\<rparr>) = dso_find_from n L nm c s"
  by (induction n arbitrary: c) (simp_all add: dso_path_def dso_next_def rd_def cong: rbind_cong if_cong)

text \<open>
  C38. \<open>dlopen\<close> of a library that is loaded returns the object that is there and counts the reference; \<open>dlclose\<close> then restores the
  state of the loader exactly.
\<close>

theorem dlopen_dlclose_roundtrip:
  assumes l: "dso_list s xs" "length xs < l_rounds L" and x: "x \<in> set xs"
    and nm: "string_at L name s = Inr nm" "dso_find L nm s = Inr (ad x)"
    and r: "dso_refcount s (ad x) \<noteq> 0" "\<not> dso_lock s"
  shows "\<exists>s'. dlopen L name s = Inr (ad x, s') \<and> dso_refcount s' (ad x) = dso_refcount s (ad x) + 1 \<and> dlclose L (ad x) s' = Inr (0, s)"
proof -
  let ?r = "dso_refcount s (ad x)" and ?a = "ad x + 64"
  let ?s = "wr ?a (?r + 1) s"
  have n: "node x" using l(1) x by (simp add: dso_list_def nodes_apart_def)
  obtain k where k: "l_rounds L = Suc k" using l(2) by (cases "l_rounds L") auto
  have lk: "dso_list (s\<lparr>dso_lock := True\<rparr>) xs" using l(1) by (simp add: dso_list_def)
  have ref: "dso_ref L (ad x) (s\<lparr>dso_lock := True\<rparr>) = Inr (?s\<lparr>dso_lock := True\<rparr>)"
  proof -
    let ?t = "wr ?a (dso_refcount (s\<lparr>dso_lock := True\<rparr>) (ad x) + 1) (s\<lparr>dso_lock := True\<rparr>)"
    have "dso_linked L (ad x) ?t = Inr True" using dso_linked_list [OF refcount_list [OF lk n] n l(2)] x by simp
    moreover have "?t = ?s\<lparr>dso_lock := True\<rparr>" by (simp add: wr_def dso_refcount_def rd_def)
    ultimately show ?thesis by (simp add: dso_ref_def Let_def)
  qed
  have z: "ad x \<noteq> 0" by (rule node_ad [OF n])
  have nm': "string_at L name (s\<lparr>dso_lock := True\<rparr>) = Inr nm" "dso_find L nm (s\<lparr>dso_lock := True\<rparr>) = Inr (ad x)"
    using nm by (simp_all add: dso_find_def)
  have o: "dlopen L name s = Inr (ad x, ?s)"
    using r(2) nm' ref z by (simp add: dlopen_def with_dso_lock_def dso_resolve_dynload_def wr_def)
  have "dso_refcount (?s\<lparr>dso_lock := True\<rparr>) (ad x) = ?r + 1" by (simp add: dso_refcount_def rd_def wr_def load64_put_same)
  moreover have "?r + 1 \<noteq> 1" using r(1) by simp
  moreover have "wr ?a ?r (?s\<lparr>dso_lock := True\<rparr>) = s\<lparr>dso_lock := True\<rparr>"
    by (simp add: wr_def put_store_twice dso_refcount_def rd_def put_store_load)
  ultimately have "dlclose L (ad x) ?s = Inr (0, s)"
    using r(2) by (simp add: dlclose_def with_dso_lock_def k)
  moreover have "dso_refcount ?s (ad x) = ?r + 1" by (simp add: dso_refcount_def rd_wr_same)
  ultimately show ?thesis using o by blast
qed

section \<open>An example\<close>

text \<open>One object at 0x1000 with path \<open>a\<close> and one reference; the name \<open>a\<close> is at 0x6000.\<close>

definition demo_dso_mem :: mem where
  "demo_dso_mem x = (if x = 0x1001 then 0x50 else if x = 0x1040 then 1 else if x = 0x5000 \<or> x = 0x6000 then 97 else 0)"

definition demo_objects :: lds where
  "demo_objects = \<lparr>trace = [], sud_selector = 0, heap = demo_dso_mem, ld_malloc_lock = False, ld_malloc_initialized = False,
     ld_malloc_header_canary = 0, ld_malloc_footer_canary = 0, ld_malloc_freelist_head = 0, loaded_objects = 0x1000, last_loaded = 0x1000,
     self_dso = 0, dso_lock = False, libc_allocs = 0,
     base_search_path = \<lparr>cx_rpath = [], cx_envpath = \<lparr>lp_paths = 0, lp_length = 0\<rparr>, cx_runpath = [], cx_defpath = \<lparr>lp_paths = 0, lp_length = 0\<rparr>\<rparr>,
     preload_list = \<lparr>lp_paths = 0, lp_length = 0\<rparr>\<rparr>"

definition demo_loader :: lenv where
  "demo_loader = \<lparr>l_host = \<lparr>kernel = (\<lambda>_. 0), memory = (\<lambda>_ _. 0), page_perm = (\<lambda>_ _. 0), page_key = (\<lambda>_ _. 0)\<rparr>,
     l_canaries = \<lparr>header_canary_addr = 0, footer_canary_addr = 0\<rparr>, l_rounds = Suc (Suc (Suc (Suc 0))), l_base_var = 0, l_strdup = (\<lambda>_. 0), l_getenv = (\<lambda>_. 0),
     l_call = (\<lambda>_ s. s), l_noexec = True, l_loader_base = 0, l_dynamic = 0\<rparr>"

lemma demo_fields:
  "dso_next demo_objects 0x1000 = 0" "dso_last demo_objects 0x1000 = 0" "dso_path demo_objects 0x1000 = 0x5000"
  "dso_refcount demo_objects 0x1000 = 1" "dso_next demo_objects 0x2000 = 0" "dso_last demo_objects 0x2000 = 0" "dso_refcount demo_objects 0x2000 = 0"
  by (simp_all add: dso_next_def dso_last_def dso_path_def dso_refcount_def rd_def demo_objects_def load64_def demo_dso_mem_def upt_rec)

lemma demo_paths: "string_at demo_loader 0x5000 demo_objects = Inr [97]" "string_at demo_loader 0x6000 demo_objects = Inr [97]"
  by (simp_all add: string_at_def demo_loader_def demo_objects_def demo_dso_mem_def)

lemma demo_nodes: "node 0x1000" "node 0x2000" "nodes_apart [0x1000]" "nodes_apart [0x1000, 0x2000]"
  by (auto simp: node_def nodes_apart_def)

lemma demo_ad: "ad 0x1000 = 0x1000" "ad 0x2000 = 0x2000"
  by (simp_all add: ad_def)

lemma demo_list: "dso_list demo_objects [0x1000]"
  using demo_fields(1,2) next_links [OF demo_nodes(1)] last_links [OF demo_nodes(1)] demo_nodes(3)
  by (simp add: dso_list_def demo_ad demo_objects_def lastw_def)

lemma demo_ready: "dso_ready demo_objects [0x1000] 0x2000"
  using demo_fields demo_nodes by (simp add: dso_ready_def demo_ad)

theorem dso_ref_refines_witness:
  "\<exists>s'. dso_ref demo_loader 0x2000 demo_objects = Inr s' \<and> dso_list s' [0x1000, 0x2000] \<and> dso_refcount s' 0x2000 = 1"
  using dso_ref_refines [OF demo_list, of demo_loader "0x2000"] demo_ready demo_fields(7) by (simp add: demo_loader_def demo_ad)

theorem dso_find_first_witness: "dso_find demo_loader [97] demo_objects = Inr 0x1000"
  using dso_find_first [OF demo_list, of demo_loader "\<lambda>_. [97]" "[97]"] demo_paths demo_fields(3)
  by (simp add: demo_loader_def demo_ad)

theorem dlopen_dlclose_roundtrip_witness:
  "\<exists>s'. dlopen demo_loader 0x6000 demo_objects = Inr (0x1000, s') \<and> dso_refcount s' 0x1000 = 2 \<and> dlclose demo_loader 0x1000 s' = Inr (0, demo_objects)"
proof -
  have "dso_find demo_loader [97] demo_objects = Inr (ad 0x1000)"
    using find_walk [of demo_objects 0 "[0x1000]" "Suc (Suc (Suc (Suc 0)))" demo_loader "\<lambda>_. [97]" "[97]"] demo_list demo_paths demo_fields(3) demo_nodes
    by (simp add: demo_ad dso_find_def dso_list_def pathmatch_def basename_def demo_loader_def)
  from dlopen_dlclose_roundtrip [OF demo_list _ _ demo_paths(2) this] show ?thesis
    using demo_fields(4) by (simp add: demo_ad demo_loader_def demo_objects_def)
qed

lemma dso_link_cut: "dso_list s xs \<Longrightarrow> dso_ready s xs d \<Longrightarrow> dso_list (dso_cut (ad d) (dso_link (ad d) s)) xs"
  by (rule dsol.link_cut_rep)

end
