(* ===== verification/DsoHeap.thy ===== *)
theory DsoHeap
  imports DsoProps LdMallocProps
begin

text \<open>
  The list of objects on the heap of the allocator: the last reference of an object gives its memory back and takes it out of the list,
  and the other objects stay where they are.
\<close>

section \<open>Clients of the allocator\<close>

text \<open>A client that writes only into its blocks leaves the heap well formed.\<close>

definition in_blocks :: "(nat \<rightharpoonup> nat) \<Rightarrow> nat \<Rightarrow> bool" where
  "in_blocks B a \<longleftrightarrow> (\<exists>h k. B h = Some k \<and> h + 32 \<le> a \<and> a < h + 32 + k)"

lemma header_not_in_blocks:
  assumes g: "geo C" "C h = Some c" and a: "a \<in> {h, h + 8, h + 24, h + 32 + csz c, h + 40 + csz c}"
  shows "\<not> in_blocks (blocks C) a"
proof
  assume "in_blocks (blocks C) a"
  then obtain x d where d: "C x = Some d" "x + 32 \<le> a" "a < x + 32 + csz d" by (auto simp: in_blocks_def blocks_Some)
  have "16 \<le> csz d" "16 \<le> csz c" using geo_chunk [OF g(1)] d(1) g(2) by (auto simp: chunk_geo_def)
  then show False
    using geo_apart [OF g d(1), of a a] a d g(2) by (cases "x = h") (auto simp: cend_def)
qed

lemma links_not_in_blocks:
  assumes g: "geo C" "C h = Some c" "\<not> cused c" and a: "a \<in> links h"
  shows "\<not> in_blocks (blocks C) a"
proof
  assume "in_blocks (blocks C) a"
  then obtain x d where d: "C x = Some d" "cused d" "x + 32 \<le> a" "a < x + 32 + csz d" by (auto simp: in_blocks_def blocks_Some)
  have "16 \<le> csz d" "16 \<le> csz c" using geo_chunk [OF g(1)] d(1) g(2) by (auto simp: chunk_geo_def)
  then show False
    using geo_apart [OF g(1,2) d(1), of a a] a d g by (cases "x = h") (auto simp: cend_def links_def)
qed

lemma client_writes:
  assumes ok: "heap_ok s g" and w: "\<And>a. \<not> in_blocks (blocks (fst g)) a \<Longrightarrow> wds s' a = wds s a"
    and eq: "ld_malloc_header_canary s' = ld_malloc_header_canary s" "ld_malloc_footer_canary s' = ld_malloc_footer_canary s"
      "ld_malloc_freelist_head s' = ld_malloc_freelist_head s" "ld_malloc_initialized s' = ld_malloc_initialized s" "ld_malloc_lock s' = ld_malloc_lock s"
  shows "heap_ok s' g"
proof -
  let ?C = "fst g" and ?fl = "snd g"
  from ok have i: "heap_inv {} s ?C ?fl" by (simp add: heap_ok_def)
  then have geo: "geo ?C" by (rule inv_geo)
  have "hdr_ok (wds s') (ld_malloc_header_canary s) (ld_malloc_footer_canary s) h c" if c: "?C h = Some c" for h c
    using inv_hdr [OF i c] header_not_in_blocks [OF geo c] w unfolding hdr_ok_def by simp
  moreover have "dll (wds s') 0 ?fl 0 = dll (wds s) 0 ?fl 0"
  proof (rule dll_cong)
    fix x assume "x \<in> set ?fl"
    then obtain c where "?C x = Some c" "\<not> cused c" using inv_free [OF i] by blast
    then have "\<not> in_blocks (blocks ?C) (x + 32)" "\<not> in_blocks (blocks ?C) (x + 40)"
      using links_not_in_blocks [OF geo] by (auto simp: links_def)
    then show "wds s' (x + 32) = wds s (x + 32) \<and> wds s' (x + 40) = wds s (x + 40)" using w by simp
  qed
  ultimately show ?thesis using ok eq by (simp add: heap_ok_def heap_inv_def)
qed

text \<open>\<open>free\<close> leaves the state of its clients alone.\<close>

lemma more_simps [simp]: "ldm.more (wr a v s) = ldm.more s" "ldm.more (put_header c v s) = ldm.more s" "ldm.more (put_footer c v s) = ldm.more s"
  "ldm.more (put_arena c v s) = ldm.more s" "ldm.more (zero_header c s) = ldm.more s" "ldm.more (zero_footer c s) = ldm.more s"
  "ldm.more (ld_munmap E a len s) = ldm.more s"
  by (simp_all add: wr_def put_header_def put_footer_def put_arena_def zero_header_def zero_footer_def ld_munmap_def issue_def Let_def)

lemma link_more: "ld_malloc_freelist_link h s = Inr s' \<Longrightarrow> ldm.more s' = ldm.more s"
  by (auto simp: ld_malloc_freelist_link_def Let_def ld_check_def res_simps split: if_splits)

lemma unlink_more: "ld_malloc_freelist_unlink l s = Inr s' \<Longrightarrow> ldm.more s' = ldm.more s"
  by (auto simp: ld_malloc_freelist_unlink_def Let_def ld_check_def res_simps split: if_splits)

lemma free_more:
  assumes "ld_free E A p s = Inr ((), s')" "ld_malloc_initialized s"
  shows "ldm.more s' = ldm.more s"
proof -
  have prev: "free_prev f fl s = Inr (h, fl', b, s') \<Longrightarrow> ldm.more s' = ldm.more s" for f fl h fl' b and s s' :: "'z ldm_scheme"
    by (auto simp: free_prev_def Let_def ld_check_def split: if_splits)
  have nxt: "free_next_chunk f fl s = Inr (h, fl', s') \<Longrightarrow> ldm.more s' = ldm.more s" for f fl h fl' and s s' :: "'z ldm_scheme"
    by (auto simp: free_next_chunk_def Let_def ld_check_def res_simps dest: unlink_more split: if_splits)
  have fin: "finish_free E h l fl b s = Inr s' \<Longrightarrow> ldm.more s' = ldm.more s" for h l fl b and s s' :: "'z ldm_scheme"
    by (auto simp: finish_free_def Let_def res_simps dest!: unlink_more link_more split: if_splits)
  show ?thesis
    using assms by (auto simp: ld_free_def ld_locked_def ld_free_unlocked_def ld_ensure_init_def ld_check_def Let_def res_simps
        dest!: prev nxt fin split: if_splits)
qed

lemma free_null: "heap_ok s g \<Longrightarrow> ld_free E A 0 s = Inr ((), s)"
  by (simp add: ld_free_def ld_locked_def ld_free_unlocked_def ld_ensure_init_def heap_ok_def)

section \<open>Objects in blocks\<close>

definition node_block :: "(nat \<rightharpoonup> nat) \<Rightarrow> nat \<Rightarrow> bool" where
  "node_block B x \<longleftrightarrow> 32 \<le> x \<and> (\<exists>k. B (x - 32) = Some k \<and> 104 \<le> k)"

lemma node_in_blocks: "node_block B x \<Longrightarrow> k < 104 \<Longrightarrow> in_blocks B (x + k)"
  by (fastforce simp: node_block_def in_blocks_def)

lemma dso_list_kept:
  assumes "dso_list s ys" "loaded_objects s' = loaded_objects s" "last_loaded s' = last_loaded s"
    and "\<And>y. y \<in> set ys \<Longrightarrow> wds s' (y + 88) = wds s (y + 88) \<and> wds s' (y + 96) = wds s (y + 96)"
  shows "dso_list s' ys"
proof -
  have "dll (dso_links s') 0 ys 0 = dll (dso_links s) 0 ys 0"
    by (rule dll_cong) (use assms(4) in \<open>simp add: dso_links_def add.assoc\<close>)
  then show ?thesis using assms(1-3) by (simp add: dso_list_def)
qed

lemma lds_more: "ldm.more s' = ldm.more s \<Longrightarrow> loaded_objects s' = loaded_objects s \<and> last_loaded s' = last_loaded s" for s s' :: lds
  by (cases s, cases s') simp

text \<open>Releasing a block that holds no object.\<close>

lemma free_keeps_list:
  fixes s :: lds
  assumes ok: "heap_ok s g" "blocks (fst g) h = Some k" and l: "dso_list s ys" "\<forall>y\<in>set ys. node_block (blocks (fst g)) y \<and> y \<noteq> h + 32"
  shows "\<exists>s' g'. l_free L (ad (h + 32)) s = Inr s' \<and> heap_ok s' g' \<and> blocks (fst g') = (blocks (fst g))(h := None) \<and>
    data_kept (blocks (fst g')) (wds s) (wds s') \<and> dso_list s' ys \<and> (\<forall>y\<in>set ys. node_block (blocks (fst g')) y)"
proof -
  obtain s' g' where f: "ld_free (l_host L) (l_canaries L) (ad (h + 32)) s = Inr ((), s')" "heap_ok s' g'"
    "blocks (fst g') = (blocks (fst g))(h := None)" "data_kept (blocks (fst g')) (wds s) (wds s')"
    using ld_free_ok [OF ok] by blast
  have m: "ldm.more s' = ldm.more s" by (rule free_more [OF f(1)]) (use ok(1) in \<open>simp add: heap_ok_def\<close>)
  have nb: "node_block (blocks (fst g')) y" if "y \<in> set ys" for y
  proof -
    have "y - 32 \<noteq> h" using l(2) that by (auto simp: node_block_def)
    then show ?thesis using l(2) that by (simp add: f(3) node_block_def)
  qed
  have "dso_list s' ys"
  proof (rule dso_list_kept [OF l(1)])
    fix y assume "y \<in> set ys"
    then obtain k where "32 \<le> y" "blocks (fst g') (y - 32) = Some k" "104 \<le> k" using nb by (auto simp: node_block_def)
    then show "wds s' (y + 88) = wds s (y + 88) \<and> wds s' (y + 96) = wds s (y + 96)" using f(4) unfolding data_kept_def by fastforce
  qed (use lds_more [OF m] in auto)
  then show ?thesis using f nb by (intro exI [of _ s'] exI [of _ g']) (simp add: l_free_def)
qed

lemma kept_word: "data_kept B M M' \<Longrightarrow> node_block B x \<Longrightarrow> k < 104 \<Longrightarrow> M' (x + k) = M (x + k)"
  unfolding data_kept_def node_block_def by force

section \<open>Taking an object out\<close>

text \<open>Only pointers of the neighbours change.\<close>

lemma neighbours:
  assumes l: "dso_list s xs" "d \<in> set xs"
  shows "dso_last s (ad d) = 0 \<or> (\<exists>u\<in>set xs. u \<noteq> d \<and> dso_last s (ad d) = ad u)"
    "dso_next s (ad d) = 0 \<or> (\<exists>u\<in>set xs. u \<noteq> d \<and> dso_next s (ad d) = ad u)"
proof -
  obtain ys zs where xs: "xs = ys @ d # zs" using l(2) by (meson split_list)
  have a: "nodes_apart xs" using l(1) by (simp add: dso_list_def)
  have n: "node d" "d \<notin> set ys" "d \<notin> set zs" using a xs by (auto simp: nodes_apart_def)
  have p: "dso_last s (ad d) = lastw 0 ys" "dso_next s (ad d) = hdw zs 0"
    using l xs n(1) by (simp_all add: dso_list_def dll_mid next_links last_links)
  show "dso_last s (ad d) = 0 \<or> (\<exists>u\<in>set xs. u \<noteq> d \<and> dso_last s (ad d) = ad u)"
  proof (cases "ys = []")
    case False
    then have "last ys \<in> set xs" "last ys \<noteq> d" using xs n(2) last_in_set [of ys] by auto
    then show ?thesis using p(1) False by (auto simp: lastw_def)
  qed (use p(1) in simp)
  show "dso_next s (ad d) = 0 \<or> (\<exists>u\<in>set xs. u \<noteq> d \<and> dso_next s (ad d) = ad u)"
    using p(2) xs n(3) by (cases zs) auto
qed

lemma wds_upd [simp]: "wds (s\<lparr>loaded_objects := a\<rparr>) = wds s" "wds (s\<lparr>last_loaded := a\<rparr>) = wds s" "wds (s\<lparr>trace := t\<rparr>) = wds s"
  by (simp_all add: wds_def rd_def fun_eq_iff)

lemma cut_words:
  assumes l: "dso_list s xs" "d \<in> set xs" and a: "\<And>x. x \<in> set xs \<Longrightarrow> x \<noteq> d \<Longrightarrow> a \<noteq> x + 88 \<and> a \<noteq> x + 96"
  shows "wds (dso_cut (ad d) s) a = wds s a"
proof -
  have ap: "nodes_apart xs" and nd: "node x" if "x \<in> set xs" for x using l(1) that by (auto simp: dso_list_def nodes_apart_def)
  define s1 where "s1 = (if dso_last s (ad d) \<noteq> 0 then wr (dso_last s (ad d) + 88) (dso_next s (ad d)) s else s)"
  define s2 where "s2 = (if dso_next s1 (ad d) \<noteq> 0 then wr (dso_next s1 (ad d) + 96) (dso_last s1 (ad d)) s1 else s1)"
  have next88: "wds (wr (ad u + 88) v s') = (wds s')(u + 88 := v)" and last96: "wds (wr (ad u + 96) v s') = (wds s')(u + 96 := v)"
    if "u \<in> set xs" for u v and s' :: lds
    using wds_wr [OF node_al [OF nd [OF that], of 88], of v s'] wds_wr [OF node_al [OF nd [OF that], of 96], of v s'] by (simp_all add: ad_plus)
  have w1: "wds s1 b = wds s b" if b: "\<And>x. x \<in> set xs \<Longrightarrow> x \<noteq> d \<Longrightarrow> b \<noteq> x + 88" for b
    using neighbours(1) [OF l] b by (auto simp: s1_def next88)
  have "dso_next s1 (ad d) = dso_next s (ad d)"
  proof -
    have "d + 88 \<noteq> x + 88" if "x \<noteq> d" for x using that by simp
    from w1 [of "d + 88", OF this] show ?thesis using node_al [OF nd [OF l(2)], of 88] by (simp add: dso_next_def ad_plus rd_wds)
  qed
  then have "wds s2 a = wds s1 a" using neighbours(2) [OF l] a by (auto simp: s2_def last96)
  also have "\<dots> = wds s a" using w1 a by blast
  finally show ?thesis
    unfolding dso_cut_def Let_def s1_def [symmetric] s2_def [symmetric] by simp
qed

lemma cut_fields [simp]:
  "ld_malloc_header_canary (dso_cut d s) = ld_malloc_header_canary s" "ld_malloc_footer_canary (dso_cut d s) = ld_malloc_footer_canary s"
  "ld_malloc_freelist_head (dso_cut d s) = ld_malloc_freelist_head s" "ld_malloc_initialized (dso_cut d s) = ld_malloc_initialized s"
  "ld_malloc_lock (dso_cut d s) = ld_malloc_lock s"
  by (simp_all add: dso_cut_def Let_def)

lemma unmap_trace: "\<exists>t. snd (unmap_load_segments E base n p s) = s\<lparr>trace := t\<rparr>"
proof (induction n arbitrary: p s)
  case 0
  show ?case by (rule exI [of _ "trace s"]) simp
next
  case (Suc n)
  show ?case
  proof (cases "ph_type (phdr_at (heap s) p) = 1 \<and> fst (c_munmap E (base + vaddr_page (phdr_at (heap s) p)) (memsz_page (phdr_at (heap s) p)) s)")
    case True
    then show ?thesis using Suc.IH [of "p + 56" "snd (c_munmap E (base + vaddr_page (phdr_at (heap s) p)) (memsz_page (phdr_at (heap s) p)) s)"]
      by (auto simp: Let_def c_munmap_def issue_def split: prod.splits)
  next
    case False
    then show ?thesis using Suc.IH [of "p + 56" s] by (auto simp: Let_def c_munmap_def issue_def split: prod.splits)
  qed
qed

definition unload_segments :: "lenv \<Rightarrow> addr \<Rightarrow> lds \<Rightarrow> bool \<times> lds" where
  "unload_segments L d s =
     (if dso_unloadable s d then unmap_load_segments (l_host L) (dso_base s d) (unat (dso_phdr_length s d)) (dso_phdr s d) s else (True, s))"

lemma unload_segments_trace: "\<exists>okd t. unload_segments L d s = (okd, s\<lparr>trace := t\<rparr>)"
proof (cases "dso_unloadable s d")
  case True
  obtain t where "snd (unmap_load_segments (l_host L) (dso_base s d) (unat (dso_phdr_length s d)) (dso_phdr s d) s) = s\<lparr>trace := t\<rparr>"
    using unmap_trace by blast
  with True show ?thesis
    by (cases "unmap_load_segments (l_host L) (dso_base s d) (unat (dso_phdr_length s d)) (dso_phdr s d) s") (auto simp: unload_segments_def)
next
  case False
  then show ?thesis by (auto simp: unload_segments_def intro!: exI [of _ "trace s"])
qed

text \<open>Unloading gives back the memory of the program headers, of the path and of the object.\<close>

lemma dso_unload_frees:
  fixes s :: lds
  assumes ok: "heap_ok s g" and l: "dso_list s ys" "\<forall>y\<in>set ys. node_block (blocks (fst g)) y" "d \<notin> set ys"
    and d: "node d" "node_block (blocks (fst g)) d" "dso_deps_elements s (ad d) = 0"
    and hp: "dso_phdr s (ad d) = ad (hp + 32)" "blocks (fst g) hp = Some kp" "hp + 32 \<notin> insert d (set ys)"
    and hq: "dso_path s (ad d) = ad (hq + 32)" "blocks (fst g) hq = Some kq" "hq + 32 \<notin> insert d (set ys)" and ne: "hp \<noteq> hq"
  shows "\<exists>okd s' g'. dso_unload L (ad d) s = Inr (okd, s') \<and> dso_list s' ys \<and> heap_ok s' g' \<and>
    blocks (fst g') = (blocks (fst g))(hp := None, hq := None, d - 32 := None)"
proof -
  let ?B = "blocks (fst g)"
  have al: "al (d + k)" if "k \<le> 96" "8 dvd k" for k using node_al [OF d(1)] that by blast
  obtain okd t where u: "unload_segments L (ad d) s = (okd, s\<lparr>trace := t\<rparr>)" using unload_segments_trace by blast
  define s3 where "s3 = s\<lparr>trace := t\<rparr>"
  have ok3: "heap_ok s3 g" by (rule client_writes [OF ok]) (simp_all add: s3_def)
  have l3: "dso_list s3 ys" by (rule dso_list_kept [OF l(1)]) (simp_all add: s3_def)
  have w3: "wds s3 = wds s" by (simp add: s3_def)
  have nb3: "\<forall>y\<in>set ys. node_block ?B y \<and> y \<noteq> hp + 32" using l(2) hp(3) by auto
  obtain s4 g4 where s4: "l_free L (ad (hp + 32)) s3 = Inr s4" "heap_ok s4 g4" "blocks (fst g4) = ?B(hp := None)"
    "data_kept (blocks (fst g4)) (wds s3) (wds s4)" "dso_list s4 ys" "\<forall>y\<in>set ys. node_block (blocks (fst g4)) y"
    using free_keeps_list [OF ok3 hp(2) l3 nb3, of L] by blast
  have d4: "node_block (blocks (fst g4)) d" using d(2) hp(3) by (auto simp: s4(3) node_block_def)
  have "blocks (fst g4) hq = Some kq" "\<forall>y\<in>set ys. node_block (blocks (fst g4)) y \<and> y \<noteq> hq + 32" using hq(2,3) ne s4(3,6) by auto
  from free_keeps_list [OF s4(2) this(1) s4(5) this(2), of L] obtain s5 g5 where s5: "l_free L (ad (hq + 32)) s4 = Inr s5" "heap_ok s5 g5"
    "blocks (fst g5) = (blocks (fst g4))(hq := None)" "dso_list s5 ys" "\<forall>y\<in>set ys. node_block (blocks (fst g5)) y" by blast
  have "node_block (blocks (fst g5)) d" using d4 hq(3) by (auto simp: s5(3) node_block_def)
  then obtain k where k: "32 \<le> d" "blocks (fst g5) (d - 32) = Some k" by (auto simp: node_block_def)
  have "\<forall>y\<in>set ys. node_block (blocks (fst g5)) y \<and> y \<noteq> d - 32 + 32" using s5(5) l(3) k(1) by auto
  from free_keeps_list [OF s5(2) k(2) s5(4) this, of L] k(1) obtain s6 g6 where s6: "l_free L (ad d) s5 = Inr s6" "heap_ok s6 g6"
    "blocks (fst g6) = (blocks (fst g5))(d - 32 := None)" "dso_list s6 ys" by auto
  have fields: "dso_deps_elements s3 (ad d) = 0" "dso_phdr s3 (ad d) = ad (hp + 32)" "dso_path s4 (ad d) = ad (hq + 32)"
    using al [of 72] al [of 16] al [of 0] kept_word [OF s4(4) d4, of 0] d(3) hp(1) hq(1)
    by (simp_all add: dso_deps_elements_def dso_phdr_def dso_path_def ad_plus rd_wds w3)
  have "dso_unload L (ad d) s = Inr (okd, s6)"
    using u s4(1) s5(1) s6(1) fields free_null [OF ok3] by (simp add: dso_unload_def Let_def unload_segments_def s3_def l_free_def)
  then show ?thesis using s6 s5(3) s4(3) by (intro exI [of _ okd] exI [of _ s6] exI [of _ g6]) simp
qed

text \<open>
  C37. The last reference: an object that has no dependencies and was never initialised leaves the list, its memory, that of its path
  and that of its program headers goes back to the allocator, and the other objects stay linked as they are.
\<close>

theorem dso_unref_last:
  fixes s :: lds
  assumes ok: "heap_ok s g" and l: "dso_list s xs" "d \<in> set xs" and nb: "\<forall>x\<in>set xs. node_block (blocks (fst g)) x"
    and f: "dso_refcount s (ad d) = 1" "\<not> dso_initialized s (ad d)" "dso_deps_length s (ad d) = 0" "dso_deps_elements s (ad d) = 0"
    and hp: "dso_phdr s (ad d) = ad (hp + 32)" "blocks (fst g) hp = Some kp" "hp + 32 \<notin> set xs"
    and hq: "dso_path s (ad d) = ad (hq + 32)" "blocks (fst g) hq = Some kq" "hq + 32 \<notin> set xs" and ne: "hp \<noteq> hq"
    and r: "l_rounds L \<noteq> 0"
  shows "\<exists>s' g'. dso_unref (Suc n) L (ad d) s = Inr s' \<and> dso_list s' (remove1 d xs) \<and> heap_ok s' g' \<and>
    blocks (fst g') = (blocks (fst g))(hp := None, hq := None, d - 32 := None)"
proof -
  let ?B = "blocks (fst g)" and ?ys = "remove1 d xs"
  have nd: "node d" "distinct xs" "node_block ?B d" and ap: "nodes_apart xs" using l nb by (auto simp: dso_list_def nodes_apart_def)
  have ys: "set ?ys = set xs - {d}" "d \<in> set xs" using nd(2) l(2) by auto
  have al: "al (d + k)" if "k \<le> 96" "8 dvd k" for k using node_al [OF nd(1)] that by blast
  note off = node_word [OF ap l(2)]
  define s1 where "s1 = dso_cut (ad d) s"
  have l1: "dso_list s1 ?ys" unfolding s1_def by (rule dso_cut_list [OF l])
  have w1: "wds s1 (d + k) = wds s (d + k)" if "k \<le> 96" for k
    unfolding s1_def by (rule cut_words [OF l]) (use off [of _ k 88] off [of _ k 96] that in auto)
  have ok1: "heap_ok s1 g"
  proof (rule client_writes [OF ok])
    fix a assume a: "\<not> in_blocks ?B a"
    show "wds s1 a = wds s a"
      unfolding s1_def by (rule cut_words [OF l]) (use a nb node_in_blocks [of ?B _ 88] node_in_blocks [of ?B _ 96] in auto)
  qed (simp_all add: s1_def)
  define s2 where "s2 = wr (ad d + 80) 0 (wr (ad d + 72) 0 s1)"
  have m2: "wds s2 = (wds s1)(d + 72 := 0, d + 80 := 0)" using al [of 72] al [of 80] by (simp add: s2_def ad_plus)
  have ok2: "heap_ok s2 g"
  proof (rule client_writes [OF ok1])
    fix a assume a: "\<not> in_blocks ?B a"
    show "wds s2 a = wds s1 a" using a node_in_blocks [OF nd(3), of 72] node_in_blocks [OF nd(3), of 80] by (auto simp: m2)
  qed (simp_all add: s2_def)
  have l2: "dso_list s2 ?ys"
    by (rule dso_list_kept [OF l1]) (use off [of _ 72 88] off [of _ 72 96] off [of _ 80 88] off [of _ 80 96] ys in \<open>auto simp: s2_def m2 [unfolded s2_def]\<close>)
  have fields: "dso_deps_elements s2 (ad d) = 0" "dso_phdr s2 (ad d) = ad (hp + 32)" "dso_path s2 (ad d) = ad (hq + 32)"
      "dso_deps_length s1 (ad d) = 0" "dso_deps_elements s1 (ad d) = 0"
    using al [of 72] al [of 80] al [of 16] al [of 0] w1 [of 16] w1 [of 0] w1 [of 72] w1 [of 80] hp(1) hq(1) f(3,4)
    by (simp_all add: dso_deps_length_def dso_deps_elements_def dso_phdr_def dso_path_def ad_plus rd_wds m2)
  obtain okd s' g' where u: "dso_unload L (ad d) s2 = Inr (okd, s')" "dso_list s' ?ys" "heap_ok s' g'"
      "blocks (fst g') = ?B(hp := None, hq := None, d - 32 := None)"
    using dso_unload_frees [OF ok2 l2 _ _ nd(1,3) fields(1,2) hp(2) _ fields(3) hq(2) _ ne, of L] ys nb hp(3) hq(3) by (auto simp: insert_absorb)
  obtain j where "l_rounds L = Suc j" using r by (cases "l_rounds L") auto
  then have "dso_unload_deps L unref (ad d) s1 = Inr s2" for unref
    using fields(4,5) free_null [OF ok1] by (simp add: dso_unload_deps_def l_free_def s2_def)
  then have "dso_unref (Suc n) L (ad d) s = Inr s'"
    using f(1,2) u(1) by (simp add: dso_unlink_def dso_dynunload_def flip: s1_def)
  then show ?thesis using u by blast
qed

section \<open>An example\<close>

text \<open>Three blocks of 4048 bytes: the one object of the list, its program headers and its path.\<close>

definition demo_store :: lds where
  "demo_store = \<lparr>trace = [], sud_selector = 0, heap = (\<lambda>_. 0), ld_malloc_lock = False, ld_malloc_initialized = True,
     ld_malloc_header_canary = 17, ld_malloc_footer_canary = 34, ld_malloc_freelist_head = 0, loaded_objects = 0x10020, last_loaded = 0x10020,
     self_dso = 0, dso_lock = False, libc_allocs = 0, base_search_path = base_search_path demo_objects, preload_list = preload_list demo_objects\<rparr>"

definition demo_arenas :: lds where
  "demo_arenas = arena_put 0x30000 4096 (arena_put 0x20000 4096 (arena_put 0x10000 4096 demo_store))"

definition demo_chunks :: chunks where
  "demo_chunks = [0x10000 \<mapsto> arena_chunk 0x10000 4096, 0x20000 \<mapsto> arena_chunk 0x20000 4096, 0x30000 \<mapsto> arena_chunk 0x30000 4096]"

definition demo_words :: "(nat \<times> u64) list" where
  "demo_words = [(0x10020, ad 0x20020), (0x10030, ad 0x30020), (0x10058, 0), (0x10060, 1), (0x10068, 0), (0x10070, 0), (0x10078, 0), (0x10080, 0)]"

definition demo_live :: lds where
  "demo_live = fold (\<lambda>(a, v). wr (ad a) v) demo_words demo_arenas"

lemma quiet_ready: "quiet s s' \<Longrightarrow> heap_ok s g \<Longrightarrow> heap_inv {} s' C fl \<Longrightarrow> heap_ok s' (C, fl)"
  by (simp add: heap_ok_def quiet_def)

lemma demo_arenas_ok: "heap_ok demo_arenas (demo_chunks, [])"
proof -
  have 0: "heap_ok demo_store (Map.empty, [])" by (simp add: heap_ok_def heap_inv_def geo_def free_set_def demo_store_def)
  have next_arena: "heap_ok (arena_put b 4096 s) (C(b \<mapsto> arena_chunk b 4096), [])" if "heap_ok s (C, [])" "fresh C b 4096" for b C and s :: lds
    using arena_put_inv(1,2) [of s C "[]" b 4096] that quiet_ready [OF _ that(1)] by (simp add: heap_ok_def)
  show ?thesis unfolding demo_arenas_def demo_chunks_def
    by (intro next_arena 0) (auto simp: fresh_def arena_chunk_def cend_def split: if_splits)
qed

lemma demo_blocks: "blocks demo_chunks = [0x10000 \<mapsto> 4048, 0x20000 \<mapsto> 4048, 0x30000 \<mapsto> 4048]"
  by (auto simp: blocks_def demo_chunks_def arena_chunk_def fun_eq_iff)

lemma demo_live_wds: "wds demo_live = (wds demo_arenas)(0x10020 := ad 0x20020, 0x10030 := ad 0x30020, 0x10058 := 0, 0x10060 := 1, 0x10068 := 0, 0x10070 := 0, 0x10078 := 0, 0x10080 := 0)"
  by (simp add: demo_live_def demo_words_def al_def)

lemma demo_live_ok: "heap_ok demo_live (demo_chunks, [])"
proof (rule client_writes [OF demo_arenas_ok])
  fix a assume "\<not> in_blocks (blocks (fst (demo_chunks, []))) a"
  then have "\<not> (0x10000 + 32 \<le> a \<and> a < 0x10000 + 32 + 4048)" unfolding in_blocks_def by (auto simp: demo_blocks dest: spec [of _ "0x10000"])
  then have "a < 0x10020 \<or> 0x10020 + 4048 \<le> a" by auto
  then show "wds demo_live a = wds demo_arenas a" by (auto simp: demo_live_wds)
qed (simp_all add: demo_live_def demo_words_def)

lemma demo_live_fields:
  "dso_refcount demo_live (ad 0x10020) = 1" "dso_deps_length demo_live (ad 0x10020) = 0" "dso_deps_elements demo_live (ad 0x10020) = 0"
  "dso_phdr demo_live (ad 0x10020) = ad (0x30000 + 32)" "dso_path demo_live (ad 0x10020) = ad (0x20000 + 32)"
  by (simp_all add: dso_refcount_def dso_deps_length_def dso_deps_elements_def dso_phdr_def dso_path_def ad_plus rd_wds al_def demo_live_wds)


lemma word_byte:
  assumes "load64 m a = 0" "i < 8"
  shows "m (a + of_nat i) = 0"
proof -
  have "store64 (load64 m a) ! i = store64 0 ! i" using assms(1) by simp
  then show ?thesis unfolding store64_load64 using assms(2) by (simp add: store64_def bytes_of_word)
qed

lemma demo_live_uninitialized: "\<not> dso_initialized demo_live (ad 0x10020)"
proof -
  have "wds demo_live 0x10058 = 0" by (simp add: demo_live_wds)
  then have "load64 (heap demo_live) (ad 0x10058) = 0" by (simp add: wds_def al_def rd_def)
  from word_byte [OF this, of 1] show ?thesis by (simp add: dso_initialized_def ad_def)
qed

lemma demo_live_list: "dso_list demo_live [0x10020]"
proof -
  have "loaded_objects demo_arenas = 0x10020 \<and> last_loaded demo_arenas = 0x10020"
    by (simp add: demo_arenas_def arena_put_def mark_def put_header_def put_footer_def put_arena_def demo_store_def)
  then have "loaded_objects demo_live = ad 0x10020" "last_loaded demo_live = ad 0x10020" by (simp_all add: demo_live_def demo_words_def ad_def)
  then show ?thesis by (simp add: dso_list_def nodes_apart_def node_def dso_links_def demo_live_wds lastw_def)
qed

theorem dso_unref_last_witness:
  "\<exists>s' g'. dso_unref 1 demo_loader (ad 0x10020) demo_live = Inr s' \<and> dso_list s' [] \<and> heap_ok s' g' \<and> blocks (fst g') = Map.empty"
proof -
  let ?g = "(demo_chunks, [] :: nat list)"
  have b: "blocks (fst ?g) 0x30000 = Some 4048" "blocks (fst ?g) 0x20000 = Some 4048" "\<forall>x\<in>set [0x10020]. node_block (blocks (fst ?g)) x"
    by (simp_all add: demo_blocks node_block_def)
  have "\<exists>s' g'. dso_unref (Suc 0) demo_loader (ad 0x10020) demo_live = Inr s' \<and> dso_list s' (remove1 0x10020 [0x10020]) \<and> heap_ok s' g' \<and>
      blocks (fst g') = (blocks (fst ?g))(0x30000 := None, 0x20000 := None, 0x10020 - 32 := None)"
    by (rule dso_unref_last [OF demo_live_ok demo_live_list _ b(3) demo_live_fields(1) demo_live_uninitialized demo_live_fields(2,3,4) b(1) _ demo_live_fields(5) b(2)])
      (simp_all add: demo_loader_def)
  moreover have "(blocks (fst ?g))(0x30000 := None, 0x20000 := None, 0x10020 - 32 := None) = Map.empty" by (auto simp: demo_blocks fun_eq_iff)
  ultimately show ?thesis by simp
qed

end
