(* ===== verification/Launch.thy ===== *)
theory Launch
  imports Dynlink
begin

text \<open>
  How the loader starts the monitor and then the program: \<open>call_secpoline.c\<close> and \<open>main.c\<close> of
  \<open>src/src/secpoline_loader/loader/\<close>. A word of an initial stack is a cell: a number, a pointer to a string or to bytes, which is
  represented by what it points to, a null pointer, or memory that was never written. Copying a string leaves the cell. The allocations
  of the C library in \<open>update_ldpreload\<close> succeed. What a \<open>realloc\<close> adds to an array is \<open>Undef\<close>.
\<close>

datatype cell = Num u64 | Str string | Blob "u8 list" | Null | Undef

section \<open>The environment of the monitor\<close>

definition env_name :: "string \<Rightarrow> string" where "env_name e = takeWhile (\<lambda>c. c \<noteq> CHR ''='') e"

definition is_var :: "string \<Rightarrow> bool" where "is_var e \<longleftrightarrow> CHR ''='' \<in> set e"

primrec c_getenv :: "string \<Rightarrow> string list \<Rightarrow> string option" where
  "c_getenv name [] = None"
| "c_getenv name (e # es) = (if is_var e \<and> env_name e = name then Some (drop (Suc (length name)) e) else c_getenv name es)"

text \<open>A new last variable: the array grows by one slot and the variable goes into the last but one.\<close>

definition append_var :: "string \<Rightarrow> cell list \<Rightarrow> cell list" where
  "append_var e slots = (slots @ [Undef])[length slots - 1 := Str e]"

definition env_slot :: "string option \<Rightarrow> string option \<Rightarrow> string option \<Rightarrow> nat \<Rightarrow> string \<Rightarrow> cell list \<Rightarrow> cell list" where
  "env_slot secpoline_preload ld_preload glibc_tunables i e slots =
     (if \<not> is_var e then slots
      else if env_name e = ''LD_PRELOAD''
      then (if secpoline_preload \<noteq> None \<and> ld_preload \<noteq> None then slots[i := Str (''LD_PRELOAD='' @ the secpoline_preload)] else slots)
      else if env_name e = ''GLIBC_TUNABLES''
      then (if glibc_tunables \<noteq> None then slots[i := Str (e @ ''glibc.pthread.rseq=0'')] else slots)
      else slots[i := Str e])"

primrec env_slots :: "string option \<Rightarrow> string option \<Rightarrow> string option \<Rightarrow> nat \<Rightarrow> string list \<Rightarrow> cell list \<Rightarrow> cell list" where
  "env_slots sp ld gt i [] slots = slots"
| "env_slots sp ld gt i (e # es) slots = env_slots sp ld gt (Suc i) es (env_slot sp ld gt i e slots)"

definition update_ldpreload :: "string list \<Rightarrow> cell list" where
  "update_ldpreload envp =
     (let secpoline_preload = c_getenv ''SECPOLINE_LD_PRELOAD'' envp;
          ld_preload = c_getenv ''LD_PRELOAD'' envp;
          glibc_tunables = c_getenv ''GLIBC_TUNABLES'' envp;
          slots = replicate (Suc (length envp)) Null;
          slots = (if glibc_tunables = None then append_var ''GLIBC_TUNABLES=glibc.pthread.rseq=0'' slots else slots);
          slots = (if ld_preload = None \<and> secpoline_preload \<noteq> None then append_var (''LD_PRELOAD='' @ the secpoline_preload) slots else slots)
      in env_slots secpoline_preload ld_preload glibc_tunables 0 envp slots)"

section \<open>The auxiliary vector\<close>

text \<open>The entries in front of \<open>AT_NULL\<close>, and their words with the type \<open>AT_NULL\<close>.\<close>

type_synonym aux = "(u64 \<times> cell) list"

definition aux_entries :: "aux \<Rightarrow> aux" where "aux_entries xs = takeWhile (\<lambda>x. fst x \<noteq> 0) xs"

definition aux_words :: "aux \<Rightarrow> cell list" where
  "aux_words xs = concat (map (\<lambda>(t, v). [Num t, v]) (aux_entries xs)) @ [Num 0]"

text \<open>The values for the loader of the C library, an object at \<open>d\<close>: \<open>AT_ENTRY\<close>, \<open>AT_PHDR\<close>, \<open>AT_PHNUM\<close>, \<open>AT_BASE\<close>, \<open>AT_EXECFN\<close>.\<close>

definition aux_value :: "lds \<Rightarrow> addr \<Rightarrow> string \<Rightarrow> u64 \<Rightarrow> u64 \<Rightarrow> cell \<Rightarrow> cell" where
  "aux_value s d name base t v =
     (if t = 9 then Num (dso_entry s d)
      else if t = 3 then Num (dso_base s d)
      else if t = 5 then Num (dso_phdr_length s d)
      else if t = 7 then Num base
      else if t = 31 then Str name
      else v)"

definition update_aux :: "lds \<Rightarrow> addr \<Rightarrow> string \<Rightarrow> u64 \<Rightarrow> aux \<Rightarrow> aux" where
  "update_aux s d name base xs = map (\<lambda>(t, v). (t, aux_value s d name base t v)) xs"

text \<open>The last entry of a type.\<close>

definition aux_last :: "u64 \<Rightarrow> aux \<Rightarrow> u64" where
  "aux_last t xs = foldl (\<lambda>r (t', v). if t' = t then (case v of Num n \<Rightarrow> n | _ \<Rightarrow> 0) else r) 0 xs"

section \<open>The loader of the C library\<close>

definition default_loader :: string where "default_loader = ''/lib64/ld-linux-x86-64.so.2''"

text \<open>\<open>strdup\<close> of a string of the environment; 0 ends the program.\<close>

definition new_string :: "lenv \<Rightarrow> string \<Rightarrow> lds \<Rightarrow> (addr \<times> lds) res" where
  "new_string L str s =
     (let p = l_strdup L (libc_allocs s); s = s\<lparr>libc_allocs := Suc (libc_allocs s)\<rparr> in
      if p = 0 then Inl Exit else Inr (p, put_string p (map of_char str) s))"

definition load_libc_loader :: "lenv \<Rightarrow> string \<Rightarrow> lds \<Rightarrow> (addr \<times> lds) res" where
  "load_libc_loader L name s =
     rbind (new_string L name s)
     (\<lambda>(path, s). rbind (dso_dynload L path s) (\<lambda>(d, s). if d = 0 then Inl Exit else Inr (d, s)))"

section \<open>Starting the monitor\<close>

text \<open>The stack as a memory of cells, each 8 bytes apart, and a copy of cells to an address.\<close>

type_synonym cells = "addr \<Rightarrow> cell"

definition put_cells :: "addr \<Rightarrow> cell list \<Rightarrow> cells \<Rightarrow> cells" where
  "put_cells a cs st x = (if unat (x - a) mod 8 = 0 \<and> unat (x - a) div 8 < length cs then cs ! (unat (x - a) div 8) else st x)"

record start =
  st_rsp :: addr
  st_rip :: addr
  st_cells :: cells

text \<open>The last program header of a type; the pointer is not initialised if there is none.\<close>

primrec last_phdr :: "mem \<Rightarrow> nat \<Rightarrow> addr \<Rightarrow> u32 \<Rightarrow> addr option \<Rightarrow> addr option" where
  "last_phdr m 0 p type found = found"
| "last_phdr m (Suc n) p type found = last_phdr m n (p + 56) type (if p_type m p = type then Some p else found)"

text \<open>The paths of the monitor and of the loader. An uninitialised pointer is \<open>Inl NullDeref\<close>.\<close>

definition secpoline_paths :: "bool \<Rightarrow> string list \<Rightarrow> string list \<Rightarrow> aux \<Rightarrow> lds \<Rightarrow> (string \<times> cell) res" where
  "secpoline_paths is_loader argv envp aux s =
     (if \<not> is_loader then Inr (argv ! 1, Str (argv ! 0))
      else case c_getenv ''SECPOLINE'' envp of None \<Rightarrow> Inl Exit
      | Some path \<Rightarrow>
        let phdrs = aux_last 3 aux; n = unat (scast (ucast (aux_last 5 aux) :: c_int) :: u64) in
        (case (last_phdr (heap s) n phdrs 3 None, last_phdr (heap s) n phdrs 6 None) of
           (Some interp, Some ent) \<Rightarrow> Inr (path, Num (p_vaddr (heap s) interp + (phdrs - p_vaddr (heap s) ent)))
         | _ \<Rightarrow> Inl NullDeref))"

definition secpoline_libc_loader :: "string list \<Rightarrow> string" where
  "secpoline_libc_loader envp =
     (case c_getenv ''secpoline_LOADER_PATH'' envp of Some v \<Rightarrow> v
      | None \<Rightarrow> (case c_getenv ''LOADER_PATH'' envp of Some v \<Rightarrow> v | None \<Rightarrow> default_loader))"

text \<open>Room for the environment and the auxiliary vector at the end of the new stack.\<close>

definition monitor_sp :: "addr \<Rightarrow> nat \<Rightarrow> nat \<Rightarrow> addr" where
  "monitor_sp new_stack envp_size aux_size =
     (let new_sp = new_stack + 0x100000 - 8;
          new_sp = new_sp - 8 * of_nat envp_size - 8 * of_nat aux_size
      in if new_sp mod 16 \<noteq> 0 then new_sp - 8 else new_sp)"

text \<open>
  The new stack in the 0x100000 bytes at \<open>new_stack\<close>: the entry of the loader, \<open>argc\<close>, six arguments, the environment and the
  auxiliary vector. The last instruction, a \<open>ret\<close>, takes the entry from the stack.
\<close>

definition monitor_stack :: "addr \<Rightarrow> cell list \<Rightarrow> cell list \<Rightarrow> addr \<Rightarrow> cell list \<Rightarrow> start" where
  "monitor_stack new_stack new_envp aux entry args =
     (let new_sp = monitor_sp new_stack (length new_envp) (length aux);
          st = put_cells (new_sp + 8 * of_nat (length new_envp)) aux (put_cells new_sp new_envp (\<lambda>_. Num 0));
          new_sp = new_sp - 8 * 8;
          st = put_cells (new_sp - 8) (Num entry # Num 6 # args @ [Num 0]) st
      in \<lparr>st_rsp = new_sp, st_rip = entry, st_cells = st\<rparr>)"

text \<open>\<open>load_secpoline\<close>: \<open>mappings\<close> and \<open>rip\<close> are arguments, \<open>fs\<close> is the base of FS.\<close>

definition load_secpoline :: "lenv \<Rightarrow> bool \<Rightarrow> string list \<Rightarrow> string list \<Rightarrow> aux \<Rightarrow> u64 \<Rightarrow> u64 \<Rightarrow> u64 \<Rightarrow> lds \<Rightarrow> (start \<times> lds) res" where
  "load_secpoline L is_loader argv envp auxv mappings rip fs s =
     (if dso_lock s then Inl Deadlock
      else rbind (dso_load_self L (s\<lparr>dso_lock := True\<rparr>))
      (\<lambda>(self, s). if self = 0 then Inl Exit
        else if \<not> is_loader \<and> length argv < 2 then Inl Exit
        else
          let name = secpoline_libc_loader envp in
          rbind (load_libc_loader L name s)
          (\<lambda>(d, s).
            let (new_stack, s) = c_mmap (l_host L) 0 0x100000 3 0x22 (- 1) 0 s in
            if new_stack = - 1 then Inl Exit
            else
              let new_aux = update_aux s d name (if is_loader then dso_base s d else 0) (aux_entries auxv) in
              rbind (secpoline_paths is_loader argv envp (aux_entries auxv) s)
              (\<lambda>(secpoline_path, loader_path).
                 Inr (monitor_stack new_stack (update_ldpreload envp) (aux_words new_aux) (dso_entry s d)
                        [Str name, Str secpoline_path, Num rip, Num fs, Num mappings, loader_path],
                      s\<lparr>dso_lock := False\<rparr>)))))"

section \<open>Starting the program\<close>

text \<open>The initial stack of a program.\<close>

definition start_words :: "string list \<Rightarrow> string list \<Rightarrow> aux \<Rightarrow> cell list" where
  "start_words argv envp auxv =
     Num (of_nat (length argv)) # map Str argv @ [Null] @ map Str envp @ [Null] @ aux_words auxv"

text \<open>A path that is not absolute and does not start with a dot gets one.\<close>

definition application_path :: "cell \<Rightarrow> cell" where
  "application_path c = (case c of Str p \<Rightarrow> if p \<noteq> [] \<and> (hd p = CHR ''/'' \<or> hd p = CHR ''.'') then Str p else Str (''./'' @ p) | _ \<Rightarrow> c)"

text \<open>
  The words from \<open>sp[2]\<close> up to the type \<open>AT_NULL\<close> move down by one, then the name of the loader becomes the first argument, and the
  second one is made a path. The word that the move leaves behind is the old one.
\<close>

definition shift_stack :: "string \<Rightarrow> cell list \<Rightarrow> cell list" where
  "shift_stack name st =
     (let st = hd st # drop 2 st @ [last st];
          st = st[1 := Str name, 0 := (case st ! 0 of Num n \<Rightarrow> Num (n - 1) | c \<Rightarrow> c)]
      in st[2 := application_path (st ! 2)])"

text \<open>\<open>main\<close>; \<open>monitor\<close> is what \<open>get_mappings\<close> and \<open>asm_load_secpoline\<close> do until the latter returns. The result is the stack for the loader and its entry.\<close>

definition main_loader :: "lenv \<Rightarrow> bool \<Rightarrow> (lds \<Rightarrow> lds) \<Rightarrow> string list \<Rightarrow> string list \<Rightarrow> aux \<Rightarrow> lds \<Rightarrow> (cell list \<times> addr \<times> lds) res" where
  "main_loader L is_loader monitor argv envp auxv s =
     (let s = (if c_getenv ''SECPOLINE'' envp \<noteq> Some ''DISABLE'' then reset_dso (ld_malloc_reset (monitor s)) else s) in
      if dso_lock s then Inl Deadlock
      else rbind (dso_load_self L (s\<lparr>dso_lock := True\<rparr>))
      (\<lambda>(self, s). if self = 0 then Inl Exit
        else if \<not> is_loader \<and> length argv < 3 then Inl Exit
        else
          let name = (case c_getenv ''LOADER_PATH'' envp of Some v \<Rightarrow> v | None \<Rightarrow> default_loader) in
          rbind (load_libc_loader L name s)
          (\<lambda>(d, s).
             let st = (if is_loader then start_words argv envp auxv
                       else shift_stack name (start_words argv envp (update_aux s d name 0 (aux_entries auxv))))
             in Inr (st, dso_entry s d, s\<lparr>dso_lock := False\<rparr>))))"

end
