(* ===== verification/LaunchProps.thy ===== *)
theory LaunchProps
  imports Launch
begin

text \<open>
  What the loader hands to the monitor and to the program: the environment, the stack of the monitor and the stack of the program.
\<close>

section \<open>The environment\<close>

text \<open>A variable in the environment of the monitor, when \<open>SECPOLINE_LD_PRELOAD\<close> has the value \<open>sp\<close>.\<close>

definition env_new :: "string option \<Rightarrow> string \<Rightarrow> string" where
  "env_new sp e =
     (if env_name e = ''LD_PRELOAD'' then ''LD_PRELOAD='' @ the sp
      else if env_name e = ''GLIBC_TUNABLES'' then e @ ''glibc.pthread.rseq=0'' else e)"

lemma getenv_set: "is_var e \<Longrightarrow> e \<in> set es \<Longrightarrow> c_getenv (env_name e) es \<noteq> None"
  by (induction es) auto

lemma env_slots_length [simp]: "length (env_slots sp ld gt i es slots) = length slots"
  by (induction es arbitrary: i slots) (simp_all add: env_slot_def)

lemma env_slot_var:
  assumes "is_var e" "env_name e = ''LD_PRELOAD'' \<longrightarrow> sp \<noteq> None \<and> ld \<noteq> None" "env_name e = ''GLIBC_TUNABLES'' \<longrightarrow> gt \<noteq> None"
  shows "env_slot sp ld gt i e slots = slots[i := Str (env_new sp e)]"
  using assms by (simp add: env_slot_def env_new_def)

lemma env_slots_all:
  assumes "\<forall>e\<in>set es. is_var e" "\<forall>e\<in>set es. env_name e = ''LD_PRELOAD'' \<longrightarrow> sp \<noteq> None \<and> ld \<noteq> None"
    "\<forall>e\<in>set es. env_name e = ''GLIBC_TUNABLES'' \<longrightarrow> gt \<noteq> None" "length es \<le> length mid"
  shows "env_slots sp ld gt (length pre) es (pre @ mid) = pre @ map (\<lambda>e. Str (env_new sp e)) es @ drop (length es) mid"
  using assms
proof (induction es arbitrary: pre mid)
  case (Cons e es)
  then obtain m ms where m: "mid = m # ms" by (cases mid) auto
  have "env_slots sp ld gt (length pre) (e # es) (pre @ mid) = env_slots sp ld gt (length (pre @ [Str (env_new sp e)])) es ((pre @ [Str (env_new sp e)]) @ ms)"
    using Cons.prems m by (simp add: env_slot_var)
  then show ?case using Cons.IH [of ms "pre @ [Str (env_new sp e)]"] Cons.prems m by simp
qed simp

lemma append_var_app: "append_var e (xs @ [x]) = xs @ [Str e, Undef]"
  by (simp add: append_var_def)



text \<open>If \<open>LD_PRELOAD\<close> is set and \<open>SECPOLINE_LD_PRELOAD\<close> is not, its slot stays a null pointer, which ends the environment there.\<close>

lemma env_slots_other: "j < i \<or> i + length es \<le> j \<Longrightarrow> env_slots sp ld gt i es slots ! j = slots ! j"
proof (induction es arbitrary: i slots)
  case (Cons e es)
  then show ?case by (auto simp: env_slot_def)
qed simp

lemma env_slots_append: "env_slots sp ld gt i (xs @ ys) slots = env_slots sp ld gt (i + length xs) ys (env_slots sp ld gt i xs slots)"
  by (induction xs arbitrary: i slots) simp_all

theorem preload_cuts_environment:
  assumes "c_getenv ''SECPOLINE_LD_PRELOAD'' (xs @ e # ys) = None" "is_var e" "env_name e = ''LD_PRELOAD''"
  shows "update_ldpreload (xs @ e # ys) ! length xs = Null"
proof -
  let ?gt = "c_getenv ''GLIBC_TUNABLES'' (xs @ e # ys)" and ?ld = "c_getenv ''LD_PRELOAD'' (xs @ e # ys)"
  let ?r = "replicate (Suc (length (xs @ e # ys))) Null"
  define slots where "slots = (if ?gt = None then append_var ''GLIBC_TUNABLES=glibc.pthread.rseq=0'' ?r else ?r)"
  have n: "slots ! length xs = Null" by (auto simp: slots_def append_var_def nth_append nth_list_update simp del: replicate_Suc)
  have "update_ldpreload (xs @ e # ys) = env_slots None ?ld ?gt 0 (xs @ e # ys) slots"
    unfolding update_ldpreload_def Let_def assms(1) slots_def by simp
  also have "\<dots> = env_slots None ?ld ?gt (Suc (length xs)) ys (env_slots None ?ld ?gt 0 xs slots)"
    using assms(2,3) by (simp add: env_slots_append env_slot_def)
  finally show ?thesis using n by (simp add: env_slots_other)
qed

theorem preload_cuts_environment_witness: "update_ldpreload [''A=1'', ''LD_PRELOAD=x'', ''B=2''] ! 1 = Null"
proof -
  have "c_getenv ''SECPOLINE_LD_PRELOAD'' ([''A=1''] @ ''LD_PRELOAD=x'' # [''B=2'']) = None" "is_var ''LD_PRELOAD=x''" "env_name ''LD_PRELOAD=x'' = ''LD_PRELOAD''"
    by (simp_all add: is_var_def env_name_def)
  from preload_cuts_environment [OF this] show ?thesis by simp
qed

section \<open>The stack of the monitor\<close>

lemma put_cells_in:
  "i < length cs \<Longrightarrow> 8 * length cs < 2 ^ 64 \<Longrightarrow> put_cells a cs st (a + 8 * of_nat i) = cs ! i"
proof -
  assume i: "i < length cs" "8 * length cs < 2 ^ 64"
  have "8 * of_nat i = (of_nat (8 * i) :: u64)" by simp
  moreover have "unat (of_nat (8 * i) :: u64) = 8 * i" by (rule unat_of_nat_small) (use i in simp)
  ultimately have "unat (a + 8 * of_nat i - a) = 8 * i" by simp
  then show ?thesis using i by (simp add: put_cells_def)
qed

lemma put_cells_out: "8 * length cs \<le> unat (x - a) \<Longrightarrow> put_cells a cs st x = st x"
  by (simp add: put_cells_def) arith

text \<open>The place of the environment: aligned, with room for the words above it.\<close>

definition stack_top :: "addr \<Rightarrow> nat \<Rightarrow> nat \<Rightarrow> addr" where
  "stack_top new_stack e x =
     (let top = new_stack + 0x100000 - 8 - 8 * of_nat e - 8 * of_nat x in if top mod 16 \<noteq> 0 then top - 8 else top)"

lemma align_8: "16 dvd (if 8 * k mod 16 \<noteq> 0 then 8 * k - 8 else 8 * k)" for k :: nat
  by presburger

lemma stack_top_bounds:
  assumes a: "4096 dvd unat new_stack" "unat new_stack + 0x100000 < 2 ^ 64" and n: "8 * (e + x) + 96 \<le> 0x100000"
  shows "16 dvd unat (stack_top new_stack e x)" "unat new_stack + 72 \<le> unat (stack_top new_stack e x)"
    "unat (stack_top new_stack e x) + 8 * (e + x) \<le> unat new_stack + 0x100000"
proof -
  define top where "top = new_stack + 0x100000 - 8 - 8 * of_nat e - 8 * of_nat x"
  let ?S = "unat new_stack"
  have ue: "unat (8 * of_nat e :: u64) = 8 * e" and ux: "unat (8 * of_nat x :: u64) = 8 * x"
    using unat_of_nat_small [of "8 * e"] unat_of_nat_small [of "8 * x"] n by simp_all
  have s1: "unat (new_stack + 0xffff8) = ?S + 0xffff8" using a(2) by (simp add: unat_plus_nowrap)
  have s2: "unat (new_stack + 0xffff8 - 8 * of_nat e) = ?S + 0xffff8 - 8 * e"
    by (subst unat_minus_le) (use n in \<open>simp_all only: s1 ue\<close>, simp)
  have "top = new_stack + 0xffff8 - 8 * of_nat e - 8 * of_nat x" by (simp add: top_def)
  then have t: "unat top = ?S + 0x100000 - 8 - 8 * e - 8 * x"
    using unat_minus_le [of "8 * of_nat x" "new_stack + 0xffff8 - 8 * of_nat e"] n by (simp only: s2 ux) simp
  obtain q where q: "?S = 4096 * q" using a(1) by blast
  have t': "unat top = 8 * (512 * q + 131071 - e - x)" unfolding t q using n by simp
  have m: "top mod 16 \<noteq> 0 \<longleftrightarrow> unat top mod 16 \<noteq> 0" by (simp add: word_unat_eq_iff unat_mod)
  have sp: "stack_top new_stack e x = (if unat top mod 16 \<noteq> 0 then top - 8 else top)"
    unfolding stack_top_def Let_def top_def [symmetric] m ..
  have ge: "?S + 88 \<le> unat top" unfolding t using n by simp
  then have u: "unat (stack_top new_stack e x) = (if unat top mod 16 \<noteq> 0 then unat top - 8 else unat top)"
    unfolding sp by (simp add: unat_minus_le)
  show "16 dvd unat (stack_top new_stack e x)" unfolding u t' by (rule align_8)
  show "unat new_stack + 72 \<le> unat (stack_top new_stack e x)" unfolding u using ge by (auto; linarith)
  show "unat (stack_top new_stack e x) + 8 * (e + x) \<le> unat new_stack + 0x100000" unfolding u t using n by simp
qed

text \<open>Two arrays one after the other.\<close>

lemma put_cells_two:
  assumes "j < length xs + length ys" "8 * (length xs + length ys) \<le> 0x100000"
  shows "put_cells (sp + 8 * of_nat (length xs)) ys (put_cells sp xs st) (sp + 8 * of_nat j) = (xs @ ys) ! j"
proof (cases "j < length xs")
  case False
  then have "sp + 8 * of_nat j = sp + 8 * of_nat (length xs) + 8 * of_nat (j - length xs)" by (simp add: of_nat_diff algebra_simps)
  moreover have "put_cells (sp + 8 * of_nat (length xs)) ys (put_cells sp xs st) (sp + 8 * of_nat (length xs) + 8 * of_nat (j - length xs)) = ys ! (j - length xs)"
    by (rule put_cells_in) (use False assms in simp_all)
  ultimately show ?thesis using False by (simp add: nth_append)
next
  case True
  let ?m = "8 * (length xs - j)"
  have "sp + 8 * of_nat j - (sp + 8 * of_nat (length xs)) = 0 - of_nat ?m" using True by (simp add: of_nat_diff)
  moreover have "unat (of_nat ?m :: u64) = ?m" by (rule unat_of_nat_small) (use assms True in simp)
  ultimately have "unat (sp + 8 * of_nat j - (sp + 8 * of_nat (length xs))) = 2 ^ 64 - ?m"
    using unat_sub_if' [of 0 "of_nat ?m :: u64"] True by (auto simp: word_le_nat_alt)
  then have "put_cells (sp + 8 * of_nat (length xs)) ys (put_cells sp xs st) (sp + 8 * of_nat j) = put_cells sp xs st (sp + 8 * of_nat j)"
    using assms(2) by (intro put_cells_out) simp
  also have "\<dots> = xs ! j" by (rule put_cells_in) (use True assms in simp_all)
  finally show ?thesis using True by (simp add: nth_append)
qed

text \<open>
  C40. The stack of the monitor is aligned to 16 bytes and lies inside of its mapping; from the stack pointer upwards it has \<open>argc\<close>, the
  arguments, a null pointer, the environment and the auxiliary vector, as the ABI wants them, and the entry of the loader right below.
\<close>

theorem monitor_stack_layout:
  fixes new_stack entry args envs aux
  assumes a: "4096 dvd unat new_stack" "unat new_stack + 0x100000 < 2 ^ 64"
    and n: "length args = 6" "8 * (length envs + length aux) + 96 \<le> 0x100000"
  defines "r \<equiv> monitor_stack new_stack envs aux entry args" and "words \<equiv> Num 6 # args @ [Num 0] @ envs @ aux"
  shows "16 dvd unat (st_rsp r) \<and> unat new_stack + 8 \<le> unat (st_rsp r) \<and> unat (st_rsp r) + 8 * length words \<le> unat new_stack + 0x100000 \<and>
    st_rip r = entry \<and> st_cells r (st_rsp r - 8) = Num entry \<and> (\<forall>i<length words. st_cells r (st_rsp r + 8 * of_nat i) = words ! i)"
proof -
  let ?e = "length envs" and ?x = "length aux" and ?S = "unat new_stack"
  define sp where "sp = stack_top new_stack ?e ?x"
  define cs where "cs = put_cells (sp + 8 * of_nat ?e) aux (put_cells sp envs (\<lambda>_. Num 0))"
  let ?L = "Num entry # Num 6 # args @ [Num 0]"
  note top = stack_top_bounds [OF a n(2), folded sp_def]
  have r: "r = \<lparr>st_rsp = sp - 64, st_rip = entry, st_cells = put_cells (sp - 64 - 8) ?L cs\<rparr>"
    unfolding r_def monitor_stack_def monitor_sp_def Let_def cs_def sp_def stack_top_def by simp
  have rsp: "unat (sp - 64) = unat sp - 64" using top(2) n(2) by (simp add: unat_minus_le)
  have low: "put_cells (sp - 64 - 8) ?L cs (sp - 64 - 8 + 8 * of_nat j) = ?L ! j" if "j < 9" for j
    by (rule put_cells_in) (use that n(1) in simp_all)
  have high: "put_cells (sp - 64 - 8) ?L cs (sp + 8 * of_nat j) = (envs @ aux) ! j" if j: "j < ?e + ?x" for j
  proof -
    have "sp + 8 * of_nat j - (sp - 64 - 8) = of_nat (72 + 8 * j)" by simp
    moreover have "unat (of_nat (72 + 8 * j) :: u64) = 72 + 8 * j" by (rule unat_of_nat_small) (use j n(2) in simp)
    ultimately have "unat (sp + 8 * of_nat j - (sp - 64 - 8)) = 72 + 8 * j" by (simp only:)
    then have "put_cells (sp - 64 - 8) ?L cs (sp + 8 * of_nat j) = cs (sp + 8 * of_nat j)" using n(1) by (intro put_cells_out) simp
    also have "\<dots> = (envs @ aux) ! j" unfolding cs_def by (rule put_cells_two [OF j]) (use n(2) in simp)
    finally show ?thesis .
  qed
  have "st_cells r (st_rsp r + 8 * of_nat i) = words ! i" if i: "i < length words" for i
  proof (cases "i < 8")
    case True
    have e: "sp - 64 + 8 * of_nat i = sp - 64 - 8 + 8 * of_nat (Suc i)" by simp
    have "words = (Num 6 # args @ [Num 0]) @ envs @ aux" by (simp add: words_def)
    then have w: "words ! i = ?L ! Suc i" using True n(1) by (simp only: nth_append) simp
    show ?thesis unfolding w r using low [of "Suc i"] True by (simp only: start.simps e)
  next
    case False
    then have e: "sp - 64 + 8 * of_nat i = sp + 8 * of_nat (i - 8)" by (simp add: of_nat_diff)
    have "words = (Num 6 # args @ [Num 0]) @ envs @ aux" by (simp add: words_def)
    then have w: "words ! i = (envs @ aux) ! (i - 8)" using False n(1) by (simp only: nth_append) simp
    have "i - 8 < ?e + ?x" using i False n(1) unfolding words_def by simp
    from high [OF this] show ?thesis unfolding w r by (simp only: start.simps e)
  qed
  moreover have "st_cells r (st_rsp r - 8) = Num entry" using low [of 0] unfolding r by simp
  moreover have "16 dvd unat (sp - 64)" unfolding rsp using top(1,2) by (simp add: dvd_diff_nat)
  ultimately show ?thesis using top n rsp by (simp add: r words_def)
qed

theorem monitor_stack_layout_witness:
  "let r = monitor_stack 0x10000 [Str ''A=1'', Null] [Num 0] 0x500 [Str ''ld'', Str ''lib'', Num 1, Num 2, Num 3, Str ''loader''] in
   16 dvd unat (st_rsp r) \<and> st_cells r (st_rsp r) = Num 6 \<and> st_cells r (st_rsp r - 8) = Num 0x500 \<and> st_cells r (st_rsp r + 64) = Str ''A=1''"
proof -
  let ?r = "monitor_stack 0x10000 [Str ''A=1'', Null] [Num 0] 0x500 [Str ''ld'', Str ''lib'', Num 1, Num 2, Num 3, Str ''loader'']"
  from monitor_stack_layout [of "0x10000" "[Str ''ld'', Str ''lib'', Num 1, Num 2, Num 3, Str ''loader'']" "[Str ''A=1'', Null]" "[Num 0]" "0x500"]
  have t: "16 dvd unat (st_rsp ?r)" "st_cells ?r (st_rsp ?r - 8) = Num 0x500"
    and c: "\<forall>i<11. st_cells ?r (st_rsp ?r + 8 * of_nat i) =
      (Num 6 # [Str ''ld'', Str ''lib'', Num 1, Num 2, Num 3, Str ''loader''] @ [Num 0] @ [Str ''A=1'', Null] @ [Num 0]) ! i"
    by simp_all
  from c [THEN spec, of 0] c [THEN spec, of 8] t show ?thesis by simp
qed

section \<open>The stack of the program\<close>

text \<open>
  The program starts as if it had been called by the loader of the C library: the first two arguments, the loader and the
  monitor, are replaced by the path of that loader, the program gets a path that is not searched for, and everything else stays.
\<close>

theorem shift_stack_start:
  "shift_stack name (start_words (loader # secpoline # app # args) envp auxv) =
   start_words (name # (if app \<noteq> [] \<and> (hd app = CHR ''/'' \<or> hd app = CHR ''.'') then app else ''./'' @ app) # args) envp auxv @ [Num 0]"
  by (simp add: shift_stack_def start_words_def application_path_def aux_words_def Let_def)

text \<open>
  After the monitor has started, the loader asks for the object that represents itself again. It gets the one from before, but
  the list of objects was reset and stays empty: symbols of the loader are not found.
\<close>

theorem self_not_relinked:
  assumes "self_dso s \<noteq> 0"
  shows "dso_load_self L (reset_dso (ld_malloc_reset s)) = Inr (self_dso s, reset_dso (ld_malloc_reset s)) \<and>
    loaded_objects (reset_dso (ld_malloc_reset s)) = 0"
  using assms by (simp add: dso_load_self_def Let_def reset_dso_def ld_malloc_reset_def)

end
