(* ===== verification/Diagnostics.thy ===== *)
theory Diagnostics
  imports Segfault
begin

text \<open>
  The diagnostic functions of \<open>src/src/include/nolibc_util.h\<close>. The three printing functions have a body only in builds with \<open>DEBUG\<close>; the
  model is that of such a build. A message is put together in a buffer of 256 bytes on the stack and written with one system call; a
  store behind the buffer is \<open>Inl OutOfBounds\<close>. The result is the message. \<open>buf\<close>, \<open>old_act\<close> and \<open>mask\<close> are the addresses of local variables.
\<close>

section \<open>Numbers\<close>

text \<open>The digits are written from the end of \<open>num_buf\<close> to its start, so the last one is the lowest.\<close>

function dec_digits :: "u64 \<Rightarrow> u8 list" where
  "dec_digits tmp = (if tmp = 0 then [] else dec_digits (tmp div 10) @ [48 + ucast (tmp mod 10)])"
  by auto

termination
  by (relation "measure unat") (auto simp: unat_div unat_gt_0)

function hex_digits :: "u64 \<Rightarrow> u8 list" where
  "hex_digits tmp =
     (if tmp = 0 then []
      else let digit = tmp AND 15 in
           hex_digits (drop_bit 4 tmp) @ [if digit < 10 then 48 + ucast digit else 97 + ucast digit - 10])"
  by auto

termination
  by (relation "measure unat") (auto simp: drop_bit_eq_div unat_div unat_gt_0)

definition dec_text :: "u64 \<Rightarrow> u8 list" where "dec_text v = (if v = 0 then [48] else dec_digits v)"
definition hex_text :: "u64 \<Rightarrow> u8 list" where "hex_text v = (if v = 0 then [48] else hex_digits v)"

section \<open>The buffer\<close>

text \<open>\<open>buf[pos++] = c\<close> for every byte; \<open>num_buf\<close> has room for 31 digits.\<close>

definition buf_put :: "u8 list \<Rightarrow> u8 list \<Rightarrow> u8 list res" where
  "buf_put bytes buf = (if length buf + length bytes \<le> 256 then Inr (buf @ bytes) else Inl OutOfBounds)"

definition put_number :: "u8 list \<Rightarrow> u8 list \<Rightarrow> u8 list res" where
  "put_number digits buf = (if length digits \<le> 31 then buf_put digits buf else Inl OutOfBounds)"

definition put_tid :: "u64 \<Rightarrow> u8 list res" where
  "put_tid tid = rbind (buf_put [91] []) (\<lambda>buf. rbind (put_number (dec_text tid) buf) (buf_put [93, 32]))"

definition put_prefix :: "u8 list option \<Rightarrow> u8 list \<Rightarrow> u8 list res" where
  "put_prefix prefix buf = (case prefix of None \<Rightarrow> Inr buf | Some p \<Rightarrow> buf_put (p @ [32]) buf)"

section \<open>Messages\<close>

text \<open>The frame of the three functions: calls are allowed, the message begins with the thread, and the selector is restored.\<close>

definition print_message :: "env \<Rightarrow> addr \<Rightarrow> (u8 list \<Rightarrow> u8 list res) \<Rightarrow> 'z kern_scheme \<Rightarrow> (u8 list \<times> 'z kern_scheme) res" where
  "print_message E buf body s =
     (let selector = get_sud s;
          (tid, s) = nolibc_gettid E (set_sud_allow s) in
      rbind (put_tid tid)
      (\<lambda>bytes. rbind (body bytes)
      (\<lambda>bytes. rbind (buf_put [10] bytes)
      (\<lambda>bytes. let (_, s) = inline_syscall6 E 1 2 buf (of_nat (length bytes)) 0 0 0 s in Inr (bytes, s\<lparr>sud_selector := selector\<rparr>)))))"

definition nolibc_print_size_t :: "env \<Rightarrow> addr \<Rightarrow> u8 list option \<Rightarrow> u64 \<Rightarrow> 'z kern_scheme \<Rightarrow> (u8 list \<times> 'z kern_scheme) res" where
  "nolibc_print_size_t E buf prefix v =
     print_message E buf (\<lambda>bytes. rbind (put_prefix prefix bytes) (put_number (dec_text v)))"

definition nolibc_print_size_t_hex :: "env \<Rightarrow> addr \<Rightarrow> u8 list option \<Rightarrow> u64 \<Rightarrow> 'z kern_scheme \<Rightarrow> (u8 list \<times> 'z kern_scheme) res" where
  "nolibc_print_size_t_hex E buf prefix v =
     print_message E buf
       (\<lambda>bytes. rbind (put_prefix prefix bytes) (\<lambda>bytes. rbind (buf_put [48, 120] bytes) (put_number (hex_text v))))"

text \<open>\<open>while (*p && pos < (int)(sizeof(buf) - 2)) buf[pos++] = *p++\<close>\<close>

primrec copy_string :: "u8 list \<Rightarrow> u8 list \<Rightarrow> u8 list res" where
  "copy_string [] buf = Inr buf"
| "copy_string (c # cs) buf = (if length buf < 254 then rbind (buf_put [c] buf) (copy_string cs) else Inr buf)"

definition nolibc_print_str :: "env \<Rightarrow> addr \<Rightarrow> u8 list \<Rightarrow> 'z kern_scheme \<Rightarrow> (u8 list \<times> 'z kern_scheme) res" where
  "nolibc_print_str E buf str = print_message E buf (copy_string str)"

section \<open>Handlers and masks\<close>

text \<open>Signal numbers start with 1.\<close>

definition nolibc_get_handler :: "env \<Rightarrow> addr \<Rightarrow> u64 \<Rightarrow> 'z kern_scheme \<Rightarrow> (addr \<times> 'z kern_scheme) res" where
  "nolibc_get_handler E old_act sig s =
     (let selector = get_sud s;
          (r, s) = inline_syscall6 E NR_rt_sigaction sig 0 old_act 8 0 0 (set_sud_allow s) in
      nolibc_assert ((ucast r :: c_int) = 0)
        (Inr (load64 (mem_at E s) old_act, s\<lparr>sud_selector := selector\<rparr>)))"

definition nolibc_is_blocked :: "env \<Rightarrow> addr \<Rightarrow> nat \<Rightarrow> 'z kern_scheme \<Rightarrow> (bool \<times> 'z kern_scheme) res" where
  "nolibc_is_blocked E mask_addr sig s =
     (let selector = get_sud s;
          (r, s) = inline_syscall6 E NR_rt_sigprocmask 2 0 mask_addr 8 0 0 (set_sud_allow s) in
      nolibc_assert ((ucast r :: c_int) = 0)
        (let idx = (sig - 1) div 64; i = (sig - 1) mod 64 in
         Inr (drop_bit i (load64 (mem_at E s) (mask_addr + 8 * of_nat idx)) AND 1 \<noteq> 0, s\<lparr>sud_selector := selector\<rparr>)))"

section \<open>The buffer is large enough\<close>

declare dec_digits.simps [simp del] hex_digits.simps [simp del]

lemma dec_digits_length: "unat v < 10 ^ k \<Longrightarrow> length (dec_digits v) \<le> k"
proof (induction k arbitrary: v)
  case 0
  then show ?case by (simp add: dec_digits.simps unat_eq_0)
next
  case (Suc k)
  have "unat (v div 10) < 10 ^ k" using Suc.prems by (simp add: unat_div div_less_iff_less_mult mult.commute)
  from Suc.IH [OF this] show ?case by (simp add: dec_digits.simps [of v])
qed

lemma dec_text_length: "length (dec_text v) \<le> 20"
proof -
  have "unat v < 10 ^ 20" using unat_lt_2p64 [of v] by simp
  from dec_digits_length [OF this] show ?thesis by (simp add: dec_text_def)
qed

lemma copy_string_take: "length buf \<le> 254 \<Longrightarrow> copy_string str buf = Inr (buf @ take (254 - length buf) str)"
proof (induction str arbitrary: buf)
  case (Cons c cs)
  then show ?case by (cases "length buf < 254") (simp_all add: buf_put_def take_Cons')
qed simp

text \<open>
  \<open>nolibc_print_str\<close> never stores behind its buffer: the message is the thread in brackets, as much of the text as fits, and a
  line feed. The selector is the same as before.
\<close>

theorem nolibc_print_str_bounded:
  "\<exists>tid s'. nolibc_print_str E buf str s =
     Inr ((91 # dec_text tid @ [93, 32]) @ take (251 - length (dec_text tid)) str @ [10], s') \<and>
     length ((91 # dec_text tid @ [93, 32]) @ take (251 - length (dec_text tid)) str @ [10]) \<le> 255 \<and> sud_selector s' = sud_selector s"
proof -
  obtain tid s1 where t: "nolibc_gettid E (set_sud_allow s) = (tid, s1)" by fastforce
  let ?h = "91 # dec_text tid @ [93, 32]"
  have h: "put_tid tid = Inr ?h" using dec_text_length [of tid] by (simp add: put_tid_def put_number_def buf_put_def)
  have c: "copy_string str ?h = Inr (?h @ take (254 - length ?h) str)" by (rule copy_string_take) (use dec_text_length [of tid] in simp)
  have n: "254 - length ?h = 251 - length (dec_text tid)" by simp
  have l: "length (?h @ take (254 - length ?h) str) \<le> 254" using dec_text_length [of tid] by simp
  have b: "buf_put [10] (?h @ take (254 - length ?h) str) = Inr ((?h @ take (254 - length ?h) str) @ [10])" using l by (simp add: buf_put_def)
  show ?thesis
    unfolding nolibc_print_str_def print_message_def Let_def t prod.case h rbind_Inr c b
    using l by (auto simp: get_sud_def n split: prod.splits)
qed

text \<open>A long prefix overruns the buffer of \<open>nolibc_print_size_t\<close>.\<close>

theorem nolibc_print_size_t_overruns:
  assumes "256 \<le> length p"
  shows "nolibc_print_size_t E buf (Some p) v s = Inl OutOfBounds"
proof -
  obtain tid s1 where t: "nolibc_gettid E (set_sud_allow s) = (tid, s1)" by fastforce
  have h: "put_tid tid = Inr (91 # dec_text tid @ [93, 32])"
    using dec_text_length [of tid] by (simp add: put_tid_def put_number_def buf_put_def)
  show ?thesis
    unfolding nolibc_print_size_t_def print_message_def Let_def t prod.case h rbind_Inr using assms by (simp add: put_prefix_def buf_put_def)
qed

end
