(* ===== verification/CloneTls.thy ===== *)
theory CloneTls
  imports Threads SignalsProps
begin

text \<open>
  The thread data of the C library for a new thread, \<open>init_tls_child\<close> of \<open>src/src/syscall_monitor/virtualize_threads.cpp\<close>: the monitor
  lets \<open>pthread_create\<close> allocate it and catches the clone that \<open>pthread_create\<close> makes. The functions of the C library are a parameter.
\<close>

record pthread_lib =
  pt_setdetachstate :: c_int
  pt_create :: "monitor \<Rightarrow> c_int \<times> monitor"
  pt_getattr_np :: "u64 \<Rightarrow> c_int"
  pt_getstack :: "u64 \<Rightarrow> c_int \<times> addr"

text \<open>A word of the memory, with the stores of the monitor.\<close>

definition stored_word :: "env \<Rightarrow> monitor \<Rightarrow> addr \<Rightarrow> u64" where
  "stored_word E s a = (case map_of (stores s) a of Some bs \<Rightarrow> word_of_bytes bs | None \<Rightarrow> load64 (mem_at E s) a)"

definition init_tls_child :: "env \<Rightarrow> pthread_lib \<Rightarrow> monitor \<Rightarrow> monitor res" where
  "init_tls_child E P s =
     nolibc_assert (child_stack s = 0)
     (let s = s\<lparr>fake_clone_flag := True\<rparr> in
      nolibc_assert (pt_setdetachstate P = 0)
      (let (result, s) = pt_create P s in
       nolibc_assert (result = 0)
       (nolibc_assert (child_stack s \<noteq> 0)
        (let child_tls = stored_word E s (child_stack s + 8);
             s = s\<lparr>child_stack := child_stack s - 8\<rparr>;
             (r, stack_addr) = pt_getstack P child_tls in
         nolibc_assert (pt_getattr_np P child_tls = 0)
         (nolibc_assert (r = 0)
          (Inr (s\<lparr>stores := (child_stack s, store64 stack_addr) # stores s, fake_clone_flag := False\<rparr>)))))))"

text \<open>
  If \<open>pthread_create\<close> succeeds and makes one clone with stack \<open>st\<close>, the stack of the child has, from the bottom, the address of the
  stack of the thread that was created, the place for the thread id and the thread pointer, 24 bytes below \<open>st\<close>.
\<close>

theorem init_tls_child_stack:
  assumes "child_stack s = 0" "pt_setdetachstate P = 0" "\<And>s. pt_create P s = (0, snd (virual_clone_wrapper E st ptid tls s))"
    and "pt_getattr_np P tls = 0" "pt_getstack P tls = (0, stack)" "st \<noteq> 16"
  shows "\<exists>s'. init_tls_child E P s = Inr s' \<and> child_stack s' = st - 24 \<and> \<not> fake_clone_flag s' \<and>
    stored_word E s' (st - 24) = stack \<and> stored_word E s' (st - 16) = ptid \<and> stored_word E s' (st - 8) = tls"
proof -
  have ne: "st - 16 \<noteq> st - 24" "st - 8 \<noteq> st - 24" "st - 8 \<noteq> st - 16" by simp_all
  define s1 where "s1 = snd (virual_clone_wrapper E st ptid tls (s\<lparr>fake_clone_flag := True\<rparr>))"
  have s1: "child_stack s1 = st - 16" "stores s1 = (st - 8, store64 tls) # (st - 16, store64 ptid) # stores s"
    by (simp_all add: s1_def virual_clone_wrapper_def nolibc_gettid_def syscall_defs Let_def)
  have t: "stored_word E s1 (st - 8) = tls" by (simp add: stored_word_def s1)
  let ?s = "s1\<lparr>child_stack := st - 24, stores := (st - 24, store64 stack) # stores s1, fake_clone_flag := False\<rparr>"
  have "init_tls_child E P s = Inr ?s"
    using assms t by (simp add: init_tls_child_def s1 flip: s1_def)
  moreover have "stored_word E ?s (st - 24) = stack" "stored_word E ?s (st - 16) = ptid" "stored_word E ?s (st - 8) = tls"
    using ne by (simp_all add: stored_word_def s1)
  ultimately show ?thesis by auto
qed

end
