(* ===== verification/Spec2Isabelle.thy ===== *)
theory Spec2Isabelle
  imports PageProps MapsProps FilesProps SignalsProps BreakpointProps ThreadSync HandlersProps TableProps EntryProps MetaProps StartupProps SymbolsProps LdMallocProps SegmentsProps DsoHeap LaunchProps Diagnostics CloneTls
begin

text \<open>
  Secpoline puts a monitor into the process of an application and makes every system call of the application go through it. The monitor
  protects itself with protection keys: its pages have other keys than those of the application, and code that could change the key
  register may not be executable unless hardware breakpoints watch it. This development models the monitor
  (\<open>src/src/secpoline.cpp\<close>, \<open>src/src/syscall_monitor\<close>, \<open>src/src/syscall_handlers\<close>, \<open>src/src/segfault_handler\<close>, \<open>src/src/include\<close>) and the
  loader that starts it (\<open>src/src/secpoline_loader\<close>).

  \<^bold>\<open>How the parts work together.\<close> The loader maps the loader of the C library twice: once to start the monitor on a stack of its own, and
  then to start the application. The monitor lists the mappings that exist, gives them keys, scans them for instructions that change keys
  (\<open>wrpkru\<close>, \<open>xrstor\<close>, \<open>wrgsbase\<close>), fills the table of handlers and enables syscall user dispatch. A system call of the application then
  raises \<open>SIGSYS\<close>; its instruction is rewritten to a call of the page at address 0, and both ways lead to the same hook. The hook runs the
  handlers of the call: they check descriptors, keep the list of all mappings and their owners, scan memory before it becomes executable,
  keep the signal handlers of the application in a table, and copy data between the compartments. A page with unsafe instructions is
  not executable; running into it raises \<open>SIGSEGV\<close>, whose handler places hardware breakpoints on the unsafe instructions in every thread
  and makes the page executable, and a breakpoint that is hit raises \<open>SIGTRAP\<close>. System calls that libraries of the monitor make go to
  the meta monitor.

  \<^bold>\<open>Conventions.\<close> Integers are words of their width and wrap. The state of a component is a record that extends the record of the
  component below it, and an operation maps a state to a result: \<open>Inl\<close> of a \<open>crash\<close> for everything that ends the process, \<open>Inr\<close> otherwise
  (\<open>Prelude\<close>). The kernel, the processor and the memory of the application are a parameter \<open>env\<close>, whose answers are functions of the whole
  history of system calls; the history is part of the state (\<open>Host\<close>), and what the monitor asks the kernel for is stated of it. The C and C++
  libraries are modelled where the code uses their results, and are arguments where the results depend on their internals. The loader
  works on the memory byte for byte (\<open>Memory\<close>).

  \<^bold>\<open>The theories, by component.\<close>

  \<^item> Page manager, \<open>virt_page_manager.cpp\<close>: \<open>VirtPages\<close> has the list of page groups and its operations, \<open>PageView\<close> reads the list as a map
  from addresses to owners and protections and has the invariant \<open>wf_pages\<close>, \<open>PageRemove\<close> and \<open>PageUpdate\<close> show what the bodies of the
  operations do to this map. \<open>PageOps\<close> has the operations under the lock and the locale \<open>page_tracker\<close> with its interpretation on them:
  no sequence of operations of one compartment changes what another owns. \<open>PageProps\<close>: each operation on every branch.

  \<^item> Scanner and list of unsafe pages, \<open>erim.cpp\<close> and \<open>erim.h\<close>: \<open>Erim\<close>; \<open>ErimFacts\<close> shows which instructions a scan finds, that the list is a
  map from pages to notes (a locale and its interpretation), and which requests a scan makes. \<open>Frame\<close>: what these operations leave alone.

  \<^item> Mapping services, \<open>virtualize_maps.cpp\<close>: \<open>Maps\<close>; \<open>MapsFacts\<close> and \<open>MapsProps\<close> show that whatever becomes executable was scanned clean
  before, in the same call, and that the list follows what the kernel did.

  \<^item> Copies between the compartments, \<open>mpk_isolation.cpp\<close> and \<open>mpk_isolation.h\<close>: \<open>Isolation\<close>.

  \<^item> File descriptors, \<open>virtualize_files.cpp\<close> and \<open>virtualize_files.h\<close>: \<open>Files\<close>, \<open>FilesProps\<close>; the growing bitmap is a set.

  \<^item> Signals, \<open>vIrTuAlIzE_sIgNaLs.cpp\<close> and \<open>signal_handlers.h\<close>: \<open>Signals\<close>, \<open>SignalsProps\<close>; the kernel never gets a handler of the application.

  \<^item> Hardware breakpoints and faults, \<open>hardware_breakpoints.cpp\<close> and \<open>segfault_handler.cpp\<close>: \<open>Breakpoints\<close>, \<open>Segfault\<close>, \<open>BreakpointProps\<close>;
  every executable page is guarded. \<open>ThreadSync\<close> is the protocol of the threads as interleaved steps, with safety and termination.

  \<^item> Threads, \<open>setup_new_thread.cpp\<close> and \<open>virtualize_threads.cpp\<close>: \<open>Threads\<close>, \<open>CloneTls\<close>.

  \<^item> Handlers, table and dispatch, \<open>main_monitor.cpp\<close>, \<open>secpoline.cpp\<close>, \<open>secpoline.h\<close> and \<open>syscall_grouping.h\<close>: \<open>Handlers\<close>, \<open>Table\<close>,
  \<open>HandlersFacts\<close>, \<open>HandlersProps\<close>, \<open>TableProps\<close>; the statements about every system call are here.

  \<^item> Entry, \<open>zpoline.cpp\<close> and \<open>sud.cpp\<close>: \<open>Zpoline\<close>, \<open>Sud\<close>, \<open>EntryProps\<close>; both ways into the hook agree.

  \<^item> Meta monitor, \<open>meta_monitor.cpp\<close>: \<open>Meta\<close>, \<open>MetaProps\<close>.

  \<^item> Start, \<open>mpk_isolation.cpp\<close>, \<open>secpoline.cpp\<close> and \<open>get_mappings.c\<close>: \<open>ProcMaps\<close>, \<open>ProcMapsProps\<close>, \<open>Startup\<close>, \<open>StartupProps\<close>.

  \<^item> Loader, ELF files and symbols, \<open>elf.c\<close>, \<open>symhash.c\<close>, \<open>sym.c\<close>, \<open>reloc.c\<close>: \<open>Elf\<close>, \<open>Symbols\<close>, \<open>SymbolsProps\<close>.

  \<^item> Loader, allocator, \<open>ld_malloc.c\<close>: \<open>LdMalloc\<close>. The proof that the chunks of the heap stay a tiling of the arenas and the free list holds
  exactly the free ones is in \<open>LdMallocWords\<close>, \<open>LdMallocGeo\<close>, \<open>LdMallocInv\<close>, \<open>LdMallocSplit\<close>, \<open>LdMallocAlloc\<close> and \<open>LdMallocFree\<close>;
  \<open>LdMallocProps\<close> has the locale \<open>block_store\<close>, its interpretation, and what the allocator does with wrong arguments.

  \<^item> Loader, segments and objects, \<open>loader.c\<close>, \<open>dso.c\<close>, \<open>deps.c\<close>, \<open>dynlink.c\<close>, \<open>init.c\<close>, \<open>libpath.c\<close>, \<open>util.c\<close>, \<open>dlfcn.c\<close>: \<open>Segments\<close> and
  \<open>SegmentsProps\<close> (a file is loaded as its headers say), \<open>Dso\<close>, \<open>Dynlink\<close> and \<open>DsoProps\<close> (the pointers of the objects are a list, with the
  locale \<open>object_list\<close>; opening and closing a library is neutral), \<open>DsoHeap\<close> (the objects on the heap of
  the allocator: the last reference of an object gives its memory back and leaves the other objects and the heap in order).

  \<^item> Loader, start of the monitor and of the application, \<open>call_secpoline.c\<close> and \<open>main.c\<close>: \<open>Launch\<close>, \<open>LaunchProps\<close>.

  \<^item> Messages, \<open>nolibc_util.h\<close>: \<open>Diagnostics\<close>, for builds with \<open>DEBUG\<close>.

  \<^bold>\<open>Rounds.\<close> A loop that ends at a terminator in memory or at the end of a list in memory, or that waits for the kernel, has a number of
  rounds; running out of them is \<open>Inl NoFuel\<close>. Statements that something is returned say which number is enough: more than the length of
  the free list for \<open>ld_malloc\<close>, more than the number of objects for \<open>dso_ref\<close> and \<open>dso_find\<close>, the size of the file for reading a
  file in pieces. Statements that something bad is not done hold for every number. Loops over arrays of known length and over words are
  total functions.

  \<^bold>\<open>Assumptions.\<close> Where a statement needs the kernel to behave as documented, this is a named hypothesis of the statement: \<open>kernel_maps\<close> for
  the fixed mappings of the loader, that a mapping the kernel chooses does not overlap blocks in use for the allocator, that \<open>read\<close> returns
  no more than it was asked for. Each has an example that satisfies it. A state that is left when the code crashes is not described.

  \<^bold>\<open>Not modelled.\<close> The entry points in assembly (\<open>asm_syscall_hook.asm\<close>, \<open>asm_entry_points.asm\<close>, \<open>asm_syscall.asm\<close>,
  \<open>restore_selector_trampoline.asm\<close>, \<open>signal_handler_entry.asm\<close>, \<open>asm_load_secpoline.asm\<close>), which switch stacks and rights around the
  functions modelled here; the start code of the loader (\<open>crt\<close>); \<open>fix_debugger.c\<close>, which nothing calls, and the debug flags
  (\<open>debug.c\<close>, \<open>env.c\<close>); data races other than those of the thread protocol; tests and benchmarks. The messages of the loader are left out.
\<close>

end
